(* ===== verification/Go_Prelude.thy ===== *)
theory Go_Prelude
  imports Main "HOL-Library.Char_ord" "HOL-Library.List_Lexorder" "HOL-Library.AList"
    "HOL-Library.Sublist" "HOL-Library.Multiset"
begin

text \<open>
  What the components share: the part of the Go language and of its standard library
  that the sources use, as executable definitions, with the generic lemmas on them.
  \<^item> A Go string is a HOL \<open>string\<close>, one \<open>char\<close> per byte; \<open><\<close> on strings is the bytewise
    lexicographic order that \<^verbatim>\<open>sort.Strings\<close> uses.
  \<^item> A Go map with string keys is an association list; the position of an entry stands for
    the unspecified iteration order of \<^verbatim>\<open>range\<close>, so a result that does not depend on that
    order is a result that no permutation of the list changes.
  \<^item> A possibly nil pointer is an \<open>option\<close>; an \<^verbatim>\<open>error\<close> result is the left side of a sum.
\<close>

named_theorems gomap_simps \<open>rewrite rules on Go maps\<close>
named_theorems first_some_simps \<open>rules that take a chain of checks apart\<close>

lemma sub_Un_trans: "A \<subseteq> B \<union> U \<Longrightarrow> B \<subseteq> C \<union> I \<Longrightarrow> A \<subseteq> C \<union> (I \<union> U)"
  by blast

section \<open>Ordered checks\<close>

text \<open>
  A function that returns the first of several errors is a list of optional errors, in
  source order, of which the first present one is returned.
\<close>

fun first_some :: "'e option list \<Rightarrow> 'e option" where
  "first_some [] = None"
| "first_some (x # xs) = (case x of Some e \<Rightarrow> Some e | None \<Rightarrow> first_some xs)"

definition refuse_if :: "bool \<Rightarrow> 'e \<Rightarrow> 'e option" where
  "refuse_if b e = (if b then Some e else None)"

lemma refuse_if_None [simp]: "refuse_if b e = None \<longleftrightarrow> \<not> b"
  by (simp add: refuse_if_def)

lemma refuse_if_Some [simp]: "refuse_if b e = Some e' \<longleftrightarrow> b \<and> e' = e"
  by (auto simp: refuse_if_def)

lemma refuse_if_True [simp]: "refuse_if True e = Some e"
  by (simp add: refuse_if_def)

lemma refuse_if_False [simp]: "refuse_if False e = None"
  by (simp add: refuse_if_def)

lemma first_some_Cons_None [first_some_simps]:
  "first_some (x # xs) = None \<longleftrightarrow> x = None \<and> first_some xs = None"
  by (cases x) auto

lemma first_some_skip [simp]: "first_some (None # xs) = first_some xs"
  by simp

lemma first_some_hit [simp]: "first_some (Some e # xs) = Some e"
  by simp

lemma first_some_None: "first_some xs = None \<longleftrightarrow> (\<forall>x \<in> set xs. x = None)"
  by (induction xs) (auto split: option.splits)

lemma first_some_Some_in: "first_some xs = Some e \<Longrightarrow> Some e \<in> set xs"
  by (induction xs) (auto split: option.splits)

lemma first_some_append:
  "first_some (xs @ ys) = (case first_some xs of Some e \<Rightarrow> Some e | None \<Rightarrow> first_some ys)"
  by (induction xs) (auto split: option.splits)

declare first_some.simps(2) [simp del]

section \<open>Go maps\<close>

type_synonym 'v gomap = "(string \<times> 'v) list"

abbreviation gokeys :: "'v gomap \<Rightarrow> string list" where
  "gokeys m \<equiv> map fst m"

definition gomap_ok :: "'v gomap \<Rightarrow> bool" where
  "gomap_ok m = distinct (gokeys m)"

abbreviation gget :: "'v gomap \<Rightarrow> string \<Rightarrow> 'v option" where
  "gget m k \<equiv> map_of m k"

abbreviation gput :: "string \<Rightarrow> 'v \<Rightarrow> 'v gomap \<Rightarrow> 'v gomap" where
  "gput k v m \<equiv> AList.update k v m"

abbreviation gdelete :: "string \<Rightarrow> 'v gomap \<Rightarrow> 'v gomap" where
  "gdelete k m \<equiv> AList.delete k m"

definition the_default :: "'v \<Rightarrow> 'v option \<Rightarrow> 'v" where
  "the_default d x = (case x of Some v \<Rightarrow> v | None \<Rightarrow> d)"

lemma the_default_simps [simp]: "the_default d (Some v) = v" "the_default d None = d"
  by (simp_all add: the_default_def)

definition ghas :: "'v gomap \<Rightarrow> string \<Rightarrow> bool" where
  "ghas m k = (map_of m k \<noteq> None)"

lemma ghas_iff [simp]: "ghas m k \<longleftrightarrow> k \<in> set (gokeys m)"
  by (auto simp: ghas_def map_of_eq_None_iff)

lemma gget_gput [gomap_simps, simp]:
  "gget (gput k v m) k' = (if k' = k then Some v else gget m k')"
  by (simp add: update_conv')

lemma gget_gdelete [gomap_simps, simp]:
  "gget (gdelete k m) k' = (if k' = k then None else gget m k')"
  by (simp add: delete_conv')

lemma gokeys_gput: "set (gokeys (gput k v m)) = insert k (set (gokeys m))"
  using dom_update [of k v m] by (simp add: dom_map_of_conv_image_fst)

lemma gomap_ok_gput [simp, intro]: "gomap_ok m \<Longrightarrow> gomap_ok (gput k v m)"
  by (simp add: gomap_ok_def distinct_update)

lemma gomap_ok_gdelete [simp, intro]: "gomap_ok m \<Longrightarrow> gomap_ok (gdelete k m)"
  by (simp add: gomap_ok_def distinct_delete)

lemma gget_in_keys: "gget m k = Some v \<Longrightarrow> k \<in> set (gokeys m)"
  by (metis map_of_SomeD fst_conv image_eqI set_map)

lemma gget_perm:
  assumes "gomap_ok m" and "mset m = mset m'"
  shows "gget m k = gget m' k"
proof -
  have "gomap_ok m'"
    using assms mset_eq_imp_distinct_iff [of "gokeys m" "gokeys m'"] by (simp add: gomap_ok_def)
  then have "map_of m = map_of m'"
    using assms mset_eq_setD [OF assms(2)] map_of_inject_set [of m m']
    by (simp add: gomap_ok_def)
  then show ?thesis by simp
qed

text \<open>An interface for keyed stores, with the laws a client of a Go map relies on.\<close>

locale keyed_store =
  fixes lookup :: "'m \<Rightarrow> 'k \<Rightarrow> 'v option"
    and put :: "'k \<Rightarrow> 'v \<Rightarrow> 'm \<Rightarrow> 'm"
    and remove :: "'k \<Rightarrow> 'm \<Rightarrow> 'm"
    and ok :: "'m \<Rightarrow> bool"
  assumes lookup_put: "ok m \<Longrightarrow> lookup (put k v m) k' = (if k' = k then Some v else lookup m k')"
    and lookup_remove: "ok m \<Longrightarrow> lookup (remove k m) k' = (if k' = k then None else lookup m k')"
    and ok_put: "ok m \<Longrightarrow> ok (put k v m)"
    and ok_remove: "ok m \<Longrightarrow> ok (remove k m)"
begin

lemma ok_fold_put: "ok m \<Longrightarrow> ok (fold (\<lambda>(k, v). put k v) kvs m)"
  by (induction kvs arbitrary: m) (auto intro: ok_put)

lemma lookup_fold_put:
  "ok m \<Longrightarrow> lookup (fold (\<lambda>(k, v). put k v) kvs m) k
     = (case map_of (rev kvs) k of Some v \<Rightarrow> Some v | None \<Rightarrow> lookup m k)"
proof (induction kvs arbitrary: m)
  case Nil
  then show ?case by simp
next
  case (Cons kv kvs)
  obtain k' v where kv: "kv = (k', v)" by (cases kv)
  have "ok (put k' v m)" using Cons.prems by (rule ok_put)
  from Cons.IH [OF this] Cons.prems show ?case
    by (auto simp: kv lookup_put map_add_def split: option.splits)
qed

lemma lookup_remove_put: "ok m \<Longrightarrow> lookup (remove k (put k v m)) = (lookup m)(k := None)"
  by (auto simp: lookup_remove lookup_put ok_put)

end

interpretation gm: keyed_store map_of AList.update AList.delete gomap_ok
  by unfold_locales auto

section \<open>Transition systems\<close>

text \<open>
  What several components need of a step relation: an invariant that each step keeps, and an order
  that each step respects while the invariant holds. Both then hold along every sequence of steps.
\<close>

locale transition_invariant =
  fixes step :: "'s \<Rightarrow> 's \<Rightarrow> bool" and inv :: "'s \<Rightarrow> bool" and ord :: "'s \<Rightarrow> 's \<Rightarrow> bool"
  assumes step_inv: "inv s \<Longrightarrow> step s s' \<Longrightarrow> inv s'"
    and step_ord: "inv s \<Longrightarrow> step s s' \<Longrightarrow> ord s s'"
    and ord_refl: "ord s s"
    and ord_trans: "ord a b \<Longrightarrow> ord b c \<Longrightarrow> ord a c"
begin

lemma steps_keep: "step\<^sup>*\<^sup>* s s' \<Longrightarrow> inv s \<Longrightarrow> inv s' \<and> ord s s'"
  by (induction rule: rtranclp_induct) (auto intro: step_inv step_ord ord_refl ord_trans)

lemma steps_inv: "step\<^sup>*\<^sup>* s s' \<Longrightarrow> inv s \<Longrightarrow> inv s'"
  using steps_keep by blast

lemma steps_ord: "step\<^sup>*\<^sup>* s s' \<Longrightarrow> inv s \<Longrightarrow> ord s s'"
  using steps_keep by blast

end

end
