(* ===== verification/Go_Strings.thy ===== *)
theory Go_Strings
  imports Go_Prelude
begin

text \<open>
  The functions of the Go packages \<^verbatim>\<open>strings\<close>, \<^verbatim>\<open>strconv\<close>, \<^verbatim>\<open>sort\<close> and \<^verbatim>\<open>path/filepath\<close> (Unix
  rules) that the sources call, on byte strings, and the lemmas about them.
\<close>

section \<open>strings\<close>

definition HasPrefix :: "string \<Rightarrow> string \<Rightarrow> bool" where
  "HasPrefix s p = (take (length p) s = p)"

definition HasSuffix :: "string \<Rightarrow> string \<Rightarrow> bool" where
  "HasSuffix s p = HasPrefix (rev s) (rev p)"

fun Contains :: "string \<Rightarrow> string \<Rightarrow> bool" where
  "Contains [] sub = (sub = [])"
| "Contains (c # cs) sub = (HasPrefix (c # cs) sub \<or> Contains cs sub)"

text \<open>\<^verbatim>\<open>strings.Cut(s, sep)\<close> for a one-byte separator: before, after, found.\<close>

fun Cut1 :: "char \<Rightarrow> string \<Rightarrow> string \<times> string \<times> bool" where
  "Cut1 c [] = ([], [], False)"
| "Cut1 c (x # xs) =
     (if x = c then ([], xs, True) else (case Cut1 c xs of (a, b, f) \<Rightarrow> (x # a, b, f)))"

text \<open>The two parts around the last \<open>c\<close>, what \<^verbatim>\<open>strings.LastIndex\<close> is used for.\<close>

definition cut_last :: "char \<Rightarrow> string \<Rightarrow> (string \<times> string) option" where
  "cut_last c s = (case Cut1 c (rev s) of (a, b, f) \<Rightarrow> if f then Some (rev b, rev a) else None)"

fun Join :: "string list \<Rightarrow> string \<Rightarrow> string" where
  "Join [] sep = []"
| "Join [x] sep = x"
| "Join (x # xs) sep = x @ sep @ Join xs sep"

text \<open>
  The UTF-8 encodings of the code points that \<^verbatim>\<open>unicode.IsSpace\<close> accepts. A byte string starts
  (ends) with such a rune exactly when it starts (ends) with its encoding.
\<close>

definition space_runes :: "string list" where
  "space_runes =
     [[CHR 0x09], [CHR 0x0A], [CHR 0x0B], [CHR 0x0C], [CHR 0x0D], [CHR 0x20],
      [CHR 0xC2, CHR 0x85], [CHR 0xC2, CHR 0xA0], [CHR 0xE1, CHR 0x9A, CHR 0x80],
      [CHR 0xE2, CHR 0x80, CHR 0x80], [CHR 0xE2, CHR 0x80, CHR 0x81],
      [CHR 0xE2, CHR 0x80, CHR 0x82], [CHR 0xE2, CHR 0x80, CHR 0x83],
      [CHR 0xE2, CHR 0x80, CHR 0x84], [CHR 0xE2, CHR 0x80, CHR 0x85],
      [CHR 0xE2, CHR 0x80, CHR 0x86], [CHR 0xE2, CHR 0x80, CHR 0x87],
      [CHR 0xE2, CHR 0x80, CHR 0x88], [CHR 0xE2, CHR 0x80, CHR 0x89],
      [CHR 0xE2, CHR 0x80, CHR 0x8A], [CHR 0xE2, CHR 0x80, CHR 0xA8],
      [CHR 0xE2, CHR 0x80, CHR 0xA9], [CHR 0xE2, CHR 0x80, CHR 0xAF],
      [CHR 0xE2, CHR 0x81, CHR 0x9F], [CHR 0xE3, CHR 0x80, CHR 0x80]]"

fun strip_prefixes :: "string list \<Rightarrow> string \<Rightarrow> string" where
  "strip_prefixes ps [] = []"
| "strip_prefixes ps (c # cs) =
     (case find (\<lambda>p. p \<noteq> [] \<and> HasPrefix (c # cs) p) ps of
        None \<Rightarrow> c # cs
      | Some p \<Rightarrow> strip_prefixes ps (drop (length p - 1) cs))"

definition TrimLeftSpace :: "string \<Rightarrow> string" where
  "TrimLeftSpace s = strip_prefixes space_runes s"

definition TrimRightSpace :: "string \<Rightarrow> string" where
  "TrimRightSpace s = rev (strip_prefixes (map rev space_runes) (rev s))"

definition TrimSpace :: "string \<Rightarrow> string" where
  "TrimSpace s = TrimRightSpace (TrimLeftSpace s)"

definition starts_with_space :: "string \<Rightarrow> bool" where
  "starts_with_space s = (\<exists>p \<in> set space_runes. HasPrefix s p)"

definition ends_with_space :: "string \<Rightarrow> bool" where
  "ends_with_space s = (\<exists>p \<in> set space_runes. HasSuffix s p)"

text \<open>\<^verbatim>\<open>strings.ReplaceAll(s, old, new)\<close> for a non-empty \<open>old\<close>: leftmost, not overlapping.\<close>

fun ReplaceAll :: "string \<Rightarrow> string \<Rightarrow> string \<Rightarrow> string" where
  "ReplaceAll [] old new = []"
| "ReplaceAll (c # cs) old new =
     (if old \<noteq> [] \<and> HasPrefix (c # cs) old
      then new @ ReplaceAll (drop (length old - 1) cs) old new
      else c # ReplaceAll cs old new)"

lemma HasPrefix_Nil [simp]: "HasPrefix s []"
  by (simp add: HasPrefix_def)

lemma HasPrefix_append [simp]: "HasPrefix (p @ s) p"
  by (simp add: HasPrefix_def)

lemma HasPrefix_iff: "HasPrefix s p \<longleftrightarrow> (\<exists>r. s = p @ r)"
  unfolding HasPrefix_def by (metis append_eq_conv_conj append_take_drop_id)

lemma HasPrefix_Cons [simp]:
  "HasPrefix (c # cs) (d # ds) \<longleftrightarrow> c = d \<and> HasPrefix cs ds"
  by (simp add: HasPrefix_def)

lemma HasPrefix_Nil_left [simp]: "HasPrefix [] p \<longleftrightarrow> p = []"
  by (auto simp: HasPrefix_def)

lemma Contains_iff: "Contains s sub \<longleftrightarrow> (\<exists>a b. s = a @ sub @ b)"
proof (induction s)
  case (Cons c cs)
  have "(\<exists>a b. c # cs = a @ sub @ b) \<longleftrightarrow> HasPrefix (c # cs) sub \<or> (\<exists>a b. cs = a @ sub @ b)"
    by (auto simp: HasPrefix_iff Cons_eq_append_conv intro: exI [of _ "[]"])
  with Cons show ?case by simp
qed auto

lemma Cut1_found [simp]: "c \<notin> set a \<Longrightarrow> Cut1 c (a @ c # b) = (a, b, True)"
  by (induction a) auto

lemma Cut1_absent [simp]: "c \<notin> set s \<Longrightarrow> Cut1 c s = (s, [], False)"
  by (induction s) auto

lemma cut_last_found [simp]: "c \<notin> set b \<Longrightarrow> cut_last c (a @ c # b) = Some (a, b)"
  by (simp add: cut_last_def)

lemma cut_last_None [simp]: "c \<notin> set s \<Longrightarrow> cut_last c s = None"
  by (simp add: cut_last_def)

lemma cut_last_absent: "cut_last c s = None \<longleftrightarrow> c \<notin> set s"
proof
  assume "cut_last c s = None"
  then show "c \<notin> set s" by (metis cut_last_found option.distinct(1) split_list_last)
qed simp

lemma cut_last_SomeD: "cut_last c s = Some (a, b) \<Longrightarrow> s = a @ c # b \<and> c \<notin> set b"
proof -
  assume h: "cut_last c s = Some (a, b)"
  then have "c \<in> set s" using cut_last_absent [of c s] by auto
  then obtain x y where s: "s = x @ c # y" "c \<notin> set y" by (meson split_list_last)
  with h show ?thesis by (simp add: cut_last_found)
qed

lemma find_None_strip: "find P xs = None \<longleftrightarrow> (\<forall>x \<in> set xs. \<not> P x)"
  by (auto simp: find_None_iff)

lemma strip_prefixes_done:
  "p \<in> set ps \<Longrightarrow> p \<noteq> [] \<Longrightarrow> \<not> HasPrefix (strip_prefixes ps s) p"
proof (induction ps s rule: strip_prefixes.induct)
  case (2 ps c cs)
  then show ?case by (auto simp: find_None_strip split: option.splits)
qed simp

lemma strip_prefixes_id:
  assumes "\<And>p. p \<in> set ps \<Longrightarrow> p \<noteq> [] \<Longrightarrow> \<not> HasPrefix s p"
  shows "strip_prefixes ps s = s"
proof (cases s)
  case (Cons c cs)
  with assms have "find (\<lambda>p. p \<noteq> [] \<and> HasPrefix (c # cs) p) ps = None"
    by (auto simp: find_None_strip)
  with Cons show ?thesis by simp
qed simp

lemma strip_prefixes_suffix: "\<exists>r. s = r @ strip_prefixes ps s"
proof (induction ps s rule: strip_prefixes.induct)
  case (2 ps c cs)
  show ?case
  proof (cases "find (\<lambda>p. p \<noteq> [] \<and> HasPrefix (c # cs) p) ps")
    case (Some p)
    from "2.IH" [OF Some] obtain r where
      r: "drop (length p - 1) cs = r @ strip_prefixes ps (drop (length p - 1) cs)" ..
    have "c # cs = c # take (length p - 1) cs @ drop (length p - 1) cs" by simp
    also have "\<dots> = (c # take (length p - 1) cs @ r) @ strip_prefixes ps (drop (length p - 1) cs)"
      by (subst r) simp
    finally have split: "c # cs =
      (c # take (length p - 1) cs @ r) @ strip_prefixes ps (drop (length p - 1) cs)" .
    have eq: "strip_prefixes ps (c # cs) = strip_prefixes ps (drop (length p - 1) cs)"
      using Some by simp
    show ?thesis unfolding eq by (rule exI, rule split)
  qed simp
qed simp

lemma space_runes_nonempty: "p \<in> set space_runes \<Longrightarrow> p \<noteq> []"
  by (auto simp: space_runes_def)

lemma TrimLeftSpace_done [simp]: "\<not> starts_with_space (TrimLeftSpace s)"
  using strip_prefixes_done space_runes_nonempty
  by (auto simp: starts_with_space_def TrimLeftSpace_def)

lemma TrimRightSpace_done [simp]: "\<not> ends_with_space (TrimRightSpace s)"
  using strip_prefixes_done [of _ "map rev space_runes"] space_runes_nonempty
  by (fastforce simp: ends_with_space_def HasSuffix_def TrimRightSpace_def)

lemma TrimRightSpace_prefix: "\<exists>r. s = TrimRightSpace s @ r"
proof -
  obtain r where "rev s = r @ strip_prefixes (map rev space_runes) (rev s)"
    using strip_prefixes_suffix by blast
  then have "s = TrimRightSpace s @ rev r"
    by (metis TrimRightSpace_def rev_append rev_rev_ident)
  then show ?thesis ..
qed

lemma starts_with_space_append: "starts_with_space s \<Longrightarrow> starts_with_space (s @ t)"
  by (auto simp: starts_with_space_def HasPrefix_iff) (metis append_assoc)

lemma TrimSpace_trimmed:
  "\<not> starts_with_space (TrimSpace s)" "\<not> ends_with_space (TrimSpace s)"
proof -
  obtain r where "TrimLeftSpace s = TrimSpace s @ r"
    using TrimRightSpace_prefix unfolding TrimSpace_def by blast
  then show "\<not> starts_with_space (TrimSpace s)"
    by (metis TrimLeftSpace_done starts_with_space_append)
  show "\<not> ends_with_space (TrimSpace s)" by (simp add: TrimSpace_def)
qed

lemma TrimSpace_id: "\<not> starts_with_space s \<Longrightarrow> \<not> ends_with_space s \<Longrightarrow> TrimSpace s = s"
proof -
  assume a: "\<not> starts_with_space s" and b: "\<not> ends_with_space s"
  have l: "TrimLeftSpace s = s"
    unfolding TrimLeftSpace_def
    by (rule strip_prefixes_id) (use a in \<open>auto simp: starts_with_space_def\<close>)
  have "strip_prefixes (map rev space_runes) (rev s) = rev s"
    by (rule strip_prefixes_id) (use b in \<open>auto simp: ends_with_space_def HasSuffix_def\<close>)
  then show ?thesis by (simp add: TrimSpace_def l TrimRightSpace_def)
qed

lemma TrimSpace_idem [simp]: "TrimSpace (TrimSpace s) = TrimSpace s"
  by (rule TrimSpace_id) (rule TrimSpace_trimmed)+

section \<open>strconv\<close>

text \<open>
  \<^verbatim>\<open>strconv.Itoa\<close> and \<^verbatim>\<open>strconv.Atoi\<close> on the 64-bit \<^verbatim>\<open>int\<close>: an optional sign and decimal
  digits; an empty, malformed or out-of-range text is an error (\<open>None\<close>).
\<close>

definition digit_char :: "nat \<Rightarrow> char" where
  "digit_char d = char_of (48 + d)"

definition digit_val :: "char \<Rightarrow> nat option" where
  "digit_val c = (let n = of_char c :: nat in if 48 \<le> n \<and> n \<le> 57 then Some (n - 48) else None)"

fun utoa :: "nat \<Rightarrow> string" where
  "utoa n = (if n < 10 then [digit_char n] else utoa (n div 10) @ [digit_char (n mod 10)])"

declare utoa.simps [simp del]

definition Itoa :: "int \<Rightarrow> string" where
  "Itoa i = (if i < 0 then CHR ''-'' # utoa (nat (- i)) else utoa (nat i))"

fun digits_val :: "int \<Rightarrow> string \<Rightarrow> int option" where
  "digits_val acc [] = Some acc"
| "digits_val acc (c # cs) =
     (case digit_val c of None \<Rightarrow> None | Some d \<Rightarrow> digits_val (10 * acc + int d) cs)"

definition utoi :: "string \<Rightarrow> int option" where
  "utoi s = (if s = [] then None else digits_val 0 s)"

definition int64_ok :: "int \<Rightarrow> bool" where
  "int64_ok i = (- (2 ^ 63) \<le> i \<and> i < 2 ^ 63)"

definition Atoi :: "string \<Rightarrow> int option" where
  "Atoi s =
     (let (neg, ds) = (case s of
          [] \<Rightarrow> (False, [])
        | c # cs \<Rightarrow> if c = CHR ''-'' then (True, cs)
                    else if c = CHR ''+'' then (False, cs) else (False, s))
      in case utoi ds of
           None \<Rightarrow> None
         | Some n \<Rightarrow> (let i = (if neg then - n else n)
                      in if int64_ok i then Some i else None))"

lemma digit_val_char [simp]: "d < 10 \<Longrightarrow> digit_val (digit_char d) = Some d"
  by (simp add: digit_val_def digit_char_def Let_def)

lemma digits_val_append:
  "digits_val acc (xs @ ys) = Option.bind (digits_val acc xs) (\<lambda>v. digits_val v ys)"
  by (induction xs arbitrary: acc) (auto split: option.splits)

lemma digits_val_utoa: "digits_val 0 (utoa n) = Some (int n)"
proof (induction n rule: utoa.induct)
  case (1 n)
  have "10 * int (n div 10) + int (n mod 10) = int n" by (simp add: zdiv_int zmod_int)
  with 1 show ?case
    by (subst utoa.simps) (auto simp: digits_val_append)
qed

lemma utoa_nonempty [simp]: "utoa n \<noteq> []"
  by (subst utoa.simps) simp

lemma utoi_utoa [simp]: "utoi (utoa n) = Some (int n)"
  by (simp add: utoi_def digits_val_utoa)

lemma utoa_digits: "c \<in> set (utoa n) \<Longrightarrow> \<exists>d < 10. c = digit_char d"
proof (induction n rule: utoa.induct)
  case (1 n)
  then show ?case
    by (subst (asm) (2) utoa.simps) (auto split: if_splits intro: exI [of _ "n mod 10"])
qed

lemma of_char_digit_char: "d < 10 \<Longrightarrow> (of_char (digit_char d) :: nat) = 48 + d"
  by (simp add: digit_char_def)

lemma digit_char_not_sign: "d < 10 \<Longrightarrow> digit_char d \<noteq> CHR ''-'' \<and> digit_char d \<noteq> CHR ''+''"
  using of_char_digit_char [of d] by auto

lemma utoa_sign: "hd (utoa n) \<noteq> CHR ''-'' \<and> hd (utoa n) \<noteq> CHR ''+''"
  by (metis digit_char_not_sign hd_in_set utoa_digits utoa_nonempty)

lemma Atoi_Itoa: "int64_ok i \<Longrightarrow> Atoi (Itoa i) = Some i"
proof (cases "i < 0")
  case True
  moreover assume "int64_ok i"
  ultimately show ?thesis by (simp add: Atoi_def Itoa_def)
next
  case False
  moreover assume "int64_ok i"
  moreover obtain c cs where "utoa (nat i) = c # cs" by (cases "utoa (nat i)") auto
  moreover from this have "c \<noteq> CHR ''-'' \<and> c \<noteq> CHR ''+''" using utoa_sign [of "nat i"] by simp
  ultimately show ?thesis
    using utoi_utoa [of "nat i"] by (simp add: Atoi_def Itoa_def)
qed

lemma utoa_inject: "utoa m = utoa n \<longleftrightarrow> m = n"
  by (metis of_nat_eq_iff option.inject utoi_utoa)

lemma Itoa_inject: "0 \<le> i \<Longrightarrow> 0 \<le> j \<Longrightarrow> Itoa i = Itoa j \<longleftrightarrow> i = j"
  by (auto simp: Itoa_def utoa_inject)

text \<open>For evaluation: the digits of a number kept in binary.\<close>

fun itoa_pos :: "int \<Rightarrow> string" where
  "itoa_pos i = (if i < 10 then [digit_char (nat i)]
     else itoa_pos (i div 10) @ [digit_char (nat (i mod 10))])"

declare itoa_pos.simps [simp del]

lemma itoa_pos_utoa: "0 \<le> i \<Longrightarrow> itoa_pos i = utoa (nat i)"
proof (induction i rule: itoa_pos.induct)
  case (1 i)
  then show ?case
    by (subst itoa_pos.simps, subst utoa.simps) (auto simp: nat_div_distrib nat_mod_distrib)
qed

lemma Itoa_code [code]: "Itoa i = (if i < 0 then CHR ''-'' # itoa_pos (- i) else itoa_pos i)"
  by (simp add: Itoa_def itoa_pos_utoa)

text \<open>
  \<^verbatim>\<open>strconv.Quote\<close>, the verb \<^verbatim>\<open>%q\<close>; bytes from 128 on are taken to spell printable runes, which are
  kept.
\<close>

definition hex_char :: "nat \<Rightarrow> char" where
  "hex_char d = (if d < 10 then digit_char d else char_of (87 + d))"

definition quote_byte :: "char \<Rightarrow> string" where
  "quote_byte c = (let n = of_char c :: nat in
     if n = 34 \<or> n = 92 then [char_of (92 :: nat), c]
     else if n = 7 then char_of (92 :: nat) # ''a''
     else if n = 8 then char_of (92 :: nat) # ''b''
     else if n = 9 then char_of (92 :: nat) # ''t''
     else if n = 10 then char_of (92 :: nat) # ''n''
     else if n = 11 then char_of (92 :: nat) # ''v''
     else if n = 12 then char_of (92 :: nat) # ''f''
     else if n = 13 then char_of (92 :: nat) # ''r''
     else if n < 32 \<or> n = 127 then char_of (92 :: nat) # CHR ''x'' # [hex_char (n div 16), hex_char (n mod 16)]
     else [c])"

definition Quote :: "string \<Rightarrow> string" where
  "Quote s = char_of (34 :: nat) # concat (map quote_byte s) @ [char_of (34 :: nat)]"

section \<open>sort.Strings\<close>

text \<open>Sorting the keys of a map gives the same list for every iteration order.\<close>

lemma sort_perm: "mset xs = mset ys \<Longrightarrow> sort xs = sort (ys :: string list)"
  by (metis properties_for_sort sorted_sort mset_sort)

lemma sort_keys_perm: "mset m = mset m' \<Longrightarrow> sort (gokeys m) = sort (gokeys m')"
  by (rule sort_perm) simp

section \<open>path/filepath on Unix\<close>

fun split_sep :: "char \<Rightarrow> string \<Rightarrow> string list" where
  "split_sep c [] = [[]]"
| "split_sep c (x # xs) =
     (if x = c then [] # split_sep c xs
      else (case split_sep c xs of [] \<Rightarrow> [[x]] | y # ys \<Rightarrow> (x # y) # ys))"

abbreviation slash :: char where "slash \<equiv> CHR ''/''"

definition IsAbs :: "string \<Rightarrow> bool" where
  "IsAbs p = (p \<noteq> [] \<and> hd p = slash)"

definition clean_step :: "bool \<Rightarrow> string list \<Rightarrow> string \<Rightarrow> string list" where
  "clean_step rooted out seg =
     (if seg = [] \<or> seg = ''.'' then out
      else if seg = ''..'' then
        (if out \<noteq> [] \<and> last out \<noteq> ''..'' then butlast out
         else if rooted then out else out @ [''..''])
      else out @ [seg])"

definition clean_segs :: "bool \<Rightarrow> string list \<Rightarrow> string list" where
  "clean_segs rooted segs = foldl (clean_step rooted) [] segs"

definition Clean :: "string \<Rightarrow> string" where
  "Clean p = (if p = [] then ''.''
     else let out = clean_segs (IsAbs p) (split_sep slash p)
          in if IsAbs p then slash # Join out [slash]
             else if out = [] then ''.'' else Join out [slash])"

definition filepath_Join :: "string \<Rightarrow> string \<Rightarrow> string" where
  "filepath_Join a b =
     (if a \<noteq> [] then Clean (a @ [slash] @ b) else if b \<noteq> [] then Clean b else [])"

definition filepath_Dir :: "string \<Rightarrow> string" where
  "filepath_Dir p = (case cut_last slash p of None \<Rightarrow> Clean [] | Some (a, b) \<Rightarrow> Clean (a @ [slash]))"

text \<open>The segments of a cleaned path: no empty one, no \<open>.\<close>, and \<open>..\<close> only as a leading run.\<close>

definition clean_form :: "bool \<Rightarrow> string list \<Rightarrow> bool" where
  "clean_form rooted segs =
     ((\<forall>s \<in> set segs. s \<noteq> [] \<and> s \<noteq> ''.'' \<and> slash \<notin> set s)
      \<and> (\<exists>n. \<forall>i < length segs. segs ! i = ''..'' \<longleftrightarrow> \<not> rooted \<and> i < n))"

lemma split_sep_no_sep: "s \<in> set (split_sep c p) \<Longrightarrow> c \<notin> set s"
  by (induction p arbitrary: s) (auto split: if_splits list.splits)

lemma split_sep_ne [simp]: "split_sep c p \<noteq> []"
  by (induction p) (auto split: list.splits)

lemma split_sep_id: "c \<notin> set s \<Longrightarrow> split_sep c s = [s]"
  by (induction s) auto

lemma split_sep_append: "c \<notin> set s \<Longrightarrow> split_sep c (s @ c # t) = s # split_sep c t"
  by (induction s) auto

lemma split_sep_Join:
  "segs \<noteq> [] \<Longrightarrow> \<forall>s \<in> set segs. c \<notin> set s \<Longrightarrow> split_sep c (Join segs [c]) = segs"
proof (induction segs "[c]" rule: Join.induct)
  case (3 x y ys)
  then show ?case using split_sep_append [of c x "Join (y # ys) [c]"] by simp
qed (auto simp: split_sep_id)

lemma clean_form_Nil [simp]: "clean_form r []"
  by (simp add: clean_form_def)

lemma clean_form_butlast: "clean_form r segs \<Longrightarrow> clean_form r (butlast segs)"
  by (auto simp: clean_form_def nth_butlast dest: in_set_butlastD)

lemma clean_form_snoc_plain:
  assumes "clean_form r out" and "s \<noteq> []" "s \<noteq> ''.''" "s \<noteq> ''..''" "slash \<notin> set s"
  shows "clean_form r (out @ [s])"
proof -
  from assms(1) obtain n where
    n: "\<forall>i < length out. out ! i = ''..'' \<longleftrightarrow> \<not> r \<and> i < n"
    and ok: "\<forall>s \<in> set out. s \<noteq> [] \<and> s \<noteq> ''.'' \<and> slash \<notin> set s"
    by (auto simp: clean_form_def)
  have "\<forall>i < length (out @ [s]). (out @ [s]) ! i = ''..'' \<longleftrightarrow> \<not> r \<and> i < min n (length out)"
    using n assms(4) by (auto simp: nth_append)
  then have "\<exists>n. \<forall>i < length (out @ [s]). (out @ [s]) ! i = ''..'' \<longleftrightarrow> \<not> r \<and> i < n" by blast
  with ok assms show ?thesis unfolding clean_form_def by simp
qed

lemma clean_form_snoc_dots:
  assumes "clean_form False out" and "out = [] \<or> last out = ''..''"
  shows "clean_form False (out @ [''..''])"
proof -
  from assms(1) obtain n where
    n: "\<forall>i < length out. out ! i = ''..'' \<longleftrightarrow> i < n"
    and ok: "\<forall>s \<in> set out. s \<noteq> [] \<and> s \<noteq> ''.'' \<and> slash \<notin> set s"
    by (auto simp: clean_form_def)
  have "length out \<le> n"
    using assms(2) n by (cases out rule: rev_cases) (auto simp: nth_append)
  then have "\<forall>i < length (out @ [''..'']). (out @ [''..'']) ! i = ''..'' \<longleftrightarrow> i < Suc (length out)"
    using n by (auto simp: nth_append)
  with ok show ?thesis unfolding clean_form_def by auto
qed

lemma clean_step_form:
  "clean_form r out \<Longrightarrow> slash \<notin> set seg \<Longrightarrow> clean_form r (clean_step r out seg)"
  unfolding clean_step_def
  by (cases r)
    (auto simp del: append_Nil
      intro: clean_form_butlast clean_form_snoc_plain clean_form_snoc_dots)

lemma clean_segs_form:
  "\<forall>s \<in> set segs. slash \<notin> set s \<Longrightarrow> clean_form r (clean_segs r segs)"
proof -
  have "clean_form r out \<Longrightarrow> \<forall>s \<in> set segs. slash \<notin> set s \<Longrightarrow>
      clean_form r (foldl (clean_step r) out segs)" for out
    by (induction segs arbitrary: out) (auto intro: clean_step_form)
  then show "\<forall>s \<in> set segs. slash \<notin> set s \<Longrightarrow> clean_form r (clean_segs r segs)"
    by (simp add: clean_segs_def)
qed

lemma clean_form_snocD:
  assumes "clean_form r (out @ [s])"
  shows "clean_form r out" and "clean_step r out s = out @ [s]"
proof -
  show "clean_form r out" using clean_form_butlast [OF assms] by simp
  from assms obtain n where
    n: "\<forall>i < length (out @ [s]). (out @ [s]) ! i = ''..'' \<longleftrightarrow> \<not> r \<and> i < n"
    and ok: "s \<noteq> []" "s \<noteq> ''.''"
    by (auto simp: clean_form_def)
  have "s = ''..'' \<Longrightarrow> \<not> r \<and> (out = [] \<or> last out = ''..'')"
  proof -
    assume s: "s = ''..''"
    with n [rule_format, of "length out"] have "\<not> r" "length out < n" by auto
    moreover from this have "out \<noteq> [] \<Longrightarrow> last out = ''..''"
      using n [rule_format, of "length out - 1"] by (simp add: last_conv_nth nth_append)
    ultimately show ?thesis by auto
  qed
  with ok show "clean_step r out s = out @ [s]" by (auto simp: clean_step_def)
qed

lemma clean_segs_id: "clean_form r segs \<Longrightarrow> clean_segs r segs = segs"
proof (induction segs rule: rev_induct)
  case (snoc s out)
  then show ?case using clean_form_snocD [OF snoc.prems] by (simp add: clean_segs_def)
qed (simp add: clean_segs_def)

lemma hd_Join: "segs \<noteq> [] \<Longrightarrow> hd segs \<noteq> [] \<Longrightarrow> hd (Join segs sep) = hd (hd segs) \<and> Join segs sep \<noteq> []"
  by (induction segs sep rule: Join.induct) auto

lemma IsAbs_Clean [simp]: "IsAbs (Clean p) = IsAbs p"
proof (cases "p = [] \<or> IsAbs p")
  case True
  then show ?thesis by (auto simp: Clean_def IsAbs_def Let_def)
next
  case False
  define out where "out = clean_segs False (split_sep slash p)"
  have "clean_form False out"
    unfolding out_def by (rule clean_segs_form) (use split_sep_no_sep in blast)
  then have "out \<noteq> [] \<Longrightarrow> hd out \<noteq> [] \<and> slash \<notin> set (hd out)"
    by (auto simp: clean_form_def)
  then have "out \<noteq> [] \<Longrightarrow> \<not> IsAbs (Join out [slash])"
    using hd_Join [of out "[slash]"] by (auto simp: IsAbs_def) (metis hd_in_set)
  with False show ?thesis by (auto simp: Clean_def Let_def out_def IsAbs_def)
qed

lemma Clean_idem [simp]: "Clean (Clean p) = Clean p"
proof (cases "p = []")
  case True
  then show ?thesis by (simp add: Clean_def IsAbs_def Let_def clean_segs_def clean_step_def)
next
  case False
  define out where "out = clean_segs (IsAbs p) (split_sep slash p)"
  have form: "clean_form (IsAbs p) out"
    unfolding out_def by (rule clean_segs_form) (use split_sep_no_sep in blast)
  then have nosep: "\<forall>s \<in> set out. slash \<notin> set s" by (simp add: clean_form_def)
  have dot: "clean_segs False (split_sep slash ''.'') = []"
    by (simp add: clean_segs_def clean_step_def)
  show ?thesis
  proof (cases "IsAbs p")
    case True
    have "clean_segs True (split_sep slash (slash # Join out [slash])) = out"
    proof (cases "out = []")
      case False
      have "clean_segs True ([] # out) = clean_segs True out"
        by (simp add: clean_segs_def clean_step_def)
      with False nosep form True show ?thesis
        by (simp add: split_sep_Join clean_segs_id)
    qed (simp add: clean_segs_def clean_step_def)
    with True False show ?thesis by (simp add: Clean_def Let_def out_def IsAbs_def)
  next
    case rel: False
    show ?thesis
    proof (cases "out = []")
      case True
      then have "Clean p = ''.''" using False rel by (simp add: Clean_def Let_def out_def)
      then show ?thesis using dot by (simp add: Clean_def IsAbs_def Let_def)
    next
      case ne: False
      define j where "j = Join out [slash]"
      have p: "Clean p = j" using False rel ne by (simp add: Clean_def Let_def out_def j_def)
      have "\<not> IsAbs j" using IsAbs_Clean [of p] rel by (simp add: p)
      moreover have "j \<noteq> []"
        using ne form hd_Join [of out "[slash]"] by (auto simp: j_def clean_form_def)
      moreover have "clean_segs False (split_sep slash j) = out"
        using ne nosep form rel by (simp add: split_sep_Join clean_segs_id j_def)
      ultimately have "Clean j = j" using ne by (simp add: Clean_def Let_def j_def)
      then show ?thesis by (simp add: p)
    qed
  qed
qed

lemma IsAbs_filepath_Join: "IsAbs a \<Longrightarrow> IsAbs (filepath_Join a b)"
  by (auto simp: filepath_Join_def) (auto simp: IsAbs_def)

lemma Clean_filepath_Join: "a \<noteq> [] \<Longrightarrow> Clean (filepath_Join a b) = filepath_Join a b"
  by (simp add: filepath_Join_def)

end
