(* ===== verification/Config_Types.thy ===== *)
theory Config_Types
  imports Go_Strings
begin

text \<open>
  The configuration data (\<^verbatim>\<open>internal/config/config.go\<close>, \<^verbatim>\<open>explain.go\<close>): the structs that the YAML
  document is decoded into, the typed validation errors, and the checks \<^verbatim>\<open>Load\<close> runs on one
  process. YAML decoding is the input of the model. The human text of an error is not modelled;
  its code, its location and the values its message interpolates are.
\<close>

section \<open>Diagnostics\<close>

datatype diag_code =
    CodeReadError | CodeYAMLSyntax | CodeUnknownField | CodeInvalidType | CodeNoProcesses
  | CodeInvalidMerge | CodeInvalidProcessName | CodeMissingCmd | CodeInvalidRestart
  | CodeInvalidMode | CodeTaskIncompatible | CodeInvalidValue | CodeInvalidReadyWhen
  | CodeInvalidPort | CodeEnvFile | CodeSelfDependency | CodeUnknownDependency
  | CodeDependencyCycle | CodeInvalidResource | CodeTeardownDependency
  | CodeReservedProcessName | CodeInvalid

datatype path_seg = PKey string | PIdx nat

record ValidationError =
  Code :: diag_code
  Path :: "path_seg list"
  Args :: "string list"

definition invalid :: "diag_code \<Rightarrow> path_seg list \<Rightarrow> string list \<Rightarrow> ValidationError" where
  "invalid code path args = \<lparr>Code = code, Path = path, Args = args\<rparr>"

definition SortedProcessNames :: "'v gomap \<Rightarrow> string list" where
  "SortedProcessNames m = sort (gokeys m)"

definition FormatPath :: "path_seg list \<Rightarrow> string" where
  "FormatPath path = foldl (\<lambda>b seg. case seg of
       PIdx v \<Rightarrow> b @ ''['' @ utoa v @ '']''
     | PKey v \<Rightarrow> (if b \<noteq> [] then b @ ''.'' else b) @ v) [] path"

section \<open>The configuration structs\<close>

record ReadyWhen =
  rw_HTTP :: string
  rw_TCP :: string
  rw_Cmd :: string
  rw_Log :: string

abbreviation ProcessModeService :: string where "ProcessModeService \<equiv> ''service''"
abbreviation ProcessModeTask :: string where "ProcessModeTask \<equiv> ''task''"
abbreviation ProcessModeTeardown :: string where "ProcessModeTeardown \<equiv> ''teardown''"
abbreviation HealthActionReport :: string where "HealthActionReport \<equiv> ''report''"
abbreviation HealthActionRestart :: string where "HealthActionRestart \<equiv> ''restart''"
abbreviation ForeignListenerAllow :: string where "ForeignListenerAllow \<equiv> ''allow''"
abbreviation ForeignListenerReject :: string where "ForeignListenerReject \<equiv> ''reject''"
abbreviation MaxTeardownShutdownTimeout :: int where "MaxTeardownShutdownTimeout \<equiv> 5"
abbreviation DefaultHealthInterval :: int where "DefaultHealthInterval \<equiv> 10"

definition RestartPolicies :: "string list" where
  "RestartPolicies = [''never'', ''on-failure'', ''always'']"

definition ProcessModes :: "string list" where
  "ProcessModes = [ProcessModeService, ProcessModeTask, ProcessModeTeardown]"

definition HealthActions :: "string list" where
  "HealthActions = [HealthActionReport, HealthActionRestart]"

definition ForeignListenerPolicies :: "string list" where
  "ForeignListenerPolicies = [ForeignListenerAllow, ForeignListenerReject]"

record Process =
  p_Cmd :: string
  p_Dir :: string
  p_EnvFile :: string
  p_Env :: "string gomap"
  p_Mode :: string
  p_Restart :: string
  p_MaxRestarts :: int
  p_ShutdownTimeout :: int
  p_ReadyWhen :: "ReadyWhen option"
  p_ReadyTimeout :: int
  p_DependsOn :: "string list"
  p_Ports :: "int gomap"
  p_HealthWhen :: "ReadyWhen option"
  p_HealthInterval :: int
  p_HealthAction :: string
  p_ForeignListener :: string

text \<open>The zero value: what a lookup of an absent map key yields.\<close>

definition zero_Process :: Process where
  "zero_Process = \<lparr>p_Cmd = [], p_Dir = [], p_EnvFile = [], p_Env = [], p_Mode = [], p_Restart = [],
     p_MaxRestarts = 0, p_ShutdownTimeout = 0, p_ReadyWhen = None, p_ReadyTimeout = 0,
     p_DependsOn = [], p_Ports = [], p_HealthWhen = None, p_HealthInterval = 0,
     p_HealthAction = [], p_ForeignListener = []\<rparr>"

definition proc_at :: "Process gomap \<Rightarrow> string \<Rightarrow> Process" where
  "proc_at procs name = (case gget procs name of Some p \<Rightarrow> p | None \<Rightarrow> zero_Process)"

definition EffectiveMode :: "Process \<Rightarrow> string" where
  "EffectiveMode p = (if p_Mode p = [] then ProcessModeService else p_Mode p)"

definition EffectiveHealthInterval :: "Process \<Rightarrow> int" where
  "EffectiveHealthInterval p =
     (if p_HealthInterval p \<le> 0 then DefaultHealthInterval else p_HealthInterval p)"

definition EffectiveForeignListener :: "Process \<Rightarrow> string" where
  "EffectiveForeignListener p =
     (if p_ForeignListener p = [] then ForeignListenerAllow else p_ForeignListener p)"

definition EffectiveHealthAction :: "Process \<Rightarrow> string" where
  "EffectiveHealthAction p =
     (if p_HealthAction p = [] then HealthActionReport else p_HealthAction p)"

record Merge =
  m_Client :: int
  m_Server :: int
  m_Port :: int
  m_ApiPrefixes :: "string list"
  m_Routes :: "string list"
  m_ClientProcess :: string

record Config =
  c_Merge :: "Merge option"
  c_Processes :: "Process gomap"
  c_Resources :: "string list"

abbreviation MergePortProcessName :: string where
  "MergePortProcessName \<equiv> ''merge-port''"

section \<open>Names\<close>

definition is_alnum :: "char \<Rightarrow> bool" where
  "is_alnum c = (let n = of_char c :: nat in
     (48 \<le> n \<and> n \<le> 57) \<or> (65 \<le> n \<and> n \<le> 90) \<or> (97 \<le> n \<and> n \<le> 122))"

text \<open>The two name patterns: alphanumeric at both ends, the listed punctuation inside.\<close>

definition name_matches :: "string \<Rightarrow> string \<Rightarrow> bool" where
  "name_matches punct s =
     (s \<noteq> [] \<and> is_alnum (hd s) \<and> is_alnum (last s)
      \<and> list_all (\<lambda>c. is_alnum c \<or> c \<in> set punct) s)"

definition processNameRe :: "string \<Rightarrow> bool" where
  "processNameRe s = name_matches ''-._'' s"

definition portNameRe :: "string \<Rightarrow> bool" where
  "portNameRe s = name_matches ''-_'' s"

section \<open>The checks on one process\<close>

definition at :: "string \<Rightarrow> path_seg list \<Rightarrow> path_seg list" where
  "at name rest = PKey ''processes'' # PKey name # rest"

text \<open>\<open>regexp_ok\<close> stands for \<^verbatim>\<open>regexp.Compile\<close> succeeding.\<close>

definition validateProbe ::
  "(string \<Rightarrow> bool) \<Rightarrow> string \<Rightarrow> path_seg list \<Rightarrow> ReadyWhen \<Rightarrow> bool \<Rightarrow> ValidationError option" where
  "validateProbe regexp_ok name path rw allowLog =
     (let field = FormatPath (drop 2 path);
          n = length (filter (\<lambda>kind. kind \<noteq> []) [rw_HTTP rw, rw_TCP rw, rw_Cmd rw, rw_Log rw])
      in if \<not> allowLog
         then first_some
           [refuse_if (n = 1 \<and> rw_Log rw \<noteq> [])
              (invalid CodeInvalidReadyWhen (path @ [PKey ''log'']) [name, field]),
            refuse_if (n \<noteq> 1) (invalid CodeInvalidReadyWhen path [name, field])]
         else first_some
           [refuse_if (n \<noteq> 1) (invalid CodeInvalidReadyWhen path [name, field]),
            refuse_if (rw_Log rw \<noteq> [] \<and> \<not> regexp_ok (rw_Log rw))
              (invalid CodeInvalidReadyWhen (path @ [PKey ''log'']) [name, field])])"

definition validateTeardown :: "string \<Rightarrow> Process \<Rightarrow> ValidationError option" where
  "validateTeardown name proc =
     (let refuse = (\<lambda>field. invalid CodeTaskIncompatible (at name [PKey field]) [name, field])
      in first_some
       [refuse_if (p_ReadyWhen proc \<noteq> None) (refuse ''ready_when''),
        refuse_if (p_ReadyTimeout proc \<noteq> 0) (refuse ''ready_timeout''),
        refuse_if (p_Restart proc \<noteq> ''never'')
          (invalid CodeTaskIncompatible (at name [PKey ''restart'']) [name, p_Restart proc]),
        refuse_if (p_MaxRestarts proc > 0) (refuse ''max_restarts''),
        refuse_if (p_HealthWhen proc \<noteq> None) (refuse ''health_when''),
        refuse_if (p_HealthInterval proc \<noteq> 0) (refuse ''health_interval''),
        refuse_if (p_HealthAction proc \<noteq> []) (refuse ''health_action''),
        refuse_if (p_ForeignListener proc \<noteq> []) (refuse ''foreign_listener''),
        refuse_if (p_Ports proc \<noteq> []) (refuse ''ports''),
        refuse_if (p_DependsOn proc \<noteq> []) (refuse ''depends_on''),
        refuse_if (p_ShutdownTimeout proc > MaxTeardownShutdownTimeout)
          (invalid CodeInvalidValue (at name [PKey ''shutdown_timeout'']) [name])])"

definition validateTask :: "string \<Rightarrow> Process \<Rightarrow> ValidationError option" where
  "validateTask name proc =
     (let refuse = (\<lambda>field. invalid CodeTaskIncompatible (at name [PKey field]) [name])
      in first_some
       [refuse_if (p_ReadyWhen proc \<noteq> None) (refuse ''ready_when''),
        refuse_if (p_ReadyTimeout proc \<noteq> 0) (refuse ''ready_timeout''),
        refuse_if (p_Restart proc \<noteq> ''never'')
          (invalid CodeTaskIncompatible (at name [PKey ''restart'']) [name, p_Restart proc]),
        refuse_if (p_MaxRestarts proc > 0) (refuse ''max_restarts''),
        refuse_if (p_HealthWhen proc \<noteq> None) (refuse ''health_when''),
        refuse_if (p_HealthInterval proc \<noteq> 0) (refuse ''health_interval''),
        refuse_if (p_HealthAction proc \<noteq> []) (refuse ''health_action''),
        refuse_if (p_ForeignListener proc \<noteq> []) (refuse ''foreign_listener'')])"

definition validateHealth :: "(string \<Rightarrow> bool) \<Rightarrow> string \<Rightarrow> Process \<Rightarrow> ValidationError option" where
  "validateHealth regexp_ok name proc =
     (case p_HealthWhen proc of
        None \<Rightarrow> first_some
          [refuse_if (p_HealthInterval proc \<noteq> 0)
             (invalid CodeInvalidValue (at name [PKey ''health_interval'']) [name]),
           refuse_if (p_HealthAction proc \<noteq> [])
             (invalid CodeInvalidValue (at name [PKey ''health_action'']) [name])]
      | Some hw \<Rightarrow> first_some
          [validateProbe regexp_ok name (at name [PKey ''health_when'']) hw False,
           refuse_if (p_HealthInterval proc < 0)
             (invalid CodeInvalidValue (at name [PKey ''health_interval'']) [name]),
           refuse_if (p_HealthAction proc \<noteq> [] \<and> p_HealthAction proc \<notin> set HealthActions)
             (invalid CodeInvalidValue (at name [PKey ''health_action'']) [name, p_HealthAction proc]),
           refuse_if (p_HealthAction proc = HealthActionRestart \<and> p_Restart proc = ''never'')
             (invalid CodeInvalidValue (at name [PKey ''health_action'']) [name])])"

definition socketProbe :: "ReadyWhen option \<Rightarrow> bool" where
  "socketProbe rw = (case rw of None \<Rightarrow> False | Some r \<Rightarrow> rw_HTTP r \<noteq> [] \<or> rw_TCP r \<noteq> [])"

definition validateForeignListener :: "string \<Rightarrow> Process \<Rightarrow> ValidationError option" where
  "validateForeignListener name proc =
     (if p_ForeignListener proc = [] then None
      else first_some
        [refuse_if (p_ForeignListener proc \<notin> set ForeignListenerPolicies)
           (invalid CodeInvalidValue (at name [PKey ''foreign_listener'']) [name, p_ForeignListener proc]),
         refuse_if (\<not> socketProbe (p_ReadyWhen proc) \<and> \<not> socketProbe (p_HealthWhen proc))
           (invalid CodeInvalidValue (at name [PKey ''foreign_listener'']) [name])])"

definition validatePorts :: "string \<Rightarrow> Process \<Rightarrow> ValidationError option" where
  "validatePorts name proc =
     first_some (concat (map (\<lambda>portName.
       [refuse_if (\<not> portNameRe portName)
          (invalid CodeInvalidPort (at name [PKey ''ports'', PKey portName]) [name, portName]),
        (case gget (p_Ports proc) portName of
           None \<Rightarrow> None
         | Some preferred \<Rightarrow> refuse_if (preferred < 0 \<or> preferred > 65535)
             (invalid CodeInvalidPort (at name [PKey ''ports'', PKey portName])
                [name, portName, Itoa preferred]))])
       (SortedProcessNames (p_Ports proc))))"

text \<open>An \<^verbatim>\<open>env_file\<close>, read: its variables, or the error text.\<close>

type_synonym envFile = "string + string gomap"

definition defaultRestart :: "Process \<Rightarrow> Process" where
  "defaultRestart proc = (if p_Restart proc = [] then proc\<lparr>p_Restart := ''never''\<rparr> else proc)"

definition mergeEnvFile :: "string gomap \<Rightarrow> Process \<Rightarrow> Process" where
  "mergeEnvFile fileVars proc =
     (if fileVars \<noteq> []
      then proc\<lparr>p_Env := fold (\<lambda>(k, v). gput k v) (p_Env proc)
                        (fold (\<lambda>(k, v). gput k v) fileVars [])\<rparr>
      else proc)"

text \<open>The checks of the validation loop, in source order, on a process whose restart default is set.\<close>

definition processErrors :: "(string \<Rightarrow> bool) \<Rightarrow> string \<Rightarrow> Process \<Rightarrow> ValidationError option" where
  "processErrors regexp_ok name proc = first_some
     [validatePorts name proc,
      refuse_if (\<not> processNameRe name) (invalid CodeInvalidProcessName (at name []) [name]),
      refuse_if (p_Cmd proc = []) (invalid CodeMissingCmd (at name []) [name]),
      refuse_if (p_Restart proc \<notin> set RestartPolicies)
        (invalid CodeInvalidRestart (at name [PKey ''restart'']) [name, p_Restart proc]),
      refuse_if (p_Mode proc \<noteq> [] \<and> p_Mode proc \<notin> set ProcessModes)
        (invalid CodeInvalidMode (at name [PKey ''mode'']) [name, p_Mode proc]),
      (if p_Mode proc = ProcessModeTeardown then validateTeardown name proc else None),
      (if p_Mode proc = ProcessModeTask then validateTask name proc else None),
      refuse_if (p_MaxRestarts proc < 0)
        (invalid CodeInvalidValue (at name [PKey ''max_restarts'']) [name]),
      refuse_if (p_MaxRestarts proc > 0 \<and> p_Restart proc = ''never'')
        (invalid CodeInvalidValue (at name [PKey ''max_restarts'']) [name]),
      refuse_if (p_ShutdownTimeout proc < 0)
        (invalid CodeInvalidValue (at name [PKey ''shutdown_timeout'']) [name]),
      refuse_if (p_ReadyTimeout proc < -1)
        (invalid CodeInvalidValue (at name [PKey ''ready_timeout'']) [name]),
      (case p_ReadyWhen proc of
         None \<Rightarrow> None
       | Some rw \<Rightarrow> validateProbe regexp_ok name (at name [PKey ''ready_when'']) rw True),
      validateHealth regexp_ok name proc,
      validateForeignListener name proc]"

definition validateProcess ::
  "(string \<Rightarrow> bool) \<Rightarrow> envFile gomap \<Rightarrow> string \<Rightarrow> Process \<Rightarrow> ValidationError + Process" where
  "validateProcess regexp_ok envFiles name proc0 =
     (let proc = defaultRestart proc0
      in case processErrors regexp_ok name proc of
           Some e \<Rightarrow> Inl e
         | None \<Rightarrow>
             if p_EnvFile proc \<noteq> []
             then (case gget envFiles name of
                     None \<Rightarrow> Inr proc
                   | Some (Inl err) \<Rightarrow> Inl (invalid CodeEnvFile (at name [PKey ''env_file'']) [name, err])
                   | Some (Inr fileVars) \<Rightarrow> Inr (mergeEnvFile fileVars proc))
             else Inr proc)"

section \<open>What an accepted process is\<close>

text \<open>
  The rules the documentation states, as one predicate: a probe has exactly one kind, a run-once
  process has none of the service fields, restart limits and health restarts need a restart
  policy, and every number is in its range.
\<close>

definition one_kind :: "ReadyWhen \<Rightarrow> bool" where
  "one_kind rw = (length (filter (\<lambda>k. k \<noteq> []) [rw_HTTP rw, rw_TCP rw, rw_Cmd rw, rw_Log rw]) = 1)"

definition runs_once :: "Process \<Rightarrow> bool" where
  "runs_once p = (p_Mode p = ProcessModeTask \<or> p_Mode p = ProcessModeTeardown)"

definition run_once_ok :: "Process \<Rightarrow> bool" where
  "run_once_ok p = (p_ReadyWhen p = None \<and> p_ReadyTimeout p = 0 \<and> p_Restart p = ''never''
     \<and> p_MaxRestarts p \<le> 0 \<and> p_HealthWhen p = None \<and> p_HealthInterval p = 0
     \<and> p_HealthAction p = [] \<and> p_ForeignListener p = [])"

definition ports_ok :: "int gomap \<Rightarrow> bool" where
  "ports_ok ports = (\<forall>pn \<in> set (gokeys ports). portNameRe pn
     \<and> (\<forall>port. gget ports pn = Some port \<longrightarrow> 0 \<le> port \<and> port \<le> 65535))"

definition health_ok :: "Process \<Rightarrow> bool" where
  "health_ok p = (case p_HealthWhen p of
     None \<Rightarrow> p_HealthInterval p = 0 \<and> p_HealthAction p = []
   | Some hw \<Rightarrow> one_kind hw \<and> rw_Log hw = [] \<and> 0 \<le> p_HealthInterval p
       \<and> p_HealthAction p \<in> {[], ''report'', ''restart''}
       \<and> (p_HealthAction p = ''restart'' \<longrightarrow> p_Restart p \<noteq> ''never''))"

definition foreign_ok :: "Process \<Rightarrow> bool" where
  "foreign_ok p = (p_ForeignListener p \<noteq> [] \<longrightarrow> p_ForeignListener p \<in> {''allow'', ''reject''}
     \<and> (socketProbe (p_ReadyWhen p) \<or> socketProbe (p_HealthWhen p)))"

definition process_ok :: "(string \<Rightarrow> bool) \<Rightarrow> string \<Rightarrow> Process \<Rightarrow> bool" where
  "process_ok regexp_ok name p =
     (processNameRe name \<and> p_Cmd p \<noteq> [] \<and> ports_ok (p_Ports p)
      \<and> p_Restart p \<in> {''never'', ''on-failure'', ''always''}
      \<and> EffectiveMode p \<in> {ProcessModeService, ProcessModeTask, ProcessModeTeardown}
      \<and> (runs_once p \<longrightarrow> run_once_ok p)
      \<and> (p_Mode p = ProcessModeTeardown \<longrightarrow> p_Ports p = [] \<and> p_DependsOn p = []
           \<and> p_ShutdownTimeout p \<le> MaxTeardownShutdownTimeout)
      \<and> 0 \<le> p_MaxRestarts p \<and> (p_Restart p = ''never'' \<longrightarrow> p_MaxRestarts p = 0)
      \<and> 0 \<le> p_ShutdownTimeout p \<and> -1 \<le> p_ReadyTimeout p
      \<and> (\<forall>rw. p_ReadyWhen p = Some rw \<longrightarrow> one_kind rw \<and> (rw_Log rw \<noteq> [] \<longrightarrow> regexp_ok (rw_Log rw)))
      \<and> health_ok p \<and> foreign_ok p)"

lemma SortedProcessNames_set [simp]: "set (SortedProcessNames m) = set (gokeys m)"
  by (simp add: SortedProcessNames_def)

lemma SortedProcessNames_sorted [simp]: "sorted (SortedProcessNames m)"
  by (simp add: SortedProcessNames_def)

lemma SortedProcessNames_perm: "mset m = mset m' \<Longrightarrow> SortedProcessNames m = SortedProcessNames m'"
  unfolding SortedProcessNames_def by (rule sort_keys_perm)

lemma validateProbe_None:
  "validateProbe rok name path rw b = None \<longleftrightarrow>
     one_kind rw \<and> (if b then rw_Log rw \<noteq> [] \<longrightarrow> rok (rw_Log rw) else rw_Log rw = [])"
  by (auto simp: validateProbe_def one_kind_def Let_def first_some_simps)

lemma validatePorts_None:
  "validatePorts name p = None \<longleftrightarrow>
     ports_ok (p_Ports p)"
proof -
  have range: "(case gget m pn of None \<Rightarrow> None
      | Some q \<Rightarrow> refuse_if (q < 0 \<or> q > 65535) (e q)) = None
    \<longleftrightarrow> (\<forall>port. gget m pn = Some port \<longrightarrow> 0 \<le> port \<and> port \<le> 65535)"
    for m pn and e :: "int \<Rightarrow> ValidationError"
    by (cases "gget m pn") auto
  show ?thesis
    unfolding validatePorts_def ports_ok_def first_some_None set_concat set_map SortedProcessNames_set
    by (simp only: ball_UN list.set ball_simps refuse_if_None range) simp
qed

lemma validateTeardown_None:
  "validateTeardown name p = None \<longleftrightarrow> run_once_ok p
     \<and> p_Ports p = [] \<and> p_DependsOn p = [] \<and> p_ShutdownTimeout p \<le> MaxTeardownShutdownTimeout"
  by (auto simp: validateTeardown_def run_once_ok_def Let_def first_some_simps)

lemma validateTask_None: "validateTask name p = None \<longleftrightarrow> run_once_ok p"
  by (auto simp: validateTask_def run_once_ok_def Let_def first_some_simps)

lemma validateHealth_None: "validateHealth rok name p = None \<longleftrightarrow> health_ok p"
  by (auto simp: validateHealth_def health_ok_def first_some_simps validateProbe_None
      HealthActions_def split: option.splits)

lemma validateForeignListener_None: "validateForeignListener name p = None \<longleftrightarrow> foreign_ok p"
  by (auto simp: validateForeignListener_def foreign_ok_def first_some_simps
      ForeignListenerPolicies_def)

lemmas validate_None = validateProbe_None validatePorts_None validateTeardown_None
  validateTask_None validateHealth_None validateForeignListener_None

lemma EffectiveMode_in:
  "EffectiveMode p \<in> {ProcessModeService, ProcessModeTask, ProcessModeTeardown} \<longleftrightarrow>
     (p_Mode p \<noteq> [] \<longrightarrow> p_Mode p \<in> set ProcessModes)"
  by (auto simp: EffectiveMode_def ProcessModes_def)

lemma processErrors_None: "processErrors rok name p = None \<longleftrightarrow> process_ok rok name p"
proof -
  have maxr: "0 \<le> p_MaxRestarts p \<longrightarrow> (p_MaxRestarts p \<le> 0 \<or> p_Restart p \<noteq> ''never'')
      = (p_Restart p = ''never'' \<longrightarrow> p_MaxRestarts p = 0)" by auto
  have probe: "(case p_ReadyWhen p of None \<Rightarrow> None
       | Some rw \<Rightarrow> validateProbe rok name path rw True) = None
     \<longleftrightarrow> (\<forall>rw. p_ReadyWhen p = Some rw \<longrightarrow> one_kind rw \<and> (rw_Log rw \<noteq> [] \<longrightarrow> rok (rw_Log rw)))" for path
    by (cases "p_ReadyWhen p") (simp_all add: validateProbe_None)
  show ?thesis
    unfolding processErrors_def process_ok_def EffectiveMode_in runs_once_def first_some_simps
      refuse_if_None probe validatePorts_None validateHealth_None validateForeignListener_None
    by (simp add: validateTeardown_None validateTask_None RestartPolicies_def not_less)
      (use maxr in blast)
qed

lemma p_EnvFile_default [simp]: "p_EnvFile (defaultRestart p) = p_EnvFile p"
  by (simp add: defaultRestart_def)

lemma health_ok_env [simp]: "health_ok (p\<lparr>p_Env := e\<rparr>) = health_ok p"
  by (cases "p_HealthWhen p") (simp_all add: health_ok_def)

lemma process_ok_env [simp]: "process_ok rok name (p\<lparr>p_Env := e\<rparr>) = process_ok rok name p"
  by (simp add: process_ok_def EffectiveMode_def runs_once_def run_once_ok_def foreign_ok_def)

lemma process_ok_mergeEnvFile [simp]:
  "process_ok rok name (mergeEnvFile vars p) = process_ok rok name p"
  by (simp add: mergeEnvFile_def)

lemma validateProcess_ok: "validateProcess rok envs name p0 = Inr p \<Longrightarrow> process_ok rok name p"
  by (auto simp: validateProcess_def Let_def processErrors_None split: option.splits sum.splits if_splits)

end
