(* ===== verification/Config_Deps.thy ===== *)
theory Config_Deps
  imports Config_Types
begin

text \<open>
  The dependency graph of a configuration: cycle detection (\<^verbatim>\<open>detectCycles\<close>, a three-colour depth
  first search) and the dependency closure (\<^verbatim>\<open>SelectedNames\<close>). Both recursive closures of the
  source carry a fuel argument here, and the lemmas \<open>visit_fuel\<close> and \<open>include_fuel\<close> show that the
  fuel their callers pass (one more than the number of names that occur) is never used up.
\<close>

section \<open>Cycle detection\<close>

datatype color = White | Gray | Black

datatype visit_result =
    VisitOutOfFuel
  | VisitErr ValidationError
  | VisitOk "string \<Rightarrow> color"

definition deps_of :: "Process gomap \<Rightarrow> string \<Rightarrow> string list" where
  "deps_of procs name = p_DependsOn (proc_at procs name)"

text \<open>The names from the end of the path back to \<open>dep\<close>, what the loop appends.\<close>

fun back_to :: "string \<Rightarrow> string list \<Rightarrow> string list" where
  "back_to dep [] = []"
| "back_to dep (x # xs) = (if x = dep then [x] else x # back_to dep xs)"

definition buildCycle :: "string list \<Rightarrow> string \<Rightarrow> string list" where
  "buildCycle path dep = rev (dep # back_to dep (rev path))"

fun index_of :: "string \<Rightarrow> string list \<Rightarrow> nat" where
  "index_of x [] = 0"
| "index_of x (y # ys) = (if x = y then 0 else Suc (index_of x ys))"

fun visit :: "nat \<Rightarrow> Process gomap \<Rightarrow> string list \<Rightarrow> (string \<Rightarrow> color) \<Rightarrow> string \<Rightarrow> visit_result"
  and visit_deps :: "nat \<Rightarrow> Process gomap \<Rightarrow> string list \<Rightarrow> string \<Rightarrow> string list
      \<Rightarrow> (string \<Rightarrow> color) \<Rightarrow> visit_result" where
  "visit 0 procs path color name = VisitOutOfFuel"
| "visit (Suc fuel) procs path color name =
     (case visit_deps fuel procs (path @ [name]) name (deps_of procs name) (color(name := Gray)) of
        VisitOk color' \<Rightarrow> VisitOk (color'(name := Black))
      | r \<Rightarrow> r)"
| "visit_deps fuel procs path name [] color = VisitOk color"
| "visit_deps fuel procs path name (dep # deps) color =
     (case color dep of
        Gray \<Rightarrow> VisitErr (invalid CodeDependencyCycle
          [PKey ''processes'', PKey name, PKey ''depends_on'', PIdx (index_of dep (deps_of procs name))]
          (buildCycle path dep))
      | White \<Rightarrow> (case visit fuel procs path color dep of
          VisitOk color' \<Rightarrow> visit_deps fuel procs path name deps color'
        | r \<Rightarrow> r)
      | Black \<Rightarrow> visit_deps fuel procs path name deps color)"

fun visit_all :: "nat \<Rightarrow> Process gomap \<Rightarrow> string list \<Rightarrow> (string \<Rightarrow> color) \<Rightarrow> visit_result" where
  "visit_all fuel procs [] color = VisitOk color"
| "visit_all fuel procs (name # names) color =
     (if color name = White
      then (case visit fuel procs [] color name of
              VisitOk color' \<Rightarrow> visit_all fuel procs names color'
            | r \<Rightarrow> r)
      else visit_all fuel procs names color)"

text \<open>Every name the search can meet: the processes and what they depend on.\<close>

definition all_names :: "Process gomap \<Rightarrow> string list" where
  "all_names procs = remdups (gokeys procs @ concat (map (\<lambda>(n, p). p_DependsOn p) procs))"

definition detectCycles_run :: "Process gomap \<Rightarrow> visit_result" where
  "detectCycles_run procs =
     visit_all (Suc (length (all_names procs))) procs (SortedProcessNames procs) (\<lambda>_. White)"

definition detectCycles :: "Process gomap \<Rightarrow> ValidationError option" where
  "detectCycles procs = (case detectCycles_run procs of VisitErr e \<Rightarrow> Some e | _ \<Rightarrow> None)"

subsection \<open>The graph and its walks\<close>

definition depends :: "Process gomap \<Rightarrow> (string \<times> string) set" where
  "depends procs = {(a, b). b \<in> set (deps_of procs a)}"

fun walk :: "Process gomap \<Rightarrow> string list \<Rightarrow> bool" where
  "walk procs [] = True"
| "walk procs [x] = True"
| "walk procs (x # y # zs) = (y \<in> set (deps_of procs x) \<and> walk procs (y # zs))"

text \<open>A closed walk: at least one edge, and the last name is the first.\<close>

definition is_cycle :: "Process gomap \<Rightarrow> string list \<Rightarrow> bool" where
  "is_cycle procs c = (walk procs c \<and> 2 \<le> length c \<and> hd c = last c)"

definition ranked :: "Process gomap \<Rightarrow> string set \<Rightarrow> (string \<Rightarrow> nat) \<Rightarrow> bool" where
  "ranked procs B rank = (\<forall>a \<in> B. \<forall>b \<in> set (deps_of procs a). b \<in> B \<and> rank b < rank a)"

definition blacks :: "(string \<Rightarrow> color) \<Rightarrow> string set" where
  "blacks color = {n. color n = Black}"

definition grays :: "(string \<Rightarrow> color) \<Rightarrow> string set" where
  "grays color = {n. color n = Gray}"

definition whites :: "Process gomap \<Rightarrow> (string \<Rightarrow> color) \<Rightarrow> string set" where
  "whites procs color = {n \<in> set (all_names procs). color n = White}"

lemma deps_in_all_names: "b \<in> set (deps_of procs a) \<Longrightarrow> b \<in> set (all_names procs)"
  by (auto simp: deps_of_def proc_at_def zero_Process_def all_names_def
      split: option.splits dest!: map_of_SomeD intro: bexI [rotated])

lemma walk_append:
  "walk procs (xs @ ys) \<longleftrightarrow> walk procs xs \<and> walk procs ys
     \<and> (xs \<noteq> [] \<longrightarrow> ys \<noteq> [] \<longrightarrow> hd ys \<in> set (deps_of procs (last xs)))"
proof (induction procs xs rule: walk.induct)
  case (2 procs x)
  then show ?case by (cases ys) auto
qed auto

lemma back_to_split: "dep \<in> set xs \<Longrightarrow> \<exists>a b. xs = a @ dep # b \<and> back_to dep xs = a @ [dep]"
proof (induction xs)
  case (Cons x xs)
  show ?case
  proof (cases "x = dep")
    case True
    then show ?thesis by (intro exI [of _ "[]"] exI [of _ xs]) simp
  next
    case False
    with Cons obtain a b where "xs = a @ dep # b" "back_to dep xs = a @ [dep]" by auto
    with False show ?thesis by (intro exI [of _ "x # a"] exI [of _ b]) simp
  qed
qed simp

lemma buildCycle_is_cycle:
  assumes "walk procs path" and "dep \<in> set path" and "dep \<in> set (deps_of procs (last path))"
  shows "is_cycle procs (buildCycle path dep)"
proof -
  from assms(2) back_to_split [of dep "rev path"] obtain a b where
    ab: "rev path = a @ dep # b" "back_to dep (rev path) = a @ [dep]" by auto
  have path: "path = rev b @ dep # rev a"
    using ab(1) by (metis append_Cons append_assoc append_Nil rev.simps(2) rev_append rev_rev_ident)
  have cyc: "buildCycle path dep = (dep # rev a) @ [dep]"
    by (simp add: buildCycle_def ab(2))
  have "walk procs (dep # rev a)" using assms(1) by (simp add: path walk_append)
  moreover have "last (dep # rev a) = last path" by (simp add: path)
  ultimately show ?thesis
    unfolding is_cycle_def cyc using assms(3) walk_append [of procs "dep # rev a" "[dep]"] by auto
qed

lemma walk_trancl:
  "walk procs c \<Longrightarrow> 2 \<le> length c \<Longrightarrow> (hd c, last c) \<in> (depends procs)\<^sup>+"
proof (induction procs c rule: walk.induct)
  case (3 procs x y zs)
  have xy: "(x, y) \<in> depends procs" using "3.prems" by (simp add: depends_def)
  show ?case
  proof (cases zs)
    case Nil
    with xy show ?thesis by auto
  next
    case (Cons z zs')
    with "3.IH" "3.prems" have "(y, last (y # zs)) \<in> (depends procs)\<^sup>+" by simp
    with xy show ?thesis by (simp add: trancl_into_trancl2)
  qed
qed auto

lemma cycle_not_acyclic: "is_cycle procs c \<Longrightarrow> \<not> acyclic (depends procs)"
  using walk_trancl [of procs c] by (auto simp: is_cycle_def acyclic_def)

subsection \<open>The search\<close>

text \<open>What a finished sub-search guarantees.\<close>

definition search_inv :: "Process gomap \<Rightarrow> (string \<Rightarrow> color) \<Rightarrow> bool" where
  "search_inv procs color = (\<exists>rank. ranked procs (blacks color) rank)"

definition extends :: "(string \<Rightarrow> color) \<Rightarrow> (string \<Rightarrow> color) \<Rightarrow> bool" where
  "extends color color' = (grays color' = grays color \<and> blacks color \<subseteq> blacks color')"

lemma extends_refl [simp]: "extends c c"
  by (simp add: extends_def)

lemma extends_trans: "extends a b \<Longrightarrow> extends b c \<Longrightarrow> extends a c"
  by (auto simp: extends_def)

lemma search_inv_blacken:
  assumes "search_inv procs color" and "color name \<noteq> Black"
    and "\<forall>d \<in> set (deps_of procs name). color d = Black"
  shows "search_inv procs (color(name := Black))"
proof -
  from assms(1) obtain rank where r: "ranked procs (blacks color) rank"
    by (auto simp: search_inv_def)
  define rank' where "rank' = rank(name := Suc (sum_list (map rank (deps_of procs name))))"
  have name: "name \<notin> blacks color" using assms(2) by (simp add: blacks_def)
  have le: "d \<in> set ds \<Longrightarrow> rank d \<le> sum_list (map rank ds)" for d ds
    by (simp add: member_le_sum_list)
  have "ranked procs (blacks (color(name := Black))) rank'"
    unfolding ranked_def
  proof (intro ballI)
    fix a b
    assume a: "a \<in> blacks (color(name := Black))" and b: "b \<in> set (deps_of procs a)"
    show "b \<in> blacks (color(name := Black)) \<and> rank' b < rank' a"
    proof (cases "a = name")
      case True
      with b assms(3) have "color b = Black" by simp
      then have "b \<noteq> name" using assms(2) by auto
      with True b le [of b "deps_of procs name"] \<open>color b = Black\<close> show ?thesis
        by (simp add: rank'_def blacks_def)
    next
      case False
      with a have "a \<in> blacks color" by (simp add: blacks_def)
      with r b have "b \<in> blacks color" "rank b < rank a" by (auto simp: ranked_def)
      moreover from this name have "b \<noteq> name" by blast
      ultimately show ?thesis using False by (simp add: rank'_def blacks_def)
    qed
  qed
  then show ?thesis by (auto simp: search_inv_def)
qed

lemma visit_correct:
  "color name = White \<Longrightarrow> search_inv procs color \<Longrightarrow> walk procs path \<Longrightarrow> grays color = set path \<Longrightarrow>
   (path \<noteq> [] \<longrightarrow> name \<in> set (deps_of procs (last path))) \<Longrightarrow>
   (case visit fuel procs path color name of
      VisitOutOfFuel \<Rightarrow> True
    | VisitErr e \<Rightarrow> is_cycle procs (Args e)
    | VisitOk color' \<Rightarrow> search_inv procs color' \<and> extends color color' \<and> color' name = Black)"
  "search_inv procs color \<Longrightarrow> walk procs path \<Longrightarrow> path \<noteq> [] \<Longrightarrow> last path = name \<Longrightarrow>
   grays color = set path \<Longrightarrow> set deps \<subseteq> set (deps_of procs name) \<Longrightarrow>
   (case visit_deps fuel procs path name deps color of
      VisitOutOfFuel \<Rightarrow> True
    | VisitErr e \<Rightarrow> is_cycle procs (Args e)
    | VisitOk color' \<Rightarrow> search_inv procs color' \<and> extends color color'
        \<and> (\<forall>d \<in> set deps. color' d = Black))"
proof (induction fuel procs path color name and fuel procs path name deps color
    rule: visit_visit_deps.induct)
  case (2 fuel procs path color name)
  let ?c = "color(name := Gray)"
  have "blacks ?c = blacks color" using "2.prems"(1) by (auto simp: blacks_def)
  then have inv: "search_inv procs ?c" using "2.prems"(2) by (simp add: search_inv_def)
  have walk: "walk procs (path @ [name])" using "2.prems"(3,5) by (simp add: walk_append)
  have gray: "grays ?c = set (path @ [name])" using "2.prems"(1,4) by (auto simp: grays_def)
  have IH: "case visit_deps fuel procs (path @ [name]) name (deps_of procs name) ?c of
      VisitOutOfFuel \<Rightarrow> True
    | VisitErr e \<Rightarrow> is_cycle procs (Args e)
    | VisitOk color' \<Rightarrow> search_inv procs color' \<and> extends ?c color'
        \<and> (\<forall>d \<in> set (deps_of procs name). color' d = Black)"
    by (rule "2.IH" [OF inv walk _ _ gray]) simp_all
  show ?case
  proof (cases "visit_deps fuel procs (path @ [name]) name (deps_of procs name) ?c")
    case (VisitOk color')
    with IH have c': "search_inv procs color'" "extends ?c color'"
      "\<forall>d \<in> set (deps_of procs name). color' d = Black" by auto
    have "color' name = Gray" using c'(2) by (auto simp: extends_def grays_def)
    then have "search_inv procs (color'(name := Black))"
      using c' by (intro search_inv_blacken) auto
    moreover have "extends color (color'(name := Black))"
      using c'(2) "2.prems"(1) by (auto simp: extends_def grays_def blacks_def split: if_splits)
    ultimately show ?thesis using VisitOk by simp
  qed (use IH in simp_all)
next
  case (4 fuel procs path name dep deps color)
  have sub: "set deps \<subseteq> set (deps_of procs name)" and dep: "dep \<in> set (deps_of procs name)"
    using "4.prems"(6) by auto
  show ?case
  proof (cases "color dep")
    case White
    have v: "case visit fuel procs path color dep of
        VisitOutOfFuel \<Rightarrow> True
      | VisitErr e \<Rightarrow> is_cycle procs (Args e)
      | VisitOk color' \<Rightarrow> search_inv procs color' \<and> extends color color' \<and> color' dep = Black"
      using "4.IH"(1) [OF White White "4.prems"(1,2,5)] dep "4.prems"(3,4) by auto
    show ?thesis
    proof (cases "visit fuel procs path color dep")
      case (VisitOk color')
      with v have c': "search_inv procs color'" "extends color color'" "color' dep = Black" by auto
      have "grays color' = set path" using c'(2) "4.prems"(5) by (simp add: extends_def)
      from "4.IH"(2) [OF White VisitOk c'(1) "4.prems"(2,3,4) this sub] c' White VisitOk
      show ?thesis
        by (auto simp: extends_def blacks_def split: visit_result.splits)
    qed (use v White in simp_all)
  next
    case Gray
    then have "dep \<in> set path" using "4.prems"(5) by (auto simp: grays_def)
    with Gray dep "4.prems"(2,4) show ?thesis
      by (simp add: invalid_def buildCycle_is_cycle)
  next
    case Black
    from "4.IH"(3) [OF Black "4.prems"(1-5) sub] Black show ?thesis
      by (auto simp: extends_def blacks_def split: visit_result.splits)
  qed
qed auto

lemma finite_whites [simp]: "finite (whites procs color)"
  by (simp add: whites_def)

lemma visit_fuel:
  "color name = White \<Longrightarrow> name \<in> set (all_names procs) \<Longrightarrow> card (whites procs color) < fuel \<Longrightarrow>
   (case visit fuel procs path color name of
      VisitOutOfFuel \<Rightarrow> False
    | VisitErr e \<Rightarrow> True
    | VisitOk color' \<Rightarrow> whites procs color' \<subseteq> whites procs color)"
  "set deps \<subseteq> set (all_names procs) \<Longrightarrow> card (whites procs color) < fuel \<Longrightarrow>
   (case visit_deps fuel procs path name deps color of
      VisitOutOfFuel \<Rightarrow> False
    | VisitErr e \<Rightarrow> True
    | VisitOk color' \<Rightarrow> whites procs color' \<subseteq> whites procs color)"
proof (induction fuel procs path color name and fuel procs path name deps color
    rule: visit_visit_deps.induct)
  case (2 fuel procs path color name)
  let ?c = "color(name := Gray)"
  have w: "whites procs ?c = whites procs color - {name}" by (auto simp: whites_def)
  then have sub: "whites procs ?c \<subseteq> whites procs color" by blast
  have "name \<in> whites procs color" using "2.prems" by (simp add: whites_def)
  then have "card (whites procs ?c) < card (whites procs color)"
    unfolding w by (intro card_Diff1_less) simp_all
  then have "card (whites procs ?c) < fuel" using "2.prems"(3) by simp
  moreover have "set (deps_of procs name) \<subseteq> set (all_names procs)" using deps_in_all_names by blast
  ultimately have "case visit_deps fuel procs (path @ [name]) name (deps_of procs name) ?c of
      VisitOutOfFuel \<Rightarrow> False
    | VisitErr e \<Rightarrow> True
    | VisitOk color' \<Rightarrow> whites procs color' \<subseteq> whites procs ?c" by (intro "2.IH")
  with sub show ?case
    by (auto simp: whites_def split: visit_result.splits)
next
  case (4 fuel procs path name dep deps color)
  show ?case
  proof (cases "color dep")
    case White
    have v: "case visit fuel procs path color dep of
        VisitOutOfFuel \<Rightarrow> False
      | VisitErr e \<Rightarrow> True
      | VisitOk color' \<Rightarrow> whites procs color' \<subseteq> whites procs color"
      using "4.IH"(1) [OF White White] "4.prems" by simp
    show ?thesis
    proof (cases "visit fuel procs path color dep")
      case (VisitOk color')
      with v have sub: "whites procs color' \<subseteq> whites procs color" by simp
      then have "card (whites procs color') < fuel"
        using "4.prems"(2) card_mono [OF finite_whites sub] by simp
      with "4.IH"(2) [OF White VisitOk] "4.prems"(1) sub White VisitOk show ?thesis
        by (auto split: visit_result.splits)
    qed (use v White in simp_all)
  next
    case Black
    with "4.IH"(3) "4.prems" show ?thesis by simp
  qed simp
qed auto

lemma visit_all_correct:
  "search_inv procs color \<Longrightarrow> grays color = {} \<Longrightarrow> set names \<subseteq> set (all_names procs) \<Longrightarrow>
   card (whites procs color) < fuel \<Longrightarrow>
   (case visit_all fuel procs names color of
      VisitOutOfFuel \<Rightarrow> False
    | VisitErr e \<Rightarrow> is_cycle procs (Args e)
    | VisitOk color' \<Rightarrow> search_inv procs color' \<and> extends color color'
        \<and> (\<forall>n \<in> set names. color' n = Black))"
proof (induction names arbitrary: color)
  case (Cons name names)
  have name: "name \<in> set (all_names procs)" and names: "set names \<subseteq> set (all_names procs)"
    using Cons.prems(3) by auto
  show ?case
  proof (cases "color name = White")
    case True
    note correct = visit_correct(1) [OF True Cons.prems(1), of "[]" fuel]
    note fuel = visit_fuel(1) [OF True name Cons.prems(4), of "[]"]
    show ?thesis
    proof (cases "visit fuel procs [] color name")
      case (VisitOk c)
      with correct fuel Cons.prems(2) have c: "search_inv procs c" "extends color c" "c name = Black"
        and sub: "whites procs c \<subseteq> whites procs color" by auto
      have "card (whites procs c) < fuel"
        using Cons.prems(4) card_mono [OF finite_whites sub] by simp
      moreover have "grays c = {}" using c(2) Cons.prems(2) by (simp add: extends_def)
      ultimately show ?thesis
        using Cons.IH [of c] c names True VisitOk
        by (auto simp: extends_def blacks_def split: visit_result.splits)
    qed (use True correct fuel Cons.prems(2) in auto)
  next
    case False
    then have "color name = Black" using Cons.prems(2) by (cases "color name") (auto simp: grays_def)
    with Cons.IH [OF Cons.prems(1,2) names Cons.prems(4)] False show ?thesis
      by (auto simp: extends_def blacks_def split: visit_result.splits)
  qed
qed simp

lemma detectCycles_run_correct:
  "case detectCycles_run procs of
     VisitOutOfFuel \<Rightarrow> False
   | VisitErr e \<Rightarrow> is_cycle procs (Args e)
   | VisitOk color \<Rightarrow> (\<exists>rank. ranked procs (set (gokeys procs) \<union> blacks color) rank)"
proof -
  let ?w = "\<lambda>_ :: string. White"
  have "blacks ?w = {}" "grays ?w = {}" by (simp_all add: blacks_def grays_def)
  moreover have "search_inv procs ?w" by (simp add: search_inv_def ranked_def blacks_def)
  moreover have "card (whites procs ?w) < Suc (length (all_names procs))"
    unfolding whites_def by simp (metis card_length le_imp_less_Suc)
  moreover have "set (SortedProcessNames procs) \<subseteq> set (all_names procs)"
    by (auto simp: all_names_def)
  ultimately have res: "case detectCycles_run procs of
      VisitOutOfFuel \<Rightarrow> False
    | VisitErr e \<Rightarrow> is_cycle procs (Args e)
    | VisitOk color' \<Rightarrow> search_inv procs color' \<and> extends ?w color'
        \<and> (\<forall>n \<in> set (SortedProcessNames procs). color' n = Black)"
    unfolding detectCycles_run_def by (intro visit_all_correct)
  show ?thesis
  proof (cases "detectCycles_run procs")
    case (VisitOk color')
    with res have "set (gokeys procs) \<subseteq> blacks color'" by (auto simp: blacks_def)
    with VisitOk res show ?thesis by (auto simp: search_inv_def Un_absorb1)
  qed (use res in simp_all)
qed

lemma depends_key: "(a, b) \<in> depends procs \<Longrightarrow> a \<in> set (gokeys procs)"
  by (auto simp: depends_def deps_of_def proc_at_def zero_Process_def
      split: option.splits dest: gget_in_keys)

lemma ranked_acyclic:
  assumes "ranked procs B rank" and "set (gokeys procs) \<subseteq> B"
  shows "acyclic (depends procs)"
proof -
  have edge: "(a, b) \<in> depends procs \<Longrightarrow> rank b < rank a" for a b
    using assms depends_key [of a b procs] by (auto simp: ranked_def depends_def)
  have "(a, b) \<in> (depends procs)\<^sup>+ \<Longrightarrow> rank b < rank a" for a b
    by (induction rule: trancl_induct) (auto dest: edge)
  then show ?thesis by (fastforce simp: acyclic_def)
qed

lemma detectCycles_None_acyclic: "detectCycles procs = None \<longleftrightarrow> acyclic (depends procs)"
proof (cases "detectCycles_run procs")
  case (VisitErr e)
  with detectCycles_run_correct [of procs] cycle_not_acyclic show ?thesis
    by (auto simp: detectCycles_def)
next
  case (VisitOk color)
  with detectCycles_run_correct [of procs] obtain rank where
    "ranked procs (set (gokeys procs) \<union> blacks color) rank" by auto
  then have "acyclic (depends procs)" by (rule ranked_acyclic) simp
  with VisitOk show ?thesis by (simp add: detectCycles_def)
qed (use detectCycles_run_correct [of procs] in simp)

lemma detectCycles_cycle: "detectCycles procs = Some e \<Longrightarrow> is_cycle procs (Args e)"
  using detectCycles_run_correct [of procs]
  by (auto simp: detectCycles_def split: visit_result.splits)

lemma acyclic_rank:
  assumes "acyclic (depends procs)"
  shows "\<exists>rank :: string \<Rightarrow> nat. \<forall>a b. (a, b) \<in> depends procs \<longrightarrow> rank b < rank a"
proof -
  have "detectCycles procs = None" using assms by (simp add: detectCycles_None_acyclic)
  then obtain color where ok: "detectCycles_run procs = VisitOk color"
    using detectCycles_run_correct [of procs]
    by (cases "detectCycles_run procs") (auto simp: detectCycles_def)
  with detectCycles_run_correct [of procs] obtain rank where
    "ranked procs (set (gokeys procs) \<union> blacks color) rank" by auto
  then have "(a, b) \<in> depends procs \<Longrightarrow> rank b < rank a" for a b
    using depends_key [of a b procs] by (auto simp: ranked_def depends_def)
  then show ?thesis by blast
qed

end
