(* ===== verification/Config_Refs.thy ===== *)
theory Config_Refs
  imports Config_Types
begin

text \<open>
  Endpoint references: the \<^verbatim>\<open>${ports.*}\<close>, \<^verbatim>\<open>${urls.*}\<close>, \<^verbatim>\<open>${session.*}\<close> and \<^verbatim>\<open>${config.*}\<close> placeholders of
  process fields (\<^verbatim>\<open>referenceRe\<close>, \<^verbatim>\<open>splitReference\<close> of \<^verbatim>\<open>explain.go\<close>; \<^verbatim>\<open>resolvePortReferences\<close> and
  \<^verbatim>\<open>checkReferenceCollisions\<close> of \<^verbatim>\<open>config.go\<close>). The lemmas show that a reference name determines
  its process and its port, because port names hold no dot.
\<close>

section \<open>The reference pattern\<close>

definition ref_namespaces :: "string list" where
  "ref_namespaces = [''ports'', ''urls'', ''session'', ''config'']"

text \<open>A match of \<^verbatim>\<open>referenceRe\<close> at the start of a text: the name inside the braces, and the rest.\<close>

definition match_ref :: "string \<Rightarrow> (string \<times> string) option" where
  "match_ref s =
     (if HasPrefix s ''${'' \<and> (\<exists>ns \<in> set ref_namespaces. HasPrefix (drop 2 s) (ns @ ''.''))
      then (case Cut1 (CHR ''}'') (drop 2 s) of
              (inner, rest, True) \<Rightarrow> Some (inner, rest)
            | (_, _, False) \<Rightarrow> None)
      else None)"

lemma Cut1_length: "Cut1 c s = (a, b, True) \<Longrightarrow> length a + length b < length s"
proof (induction s arbitrary: a)
  case (Cons x xs)
  then show ?case by (cases "Cut1 c xs") (auto split: if_splits)
qed simp

lemma match_ref_shorter: "match_ref s = Some (inner, rest) \<Longrightarrow> length rest < length s"
  using Cut1_length [of "CHR ''}''" "drop 2 s" inner rest]
  by (auto simp: match_ref_def split: if_splits prod.splits bool.splits)

text \<open>The matches, leftmost first and not overlapping, as \<^verbatim>\<open>FindAllStringSubmatch\<close> returns them.\<close>

function find_refs :: "string \<Rightarrow> string list" where
  "find_refs [] = []"
| "find_refs (c # cs) =
     (case match_ref (c # cs) of
        Some (inner, rest) \<Rightarrow> inner # find_refs rest
      | None \<Rightarrow> find_refs cs)"
  by pat_completeness auto
termination
  by (relation "measure length") (auto dest: match_ref_shorter)

text \<open>\<^verbatim>\<open>ReplaceAllStringFunc\<close>: each match replaced by \<open>f\<close> of its name, the state threaded through.\<close>

function replace_refs :: "(string \<Rightarrow> 's \<Rightarrow> string \<times> 's) \<Rightarrow> string \<Rightarrow> 's \<Rightarrow> string \<times> 's" where
  "replace_refs f [] st = ([], st)"
| "replace_refs f (c # cs) st =
     (case match_ref (c # cs) of
        Some (inner, rest) \<Rightarrow>
          (case f inner st of (new, st1) \<Rightarrow>
             (case replace_refs f rest st1 of (out, st2) \<Rightarrow> (new @ out, st2)))
      | None \<Rightarrow> (case replace_refs f cs st of (out, st1) \<Rightarrow> (c # out, st1)))"
  by pat_completeness auto
termination
  by (relation "measure (\<lambda>(f, s, st). length s)") (auto dest: match_ref_shorter)

declare find_refs.simps(2) [simp del] replace_refs.simps(2) [simp del]

definition splitReference :: "string \<Rightarrow> string \<times> string \<times> string \<times> bool" where
  "splitReference ref =
     (case Cut1 (CHR ''.'') ref of (ns, rest, _) \<Rightarrow>
        (case cut_last (CHR ''.'') rest of
           None \<Rightarrow> (ns, [], [], False)
         | Some (process, port) \<Rightarrow> (ns, process, port, True)))"

definition ref_name :: "string \<Rightarrow> string \<Rightarrow> string \<Rightarrow> string" where
  "ref_name ns process port = ns @ ''.'' @ process @ ''.'' @ port"

section \<open>Ports a reference resolves to before the session assigns them\<close>

definition resolveOne :: "Process gomap \<Rightarrow> string \<Rightarrow> string list \<times> bool \<Rightarrow> string \<times> (string list \<times> bool)" where
  "resolveOne procs inner st =
     (case splitReference inner of (namespace, process, portName, split) \<Rightarrow>
        let preferred = (case gget (p_Ports (proc_at procs process)) portName of Some p \<Rightarrow> p | None \<Rightarrow> 0)
        in if split \<and> namespace = ''ports'' \<and> preferred \<ge> 1 \<and> preferred \<le> 65535
           then (Itoa preferred, fst st @ [process @ ''.'' @ portName], snd st)
           else (''${'' @ inner @ ''}'', fst st, False))"

definition resolvePortReferences :: "Process gomap \<Rightarrow> string \<Rightarrow> string \<times> string list \<times> bool" where
  "resolvePortReferences procs value =
     (case replace_refs (resolveOne procs) value ([], True) of
        (resolved, (named, ok)) \<Rightarrow> (resolved, named, ok))"

section \<open>Collisions\<close>

definition endpoints :: "Process gomap \<Rightarrow> (string \<times> string) list" where
  "endpoints procs =
     concat (map (\<lambda>name. map (\<lambda>portName. (name, portName))
        (SortedProcessNames (p_Ports (proc_at procs name)))) (SortedProcessNames procs))"

fun collide :: "string \<Rightarrow> (string \<times> string) list \<Rightarrow> (string \<times> string) gomap \<Rightarrow> string list" where
  "collide ns [] seen = []"
| "collide ns ((name, portName) # es) seen =
     (let ref = ref_name ns name portName
      in case gget seen ref of
           Some other \<Rightarrow> [ref, fst other, snd other, name, portName] @ collide ns es seen
         | None \<Rightarrow> collide ns es (gput ref (name, portName) seen))"

definition checkReferenceCollisions :: "Process gomap \<Rightarrow> ValidationError option" where
  "checkReferenceCollisions procs =
     (let collisions = collide ''ports'' (endpoints procs) [] @ collide ''urls'' (endpoints procs) []
      in if collisions \<noteq> [] then Some (invalid CodeInvalidPort [] collisions) else None)"

section \<open>Lemmas\<close>

lemma splitReference_ref_name:
  assumes "CHR ''.'' \<notin> set ns" and "CHR ''.'' \<notin> set port"
  shows "splitReference (ref_name ns process port) = (ns, process, port, True)"
  using assms by (simp add: splitReference_def ref_name_def)

lemma splitReference_ok:
  "splitReference ref = (ns, process, port, True) \<Longrightarrow> CHR ''.'' \<in> set ref \<Longrightarrow>
     ref = ref_name ns process port \<and> CHR ''.'' \<notin> set ns \<and> CHR ''.'' \<notin> set port"
proof -
  assume h: "splitReference ref = (ns, process, port, True)" and "CHR ''.'' \<in> set ref"
  then obtain a b where ab: "ref = a @ CHR ''.'' # b" "CHR ''.'' \<notin> set a"
    by (meson split_list_first)
  then have "cut_last (CHR ''.'') b = Some (process, port)" and "ns = a"
    using h by (auto simp: splitReference_def split: option.splits)
  then show ?thesis using ab cut_last_SomeD by (fastforce simp: ref_name_def)
qed

lemma ref_name_inject:
  assumes "CHR ''.'' \<notin> set port" and "CHR ''.'' \<notin> set port'"
  shows "ref_name ns process port = ref_name ns process' port' \<longleftrightarrow> process = process' \<and> port = port'"
proof
  assume "ref_name ns process port = ref_name ns process' port'"
  then have "process @ CHR ''.'' # port = process' @ CHR ''.'' # port'" by (simp add: ref_name_def)
  then have "cut_last (CHR ''.'') (process @ CHR ''.'' # port)
      = cut_last (CHR ''.'') (process' @ CHR ''.'' # port')" by simp
  then show "process = process' \<and> port = port'" using assms by simp
qed simp

lemma portNameRe_no_dot: "portNameRe s \<Longrightarrow> CHR ''.'' \<notin> set s"
  by (auto simp: portNameRe_def name_matches_def list_all_iff is_alnum_def Let_def)

lemma distinct_endpoints:
  assumes "gomap_ok procs" and "\<And>n p. gget procs n = Some p \<Longrightarrow> gomap_ok (p_Ports p)"
  shows "distinct (endpoints procs)"
proof -
  have ports: "distinct (SortedProcessNames (p_Ports (proc_at procs n)))" for n
    using assms(2) [of n]
    by (cases "gget procs n")
      (auto simp: proc_at_def zero_Process_def SortedProcessNames_def gomap_ok_def)
  have "distinct names \<Longrightarrow> distinct (concat (map (\<lambda>name. map (Pair name)
      (SortedProcessNames (p_Ports (proc_at procs name)))) names))" for names
    by (induction names) (auto simp: distinct_map ports inj_on_def)
  moreover have "distinct (SortedProcessNames procs)"
    using assms(1) by (simp add: SortedProcessNames_def gomap_ok_def)
  ultimately show ?thesis by (simp add: endpoints_def)
qed

lemma collide_none:
  assumes "distinct es" and "\<And>n p. (n, p) \<in> set es \<Longrightarrow> CHR ''.'' \<notin> set p"
    and "\<And>n p. (n, p) \<in> set es \<Longrightarrow> gget seen (ref_name ns n p) = None"
  shows "collide ns es seen = []"
  using assms
proof (induction ns es seen rule: collide.induct)
  case (2 ns name portName es seen)
  have none: "gget seen (ref_name ns name portName) = None" using "2.prems"(3) by simp
  have "gget (gput (ref_name ns name portName) (name, portName) seen) (ref_name ns n p) = None"
    if np: "(n, p) \<in> set es" for n p
  proof -
    have "(n, p) \<noteq> (name, portName)" using np "2.prems"(1) by auto
    then have "ref_name ns n p \<noteq> ref_name ns name portName"
      using np "2.prems"(2) ref_name_inject [of p portName ns n name] by auto
    then show ?thesis using np "2.prems"(3) by simp
  qed
  with "2.IH"(1) [OF refl none] "2.prems" none show ?case by (auto simp: Let_def)
qed simp

lemma endpoints_port_name:
  assumes "\<And>n p. gget procs n = Some p \<Longrightarrow> ports_ok (p_Ports p)" and "(n, pn) \<in> set (endpoints procs)"
  shows "CHR ''.'' \<notin> set pn"
proof -
  have "pn \<in> set (gokeys (p_Ports (proc_at procs n)))"
    using assms(2) by (auto simp: endpoints_def)
  with assms(1) [of n] show ?thesis
    by (cases "gget procs n")
      (auto simp: proc_at_def zero_Process_def ports_ok_def dest!: portNameRe_no_dot)
qed

lemma no_collisions:
  assumes "gomap_ok procs"
    and "\<And>n p. gget procs n = Some p \<Longrightarrow> gomap_ok (p_Ports p) \<and> ports_ok (p_Ports p)"
  shows "checkReferenceCollisions procs = None"
proof -
  have "distinct (endpoints procs)" using assms by (intro distinct_endpoints) auto
  then have "collide ns (endpoints procs) [] = []" for ns
    using assms endpoints_port_name [of procs] by (intro collide_none) auto
  then show ?thesis by (simp add: checkReferenceCollisions_def)
qed

end
