(* ===== verification/Config_Plan.thy ===== *)
theory Config_Plan
  imports Config_Deps Config_Refs
begin

text \<open>
  Selection and planning (\<^verbatim>\<open>SelectedNames\<close>, \<^verbatim>\<open>TeardownNames\<close>, \<^verbatim>\<open>CheckSelector\<close> of \<^verbatim>\<open>config.go\<close>; \<^verbatim>\<open>Plan\<close>
  and the endpoint references of \<^verbatim>\<open>explain.go\<close>). \<open>include_name\<close> and \<open>depth\<close> are the recursive closures
  of the source, with fuel; their fuel lemmas bound the nesting by the number of names.
\<close>

section \<open>The dependency closure\<close>

definition selectable :: "Process gomap \<Rightarrow> string \<Rightarrow> bool" where
  "selectable procs name =
     (case gget procs name of None \<Rightarrow> False | Some p \<Rightarrow> p_Mode p \<noteq> ProcessModeTeardown)"

fun include_name :: "nat \<Rightarrow> Process gomap \<Rightarrow> string list \<Rightarrow> string \<Rightarrow> string list"
  and include_all :: "nat \<Rightarrow> Process gomap \<Rightarrow> string list \<Rightarrow> string list \<Rightarrow> string list" where
  "include_name 0 procs selected name = selected"
| "include_name (Suc fuel) procs selected name =
     (if name \<in> set selected then selected
      else if \<not> selectable procs name then selected
      else include_all fuel procs (name # selected) (deps_of procs name))"
| "include_all fuel procs selected [] = selected"
| "include_all fuel procs selected (d # ds) =
     include_all fuel procs (include_name fuel procs selected d) ds"

definition SelectedNames :: "Config \<Rightarrow> string list \<Rightarrow> string list" where
  "SelectedNames cfg filt =
     (let procs = c_Processes cfg;
          roots = (if filt = [] then gokeys procs else filt)
      in sort (include_all (Suc (length procs)) procs [] roots))"

definition TeardownNames :: "Config \<Rightarrow> string list" where
  "TeardownNames cfg =
     sort (map fst (filter (\<lambda>(n, p). p_Mode p = ProcessModeTeardown) (c_Processes cfg)))"

datatype selector_error = UnknownProcess string | TeardownProcess string

definition CheckSelector :: "Config \<Rightarrow> string \<Rightarrow> selector_error option" where
  "CheckSelector cfg name =
     (case gget (c_Processes cfg) name of
        None \<Rightarrow> Some (UnknownProcess name)
      | Some proc \<Rightarrow>
          if p_Mode proc = ProcessModeTeardown then Some (TeardownProcess name) else None)"

text \<open>The names a selection must start: the roots and whatever they depend on.\<close>

definition sel_edge :: "Process gomap \<Rightarrow> (string \<times> string) set" where
  "sel_edge procs = {(a, b). selectable procs a \<and> selectable procs b \<and> b \<in> set (deps_of procs a)}"

definition closure :: "Process gomap \<Rightarrow> string set \<Rightarrow> string set" where
  "closure procs roots = {n. \<exists>r \<in> roots. selectable procs r \<and> (r, n) \<in> (sel_edge procs)\<^sup>*}"

definition selectables :: "Process gomap \<Rightarrow> string set" where
  "selectables procs = {n. selectable procs n}"

lemma selectable_key: "selectable procs n \<Longrightarrow> n \<in> set (gokeys procs)"
  by (auto simp: selectable_def split: option.splits dest: gget_in_keys)

lemma finite_selectables [simp]: "finite (selectables procs)"
  by (rule finite_subset [of _ "set (gokeys procs)"])
    (auto simp: selectables_def dest: selectable_key)

lemma card_selectables: "card (selectables procs) \<le> length procs"
proof -
  have "selectables procs \<subseteq> set (gokeys procs)"
    by (auto simp: selectables_def dest: selectable_key)
  then have "card (selectables procs) \<le> card (set (gokeys procs))" by (intro card_mono) auto
  also have "\<dots> \<le> length (gokeys procs)" by (rule card_length)
  finally show ?thesis by simp
qed

lemma closure_step: "a \<in> closure procs R \<Longrightarrow> (a, b) \<in> sel_edge procs \<Longrightarrow> b \<in> closure procs R"
  unfolding closure_def by (auto intro: rtrancl_into_rtrancl)

lemma closure_self: "selectable procs a \<Longrightarrow> a \<in> closure procs {a}"
  by (auto simp: closure_def)

lemma closure_mono_step:
  "(a, b) \<in> sel_edge procs \<Longrightarrow> closure procs {b} \<subseteq> closure procs {a}"
  by (auto simp: closure_def sel_edge_def intro: converse_rtrancl_into_rtrancl)

lemma closure_selectable: "n \<in> closure procs R \<Longrightarrow> selectable procs n"
  unfolding closure_def by (auto simp: sel_edge_def elim: rtranclE)

text \<open>
  One call adds only names reachable from its argument, adds the argument itself, and leaves no
  name it added with a selectable dependency outside.
\<close>

definition closed_over :: "Process gomap \<Rightarrow> string set \<Rightarrow> string set \<Rightarrow> bool" where
  "closed_over procs new sel = (\<forall>a \<in> new. \<forall>b. (a, b) \<in> sel_edge procs \<longrightarrow> b \<in> sel)"

definition room :: "Process gomap \<Rightarrow> string list \<Rightarrow> nat" where
  "room procs sel = card (selectables procs - set sel)"

lemma room_mono: "set sel \<subseteq> set sel' \<Longrightarrow> room procs sel' \<le> room procs sel"
  unfolding room_def by (intro card_mono) auto

lemma room_add: "selectable procs n \<Longrightarrow> n \<notin> set sel \<Longrightarrow> room procs (n # sel) < room procs sel"
  unfolding room_def by (rule psubset_card_mono) (simp, auto simp: selectables_def)

lemma include_fuel:
  "room procs sel < fuel \<Longrightarrow> distinct sel \<Longrightarrow>
   (let sel' = include_name fuel procs sel name in
      set sel \<subseteq> set sel' \<and> distinct sel' \<and> (selectable procs name \<longrightarrow> name \<in> set sel')
      \<and> set sel' \<subseteq> set sel \<union> closure procs {name}
      \<and> closed_over procs (set sel' - set sel) (set sel'))"
  "room procs sel < fuel \<Longrightarrow> distinct sel \<Longrightarrow>
   (let sel' = include_all fuel procs sel ds in
      set sel \<subseteq> set sel' \<and> distinct sel' \<and> (\<forall>d \<in> set ds. selectable procs d \<longrightarrow> d \<in> set sel')
      \<and> set sel' \<subseteq> set sel \<union> (\<Union>d \<in> set ds. closure procs {d})
      \<and> closed_over procs (set sel' - set sel) (set sel'))"
proof (induction fuel procs sel name and fuel procs sel ds rule: include_name_include_all.induct)
  case (2 fuel procs sel name)
  show ?case
  proof (cases "name \<in> set sel \<or> \<not> selectable procs name")
    case True
    then show ?thesis using "2.prems" by (auto simp: closed_over_def)
  next
    case False
    let ?sel' = "include_all fuel procs (name # sel) (deps_of procs name)"
    have "room procs (name # sel) < fuel" using room_add [of procs name sel] False "2.prems" by simp
    then have IH: "set (name # sel) \<subseteq> set ?sel'" "distinct ?sel'"
      "\<forall>d \<in> set (deps_of procs name). selectable procs d \<longrightarrow> d \<in> set ?sel'"
      "set ?sel' \<subseteq> set (name # sel) \<union> (\<Union>d \<in> set (deps_of procs name). closure procs {d})"
      "closed_over procs (set ?sel' - set (name # sel)) (set ?sel')"
      using "2.IH" False "2.prems" by (auto simp: Let_def)
    have reach: "closure procs {d} \<subseteq> closure procs {name}" if "d \<in> set (deps_of procs name)" for d
    proof (cases "selectable procs d")
      case True
      with False that have "(name, d) \<in> sel_edge procs" by (simp add: sel_edge_def)
      then show ?thesis by (rule closure_mono_step)
    qed (auto simp: closure_def)
    have "set ?sel' \<subseteq> set sel \<union> closure procs {name}"
      using IH(4) UN_least [of _ "\<lambda>d. closure procs {d}", OF reach] closure_self [of procs name] False
      by auto
    moreover have "closed_over procs (set ?sel' - set sel) (set ?sel')"
      unfolding closed_over_def
    proof (intro ballI allI impI)
      fix a b
      assume a: "a \<in> set ?sel' - set sel" and ab: "(a, b) \<in> sel_edge procs"
      show "b \<in> set ?sel'"
      proof (cases "a = name")
        case True
        with ab IH(3) show ?thesis by (simp add: sel_edge_def)
      next
        case False
        with a have "a \<in> set ?sel' - set (name # sel)" by simp
        with IH(5) ab show ?thesis unfolding closed_over_def by blast
      qed
    qed
    ultimately show ?thesis using False IH(1,2) by (simp add: Let_def)
  qed
next
  case (4 fuel procs sel d ds)
  let ?s1 = "include_name fuel procs sel d"
  let ?s2 = "include_all fuel procs ?s1 ds"
  have A: "set sel \<subseteq> set ?s1" "distinct ?s1" "selectable procs d \<longrightarrow> d \<in> set ?s1"
    "set ?s1 \<subseteq> set sel \<union> closure procs {d}" "closed_over procs (set ?s1 - set sel) (set ?s1)"
    using "4.IH"(1) [OF "4.prems"] by (auto simp: Let_def)
  have "room procs ?s1 < fuel" using room_mono [OF A(1)] "4.prems"(1) by (rule le_less_trans)
  then have B: "set ?s1 \<subseteq> set ?s2" "distinct ?s2" "\<forall>d \<in> set ds. selectable procs d \<longrightarrow> d \<in> set ?s2"
    "set ?s2 \<subseteq> set ?s1 \<union> (\<Union>d \<in> set ds. closure procs {d})"
    "closed_over procs (set ?s2 - set ?s1) (set ?s2)"
    using "4.IH"(2) A(2) by (auto simp: Let_def)
  have "closed_over procs (set ?s2 - set sel) (set ?s2)"
    using A(5) B(1,5) unfolding closed_over_def by blast
  with A B show ?case by (auto simp: Let_def)
qed (auto simp: closed_over_def)

lemma include_all_closure:
  assumes "length procs < fuel"
  shows "set (include_all fuel procs [] roots) = closure procs (set roots)"
    and "distinct (include_all fuel procs [] roots)"
proof -
  let ?s = "include_all fuel procs [] roots"
  have "room procs [] < fuel" using assms card_selectables [of procs] by (simp add: room_def)
  then have s: "distinct ?s" "\<forall>d \<in> set roots. selectable procs d \<longrightarrow> d \<in> set ?s"
    "set ?s \<subseteq> (\<Union>d \<in> set roots. closure procs {d})" "closed_over procs (set ?s) (set ?s)"
    using include_fuel(2) [of procs "[]" fuel roots] by (auto simp: Let_def)
  show "distinct ?s" by (rule s(1))
  have "(r, n) \<in> (sel_edge procs)\<^sup>* \<Longrightarrow> r \<in> set ?s \<Longrightarrow> n \<in> set ?s" for r n
    by (induction rule: rtrancl_induct) (use s(4) in \<open>auto simp: closed_over_def\<close>)
  with s(2) have "closure procs (set roots) \<subseteq> set ?s" by (auto simp: closure_def)
  moreover have "set ?s \<subseteq> closure procs (set roots)" using s(3) by (auto simp: closure_def)
  ultimately show "set ?s = closure procs (set roots)" by blast
qed

definition selection_roots :: "Config \<Rightarrow> string list \<Rightarrow> string set" where
  "selection_roots cfg filt = (if filt = [] then set (gokeys (c_Processes cfg)) else set filt)"

lemma SelectedNames_closure:
  "set (SelectedNames cfg filt) = closure (c_Processes cfg) (selection_roots cfg filt)"
  "sorted (SelectedNames cfg filt)" "distinct (SelectedNames cfg filt)"
  unfolding SelectedNames_def selection_roots_def Let_def
  using include_all_closure [of "c_Processes cfg" "Suc (length (c_Processes cfg))"] by auto

lemma SelectedNames_selectable:
  "n \<in> set (SelectedNames cfg filt) \<Longrightarrow> selectable (c_Processes cfg) n"
  by (simp add: SelectedNames_closure closure_selectable)

section \<open>Levels\<close>

fun depth :: "nat \<Rightarrow> Process gomap \<Rightarrow> nat gomap \<Rightarrow> string \<Rightarrow> (nat \<times> nat gomap) option"
  and depth_deps :: "nat \<Rightarrow> Process gomap \<Rightarrow> nat gomap \<Rightarrow> string list \<Rightarrow> nat
      \<Rightarrow> (nat \<times> nat gomap) option" where
  "depth 0 procs level name = None"
| "depth (Suc fuel) procs level name =
     (case gget level name of
        Some l \<Rightarrow> Some (l, level)
      | None \<Rightarrow> (case depth_deps fuel procs level (deps_of procs name) 0 of
          None \<Rightarrow> None
        | Some (l, level') \<Rightarrow> Some (l, gput name l level')))"
| "depth_deps fuel procs level [] l = Some (l, level)"
| "depth_deps fuel procs level (dep # deps) l =
     (case depth fuel procs level dep of
        None \<Rightarrow> None
      | Some (k, level') \<Rightarrow> depth_deps fuel procs level' deps (max l (k + 1)))"

definition place :: "string list list \<Rightarrow> nat \<Rightarrow> string \<Rightarrow> string list list" where
  "place levels l name =
     (let padded = levels @ replicate (Suc l - length levels) []
      in padded[l := padded ! l @ [name]])"

fun plan_levels :: "nat \<Rightarrow> Process gomap \<Rightarrow> nat gomap \<Rightarrow> string list \<Rightarrow> string list list
    \<Rightarrow> string list list option" where
  "plan_levels fuel procs level [] levels = Some levels"
| "plan_levels fuel procs level (name # names) levels =
     (case depth fuel procs level name of
        None \<Rightarrow> None
      | Some (l, level') \<Rightarrow> plan_levels fuel procs level' names (place levels l name))"

record EndpointReference =
  er_Field :: string
  er_Ref :: string
  er_Resolvable :: bool

record PlannedHealth =
  ph_Probe :: string
  ph_Target :: string
  ph_Interval :: int
  ph_Action :: string

record PlannedProcess =
  pp_Name :: string
  pp_Level :: nat
  pp_Mode :: string
  pp_Readiness :: string
  pp_Probe :: string
  pp_DependsOn :: "string list"
  pp_Ports :: "int gomap"
  pp_Health :: "PlannedHealth option"
  pp_References :: "EndpointReference list"

record StartupPlan =
  sp_Levels :: "string list list"
  sp_Processes :: "PlannedProcess list"
  sp_Teardown :: "string list"

definition referenceResolvable :: "Config \<Rightarrow> string \<Rightarrow> string list \<Rightarrow> bool" where
  "referenceResolvable cfg ref selected =
     (if ref \<in> {''session.name'', ''session.id'', ''session.dir'', ''config.dir''} then True
      else case splitReference ref of (namespace, process, port, ok) \<Rightarrow>
        if \<not> ok \<or> (namespace \<noteq> ''ports'' \<and> namespace \<noteq> ''urls'') then False
        else process \<in> set selected \<and> ghas (p_Ports (proc_at (c_Processes cfg) process)) port)"

definition probe_fields :: "string \<Rightarrow> ReadyWhen option \<Rightarrow> (string \<times> string) list" where
  "probe_fields pre rw = (case rw of
     None \<Rightarrow> []
   | Some r \<Rightarrow> [(pre @ ''.http'', rw_HTTP r), (pre @ ''.tcp'', rw_TCP r), (pre @ ''.cmd'', rw_Cmd r)])"

definition processReferences :: "Config \<Rightarrow> Process \<Rightarrow> string list \<Rightarrow> EndpointReference list" where
  "processReferences cfg proc selected =
     (let flds = [(''cmd'', p_Cmd proc), (''dir'', p_Dir proc)]
            @ map (\<lambda>key. (''env.'' @ key, the_default [] (gget (p_Env proc) key)))
                (SortedProcessNames (p_Env proc))
            @ probe_fields ''ready_when'' (p_ReadyWhen proc)
            @ probe_fields ''health_when'' (p_HealthWhen proc)
      in concat (map (\<lambda>(field, value).
           map (\<lambda>ref. \<lparr>er_Field = field, er_Ref = ref,
                 er_Resolvable = referenceResolvable cfg ref selected\<rparr>) (find_refs value)) flds))"

definition probe_kind :: "ReadyWhen \<Rightarrow> bool \<Rightarrow> string \<times> string" where
  "probe_kind rw allowLog =
     (if rw_HTTP rw \<noteq> [] then (''http'', rw_HTTP rw)
      else if rw_TCP rw \<noteq> [] then (''tcp'', rw_TCP rw)
      else if rw_Cmd rw \<noteq> [] then (''cmd'', rw_Cmd rw)
      else if allowLog \<and> rw_Log rw \<noteq> [] then (''log'', rw_Log rw)
      else ([], []))"

definition planned :: "Config \<Rightarrow> string list \<Rightarrow> nat \<Rightarrow> string \<Rightarrow> PlannedProcess" where
  "planned cfg selected l name =
     (let proc = proc_at (c_Processes cfg) name;
          mode = EffectiveMode proc;
          (readiness, probe) =
            (if mode = ProcessModeTask then (''exit'', [])
             else case p_ReadyWhen proc of
                    None \<Rightarrow> (''none'', [])
                  | Some rw \<Rightarrow> (let k = probe_kind rw True in if fst k = [] then (''none'', []) else k));
          health = map_option (\<lambda>hw. \<lparr>ph_Probe = fst (probe_kind hw False),
              ph_Target = snd (probe_kind hw False),
              ph_Interval = EffectiveHealthInterval proc, ph_Action = EffectiveHealthAction proc\<rparr>)
            (p_HealthWhen proc)
      in \<lparr>pp_Name = name, pp_Level = l, pp_Mode = mode, pp_Readiness = readiness, pp_Probe = probe,
          pp_DependsOn = p_DependsOn proc, pp_Ports = p_Ports proc, pp_Health = health,
          pp_References = processReferences cfg proc selected\<rparr>)"

datatype plan_result = PlanRefused selector_error | PlanDiverges | PlanOk StartupPlan

definition Plan :: "Config \<Rightarrow> string list \<Rightarrow> plan_result" where
  "Plan cfg filt =
     (case first_some (map (CheckSelector cfg) filt) of
        Some e \<Rightarrow> PlanRefused e
      | None \<Rightarrow>
          (let names = SelectedNames cfg filt; procs = c_Processes cfg
           in case plan_levels (Suc (length (all_names procs))) procs [] names [] of
                None \<Rightarrow> PlanDiverges
              | Some levels \<Rightarrow> PlanOk \<lparr>sp_Levels = levels,
                  sp_Processes = concat (map (\<lambda>(l, group). map (planned cfg names l) group)
                    (enumerate 0 levels)),
                  sp_Teardown = TeardownNames cfg\<rparr>))"

subsection \<open>The level table\<close>

text \<open>
  A level table is consistent when every entry is one more than the largest level of its
  dependencies (zero without any), all of which have entries.
\<close>

definition consistent :: "Process gomap \<Rightarrow> nat gomap \<Rightarrow> bool" where
  "consistent procs m = (\<forall>n l. gget m n = Some l \<longrightarrow>
     (\<forall>d \<in> set (deps_of procs n). \<exists>k. gget m d = Some k \<and> k < l)
     \<and> (l = 0 \<or> (\<exists>d \<in> set (deps_of procs n). gget m d = Some (l - 1))))"

definition descendants :: "Process gomap \<Rightarrow> string \<Rightarrow> string set" where
  "descendants procs n = {m. (n, m) \<in> (depends procs)\<^sup>+}"

lemma descendants_sub: "descendants procs n \<subseteq> set (all_names procs)"
  by (auto simp: descendants_def depends_def elim: tranclE intro: deps_in_all_names)

lemma finite_descendants [simp]: "finite (descendants procs n)"
  by (rule finite_subset [OF descendants_sub]) simp

lemma descendants_less:
  assumes "acyclic (depends procs)" and "d \<in> set (deps_of procs n)"
  shows "card (descendants procs d) < card (descendants procs n)"
proof (rule psubset_card_mono)
  have nd: "(n, d) \<in> depends procs" using assms(2) by (simp add: depends_def)
  then have "descendants procs d \<subseteq> descendants procs n"
    by (auto simp: descendants_def intro: trancl_into_trancl2)
  moreover have "d \<in> descendants procs n" using nd by (auto simp: descendants_def)
  moreover have "d \<notin> descendants procs d" using assms(1) by (simp add: descendants_def acyclic_def)
  ultimately show "descendants procs d \<subset> descendants procs n" by blast
qed simp

lemma consistent_put:
  assumes "consistent procs m" and "gget m n = None"
    and "\<forall>d \<in> set (deps_of procs n). \<exists>k. gget m d = Some k \<and> k < l"
    and "l = 0 \<or> (\<exists>d \<in> set (deps_of procs n). gget m d = Some (l - 1))"
  shows "consistent procs (gput n l m)"
proof -
  have other: "gget m d = Some k \<Longrightarrow> d \<noteq> n" for d k using assms(2) by auto
  show ?thesis
    unfolding consistent_def
  proof (intro allI impI)
    fix a j
    assume aj: "gget (gput n l m) a = Some j"
    show "(\<forall>d \<in> set (deps_of procs a). \<exists>k. gget (gput n l m) d = Some k \<and> k < j)
      \<and> (j = 0 \<or> (\<exists>d \<in> set (deps_of procs a). gget (gput n l m) d = Some (j - 1)))"
    proof (cases "a = n")
      case True
      with aj have "j = l" by simp
      with True assms(3,4) other show ?thesis by (metis gget_gput)
    next
      case False
      with aj have "gget m a = Some j" by simp
      with assms(1) have "\<forall>d \<in> set (deps_of procs a). \<exists>k. gget m d = Some k \<and> k < j"
        and "j = 0 \<or> (\<exists>d \<in> set (deps_of procs a). gget m d = Some (j - 1))"
        unfolding consistent_def by blast+
      with other show ?thesis by (metis gget_gput)
    qed
  qed
qed

lemma depth_fuel:
  assumes "acyclic (depends procs)"
  shows "consistent procs m \<Longrightarrow> card (descendants procs n) < fuel \<Longrightarrow>
     \<exists>l m'. depth fuel procs m n = Some (l, m') \<and> consistent procs m' \<and> map_of m \<subseteq>\<^sub>m map_of m'
       \<and> gget m' n = Some l
       \<and> dom (map_of m') \<subseteq> dom (map_of m) \<union> insert n (descendants procs n)"
  and "consistent procs m \<Longrightarrow> (\<forall>d \<in> set ds. card (descendants procs d) < fuel) \<Longrightarrow>
     \<exists>l m'. depth_deps fuel procs m ds acc = Some (l, m') \<and> consistent procs m'
       \<and> map_of m \<subseteq>\<^sub>m map_of m' \<and> acc \<le> l
       \<and> (\<forall>d \<in> set ds. \<exists>k. gget m' d = Some k \<and> k < l)
       \<and> (l = acc \<or> (0 < l \<and> (\<exists>d \<in> set ds. gget m' d = Some (l - 1))))
       \<and> dom (map_of m') \<subseteq> dom (map_of m) \<union> (\<Union>d \<in> set ds. insert d (descendants procs d))"
  using assms
proof (induction fuel procs m n and fuel procs m ds acc rule: depth_depth_deps.induct)
  case (2 fuel procs m n)
  show ?case
  proof (cases "gget m n")
    case (Some l)
    then show ?thesis using "2.prems" by auto
  next
    case None
    have less: "\<forall>d \<in> set (deps_of procs n). card (descendants procs d) < fuel"
      using descendants_less [OF "2.prems"(3)] "2.prems"(2) by fastforce
    from "2.IH" [OF None "2.prems"(1) this "2.prems"(3)] obtain l m' where
      m': "depth_deps fuel procs m (deps_of procs n) 0 = Some (l, m')" "consistent procs m'"
        "map_of m \<subseteq>\<^sub>m map_of m'" "\<forall>d \<in> set (deps_of procs n). \<exists>k. gget m' d = Some k \<and> k < l"
        "l = 0 \<or> (0 < l \<and> (\<exists>d \<in> set (deps_of procs n). gget m' d = Some (l - 1)))"
        "dom (map_of m') \<subseteq> dom (map_of m)
           \<union> (\<Union>d \<in> set (deps_of procs n). insert d (descendants procs d))"
      by blast
    have desc: "insert d (descendants procs d) \<subseteq> descendants procs n"
      if "d \<in> set (deps_of procs n)" for d
      using that by (auto simp: descendants_def depends_def intro: trancl_into_trancl2)
    have sub: "dom (map_of m') \<subseteq> dom (map_of m) \<union> descendants procs n"
      using m'(6) UN_least [of "set (deps_of procs n)", OF desc]
      by (rule order_trans [OF _ Un_mono [OF order_refl]])
    have "n \<notin> descendants procs n" using "2.prems"(3) by (simp add: descendants_def acyclic_def)
    with sub None have "gget m' n = None" by (auto simp: domIff)
    with m' have "consistent procs (gput n l m')" by (intro consistent_put) auto
    moreover have "map_of m \<subseteq>\<^sub>m map_of (gput n l m')"
      using m'(3) None by (auto simp: map_le_def update_conv' dom_def)
    ultimately show ?thesis using None m'(1) sub by (auto simp: update_conv')
  qed
next
  case (4 fuel procs m d ds acc)
  from "4.IH"(1) [OF "4.prems"(1) _ "4.prems"(3)] "4.prems"(2) obtain k m1 where
    m1: "depth fuel procs m d = Some (k, m1)" "consistent procs m1" "map_of m \<subseteq>\<^sub>m map_of m1"
      "gget m1 d = Some k" "dom (map_of m1) \<subseteq> dom (map_of m) \<union> insert d (descendants procs d)"
    by auto
  from "4.IH"(2) [OF m1(1) refl m1(2) _ "4.prems"(3)] "4.prems"(2) obtain l m2 where
    m2: "depth_deps fuel procs m1 ds (max acc (k + 1)) = Some (l, m2)" "consistent procs m2"
      "map_of m1 \<subseteq>\<^sub>m map_of m2" "max acc (k + 1) \<le> l"
      "\<forall>d \<in> set ds. \<exists>k. gget m2 d = Some k \<and> k < l"
      "l = max acc (k + 1) \<or> (0 < l \<and> (\<exists>d \<in> set ds. gget m2 d = Some (l - 1)))"
      "dom (map_of m2) \<subseteq> dom (map_of m1) \<union> (\<Union>d \<in> set ds. insert d (descendants procs d))"
    by auto
  have d2: "gget m2 d = Some k" using m1(4) m2(3) by (auto simp: map_le_def dom_def)
  have "l = acc \<or> (0 < l \<and> (\<exists>d \<in> set (d # ds). gget m2 d = Some (l - 1)))"
    using m2(6) d2 by (auto simp: max_def split: if_splits)
  moreover have "map_of m \<subseteq>\<^sub>m map_of m2" using m1(3) m2(3) by (rule map_le_trans)
  moreover have "dom (map_of m2) \<subseteq> dom (map_of m)
      \<union> (\<Union>d \<in> set (d # ds). insert d (descendants procs d))"
    unfolding list.set UN_insert by (rule sub_Un_trans [OF m2(7) m1(5)])
  ultimately show ?case using m1(1) m2 d2 by auto
qed auto

subsection \<open>The levels of a plan\<close>

lemma length_place [simp]: "length (place levels l name) = max (length levels) (Suc l)"
  by (auto simp: place_def Let_def)

lemma nth_place:
  assumes "i < length (place levels l name)"
  shows "place levels l name ! i =
    (if i < length levels then levels ! i else []) @ (if i = l then [name] else [])"
proof -
  have "(levels @ replicate (Suc l - length levels) []) ! j = (if j < length levels then levels ! j else [])"
    if "j < max (length levels) (Suc l)" for j
    using that by (auto simp: nth_append max_def split: if_splits)
  then show ?thesis using assms by (auto simp: place_def Let_def nth_list_update)
qed

definition levels_ok :: "nat gomap \<Rightarrow> string list \<Rightarrow> string list list \<Rightarrow> bool" where
  "levels_ok m seen levels =
     ((\<forall>i < length levels. levels ! i = filter (\<lambda>n. gget m n = Some i) seen)
      \<and> (\<forall>n \<in> set seen. \<exists>l < length levels. gget m n = Some l))"

lemma levels_ok_mono:
  assumes "levels_ok m seen levels" and "map_of m \<subseteq>\<^sub>m map_of m'"
  shows "levels_ok m' seen levels"
proof -
  have same: "n \<in> set seen \<Longrightarrow> gget m' n = gget m n" for n
    using assms unfolding levels_ok_def map_le_def by (metis domI)
  then have "filter (\<lambda>n. gget m' n = Some i) seen = filter (\<lambda>n. gget m n = Some i) seen" for i
    by (intro filter_cong) auto
  with assms(1) same show ?thesis by (simp add: levels_ok_def)
qed

lemma levels_ok_place:
  assumes "levels_ok m seen levels" and "gget m name = Some l"
  shows "levels_ok m (seen @ [name]) (place levels l name)"
proof -
  have bound: "gget m n \<noteq> Some i" if "n \<in> set seen" "\<not> i < length levels" for n i
    using assms(1) that by (auto simp: levels_ok_def)
  have "place levels l name ! i = filter (\<lambda>n. gget m n = Some i) (seen @ [name])"
    if i: "i < length (place levels l name)" for i
  proof (cases "i < length levels")
    case True
    then show ?thesis using assms i by (auto simp: nth_place levels_ok_def)
  next
    case False
    with bound have "filter (\<lambda>n. gget m n = Some i) seen = []" by (simp add: filter_empty_conv)
    with False assms(2) i show ?thesis by (auto simp: nth_place)
  qed
  moreover have "\<forall>n \<in> set (seen @ [name]). \<exists>k < length (place levels l name). gget m n = Some k"
    using assms by (fastforce simp: levels_ok_def)
  ultimately show ?thesis unfolding levels_ok_def by blast
qed

lemma plan_levels_ok:
  assumes "acyclic (depends procs)" and "length (all_names procs) < fuel"
  shows "consistent procs m \<Longrightarrow> levels_ok m seen levels \<Longrightarrow>
    \<exists>levels' m'. plan_levels fuel procs m names levels = Some levels' \<and> consistent procs m'
      \<and> levels_ok m' (seen @ names) levels'"
proof (induction names arbitrary: m seen levels)
  case (Cons name names)
  have "card (descendants procs name) \<le> card (set (all_names procs))"
    by (rule card_mono [OF _ descendants_sub]) simp
  also have "\<dots> < fuel" using assms(2) card_length le_less_trans by blast
  finally obtain l m1 where m1: "depth fuel procs m name = Some (l, m1)" "consistent procs m1"
      "map_of m \<subseteq>\<^sub>m map_of m1" "gget m1 name = Some l"
    using depth_fuel(1) [OF assms(1) Cons.prems(1)] by blast
  have "levels_ok m1 (seen @ [name]) (place levels l name)"
    using levels_ok_place [OF levels_ok_mono [OF Cons.prems(2) m1(3)] m1(4)] .
  from Cons.IH [OF m1(2) this] m1(1) show ?case by simp
qed auto

lemma levels_ok_partition:
  assumes "levels_ok m names levels" and "distinct names"
  shows "distinct (concat levels)" and "set (concat levels) = set names"
proof -
  have lv: "i < length levels \<Longrightarrow> levels ! i = filter (\<lambda>n. gget m n = Some i) names" for i
    using assms(1) by (simp add: levels_ok_def)
  have sub: "set (levels ! i) \<subseteq> set names" if "i < length levels" for i
    using lv [OF that] by auto
  have sup: "\<exists>i < length levels. n \<in> set (levels ! i)" if "n \<in> set names" for n
  proof -
    from assms(1) that obtain l where "l < length levels" "gget m n = Some l"
      unfolding levels_ok_def by blast
    with lv [of l] that show ?thesis by auto
  qed
  show "set (concat levels) = set names"
  proof (intro equalityI subsetI)
    fix n assume "n \<in> set (concat levels)"
    then obtain i where "i < length levels" "n \<in> set (levels ! i)"
      unfolding set_concat by (metis UN_E in_set_conv_nth)
    with sub show "n \<in> set names" by blast
  next
    fix n assume "n \<in> set names"
    with sup obtain i where "i < length levels" "n \<in> set (levels ! i)" by blast
    then show "n \<in> set (concat levels)" unfolding set_concat by (metis UN_I nth_mem)
  qed
  have "levels = map (\<lambda>i. filter (\<lambda>n. gget m n = Some i) names) [0..<length levels]"
    by (rule nth_equalityI) (auto simp: lv)
  moreover have "distinct (concat (map (\<lambda>i. filter (\<lambda>n. gget m n = Some i) names) [0..<k]))" for k
    using assms(2) by (induction k) auto
  ultimately show "distinct (concat levels)" by metis
qed

lemma Plan_ok:
  assumes "acyclic (depends (c_Processes cfg))" and "\<forall>f \<in> set filt. CheckSelector cfg f = None"
  obtains sp m where "Plan cfg filt = PlanOk sp" "consistent (c_Processes cfg) m"
    "levels_ok m (SelectedNames cfg filt) (sp_Levels sp)"
    "sp_Teardown sp = TeardownNames cfg"
    "sp_Processes sp = concat (map (\<lambda>(l, group). map (planned cfg (SelectedNames cfg filt) l) group)
       (enumerate 0 (sp_Levels sp)))"
proof -
  have sel: "first_some (map (CheckSelector cfg) filt) = None"
    using assms(2) by (auto simp: first_some_None)
  have "consistent (c_Processes cfg) []" "levels_ok [] [] []"
    by (auto simp: consistent_def levels_ok_def)
  from plan_levels_ok [OF assms(1) lessI this, of "SelectedNames cfg filt"] obtain levels m where
    "plan_levels (Suc (length (all_names (c_Processes cfg)))) (c_Processes cfg) []
       (SelectedNames cfg filt) [] = Some levels"
    "consistent (c_Processes cfg) m" "levels_ok m (SelectedNames cfg filt) levels" by auto
  with sel show ?thesis by (intro that) (auto simp: Plan_def Let_def)
qed

lemma selected_dep:
  assumes "n \<in> set (SelectedNames cfg filt)" and "d \<in> set (deps_of (c_Processes cfg) n)"
    and "selectable (c_Processes cfg) d"
  shows "d \<in> set (SelectedNames cfg filt)"
  using assms SelectedNames_selectable [OF assms(1)]
  by (auto simp: SelectedNames_closure sel_edge_def intro: closure_step)

lemma Plan_orders:
  assumes "acyclic (depends (c_Processes cfg))" and "\<forall>f \<in> set filt. CheckSelector cfg f = None"
  shows "\<exists>sp. Plan cfg filt = PlanOk sp
    \<and> distinct (concat (sp_Levels sp)) \<and> set (concat (sp_Levels sp)) = set (SelectedNames cfg filt)
    \<and> (\<forall>i < length (sp_Levels sp). \<forall>n \<in> set (sp_Levels sp ! i). \<forall>d \<in> set (deps_of (c_Processes cfg) n).
         selectable (c_Processes cfg) d \<longrightarrow> (\<exists>j < i. d \<in> set (sp_Levels sp ! j)))"
proof -
  let ?names = "SelectedNames cfg filt"
  from Plan_ok [OF assms] obtain sp m where sp: "Plan cfg filt = PlanOk sp"
    and m: "consistent (c_Processes cfg) m" and ok: "levels_ok m ?names (sp_Levels sp)" by metis
  have "\<exists>j < i. d \<in> set (sp_Levels sp ! j)"
    if i: "i < length (sp_Levels sp)" and n: "n \<in> set (sp_Levels sp ! i)"
      and d: "d \<in> set (deps_of (c_Processes cfg) n)" "selectable (c_Processes cfg) d" for i n d
  proof -
    have nn: "n \<in> set ?names" "gget m n = Some i" using n i ok by (auto simp: levels_ok_def)
    with m d obtain k where k: "gget m d = Some k" "k < i" unfolding consistent_def by blast
    have "d \<in> set ?names" using selected_dep [OF nn(1) d] .
    with k i ok have "d \<in> set (sp_Levels sp ! k)" by (auto simp: levels_ok_def)
    with k(2) show ?thesis by blast
  qed
  with sp levels_ok_partition [OF ok SelectedNames_closure(3)] show ?thesis by blast
qed

end
