(* ===== verification/Config_Merge.thy ===== *)
theory Config_Merge
  imports Config_Refs
begin

text \<open>
  The \<^verbatim>\<open>merge\<close> section of a config (\<^verbatim>\<open>internal/config/config.go\<close>): the proxy command, the port each
  process serves, the processes the proxy forwards to, and what \<^verbatim>\<open>Load\<close> writes into them. The source
  tree that the route detection walks and the two route patterns are arguments
  (\<open>fs_node\<close>, \<open>submatch\<close>), as is \<^verbatim>\<open>url.Parse\<close>. The lemmas show which processes can be upstreams,
  on which port, and that the generated command names only ports in range.
\<close>

section \<open>The proxy command\<close>

definition routeTarget :: "string \<Rightarrow> string option" where
  "routeTarget route = (case cut_last (CHR ''='') route of
     None \<Rightarrow> None | Some (_, target) \<Rightarrow> Some (TrimSpace target))"

definition parseRoutePort :: "string \<Rightarrow> int" where
  "parseRoutePort route =
     (case routeTarget route of
        None \<Rightarrow> 0
      | Some target \<Rightarrow> (case Atoi target of
            None \<Rightarrow> 0
          | Some port \<Rightarrow> if port \<le> 0 then 0 else port))"

definition checkPortRange :: "string \<Rightarrow> int \<Rightarrow> ValidationError option" where
  "checkPortRange field port =
     refuse_if (port < 1 \<or> port > 65535)
       (invalid CodeInvalidMerge [PKey ''merge'', PKey field] [field, Itoa port])"

definition integerRe :: "string \<Rightarrow> bool" where
  "integerRe s =
     (let ds = (case s of c # cs \<Rightarrow> if c \<in> set ''+-'' then cs else s | [] \<Rightarrow> [])
      in ds \<noteq> [] \<and> list_all (\<lambda>c. digit_val c \<noteq> None) ds)"

definition checkRouteTarget :: "nat \<Rightarrow> string \<Rightarrow> ValidationError option" where
  "checkRouteTarget i route =
     (case routeTarget route of
        None \<Rightarrow> None
      | Some target \<Rightarrow>
          if \<not> integerRe target then None
          else refuse_if (case Atoi target of None \<Rightarrow> True | Some port \<Rightarrow> port < 1 \<or> port > 65535)
            (invalid CodeInvalidMerge [PKey ''merge'', PKey ''routes'', PIdx i] [utoa i, target]))"

text \<open>A failure of \<open>buildMergeCmd\<close>: about the section as a whole, or located at a field.\<close>

datatype merge_error = MergeSection string | MergeField ValidationError

definition routeMode :: "Merge \<Rightarrow> bool" where
  "routeMode m = (m_Routes m \<noteq> [])"

definition simpleMode :: "Merge \<Rightarrow> bool" where
  "simpleMode m = (m_Client m \<noteq> 0 \<or> m_Server m \<noteq> 0 \<or> m_ApiPrefixes m \<noteq> [])"

definition resolveMergePort :: "string \<Rightarrow> Merge \<Rightarrow> Merge" where
  "resolveMergePort portEnv m =
     (if m_Port m \<noteq> 0 then m
      else let m1 = (if portEnv \<noteq> []
                     then (case Atoi portEnv of
                             Some p \<Rightarrow> if p > 0 then m\<lparr>m_Port := p\<rparr> else m
                           | None \<Rightarrow> m)
                     else m)
           in if m_Port m1 = 0 then m1\<lparr>m_Port := 8080\<rparr> else m1)"

text \<open>\<open>portEnv\<close> is the value of \<^verbatim>\<open>$PORT\<close>. The result carries the section with its port resolved.\<close>

definition buildMergeCmd :: "string \<Rightarrow> Merge \<Rightarrow> merge_error + (string \<times> Merge)" where
  "buildMergeCmd portEnv m =
     (if routeMode m \<and> simpleMode m then Inl (MergeSection ''routes cannot be combined'')
      else if \<not> routeMode m \<and> \<not> simpleMode m then Inl (MergeSection ''client/server or routes'')
      else case (if routeMode m
          then (case first_some (map (\<lambda>(i, r). checkRouteTarget i r) (enumerate 0 (m_Routes m))) of
                  Some e \<Rightarrow> Inl (MergeField e)
                | None \<Rightarrow> Inr (map (\<lambda>r. ''--route '' @ r) (m_Routes m)))
          else if m_Client m = 0 then Inl (MergeSection ''client'')
          else if m_Server m = 0 then Inl (MergeSection ''server'')
          else (case first_some [checkPortRange ''client'' (m_Client m),
                                 checkPortRange ''server'' (m_Server m)] of
                  Some e \<Rightarrow> Inl (MergeField e)
                | None \<Rightarrow> Inr ([''--client '' @ Itoa (m_Client m), ''--server '' @ Itoa (m_Server m)]
                    @ map (\<lambda>p. ''--api-prefix '' @ p) (m_ApiPrefixes m)))) of
          Inl e \<Rightarrow> Inl e
        | Inr parts \<Rightarrow>
            (let m' = resolveMergePort portEnv m
             in case checkPortRange ''port'' (m_Port m') of
                  Some e \<Rightarrow> Inl (MergeField e)
                | None \<Rightarrow> Inr (Join ([''merge-port''] @ parts @ [''--port '' @ Itoa (m_Port m')]) '' '', m')))"

section \<open>Route detection\<close>

datatype fs_node = FDir string "fs_node list" | FFile string "string list"

definition skipDirs :: "string list" where
  "skipDirs = [''node_modules'', ''.git'', ''dist'', ''build'', ''.next'', ''vendor'', ''coverage'',
     ''__pycache__'', ''.cache'', ''tmp'', ''temp'', ''.turbo'']"

definition lower_char :: "char \<Rightarrow> char" where
  "lower_char c = (let n = of_char c :: nat in if 65 \<le> n \<and> n \<le> 90 then char_of (n + 32) else c)"

definition filepath_Ext :: "string \<Rightarrow> string" where
  "filepath_Ext base = (case cut_last (CHR ''.'') base of None \<Rightarrow> [] | Some (_, ext) \<Rightarrow> CHR ''.'' # ext)"

text \<open>On the base name of a path: an extension never spans a slash.\<close>

definition isSourceFile :: "string \<Rightarrow> bool" where
  "isSourceFile base =
     (let lower = map lower_char base
      in if Contains lower ''.test.'' \<or> Contains lower ''.spec.'' \<or> HasSuffix lower ''_test.go''
         then False
         else map lower_char (filepath_Ext base) \<in> set [''.js'', ''.ts'', ''.mjs'', ''.cjs'', ''.go''])"

definition topPrefix :: "string \<Rightarrow> string" where
  "topPrefix path =
     (let trimmed = (if HasPrefix path [slash] then tl path else path);
          part = fst (Cut1 slash trimmed)
      in if part = [] then [slash] else slash # part)"

text \<open>The lines a walk visits, and the prefixes the patterns find in one line.\<close>

fun walk_lines :: "fs_node \<Rightarrow> string list" where
  "walk_lines (FFile name lines) = (if isSourceFile name then lines else [])"
| "walk_lines (FDir name entries) =
     (if name \<in> set skipDirs then [] else concat (map walk_lines entries))"

definition line_prefixes :: "(nat \<Rightarrow> string \<Rightarrow> string option) \<Rightarrow> string \<Rightarrow> string list" where
  "line_prefixes submatch line =
     filter (\<lambda>prefix. prefix \<noteq> [slash] \<and> HasPrefix prefix [slash])
       (List.map_filter (\<lambda>re. map_option (\<lambda>m. topPrefix (TrimSpace m)) (submatch re line)) [0, 1])"

definition scanRoutes :: "(nat \<Rightarrow> string \<Rightarrow> string option) \<Rightarrow> fs_node \<Rightarrow> string list" where
  "scanRoutes submatch tree =
     sort (remdups (concat (map (line_prefixes submatch) (walk_lines tree))))"

section \<open>Served ports and upstreams\<close>

definition serviceUpstreams :: "Process gomap \<Rightarrow> Process gomap" where
  "serviceUpstreams procs = filter (\<lambda>(name, proc). EffectiveMode proc = ProcessModeService) procs"

definition checkClientProcess :: "Process gomap \<Rightarrow> Merge \<Rightarrow> ValidationError option" where
  "checkClientProcess procs m =
     (case gget procs (m_ClientProcess m) of
        None \<Rightarrow> None
      | Some proc \<Rightarrow>
          refuse_if (m_ClientProcess m \<noteq> [] \<and> EffectiveMode proc \<noteq> ProcessModeService)
            (invalid CodeInvalidMerge [PKey ''merge'', PKey ''client_process'']
               [m_ClientProcess m, EffectiveMode proc]))"

text \<open>\<open>sp_declared\<close> holds what the message about the declaration interpolates.\<close>

record ServedPort =
  sp_Port :: int
  sp_Named :: "string list"
  sp_declared :: "string list"

definition servedPort :: "Process gomap \<Rightarrow> envFile gomap \<Rightarrow> string \<Rightarrow> Process \<Rightarrow> ServedPort option" where
  "servedPort procs envFiles name proc =
     (let fileVars = (case gget envFiles name of Some (Inr vars) \<Rightarrow> vars | _ \<Rightarrow> []);
          decl = (case gget (p_Env proc) ''PORT'' of
              Some v \<Rightarrow> Some (v, [])
            | None \<Rightarrow> (case gget fileVars ''PORT'' of
                Some v \<Rightarrow> Some (v, ''env_file'') | None \<Rightarrow> None))
      in case decl of
           None \<Rightarrow>
             (case gget (p_Ports proc) ''http'' of
                None \<Rightarrow> None
              | Some preferred \<Rightarrow>
                  if preferred \<ge> 1 \<and> preferred \<le> 65535
                  then Some \<lparr>sp_Port = preferred, sp_Named = [name @ ''.http''],
                             sp_declared = [''ports.http'', Itoa preferred]\<rparr>
                  else None)
         | Some (value, where_) \<Rightarrow>
             (case resolvePortReferences procs value of (resolved0, named, ok) \<Rightarrow>
                let resolved = TrimSpace resolved0
                in if \<not> ok \<or> resolved = [] then None
                   else Some \<lparr>sp_Port = (case Atoi resolved of
                                 Some port \<Rightarrow> if port > 0 then port else 0 | None \<Rightarrow> 0),
                              sp_Named = named,
                              sp_declared = (if resolved \<noteq> TrimSpace value then [value, resolved, where_]
                                             else [value, where_])\<rparr>))"

definition servedPorts :: "Process gomap \<Rightarrow> envFile gomap \<Rightarrow> ServedPort gomap" where
  "servedPorts procs envFiles =
     List.map_filter (\<lambda>(name, proc). map_option (Pair name) (servedPort procs envFiles name proc)) procs"

definition ServedPorts :: "Process gomap \<Rightarrow> ServedPort gomap" where
  "ServedPorts procs = servedPorts procs []"

text \<open>A returned name is \<open>[]\<close> when no candidate is found.\<close>

definition procWithPort :: "Process gomap \<Rightarrow> ServedPort gomap \<Rightarrow> int \<Rightarrow> string" where
  "procWithPort procs served port =
     (if port \<le> 0 then []
      else the_default [] (find (\<lambda>name. name \<noteq> MergePortProcessName
             \<and> (case gget served name of Some s \<Rightarrow> sp_Port s = port | None \<Rightarrow> False))
           (SortedProcessNames procs)))"

definition first_named :: "Process gomap \<Rightarrow> string list \<Rightarrow> string" where
  "first_named procs names = the_default [] (find (ghas procs) names)"

definition findServerProc :: "Process gomap \<Rightarrow> ServedPort gomap \<Rightarrow> Merge \<Rightarrow> string" where
  "findServerProc procs served m =
     (let name = procWithPort procs served (m_Server m)
      in if name \<noteq> [] then name else first_named procs [''server'', ''backend'', ''api''])"

definition findClientProc :: "Process gomap \<Rightarrow> ServedPort gomap \<Rightarrow> Merge \<Rightarrow> string" where
  "findClientProc procs served m =
     (if m_ClientProcess m \<noteq> [] \<and> ghas procs (m_ClientProcess m) then m_ClientProcess m
      else let name = procWithPort procs served (m_Client m)
           in if name \<noteq> [] then name
              else first_named procs [''client'', ''frontend'', ''web'', ''ui'', ''app''])"

definition checkUpstreamPort ::
  "string \<Rightarrow> string \<Rightarrow> ServedPort gomap \<Rightarrow> int \<Rightarrow> ValidationError option" where
  "checkUpstreamPort field name served mergePort =
     (case gget served name of
        None \<Rightarrow> None
      | Some s \<Rightarrow> refuse_if (sp_Port s \<noteq> mergePort)
          (invalid CodeInvalidMerge [PKey ''merge'', PKey field]
             (name # sp_declared s @ [field, Itoa mergePort])))"

definition add_upstream ::
  "string \<Rightarrow> ServedPort gomap \<Rightarrow> string \<Rightarrow> int \<Rightarrow> int gomap \<Rightarrow> ValidationError + int gomap" where
  "add_upstream field served name port out =
     (if name \<noteq> [] \<and> port > 0
      then (case checkUpstreamPort field name served port of
              Some e \<Rightarrow> Inl e | None \<Rightarrow> Inr (gput name port out))
      else Inr out)"

definition route_upstream :: "Process gomap \<Rightarrow> ServedPort gomap \<Rightarrow> string \<Rightarrow> int gomap \<Rightarrow> int gomap" where
  "route_upstream procs served route out =
     (let port = parseRoutePort route
      in if port = 0 then out
         else let name = procWithPort procs served port
              in if name \<noteq> [] then gput name port out else out)"

definition resolveUpstreamProcesses ::
  "Process gomap \<Rightarrow> ServedPort gomap \<Rightarrow> Merge \<Rightarrow> ValidationError + int gomap" where
  "resolveUpstreamProcesses procs served m =
     (if m_Routes m \<noteq> [] then Inr (fold (route_upstream procs served) (m_Routes m) [])
      else case add_upstream ''client'' served (findClientProc procs served m) (m_Client m) [] of
             Inl e \<Rightarrow> Inl e
           | Inr out \<Rightarrow> add_upstream ''server'' served (findServerProc procs served m) (m_Server m) out)"

definition MergeUpstreamPorts :: "Config \<Rightarrow> string list" where
  "MergeUpstreamPorts cfg =
     (case c_Merge cfg of
        None \<Rightarrow> []
      | Some m \<Rightarrow>
          (let served = ServedPorts (c_Processes cfg);
               upstreams = (case resolveUpstreamProcesses (serviceUpstreams (c_Processes cfg)) served m of
                              Inr ups \<Rightarrow> ups | Inl _ \<Rightarrow> [])
           in remdups_adj (sort (concat (map (\<lambda>name.
                (case gget served name of Some s \<Rightarrow> sp_Named s | None \<Rightarrow> [])) (gokeys upstreams))))))"

section \<open>What Load writes into the processes\<close>

definition tcp_probe :: "int \<Rightarrow> ReadyWhen" where
  "tcp_probe port = \<lparr>rw_HTTP = [], rw_TCP = ''localhost:'' @ Itoa port, rw_Cmd = [], rw_Log = []\<rparr>"

definition injectTCPReadyIfMissing :: "string \<Rightarrow> int \<Rightarrow> Process gomap \<Rightarrow> Process gomap" where
  "injectTCPReadyIfMissing name port procs =
     (if name = [] \<or> port = 0 then procs
      else case gget procs name of
             None \<Rightarrow> procs
           | Some p \<Rightarrow> if p_ReadyWhen p \<noteq> None then procs
                       else gput name (p\<lparr>p_ReadyWhen := Some (tcp_probe port)\<rparr>) procs)"

definition apiEnvVars :: "string list" where
  "apiEnvVars = [''VITE_API_BASE_URL'', ''VITE_API_URL'', ''VITE_SERVER_URL'', ''REACT_APP_API_URL'',
     ''REACT_APP_BASE_URL'', ''REACT_APP_API_BASE_URL'', ''NEXT_PUBLIC_API_URL'',
     ''NEXT_PUBLIC_API_BASE_URL'', ''NUXT_PUBLIC_API_BASE'', ''PUBLIC_API_URL'']"

text \<open>\<open>url_parse\<close> gives the host and the path, or \<open>None\<close> for a parse error.\<close>

definition rebaseURL :: "(string \<Rightarrow> (string \<times> string) option) \<Rightarrow> string \<Rightarrow> string \<Rightarrow> string" where
  "rebaseURL url_parse exampleVal mergeBase =
     (if exampleVal = [] then mergeBase
      else case url_parse exampleVal of
             None \<Rightarrow> mergeBase
           | Some (host, path) \<Rightarrow>
               if host = [] then mergeBase
               else mergeBase @ rev (dropWhile (\<lambda>c. c = slash) (rev path)))"

text \<open>\<open>fileEnv\<close> is the client's parsed example environment, empty when there is none.\<close>

definition injectClientAPIEnv ::
  "(string \<Rightarrow> (string \<times> string) option) \<Rightarrow> string gomap \<Rightarrow> string \<Rightarrow> Merge \<Rightarrow> Process gomap \<Rightarrow> Process gomap" where
  "injectClientAPIEnv url_parse fileEnv clientName m procs =
     (let proc = proc_at procs clientName;
          mergeBase = ''http://localhost:'' @ Itoa (m_Port m);
          (env, changed) = foldl (\<lambda>(env, changed) varName.
             if ghas env varName then (env, changed)
             else (case gget fileEnv varName of
                     None \<Rightarrow> (env, changed)
                   | Some exampleVal \<Rightarrow>
                       (gput varName (rebaseURL url_parse exampleVal mergeBase) env, True)))
             (p_Env proc, False) apiEnvVars
      in if changed then gput clientName (proc\<lparr>p_Env := env\<rparr>) procs else procs)"

section \<open>Lemmas\<close>

lemma checkPortRange_None: "checkPortRange field port = None \<longleftrightarrow> 1 \<le> port \<and> port \<le> 65535"
  by (auto simp: checkPortRange_def)

text \<open>The ports of a section the proxy command is built from.\<close>

definition merge_ports_ok :: "Merge \<Rightarrow> bool" where
  "merge_ports_ok m = (1 \<le> m_Port m \<and> m_Port m \<le> 65535
     \<and> (if m_Routes m \<noteq> [] then m_Client m = 0 \<and> m_Server m = 0 \<and> m_ApiPrefixes m = []
             \<and> (\<forall>r \<in> set (m_Routes m). parseRoutePort r \<le> 65535)
        else 1 \<le> m_Client m \<and> m_Client m \<le> 65535 \<and> 1 \<le> m_Server m \<and> m_Server m \<le> 65535))"

lemma digits_val_digits:
  "digits_val acc s = Some n \<Longrightarrow> c \<in> set s \<Longrightarrow> digit_val c \<noteq> None"
  by (induction s arbitrary: acc) (auto split: option.splits)

lemma Atoi_integerRe: "Atoi s = Some i \<Longrightarrow> integerRe s"
  by (cases s) (auto simp: Atoi_def integerRe_def utoi_def list_all_iff Let_def
      split: if_splits option.splits dest: digits_val_digits)

lemma checkRouteTarget_port: "checkRouteTarget i r = None \<Longrightarrow> parseRoutePort r \<le> 65535"
  by (auto simp: checkRouteTarget_def parseRoutePort_def Atoi_integerRe
      split: option.splits if_splits)

lemma resolveMergePort_same [simp]:
  "m_Client (resolveMergePort pe m) = m_Client m" "m_Server (resolveMergePort pe m) = m_Server m"
  "m_Routes (resolveMergePort pe m) = m_Routes m"
  "m_ApiPrefixes (resolveMergePort pe m) = m_ApiPrefixes m"
  "m_ClientProcess (resolveMergePort pe m) = m_ClientProcess m"
  by (auto simp: resolveMergePort_def Let_def split: option.splits)

lemma route_checks:
  "first_some (map (\<lambda>(i, r). checkRouteTarget i r) (enumerate n rs)) = None \<Longrightarrow>
     \<forall>r \<in> set rs. parseRoutePort r \<le> 65535"
  by (induction rs arbitrary: n) (auto simp: first_some_simps checkRouteTarget_port)

lemma buildMergeCmd_ports:
  assumes "buildMergeCmd pe m = Inr (cmd, m')"
  shows "merge_ports_ok m'" and "m' = resolveMergePort pe m"
    and "HasPrefix cmd ''merge-port''"
proof -
  from assms show m': "m' = resolveMergePort pe m"
    by (auto simp: buildMergeCmd_def Let_def split: if_splits sum.splits option.splits)
  from assms have port: "1 \<le> m_Port m' \<and> m_Port m' \<le> 65535"
    by (auto simp: buildMergeCmd_def Let_def checkPortRange_None
        split: if_splits sum.splits option.splits)
  show "merge_ports_ok m'"
  proof (cases "m_Routes m = []")
    case True
    with assms port m' show ?thesis
      by (auto simp: buildMergeCmd_def merge_ports_ok_def Let_def routeMode_def first_some_simps
          checkPortRange_None split: if_splits sum.splits option.splits)
  next
    case False
    with assms have "first_some (map (\<lambda>(i, r). checkRouteTarget i r) (enumerate 0 (m_Routes m))) = None"
        "\<not> simpleMode m"
      by (auto simp: buildMergeCmd_def routeMode_def Let_def
          split: if_splits sum.splits option.splits)
    with False port m' route_checks show ?thesis
      by (auto simp: merge_ports_ok_def simpleMode_def)
  qed
  have join: "HasPrefix (Join (''merge-port'' # parts @ [x]) sep) ''merge-port''" for parts x sep
    by (cases parts) (simp_all add: HasPrefix_iff)
  show "HasPrefix cmd ''merge-port''"
    using assms join
    by (auto simp: buildMergeCmd_def Let_def split: if_splits sum.splits option.splits)
qed

lemma scanRoutes_prefix:
  assumes "p \<in> set (scanRoutes submatch tree)"
  shows "\<exists>seg. p = slash # seg \<and> seg \<noteq> [] \<and> slash \<notin> set seg"
proof -
  obtain x where x: "p = topPrefix x" "p \<noteq> [slash]"
    using assms
    by (auto simp: scanRoutes_def line_prefixes_def map_filter_simps split: option.splits if_splits)
  have "slash \<notin> set (fst (Cut1 slash y))" for y
    by (induction y) (auto split: prod.splits)
  with x show ?thesis by (auto simp: topPrefix_def Let_def split: if_splits)
qed

lemma scanRoutes_sorted: "sorted (scanRoutes submatch tree)" "distinct (scanRoutes submatch tree)"
  by (auto simp: scanRoutes_def)

lemma the_default_find:
  "the_default [] (find P xs) \<noteq> [] \<Longrightarrow> P (the_default [] (find P xs)) \<and> the_default [] (find P xs) \<in> set xs"
proof -
  assume "the_default [] (find P xs) \<noteq> []"
  then obtain x where "find P xs = Some x" by (cases "find P xs") auto
  moreover from this have "P x \<and> x \<in> set xs" by (auto simp: find_Some_iff)
  ultimately show ?thesis by simp
qed

lemma procWithPort_found:
  assumes "procWithPort procs served port = name" and "name \<noteq> []"
  shows "name \<in> set (gokeys procs)" and "name \<noteq> MergePortProcessName" and "0 < port"
    and "\<exists>s. gget served name = Some s \<and> sp_Port s = port"
  using assms the_default_find [where xs = "SortedProcessNames procs" and P = "\<lambda>name.
      name \<noteq> MergePortProcessName \<and> (case gget served name of Some s \<Rightarrow> sp_Port s = port | None \<Rightarrow> False)"]
  by (auto simp: procWithPort_def split: if_splits option.splits)

lemma first_named_found: "first_named procs names \<noteq> [] \<Longrightarrow> first_named procs names \<in> set (gokeys procs)"
  using the_default_find [where xs = names and P = "ghas procs"] by (simp add: first_named_def)

lemma findClientProc_found: "findClientProc procs served m \<noteq> [] \<Longrightarrow> findClientProc procs served m \<in> set (gokeys procs)"
  using first_named_found procWithPort_found(1)
  by (auto simp: findClientProc_def Let_def simp del: set_map)

lemma findServerProc_found: "findServerProc procs served m \<noteq> [] \<Longrightarrow> findServerProc procs served m \<in> set (gokeys procs)"
  using first_named_found procWithPort_found(1)
  by (auto simp: findServerProc_def Let_def simp del: set_map)

text \<open>What the proxy relies on: every upstream is a candidate, at a port it is known to serve.\<close>

definition upstreams_ok :: "Process gomap \<Rightarrow> ServedPort gomap \<Rightarrow> int gomap \<Rightarrow> bool" where
  "upstreams_ok procs served out =
     (gomap_ok out \<and> (\<forall>name port. gget out name = Some port \<longrightarrow>
        name \<in> set (gokeys procs) \<and> name \<noteq> [] \<and> 0 < port
        \<and> (\<forall>s. gget served name = Some s \<longrightarrow> sp_Port s = port)))"

lemma upstreams_ok_Nil [simp]: "upstreams_ok procs served []"
  by (simp add: upstreams_ok_def gomap_ok_def)

lemma upstreams_ok_put:
  "upstreams_ok procs served out \<Longrightarrow> name \<in> set (gokeys procs) \<Longrightarrow> name \<noteq> [] \<Longrightarrow> 0 < port \<Longrightarrow>
   (\<And>s. gget served name = Some s \<Longrightarrow> sp_Port s = port) \<Longrightarrow> upstreams_ok procs served (gput name port out)"
  by (auto simp: upstreams_ok_def)

lemma upstreams_ok_route:
  "upstreams_ok procs served out \<Longrightarrow> upstreams_ok procs served (route_upstream procs served r out)"
  using procWithPort_found [of procs served "parseRoutePort r"]
  by (auto simp: route_upstream_def Let_def intro: upstreams_ok_put)

lemma upstreams_ok_add:
  "upstreams_ok procs served out \<Longrightarrow> (name \<noteq> [] \<Longrightarrow> name \<in> set (gokeys procs)) \<Longrightarrow>
   add_upstream field served name port out = Inr out' \<Longrightarrow> upstreams_ok procs served out'"
  by (auto simp: add_upstream_def checkUpstreamPort_def simp del: set_map intro!: upstreams_ok_put
      split: if_splits option.splits)

lemma resolveUpstreamProcesses_ok:
  assumes "resolveUpstreamProcesses procs served m = Inr out"
  shows "upstreams_ok procs served out"
proof (cases "m_Routes m = []")
  case True
  with assms obtain out1 where
    "add_upstream ''client'' served (findClientProc procs served m) (m_Client m) [] = Inr out1"
    "add_upstream ''server'' served (findServerProc procs served m) (m_Server m) out1 = Inr out"
    by (auto simp: resolveUpstreamProcesses_def split: sum.splits)
  then show ?thesis
    using upstreams_ok_add [OF upstreams_ok_Nil findClientProc_found]
      upstreams_ok_add [OF _ findServerProc_found] by blast
next
  case False
  have "upstreams_ok procs served acc \<Longrightarrow> upstreams_ok procs served (fold (route_upstream procs served) rs acc)"
    for rs acc by (induction rs arbitrary: acc) (auto intro: upstreams_ok_route)
  with False assms show ?thesis by (auto simp: resolveUpstreamProcesses_def)
qed

lemma serviceUpstreams_service:
  "gomap_ok procs \<Longrightarrow> name \<in> set (gokeys (serviceUpstreams procs)) \<Longrightarrow>
     \<exists>p. gget procs name = Some p \<and> EffectiveMode p = ProcessModeService"
  by (auto simp: serviceUpstreams_def gomap_ok_def)

lemma gget_injectTCP:
  "gget (injectTCPReadyIfMissing name port procs) n =
     (if n = name \<and> name \<noteq> [] \<and> port \<noteq> 0
      then map_option (\<lambda>p. if p_ReadyWhen p \<noteq> None then p
             else p\<lparr>p_ReadyWhen := Some (tcp_probe port)\<rparr>) (gget procs name)
      else gget procs n)"
  by (auto simp: injectTCPReadyIfMissing_def split: option.splits)

lemma gomap_ok_injectTCP [intro]: "gomap_ok procs \<Longrightarrow> gomap_ok (injectTCPReadyIfMissing name port procs)"
  by (auto simp: injectTCPReadyIfMissing_def split: option.splits)

lemma gokeys_injectTCP [simp]:
  "set (gokeys (injectTCPReadyIfMissing name port procs)) = set (gokeys procs)"
proof -
  have "name \<in> set (gokeys procs)" if "gget procs name = Some p" for p
    using that by (rule gget_in_keys)
  then show ?thesis
    by (auto simp: injectTCPReadyIfMissing_def gokeys_gput simp del: set_map split: option.splits)
qed

text \<open>The environment injection only adds variables, and only to the client.\<close>

definition add_api_vars ::
  "(string \<Rightarrow> (string \<times> string) option) \<Rightarrow> string gomap \<Rightarrow> string \<Rightarrow> string list \<Rightarrow>
   string gomap \<times> bool \<Rightarrow> string gomap \<times> bool" where
  "add_api_vars url_parse fileEnv mergeBase vars st =
     foldl (\<lambda>(env, changed) varName.
       if ghas env varName then (env, changed)
       else (case gget fileEnv varName of
               None \<Rightarrow> (env, changed)
             | Some exampleVal \<Rightarrow> (gput varName (rebaseURL url_parse exampleVal mergeBase) env, True)))
       st vars"

lemma add_api_vars_get:
  "gget (fst (add_api_vars up fe mb vars (env, ch))) k =
     (case gget env k of Some v \<Rightarrow> Some v
      | None \<Rightarrow> if k \<in> set vars then map_option (\<lambda>v. rebaseURL up v mb) (gget fe k) else None)"
proof (induction vars arbitrary: env ch)
  case Nil
  then show ?case by (simp add: add_api_vars_def split: option.splits)
next
  case (Cons v vars)
  show ?case
  proof (cases "ghas env v \<or> gget fe v = None")
    case True
    then have "add_api_vars up fe mb (v # vars) (env, ch) = add_api_vars up fe mb vars (env, ch)"
      by (auto simp: add_api_vars_def)
    moreover have "k = v \<Longrightarrow> gget env k = None \<Longrightarrow> gget fe k = None"
      using True by (auto simp: map_of_eq_None_iff)
    ultimately show ?thesis using Cons.IH [of env ch] by (auto split: option.splits)
  next
    case False
    then obtain x where x: "gget fe v = Some x" "\<not> ghas env v" by blast
    then have e: "gget env v = None" by (simp add: map_of_eq_None_iff)
    have "add_api_vars up fe mb (v # vars) (env, ch)
        = add_api_vars up fe mb vars (gput v (rebaseURL up x mb) env, True)"
      using x by (simp add: add_api_vars_def)
    with Cons.IH x(1) e show ?thesis by (auto split: option.splits)
  qed
qed

lemma add_api_vars_unchanged:
  "\<not> snd (add_api_vars up fe mb vars (env, ch)) \<Longrightarrow> fst (add_api_vars up fe mb vars (env, ch)) = env"
proof (induction vars arbitrary: env ch)
  case (Cons v vars)
  have keep: "snd (add_api_vars up fe mb vars (e, True))" for e
    by (induction vars arbitrary: e) (auto simp: add_api_vars_def split: option.splits)
  show ?case
  proof (cases "ghas env v \<or> gget fe v = None")
    case True
    then have "add_api_vars up fe mb (v # vars) (env, ch) = add_api_vars up fe mb vars (env, ch)"
      by (auto simp: add_api_vars_def)
    with Cons show ?thesis by simp
  next
    case False
    then have "snd (add_api_vars up fe mb (v # vars) (env, ch))"
      using keep by (auto simp: add_api_vars_def)
    with Cons.prems show ?thesis by simp
  qed
qed (simp add: add_api_vars_def)

lemma add_api_vars_ok:
  "gomap_ok env \<Longrightarrow> gomap_ok (fst (add_api_vars up fe mb vars (env, ch)))"
proof (induction vars arbitrary: env ch)
  case (Cons v vars)
  show ?case
  proof (cases "ghas env v \<or> gget fe v = None")
    case True
    then have "add_api_vars up fe mb (v # vars) (env, ch) = add_api_vars up fe mb vars (env, ch)"
      by (auto simp: add_api_vars_def)
    with Cons show ?thesis by simp
  next
    case False
    then obtain x where "add_api_vars up fe mb (v # vars) (env, ch)
        = add_api_vars up fe mb vars (gput v (rebaseURL up x mb) env, True)"
      by (auto simp: add_api_vars_def)
    with Cons show ?thesis by auto
  qed
qed (simp add: add_api_vars_def)

lemma injectClientAPIEnv_fold:
  "injectClientAPIEnv up fe name m procs =
     (let proc = proc_at procs name;
          r = add_api_vars up fe (''http://localhost:'' @ Itoa (m_Port m)) apiEnvVars (p_Env proc, False)
      in if snd r then gput name (proc\<lparr>p_Env := fst r\<rparr>) procs else procs)"
  by (simp add: injectClientAPIEnv_def add_api_vars_def Let_def case_prod_beta del: foldl_Cons)

lemma gget_injectClientAPIEnv:
  assumes "gget procs name = Some p"
  shows "\<exists>env. gget (injectClientAPIEnv up fe name m procs) name = Some (p\<lparr>p_Env := env\<rparr>)
      \<and> (gomap_ok (p_Env p) \<longrightarrow> gomap_ok env)
      \<and> (\<forall>k. gget env k = (case gget (p_Env p) k of Some v \<Rightarrow> Some v
           | None \<Rightarrow> if k \<in> set apiEnvVars
               then map_option (\<lambda>v. rebaseURL up v (''http://localhost:'' @ Itoa (m_Port m))) (gget fe k)
               else None))"
    and "n \<noteq> name \<Longrightarrow> gget (injectClientAPIEnv up fe name m procs) n = gget procs n"
proof -
  let ?r = "add_api_vars up fe (''http://localhost:'' @ Itoa (m_Port m)) apiEnvVars (p_Env p, False)"
  have at: "proc_at procs name = p" using assms by (simp add: proc_at_def)
  have "gget (injectClientAPIEnv up fe name m procs) name = Some (p\<lparr>p_Env := fst ?r\<rparr>)"
    using assms add_api_vars_unchanged [of up fe _ apiEnvVars "p_Env p" False]
    by (auto simp: injectClientAPIEnv_fold Let_def at)
  then show "\<exists>env. gget (injectClientAPIEnv up fe name m procs) name = Some (p\<lparr>p_Env := env\<rparr>)
      \<and> (gomap_ok (p_Env p) \<longrightarrow> gomap_ok env)
      \<and> (\<forall>k. gget env k = (case gget (p_Env p) k of Some v \<Rightarrow> Some v
           | None \<Rightarrow> if k \<in> set apiEnvVars
               then map_option (\<lambda>v. rebaseURL up v (''http://localhost:'' @ Itoa (m_Port m))) (gget fe k)
               else None))"
    using add_api_vars_get add_api_vars_ok by blast
  show "n \<noteq> name \<Longrightarrow> gget (injectClientAPIEnv up fe name m procs) n = gget procs n"
    by (simp add: injectClientAPIEnv_fold Let_def)
qed

lemma gomap_ok_injectClientAPIEnv [intro]:
  "gomap_ok procs \<Longrightarrow> gomap_ok (injectClientAPIEnv up fe name m procs)"
  by (auto simp: injectClientAPIEnv_fold Let_def)

end
