(* ===== verification/Config_Load.thy ===== *)
theory Config_Load
  imports Config_Plan Config_Merge
begin

text \<open>
  \<^verbatim>\<open>Load\<close> (\<^verbatim>\<open>internal/config/config.go\<close>): reading env files, normalising directories, wiring the merge
  proxy, validating every process in name order, checking dependencies and normalising resource
  labels. The host is an argument: file contents, the working directory, \<^verbatim>\<open>$PORT\<close>, the YAML decoder,
  \<^verbatim>\<open>regexp.Compile\<close> and \<^verbatim>\<open>url.Parse\<close>. The main lemma shows what every accepted config satisfies.
\<close>

record host =
  h_read :: "string \<Rightarrow> string option"
  h_stat :: "string \<Rightarrow> bool"
  h_cwd :: "string option"
  h_PORT :: string
  h_yaml :: "string \<Rightarrow> string + Config"
  h_tree :: "string \<Rightarrow> fs_node"
  h_submatch :: "nat \<Rightarrow> string \<Rightarrow> string option"
  h_url :: "string \<Rightarrow> (string \<times> string) option"
  h_regexp_ok :: "string \<Rightarrow> bool"

section \<open>Env files\<close>

abbreviation maxEnvFileLine :: int where "maxEnvFileLine \<equiv> 1048576"

text \<open>
  The lines \<^verbatim>\<open>bufio.ScanLines\<close> yields: pieces between newlines, one trailing carriage return dropped
  from each, no empty piece after the last newline.
\<close>

definition dropCR :: "string \<Rightarrow> string" where
  "dropCR s = (if s \<noteq> [] \<and> last s = CHR 0x0D then butlast s else s)"

definition scan_lines :: "string \<Rightarrow> string list" where
  "scan_lines data =
     (let pieces = split_sep (CHR 0x0A) data
      in map dropCR (if last pieces = [] then butlast pieces else pieces))"

definition unquote :: "string \<Rightarrow> string" where
  "unquote val =
     (if length val \<ge> 2 \<and> (hd val = CHR 0x22 \<and> last val = CHR 0x22 \<or> hd val = CHR 0x27 \<and> last val = CHR 0x27)
      then butlast (tl val) else val)"

definition env_line :: "string \<Rightarrow> (string \<times> string) option" where
  "env_line text =
     (let line = TrimSpace text
      in if line = [] \<or> HasPrefix line ''#'' then None
         else case Cut1 (CHR ''='') line of
                (_, _, False) \<Rightarrow> None
              | (key, val, True) \<Rightarrow> Some (TrimSpace key, unquote (TrimSpace val)))"

fun env_lines :: "nat \<Rightarrow> string list \<Rightarrow> string gomap \<Rightarrow> nat + string gomap" where
  "env_lines lineNo [] result = Inr result"
| "env_lines lineNo (text # rest) result =
     (if int (length text) > maxEnvFileLine then Inl (Suc lineNo)
      else env_lines (Suc lineNo) rest
        (case env_line text of None \<Rightarrow> result | Some (key, val) \<Rightarrow> gput key val result))"

definition parseEnvFile :: "host \<Rightarrow> string \<Rightarrow> envFile" where
  "parseEnvFile h path =
     (case h_read h path of
        None \<Rightarrow> Inl (''cannot read env file '' @ path)
      | Some data \<Rightarrow> (case env_lines 0 (scan_lines data) [] of
            Inl n \<Rightarrow> Inl (''cannot read env file '' @ path @ '': line '' @ utoa n
                       @ '' is longer than 1 MiB (1048576 bytes)'')
          | Inr vars \<Rightarrow> Inr vars))"

definition readEnvFiles :: "host \<Rightarrow> Process gomap \<Rightarrow> string \<Rightarrow> envFile gomap" where
  "readEnvFiles h procs configDir =
     List.map_filter (\<lambda>(name, proc).
       if p_EnvFile proc = [] then None
       else let path = (if IsAbs (p_EnvFile proc) then p_EnvFile proc
                        else filepath_Join configDir (p_EnvFile proc))
            in Some (name, parseEnvFile h path)) procs"

section \<open>Directories\<close>

definition HasRuntimeTemplate :: "string \<Rightarrow> bool" where
  "HasRuntimeTemplate dir = (Contains dir ''${session.'' \<or> Contains dir ''${config.'')"

definition normalizeDir :: "string \<Rightarrow> Process \<Rightarrow> Process" where
  "normalizeDir configDir proc =
     (if p_Dir proc = [] \<or> HasRuntimeTemplate (p_Dir proc) then proc
      else if IsAbs (p_Dir proc) then proc\<lparr>p_Dir := Clean (p_Dir proc)\<rparr>
      else proc\<lparr>p_Dir := Clean (filepath_Join configDir (p_Dir proc))\<rparr>)"

definition normalizeProcessDirs :: "Process gomap \<Rightarrow> string \<Rightarrow> Process gomap" where
  "normalizeProcessDirs procs configDir = map (\<lambda>(name, proc). (name, normalizeDir configDir proc)) procs"

definition procDir :: "string \<Rightarrow> string \<Rightarrow> string" where
  "procDir dir configDir =
     (if dir = [] then configDir else if IsAbs dir then dir else filepath_Join configDir dir)"

text \<open>\<^verbatim>\<open>filepath.Abs\<close>, which fails only when the working directory is unknown.\<close>

definition absDir :: "host \<Rightarrow> string \<Rightarrow> string" where
  "absDir h dir =
     (if IsAbs dir then Clean dir
      else case h_cwd h of Some wd \<Rightarrow> filepath_Join wd dir | None \<Rightarrow> dir)"

section \<open>The merge section\<close>

definition clientEnv :: "host \<Rightarrow> string \<Rightarrow> string gomap" where
  "clientEnv h clientDir =
     (let example = filepath_Join clientDir ''.env.example'';
          path = (if h_stat h example then example else filepath_Join clientDir ''.env'')
      in case parseEnvFile h path of Inr vars \<Rightarrow> vars | Inl _ \<Rightarrow> [])"

definition detectPrefixes ::
  "host \<Rightarrow> string \<Rightarrow> Process gomap \<Rightarrow> ServedPort gomap \<Rightarrow> Merge \<Rightarrow> Merge" where
  "detectPrefixes h configDir candidates served m =
     (if m_ApiPrefixes m = [] \<and> m_Routes m = []
      then let server = findServerProc candidates served m
           in if server = [] then m
              else let detected = scanRoutes (h_submatch h)
                         (h_tree h (procDir (p_Dir (proc_at candidates server)) configDir))
                   in if detected \<noteq> [] then m\<lparr>m_ApiPrefixes := detected\<rparr> else m
      else m)"

definition mergeProcess :: "string \<Rightarrow> int \<Rightarrow> string list \<Rightarrow> Process" where
  "mergeProcess cmd port deps =
     zero_Process\<lparr>p_Cmd := cmd, p_Restart := ''on-failure'', p_ReadyWhen := Some (tcp_probe port),
       p_DependsOn := deps\<rparr>"

definition mergeWiring ::
  "host \<Rightarrow> string \<Rightarrow> envFile gomap \<Rightarrow> Merge \<Rightarrow> Process gomap \<Rightarrow> ValidationError + (Merge \<times> Process gomap)" where
  "mergeWiring h configDir envFiles m0 procs =
     (if ghas procs MergePortProcessName
      then Inl (invalid CodeReservedProcessName [PKey ''processes'', PKey MergePortProcessName]
                  [MergePortProcessName])
      else let candidates = serviceUpstreams procs
      in case checkClientProcess procs m0 of
        Some e \<Rightarrow> Inl e
      | None \<Rightarrow>
      let served = servedPorts procs envFiles;
          m1 = detectPrefixes h configDir candidates served m0
      in case buildMergeCmd (h_PORT h) m1 of
        Inl (MergeField e) \<Rightarrow> Inl e
      | Inl (MergeSection msg) \<Rightarrow> Inl (invalid CodeInvalidMerge [PKey ''merge''] [msg])
      | Inr (cmd, m) \<Rightarrow>
      (case resolveUpstreamProcesses candidates served m of
        Inl e \<Rightarrow> Inl e
      | Inr upstreams \<Rightarrow>
        (let procs1 = fold (\<lambda>(name, port). injectTCPReadyIfMissing name port) upstreams procs;
             procs2 = gput MergePortProcessName
                        (mergeProcess cmd (m_Port m) (sort (gokeys upstreams))) procs1;
             clientName = findClientProc candidates served m;
             procs3 = (if clientName = [] then procs2
                       else injectClientAPIEnv (h_url h)
                              (clientEnv h (procDir (p_Dir (proc_at procs2 clientName)) configDir))
                              clientName m procs2)
         in Inr (m, procs3))))"

section \<open>Validation\<close>

fun validate_loop ::
  "(string \<Rightarrow> bool) \<Rightarrow> envFile gomap \<Rightarrow> string list \<Rightarrow> Process gomap \<Rightarrow> ValidationError + Process gomap" where
  "validate_loop rok envFiles [] procs = Inr procs"
| "validate_loop rok envFiles (name # names) procs =
     (case validateProcess rok envFiles name (proc_at procs name) of
        Inl e \<Rightarrow> Inl e
      | Inr proc \<Rightarrow> validate_loop rok envFiles names (gput name proc procs))"

definition checkDependency :: "Process gomap \<Rightarrow> string \<Rightarrow> nat \<Rightarrow> string \<Rightarrow> ValidationError option" where
  "checkDependency procs name i dep =
     (let path = [PKey ''processes'', PKey name, PKey ''depends_on'', PIdx i]
      in if dep = name then Some (invalid CodeSelfDependency path [name])
         else case gget procs dep of
                None \<Rightarrow> Some (invalid CodeUnknownDependency path [name, dep])
              | Some depProc \<Rightarrow> refuse_if (p_Mode depProc = ProcessModeTeardown)
                  (invalid CodeTeardownDependency path [name, dep]))"

definition checkDependencies :: "Process gomap \<Rightarrow> ValidationError option" where
  "checkDependencies procs =
     first_some (concat (map (\<lambda>name.
       map (\<lambda>(i, dep). checkDependency procs name i dep) (enumerate 0 (deps_of procs name)))
       (SortedProcessNames procs)))"

section \<open>Resource labels\<close>

abbreviation maxResourceLabel :: int where "maxResourceLabel \<equiv> 256"

definition label_ok :: "string \<Rightarrow> bool" where
  "label_ok trimmed = (trimmed \<noteq> [] \<and> int (length trimmed) \<le> maxResourceLabel
     \<and> \<not> list_ex (\<lambda>c. c = CHR 0x0D \<or> c = CHR 0x0A \<or> c = CHR 0x00) trimmed)"

fun normalizeResources ::
  "nat \<Rightarrow> string list \<Rightarrow> string list \<Rightarrow> string list \<Rightarrow> ValidationError + string list" where
  "normalizeResources i seen normalized [] = Inr normalized"
| "normalizeResources i seen normalized (resource # rest) =
     (let e = invalid CodeInvalidResource [PKey ''resources'', PIdx i] [resource];
          trimmed = TrimSpace resource
      in if resource \<in> set seen then Inl e
         else if \<not> label_ok trimmed then Inl e
         else normalizeResources (Suc i) (resource # seen)
           (if trimmed \<in> set normalized then normalized else normalized @ [trimmed]) rest)"

section \<open>Load\<close>

datatype load_error = LoadRead string | LoadYAML string | LoadInvalid ValidationError

definition loadDecoded :: "host \<Rightarrow> string \<Rightarrow> Config \<Rightarrow> ValidationError + Config" where
  "loadDecoded h path cfg =
     (if c_Processes cfg = [] \<and> c_Merge cfg = None then Inl (invalid CodeNoProcesses [] [path])
      else let configDir = absDir h (filepath_Dir path);
               procs0 = normalizeProcessDirs (c_Processes cfg) configDir;
               envFiles = readEnvFiles h procs0 configDir
      in case (case c_Merge cfg of
                 None \<Rightarrow> Inr (None, procs0)
               | Some m0 \<Rightarrow> (case mergeWiring h configDir envFiles m0 procs0 of
                     Inl e \<Rightarrow> Inl e | Inr (m, procs) \<Rightarrow> Inr (Some m, procs))) of
        Inl e \<Rightarrow> Inl e
      | Inr (merge, procs1) \<Rightarrow>
      (case validate_loop (h_regexp_ok h) envFiles (SortedProcessNames procs1) procs1 of
        Inl e \<Rightarrow> Inl e
      | Inr procs \<Rightarrow>
      (case first_some [checkReferenceCollisions procs, checkDependencies procs, detectCycles procs] of
        Some e \<Rightarrow> Inl e
      | None \<Rightarrow>
      (case normalizeResources 0 [] [] (c_Resources cfg) of
        Inl e \<Rightarrow> Inl e
      | Inr resources \<Rightarrow>
          Inr \<lparr>c_Merge = merge, c_Processes = procs, c_Resources = resources\<rparr>))))"

definition Load :: "host \<Rightarrow> string \<Rightarrow> load_error + Config" where
  "Load h path =
     (case h_read h path of
        None \<Rightarrow> Inl (LoadRead path)
      | Some data \<Rightarrow> (case h_yaml h data of
            Inl err \<Rightarrow> Inl (LoadYAML err)
          | Inr cfg \<Rightarrow> (case loadDecoded h path cfg of
                Inl e \<Rightarrow> Inl (LoadInvalid e) | Inr out \<Rightarrow> Inr out)))"

section \<open>What an accepted config satisfies\<close>

text \<open>A decoded document: maps have one entry per key.\<close>

definition config_maps_ok :: "Config \<Rightarrow> bool" where
  "config_maps_ok cfg = (gomap_ok (c_Processes cfg)
     \<and> (\<forall>p \<in> set (map snd (c_Processes cfg)). gomap_ok (p_Ports p) \<and> gomap_ok (p_Env p)))"

text \<open>An empty directory stays empty: the process runs where the program does.\<close>

definition dir_ok :: "string \<Rightarrow> bool" where
  "dir_ok dir = (dir = [] \<or> HasRuntimeTemplate dir \<or> (IsAbs dir \<and> Clean dir = dir))"

definition deps_ok :: "Process gomap \<Rightarrow> bool" where
  "deps_ok procs = (\<forall>name \<in> set (gokeys procs). \<forall>dep \<in> set (deps_of procs name).
     dep \<noteq> name \<and> (\<exists>q. gget procs dep = Some q \<and> p_Mode q \<noteq> ProcessModeTeardown))"

definition resources_ok :: "string list \<Rightarrow> bool" where
  "resources_ok rs = (distinct rs \<and> (\<forall>r \<in> set rs. label_ok r \<and> TrimSpace r = r))"

definition refs_unique :: "Process gomap \<Rightarrow> bool" where
  "refs_unique procs = (\<forall>ns. inj_on (\<lambda>(n, pn). ref_name ns n pn) (set (endpoints procs)))"

definition loaded_ok :: "(string \<Rightarrow> bool) \<Rightarrow> Config \<Rightarrow> bool" where
  "loaded_ok rok cfg =
     (gomap_ok (c_Processes cfg)
      \<and> (\<forall>name p. gget (c_Processes cfg) name = Some p \<longrightarrow>
           process_ok rok name p \<and> gomap_ok (p_Ports p) \<and> dir_ok (p_Dir p))
      \<and> deps_ok (c_Processes cfg) \<and> acyclic (depends (c_Processes cfg))
      \<and> refs_unique (c_Processes cfg) \<and> resources_ok (c_Resources cfg))"

subsection \<open>Resources\<close>

lemma resources_ok_Nil [simp]: "resources_ok []"
  by (simp add: resources_ok_def)

lemma normalizeResources_ok:
  "normalizeResources i seen normalized rs = Inr out \<Longrightarrow> resources_ok normalized \<Longrightarrow>
     resources_ok out \<and> set out = set normalized \<union> TrimSpace ` set rs
     \<and> distinct rs \<and> set rs \<inter> set seen = {}"
proof (induction i seen normalized rs rule: normalizeResources.induct)
  case (2 i seen normalized resource rest)
  let ?n = "if TrimSpace resource \<in> set normalized then normalized else normalized @ [TrimSpace resource]"
  from "2.prems"(1) have ok: "resource \<notin> set seen" "label_ok (TrimSpace resource)"
    and rec: "normalizeResources (Suc i) (resource # seen) ?n rest = Inr out"
    by (auto simp: Let_def split: if_splits)
  have "resources_ok ?n" using "2.prems"(2) ok(2) by (auto simp: resources_ok_def)
  from "2.IH" [OF refl refl ok(1) _ rec this] ok show ?case by auto
qed auto

subsection \<open>Directories\<close>

lemma dir_ok_normalizeDir: "IsAbs configDir \<Longrightarrow> dir_ok (p_Dir (normalizeDir configDir p))"
  by (auto simp: normalizeDir_def dir_ok_def IsAbs_filepath_Join)

lemma IsAbs_absDir: "h_cwd h = Some wd \<Longrightarrow> IsAbs wd \<Longrightarrow> IsAbs (absDir h dir)"
  by (auto simp: absDir_def IsAbs_filepath_Join)

lemma normalizeDir_same [simp]:
  "p_Ports (normalizeDir d p) = p_Ports p" "p_Env (normalizeDir d p) = p_Env p"
  "p_Mode (normalizeDir d p) = p_Mode p" "p_ReadyWhen (normalizeDir d p) = p_ReadyWhen p"
  "p_DependsOn (normalizeDir d p) = p_DependsOn p" "p_EnvFile (normalizeDir d p) = p_EnvFile p"
  by (auto simp: normalizeDir_def)

lemma gokeys_normalizeProcessDirs [simp]: "gokeys (normalizeProcessDirs procs d) = gokeys procs"
  by (simp add: normalizeProcessDirs_def case_prod_beta comp_def)

lemma gomap_ok_normalizeProcessDirs [simp]: "gomap_ok (normalizeProcessDirs procs d) = gomap_ok procs"
  by (simp add: gomap_ok_def)

lemma gget_normalizeProcessDirs:
  "gget (normalizeProcessDirs procs d) n = map_option (normalizeDir d) (gget procs n)"
  by (simp add: normalizeProcessDirs_def map_of_map)

subsection \<open>The merge wiring\<close>

lemma mergeProcess_same [simp]:
  "p_Ports (mergeProcess cmd port deps) = []" "p_Dir (mergeProcess cmd port deps) = []"
  "p_Mode (mergeProcess cmd port deps) = []" "p_DependsOn (mergeProcess cmd port deps) = deps"
  "p_ReadyWhen (mergeProcess cmd port deps) = Some (tcp_probe port)"
  "p_Env (mergeProcess cmd port deps) = []"
  "p_Cmd (mergeProcess cmd port deps) = cmd" "p_Restart (mergeProcess cmd port deps) = ''on-failure''"
  by (simp_all add: mergeProcess_def zero_Process_def)

text \<open>What the wiring may do to a process of the document.\<close>

definition wired :: "Process \<Rightarrow> Process \<Rightarrow> bool" where
  "wired p p' = (\<exists>rw env. p' = p\<lparr>p_ReadyWhen := rw, p_Env := env\<rparr>
     \<and> (p_ReadyWhen p \<noteq> None \<longrightarrow> rw = p_ReadyWhen p)
     \<and> (gomap_ok (p_Env p) \<longrightarrow> gomap_ok env)
     \<and> (\<forall>k. k \<notin> set apiEnvVars \<or> k \<in> set (gokeys (p_Env p)) \<longrightarrow> gget env k = gget (p_Env p) k))"

lemma wired_refl [simp]: "wired p p"
  unfolding wired_def by (rule exI [of _ "p_ReadyWhen p"], rule exI [of _ "p_Env p"]) simp

lemma wired_same:
  assumes "wired p p'"
  shows "p_Ports p' = p_Ports p" "p_Dir p' = p_Dir p" "p_Mode p' = p_Mode p"
    "p_DependsOn p' = p_DependsOn p" "p_EnvFile p' = p_EnvFile p"
    "p_ReadyWhen p \<noteq> None \<Longrightarrow> p_ReadyWhen p' = p_ReadyWhen p"
    "k \<notin> set apiEnvVars \<or> k \<in> set (gokeys (p_Env p)) \<Longrightarrow> gget (p_Env p') k = gget (p_Env p) k"
    "gomap_ok (p_Env p) \<Longrightarrow> gomap_ok (p_Env p')"
  using assms by (auto simp: wired_def)

text \<open>An environment that keeps what the process declares, with API variables added.\<close>

definition api_extends :: "string gomap \<Rightarrow> string gomap \<Rightarrow> bool" where
  "api_extends env env' = ((gomap_ok env \<longrightarrow> gomap_ok env') \<and>
     (\<forall>k. k \<notin> set apiEnvVars \<or> k \<in> set (gokeys env) \<longrightarrow> gget env' k = gget env k))"

lemma api_extends_PORT: "api_extends env env' \<Longrightarrow> gget env' ''PORT'' = gget env ''PORT''"
proof -
  have "''PORT'' \<notin> set apiEnvVars" by (simp add: apiEnvVars_def)
  then show "api_extends env env' \<Longrightarrow> ?thesis" unfolding api_extends_def by blast
qed

lemma inject_fold_get:
  assumes "gomap_ok ups"
  shows "gget (fold (\<lambda>(name, port). injectTCPReadyIfMissing name port) ups procs) n =
     (case gget ups n of
        Some port \<Rightarrow> gget (injectTCPReadyIfMissing n port procs) n | None \<Rightarrow> gget procs n)"
  using assms
proof (induction ups arbitrary: procs)
  case (Cons u ups)
  obtain name port where u: "u = (name, port)" by (cases u)
  have notin: "gget ups name = None" and ok: "gomap_ok ups"
    using Cons.prems u by (auto simp: gomap_ok_def map_of_eq_None_iff)
  show ?case using Cons.IH [OF ok, of "injectTCPReadyIfMissing name port procs"] notin
    by (auto simp: u gget_injectTCP split: option.splits)
qed simp

lemma inject_fold_keys:
  "set (gokeys (fold (\<lambda>(name, port). injectTCPReadyIfMissing name port) ups procs)) = set (gokeys procs)"
  by (induction ups arbitrary: procs) (auto simp del: set_map simp: case_prod_beta)

lemma inject_fold_ok:
  "gomap_ok procs \<Longrightarrow> gomap_ok (fold (\<lambda>(name, port). injectTCPReadyIfMissing name port) ups procs)"
  by (induction ups arbitrary: procs) (auto simp: case_prod_beta)

lemma wired_ready: "p_ReadyWhen p = None \<Longrightarrow> wired p (p\<lparr>p_ReadyWhen := rw\<rparr>)"
  unfolding wired_def by (rule exI [of _ rw], rule exI [of _ "p_Env p"]) simp

lemma wired_env:
  assumes "wired p p1" and "p_Env p1 = p_Env p" and "api_extends (p_Env p) env"
  shows "wired p (p1\<lparr>p_Env := env\<rparr>)"
proof -
  obtain rw e where "p1 = p\<lparr>p_ReadyWhen := rw, p_Env := e\<rparr>"
    "p_ReadyWhen p \<noteq> None \<longrightarrow> rw = p_ReadyWhen p" using assms(1) unfolding wired_def by blast
  with assms(3) show ?thesis
    unfolding wired_def api_extends_def by (intro exI [of _ rw] exI [of _ env]) simp
qed

lemma wired_injectTCP:
  assumes "gget (injectTCPReadyIfMissing name port procs) n = Some p1"
  shows "\<exists>p. gget procs n = Some p \<and> wired p p1 \<and> p_Env p1 = p_Env p"
proof (cases "gget procs n")
  case (Some p)
  then show ?thesis
    using assms wired_ready [of p]
    by (auto simp: gget_injectTCP split: if_splits)
qed (use assms in \<open>auto simp: gget_injectTCP split: if_splits\<close>)

lemma inject_fold_wired:
  assumes "gomap_ok ups"
    and "gget (fold (\<lambda>(name, port). injectTCPReadyIfMissing name port) ups procs) n = Some p1"
  shows "\<exists>p. gget procs n = Some p \<and> wired p p1 \<and> p_Env p1 = p_Env p"
  using assms(2) wired_injectTCP unfolding inject_fold_get [OF assms(1)]
  by (fastforce split: option.splits)

lemma inject_fold_ready:
  assumes "upstreams_ok cand served ups" and "set (gokeys cand) \<subseteq> set (gokeys procs)"
    and "n \<in> set (gokeys ups)"
  shows "\<exists>p1. gget (fold (\<lambda>(name, port). injectTCPReadyIfMissing name port) ups procs) n = Some p1
    \<and> p_ReadyWhen p1 \<noteq> None"
proof -
  obtain port where port: "gget ups n = Some port" using assms(3) by (metis ghas_def ghas_iff not_None_eq)
  with assms(1) have n: "n \<in> set (gokeys cand)" "n \<noteq> []" "0 < port" and ok: "gomap_ok ups"
    by (auto simp: upstreams_ok_def simp del: set_map)
  then obtain p where "gget procs n = Some p" using assms(2) by (metis ghas_def ghas_iff not_None_eq subsetD)
  with n port show ?thesis by (auto simp: inject_fold_get [OF ok] gget_injectTCP)
qed

lemma client_env_get:
  assumes "client \<noteq> [] \<Longrightarrow> client \<in> set (gokeys procs)" and "gget procs n = Some p"
  shows "\<exists>env. gget (if client = [] then procs else injectClientAPIEnv up fe client m procs) n
    = Some (p\<lparr>p_Env := env\<rparr>) \<and> api_extends (p_Env p) env"
proof (cases "client \<noteq> [] \<and> n = client")
  case True
  with gget_injectClientAPIEnv(1) [of procs client p up fe m] assms(2) obtain env where
    env: "gget (injectClientAPIEnv up fe client m procs) client = Some (p\<lparr>p_Env := env\<rparr>)"
    "gomap_ok (p_Env p) \<longrightarrow> gomap_ok env"
    "\<forall>k. gget env k = (case gget (p_Env p) k of Some v \<Rightarrow> Some v
           | None \<Rightarrow> if k \<in> set apiEnvVars
               then map_option (\<lambda>v. rebaseURL up v (''http://localhost:'' @ Itoa (m_Port m))) (gget fe k)
               else None)" by blast
  have "api_extends (p_Env p) env"
    unfolding api_extends_def
  proof (intro conjI allI impI)
    show "gomap_ok (p_Env p) \<Longrightarrow> gomap_ok env" using env(2) by blast
  next
    fix k assume "k \<notin> set apiEnvVars \<or> k \<in> set (gokeys (p_Env p))"
    then show "gget env k = gget (p_Env p) k"
      using env(3) gget_in_keys [of "p_Env p" k] map_of_eq_None_iff [of "p_Env p" k]
      by (cases "gget (p_Env p) k") simp_all
  qed
  with env True show ?thesis by auto
next
  case False
  have "client \<noteq> [] \<Longrightarrow> \<exists>q. gget procs client = Some q"
    using assms(1) by (metis ghas_def ghas_iff not_None_eq)
  with False assms(2) have "gget (if client = [] then procs else injectClientAPIEnv up fe client m procs) n = Some p"
    using gget_injectClientAPIEnv(2) [of procs client _ n up fe m] by auto
  then show ?thesis by (intro exI [of _ "p_Env p"]) (simp add: api_extends_def)
qed

lemma client_env_keys:
  assumes "client \<noteq> [] \<Longrightarrow> client \<in> set (gokeys procs)"
    and "gget (if client = [] then procs else injectClientAPIEnv up fe client m procs) n = Some p'"
  shows "\<exists>p env. gget procs n = Some p \<and> p' = p\<lparr>p_Env := env\<rparr> \<and> api_extends (p_Env p) env"
proof (cases "gget procs n")
  case None
  then have "n \<noteq> client \<or> client = []" using assms(1) by (metis ghas_def ghas_iff)
  with None assms show ?thesis by (auto simp: injectClientAPIEnv_fold Let_def split: if_splits)
next
  case (Some p)
  with client_env_get [OF assms(1) Some, of up fe m] assms(2) show ?thesis by auto
qed

lemma mergeWiring_unfold:
  assumes "mergeWiring h d envFiles m0 procs = Inr (m, procs')"
  obtains cmd ups procs2 fe where
    "MergePortProcessName \<notin> set (gokeys procs)"
    "buildMergeCmd (h_PORT h) (detectPrefixes h d (serviceUpstreams procs) (servedPorts procs envFiles) m0)
       = Inr (cmd, m)"
    "resolveUpstreamProcesses (serviceUpstreams procs) (servedPorts procs envFiles) m = Inr ups"
    "procs2 = gput MergePortProcessName (mergeProcess cmd (m_Port m) (sort (gokeys ups)))
       (fold (\<lambda>(name, port). injectTCPReadyIfMissing name port) ups procs)"
    "procs' = (let client = findClientProc (serviceUpstreams procs) (servedPorts procs envFiles) m
       in if client = [] then procs2 else injectClientAPIEnv (h_url h) fe client m procs2)"
  using assms
  by (auto simp: mergeWiring_def Let_def simp del: set_map
      split: if_splits option.splits sum.splits merge_error.splits prod.splits)

lemma mergeWiring_parts:
  assumes wiring: "mergeWiring h d envFiles m0 procs = Inr (m, procs')" and ok: "gomap_ok procs"
  obtains cmd ups where
    "merge_ports_ok m" "HasPrefix cmd ''merge-port''"
    "resolveUpstreamProcesses (serviceUpstreams procs) (servedPorts procs envFiles) m = Inr ups"
    "gomap_ok procs'"
    "\<exists>env. gget procs' MergePortProcessName
       = Some ((mergeProcess cmd (m_Port m) (sort (gokeys ups)))\<lparr>p_Env := env\<rparr>) \<and> gget env ''PORT'' = None"
    "\<And>n p. gget procs n = Some p \<Longrightarrow> n \<noteq> MergePortProcessName \<and> (\<exists>p'. gget procs' n = Some p')"
    "\<And>n p'. n \<noteq> MergePortProcessName \<Longrightarrow> gget procs' n = Some p' \<Longrightarrow>
       \<exists>p. gget procs n = Some p \<and> wired p p'"
    "\<And>n. n \<in> set (gokeys ups) \<Longrightarrow> n \<noteq> MergePortProcessName
       \<and> (\<exists>p'. gget procs' n = Some p' \<and> p_ReadyWhen p' \<noteq> None)"
proof -
  let ?cand = "serviceUpstreams procs" and ?served = "servedPorts procs envFiles"
  obtain cmd ups procs2 fe where
    mp: "MergePortProcessName \<notin> set (gokeys procs)" and
    cmd: "buildMergeCmd (h_PORT h) (detectPrefixes h d ?cand ?served m0) = Inr (cmd, m)" and
    ups: "resolveUpstreamProcesses ?cand ?served m = Inr ups" and
    p2: "procs2 = gput MergePortProcessName (mergeProcess cmd (m_Port m) (sort (gokeys ups)))
       (fold (\<lambda>(name, port). injectTCPReadyIfMissing name port) ups procs)" and
    p3: "procs' = (let client = findClientProc ?cand ?served m
       in if client = [] then procs2 else injectClientAPIEnv (h_url h) fe client m procs2)"
    by (rule mergeWiring_unfold [OF wiring])
  have uok: "upstreams_ok ?cand ?served ups" by (rule resolveUpstreamProcesses_ok [OF ups])
  have sub: "set (gokeys ?cand) \<subseteq> set (gokeys procs)" by (auto simp: serviceUpstreams_def)
  have keys2: "set (gokeys procs2) = insert MergePortProcessName (set (gokeys procs))"
    by (simp add: p2 gokeys_gput inject_fold_keys del: set_map)
  have ck: "findClientProc ?cand ?served m \<noteq> [] \<Longrightarrow> findClientProc ?cand ?served m \<in> set (gokeys procs2)"
    using findClientProc_found sub keys2 by blast
  have fwd: "\<exists>env. gget procs' n = Some (p\<lparr>p_Env := env\<rparr>) \<and> api_extends (p_Env p) env" if "gget procs2 n = Some p" for n p
    using client_env_get [OF ck that] by (simp add: p3 Let_def)
  show ?thesis
  proof (rule that [OF buildMergeCmd_ports(1) [OF cmd] buildMergeCmd_ports(3) [OF cmd] ups])
    show "gomap_ok procs'" using ok by (auto simp: p3 p2 Let_def inject_fold_ok)
    have "gget procs2 MergePortProcessName = Some (mergeProcess cmd (m_Port m) (sort (gokeys ups)))"
      by (simp add: p2)
    from fwd [OF this] show "\<exists>env. gget procs' MergePortProcessName
       = Some ((mergeProcess cmd (m_Port m) (sort (gokeys ups)))\<lparr>p_Env := env\<rparr>) \<and> gget env ''PORT'' = None"
      using api_extends_PORT by fastforce
  next
    fix n p assume n: "gget procs n = Some p"
    then have nm: "n \<noteq> MergePortProcessName" "n \<in> set (gokeys procs)" using mp gget_in_keys by fast+
    then obtain p2' where "gget procs2 n = Some p2'"
      using keys2 by (metis ghas_def ghas_iff insertCI not_None_eq)
    with fwd nm show "n \<noteq> MergePortProcessName \<and> (\<exists>p'. gget procs' n = Some p')" by blast
  next
    fix n p' assume n: "n \<noteq> MergePortProcessName" and "gget procs' n = Some p'"
    then obtain p2' env where "gget procs2 n = Some p2'" "p' = p2'\<lparr>p_Env := env\<rparr>" "api_extends (p_Env p2') env"
      unfolding p3 Let_def using client_env_keys [OF ck] by blast
    with n uok show "\<exists>p. gget procs n = Some p \<and> wired p p'"
      using inject_fold_wired [of ups procs n p2'] wired_env [of _ p2' env]
      by (fastforce simp: p2 upstreams_ok_def)
  next
    fix n assume n: "n \<in> set (gokeys ups)"
    then obtain port where "gget ups n = Some port" by (metis ghas_def ghas_iff not_None_eq)
    with uok sub mp have nm: "n \<noteq> MergePortProcessName"
      unfolding upstreams_ok_def by blast
    obtain p1 where "gget procs2 n = Some p1" "p_ReadyWhen p1 \<noteq> None"
      using inject_fold_ready [OF uok sub n] nm by (auto simp: p2)
    with fwd [of n p1] nm show "n \<noteq> MergePortProcessName
       \<and> (\<exists>p'. gget procs' n = Some p' \<and> p_ReadyWhen p' \<noteq> None)" by fastforce
  qed
qed

subsection \<open>The validation loop\<close>

lemma validate_loop_get:
  assumes "validate_loop rok envs names procs = Inr out" and "distinct names"
  shows "(n \<in> set names \<longrightarrow> (\<exists>p. validateProcess rok envs n (proc_at procs n) = Inr p \<and> gget out n = Some p))
    \<and> (n \<notin> set names \<longrightarrow> gget out n = gget procs n)"
  using assms
proof (induction rok envs names procs rule: validate_loop.induct)
  case (2 rok envs name names procs)
  from "2.prems"(1) obtain p where p: "validateProcess rok envs name (proc_at procs name) = Inr p"
    and rec: "validate_loop rok envs names (gput name p procs) = Inr out"
    by (auto split: sum.splits)
  have "n \<noteq> name \<Longrightarrow> proc_at (gput name p procs) n = proc_at procs n" by (simp add: proc_at_def)
  with "2.IH" [OF p rec] "2.prems"(2) p show ?case by (cases "n = name") auto
qed auto

lemma validate_loop_ok: "validate_loop rok envs names procs = Inr out \<Longrightarrow> gomap_ok procs \<Longrightarrow> gomap_ok out"
  by (induction rok envs names procs rule: validate_loop.induct) (auto split: sum.splits)

lemma validateProcess_shape:
  assumes "validateProcess rok envs name p = Inr p'"
  shows "\<exists>env. p' = (defaultRestart p)\<lparr>p_Env := env\<rparr>"
proof -
  have "p' = defaultRestart p \<or> (\<exists>vars. p' = mergeEnvFile vars (defaultRestart p))"
    using assms by (auto simp: validateProcess_def Let_def split: option.splits sum.splits if_splits)
  moreover have "\<exists>env. q = q\<lparr>p_Env := env\<rparr>" for q :: Process by (rule exI [of _ "p_Env q"]) simp
  ultimately show ?thesis by (auto simp: mergeEnvFile_def)
qed

lemma defaultRestart_same [simp]:
  "p_Ports (defaultRestart p) = p_Ports p" "p_Dir (defaultRestart p) = p_Dir p"
  "p_Mode (defaultRestart p) = p_Mode p" "p_ReadyWhen (defaultRestart p) = p_ReadyWhen p"
  "p_DependsOn (defaultRestart p) = p_DependsOn p" "p_Env (defaultRestart p) = p_Env p"
  by (auto simp: defaultRestart_def)

lemma validate_all_get:
  assumes "validate_loop rok envs (SortedProcessNames procs) procs = Inr out" and "gomap_ok procs"
  shows "\<And>n p'. gget out n = Some p' \<Longrightarrow>
      \<exists>p. gget procs n = Some p \<and> validateProcess rok envs n p = Inr p'"
    and "\<And>n p. gget procs n = Some p \<Longrightarrow>
      \<exists>p'. gget out n = Some p' \<and> validateProcess rok envs n p = Inr p'"
proof -
  have d: "distinct (SortedProcessNames procs)"
    using assms(2) by (simp add: SortedProcessNames_def gomap_ok_def)
  note get = validate_loop_get [OF assms(1) d]
  show fwd: "\<exists>p'. gget out n = Some p' \<and> validateProcess rok envs n p = Inr p'"
    if "gget procs n = Some p" for n p
    using get [of n] that gget_in_keys [OF that] by (auto simp: proc_at_def simp del: set_map)
  show "\<exists>p. gget procs n = Some p \<and> validateProcess rok envs n p = Inr p'"
    if "gget out n = Some p'" for n p'
  proof (cases "gget procs n")
    case None
    then have "n \<notin> set (SortedProcessNames procs)" by (simp add: map_of_eq_None_iff)
    with get [of n] None that show ?thesis by simp
  qed (use fwd that in fastforce)
qed

subsection \<open>Dependencies\<close>

lemma checkDependency_None:
  "checkDependency procs name i dep = None \<longleftrightarrow>
     dep \<noteq> name \<and> (\<exists>q. gget procs dep = Some q \<and> p_Mode q \<noteq> ProcessModeTeardown)"
  by (auto simp: checkDependency_def Let_def split: option.splits)

lemma checkDependencies_None: "checkDependencies procs = None \<longleftrightarrow> deps_ok procs"
proof -
  have "(\<forall>x \<in> set (map (\<lambda>(i, dep). checkDependency procs name i dep) (enumerate n deps)). x = None)
     \<longleftrightarrow> (\<forall>dep \<in> set deps. dep \<noteq> name \<and> (\<exists>q. gget procs dep = Some q \<and> p_Mode q \<noteq> ProcessModeTeardown))"
    for name n deps
    by (induction deps arbitrary: n) (simp_all add: checkDependency_None)
  then show ?thesis
    unfolding checkDependencies_def deps_ok_def first_some_None set_concat ball_UN
    by (simp only: list.set_map ball_simps SortedProcessNames_set set_map)
qed

lemma refs_unique_ports:
  assumes "\<And>n p. gget procs n = Some p \<Longrightarrow> ports_ok (p_Ports p)"
  shows "refs_unique procs"
  unfolding refs_unique_def inj_on_def
  using endpoints_port_name [OF assms] ref_name_inject by auto

subsection \<open>The whole of Load\<close>

lemma gomap_entry: "gget m k = Some v \<Longrightarrow> v \<in> set (map snd m)"
  by (induction m) (auto split: if_splits)

text \<open>The processes that enter validation.\<close>

definition wire :: "host \<Rightarrow> string \<Rightarrow> Config \<Rightarrow> ValidationError + (Merge option \<times> Process gomap)" where
  "wire h configDir cfg =
     (let procs0 = normalizeProcessDirs (c_Processes cfg) configDir;
          envFiles = readEnvFiles h procs0 configDir
      in case c_Merge cfg of
           None \<Rightarrow> Inr (None, procs0)
         | Some m0 \<Rightarrow> (case mergeWiring h configDir envFiles m0 procs0 of
               Inl e \<Rightarrow> Inl e | Inr (m, procs) \<Rightarrow> Inr (Some m, procs)))"

lemma loadDecoded_parts:
  assumes "loadDecoded h path cfg = Inr out"
  obtains procs1 where
    "wire h (absDir h (filepath_Dir path)) cfg = Inr (c_Merge out, procs1)"
    "validate_loop (h_regexp_ok h)
       (readEnvFiles h (normalizeProcessDirs (c_Processes cfg) (absDir h (filepath_Dir path)))
          (absDir h (filepath_Dir path))) (SortedProcessNames procs1) procs1 = Inr (c_Processes out)"
    "checkDependencies (c_Processes out) = None" "detectCycles (c_Processes out) = None"
    "normalizeResources 0 [] [] (c_Resources cfg) = Inr (c_Resources out)"
  using assms
  by (auto simp: loadDecoded_def wire_def Let_def first_some_simps
      split: if_splits sum.splits option.splits prod.splits)

lemma wire_ok:
  assumes "wire h d cfg = Inr (merge, procs1)" and "config_maps_ok cfg" and "IsAbs d"
  shows "gomap_ok procs1 \<and> (\<forall>n p. gget procs1 n = Some p \<longrightarrow> gomap_ok (p_Ports p) \<and> dir_ok (p_Dir p))"
proof -
  let ?p0 = "normalizeProcessDirs (c_Processes cfg) d"
  have ok0: "gomap_ok ?p0" using assms(2) by (simp add: config_maps_ok_def)
  have e0: "gomap_ok (p_Ports q) \<and> dir_ok (p_Dir q)" if "gget ?p0 k = Some q" for k q
    using that assms(2,3) gomap_entry [of "c_Processes cfg" k]
    by (auto simp: gget_normalizeProcessDirs config_maps_ok_def dir_ok_normalizeDir)
  show ?thesis
  proof (cases "c_Merge cfg")
    case None
    with assms(1) ok0 e0 show ?thesis by (auto simp: wire_def)
  next
    case (Some m0)
    with assms(1) obtain m where
      w: "mergeWiring h d (readEnvFiles h ?p0 d) m0 ?p0 = Inr (m, procs1)"
      by (auto simp: wire_def Let_def split: sum.splits)
    show ?thesis
    proof (rule mergeWiring_parts [OF w ok0])
      fix cmd ups
      assume ok: "gomap_ok procs1" and mp: "\<exists>env. gget procs1 MergePortProcessName
            = Some ((mergeProcess cmd (m_Port m) (sort (gokeys ups)))\<lparr>p_Env := env\<rparr>) \<and> gget env ''PORT'' = None"
        and old: "\<And>n p'. n \<noteq> MergePortProcessName \<Longrightarrow> gget procs1 n = Some p' \<Longrightarrow>
            \<exists>p. gget ?p0 n = Some p \<and> wired p p'"
      have "gomap_ok (p_Ports p) \<and> dir_ok (p_Dir p)" if "gget procs1 n = Some p" for n p
      proof (cases "n = MergePortProcessName")
        case True
        with mp that show ?thesis by (auto simp: gomap_ok_def dir_ok_def)
      next
        case False
        with old that obtain q where "gget ?p0 n = Some q" "wired q p" by blast
        with e0 [of n q] show ?thesis by (simp add: wired_same)
      qed
      with ok show ?thesis by blast
    qed
  qed
qed

lemma process_ok_ports: "process_ok rok n p \<Longrightarrow> ports_ok (p_Ports p)"
  by (simp add: process_ok_def)

lemma loadDecoded_ok:
  assumes "loadDecoded h path cfg = Inr out" and "config_maps_ok cfg"
    and "h_cwd h = Some wd" and "IsAbs wd"
  shows "loaded_ok (h_regexp_ok h) out"
proof (rule loadDecoded_parts [OF assms(1)])
  let ?d = "absDir h (filepath_Dir path)"
  fix procs1
  assume w: "wire h ?d cfg = Inr (c_Merge out, procs1)"
    and v: "validate_loop (h_regexp_ok h) (readEnvFiles h (normalizeProcessDirs (c_Processes cfg) ?d) ?d)
       (SortedProcessNames procs1) procs1 = Inr (c_Processes out)"
    and deps: "checkDependencies (c_Processes out) = None" and cyc: "detectCycles (c_Processes out) = None"
    and res: "normalizeResources 0 [] [] (c_Resources cfg) = Inr (c_Resources out)"
  from wire_ok [OF w assms(2) IsAbs_absDir [OF assms(3,4)]] have wok: "gomap_ok procs1"
    "\<And>n p. gget procs1 n = Some p \<Longrightarrow> gomap_ok (p_Ports p) \<and> dir_ok (p_Dir p)" by blast+
  have entry: "process_ok (h_regexp_ok h) n p \<and> gomap_ok (p_Ports p) \<and> dir_ok (p_Dir p)"
    if np: "gget (c_Processes out) n = Some p" for n p
  proof -
    obtain q where q: "gget procs1 n = Some q"
      and val: "validateProcess (h_regexp_ok h) (readEnvFiles h (normalizeProcessDirs (c_Processes cfg) ?d) ?d) n q = Inr p"
      using validate_all_get(1) [OF v wok(1) np] by blast
    obtain env where "p = (defaultRestart q)\<lparr>p_Env := env\<rparr>" using validateProcess_shape [OF val] ..
    with wok(2) [OF q] validateProcess_ok [OF val] show ?thesis by simp
  qed
  moreover have "refs_unique (c_Processes out)"
    by (rule refs_unique_ports) (rule process_ok_ports [OF conjunct1 [OF entry]])
  moreover have "resources_ok (c_Resources out)"
    using normalizeResources_ok [OF res resources_ok_Nil] by blast
  ultimately show ?thesis
    using deps cyc validate_loop_ok [OF v wok(1)]
    by (simp add: loaded_ok_def checkDependencies_None detectCycles_None_acyclic)
qed

text \<open>
  Where a process runs, given what the document says and the directory of the config: as written when it is
  empty or a runtime template, otherwise the clean form of the path, taken from the config directory when relative.
\<close>

definition dir_from :: "string \<Rightarrow> string \<Rightarrow> string \<Rightarrow> bool" where
  "dir_from configDir written dir =
     (if written = [] \<or> HasRuntimeTemplate written then dir = written
      else IsAbs dir \<and> Clean dir = dir
        \<and> dir = Clean (if IsAbs written then written else filepath_Join configDir written))"

definition dirs_from :: "string \<Rightarrow> Process gomap \<Rightarrow> Process gomap \<Rightarrow> bool" where
  "dirs_from configDir doc procs =
     (\<forall>name p. gget doc name = Some p \<longrightarrow> (\<exists>q. gget procs name = Some q \<and> dir_from configDir (p_Dir p) (p_Dir q)))"

lemma dir_from_normalizeDir: "IsAbs d \<Longrightarrow> dir_from d (p_Dir p) (p_Dir (normalizeDir d p))"
  by (auto simp: normalizeDir_def dir_from_def IsAbs_filepath_Join)

lemma wire_keeps:
  assumes "wire h d cfg = Inr (merge, procs1)" and "gomap_ok (c_Processes cfg)" and "gget (c_Processes cfg) n = Some p"
  shows "\<exists>q. gget procs1 n = Some q \<and> p_Dir q = p_Dir (normalizeDir d p)"
proof -
  let ?p0 = "normalizeProcessDirs (c_Processes cfg) d"
  have ok0: "gomap_ok ?p0" using assms(2) by simp
  have p0: "gget ?p0 n = Some (normalizeDir d p)" using assms(3) by (simp add: gget_normalizeProcessDirs)
  show ?thesis
  proof (cases "c_Merge cfg")
    case None
    with assms(1) p0 show ?thesis by (auto simp: wire_def)
  next
    case (Some m0)
    with assms(1) obtain m where
      w: "mergeWiring h d (readEnvFiles h ?p0 d) m0 ?p0 = Inr (m, procs1)"
      by (auto simp: wire_def Let_def split: sum.splits)
    show ?thesis
    proof (rule mergeWiring_parts [OF w ok0])
      assume fwd: "\<And>n p. gget ?p0 n = Some p \<Longrightarrow> n \<noteq> MergePortProcessName \<and> (\<exists>p'. gget procs1 n = Some p')"
        and old: "\<And>n p'. n \<noteq> MergePortProcessName \<Longrightarrow> gget procs1 n = Some p' \<Longrightarrow> \<exists>p. gget ?p0 n = Some p \<and> wired p p'"
      obtain q where q: "n \<noteq> MergePortProcessName" "gget procs1 n = Some q" using fwd [OF p0] by blast
      then have "wired (normalizeDir d p) q" using old [of n q] p0 by auto
      then show ?thesis using q(2) wired_same(2) by blast
    qed
  qed
qed

lemma loadDecoded_dirs:
  assumes "loadDecoded h path cfg = Inr out" and "config_maps_ok cfg" and "h_cwd h = Some wd" and "IsAbs wd"
  shows "dirs_from (absDir h (filepath_Dir path)) (c_Processes cfg) (c_Processes out)"
  unfolding dirs_from_def
proof (intro allI impI)
  fix n p
  assume p: "gget (c_Processes cfg) n = Some p"
  let ?d = "absDir h (filepath_Dir path)"
  obtain procs1 where w: "wire h ?d cfg = Inr (c_Merge out, procs1)"
    and v: "validate_loop (h_regexp_ok h) (readEnvFiles h (normalizeProcessDirs (c_Processes cfg) ?d) ?d)
       (SortedProcessNames procs1) procs1 = Inr (c_Processes out)"
    by (rule loadDecoded_parts [OF assms(1)])
  note abs = IsAbs_absDir [OF assms(3,4)]
  obtain q where q: "gget procs1 n = Some q" "p_Dir q = p_Dir (normalizeDir ?d p)"
    using wire_keeps [OF w _ p] assms(2) by (auto simp: config_maps_ok_def)
  have "gomap_ok procs1" using wire_ok [OF w assms(2) abs] by simp
  from validate_all_get(2) [OF v this q(1)] obtain r where r: "gget (c_Processes out) n = Some r"
      "validateProcess (h_regexp_ok h) (readEnvFiles h (normalizeProcessDirs (c_Processes cfg) ?d) ?d) n q = Inr r" by blast
  from validateProcess_shape [OF r(2)] have "p_Dir r = p_Dir q" by auto
  then show "\<exists>q. gget (c_Processes out) n = Some q \<and> dir_from ?d (p_Dir p) (p_Dir q)"
    using r(1) q(2) dir_from_normalizeDir [OF abs, of "filepath_Dir path" p] by auto
qed

lemma Load_parts:
  assumes "Load h path = Inr out"
  obtains data cfg where "h_read h path = Some data" "h_yaml h data = Inr cfg" "loadDecoded h path cfg = Inr out"
  using assms by (auto simp: Load_def split: option.splits sum.splits)

end
