(* ===== verification/Config_Wiring.thy ===== *)
theory Config_Wiring
  imports Config_Load
begin

text \<open>
  The merge wiring seen from a loaded config: \<^verbatim>\<open>ServedPorts\<close> and \<^verbatim>\<open>MergeUpstreamPorts\<close> recompute, from
  the finished processes, the upstream selection that \<^verbatim>\<open>Load\<close> made before the proxy process, the
  readiness probes and the env files were written in. The lemmas show that both selections agree.
\<close>

section \<open>Selections that see the same ports agree\<close>

definition same_ports :: "ServedPort gomap \<Rightarrow> ServedPort gomap \<Rightarrow> bool" where
  "same_ports s1 s2 = (\<forall>n. map_option sp_Port (gget s1 n) = map_option sp_Port (gget s2 n)
     \<and> map_option sp_Named (gget s1 n) = map_option sp_Named (gget s2 n))"

definition same_candidates :: "Process gomap \<Rightarrow> Process gomap \<Rightarrow> bool" where
  "same_candidates c1 c2 = (gomap_ok c1 \<and> gomap_ok c2
     \<and> set (gokeys c2) = insert MergePortProcessName (set (gokeys c1)))"

lemma find_filter: "(\<And>x. P x \<Longrightarrow> Q x) \<Longrightarrow> find P (filter Q xs) = find P xs"
  by (induction xs) auto

lemma same_candidates_sorted:
  assumes "same_candidates c1 c2"
  shows "filter (\<lambda>n. n \<noteq> MergePortProcessName) (SortedProcessNames c1)
    = filter (\<lambda>n. n \<noteq> MergePortProcessName) (SortedProcessNames c2)"
proof (rule sorted_distinct_set_unique)
  show "set (filter (\<lambda>n. n \<noteq> MergePortProcessName) (SortedProcessNames c1))
      = set (filter (\<lambda>n. n \<noteq> MergePortProcessName) (SortedProcessNames c2))"
    using assms by (simp add: same_candidates_def del: set_map) blast
qed (use assms in \<open>auto simp: same_candidates_def SortedProcessNames_def gomap_ok_def filter_sort\<close>)

lemma same_ports_eq:
  "same_ports s1 s2 \<Longrightarrow> (case gget s1 n of Some s \<Rightarrow> sp_Port s = port | None \<Rightarrow> False)
     = (case gget s2 n of Some s \<Rightarrow> sp_Port s = port | None \<Rightarrow> False)"
  unfolding same_ports_def
  by (drule spec [of _ n]) (cases "gget s1 n"; cases "gget s2 n"; simp)

lemma procWithPort_cong:
  assumes "same_candidates c1 c2" and "same_ports s1 s2"
  shows "procWithPort c1 s1 port = procWithPort c2 s2 port"
proof -
  let ?P = "\<lambda>s name. name \<noteq> MergePortProcessName
      \<and> (case gget s name of Some s \<Rightarrow> sp_Port s = port | None \<Rightarrow> False)"
  have "find (?P s1) (SortedProcessNames c1)
      = find (?P s1) (filter (\<lambda>n. n \<noteq> MergePortProcessName) (SortedProcessNames c1))"
    by (rule find_filter [symmetric]) simp
  also have "\<dots> = find (?P s2) (filter (\<lambda>n. n \<noteq> MergePortProcessName) (SortedProcessNames c2))"
    unfolding same_candidates_sorted [OF assms(1)] same_ports_eq [OF assms(2)] by simp
  also have "\<dots> = find (?P s2) (SortedProcessNames c2)" by (rule find_filter) simp
  finally show ?thesis by (simp add: procWithPort_def)
qed

lemma first_named_cong:
  assumes "same_candidates c1 c2" and "MergePortProcessName \<notin> set names"
  shows "first_named c1 names = first_named c2 names"
proof -
  have "find (ghas c1) names = find (ghas c2) names"
    by (rule find_cong) (use assms in \<open>auto simp: same_candidates_def simp del: set_map\<close>)
  then show ?thesis by (simp add: first_named_def)
qed

lemma findClientProc_cong:
  assumes "same_candidates c1 c2" and "same_ports s1 s2" and "m_ClientProcess m \<noteq> MergePortProcessName"
  shows "findClientProc c1 s1 m = findClientProc c2 s2 m"
proof -
  have "ghas c1 (m_ClientProcess m) = ghas c2 (m_ClientProcess m)"
    using assms(1,3) by (simp add: same_candidates_def del: set_map)
  then show ?thesis
    using first_named_cong [OF assms(1), of "[''client'', ''frontend'', ''web'', ''ui'', ''app'']"]
    by (simp add: findClientProc_def procWithPort_cong [OF assms(1,2)] Let_def del: ghas_iff)
qed

lemma findServerProc_cong:
  assumes "same_candidates c1 c2" and "same_ports s1 s2"
  shows "findServerProc c1 s1 m = findServerProc c2 s2 m"
  using first_named_cong [OF assms(1), of "[''server'', ''backend'', ''api'']"]
  by (simp add: findServerProc_def procWithPort_cong [OF assms] Let_def)

lemma add_upstream_cong:
  assumes "same_ports s1 s2" and "add_upstream field s1 name port out = Inr r"
  shows "add_upstream field s2 name port out = Inr r"
  using assms(2) spec [OF assms(1) [unfolded same_ports_def], of name]
  by (cases "gget s1 name"; cases "gget s2 name")
    (auto simp: add_upstream_def checkUpstreamPort_def refuse_if_def split: if_splits)

lemma resolveUpstreamProcesses_cong:
  assumes "same_candidates c1 c2" and "same_ports s1 s2" and "m_ClientProcess m \<noteq> MergePortProcessName"
    and "resolveUpstreamProcesses c1 s1 m = Inr ups"
  shows "resolveUpstreamProcesses c2 s2 m = Inr ups"
proof -
  have "route_upstream c1 s1 = route_upstream c2 s2"
    by (rule ext)+ (simp add: route_upstream_def procWithPort_cong [OF assms(1,2)] Let_def)
  with assms(4) add_upstream_cong [OF assms(2)] show ?thesis
    unfolding resolveUpstreamProcesses_def findClientProc_cong [OF assms(1-3)]
      findServerProc_cong [OF assms(1,2)]
    by (auto split: if_splits sum.splits)
qed

section \<open>What a process serves, before and after Load\<close>

lemma resolvePortReferences_cong:
  assumes "\<And>n. p_Ports (proc_at procs1 n) = p_Ports (proc_at procs2 n)"
  shows "resolvePortReferences procs1 value = resolvePortReferences procs2 value"
proof -
  have "resolveOne procs1 = resolveOne procs2"
    by (rule ext)+ (simp add: resolveOne_def assms)
  then show ?thesis by (simp add: resolvePortReferences_def)
qed

definition file_vars :: "envFile gomap \<Rightarrow> string \<Rightarrow> string gomap" where
  "file_vars envFiles name = (case gget envFiles name of Some (Inr vars) \<Rightarrow> vars | _ \<Rightarrow> [])"

lemma servedPort_cong:
  assumes "\<And>n. p_Ports (proc_at procs1 n) = p_Ports (proc_at procs2 n)" and "p_Ports p1 = p_Ports p2"
    and "(case gget (p_Env p1) ''PORT'' of Some v \<Rightarrow> Some v | None \<Rightarrow> gget (file_vars envs name) ''PORT'')
       = gget (p_Env p2) ''PORT''"
  shows "map_option sp_Port (servedPort procs1 envs name p1) = map_option sp_Port (servedPort procs2 [] name p2)
    \<and> map_option sp_Named (servedPort procs1 envs name p1) = map_option sp_Named (servedPort procs2 [] name p2)"
  using assms(2,3) resolvePortReferences_cong [OF assms(1)]
  by (auto simp: servedPort_def file_vars_def [symmetric] Let_def split: option.splits prod.splits)

lemma gget_servedPorts:
  "gomap_ok procs \<Longrightarrow> gget (servedPorts procs envs) n =
     (case gget procs n of None \<Rightarrow> None | Some p \<Rightarrow> servedPort procs envs n p)"
proof -
  have "distinct (gokeys ps) \<Longrightarrow>
      gget (List.map_filter (\<lambda>(name, proc). map_option (Pair name) (servedPort procs envs name proc)) ps) n
      = (case gget ps n of None \<Rightarrow> None | Some p \<Rightarrow> servedPort procs envs n p)" for ps
  proof (induction ps)
    case (Cons e ps)
    obtain name p where e: "e = (name, p)" by (cases e)
    have "n = name \<Longrightarrow> gget ps n = None" using Cons.prems e by (simp add: map_of_eq_None_iff)
    with Cons e show ?case by (auto simp: map_filter_simps split: option.splits)
  qed (simp add: map_filter_simps)
  then show "gomap_ok procs \<Longrightarrow> ?thesis" by (simp add: servedPorts_def gomap_ok_def)
qed

lemma fold_put_get: "gomap_ok kvs \<Longrightarrow> gget (fold (\<lambda>(k, v). gput k v) kvs []) k = gget kvs k"
  using gget_perm [of kvs "rev kvs" k]
  by (simp add: gm.lookup_fold_put gomap_ok_def split: option.splits)

lemma mergeEnvFile_get:
  assumes "gomap_ok vars" and "gomap_ok (p_Env p)"
  shows "gget (p_Env (mergeEnvFile vars p)) k =
     (case gget (p_Env p) k of Some v \<Rightarrow> Some v | None \<Rightarrow> gget vars k)"
proof -
  let ?base = "fold (\<lambda>(k, v). gput k v) vars []"
  have nil: "gomap_ok []" by (simp add: gomap_ok_def)
  have "gomap_ok ?base" by (rule gm.ok_fold_put) (rule nil)
  from gm.lookup_fold_put [OF this, of "p_Env p" k] gget_perm [of "p_Env p" "rev (p_Env p)" k]
    fold_put_get [OF assms(1), of k] assms(2) show ?thesis
    by (auto simp: mergeEnvFile_def split: option.splits)
qed

lemma env_lines_ok: "env_lines n lines result = Inr vars \<Longrightarrow> gomap_ok result \<Longrightarrow> gomap_ok vars"
  by (induction n lines result rule: env_lines.induct) (auto split: if_splits option.splits)

lemma parseEnvFile_ok: "parseEnvFile h path = Inr vars \<Longrightarrow> gomap_ok vars"
  by (auto simp: parseEnvFile_def gomap_ok_def intro: env_lines_ok [unfolded gomap_ok_def]
      split: option.splits sum.splits)

lemma gget_readEnvFiles:
  assumes "gomap_ok procs"
  shows "gget (readEnvFiles h procs d) n =
     (case gget procs n of None \<Rightarrow> None | Some p \<Rightarrow>
        if p_EnvFile p = [] then None
        else Some (parseEnvFile h (if IsAbs (p_EnvFile p) then p_EnvFile p else filepath_Join d (p_EnvFile p))))"
  using assms
proof (induction procs)
  case (Cons e ps)
  obtain name p where e: "e = (name, p)" by (cases e)
  have "n = name \<Longrightarrow> gget ps n = None" and "gomap_ok ps"
    using Cons.prems e by (simp_all add: map_of_eq_None_iff gomap_ok_def)
  with Cons.IH e show ?case by (auto simp: readEnvFiles_def map_filter_simps Let_def split: option.splits)
qed (simp add: readEnvFiles_def map_filter_simps)

lemma gomap_ok_Nil [simp]: "gomap_ok []"
  by (simp add: gomap_ok_def)

lemma file_vars_read:
  assumes "gomap_ok procs"
  shows "gomap_ok (file_vars (readEnvFiles h procs d) n)"
    and "(\<And>p. gget procs n = Some p \<Longrightarrow> p_EnvFile p = []) \<Longrightarrow> file_vars (readEnvFiles h procs d) n = []"
  by (auto simp: file_vars_def gget_readEnvFiles [OF assms] intro: parseEnvFile_ok
      split: option.splits sum.splits)

lemma validateProcess_env:
  assumes "validateProcess rok envs n p = Inr p'" and "gomap_ok (p_Env p)"
    and "gomap_ok (file_vars envs n)" and "p_EnvFile p = [] \<Longrightarrow> file_vars envs n = []"
  shows "gget (p_Env p') k = (case gget (p_Env p) k of Some v \<Rightarrow> Some v | None \<Rightarrow> gget (file_vars envs n) k)"
proof (cases "p_EnvFile p = [] \<or> gget envs n = None")
  case True
  then have "p_Env p' = p_Env p" "file_vars envs n = []"
    using assms(1,4)
    by (auto simp: validateProcess_def Let_def file_vars_def split: option.splits if_splits)
  then show ?thesis by (simp split: option.splits)
next
  case False
  with assms(1) obtain vars where "gget envs n = Some (Inr vars)" "p' = mergeEnvFile vars (defaultRestart p)"
    by (auto simp: validateProcess_def Let_def split: option.splits sum.splits)
  moreover from this have "file_vars envs n = vars" by (simp add: file_vars_def)
  ultimately show ?thesis using assms(2,3) by (simp add: mergeEnvFile_get split: option.splits)
qed

section \<open>The selection is the one Load made\<close>

lemma serviceUpstreams_ok: "gomap_ok procs \<Longrightarrow> gomap_ok (serviceUpstreams procs)"
  by (induction procs) (auto simp: gomap_ok_def serviceUpstreams_def)

lemma serviceUpstreams_keys:
  "gomap_ok procs \<Longrightarrow> n \<in> set (gokeys (serviceUpstreams procs)) \<longleftrightarrow>
     (\<exists>p. gget procs n = Some p \<and> EffectiveMode p = ProcessModeService)"
  by (auto simp: serviceUpstreams_def gomap_ok_def) (force dest: map_of_SomeD)

text \<open>What a loaded process has in common with its document entry.\<close>

definition kept :: "envFile gomap \<Rightarrow> string \<Rightarrow> Process \<Rightarrow> Process \<Rightarrow> bool" where
  "kept envs n p0 p = (p_Ports p = p_Ports p0 \<and> p_Mode p = p_Mode p0
     \<and> gget (p_Env p) ''PORT'' = (case gget (p_Env p0) ''PORT'' of Some v \<Rightarrow> Some v
          | None \<Rightarrow> gget (file_vars envs n) ''PORT''))"

lemma kept_wired:
  assumes "wired p0 p1" and "validateProcess rok envs n p1 = Inr p" and "gomap_ok (p_Env p0)"
    and "gomap_ok (file_vars envs n)" and "p_EnvFile p0 = [] \<Longrightarrow> file_vars envs n = []"
  shows "kept envs n p0 p"
proof -
  have "''PORT'' \<notin> set apiEnvVars" by (simp add: apiEnvVars_def)
  then have port: "gget (p_Env p1) ''PORT'' = gget (p_Env p0) ''PORT''"
    using wired_same(7) [OF assms(1)] by blast
  have "gget (p_Env p) ''PORT'' = (case gget (p_Env p1) ''PORT'' of Some v \<Rightarrow> Some v
      | None \<Rightarrow> gget (file_vars envs n) ''PORT'')"
    by (rule validateProcess_env [OF assms(2) wired_same(8) [OF assms(1,3)] assms(4)])
      (use assms(5) wired_same(5) [OF assms(1)] in simp)
  with port validateProcess_shape [OF assms(2)] wired_same(1,3) [OF assms(1)] show ?thesis
    by (auto simp: kept_def)
qed

lemma validateProcess_no_file:
  "validateProcess rok envs n p = Inr p' \<Longrightarrow> p_EnvFile p = [] \<Longrightarrow> p' = defaultRestart p"
  by (auto simp: validateProcess_def Let_def split: option.splits)

definition entries_ok :: "envFile gomap \<Rightarrow> Process gomap \<Rightarrow> Process gomap \<Rightarrow> bool" where
  "entries_ok envs procs0 procs = (gomap_ok procs
     \<and> (\<forall>n p0. gget procs0 n = Some p0 \<longrightarrow> n \<noteq> MergePortProcessName \<and> (\<exists>p. gget procs n = Some p))
     \<and> (\<forall>n p. gget procs n = Some p \<longrightarrow> n \<noteq> MergePortProcessName \<longrightarrow>
          (\<exists>p0. gget procs0 n = Some p0 \<and> kept envs n p0 p))
     \<and> (\<exists>p. gget procs MergePortProcessName = Some p \<and> p_Ports p = [] \<and> p_Mode p = []
          \<and> gget (p_Env p) ''PORT'' = None))"

lemma loaded_entries:
  assumes w: "mergeWiring h d envs m0 procs0 = Inr (m, procs1)" and ok0: "gomap_ok procs0"
    and v: "validate_loop rok envs (SortedProcessNames procs1) procs1 = Inr procs"
    and envs: "envs = readEnvFiles h procs0 d"
    and env0: "\<And>n p. gget procs0 n = Some p \<Longrightarrow> gomap_ok (p_Env p)"
  shows "entries_ok envs procs0 procs"
proof (rule mergeWiring_parts [OF w ok0], goal_cases)
  case (1 cmd ups)
  note get = validate_all_get [OF v 1(4)]
  have "\<exists>p. gget procs n = Some p" if "gget procs0 n = Some p0" for n p0
    using 1(6) [OF that] get(2) by blast
  moreover have "\<exists>p0. gget procs0 n = Some p0 \<and> kept envs n p0 p"
    if np: "gget procs n = Some p" "n \<noteq> MergePortProcessName" for n p
  proof -
    obtain p1 where p1: "gget procs1 n = Some p1" "validateProcess rok envs n p1 = Inr p"
      using get(1) [OF np(1)] by blast
    obtain p0 where p0: "gget procs0 n = Some p0" "wired p0 p1" using 1(7) [OF np(2) p1(1)] by blast
    have "kept envs n p0 p"
      by (rule kept_wired [OF p0(2) p1(2) env0 [OF p0(1)]])
        (use file_vars_read [OF ok0, where n = n and h = h and d = d] p0(1) in \<open>simp_all add: envs\<close>)
    with p0(1) show ?thesis by blast
  qed
  moreover have "\<exists>p. gget procs MergePortProcessName = Some p \<and> p_Ports p = [] \<and> p_Mode p = []
      \<and> gget (p_Env p) ''PORT'' = None"
  proof -
    obtain q env where q: "gget procs1 MergePortProcessName = Some q" "gget env ''PORT'' = None"
      "q = (mergeProcess cmd (m_Port m) (sort (gokeys ups)))\<lparr>p_Env := env\<rparr>" using 1(5) by blast
    then obtain p where "gget procs MergePortProcessName = Some p" "p = defaultRestart q"
      using get(2) validateProcess_no_file [of rok envs MergePortProcessName q]
      by (fastforce simp: mergeProcess_def zero_Process_def)
    with q show ?thesis by simp
  qed
  ultimately show ?case using 1(6) validate_loop_ok [OF v 1(4)] unfolding entries_ok_def by blast
qed

lemma entries_same:
  assumes "entries_ok envs procs0 procs" and ok0: "gomap_ok procs0"
    and new: "MergePortProcessName \<notin> set (gokeys procs0)" "file_vars envs MergePortProcessName = []"
  shows "same_candidates (serviceUpstreams procs0) (serviceUpstreams procs)"
    and "same_ports (servedPorts procs0 envs) (servedPorts procs [])"
proof -
  obtain mp where mp: "gget procs MergePortProcessName = Some mp" "p_Ports mp = []" "p_Mode mp = []"
      "gget (p_Env mp) ''PORT'' = None" and ok: "gomap_ok procs"
    using assms(1) unfolding entries_ok_def by blast
  have old: "\<exists>p0. gget procs0 n = Some p0 \<and> kept envs n p0 p"
    if "gget procs n = Some p" "n \<noteq> MergePortProcessName" for n p
    using assms(1) that unfolding entries_ok_def by blast
  have absent: "gget procs0 MergePortProcessName = None" using new(1) by (simp add: map_of_eq_None_iff)
  have fwd: "n \<noteq> MergePortProcessName \<and> (\<exists>p. gget procs n = Some p \<and> kept envs n p0 p)"
    if "gget procs0 n = Some p0" for n p0
    using assms(1) that unfolding entries_ok_def by (metis option.inject)
  have "set (gokeys (serviceUpstreams procs))
      = insert MergePortProcessName (set (gokeys (serviceUpstreams procs0)))"
  proof (intro set_eqI)
    fix n show "n \<in> set (gokeys (serviceUpstreams procs))
      \<longleftrightarrow> n \<in> insert MergePortProcessName (set (gokeys (serviceUpstreams procs0)))"
    proof (cases "n = MergePortProcessName")
      case True
      then show ?thesis
        using mp serviceUpstreams_keys [OF ok, of n] by (simp add: EffectiveMode_def del: set_map)
    next
      case False
      then show ?thesis
        unfolding insert_iff serviceUpstreams_keys [OF ok] serviceUpstreams_keys [OF ok0]
        using old [of n] fwd [of n] by (fastforce simp: kept_def EffectiveMode_def)
    qed
  qed
  then show "same_candidates (serviceUpstreams procs0) (serviceUpstreams procs)"
    using serviceUpstreams_ok ok ok0 unfolding same_candidates_def by blast
  have ports: "p_Ports (proc_at procs0 n) = p_Ports (proc_at procs n)" for n
  proof (cases "n = MergePortProcessName")
    case True
    with mp absent show ?thesis by (simp add: proc_at_def zero_Process_def)
  next
    case False
    with old [of n] fwd [of n] show ?thesis
      by (cases "gget procs n"; cases "gget procs0 n") (auto simp: proc_at_def kept_def)
  qed
  show "same_ports (servedPorts procs0 envs) (servedPorts procs [])"
    unfolding same_ports_def gget_servedPorts [OF ok] gget_servedPorts [OF ok0]
  proof (intro allI)
    fix n
    show "map_option sp_Port (case gget procs0 n of None \<Rightarrow> None | Some p \<Rightarrow> servedPort procs0 envs n p)
        = map_option sp_Port (case gget procs n of None \<Rightarrow> None | Some p \<Rightarrow> servedPort procs [] n p)
      \<and> map_option sp_Named (case gget procs0 n of None \<Rightarrow> None | Some p \<Rightarrow> servedPort procs0 envs n p)
        = map_option sp_Named (case gget procs n of None \<Rightarrow> None | Some p \<Rightarrow> servedPort procs [] n p)"
    proof (cases "n = MergePortProcessName")
      case True
      with mp absent show ?thesis by (simp add: servedPort_def)
    next
      case False
      show ?thesis
      proof (cases "gget procs n")
        case None
        with fwd [of n] show ?thesis by (cases "gget procs0 n") auto
      next
        case (Some p)
        with old False obtain p0 where p0: "gget procs0 n = Some p0" "kept envs n p0 p" by blast
        with Some servedPort_cong [OF ports, of p0 p envs n] show ?thesis by (simp add: kept_def)
      qed
    qed
  qed
qed

text \<open>The merge wiring of an accepted config, taken apart.\<close>

lemma Load_wiring:
  assumes "loadDecoded h path cfg = Inr out" and "config_maps_ok cfg" and "c_Merge out = Some m"
  obtains d procs0 procs1 envs m0 where
    "mergeWiring h d envs m0 procs0 = Inr (m, procs1)" "gomap_ok procs0"
    "validate_loop (h_regexp_ok h) envs (SortedProcessNames procs1) procs1 = Inr (c_Processes out)"
    "envs = readEnvFiles h procs0 d" "\<And>n p. gget procs0 n = Some p \<Longrightarrow> gomap_ok (p_Env p)"
    "c_Merge cfg = Some m0"
proof (rule loadDecoded_parts [OF assms(1)])
  let ?d = "absDir h (filepath_Dir path)"
  let ?p0 = "normalizeProcessDirs (c_Processes cfg) ?d"
  fix procs1
  assume w: "wire h ?d cfg = Inr (c_Merge out, procs1)"
    and v: "validate_loop (h_regexp_ok h) (readEnvFiles h ?p0 ?d) (SortedProcessNames procs1) procs1
        = Inr (c_Processes out)"
  from w assms(3) obtain m0 where m0: "c_Merge cfg = Some m0"
      "mergeWiring h ?d (readEnvFiles h ?p0 ?d) m0 ?p0 = Inr (m, procs1)"
    by (auto simp: wire_def Let_def split: option.splits sum.splits)
  have "gomap_ok (p_Env p)" if "gget ?p0 n = Some p" for n p
    using that assms(2) gomap_entry [of "c_Processes cfg" n]
    by (auto simp: gget_normalizeProcessDirs config_maps_ok_def)
  with m0 v assms(2) show ?thesis by (intro that [of ?d _ m0 ?p0]) (auto simp: config_maps_ok_def)
qed

lemma Load_upstreams:
  assumes "loadDecoded h path cfg = Inr out" and "config_maps_ok cfg" and "c_Merge out = Some m"
    and client: "m_ClientProcess m \<noteq> MergePortProcessName"
  obtains ups mp where
    "resolveUpstreamProcesses (serviceUpstreams (c_Processes out)) (ServedPorts (c_Processes out)) m = Inr ups"
    "gget (c_Processes out) MergePortProcessName = Some mp" "p_DependsOn mp = sort (gokeys ups)"
proof (rule Load_wiring [OF assms(1-3)])
  fix d procs0 procs1 envs m0
  assume w: "mergeWiring h d envs m0 procs0 = Inr (m, procs1)" and ok0: "gomap_ok procs0"
    and v: "validate_loop (h_regexp_ok h) envs (SortedProcessNames procs1) procs1 = Inr (c_Processes out)"
    and envs: "envs = readEnvFiles h procs0 d"
    and env0: "\<And>n p. gget procs0 n = Some p \<Longrightarrow> gomap_ok (p_Env p)"
  have ent: "entries_ok envs procs0 (c_Processes out)" by (rule loaded_entries [OF w ok0 v envs env0])
  have new: "MergePortProcessName \<notin> set (gokeys procs0)"
    using ent unfolding entries_ok_def by (metis ghas_def ghas_iff not_None_eq)
  then have absent: "gget procs0 MergePortProcessName = None" by (simp add: map_of_eq_None_iff)
  have nofile: "file_vars envs MergePortProcessName = []"
    unfolding envs by (rule file_vars_read(2) [OF ok0]) (simp add: absent)
  show ?thesis
  proof (rule mergeWiring_parts [OF w ok0], goal_cases)
    case (1 cmd ups)
    obtain q env where q: "gget procs1 MergePortProcessName = Some q"
      "q = (mergeProcess cmd (m_Port m) (sort (gokeys ups)))\<lparr>p_Env := env\<rparr>" using 1(5) by blast
    obtain mp where mp: "gget (c_Processes out) MergePortProcessName = Some mp"
        "validateProcess (h_regexp_ok h) envs MergePortProcessName q = Inr mp"
      using validate_all_get(2) [OF v 1(4) q(1)] by blast
    have "p_DependsOn mp = sort (gokeys ups)" using validateProcess_shape [OF mp(2)] q(2) by auto
    moreover have "resolveUpstreamProcesses (serviceUpstreams (c_Processes out))
        (ServedPorts (c_Processes out)) m = Inr ups"
      unfolding ServedPorts_def
      by (rule resolveUpstreamProcesses_cong [OF entries_same [OF ent ok0 new nofile] client 1(3)])
    ultimately show ?case using mp(1) by (intro that)
  qed
qed

lemma loaded_merge_port:
  assumes "loadDecoded h path cfg = Inr out" and "config_maps_ok cfg" and "c_Merge out = Some m"
  shows "\<exists>mp. gget (c_Processes out) MergePortProcessName = Some mp
    \<and> HasPrefix (p_Cmd mp) ''merge-port'' \<and> p_ReadyWhen mp = Some (tcp_probe (m_Port m))
    \<and> merge_ports_ok m
    \<and> (\<forall>u \<in> set (p_DependsOn mp). \<exists>p. gget (c_Processes out) u = Some p
          \<and> EffectiveMode p = ProcessModeService \<and> p_ReadyWhen p \<noteq> None)"
proof (rule Load_wiring [OF assms])
  fix d procs0 procs1 envs m0
  assume w: "mergeWiring h d envs m0 procs0 = Inr (m, procs1)" and ok0: "gomap_ok procs0"
    and v: "validate_loop (h_regexp_ok h) envs (SortedProcessNames procs1) procs1 = Inr (c_Processes out)"
  show ?thesis
  proof (rule mergeWiring_parts [OF w ok0], goal_cases)
    case (1 cmd ups)
    obtain q env where q: "gget procs1 MergePortProcessName = Some q"
      "q = (mergeProcess cmd (m_Port m) (sort (gokeys ups)))\<lparr>p_Env := env\<rparr>" using 1(5) by blast
    obtain mp where mp: "gget (c_Processes out) MergePortProcessName = Some mp"
        "validateProcess (h_regexp_ok h) envs MergePortProcessName q = Inr mp"
      using validate_all_get(2) [OF v 1(4) q(1)] by blast
    have up: "\<exists>p. gget (c_Processes out) u = Some p \<and> EffectiveMode p = ProcessModeService
        \<and> p_ReadyWhen p \<noteq> None" if u: "u \<in> set (gokeys ups)" for u
    proof -
      obtain p1 where p1: "u \<noteq> MergePortProcessName" "gget procs1 u = Some p1" "p_ReadyWhen p1 \<noteq> None"
        using 1(7) [OF _ ] 1(8) [OF u] by blast
      obtain p0 where p0: "gget procs0 u = Some p0" "wired p0 p1" using 1(7) [OF p1(1,2)] by blast
      have "u \<in> set (gokeys (serviceUpstreams procs0))"
        using resolveUpstreamProcesses_ok [OF 1(3)] u unfolding upstreams_ok_def
        by (metis ghas_def ghas_iff not_None_eq)
      then have "EffectiveMode p0 = ProcessModeService" using serviceUpstreams_keys [OF ok0] p0(1) by auto
      moreover obtain p where "gget (c_Processes out) u = Some p"
          "validateProcess (h_regexp_ok h) envs u p1 = Inr p"
        using validate_all_get(2) [OF v 1(4) p1(2)] by blast
      moreover from validateProcess_shape [OF this(2)] have "p_ReadyWhen p = p_ReadyWhen p1" "p_Mode p = p_Mode p1"
        by auto
      ultimately show ?thesis using p1(3) wired_same(3) [OF p0(2)] by (auto simp: EffectiveMode_def)
    qed
    have "p_Cmd mp = cmd" "p_ReadyWhen mp = Some (tcp_probe (m_Port m))" "p_DependsOn mp = sort (gokeys ups)"
      using validateProcess_shape [OF mp(2)] q(2) by (auto simp: defaultRestart_def)
    with mp(1) 1(1,2) up show ?case by (auto simp del: set_map simp: set_sort)
  qed
qed

end
