(* ===== verification/Config_Correct.thy ===== *)
theory Config_Correct
  imports Config_Wiring
begin

text \<open>
  The properties of the configuration layer: what \<^verbatim>\<open>Load\<close> accepts, how it wires the merge proxy, which
  processes a selection starts and in which order, and how references and env files are read. The
  example config and host at the top serve the witnesses.
\<close>

section \<open>An example config\<close>

definition example_proc :: "string \<Rightarrow> string list \<Rightarrow> Process" where
  "example_proc cmd deps = zero_Process\<lparr>p_Cmd := cmd, p_DependsOn := deps\<rparr>"

definition example_cfg :: Config where
  "example_cfg = \<lparr>c_Merge = Some \<lparr>m_Client = 3000, m_Server = 4000, m_Port = 0, m_ApiPrefixes = [],
       m_Routes = [], m_ClientProcess = []\<rparr>,
     c_Processes =
      [(''web'', (example_proc ''run web'' [''api''])\<lparr>p_Env := [(''PORT'', ''${ports.web.http}'')],
          p_Ports := [(''http'', 3000)], p_Dir := ''web''\<rparr>),
       (''api'', (example_proc ''run api'' [''db''])\<lparr>p_Env := [(''PORT'', ''4000'')], p_Restart := ''on-failure''\<rparr>),
       (''db'', (example_proc ''migrate'' [])\<lparr>p_Mode := ''task''\<rparr>)],
     c_Resources = ['' gpu '']\<rparr>"

definition example_host :: host where
  "example_host = \<lparr>h_read = (\<lambda>p. if p = ''/srv/app/c.yaml'' then Some ''doc'' else None),
     h_stat = (\<lambda>_. False), h_cwd = Some ''/srv'', h_PORT = [], h_yaml = (\<lambda>_. Inr example_cfg),
     h_tree = (\<lambda>_. FDir ''app'' []), h_submatch = (\<lambda>_ _. None), h_url = (\<lambda>_. None),
     h_regexp_ok = (\<lambda>_. True)\<rparr>"

definition example_loaded :: Config where
  "example_loaded = (case Load example_host ''/srv/app/c.yaml'' of Inr cfg \<Rightarrow> cfg | Inl _ \<Rightarrow> example_cfg)"

definition yaml_maps :: "host \<Rightarrow> bool" where
  "yaml_maps h = (\<forall>data cfg. h_yaml h data = Inr cfg \<longrightarrow> config_maps_ok cfg)"

lemma example_yaml_maps: "yaml_maps example_host"
  by (auto simp: yaml_maps_def example_host_def config_maps_ok_def example_cfg_def gomap_ok_def
      example_proc_def zero_Process_def)

lemma example_load: "Load example_host ''/srv/app/c.yaml'' = Inr example_loaded"
proof -
  have "isl (Load example_host ''/srv/app/c.yaml'') = False" by code_simp
  then show ?thesis unfolding example_loaded_def
    by (cases "Load example_host ''/srv/app/c.yaml''") auto
qed

lemma filepath_Dir_example: "filepath_Dir ''/srv/app/c.yaml'' = ''/srv/app''" "Clean ''/srv/app'' = ''/srv/app''" "IsAbs ''/srv/app''"
  by code_simp+

lemma example_cwd: "h_cwd example_host = Some ''/srv''" "IsAbs ''/srv''"
  by (simp_all add: example_host_def IsAbs_def)

lemma Load_yaml:
  assumes "Load h path = Inr out" and "yaml_maps h"
  obtains cfg where "loadDecoded h path cfg = Inr out" "config_maps_ok cfg"
  using assms by (metis Load_parts yaml_maps_def)

lemma Load_loaded_ok:
  "Load h path = Inr out \<Longrightarrow> yaml_maps h \<Longrightarrow> h_cwd h = Some wd \<Longrightarrow> IsAbs wd \<Longrightarrow> loaded_ok (h_regexp_ok h) out"
  using Load_yaml loadDecoded_ok by metis

section \<open>Load\<close>

text \<open>
  C1. A config that \<^verbatim>\<open>Load\<close> accepts is well formed: every process satisfies all field rules and depends only on other
  existing processes that are not teardown processes, the dependency graph has no cycle, no two endpoints share a
  reference name, and the resource labels are trimmed, in range and distinct. And no process is lost or runs somewhere
  else than its document says: each process of the document is there, with an empty directory or one with a runtime
  template as written, and any other as an absolute clean path, rooted at the directory of the config file when it was
  relative. This is for a host whose working directory is known and absolute, as \<^verbatim>\<open>filepath.Abs\<close> needs it, and a
  decoder that gives each key of a mapping once.
\<close>

theorem Load_well_formed:
  assumes "Load h path = Inr cfg" and "yaml_maps h" and "h_cwd h = Some wd" and "IsAbs wd"
  shows "loaded_ok (h_regexp_ok h) cfg \<and>
    (\<exists>data doc. h_read h path = Some data \<and> h_yaml h data = Inr doc \<and>
       dirs_from (absDir h (filepath_Dir path)) (c_Processes doc) (c_Processes cfg))"
proof -
  obtain data doc where d: "h_read h path = Some data" "h_yaml h data = Inr doc" "loadDecoded h path doc = Inr cfg"
    by (rule Load_parts [OF assms(1)])
  moreover from this assms(2) have "config_maps_ok doc" by (auto simp: yaml_maps_def)
  ultimately show ?thesis using loadDecoded_ok loadDecoded_dirs assms(3,4) by blast
qed

theorem Load_well_formed_witness:
  "loaded_ok (h_regexp_ok example_host) example_loaded \<and>
     (\<exists>q. gget (c_Processes example_loaded) ''web'' = Some q \<and> p_Dir q = ''/srv/app/web'')"
proof -
  note w = Load_well_formed [OF example_load example_yaml_maps example_cwd]
  have "dirs_from ''/srv/app'' (c_Processes example_cfg) (c_Processes example_loaded)"
    using conjunct2 [OF w] by (auto simp: example_host_def absDir_def filepath_Dir_example)
  moreover have "gget (c_Processes example_cfg) ''web'' = Some ((example_proc ''run web'' [''api''])\<lparr>p_Env := [(''PORT'', ''${ports.web.http}'')],
          p_Ports := [(''http'', 3000)], p_Dir := ''web''\<rparr>)" by (simp add: example_cfg_def)
  ultimately obtain q where q: "gget (c_Processes example_loaded) ''web'' = Some q" "dir_from ''/srv/app'' ''web'' (p_Dir q)"
    unfolding dirs_from_def by fastforce
  have "\<not> HasRuntimeTemplate ''web''" "\<not> IsAbs ''web''" "Clean (filepath_Join ''/srv/app'' ''web'') = ''/srv/app/web''" by code_simp+
  then have "p_Dir q = ''/srv/app/web''" using q(2) by (simp add: dir_from_def)
  with w q(1) show ?thesis by blast
qed

text \<open>
  C6. The startup plan of a loaded config orders dependencies: for selectors that \<^verbatim>\<open>CheckSelector\<close>
  accepts, \<^verbatim>\<open>Plan\<close> returns levels that hold every selected process exactly once, and every
  dependency of a process is in an earlier level than the process.
\<close>

theorem Load_Plan_orders:
  assumes "Load h path = Inr cfg" and "yaml_maps h" and "h_cwd h = Some wd" and "IsAbs wd"
    and "\<forall>f \<in> set filt. CheckSelector cfg f = None"
  shows "\<exists>sp. Plan cfg filt = PlanOk sp
    \<and> distinct (concat (sp_Levels sp)) \<and> set (concat (sp_Levels sp)) = set (SelectedNames cfg filt)
    \<and> (\<forall>i < length (sp_Levels sp). \<forall>n \<in> set (sp_Levels sp ! i). \<forall>d \<in> set (deps_of (c_Processes cfg) n).
         \<exists>j < i. d \<in> set (sp_Levels sp ! j))"
proof -
  have ok: "loaded_ok (h_regexp_ok h) cfg" by (rule Load_loaded_ok [OF assms(1-4)])
  then have acyc: "acyclic (depends (c_Processes cfg))" by (simp add: loaded_ok_def)
  obtain sp where sp: "Plan cfg filt = PlanOk sp"
    and part: "distinct (concat (sp_Levels sp))" "set (concat (sp_Levels sp)) = set (SelectedNames cfg filt)"
    and ord: "\<forall>i < length (sp_Levels sp). \<forall>n \<in> set (sp_Levels sp ! i). \<forall>d \<in> set (deps_of (c_Processes cfg) n).
         selectable (c_Processes cfg) d \<longrightarrow> (\<exists>j < i. d \<in> set (sp_Levels sp ! j))"
    using Plan_orders [OF acyc assms(5)] by blast
  have "selectable (c_Processes cfg) d"
    if "i < length (sp_Levels sp)" "n \<in> set (sp_Levels sp ! i)" "d \<in> set (deps_of (c_Processes cfg) n)" for i n d
  proof -
    have "n \<in> set (concat (sp_Levels sp))" using that(1,2) unfolding set_concat by (metis UN_I nth_mem)
    then have "n \<in> set (gokeys (c_Processes cfg))" unfolding part(2)
      by (rule selectable_key [OF SelectedNames_selectable])
    with ok that(3) obtain q where "gget (c_Processes cfg) d = Some q" "p_Mode q \<noteq> ProcessModeTeardown"
      unfolding loaded_ok_def deps_ok_def by blast
    then show ?thesis by (simp add: selectable_def)
  qed
  with sp part ord show ?thesis by blast
qed

theorem Load_Plan_orders_witness:
  "\<exists>sp. Plan example_loaded [''api''] = PlanOk sp
    \<and> distinct (concat (sp_Levels sp)) \<and> set (concat (sp_Levels sp)) = set (SelectedNames example_loaded [''api''])
    \<and> (\<forall>i < length (sp_Levels sp). \<forall>n \<in> set (sp_Levels sp ! i).
         \<forall>d \<in> set (deps_of (c_Processes example_loaded) n). \<exists>j < i. d \<in> set (sp_Levels sp ! j))"
proof (rule Load_Plan_orders [OF example_load example_yaml_maps example_cwd])
  show "\<forall>f \<in> set [''api'']. CheckSelector example_loaded f = None" by code_simp
qed

text \<open>
  The generated proxy waits for its backends: in a loaded config with a merge section the
  \<^verbatim>\<open>merge-port\<close> process exists, its own probe is its listen port, every port of the section is in
  range, and each process it depends on is a service that has a readiness probe.
\<close>

theorem Load_merge_waits:
  assumes "Load h path = Inr cfg" and "yaml_maps h" and "c_Merge cfg = Some m"
  shows "\<exists>mp. gget (c_Processes cfg) MergePortProcessName = Some mp
    \<and> HasPrefix (p_Cmd mp) ''merge-port'' \<and> p_ReadyWhen mp = Some (tcp_probe (m_Port m))
    \<and> merge_ports_ok m
    \<and> (\<forall>u \<in> set (p_DependsOn mp). \<exists>p. gget (c_Processes cfg) u = Some p
          \<and> EffectiveMode p = ProcessModeService \<and> p_ReadyWhen p \<noteq> None)"
  using Load_yaml [OF assms(1,2)] loaded_merge_port [OF _ _ assms(3)] by metis

definition example_merge :: Merge where
  "example_merge = \<lparr>m_Client = 3000, m_Server = 4000, m_Port = 8080, m_ApiPrefixes = [],
     m_Routes = [], m_ClientProcess = []\<rparr>"

lemma example_merge_loaded: "c_Merge example_loaded = Some example_merge"
proof -
  have "(case c_Merge example_loaded of None \<Rightarrow> False | Some m \<Rightarrow>
     (m_Client m, m_Server m, m_Port m, m_ApiPrefixes m, m_Routes m, m_ClientProcess m)
       = (3000, 4000, 8080, [], [], []))" by code_simp
  then show ?thesis by (cases "c_Merge example_loaded") (auto simp: example_merge_def)
qed

theorem Load_merge_waits_witness:
  "\<exists>mp. gget (c_Processes example_loaded) MergePortProcessName = Some mp
    \<and> HasPrefix (p_Cmd mp) ''merge-port'' \<and> p_ReadyWhen mp = Some (tcp_probe (m_Port example_merge))
    \<and> merge_ports_ok example_merge
    \<and> (\<forall>u \<in> set (p_DependsOn mp). \<exists>p. gget (c_Processes example_loaded) u = Some p
          \<and> EffectiveMode p = ProcessModeService \<and> p_ReadyWhen p \<noteq> None)"
  by (rule Load_merge_waits [OF example_load example_yaml_maps example_merge_loaded])

text \<open>
  The upstream selection recomputed from a loaded config, which \<^verbatim>\<open>MergeUpstreamPorts\<close> pins the
  named ports by, never fails and picks exactly the processes that the generated proxy depends on,
  unless \<^verbatim>\<open>client_process\<close> names the proxy itself.
\<close>

theorem Load_upstreams_agree:
  assumes "Load h path = Inr cfg" and "yaml_maps h" and "c_Merge cfg = Some m"
    and "m_ClientProcess m \<noteq> MergePortProcessName"
  shows "\<exists>ups mp.
    resolveUpstreamProcesses (serviceUpstreams (c_Processes cfg)) (ServedPorts (c_Processes cfg)) m = Inr ups
    \<and> gget (c_Processes cfg) MergePortProcessName = Some mp \<and> p_DependsOn mp = sort (gokeys ups)"
proof (rule Load_yaml [OF assms(1,2)])
  fix dec assume "loadDecoded h path dec = Inr cfg" "config_maps_ok dec"
  from Load_upstreams [OF this assms(3,4)] show ?thesis by metis
qed

theorem Load_upstreams_agree_witness:
  "\<exists>ups mp. resolveUpstreamProcesses (serviceUpstreams (c_Processes example_loaded))
       (ServedPorts (c_Processes example_loaded)) example_merge = Inr ups
    \<and> gget (c_Processes example_loaded) MergePortProcessName = Some mp \<and> p_DependsOn mp = sort (gokeys ups)"
  by (rule Load_upstreams_agree [OF example_load example_yaml_maps example_merge_loaded])
    (simp add: example_merge_def)

definition misnamed_cfg :: Config where
  "misnamed_cfg = example_cfg\<lparr>c_Merge := Some \<lparr>m_Client = 3000, m_Server = 4000, m_Port = 0,
     m_ApiPrefixes = [], m_Routes = [], m_ClientProcess = ''merge-port''\<rparr>\<rparr>"

text \<open>
  The exception in the agreement above is real: with \<^verbatim>\<open>client_process: merge-port\<close> the document names no process at load
  time, so \<open>web\<close> is detected as the client and wired; the loaded config holds the proxy under that
  name, and the recomputed selection takes the proxy instead of \<open>web\<close>, whose port is not pinned.
\<close>

theorem MergeUpstreamPorts_misses_client:
  "(case Load (example_host\<lparr>h_yaml := (\<lambda>_. Inr misnamed_cfg)\<rparr>) ''/srv/app/c.yaml'' of
      Inl _ \<Rightarrow> False
    | Inr cfg \<Rightarrow> deps_of (c_Processes cfg) ''merge-port'' = [''api'', ''web'']
        \<and> MergeUpstreamPorts cfg = [])
   \<and> MergeUpstreamPorts example_loaded = [''web.http'']"
  by code_simp

section \<open>Processes\<close>

text \<open>
  C40. The validation of one process accepts exactly the processes that satisfy the documented field
  rules (exactly one probe kind, no service fields on run-once processes, restart limits only with
  a restart policy, ports and timeouts in range, health and foreign-listener rules).
\<close>

theorem process_validation_exact: "processErrors rok name p = None \<longleftrightarrow> process_ok rok name p"
  by (rule processErrors_None)

lemma proc_at_perm: "gomap_ok procs \<Longrightarrow> mset procs = mset procs' \<Longrightarrow> proc_at procs n = proc_at procs' n"
  by (simp add: proc_at_def gget_perm)

lemma validate_loop_err:
  "distinct names \<Longrightarrow> (\<And>n. n \<in> set names \<Longrightarrow> proc_at procs n = proc_at procs' n) \<Longrightarrow>
   validate_loop rok envs names procs = Inl e \<Longrightarrow> validate_loop rok envs names procs' = Inl e"
proof (induction names arbitrary: procs procs')
  case (Cons name names)
  show ?case
  proof (cases "validateProcess rok envs name (proc_at procs name)")
    case (Inl a)
    with Cons.prems show ?thesis by simp
  next
    case (Inr p)
    have "proc_at (gput name p procs) n = proc_at (gput name p procs') n" if "n \<in> set names" for n
      using that Cons.prems(2) [of n] by (auto simp: proc_at_def)
    with Cons.IH [of "gput name p procs" "gput name p procs'"] Cons.prems Inr show ?thesis by simp
  qed
qed simp

text \<open>
  The first validation error does not depend on the iteration order of the process map: two
  representations of one map give the same error.
\<close>

theorem first_error_deterministic:
  assumes "gomap_ok procs" and "mset procs = mset procs'"
  shows "validate_loop rok envs (SortedProcessNames procs) procs = Inl e \<longleftrightarrow>
    validate_loop rok envs (SortedProcessNames procs') procs' = Inl e"
proof -
  have ok': "gomap_ok procs'"
    using assms mset_eq_imp_distinct_iff [of "gokeys procs" "gokeys procs'"] by (simp add: gomap_ok_def)
  have same: "SortedProcessNames procs = SortedProcessNames procs'" by (rule SortedProcessNames_perm [OF assms(2)])
  have d: "distinct (SortedProcessNames procs')" using ok' by (simp add: SortedProcessNames_def gomap_ok_def)
  have at: "proc_at procs n = proc_at procs' n" for n by (rule proc_at_perm [OF assms])
  show ?thesis unfolding same
    using validate_loop_err [OF d at, of rok envs e] validate_loop_err [OF d at [symmetric], of rok envs e]
    by blast
qed

theorem first_error_deterministic_witness:
  "validate_loop (\<lambda>_. True) [] (SortedProcessNames [(''b'', zero_Process), (''a'', zero_Process)])
      [(''b'', zero_Process), (''a'', zero_Process)] = Inl (invalid CodeMissingCmd (at ''a'' []) [''a''])
   \<longleftrightarrow> validate_loop (\<lambda>_. True) [] (SortedProcessNames [(''a'', zero_Process), (''b'', zero_Process)])
      [(''a'', zero_Process), (''b'', zero_Process)] = Inl (invalid CodeMissingCmd (at ''a'' []) [''a''])"
  by (rule first_error_deterministic) (simp_all add: gomap_ok_def)

text \<open>
  Environment precedence: after validation a process sees, for every variable, the value of its
  env block if it has one and otherwise the value of its env file.
\<close>

theorem env_block_over_env_file:
  assumes "validateProcess rok (readEnvFiles h procs d) name p = Inr p'"
    and "gomap_ok procs" and "gget procs name = Some p" and "gomap_ok (p_Env p)"
  shows "gget (p_Env p') k = (case gget (p_Env p) k of
     Some v \<Rightarrow> Some v | None \<Rightarrow> gget (file_vars (readEnvFiles h procs d) name) k)"
  using validateProcess_env [OF assms(1,4) file_vars_read(1) [OF assms(2)]]
    file_vars_read(2) [OF assms(2), of name h d] assms(3) by simp

definition example_env_host :: host where
  "example_env_host = example_host\<lparr>h_read := (\<lambda>p. if p = ''/srv/a.env'' then
     Some (''A=1'' @ [CHR 0x0A] @ ''B = two'' @ [CHR 0x0D, CHR 0x0A]) else None)\<rparr>"

definition example_env_proc :: Process where
  "example_env_proc = (example_proc ''x'' [])\<lparr>p_EnvFile := ''a.env'', p_Env := [(''A'', ''9'')]\<rparr>"

theorem env_block_over_env_file_witness:
  "\<exists>p'. validateProcess (\<lambda>_. True) (readEnvFiles example_env_host [(''p'', example_env_proc)] ''/srv'') ''p''
       example_env_proc = Inr p' \<and> gget (p_Env p') ''A'' = Some ''9'' \<and> gget (p_Env p') ''B'' = Some ''two''"
proof -
  let ?r = "validateProcess (\<lambda>_. True) (readEnvFiles example_env_host [(''p'', example_env_proc)] ''/srv'') ''p''
       example_env_proc"
  have "\<not> isl ?r" by code_simp
  then obtain p' where p': "?r = Inr p'" by (cases ?r) auto
  have get: "gget (p_Env p') k = (case gget (p_Env example_env_proc) k of Some v \<Rightarrow> Some v
      | None \<Rightarrow> gget (file_vars (readEnvFiles example_env_host [(''p'', example_env_proc)] ''/srv'') ''p'') k)" for k
    by (rule env_block_over_env_file [OF p']) (simp_all add: gomap_ok_def example_env_proc_def)
  have "gget (file_vars (readEnvFiles example_env_host [(''p'', example_env_proc)] ''/srv'') ''p'') ''B''
      = Some ''two''" by code_simp
  with p' get [of "''A''"] get [of "''B''"] show ?thesis by (simp add: example_env_proc_def)
qed

section \<open>Dependencies and selection\<close>

text \<open>
  C27. Cycle detection is exact: \<^verbatim>\<open>detectCycles\<close> reports no error exactly when the dependency graph is
  acyclic, and a reported error names an actual cycle of the graph, closed and in dependency order.
\<close>

theorem detectCycles_exact:
  "(detectCycles procs = None \<longleftrightarrow> acyclic (depends procs))
   \<and> (detectCycles procs = Some e \<longrightarrow> is_cycle procs (Args e))"
  using detectCycles_None_acyclic detectCycles_cycle by blast

theorem detectCycles_exact_witness:
  "is_cycle [(''a'', example_proc ''x'' [''b'']), (''b'', example_proc ''x'' [''a''])] [''a'', ''b'', ''a'']"
proof -
  let ?procs = "[(''a'', example_proc ''x'' [''b'']), (''b'', example_proc ''x'' [''a''])]"
  have "map_option Args (detectCycles ?procs) = Some [''a'', ''b'', ''a'']" by code_simp
  then obtain e where "detectCycles ?procs = Some e" "Args e = [''a'', ''b'', ''a'']" by auto
  with detectCycles_exact [of ?procs e] show ?thesis by simp
qed

text \<open>
  A selection starts exactly the dependency closure of its roots (all processes when no filter is
  given) over processes that are not teardown processes, listed once each in name order.
\<close>

theorem selection_is_closure:
  "set (SelectedNames cfg filt) = closure (c_Processes cfg) (selection_roots cfg filt)
   \<and> sorted (SelectedNames cfg filt) \<and> distinct (SelectedNames cfg filt)"
  using SelectedNames_closure by blast

section \<open>References, env files and resources\<close>

text \<open>
  A reference name splits back into its namespace, process and port, whatever dots the process
  name holds, because a valid port name holds none.
\<close>

theorem reference_round_trip:
  assumes "ns \<in> set ref_namespaces" and "portNameRe port"
  shows "splitReference (ref_name ns process port) = (ns, process, port, True)"
  using assms portNameRe_no_dot by (intro splitReference_ref_name) (auto simp: ref_namespaces_def)

theorem reference_round_trip_witness:
  "splitReference (ref_name ''urls'' ''api.v1'' ''http'') = (''urls'', ''api.v1'', ''http'', True)"
proof (rule reference_round_trip)
  show "''urls'' \<in> set ref_namespaces" by (simp add: ref_namespaces_def)
  show "portNameRe ''http''" by code_simp
qed

lemma env_lines_result:
  "(\<exists>k. env_lines n lines result = Inl k) \<longleftrightarrow> (\<exists>l \<in> set lines. int (length l) > maxEnvFileLine)"
  "env_lines n lines result = Inr vars \<Longrightarrow>
     gget vars = gget result ++ map_of (rev (List.map_filter env_line lines))"
  by (induction n lines result rule: env_lines.induct)
    (auto simp: map_filter_simps map_add_upd_left update_conv' split: option.splits if_splits)

text \<open>
  Reading an env file: it is refused exactly when a line is longer than 1 MiB, and otherwise a
  variable has the value of the last line that assigns it.
\<close>

theorem env_file_last_assignment_wins:
  assumes "h_read h path = Some data"
  shows "(isl (parseEnvFile h path) \<longleftrightarrow> (\<exists>l \<in> set (scan_lines data). int (length l) > maxEnvFileLine))
    \<and> (parseEnvFile h path = Inr vars \<longrightarrow>
         gget vars k = map_of (rev (List.map_filter env_line (scan_lines data))) k)"
proof (cases "env_lines 0 (scan_lines data) []")
  case (Inl n)
  then have "\<exists>l \<in> set (scan_lines data). int (length l) > maxEnvFileLine"
    using env_lines_result(1) by blast
  with Inl assms show ?thesis by (simp add: parseEnvFile_def)
next
  case (Inr vs)
  then have "\<not> (\<exists>l \<in> set (scan_lines data). int (length l) > maxEnvFileLine)"
    using env_lines_result(1) [of 0 "scan_lines data" "[]"] by auto
  moreover have "gget vs k = map_of (rev (List.map_filter env_line (scan_lines data))) k"
    using env_lines_result(2) [OF Inr] by simp
  ultimately show ?thesis using Inr assms by (auto simp: parseEnvFile_def)
qed

theorem env_file_last_assignment_wins_witness:
  "\<exists>vars. parseEnvFile (example_host\<lparr>h_read := (\<lambda>_. Some (''A=1'' @ [CHR 0x0A] @ ''A=2''))\<rparr>) ''f'' = Inr vars
     \<and> gget vars ''A'' = Some ''2''"
proof -
  let ?h = "example_host\<lparr>h_read := (\<lambda>_. Some (''A=1'' @ [CHR 0x0A] @ ''A=2''))\<rparr>"
  have "\<not> isl (parseEnvFile ?h ''f'')" by code_simp
  then obtain vars where v: "parseEnvFile ?h ''f'' = Inr vars" by (cases "parseEnvFile ?h ''f''") auto
  have "gget vars ''A'' = map_of (rev (List.map_filter env_line (scan_lines (''A=1'' @ [CHR 0x0A] @ ''A=2'')))) ''A''"
    using env_file_last_assignment_wins [of ?h "''f''" "''A=1'' @ [CHR 0x0A] @ ''A=2''" vars "''A''"] v by simp
  moreover have "map_of (rev (List.map_filter env_line (scan_lines (''A=1'' @ [CHR 0x0A] @ ''A=2'')))) ''A''
      = Some ''2''" by code_simp
  ultimately show ?thesis using v by auto
qed

lemma not_space_char: "c \<in> {CHR 0x22, CHR 0x27} \<Longrightarrow> \<not> ends_with_space (s @ [c])"
  by (auto simp: ends_with_space_def HasSuffix_def space_runes_def)

lemma not_starts_append: "s \<noteq> [] \<Longrightarrow> list_all (\<lambda>c. is_alnum c \<or> c = CHR ''_'') s \<Longrightarrow> \<not> starts_with_space (s @ t)"
  by (cases s) (auto simp: starts_with_space_def space_runes_def is_alnum_def)

lemma not_ends_alnum: "s \<noteq> [] \<Longrightarrow> list_all (\<lambda>c. is_alnum c \<or> c = CHR ''_'') s \<Longrightarrow> \<not> ends_with_space s"
  by (cases s rule: rev_cases) (auto simp: ends_with_space_def HasSuffix_def space_runes_def is_alnum_def)

text \<open>
  A quoted value round-trips: an assignment \<^verbatim>\<open>KEY="value"\<close> or \<^verbatim>\<open>KEY='value'\<close> yields the value
  between the quotes unchanged, spaces at its ends and inner quotes or equals signs included.
\<close>

theorem env_line_quoted:
  assumes "key \<noteq> []" and "list_all (\<lambda>c. is_alnum c \<or> c = CHR ''_'') key" and "q \<in> {CHR 0x22, CHR 0x27}"
  shows "env_line (key @ ''='' @ [q] @ val @ [q]) = Some (key, val)"
proof -
  let ?line = "key @ CHR ''='' # q # val @ [q]"
  have eq: "CHR ''='' \<notin> set key" using assms(2) by (auto simp: list_all_iff is_alnum_def)
  have line: "TrimSpace ?line = ?line"
    using not_starts_append [OF assms(1,2)] not_space_char [OF assms(3), of "key @ CHR ''='' # q # val"]
    by (intro TrimSpace_id) auto
  have key: "TrimSpace key = key"
    using not_starts_append [OF assms(1,2), of "[]"] not_ends_alnum [OF assms(1,2)] by (intro TrimSpace_id) auto
  have "\<not> starts_with_space (q # val @ [q])" using assms(3) by (auto simp: starts_with_space_def space_runes_def)
  then have v: "TrimSpace (q # val @ [q]) = q # val @ [q]"
    using not_space_char [OF assms(3), of "q # val"] by (intro TrimSpace_id) auto
  have "\<not> HasPrefix ?line ''#''" using assms(1,2) by (cases key) (auto simp: is_alnum_def)
  with line key v eq assms(3) show ?thesis by (auto simp: env_line_def Let_def unquote_def)
qed

theorem env_line_quoted_witness:
  "env_line (''TOKEN'' @ ''='' @ [CHR 0x22] @ '' a=b '' @ [CHR 0x22]) = Some (''TOKEN'', '' a=b '')"
  by (rule env_line_quoted) (simp_all add: is_alnum_def)

lemma normalizeResources_accepts:
  "(\<exists>out. normalizeResources i seen normalized rs = Inr out) \<longleftrightarrow>
     distinct rs \<and> set rs \<inter> set seen = {} \<and> (\<forall>r \<in> set rs. label_ok (TrimSpace r))"
  by (induction i seen normalized rs rule: normalizeResources.induct) (auto simp: Let_def)

text \<open>
  Resource labels: a list is accepted exactly when no label is repeated literally and every
  trimmed label is acceptable; the result holds the trimmed labels, each once.
\<close>

theorem resources_normalised:
  "((\<exists>out. normalizeResources 0 [] [] rs = Inr out) \<longleftrightarrow>
      distinct rs \<and> (\<forall>r \<in> set rs. label_ok (TrimSpace r)))
   \<and> (normalizeResources 0 [] [] rs = Inr out \<longrightarrow> resources_ok out \<and> set out = TrimSpace ` set rs)"
  using normalizeResources_accepts [of 0 "[]" "[]" rs] normalizeResources_ok [of 0 "[]" "[]" rs out]
  by auto

theorem resources_normalised_witness:
  "normalizeResources 0 [] [] ['' gpu '', ''gpu'', ''db''] = Inr [''gpu'', ''db''] \<and> resources_ok [''gpu'', ''db'']"
proof -
  have "normalizeResources 0 [] [] ['' gpu '', ''gpu'', ''db''] = Inr [''gpu'', ''db'']" by code_simp
  with resources_normalised [of "['' gpu '', ''gpu'', ''db'']" "[''gpu'', ''db'']"] show ?thesis by blast
qed

end
