(* ===== verification/Session_Lease.thy ===== *)
theory Session_Lease
  imports Config_Load "HOL-Library.Word"
begin

unbundle bit_operations_syntax

text \<open>
  The leases and listeners of a session (\<^verbatim>\<open>internal/session/session.go\<close>): lock files named by the
  FNV-1a hash of a label, ports bound on the loopback address, \<^verbatim>\<open>allocate\<close>, \<^verbatim>\<open>hold\<close>, \<^verbatim>\<open>ReleasePorts\<close> and
  \<^verbatim>\<open>Close\<close>. The operating system is a state: the lock files some owner has locked (a second lock of one
  file fails, also within one session, as \<^verbatim>\<open>flock\<close> on another open file does) and the ports that cannot
  be bound. The main lemma is an ownership invariant: what a plan added to that state is exactly its
  leases and held ports, so closing it restores the state it started from.
\<close>

section \<open>Lock files\<close>

definition fnv64a :: "string \<Rightarrow> 64 word" where
  "fnv64a s = foldl (\<lambda>h c. (h XOR of_nat (of_char c)) * 1099511628211) 14695981039346656037 s"

definition hex_digit :: "nat \<Rightarrow> char" where
  "hex_digit d = (if d < 10 then char_of (48 + d) else char_of (87 + d))"

text \<open>\<^verbatim>\<open>%016x\<close>: sixteen lower-case hexadecimal digits.\<close>

definition hex16 :: "64 word \<Rightarrow> string" where
  "hex16 w = map (\<lambda>i. hex_digit (unat (drop_bit (4 * i) w AND 15))) (rev [0..<16])"

definition leasePath :: "string \<Rightarrow> string \<Rightarrow> string" where
  "leasePath leaseDir label = filepath_Join leaseDir (hex16 (fnv64a label) @ ''.lock'')"

section \<open>State\<close>

record os_world =
  ow_leaseDir :: string
  ow_files_ok :: bool
  ow_locks :: "string set"
  ow_bound :: "int set"
  ow_pick :: "int set \<Rightarrow> int option"

record Project =
  pj_Session :: string
  pj_RunID :: string
  pj_ConfigPath :: string
  pj_Directory :: string
  pj_Ports :: "int gomap gomap"
  pj_URLs :: "string gomap gomap"
  pj_Resources :: "string list"
  pj_Teardown :: "string list"

text \<open>\<open>pl_held\<close> lists the ports whose listener is open; a listener is its port.\<close>

record SessionPlan =
  pl_Project :: Project
  pl_Config :: "Config option"
  pl_leases :: "string list"
  pl_variables :: "string gomap"
  pl_preferred :: "int gomap gomap"
  pl_resources :: "string list"
  pl_names :: "string list"
  pl_mergePort :: int
  pl_held :: "int list"
  pl_uses :: "int list gomap"

record LeaseError =
  le_Label :: string
  le_Bound :: bool

datatype session_error =
    ErrSelector selector_error
  | ErrOS
  | ErrLease LeaseError
  | ErrAlreadyHeld int
  | ErrNoPort int
  | ErrUnresolved string
  | ErrMergePort int session_error
  | ErrPort string string session_error
  | ErrResourcesChanged
  | ErrMergePortChanged
  | ErrPortsChanged string
  | ErrField string string session_error

type_synonym sess = "SessionPlan \<times> os_world"

text \<open>An operation on a plan: an optional error and the state after it.\<close>

type_synonym sess_op = "sess \<Rightarrow> session_error option \<times> sess"

text \<open>Statements in sequence: the first error ends the function.\<close>

definition and_then :: "sess_op \<Rightarrow> sess_op \<Rightarrow> sess_op" where
  "and_then f g st = (case f st of (Some e, st') \<Rightarrow> (Some e, st') | (None, st') \<Rightarrow> g st')"

fun each :: "('x \<Rightarrow> sess_op) \<Rightarrow> 'x list \<Rightarrow> sess_op" where
  "each f [] st = (None, st)"
| "each f (x # xs) st = and_then (f x) (each f xs) st"

section \<open>Operations\<close>

definition Instance :: "LeaseError \<Rightarrow> bool" where
  "Instance e = HasPrefix (le_Label e) ''instance:''"

definition acquireLease :: "string \<Rightarrow> os_world \<Rightarrow> (session_error + string) \<times> os_world" where
  "acquireLease label w =
     (let path = leasePath (ow_leaseDir w) label
      in if \<not> ow_files_ok w then (Inl ErrOS, w)
         else if path \<in> ow_locks w then (Inl (ErrLease \<lparr>le_Label = label, le_Bound = False\<rparr>), w)
         else (Inr path, w\<lparr>ow_locks := insert path (ow_locks w)\<rparr>))"

definition lease :: "string \<Rightarrow> sess_op" where
  "lease label st = (case st of (p, w) \<Rightarrow>
     (case acquireLease label w of
        (Inl e, w') \<Rightarrow> (Some e, (p, w'))
      | (Inr file, w') \<Rightarrow> (None, (p\<lparr>pl_leases := pl_leases p @ [file]\<rparr>, w'))))"

definition LeaseInstance :: "string \<Rightarrow> os_world \<Rightarrow> (session_error + string) \<times> os_world" where
  "LeaseInstance hash w = acquireLease (''instance:'' @ hash) w"

definition unlock :: "string \<Rightarrow> os_world \<Rightarrow> os_world" where
  "unlock file w = w\<lparr>ow_locks := ow_locks w - {file}\<rparr>"

text \<open>\<open>exists\<close> says whether the lock file is there; a free lease is taken and released at once.\<close>

definition InstanceHeld :: "bool \<Rightarrow> string \<Rightarrow> os_world \<Rightarrow> (session_error + bool) \<times> os_world" where
  "InstanceHeld exists hash w =
     (let path = leasePath (ow_leaseDir w) (''instance:'' @ hash)
      in if \<not> exists then (Inr False, w)
         else if \<not> ow_files_ok w then (Inl ErrOS, w)
         else if path \<in> ow_locks w then (Inr True, w)
         else (Inr False, unlock path (w\<lparr>ow_locks := insert path (ow_locks w)\<rparr>)))"

text \<open>\<^verbatim>\<open>net.Listen\<close> on the loopback address; port 0 asks the kernel for a free one.\<close>

definition listen :: "int \<Rightarrow> os_world \<Rightarrow> (int \<times> os_world) option" where
  "listen port w =
     (if port < 0 \<or> port > 65535 then None
      else case (if port = 0 then ow_pick w (ow_bound w) else Some port) of
             None \<Rightarrow> None
           | Some q \<Rightarrow> if q \<in> ow_bound w then None
                       else Some (q, w\<lparr>ow_bound := insert q (ow_bound w)\<rparr>))"

definition close_listener :: "int \<Rightarrow> os_world \<Rightarrow> os_world" where
  "close_listener port w = w\<lparr>ow_bound := ow_bound w - {port}\<rparr>"

definition tcp_label :: "int \<Rightarrow> string" where
  "tcp_label port = ''tcp:127.0.0.1:'' @ Itoa port"

text \<open>The loop of \<^verbatim>\<open>allocate\<close>; \<open>n\<close> counts the attempts left.\<close>

fun try_ports :: "nat \<Rightarrow> int \<Rightarrow> int \<Rightarrow> sess \<Rightarrow> int option \<times> sess" where
  "try_ports 0 attempt preferred st = (None, st)"
| "try_ports (Suc n) attempt preferred (p, w) =
     (let candidate = (if preferred \<noteq> 0 then preferred + attempt else preferred)
      in if preferred \<noteq> 0 \<and> candidate > 65535 then (None, (p, w))
         else case listen candidate w of
           None \<Rightarrow> try_ports n (attempt + 1) preferred (p, w)
         | Some (port, w1) \<Rightarrow>
             (case lease (tcp_label port) (p, w1) of
                (Some _, (p2, w2)) \<Rightarrow>
                   try_ports n (attempt + 1) preferred (p2, close_listener port w2)
              | (None, (p2, w2)) \<Rightarrow> (Some port, (p2\<lparr>pl_held := port # pl_held p2\<rparr>, w2))))"

definition allocate :: "int \<Rightarrow> sess \<Rightarrow> (session_error + int) \<times> sess" where
  "allocate preferred st =
     (case try_ports 128 0 preferred st of
        (None, st') \<Rightarrow> (Inl (ErrNoPort preferred), st')
      | (Some port, st') \<Rightarrow> (Inr port, st'))"

definition hold :: "int \<Rightarrow> sess_op" where
  "hold port st = (case st of (p, w) \<Rightarrow>
     if port \<in> set (pl_held p) then (Some (ErrAlreadyHeld port), st)
     else case lease (tcp_label port) (p, w) of
            (Some e, st') \<Rightarrow> (Some e, st')
          | (None, (p1, w1)) \<Rightarrow>
              (case listen port w1 of
                 None \<Rightarrow> (Some (ErrLease \<lparr>le_Label = tcp_label port, le_Bound = True\<rparr>), (p1, w1))
               | Some (q, w2) \<Rightarrow> (None, (p1\<lparr>pl_held := port # pl_held p1\<rparr>, w2))))"

definition release_port :: "int \<Rightarrow> sess \<Rightarrow> sess" where
  "release_port port st = (case st of (p, w) \<Rightarrow>
     if port \<in> set (pl_held p)
     then (p\<lparr>pl_held := removeAll port (pl_held p)\<rparr>, close_listener port w) else st)"

definition ReleasePorts :: "string \<Rightarrow> sess \<Rightarrow> sess" where
  "ReleasePorts name st =
     fold release_port (case gget (pl_uses (fst st)) name of Some ports \<Rightarrow> ports | None \<Rightarrow> []) st"

text \<open>\<^verbatim>\<open>Close\<close>: the held ports, then the leases from the last to the first.\<close>

definition Close :: "sess \<Rightarrow> sess" where
  "Close st =
     (case fold release_port (pl_held (fst st)) st of (p, w) \<Rightarrow>
        (p\<lparr>pl_leases := []\<rparr>, fold unlock (rev (pl_leases p)) w))"

section \<open>Invariants of a plan\<close>

text \<open>
  What an invariant of plan and system has to keep under the elementary steps, so that every
  operation built from them keeps it.
\<close>

locale plan_invariant =
  fixes I :: "sess \<Rightarrow> bool"
  assumes lease_keeps: "I st \<Longrightarrow> I (snd (lease label st))"
    and bind_keeps: "I (p, w) \<Longrightarrow> listen c w = Some (q, w1) \<Longrightarrow>
      lease (tcp_label q) (p, w1) = (None, (p2, w2)) \<Longrightarrow> I (p2\<lparr>pl_held := q # pl_held p2\<rparr>, w2)"
    and unbind_keeps: "I (p, w) \<Longrightarrow> listen c w = Some (q, w1) \<Longrightarrow>
      lease (tcp_label q) (p, w1) = (Some e, (p2, w2)) \<Longrightarrow> I (p2, close_listener q w2)"
    and hold_keeps: "I (p, w) \<Longrightarrow> lease (tcp_label q) (p, w) = (None, (p1, w1)) \<Longrightarrow>
      listen q w1 = Some (q, w2) \<Longrightarrow> I (p1\<lparr>pl_held := q # pl_held p1\<rparr>, w2)"
    and release_keeps: "I st \<Longrightarrow> I (release_port q st)"
begin

lemma try_ports_keeps: "I st \<Longrightarrow> I (snd (try_ports n attempt preferred st))"
proof (induction n attempt preferred st rule: try_ports.induct)
  case (2 n attempt preferred p w)
  let ?c = "if preferred \<noteq> 0 then preferred + attempt else preferred"
  show ?case
  proof (cases "preferred \<noteq> 0 \<and> ?c > 65535")
    case False
    note outer = False
    show ?thesis
    proof (cases "listen ?c w")
      case None
      with 2 outer show ?thesis by (simp add: Let_def)
    next
      case (Some r)
      obtain q w1 where r: "r = (q, w1)" by (cases r)
      obtain res p2 w2 where l: "lease (tcp_label q) (p, w1) = (res, (p2, w2))" by (metis prod.exhaust)
      note I' = bind_keeps [OF "2.prems" Some [unfolded r]] unbind_keeps [OF "2.prems" Some [unfolded r]]
      from 2 outer Some r l I' show ?thesis by (cases res) (auto simp: Let_def)
    qed
  next
    case True
    then have "preferred \<noteq> 0" "preferred + attempt > 65535" by (auto split: if_splits)
    then have "try_ports (Suc n) attempt preferred (p, w) = (None, (p, w))" by (simp add: Let_def)
    with "2.prems" show ?thesis by simp
  qed
qed simp

lemma allocate_keeps: "I st \<Longrightarrow> I (snd (allocate preferred st))"
  using try_ports_keeps [of st 128 0 preferred] by (auto simp: allocate_def split: prod.splits option.splits)

lemma hold_op_keeps:
  assumes "I st" and "0 < port"
  shows "I (snd (hold port st))"
proof -
  obtain p w where st: "st = (p, w)" by (cases st)
  obtain res p1 w1 where l: "lease (tcp_label port) (p, w) = (res, (p1, w1))" by (metis prod.exhaust)
  have "q = port" if "listen port w1 = Some (q, w2)" for q w2
    using that assms(2) by (auto simp: listen_def split: if_splits)
  with assms(1) st l lease_keeps [of "(p, w)" "tcp_label port"] hold_keeps [of p w port p1 w1] show ?thesis
    by (auto simp: hold_def split: option.splits)
qed

lemma ReleasePorts_keeps: "I st \<Longrightarrow> I (ReleasePorts name st)"
proof -
  have "I st \<Longrightarrow> I (fold release_port ports st)" for ports
  proof (induction ports arbitrary: st)
    case (Cons q ports)
    from Cons.IH [OF release_keeps [OF Cons.prems, of q]] show ?case by simp
  qed simp
  then show "I st \<Longrightarrow> ?thesis" by (simp add: ReleasePorts_def)
qed

lemma and_then_keeps:
  "I st \<Longrightarrow> (\<And>s. I s \<Longrightarrow> I (snd (f s))) \<Longrightarrow> (\<And>s. I s \<Longrightarrow> I (snd (g s))) \<Longrightarrow> I (snd (and_then f g st))"
proof -
  assume st: "I st" and f: "\<And>s. I s \<Longrightarrow> I (snd (f s))" and g: "\<And>s. I s \<Longrightarrow> I (snd (g s))"
  obtain res s where r: "f st = (res, s)" by (cases "f st")
  with f [OF st] g [of s] show ?thesis by (cases res) (simp_all add: and_then_def)
qed

lemma each_keeps:
  "I st \<Longrightarrow> (\<And>x s. x \<in> set xs \<Longrightarrow> I s \<Longrightarrow> I (snd (f x s))) \<Longrightarrow> I (snd (each f xs st))"
  by (induction xs arbitrary: st) (auto intro!: and_then_keeps)

end

text \<open>Ownership: the plan holds exactly what it added to the system.\<close>

definition same_host :: "os_world \<Rightarrow> os_world \<Rightarrow> bool" where
  "same_host w0 w = (ow_leaseDir w = ow_leaseDir w0 \<and> ow_files_ok w = ow_files_ok w0 \<and> ow_pick w = ow_pick w0)"

fun owns :: "os_world \<Rightarrow> sess \<Rightarrow> bool" where
  "owns w0 (p, w) = (distinct (pl_leases p) \<and> distinct (pl_held p)
     \<and> set (pl_leases p) \<inter> ow_locks w0 = {} \<and> set (pl_held p) \<inter> ow_bound w0 = {}
     \<and> ow_locks w = ow_locks w0 \<union> set (pl_leases p) \<and> ow_bound w = ow_bound w0 \<union> set (pl_held p)
     \<and> same_host w0 w)"

lemma lease_cases:
  assumes "lease label (p, w) = (res, (p', w'))"
  obtains "res = None" "leasePath (ow_leaseDir w) label \<notin> ow_locks w"
      "p' = p\<lparr>pl_leases := pl_leases p @ [leasePath (ow_leaseDir w) label]\<rparr>"
      "w' = w\<lparr>ow_locks := insert (leasePath (ow_leaseDir w) label) (ow_locks w)\<rparr>"
  | e where "res = Some e" "p' = p" "w' = w"
proof (cases "ow_files_ok w \<and> leasePath (ow_leaseDir w) label \<notin> ow_locks w")
  case True
  with assms show ?thesis by (intro that(1)) (auto simp: lease_def acquireLease_def Let_def)
next
  case False
  then have "\<exists>e. res = Some e" "p' = p" "w' = w"
    using assms by (auto simp: lease_def acquireLease_def Let_def split: if_splits)
  then show ?thesis using that(2) by blast
qed

lemma listen_cases:
  assumes "listen port w = Some (q, w')"
  shows "q \<notin> ow_bound w" "w' = w\<lparr>ow_bound := insert q (ow_bound w)\<rparr>" "port \<noteq> 0 \<Longrightarrow> q = port" "port \<le> 65535" "0 \<le> port"
  using assms by (auto simp: listen_def split: if_splits option.splits)

lemma owns_lease: "owns w0 st \<Longrightarrow> owns w0 (snd (lease label st))"
proof -
  assume o: "owns w0 st"
  obtain p w where st: "st = (p, w)" by (cases st)
  obtain res p1 w1 where l: "lease label (p, w) = (res, (p1, w1))" by (metis prod.exhaust)
  from l show ?thesis
  proof (cases rule: lease_cases)
    case 1
    with o l st show ?thesis by (simp add: same_host_def)
  next
    case (2 e)
    with o l st show ?thesis by simp
  qed
qed

lemma owns_bind:
  assumes "owns w0 (p, w)" and "listen c w = Some (q, w1)"
    and "lease (tcp_label q) (p, w1) = (None, (p2, w2))"
  shows "owns w0 (p2\<lparr>pl_held := q # pl_held p2\<rparr>, w2)"
  using assms(3)
proof (cases rule: lease_cases)
  case 1
  with assms(1) listen_cases(1,2) [OF assms(2)] show ?thesis by (simp add: same_host_def)
qed simp

lemma owns_unbind:
  assumes "owns w0 (p, w)" and "listen c w = Some (q, w1)"
    and "lease (tcp_label q) (p, w1) = (Some e, (p2, w2))"
  shows "owns w0 (p2, close_listener q w2)"
proof -
  have "p2 = p" "w2 = w1" by (rule lease_cases [OF assms(3)], auto)+
  moreover have "close_listener q w1 = w" using listen_cases(1,2) [OF assms(2)] by (simp add: close_listener_def)
  ultimately show ?thesis using assms(1) by simp
qed

lemma owns_hold:
  assumes "owns w0 (p, w)" and "lease (tcp_label q) (p, w) = (None, (p1, w1))" and "listen q w1 = Some (q, w2)"
  shows "owns w0 (p1\<lparr>pl_held := q # pl_held p1\<rparr>, w2)"
  using assms(2)
proof (cases rule: lease_cases)
  case 1
  with assms(1) listen_cases(1,2) [OF assms(3)] show ?thesis by (simp add: same_host_def)
qed simp

lemma owns_release: "owns w0 st \<Longrightarrow> owns w0 (release_port q st)"
  by (cases st) (auto simp: release_port_def close_listener_def same_host_def distinct_removeAll)

interpretation own: plan_invariant "owns w0" for w0
  by unfold_locales (fact owns_lease owns_bind owns_unbind owns_hold owns_release)+

text \<open>Every port that is held is also leased, and is a port number.\<close>

fun held_leased :: "sess \<Rightarrow> bool" where
  "held_leased (p, w) = (\<forall>q \<in> set (pl_held p). q \<le> 65535
     \<and> leasePath (ow_leaseDir w) (tcp_label q) \<in> set (pl_leases p))"

lemma held_leased_lease: "held_leased st \<Longrightarrow> held_leased (snd (lease label st))"
proof -
  assume o: "held_leased st"
  obtain p w where st: "st = (p, w)" by (cases st)
  obtain res p1 w1 where l: "lease label (p, w) = (res, (p1, w1))" by (metis prod.exhaust)
  from l show ?thesis by (cases rule: lease_cases) (use o l st in auto)
qed

text \<open>The kernel picks a port number.\<close>

definition pick_ok :: "os_world \<Rightarrow> bool" where
  "pick_ok w = (\<forall>S q. ow_pick w S = Some q \<longrightarrow> 0 < q \<and> q \<le> 65535 \<and> q \<notin> S)"

fun ports_leased :: "sess \<Rightarrow> bool" where
  "ports_leased (p, w) = (pick_ok w \<and> held_leased (p, w))"

lemma listen_range: "listen c w = Some (q, w1) \<Longrightarrow> pick_ok w \<Longrightarrow> q \<le> 65535 \<and> 0 < q"
  by (auto simp: listen_def pick_ok_def split: if_splits option.splits)

lemma ports_leased_lease: "ports_leased st \<Longrightarrow> ports_leased (snd (lease label st))"
proof -
  assume o: "ports_leased st"
  obtain p w where st: "st = (p, w)" by (cases st)
  obtain res p1 w1 where l: "lease label (p, w) = (res, (p1, w1))" by (metis prod.exhaust)
  from l show ?thesis by (cases rule: lease_cases) (use o l st in \<open>auto simp: pick_ok_def\<close>)
qed

lemma ports_leased_bind:
  assumes "ports_leased (p, w)" and "listen c w = Some (q, w1)"
    and "lease (tcp_label q) (p, w1) = (None, (p2, w2))"
  shows "ports_leased (p2\<lparr>pl_held := q # pl_held p2\<rparr>, w2)"
proof -
  have "q \<le> 65535" "pick_ok w" using assms listen_range by auto
  with assms(3) show ?thesis
    by (cases rule: lease_cases) (use assms(1) listen_cases(2) [OF assms(2)] in \<open>auto simp: pick_ok_def\<close>)
qed

lemma ports_leased_unbind:
  assumes "ports_leased (p, w)" and "listen c w = Some (q, w1)"
    and "lease (tcp_label q) (p, w1) = (Some e, (p2, w2))"
  shows "ports_leased (p2, close_listener q w2)"
  using assms(3) by (cases rule: lease_cases)
    (use assms(1) listen_cases(2) [OF assms(2)] in \<open>auto simp: pick_ok_def close_listener_def\<close>)

lemma ports_leased_hold:
  assumes "ports_leased (p, w)" and "lease (tcp_label q) (p, w) = (None, (p1, w1))" and "listen q w1 = Some (q, w2)"
  shows "ports_leased (p1\<lparr>pl_held := q # pl_held p1\<rparr>, w2)"
  using assms(2) by (cases rule: lease_cases)
    (use assms(1) listen_cases(2,4) [OF assms(3)] in \<open>auto simp: pick_ok_def\<close>)

lemma ports_leased_release: "ports_leased st \<Longrightarrow> ports_leased (release_port q st)"
  by (cases st) (auto simp: release_port_def close_listener_def pick_ok_def)

interpretation pll: plan_invariant ports_leased
  by unfold_locales
    (fact ports_leased_lease ports_leased_bind ports_leased_unbind ports_leased_hold ports_leased_release)+

section \<open>Close\<close>

lemma release_all:
  assumes "owns w0 (p, w)"
  shows "fold release_port ports (p, w) =
    (p\<lparr>pl_held := filter (\<lambda>q. q \<notin> set ports) (pl_held p)\<rparr>,
     w\<lparr>ow_bound := ow_bound w - (set ports \<inter> set (pl_held p))\<rparr>)"
  using assms
proof (induction ports arbitrary: p w)
  case (Cons q ports)
  obtain p1 w1 where r: "release_port q (p, w) = (p1, w1)" by (cases "release_port q (p, w)")
  have o: "owns w0 (p1, w1)" using own.release_keeps [OF Cons.prems, of q] r by simp
  have "p1 = p\<lparr>pl_held := removeAll q (pl_held p)\<rparr>"
      "w1 = w\<lparr>ow_bound := ow_bound w - ({q} \<inter> set (pl_held p))\<rparr>"
    using r by (auto simp: release_port_def close_listener_def split: if_splits)
  moreover have "filter (\<lambda>x. x \<notin> set ports) (removeAll q (pl_held p))
      = filter (\<lambda>x. x \<notin> set (q # ports)) (pl_held p)"
    unfolding removeAll_filter_not_eq filter_filter by (rule filter_cong) auto
  moreover have "ow_bound w - ({q} \<inter> set (pl_held p)) - (set ports \<inter> set (removeAll q (pl_held p)))
      = ow_bound w - (set (q # ports) \<inter> set (pl_held p))" by auto
  ultimately show ?case using Cons.IH [OF o] r by simp
qed simp

lemma unlock_all: "fold unlock files w = w\<lparr>ow_locks := ow_locks w - set files\<rparr>"
proof (induction files arbitrary: w)
  case (Cons f files)
  have "ow_locks w - {f} - set files = ow_locks w - set (f # files)" by auto
  with Cons.IH [of "unlock f w"] show ?case by (simp add: unlock_def)
qed simp

lemma Close_restores:
  assumes "owns w0 (p, w)"
  shows "Close (p, w) = (p\<lparr>pl_held := [], pl_leases := []\<rparr>, w0)"
proof -
  have "filter (\<lambda>q. q \<notin> set (pl_held p)) (pl_held p) = []" by simp
  moreover have "w\<lparr>ow_bound := ow_bound w - set (pl_held p), ow_locks := ow_locks w - set (pl_leases p)\<rparr> = w0"
    using assms by (intro os_world.equality) (auto simp: same_host_def)
  ultimately show ?thesis
    unfolding Close_def by (simp add: release_all [OF assms] unlock_all)
qed

end
