(* ===== verification/Session_Plan.thy ===== *)
theory Session_Plan
  imports Session_Lease
begin

text \<open>
  Session plans (\<^verbatim>\<open>internal/session/session.go\<close>): expanding references, \<^verbatim>\<open>Resolve\<close>, which rewrites a
  config for the endpoints a session owns, and \<^verbatim>\<open>Acquire\<close>, which leases the session identity, the
  resources and the ports, and closes everything again when a step fails. The run id, the session
  directory and whether that directory can be created are arguments.
\<close>

section \<open>References\<close>

definition ref_text :: "string \<Rightarrow> string" where
  "ref_text name = ''${'' @ name @ ''}''"

definition expand_namespaces :: "string list" where
  "expand_namespaces = [''ports.'', ''urls.'', ''session.'', ''config.'']"

definition expand :: "SessionPlan \<Rightarrow> string \<Rightarrow> session_error + string" where
  "expand p value =
     (let v = fold (\<lambda>(name, replacement) v. ReplaceAll v (ref_text name) replacement) (pl_variables p) value
      in case find (\<lambda>namespace. Contains v (''${'' @ namespace)) expand_namespaces of
           Some namespace \<Rightarrow> Inl (ErrUnresolved (butlast namespace))
         | None \<Rightarrow> Inr v)"

definition referencedPorts :: "SessionPlan \<Rightarrow> string \<Rightarrow> int list" where
  "referencedPorts p value =
     concat (map (\<lambda>(process, named). List.map_filter (\<lambda>(portName, port).
         let ref = process @ ''.'' @ portName @ ''}''
         in if Contains value (''${ports.'' @ ref) \<or> Contains value (''${urls.'' @ ref)
            then Some port else None) named) (pj_Ports (pl_Project p)))"

definition sameResources :: "string list \<Rightarrow> string list \<Rightarrow> bool" where
  "sameResources a b = (sort a = sort b)"

definition resourceIdentity :: "string \<Rightarrow> string" where
  "resourceIdentity label = (if IsAbs label then Clean label else label)"

fun expand_all :: "SessionPlan \<Rightarrow> string list \<Rightarrow> session_error + string list" where
  "expand_all p [] = Inr []"
| "expand_all p (v # vs) =
     (case expand p v of
        Inl e \<Rightarrow> Inl e
      | Inr v' \<Rightarrow> (case expand_all p vs of Inl e \<Rightarrow> Inl e | Inr vs' \<Rightarrow> Inr (v' # vs')))"

definition expandProbe :: "SessionPlan \<Rightarrow> ReadyWhen option \<Rightarrow> session_error + ReadyWhen option" where
  "expandProbe p probe =
     (case probe of
        None \<Rightarrow> Inr None
      | Some rw \<Rightarrow> (case expand_all p [rw_HTTP rw, rw_TCP rw, rw_Cmd rw] of
            Inl e \<Rightarrow> Inl e
          | Inr vs \<Rightarrow> Inr (Some (rw\<lparr>rw_HTTP := vs ! 0, rw_TCP := vs ! 1, rw_Cmd := vs ! 2\<rparr>))))"

definition probe_values :: "ReadyWhen option \<Rightarrow> string list" where
  "probe_values probe = (case probe of None \<Rightarrow> [] | Some rw \<Rightarrow> [rw_HTTP rw, rw_TCP rw, rw_Cmd rw])"

section \<open>Resolve\<close>

fun expand_env :: "SessionPlan \<Rightarrow> string \<Rightarrow> string gomap \<Rightarrow> session_error + string gomap" where
  "expand_env p name [] = Inr []"
| "expand_env p name ((key, value) # env) =
     (case expand p value of
        Inl e \<Rightarrow> Inl (ErrField name (''env '' @ key) e)
      | Inr v \<Rightarrow> (case expand_env p name env of Inl e \<Rightarrow> Inl e | Inr env' \<Rightarrow> Inr ((key, v) # env')))"

definition session_env :: "SessionPlan \<Rightarrow> string \<Rightarrow> string gomap \<Rightarrow> string gomap" where
  "session_env p name env =
     (let env1 = (case Option.bind (gget (pj_Ports (pl_Project p)) name) (\<lambda>named. gget named ''http'') of
            Some port \<Rightarrow> if ghas env ''PORT'' then env else gput ''PORT'' (Itoa port) env
          | None \<Rightarrow> env)
      in gput ''PROC_COMPOSE_RUN_ID'' (pj_RunID (pl_Project p))
           (gput ''PROC_COMPOSE_SESSION_DIR'' (pj_Directory (pl_Project p))
             (gput ''PROC_COMPOSE_SESSION'' (the_default [] (gget (pl_variables p) ''session.name'')) env1)))"

definition session_dir :: "SessionPlan \<Rightarrow> string \<Rightarrow> string" where
  "session_dir p dir =
     (let base = filepath_Dir (pj_ConfigPath (pl_Project p));
          dir1 = (if dir = [] \<and> pj_Session (pl_Project p) \<noteq> [] then base else dir)
      in if dir1 \<noteq> [] \<and> \<not> IsAbs dir1 then filepath_Join base dir1 else dir1)"

definition process_uses :: "SessionPlan \<Rightarrow> string \<Rightarrow> Process \<Rightarrow> int list" where
  "process_uses p name proc =
     map snd (the_default [] (gget (pj_Ports (pl_Project p)) name))
     @ (if name = MergePortProcessName \<and> pl_mergePort p \<noteq> 0 then [pl_mergePort p] else [])
     @ concat (map (referencedPorts p) (p_Cmd proc # map snd (p_Env proc) @ [p_Dir proc]
          @ probe_values (p_ReadyWhen proc) @ probe_values (p_HealthWhen proc)))"

definition resolveProcess :: "SessionPlan \<Rightarrow> string \<Rightarrow> Process \<Rightarrow> session_error + Process" where
  "resolveProcess p name proc =
     (case expand p (p_Cmd proc) of
        Inl e \<Rightarrow> Inl (ErrField name ''cmd'' e)
      | Inr cmd \<Rightarrow>
     (case expand_env p name (p_Env proc) of
        Inl e \<Rightarrow> Inl e
      | Inr env \<Rightarrow>
     (case expand p (p_Dir proc) of
        Inl e \<Rightarrow> Inl (ErrField name ''dir'' e)
      | Inr dir \<Rightarrow>
     (case expandProbe p (p_ReadyWhen proc) of
        Inl e \<Rightarrow> Inl (ErrField name ''probe'' e)
      | Inr ready \<Rightarrow>
     (case expandProbe p (p_HealthWhen proc) of
        Inl e \<Rightarrow> Inl (ErrField name ''health_when'' e)
      | Inr health \<Rightarrow>
          Inr (proc\<lparr>p_Cmd := cmd, p_Env := session_env p name env, p_Dir := session_dir p dir,
                    p_ReadyWhen := ready, p_HealthWhen := health\<rparr>))))))"

text \<open>\<^verbatim>\<open>maps.Equal\<close>.\<close>

definition gomap_equal :: "'v gomap \<Rightarrow> 'v gomap \<Rightarrow> bool" where
  "gomap_equal a b = (list_all (\<lambda>k. gget a k = gget b k) (gokeys a @ gokeys b))"

fun resolve_loop ::
  "SessionPlan \<Rightarrow> Config \<Rightarrow> string list \<Rightarrow> Process gomap \<Rightarrow> int list gomap \<Rightarrow>
   session_error + (Process gomap \<times> int list gomap)" where
  "resolve_loop p cfg [] result uses = Inr (result, uses)"
| "resolve_loop p cfg (name # names) result uses =
     (case gget (c_Processes cfg) name of
        None \<Rightarrow> resolve_loop p cfg names result uses
      | Some proc \<Rightarrow>
          if \<not> gomap_equal (p_Ports proc) (the_default [] (gget (pl_preferred p) name))
          then Inl (ErrPortsChanged name)
          else (case resolveProcess p name proc of
                  Inl e \<Rightarrow> Inl e
                | Inr proc' \<Rightarrow> resolve_loop p cfg names (gput name proc' result)
                    (gput name (process_uses p name proc) uses)))"

definition merge_uses :: "int list gomap \<Rightarrow> int list gomap \<Rightarrow> int list gomap" where
  "merge_uses new old =
     fold (\<lambda>(name, used) acc.
       gput name (remdups_adj (sort (the_default [] (gget acc name) @ used))) acc) new old"

definition Resolve :: "SessionPlan \<Rightarrow> Config \<Rightarrow> session_error + (Config \<times> SessionPlan)" where
  "Resolve p cfg =
     (if \<not> sameResources (pl_resources p) (c_Resources cfg) then Inl ErrResourcesChanged
      else if pl_mergePort p \<noteq> 0
          \<and> (case c_Merge cfg of None \<Rightarrow> False | Some m \<Rightarrow> m_Port m \<noteq> pl_mergePort p)
      then Inl ErrMergePortChanged
      else case resolve_loop p cfg (pl_names p) (c_Processes cfg) [] of
             Inl e \<Rightarrow> Inl e
           | Inr (procs, uses) \<Rightarrow>
               Inr (cfg\<lparr>c_Processes := procs\<rparr>, p\<lparr>pl_uses := merge_uses uses (pl_uses p)\<rparr>))"

section \<open>Acquire\<close>

definition new_plan :: "Config \<Rightarrow> string \<Rightarrow> string \<Rightarrow> string \<Rightarrow> string \<Rightarrow> string list \<Rightarrow> SessionPlan" where
  "new_plan cfg configPath name runID sessionDir filt =
     \<lparr>pl_Project = \<lparr>pj_Session = name, pj_RunID = runID, pj_ConfigPath = configPath,
        pj_Directory = sessionDir, pj_Ports = [], pj_URLs = [], pj_Resources = [], pj_Teardown = []\<rparr>,
      pl_Config = None, pl_leases = [], pl_variables = [], pl_preferred = [],
      pl_resources = c_Resources cfg, pl_names = SelectedNames cfg filt @ TeardownNames cfg,
      pl_mergePort = 0, pl_held = [], pl_uses = []\<rparr>"

definition set_variables :: "Config \<Rightarrow> string \<Rightarrow> sess_op" where
  "set_variables cfg hash st = (case st of (p, w) \<Rightarrow>
     let pj = pl_Project p
     in (None, (p\<lparr>pl_Project := pj\<lparr>pj_Teardown := TeardownNames cfg\<rparr>,
          pl_variables := [(''session.name'', if pj_Session pj = [] then ''default'' else pj_Session pj),
            (''session.id'', hash), (''session.dir'', pj_Directory pj),
            (''config.dir'', filepath_Dir (pj_ConfigPath pj))]\<rparr>, w)))"

definition leaseResource :: "string \<Rightarrow> sess_op" where
  "leaseResource label st = (case st of (p, w) \<Rightarrow>
     (case expand p label of
        Inl e \<Rightarrow> (Some e, st)
      | Inr v \<Rightarrow>
          (let resolved = resourceIdentity v
           in if resolved \<in> set (pj_Resources (pl_Project p)) then (None, st)
              else (case lease (''resource:'' @ resolved) st of
                      (Some e, st') \<Rightarrow> (Some e, st')
                    | (None, (p', w')) \<Rightarrow>
                        (None, (p'\<lparr>pl_Project := (pl_Project p')\<lparr>pj_Resources :=
                           pj_Resources (pl_Project p') @ [resolved]\<rparr>\<rparr>, w'))))))"

definition holdMergePort :: "Config \<Rightarrow> sess_op" where
  "holdMergePort cfg st =
     (case c_Merge cfg of
        None \<Rightarrow> (None, st)
      | Some m \<Rightarrow>
          if m_Port m > 0 \<and> MergePortProcessName \<in> set (pl_names (fst st))
          then (case hold (m_Port m) st of
                  (Some e, st') \<Rightarrow> (Some (ErrMergePort (m_Port m) e), st')
                | (None, (p', w')) \<Rightarrow> (None, (p'\<lparr>pl_mergePort := m_Port m\<rparr>, w')))
          else (None, st))"

definition record_preferred :: "Config \<Rightarrow> sess_op" where
  "record_preferred cfg st = (case st of (p, w) \<Rightarrow>
     (None, (p\<lparr>pl_preferred := map (\<lambda>process. (process, p_Ports (proc_at (c_Processes cfg) process)))
        (pl_names p)\<rparr>, w)))"

type_synonym endpoint = "string \<times> string"

definition plan_endpoints :: "Config \<Rightarrow> string list \<Rightarrow> endpoint list" where
  "plan_endpoints cfg names =
     concat (map (\<lambda>process. map (Pair process)
       (SortedProcessNames (p_Ports (proc_at (c_Processes cfg) process)))) names)"

definition is_pinned :: "Config \<Rightarrow> endpoint \<Rightarrow> bool" where
  "is_pinned cfg e = (fst e @ ''.'' @ snd e \<in> set (MergeUpstreamPorts cfg))"

definition preferredPort :: "Config \<Rightarrow> endpoint \<Rightarrow> int" where
  "preferredPort cfg e = the_default 0 (gget (p_Ports (proc_at (c_Processes cfg) (fst e))) (snd e))"

definition record_port :: "endpoint \<Rightarrow> int \<Rightarrow> SessionPlan \<Rightarrow> SessionPlan" where
  "record_port e port p =
     (let pj = pl_Project p; url = ''http://127.0.0.1:'' @ Itoa port
      in p\<lparr>pl_Project := pj\<lparr>
             pj_Ports := gput (fst e) (gput (snd e) port (the_default [] (gget (pj_Ports pj) (fst e)))) (pj_Ports pj),
             pj_URLs := gput (fst e) (gput (snd e) url (the_default [] (gget (pj_URLs pj) (fst e)))) (pj_URLs pj)\<rparr>,
           pl_variables := gput (ref_name ''urls'' (fst e) (snd e)) url
             (gput (ref_name ''ports'' (fst e) (snd e)) (Itoa port) (pl_variables p))\<rparr>)"

definition assignPort :: "Config \<Rightarrow> endpoint \<Rightarrow> sess_op" where
  "assignPort cfg e st =
     (let preferred = preferredPort cfg e
      in case (if is_pinned cfg e
               then (case hold preferred st of
                       (Some err, st') \<Rightarrow> (Inl err, st') | (None, st') \<Rightarrow> (Inr preferred, st'))
               else allocate preferred st) of
           (Inl err, st') \<Rightarrow> (Some (ErrPort (fst e) (snd e) err), st')
         | (Inr port, (p', w')) \<Rightarrow> (None, (record_port e port p', w')))"

definition resolve_step :: "Config \<Rightarrow> sess_op" where
  "resolve_step cfg st = (case st of (p, w) \<Rightarrow>
     (case Resolve p cfg of
        Inl e \<Rightarrow> (Some e, st)
      | Inr (cfg', p') \<Rightarrow> (None, (p'\<lparr>pl_Config := Some cfg'\<rparr>, w))))"

definition acquire_body :: "bool \<Rightarrow> Config \<Rightarrow> string \<Rightarrow> string list \<Rightarrow> sess_op" where
  "acquire_body mkdir_ok cfg hash names =
     and_then (\<lambda>st. (if mkdir_ok then None else Some ErrOS, st))
    (and_then (lease (''instance:'' @ hash))
    (and_then (set_variables cfg hash)
    (and_then (each leaseResource (sort (c_Resources cfg)))
    (and_then (holdMergePort cfg)
    (and_then (record_preferred cfg)
    (and_then (let es = plan_endpoints cfg names
               in each (assignPort cfg) (filter (is_pinned cfg) es @ filter (\<lambda>e. \<not> is_pinned cfg e) es))
      (resolve_step cfg)))))))"

definition Acquire ::
  "bool \<Rightarrow> string \<Rightarrow> string \<Rightarrow> Config \<Rightarrow> string \<Rightarrow> string \<Rightarrow> string \<Rightarrow> string list \<Rightarrow> os_world \<Rightarrow>
   (session_error + SessionPlan) \<times> os_world" where
  "Acquire mkdir_ok runID sessionDir cfg configPath hash name filt w =
     (case first_some (map (CheckSelector cfg) filt) of
        Some e \<Rightarrow> (Inl (ErrSelector e), w)
      | None \<Rightarrow>
          (let p = new_plan cfg configPath name runID sessionDir filt
           in case acquire_body mkdir_ok cfg hash (pl_names p) (p, w) of
                (Some e, st) \<Rightarrow> (Inl e, snd (Close st))
              | (None, (p', w')) \<Rightarrow> (Inr p', w')))"

section \<open>Invariants through Acquire\<close>

definition pinned_positive :: "Config \<Rightarrow> bool" where
  "pinned_positive cfg = (\<forall>e. is_pinned cfg e \<longrightarrow> snd e \<in> set (gokeys (p_Ports (proc_at (c_Processes cfg) (fst e))))
     \<longrightarrow> 0 < preferredPort cfg e)"

lemma plan_endpoints_in:
  "e \<in> set (plan_endpoints cfg names) \<longleftrightarrow> fst e \<in> set names
     \<and> snd e \<in> set (gokeys (p_Ports (proc_at (c_Processes cfg) (fst e))))"
  by (cases e) (auto simp: plan_endpoints_def)

text \<open>An invariant that looks only at the leases and the held ports of a plan.\<close>

locale framed_invariant = plan_invariant +
  assumes frame: "I (p, w) \<Longrightarrow> pl_leases p' = pl_leases p \<Longrightarrow> pl_held p' = pl_held p \<Longrightarrow> I (p', w)"
begin

lemma set_variables_keeps: "I st \<Longrightarrow> I (snd (set_variables cfg hash st))"
  by (cases st) (auto simp: set_variables_def Let_def elim!: frame)

lemma leaseResource_keeps: "I st \<Longrightarrow> I (snd (leaseResource label st))"
proof -
  assume I: "I st"
  obtain p w where st: "st = (p, w)" by (cases st)
  have l: "I (snd (lease (''resource:'' @ resolved) st))" for resolved using I by (rule lease_keeps)
  have "I (p'\<lparr>pl_Project := x\<rparr>, w')" if "lease (''resource:'' @ resolved) st = (None, (p', w'))" for x p' w' resolved
    using l [of resolved] that by (auto elim!: frame)
  with I l show ?thesis
    by (auto simp: leaseResource_def Let_def st split: sum.splits option.splits prod.splits) (metis snd_conv)+
qed

lemma holdMergePort_keeps: "I st \<Longrightarrow> I (snd (holdMergePort cfg st))"
proof -
  assume I: "I st"
  have h: "I (snd (hold port st))" if "0 < port" for port using I that by (rule hold_op_keeps)
  have "I (p'\<lparr>pl_mergePort := x\<rparr>, w')" if "0 < port" "hold port st = (None, (p', w'))" for x p' w' port
    using h [OF that(1)] that(2) by (auto elim!: frame)
  with I h show ?thesis
    by (auto simp: holdMergePort_def split: option.splits prod.splits) (metis snd_conv)+
qed

lemma record_preferred_keeps: "I st \<Longrightarrow> I (snd (record_preferred cfg st))"
  by (cases st) (auto simp: record_preferred_def elim!: frame)

lemma assignPort_keeps:
  assumes "I st" and "is_pinned cfg e \<Longrightarrow> 0 < preferredPort cfg e"
  shows "I (snd (assignPort cfg e st))"
proof -
  let ?r = "if is_pinned cfg e
     then (case hold (preferredPort cfg e) st of (Some err, st') \<Rightarrow> (Inl err, st')
             | (None, st') \<Rightarrow> (Inr (preferredPort cfg e), st'))
     else allocate (preferredPort cfg e) st"
  have r: "I (snd ?r)"
  proof (cases "is_pinned cfg e")
    case True
    obtain err st' where h: "hold (preferredPort cfg e) st = (err, st')" by (cases "hold (preferredPort cfg e) st")
    have "I st'" using hold_op_keeps [OF assms(1) assms(2) [OF True]] h by simp
    with True h show ?thesis by (cases err) simp_all
  next
    case False
    with allocate_keeps [OF assms(1), of "preferredPort cfg e"] show ?thesis by simp
  qed
  obtain res p' w' where res: "?r = (res, (p', w'))" by (rule prod_cases3)
  have rec: "I (record_port e port p', w')" for port
    by (rule frame [of p']) (use r res in \<open>simp_all add: record_port_def Let_def\<close>)
  show ?thesis
  proof (cases res)
    case (Inl a)
    with res r show ?thesis by (simp add: assignPort_def Let_def)
  next
    case (Inr port)
    with res rec [of port] show ?thesis by (simp add: assignPort_def Let_def)
  qed
qed

lemma resolve_step_keeps: "I st \<Longrightarrow> I (snd (resolve_step cfg st))"
  by (cases st) (auto simp: resolve_step_def Resolve_def elim!: frame split: sum.splits prod.splits)

lemma acquire_body_keeps:
  assumes "I st" and "pinned_positive cfg"
  shows "I (snd (acquire_body mk cfg hash names st))"
proof -
  have pin: "is_pinned cfg e \<Longrightarrow> 0 < preferredPort cfg e" if "e \<in> set (plan_endpoints cfg names)" for e
    using that assms(2) unfolding pinned_positive_def plan_endpoints_in by blast
  show ?thesis
    unfolding acquire_body_def Let_def
    by (intro and_then_keeps [OF assms(1)] and_then_keeps each_keeps lease_keeps set_variables_keeps
        leaseResource_keeps holdMergePort_keeps record_preferred_keeps resolve_step_keeps assignPort_keeps)
      (auto intro: pin)
qed

end

interpretation fown: framed_invariant "owns w0" for w0
  by unfold_locales auto

interpretation fpll: framed_invariant ports_leased
  by unfold_locales auto

lemma owns_new_plan: "owns w (new_plan cfg configPath name runID sessionDir filt, w)"
  by (simp add: new_plan_def same_host_def)

lemma Acquire_owns:
  assumes "pinned_positive cfg"
    and "Acquire mk runID dir cfg path hash name filt w = (res, w')"
  shows "case res of Inl _ \<Rightarrow> w' = w | Inr p \<Rightarrow> owns w (p, w')"
proof (cases "first_some (map (CheckSelector cfg) filt)")
  case None
  let ?p = "new_plan cfg path name runID dir filt"
  obtain r p1 w1 where b: "acquire_body mk cfg hash (pl_names ?p) (?p, w) = (r, (p1, w1))"
    by (metis prod.exhaust)
  have o: "owns w (p1, w1)"
    using fown.acquire_body_keeps [OF owns_new_plan assms(1)] b by (metis snd_conv)
  show ?thesis using assms(2) None b o Close_restores [OF o]
    by (cases r) (auto simp: Acquire_def Let_def)
qed (use assms(2) in \<open>auto simp: Acquire_def\<close>)

section \<open>The ports of an acquired plan\<close>

lemma and_then_None:
  "and_then f g st = (None, st') \<longleftrightarrow> (\<exists>s. f st = (None, s) \<and> g s = (None, st'))"
  by (auto simp: and_then_def split: prod.splits option.splits)

definition assigned :: "SessionPlan \<Rightarrow> endpoint \<Rightarrow> int option" where
  "assigned p e = Option.bind (gget (pj_Ports (pl_Project p)) (fst e)) (\<lambda>named. gget named (snd e))"

definition port_rule :: "Config \<Rightarrow> endpoint \<Rightarrow> int \<Rightarrow> bool" where
  "port_rule cfg e q =
     (let preferred = preferredPort cfg e
      in if is_pinned cfg e then q = preferred
         else preferred > 0 \<longrightarrow> preferred \<le> q \<and> q < preferred + 128 \<and> q \<le> 65535)"

lemma assigned_record_port:
  "assigned (record_port e port p) e' = (if e' = e then Some port else assigned p e')"
  by (cases e; cases e') (auto simp: assigned_def record_port_def Let_def the_default_def split: option.splits)

lemma lease_frame:
  "lease label (p, w) = (res, (p', w')) \<Longrightarrow> pl_Project p' = pl_Project p \<and> pl_held p' = pl_held p"
  by (erule lease_cases) auto

lemma try_ports_fresh:
  "owns w0 (p, w) \<Longrightarrow> 0 \<le> a \<Longrightarrow> try_ports n a preferred (p, w) = (Some q, (p', w')) \<Longrightarrow>
     q \<notin> set (pl_held p) \<and> pl_held p' = q # pl_held p \<and> pl_Project p' = pl_Project p
     \<and> (preferred > 0 \<longrightarrow> preferred + a \<le> q \<and> q < preferred + a + int n \<and> q \<le> 65535)"
proof (induction n a preferred "(p, w)" arbitrary: p w rule: try_ports.induct)
  case (2 n a preferred p w)
  let ?c = "if preferred \<noteq> 0 then preferred + a else preferred"
  have small: "\<not> (preferred \<noteq> 0 \<and> ?c > 65535)" using "2.prems"(3) by (auto simp: Let_def split: if_splits)
  show ?case
  proof (cases "listen ?c w")
    case None
    then have "try_ports n (a + 1) preferred (p, w) = (Some q, (p', w'))"
      using "2.prems"(3) small by (simp add: Let_def)
    from "2.hyps"(1) [OF refl small None "2.prems"(1) _ this] "2.prems"(2) show ?thesis by auto
  next
    case (Some r)
    obtain port w1 where r: "r = (port, w1)" by (cases r)
    obtain res p2 w2 where l: "lease (tcp_label port) (p, w1) = (res, (p2, w2))" by (rule prod_cases3)
    note f = lease_frame [OF l]
    show ?thesis
    proof (cases res)
      case None
      with "2.prems" Some r l small have q: "q = port" "p' = p2\<lparr>pl_held := port # pl_held p2\<rparr>"
        by (auto simp: Let_def)
      have "port \<notin> ow_bound w" "?c \<noteq> 0 \<Longrightarrow> port = ?c" "?c \<le> 65535" "0 \<le> ?c"
        using listen_cases [OF Some [unfolded r]] by auto
      with q f "2.prems"(1,2) show ?thesis by (auto split: if_splits)
    next
      case (Some e)
      note none = this
      have o: "owns w0 (p2, close_listener port w2)"
        using owns_unbind [OF "2.prems"(1) _ l [unfolded none]] \<open>listen ?c w = Some r\<close> r by blast
      have t: "try_ports n (a + 1) preferred (p2, close_listener port w2) = (Some q, (p', w'))"
        using "2.prems"(3) small \<open>listen ?c w = Some r\<close> r l none by (simp add: Let_def)
      from "2.hyps"(2) [OF refl small \<open>listen ?c w = Some r\<close> r [symmetric] l [symmetric] none refl o _ t] f "2.prems"(2)
      show ?thesis by auto
    qed
  qed
qed simp

lemma hold_fresh:
  assumes "hold port (p, w) = (None, (p', w'))"
  shows "port \<notin> set (pl_held p) \<and> pl_held p' = port # pl_held p \<and> pl_Project p' = pl_Project p"
proof -
  obtain res p1 w1 where l: "lease (tcp_label port) (p, w) = (res, (p1, w1))" by (rule prod_cases3)
  with assms lease_frame [OF l] show ?thesis
    by (auto simp: hold_def split: if_splits option.splits)
qed

lemma assignPort_ok:
  assumes "assignPort cfg e (p, w) = (None, (p', w'))" and "owns w0 (p, w)"
  obtains q p1 where "p' = record_port e q p1" "q \<notin> set (pl_held p)" "pl_held p1 = q # pl_held p"
    "pl_Project p1 = pl_Project p" "port_rule cfg e q"
proof (cases "is_pinned cfg e")
  case True
  obtain r p1 w1 where h: "hold (preferredPort cfg e) (p, w) = (r, (p1, w1))" by (rule prod_cases3)
  with assms(1) True have "r = None" "p' = record_port e (preferredPort cfg e) p1"
    by (auto simp: assignPort_def Let_def split: option.splits)
  with h hold_fresh [of _ p w p1 w1] True show ?thesis
    by (intro that [of "preferredPort cfg e" p1]) (auto simp: port_rule_def)
next
  case False
  obtain r p1 w1 where t: "try_ports 128 0 (preferredPort cfg e) (p, w) = (r, (p1, w1))" by (rule prod_cases3)
  with assms(1) False obtain q where q: "r = Some q" "p' = record_port e q p1"
    by (auto simp: assignPort_def allocate_def Let_def split: option.splits)
  from try_ports_fresh [OF assms(2) _ t [unfolded q(1)]] q(2) False show ?thesis
    by (intro that [of q p1]) (auto simp: port_rule_def Let_def)
qed

text \<open>The endpoints assigned so far: each has its own held port, chosen by the rule.\<close>

fun ports_assigned :: "Config \<Rightarrow> endpoint set \<Rightarrow> SessionPlan \<Rightarrow> bool" where
  "ports_assigned cfg es p =
     ((\<forall>e. assigned p e \<noteq> None \<longleftrightarrow> e \<in> es)
      \<and> (\<forall>e q. assigned p e = Some q \<longrightarrow> q \<in> set (pl_held p) \<and> port_rule cfg e q)
      \<and> (\<forall>e e' q. assigned p e = Some q \<longrightarrow> assigned p e' = Some q \<longrightarrow> e = e'))"

lemma ports_assigned_step:
  assumes "ports_assigned cfg es p" and "q \<notin> set (pl_held p)" and "pl_held p1 = q # pl_held p"
    and "pl_Project p1 = pl_Project p" and "port_rule cfg e q"
  shows "ports_assigned cfg (insert e es) (record_port e q p1)"
proof -
  have same: "assigned p1 x = assigned p x" for x using assms(4) by (simp add: assigned_def)
  have held: "pl_held (record_port e q p1) = q # pl_held p" using assms(3) by (simp add: record_port_def Let_def)
  have fresh: "assigned p x \<noteq> Some q" for x
    using assms(1,2) unfolding ports_assigned.simps by blast
  show ?thesis
    using assms(1,5) fresh by (auto simp: assigned_record_port same held split: if_splits)
qed

lemma assign_all:
  assumes "each (assignPort cfg) es (p, w) = (None, (p', w'))" and "owns w0 (p, w)"
    and "\<And>e. e \<in> set es \<Longrightarrow> is_pinned cfg e \<Longrightarrow> 0 < preferredPort cfg e"
    and "ports_assigned cfg done_es p"
  shows "ports_assigned cfg (done_es \<union> set es) p'"
  using assms
proof (induction es arbitrary: p w done_es)
  case (Cons e es)
  from Cons.prems(1) obtain p1 w1 where
    a: "assignPort cfg e (p, w) = (None, (p1, w1))" and r: "each (assignPort cfg) es (p1, w1) = (None, (p', w'))"
    by (auto simp: and_then_None)
  have o: "owns w0 (p1, w1)"
    using fown.assignPort_keeps [OF Cons.prems(2), of cfg e] Cons.prems(3) a by simp
  obtain q p2 where "p1 = record_port e q p2" "q \<notin> set (pl_held p)" "pl_held p2 = q # pl_held p"
      "pl_Project p2 = pl_Project p" "port_rule cfg e q"
    by (rule assignPort_ok [OF a Cons.prems(2)])
  then have "ports_assigned cfg (insert e done_es) p1"
    using ports_assigned_step [OF Cons.prems(4)] by blast
  from Cons.IH [OF r o _ this] Cons.prems(3) show ?case by simp
qed simp

text \<open>No port is recorded before the endpoints are assigned.\<close>

definition no_ports :: "sess \<Rightarrow> bool" where
  "no_ports st = (pj_Ports (pl_Project (fst st)) = [])"

interpretation np: plan_invariant no_ports
proof unfold_locales
  fix st label assume "no_ports st"
  moreover obtain p w where "st = (p, w)" by (cases st)
  moreover obtain res p1 w1 where "lease label (p, w) = (res, (p1, w1))" by (rule prod_cases3)
  ultimately show "no_ports (snd (lease label st))" using lease_frame by (fastforce simp: no_ports_def)
qed (auto simp: no_ports_def release_port_def dest!: lease_frame split: prod.splits)

lemma leaseResource_no_ports: "no_ports st \<Longrightarrow> no_ports (snd (leaseResource label st))"
proof -
  assume n: "no_ports st"
  have "no_ports (snd (lease l st))" for l using n by (rule np.lease_keeps)
  with n show ?thesis
    by (auto simp: leaseResource_def Let_def no_ports_def split: sum.splits option.splits prod.splits)
      (metis fst_conv snd_conv)+
qed

lemma holdMergePort_no_ports: "no_ports st \<Longrightarrow> no_ports (snd (holdMergePort cfg st))"
proof -
  assume n: "no_ports st"
  have "no_ports (snd (hold port st))" if "0 < port" for port using n that by (rule np.hold_op_keeps)
  with n show ?thesis
    by (auto simp: holdMergePort_def no_ports_def split: option.splits prod.splits)
      (metis fst_conv snd_conv)+
qed

lemma Acquire_ports:
  assumes "pinned_positive cfg"
    and "Acquire mk runID dir cfg path hash name filt w = (Inr p, w')"
  shows "ports_assigned cfg (set (plan_endpoints cfg (SelectedNames cfg filt @ TeardownNames cfg))) p"
proof -
  let ?p0 = "new_plan cfg path name runID dir filt"
  let ?names = "SelectedNames cfg filt @ TeardownNames cfg"
  let ?es = "plan_endpoints cfg ?names"
  let ?order = "filter (is_pinned cfg) ?es @ filter (\<lambda>e. \<not> is_pinned cfg e) ?es"
  have names: "pl_names ?p0 = ?names" by (simp add: new_plan_def)
  have "acquire_body mk cfg hash ?names (?p0, w) = (None, (p, w'))"
    using assms(2) by (auto simp: Acquire_def Let_def names split: option.splits prod.splits)
  then obtain s1 s2 s3 s4 s5 s6 where st: "lease (''instance:'' @ hash) (?p0, w) = (None, s1)"
      "set_variables cfg hash s1 = (None, s2)" "each leaseResource (sort (c_Resources cfg)) s2 = (None, s3)"
      "holdMergePort cfg s3 = (None, s4)" "record_preferred cfg s4 = (None, s5)"
      "each (assignPort cfg) ?order s5 = (None, s6)" "resolve_step cfg s6 = (None, (p, w'))"
    unfolding acquire_body_def and_then_None Let_def by auto
  note sn = st(1-6) [THEN arg_cong [where f = snd], simplified snd_conv]
  have o1: "owns w s1" unfolding sn(1) [symmetric] by (rule own.lease_keeps [OF owns_new_plan])
  have o2: "owns w s2" unfolding sn(2) [symmetric] by (rule fown.set_variables_keeps [OF o1])
  have o3: "owns w s3" unfolding sn(3) [symmetric] by (rule own.each_keeps [OF o2 fown.leaseResource_keeps])
  have o4: "owns w s4" unfolding sn(4) [symmetric] by (rule fown.holdMergePort_keeps [OF o3])
  have o5: "owns w s5" unfolding sn(5) [symmetric] by (rule fown.record_preferred_keeps [OF o4])
  have n0: "no_ports (?p0, w)" by (simp add: no_ports_def new_plan_def)
  have n1: "no_ports s1" unfolding sn(1) [symmetric] by (rule np.lease_keeps [OF n0])
  have n2: "no_ports s2" using n1 st(2) by (auto simp: set_variables_def no_ports_def Let_def split: prod.splits)
  have n3: "no_ports s3" unfolding sn(3) [symmetric] by (rule np.each_keeps [OF n2 leaseResource_no_ports])
  have n4: "no_ports s4" unfolding sn(4) [symmetric] by (rule holdMergePort_no_ports [OF n3])
  have n5: "no_ports s5" using n4 st(5) by (auto simp: record_preferred_def no_ports_def split: prod.splits)
  obtain p5 w5 p6 w6 where s: "s5 = (p5, w5)" "s6 = (p6, w6)" by (cases s5, cases s6)
  have "ports_assigned cfg ({} \<union> set ?order) p6"
  proof (rule assign_all [OF st(6) [unfolded s] o5 [unfolded s]])
    show "ports_assigned cfg {} p5" using n5 by (simp add: s no_ports_def assigned_def)
    fix e assume "e \<in> set ?order" "is_pinned cfg e"
    then have "e \<in> set ?es" by auto
    with assms(1) \<open>is_pinned cfg e\<close> show "0 < preferredPort cfg e"
      unfolding pinned_positive_def plan_endpoints_in by blast
  qed
  moreover have "{} \<union> set ?order = set ?es" by auto
  ultimately have "ports_assigned cfg (set ?es) p6" by metis
  moreover have "pl_Project p = pl_Project p6" "pl_held p = pl_held p6"
    using st(7) by (auto simp: s resolve_step_def Resolve_def split: sum.splits if_splits)
  ultimately show ?thesis by (simp add: assigned_def)
qed

section \<open>Pinned ports of a loaded config\<close>

definition names_port :: "Process gomap \<Rightarrow> string \<Rightarrow> bool" where
  "names_port procs x = (\<exists>pr pn port. x = pr @ ''.'' @ pn
     \<and> gget (p_Ports (proc_at procs pr)) pn = Some port \<and> 1 \<le> port)"

lemma resolveOne_named:
  "x \<in> set (fst (snd (resolveOne procs inner st))) \<Longrightarrow> x \<in> set (fst st) \<or> names_port procs x"
  by (cases "splitReference inner")
    (auto simp: resolveOne_def names_port_def Let_def split: if_splits option.splits)

lemma replace_refs_named:
  "x \<in> set (fst (snd (replace_refs (resolveOne procs) value st))) \<Longrightarrow> x \<in> set (fst st) \<or> names_port procs x"
proof (induction "resolveOne procs" "value" st rule: replace_refs.induct)
  case (2 c cs st)
  show ?case
  proof (cases "match_ref (c # cs)")
    case None
    with 2 show ?thesis by (auto simp: replace_refs.simps(2) split: prod.splits)
  next
    case (Some m)
    obtain inner rest where m: "m = (inner, rest)" by (cases m)
    obtain new st1 where r: "resolveOne procs inner st = (new, st1)" by (cases "resolveOne procs inner st")
    have "x \<in> set (fst (snd (replace_refs (resolveOne procs) rest st1)))"
      using "2.prems" Some m r by (auto simp: replace_refs.simps(2) split: prod.splits)
    from "2.hyps"(2) [OF Some m [symmetric] r [symmetric] this] resolveOne_named [of x procs inner st] r
    show ?thesis by auto
  qed
qed simp

lemma servedPort_named:
  assumes "servedPort procs envs name p = Some s" and "gget procs name = Some p" and "x \<in> set (sp_Named s)"
  shows "names_port procs x"
proof -
  have refs: "x \<in> set named \<Longrightarrow> resolvePortReferences procs value = (res, named, ok) \<Longrightarrow> names_port procs x"
    for "value" res named ok
    using replace_refs_named [of x procs "value" "([], True)"]
    by (auto simp: resolvePortReferences_def split: prod.splits)
  have own: "gget (p_Ports p) ''http'' = Some port \<Longrightarrow> 1 \<le> port \<Longrightarrow> names_port procs (name @ ''.http'')" for port
    unfolding names_port_def using assms(2)
    by (intro exI [of _ name] exI [of _ "''http''"] exI [of _ port]) (simp add: proc_at_def)
  show ?thesis
    using assms(1,3) refs own
    by (auto simp: servedPort_def Let_def split: option.splits if_splits prod.splits)
qed

lemma gget_map_filter_served:
  "gget (List.map_filter (\<lambda>(name, proc). map_option (Pair name) (f name proc)) ps) n = Some s \<Longrightarrow>
     \<exists>p. (n, p) \<in> set ps \<and> f n p = Some s"
  by (induction ps) (auto simp: map_filter_simps split: option.splits if_splits)

lemma MergeUpstreamPorts_named:
  assumes "gomap_ok (c_Processes cfg)" and "x \<in> set (MergeUpstreamPorts cfg)"
  shows "names_port (c_Processes cfg) x"
proof -
  obtain n s where s: "gget (ServedPorts (c_Processes cfg)) n = Some s" "x \<in> set (sp_Named s)"
    using assms(2)
    by (auto simp: MergeUpstreamPorts_def Let_def split: option.splits) (metis that)
  then obtain p where p: "(n, p) \<in> set (c_Processes cfg)" "servedPort (c_Processes cfg) [] n p = Some s"
    using gget_map_filter_served [of "servedPort (c_Processes cfg) []" "c_Processes cfg" n s]
    by (auto simp: ServedPorts_def servedPorts_def)
  have "gget (c_Processes cfg) n = Some p" using p(1) assms(1) by (simp add: gomap_ok_def)
  from servedPort_named [OF p(2) this s(2)] show ?thesis .
qed

lemma port_key_no_dot:
  assumes "\<And>n p. gget procs n = Some p \<Longrightarrow> ports_ok (p_Ports p)"
    and "pn \<in> set (gokeys (p_Ports (proc_at procs pr)))"
  shows "CHR ''.'' \<notin> set pn"
  using assms(2) assms(1) [of pr]
  by (cases "gget procs pr") (auto simp: proc_at_def zero_Process_def ports_ok_def dest!: portNameRe_no_dot)

lemma loaded_pinned_positive:
  assumes "gomap_ok (c_Processes cfg)" and "\<And>n p. gget (c_Processes cfg) n = Some p \<Longrightarrow> ports_ok (p_Ports p)"
  shows "pinned_positive cfg"
  unfolding pinned_positive_def
proof (intro allI impI)
  fix e assume pin: "is_pinned cfg e"
    and key: "snd e \<in> set (gokeys (p_Ports (proc_at (c_Processes cfg) (fst e))))"
  from MergeUpstreamPorts_named [OF assms(1)] pin obtain pr pn port where
    x: "fst e @ ''.'' @ snd e = pr @ ''.'' @ pn" and
    port: "gget (p_Ports (proc_at (c_Processes cfg) pr)) pn = Some port" "1 \<le> port"
    unfolding is_pinned_def names_port_def by blast
  have "CHR ''.'' \<notin> set (snd e)" by (rule port_key_no_dot [OF assms(2) key])
  moreover have "CHR ''.'' \<notin> set pn" by (rule port_key_no_dot [OF assms(2) gget_in_keys [OF port(1)]])
  moreover have "ref_name [] (fst e) (snd e) = ref_name [] pr pn" using x by (simp add: ref_name_def)
  ultimately have "fst e = pr" "snd e = pn" using ref_name_inject by blast+
  with port show "0 < preferredPort cfg e" by (simp add: preferredPort_def)
qed

section \<open>What Resolve guarantees\<close>

definition no_reference :: "string \<Rightarrow> bool" where
  "no_reference v = (\<forall>namespace \<in> set expand_namespaces. \<not> Contains v (''${'' @ namespace))"

lemma expand_no_reference: "expand p v = Inr v' \<Longrightarrow> no_reference v'"
  by (auto simp: expand_def no_reference_def Let_def find_None_iff split: option.splits)

lemma expand_env_get:
  "expand_env p name env = Inr env' \<Longrightarrow>
     gokeys env' = gokeys env \<and> (\<forall>(k, v) \<in> set env'. no_reference v)"
proof (induction p name env arbitrary: env' rule: expand_env.induct)
  case (2 p name key v env)
  then obtain v' env2 where "expand p v = Inr v'" "expand_env p name env = Inr env2" "env' = (key, v') # env2"
    by (auto split: sum.splits)
  with "2.IH" [of v' env2] show ?case by (simp add: expand_no_reference)
qed simp

lemma expandProbe_no_reference:
  "expandProbe p probe = Inr probe' \<Longrightarrow> \<forall>v \<in> set (probe_values probe'). no_reference v"
  by (auto simp: expandProbe_def probe_values_def expand_no_reference split: option.splits sum.splits)

definition resolved_for :: "SessionPlan \<Rightarrow> string \<Rightarrow> Process \<Rightarrow> Process \<Rightarrow> bool" where
  "resolved_for p name proc proc' =
     (no_reference (p_Cmd proc')
      \<and> (\<forall>v \<in> set (probe_values (p_ReadyWhen proc') @ probe_values (p_HealthWhen proc')). no_reference v)
      \<and> (\<exists>env. expand_env p name (p_Env proc) = Inr env \<and> p_Env proc' = session_env p name env)
      \<and> p_Ports proc' = p_Ports proc \<and> p_DependsOn proc' = p_DependsOn proc)"

lemma resolveProcess_resolved:
  "resolveProcess p name proc = Inr proc' \<Longrightarrow> resolved_for p name proc proc'"
  by (auto simp: resolveProcess_def resolved_for_def expand_no_reference split: sum.splits
      dest: expandProbe_no_reference)

lemma resolve_loop_get:
  assumes "resolve_loop p cfg names result uses = Inr (procs, uses')" and "distinct names"
  shows "(n \<in> set names \<longrightarrow> (\<forall>proc. gget (c_Processes cfg) n = Some proc \<longrightarrow>
        gomap_equal (p_Ports proc) (the_default [] (gget (pl_preferred p) n))
        \<and> (\<exists>proc'. gget procs n = Some proc' \<and> resolveProcess p n proc = Inr proc')))
    \<and> (n \<notin> set names \<or> gget (c_Processes cfg) n = None \<longrightarrow> gget procs n = gget result n)"
  using assms
proof (induction names arbitrary: result uses)
  case (Cons name names)
  show ?case
  proof (cases "gget (c_Processes cfg) name")
    case None
    with Cons.prems Cons.IH [of result uses] show ?thesis by (cases "n = name") auto
  next
    case (Some proc)
    with Cons.prems obtain proc' where p': "gomap_equal (p_Ports proc) (the_default [] (gget (pl_preferred p) name))"
        "resolveProcess p name proc = Inr proc'"
        "resolve_loop p cfg names (gput name proc' result) (gput name (process_uses p name proc) uses) = Inr (procs, uses')"
      by (auto split: if_splits sum.splits)
    with Cons.IH [OF p'(3)] Cons.prems(2) Some show ?thesis by (cases "n = name") auto
  qed
qed simp

lemma Resolve_parts:
  assumes "Resolve p cfg = Inr (cfg', p')"
  shows "sameResources (pl_resources p) (c_Resources cfg)"
    and "c_Merge cfg = Some m \<Longrightarrow> pl_mergePort p \<noteq> 0 \<Longrightarrow> m_Port m = pl_mergePort p"
    and "\<exists>uses. resolve_loop p cfg (pl_names p) (c_Processes cfg) [] = Inr (c_Processes cfg', uses)
      \<and> p' = p\<lparr>pl_uses := merge_uses uses (pl_uses p)\<rparr>"
    and "c_Merge cfg' = c_Merge cfg"
  using assms by (auto simp: Resolve_def split: if_splits sum.splits option.splits)

end
