(* ===== verification/Session_Correct.thy ===== *)
theory Session_Correct
  imports Session_Plan Config_Correct
begin

text \<open>
  The properties of sessions: what a failed \<^verbatim>\<open>Acquire\<close> leaves behind, which port every endpoint gets,
  what \<^verbatim>\<open>Close\<close> and \<^verbatim>\<open>ReleasePorts\<close> free, and what \<^verbatim>\<open>Resolve\<close> accepts and produces.
\<close>

section \<open>An example session\<close>

definition example_world :: os_world where
  "example_world = \<lparr>ow_leaseDir = ''/run/leases'', ow_files_ok = True, ow_locks = {}, ow_bound = {22},
     ow_pick = (\<lambda>S. if 50000 \<in> S then None else Some 50000)\<rparr>"

definition acquire_example :: "os_world \<Rightarrow> (session_error + SessionPlan) \<times> os_world" where
  "acquire_example w =
     Acquire True ''run1'' ''/run/s1'' example_loaded ''/srv/app/c.yaml'' ''abc'' ''dev'' [] w"

definition example_plan :: SessionPlan where
  "example_plan = (case fst (acquire_example example_world) of
     Inr p \<Rightarrow> p | Inl _ \<Rightarrow> new_plan example_loaded [] [] [] [] [])"

lemma example_acquired: "acquire_example example_world = (Inr example_plan, snd (acquire_example example_world))"
proof -
  have "\<not> isl (fst (acquire_example example_world))" by code_simp
  then show ?thesis unfolding example_plan_def
    by (cases "acquire_example example_world"; cases "fst (acquire_example example_world)") auto
qed

lemma example_busy: "\<exists>e. acquire_example (example_world\<lparr>ow_bound := {3000}\<rparr>)
    = (Inl e, snd (acquire_example (example_world\<lparr>ow_bound := {3000}\<rparr>)))"
proof -
  let ?r = "acquire_example (example_world\<lparr>ow_bound := {3000}\<rparr>)"
  have "isl (fst ?r)" by code_simp
  then show ?thesis by (cases ?r; cases "fst ?r") auto
qed

lemma loaded_pinned: "loaded_ok rok cfg \<Longrightarrow> pinned_positive cfg"
  by (rule loaded_pinned_positive) (simp_all add: loaded_ok_def process_ok_def)

lemma example_loaded_ok: "loaded_ok (h_regexp_ok example_host) example_loaded"
proof (rule Load_yaml [OF example_load example_yaml_maps])
  fix cfg assume "loadDecoded example_host ''/srv/app/c.yaml'' cfg = Inr example_loaded" "config_maps_ok cfg"
  from loadDecoded_ok [OF this example_cwd] show ?thesis .
qed

section \<open>Acquire and Close\<close>

text \<open>
  C23. A failed \<^verbatim>\<open>Acquire\<close> leaves nothing behind: whichever step fails, every lock it took is released
  and every port it bound is free again, and no other lock or port is touched.
\<close>

theorem Acquire_failure_releases:
  assumes "loaded_ok rok cfg" and "Acquire mk runID dir cfg path hash name filt w = (Inl e, w')"
  shows "w' = w"
  using Acquire_owns [OF loaded_pinned [OF assms(1)] assms(2)] by simp

theorem Acquire_failure_releases_witness:
  "snd (acquire_example (example_world\<lparr>ow_bound := {3000}\<rparr>)) = example_world\<lparr>ow_bound := {3000}\<rparr>"
proof -
  obtain e where "acquire_example (example_world\<lparr>ow_bound := {3000}\<rparr>)
      = (Inl e, snd (acquire_example (example_world\<lparr>ow_bound := {3000}\<rparr>)))" using example_busy by blast
  from Acquire_failure_releases [OF example_loaded_ok this [unfolded acquire_example_def]]
  show ?thesis by (simp add: acquire_example_def)
qed

text \<open>
  The ports of an acquired session: exactly the declared endpoints of the selected and the
  teardown processes are assigned a port, no two endpoints share one, each assigned port is bound
  and leased by the session, a merge upstream's port is its preferred port, and any other endpoint
  with a preferred port gets one of the 128 numbers from it on, within the port range.
\<close>

theorem Acquire_assigns_ports:
  assumes "loaded_ok rok cfg" and "pick_ok w"
    and "Acquire mk runID dir cfg path hash name filt w = (Inr p, w')"
  shows "ports_assigned cfg (set (plan_endpoints cfg (SelectedNames cfg filt @ TeardownNames cfg))) p
    \<and> ports_leased (p, w')"
proof
  have pp: "pinned_positive cfg" by (rule loaded_pinned [OF assms(1)])
  show "ports_assigned cfg (set (plan_endpoints cfg (SelectedNames cfg filt @ TeardownNames cfg))) p"
    by (rule Acquire_ports [OF pp assms(3)])
  let ?p0 = "new_plan cfg path name runID dir filt"
  have b: "acquire_body mk cfg hash (pl_names ?p0) (?p0, w) = (None, (p, w'))"
    using assms(3) by (auto simp: Acquire_def Let_def split: option.splits prod.splits)
  have "ports_leased (?p0, w)" using assms(2) by (simp add: new_plan_def)
  from fpll.acquire_body_keeps [OF this pp, of mk hash "pl_names ?p0"] b show "ports_leased (p, w')" by simp
qed

lemma example_pick_ok: "pick_ok example_world"
  by (simp add: pick_ok_def example_world_def)

theorem Acquire_assigns_ports_witness:
  "ports_assigned example_loaded (set (plan_endpoints example_loaded
      (SelectedNames example_loaded [] @ TeardownNames example_loaded))) example_plan
   \<and> ports_leased (example_plan, snd (acquire_example example_world))"
  by (rule Acquire_assigns_ports [OF example_loaded_ok example_pick_ok example_acquired [unfolded acquire_example_def],
        folded acquire_example_def])

text \<open>
  \<^verbatim>\<open>Close\<close> undoes \<^verbatim>\<open>Acquire\<close>, also when \<^verbatim>\<open>ReleasePorts\<close> has freed some ports in between: the locks and
  the bound ports are those from before.
\<close>

theorem Acquire_Close:
  assumes "loaded_ok rok cfg" and "Acquire mk runID dir cfg path hash name filt w = (Inr p, w')"
  shows "snd (Close (fold ReleasePorts started (p, w'))) = w"
proof -
  have "owns w (p, w')" using Acquire_owns [OF loaded_pinned [OF assms(1)] assms(2)] by simp
  moreover have "owns w st \<Longrightarrow> owns w (fold ReleasePorts ns st)" for st ns
  proof (induction ns arbitrary: st)
    case (Cons n ns)
    from Cons.IH [OF own.ReleasePorts_keeps [OF Cons.prems, of n]] show ?case by simp
  qed simp
  ultimately have "owns w (fold ReleasePorts started (p, w'))" by blast
  moreover obtain p1 w1 where "fold ReleasePorts started (p, w') = (p1, w1)"
    by (cases "fold ReleasePorts started (p, w')")
  ultimately show ?thesis using Close_restores [of w p1 w1] by simp
qed

theorem Acquire_Close_witness:
  "snd (Close (fold ReleasePorts [''web''] (example_plan, snd (acquire_example example_world)))) = example_world"
  by (rule Acquire_Close [OF example_loaded_ok example_acquired [unfolded acquire_example_def],
        folded acquire_example_def])

text \<open>
  Before a launch \<^verbatim>\<open>ReleasePorts\<close> frees exactly the ports the process uses that are still held: they
  can be bound again, every other port stays held, and no lease is given up.
\<close>

theorem ReleasePorts_exact:
  assumes "owns w0 (p, w)"
  shows "ReleasePorts name (p, w) =
    (let ports = the_default [] (gget (pl_uses p) name)
     in (p\<lparr>pl_held := filter (\<lambda>q. q \<notin> set ports) (pl_held p)\<rparr>,
         w\<lparr>ow_bound := ow_bound w - (set ports \<inter> set (pl_held p))\<rparr>))"
  using release_all [OF assms] by (simp add: ReleasePorts_def the_default_def Let_def split: option.splits)

lemma example_owns: "owns example_world (example_plan, snd (acquire_example example_world))"
  using Acquire_owns [OF loaded_pinned [OF example_loaded_ok] example_acquired [unfolded acquire_example_def]]
  by (simp add: acquire_example_def)

theorem ReleasePorts_exact_witness:
  "pl_held (fst (ReleasePorts ''web'' (example_plan, snd (acquire_example example_world)))) = [8080]"
proof -
  have "filter (\<lambda>q. q \<notin> set (the_default [] (gget (pl_uses example_plan) ''web''))) (pl_held example_plan) = [8080]"
    by code_simp
  then show ?thesis by (simp add: ReleasePorts_exact [OF example_owns] Let_def)
qed

section \<open>Resolve\<close>

text \<open>
  \<^verbatim>\<open>Resolve\<close> accepts a config only if it changes no lease (same resource labels, same merge port,
  same named ports for every process of the plan), and then every process of the plan is rewritten
  without unresolved references in its command and probes, with its environment expanded and the
  session variables added, while every other process is left as it is.
\<close>

theorem Resolve_keeps_leases:
  assumes "Resolve p cfg = Inr (cfg', p')" and "distinct (pl_names p)"
  shows "sameResources (pl_resources p) (c_Resources cfg)
    \<and> (\<forall>m. c_Merge cfg = Some m \<longrightarrow> pl_mergePort p \<noteq> 0 \<longrightarrow> m_Port m = pl_mergePort p)
    \<and> pl_leases p' = pl_leases p \<and> pl_held p' = pl_held p
    \<and> (\<forall>n proc. gget (c_Processes cfg) n = Some proc \<longrightarrow>
        (if n \<in> set (pl_names p)
         then gomap_equal (p_Ports proc) (the_default [] (gget (pl_preferred p) n))
           \<and> (\<exists>proc'. gget (c_Processes cfg') n = Some proc' \<and> resolved_for p n proc proc')
         else gget (c_Processes cfg') n = Some proc))"
proof -
  obtain uses where loop: "resolve_loop p cfg (pl_names p) (c_Processes cfg) [] = Inr (c_Processes cfg', uses)"
    and p': "p' = p\<lparr>pl_uses := merge_uses uses (pl_uses p)\<rparr>" using Resolve_parts(3) [OF assms(1)] by blast
  have "if n \<in> set (pl_names p)
         then gomap_equal (p_Ports proc) (the_default [] (gget (pl_preferred p) n))
           \<and> (\<exists>proc'. gget (c_Processes cfg') n = Some proc' \<and> resolved_for p n proc proc')
         else gget (c_Processes cfg') n = Some proc"
    if "gget (c_Processes cfg) n = Some proc" for n proc
    using resolve_loop_get [OF loop assms(2), of n] that resolveProcess_resolved by auto
  with Resolve_parts(1,2) [OF assms(1)] p' show ?thesis by auto
qed

theorem Resolve_keeps_leases_witness:
  "\<exists>cfg' p'. Resolve example_plan example_loaded = Inr (cfg', p') \<and> pl_leases p' = pl_leases example_plan"
proof -
  have "\<not> isl (Resolve example_plan example_loaded)" by code_simp
  then obtain cfg' p' where r: "Resolve example_plan example_loaded = Inr (cfg', p')"
    by (cases "Resolve example_plan example_loaded") auto
  have "distinct (pl_names example_plan)" by code_simp
  from Resolve_keeps_leases [OF r this] r show ?thesis by blast
qed

end
