(* ===== verification/Log_Ring.thy ===== *)
theory Log_Ring
  imports Go_Prelude
begin

text \<open>
  The log history of the IPC server (\<^verbatim>\<open>internal/ipc/ringbuf.go\<close>): a ring buffer with a capacity in
  entries and a budget of 256 KiB of encoded bytes. The specification is a bounded queue that drops
  its oldest entries to make room; the lemmas show that the ring implements it.
\<close>

section \<open>The ring\<close>

text \<open>\<open>None\<close> is the zero entry of a slot that holds nothing.\<close>

record 'e logRing =
  r_buf :: "'e option list"
  r_head :: nat
  r_n :: nat
  r_sizes :: "int list"
  r_bytes :: int

abbreviation budget :: int where "budget \<equiv> 262144"

definition newLogRing :: "nat \<Rightarrow> 'e logRing" where
  "newLogRing capacity =
     \<lparr>r_buf = replicate capacity None, r_head = 0, r_n = 0, r_sizes = replicate capacity 0, r_bytes = 0\<rparr>"

definition oldest :: "'e logRing \<Rightarrow> nat" where
  "oldest r = (r_head r + length (r_buf r) - r_n r) mod length (r_buf r)"

text \<open>The loop that drops entries until the new one fits.\<close>

function evict :: "int \<Rightarrow> 'e logRing \<Rightarrow> 'e logRing" where
  "evict sz r =
     (if r_n r > 0 \<and> (r_n r = length (r_buf r) \<or> r_bytes r + sz > budget)
      then evict sz (r\<lparr>r_bytes := r_bytes r - r_sizes r ! oldest r,
                         r_buf := (r_buf r)[oldest r := None], r_n := r_n r - 1\<rparr>)
      else r)"
  by pat_completeness auto
termination
  by (relation "measure (\<lambda>(sz, r). r_n r)") auto

declare evict.simps [simp del]

definition push :: "'e \<Rightarrow> int \<Rightarrow> 'e logRing \<Rightarrow> 'e logRing" where
  "push e sz r =
     (if length (r_buf r) = 0 then r
      else if sz > budget then r
      else let r1 = evict sz r
           in r1\<lparr>r_buf := (r_buf r1)[r_head r1 := Some e], r_sizes := (r_sizes r1)[r_head r1 := sz],
                 r_bytes := r_bytes r1 + sz, r_n := r_n r1 + 1,
                 r_head := (r_head r1 + 1) mod length (r_buf r1)\<rparr>)"

definition snapshot :: "'e logRing \<Rightarrow> 'e option list" where
  "snapshot r = map (\<lambda>i. r_buf r ! ((oldest r + i) mod length (r_buf r))) [0..<r_n r]"

section \<open>The specification\<close>

text \<open>A bounded queue of entries with their sizes, oldest first.\<close>

fun drop_until_fits :: "nat \<Rightarrow> int \<Rightarrow> ('e \<times> int) list \<Rightarrow> ('e \<times> int) list" where
  "drop_until_fits cap sz [] = []"
| "drop_until_fits cap sz (x # q) =
     (if length (x # q) = cap \<or> sum_list (map snd (x # q)) + sz > budget
      then drop_until_fits cap sz q else x # q)"

definition enqueue :: "nat \<Rightarrow> 'e \<Rightarrow> int \<Rightarrow> ('e \<times> int) list \<Rightarrow> ('e \<times> int) list" where
  "enqueue cap e sz q =
     (if cap = 0 \<or> sz > budget then q else drop_until_fits cap sz q @ [(e, sz)])"

text \<open>
  The newest entries that fit, said at once: the longest end of a list of entries that is within the
  capacity and the budget.
\<close>

fun newest_fitting :: "nat \<Rightarrow> ('e \<times> int) list \<Rightarrow> ('e \<times> int) list" where
  "newest_fitting cap [] = []"
| "newest_fitting cap (x # q) =
     (if length (x # q) \<le> cap \<and> sum_list (map snd (x # q)) \<le> budget then x # q else newest_fitting cap q)"

lemma newest_fitting_all:
  "length q \<le> cap \<Longrightarrow> sum_list (map snd q) \<le> budget \<Longrightarrow> newest_fitting cap q = q"
  by (cases q) auto

lemma newest_fitting_bounds:
  "length (newest_fitting cap q) \<le> cap \<and> sum_list (map snd (newest_fitting cap q)) \<le> budget"
  by (induction q) auto

lemma newest_fitting_snoc:
  assumes "\<forall>(e, sz) \<in> set q. 0 \<le> sz" and "0 < cap" and "0 \<le> sz" and "sz \<le> budget"
  shows "newest_fitting cap (q @ [(e, sz)]) = drop_until_fits cap sz (newest_fitting cap q) @ [(e, sz)]"
  using assms(1)
proof (induction q)
  case Nil
  then show ?case using assms(2,4) by simp
next
  case (Cons x q)
  let ?q = "x # q"
  show ?case
  proof (cases "length ?q \<le> cap \<and> sum_list (map snd ?q) \<le> budget")
    case False
    then have "\<not> (length (?q @ [(e, sz)]) \<le> cap \<and> sum_list (map snd (?q @ [(e, sz)])) \<le> budget)"
      using assms(3) by auto
    then have "newest_fitting cap (?q @ [(e, sz)]) = newest_fitting cap (q @ [(e, sz)])"
      unfolding append_Cons newest_fitting.simps by (simp only: if_False)
    moreover have "newest_fitting cap ?q = newest_fitting cap q"
      unfolding newest_fitting.simps using False by (simp only: if_False)
    ultimately show ?thesis using Cons by simp
  next
    case True
    then have q: "newest_fitting cap ?q = ?q" by simp
    have "0 \<le> snd x" using Cons.prems by auto
    then have "newest_fitting cap q = q" using True by (intro newest_fitting_all) auto
    with Cons have rest: "newest_fitting cap (q @ [(e, sz)]) = drop_until_fits cap sz q @ [(e, sz)]" by simp
    show ?thesis unfolding q using rest True by auto
  qed
qed

lemma newest_fitting_enqueue:
  assumes "\<forall>(e, sz) \<in> set q. 0 \<le> sz" and "0 \<le> sz"
  shows "newest_fitting cap (filter (\<lambda>x. snd x \<le> budget) (q @ [(e, sz)])) =
    enqueue cap e sz (newest_fitting cap (filter (\<lambda>x. snd x \<le> budget) q))"
proof (cases "cap = 0 \<or> budget < sz")
  case True
  have none: "newest_fitting 0 xs = []" for xs :: "('e \<times> int) list" by (induction xs) auto
  show ?thesis using True by (auto simp: enqueue_def none)
next
  case False
  have "\<forall>(e, sz) \<in> set (filter (\<lambda>x. snd x \<le> budget) q). 0 \<le> sz" using assms(1) by auto
  from newest_fitting_snoc [OF this _ assms(2), of cap e] False show ?thesis by (simp add: enqueue_def)
qed

text \<open>
  What a client of the history relies on, for any implementation whose contents follow the bounded
  queue: the contents are the newest accepted entries, within the capacity and the budget.
\<close>

locale bounded_history =
  fixes empty :: 'r and add :: "'e \<Rightarrow> int \<Rightarrow> 'r \<Rightarrow> 'r" and contents :: "'r \<Rightarrow> ('e \<times> int) list"
    and ok :: "'r \<Rightarrow> bool" and cap :: nat
  assumes ok_empty: "ok empty" and contents_empty: "contents empty = []"
    and ok_add: "ok r \<Longrightarrow> 0 \<le> sz \<Longrightarrow> ok (add e sz r)"
    and contents_add: "ok r \<Longrightarrow> 0 \<le> sz \<Longrightarrow> contents (add e sz r) = enqueue cap e sz (contents r)"
begin

definition history :: "('e \<times> int) list \<Rightarrow> 'r" where
  "history pushes = foldl (\<lambda>r (e, sz). add e sz r) empty pushes"

lemma history_ok: "\<forall>(e, sz) \<in> set pushes. 0 \<le> sz \<Longrightarrow> ok (history pushes)"
  by (induction pushes rule: rev_induct) (auto simp: history_def ok_empty ok_add)

lemma history_snoc: "history (pushes @ [(e, sz)]) = add e sz (history pushes)"
  by (simp add: history_def)

lemma history_queue:
  "\<forall>(e, sz) \<in> set pushes. 0 \<le> sz \<Longrightarrow>
     contents (history pushes) = foldl (\<lambda>q (e, sz). enqueue cap e sz q) [] pushes"
proof (induction pushes rule: rev_induct)
  case (snoc x pushes)
  then show ?case using contents_add [OF history_ok, of pushes "snd x" "fst x"] by (cases x) (simp add: history_snoc)
qed (simp add: history_def contents_empty)

lemma history_newest:
  "\<forall>(e, sz) \<in> set pushes. 0 \<le> sz \<Longrightarrow>
     contents (history pushes) = newest_fitting cap (filter (\<lambda>x. snd x \<le> budget) pushes)"
proof (induction pushes rule: rev_induct)
  case (snoc x pushes)
  obtain e sz where x: "x = (e, sz)" by (cases x)
  have "contents (history (pushes @ [x])) = enqueue cap e sz (contents (history pushes))"
    using snoc.prems contents_add [OF history_ok, of pushes sz e] by (simp add: x history_snoc)
  also have "\<dots> = enqueue cap e sz (newest_fitting cap (filter (\<lambda>x. snd x \<le> budget) pushes))" using snoc by simp
  also have "\<dots> = newest_fitting cap (filter (\<lambda>x. snd x \<le> budget) (pushes @ [x]))"
    unfolding x using snoc.prems by (intro newest_fitting_enqueue [symmetric]) (auto simp: x)
  finally show ?case .
qed (simp add: history_def contents_empty)

end

section \<open>The ring implements the queue\<close>

definition slot :: "'e logRing \<Rightarrow> nat \<Rightarrow> nat" where
  "slot r i = (oldest r + i) mod length (r_buf r)"

definition ring_contents :: "'e logRing \<Rightarrow> ('e \<times> int) list" where
  "ring_contents r = map (\<lambda>i. (the (r_buf r ! slot r i), r_sizes r ! slot r i)) [0..<r_n r]"

definition ring_ok :: "nat \<Rightarrow> 'e logRing \<Rightarrow> bool" where
  "ring_ok cap r = (length (r_buf r) = cap \<and> length (r_sizes r) = cap \<and> r_n r \<le> cap
     \<and> (cap > 0 \<longrightarrow> r_head r < cap) \<and> r_bytes r = sum_list (map snd (ring_contents r))
     \<and> (\<forall>i < r_n r. r_buf r ! slot r i \<noteq> None))"

definition drop_oldest :: "'e logRing \<Rightarrow> 'e logRing" where
  "drop_oldest r = r\<lparr>r_bytes := r_bytes r - r_sizes r ! oldest r,
     r_buf := (r_buf r)[oldest r := None], r_n := r_n r - 1\<rparr>"

lemma slot_base: "slot r i = (r_head r + length (r_buf r) - r_n r + i) mod length (r_buf r)"
  by (simp add: slot_def oldest_def mod_add_left_eq)

lemma slot_drop_oldest:
  assumes "0 < r_n r" and "r_n r \<le> length (r_buf r)"
  shows "slot (drop_oldest r) i = slot r (Suc i)"
proof -
  have "r_head r + length (r_buf r) - (r_n r - 1) + i = r_head r + length (r_buf r) - r_n r + Suc i"
    using assms by simp
  then show ?thesis unfolding slot_base by (simp add: drop_oldest_def)
qed

lemma mod_shift_inj:
  assumes "(k + i) mod c = (k + j) mod c" and "i < c" and "j < c"
  shows "i = (j :: nat)"
proof (rule ccontr)
  have gap: False if "(k + a) mod c = (k + b) mod c" "a < b" "b < c" for a b
  proof -
    have "c dvd (k + b) - (k + a)" using that by (metis add_le_cancel_left less_imp_le mod_eq_dvd_iff_nat)
    then have "c dvd b - a" by simp
    with that show False by (meson dvd_imp_le le_less_trans diff_le_self not_less zero_less_diff)
  qed
  assume "i \<noteq> j"
  then consider "i < j" | "j < i" by linarith
  then show False by cases (use gap [of i j] gap [of j i] assms in auto)
qed

lemma slot_inj: "i < length (r_buf r) \<Longrightarrow> j < length (r_buf r) \<Longrightarrow> slot r i = slot r j \<longleftrightarrow> i = j"
  unfolding slot_base using mod_shift_inj by blast

lemma slot_less: "0 < length (r_buf r) \<Longrightarrow> slot r i < length (r_buf r)"
  by (simp add: slot_def)

lemma oldest_slot: "r_n r \<le> length (r_buf r) \<Longrightarrow> 0 < length (r_buf r) \<Longrightarrow> oldest r = slot r 0"
  by (simp add: slot_def oldest_def)

lemma drop_oldest_contents:
  assumes "ring_ok cap r" and "0 < r_n r"
  shows "ring_contents r = (the (r_buf r ! oldest r), r_sizes r ! oldest r) # ring_contents (drop_oldest r)"
    and "ring_ok cap (drop_oldest r)"
proof -
  have c: "length (r_buf r) = cap" "r_n r \<le> cap" "0 < cap" using assms by (auto simp: ring_ok_def)
  have o: "oldest r = slot r 0" by (rule oldest_slot) (use c in auto)
  have other: "r_buf (drop_oldest r) ! slot r (Suc i) = r_buf r ! slot r (Suc i)" if "Suc i < r_n r" for i
    using slot_inj [of 0 r "Suc i"] that c by (simp add: drop_oldest_def o)
  have tail: "ring_contents (drop_oldest r)
      = map (\<lambda>i. (the (r_buf r ! slot r (Suc i)), r_sizes r ! slot r (Suc i))) [0..<r_n r - 1]"
    unfolding ring_contents_def
  proof (rule map_cong)
    fix i assume "i \<in> set [0..<r_n r - 1]"
    then have "Suc i < r_n r" by auto
    with other [of i] slot_drop_oldest [of r i] assms(2) c
    show "(the (r_buf (drop_oldest r) ! slot (drop_oldest r) i), r_sizes (drop_oldest r) ! slot (drop_oldest r) i)
      = (the (r_buf r ! slot r (Suc i)), r_sizes r ! slot r (Suc i))" by (simp add: drop_oldest_def)
  qed (simp add: drop_oldest_def)
  have "[0..<r_n r] = 0 # map Suc [0..<r_n r - 1]"
    using assms(2) by (simp add: map_Suc_upt upt_conv_Cons)
  then show cons: "ring_contents r = (the (r_buf r ! oldest r), r_sizes r ! oldest r) # ring_contents (drop_oldest r)"
    unfolding tail by (simp add: ring_contents_def o)
  have "\<forall>i < r_n r - 1. r_buf (drop_oldest r) ! slot (drop_oldest r) i \<noteq> None"
    using assms other slot_drop_oldest [of r] c by (auto simp: ring_ok_def)
  with assms cons c show "ring_ok cap (drop_oldest r)"
    unfolding ring_ok_def by (auto simp: drop_oldest_def)
qed

lemma evict_step: "evict sz r = (if r_n r > 0 \<and> (r_n r = length (r_buf r) \<or> r_bytes r + sz > budget)
    then evict sz (drop_oldest r) else r)"
  by (subst evict.simps) (simp add: drop_oldest_def)

lemma evict_contents:
  "ring_ok cap r \<Longrightarrow> ring_contents (evict sz r) = drop_until_fits cap sz (ring_contents r) \<and> ring_ok cap (evict sz r)
     \<and> r_head (evict sz r) = r_head r"
proof (induction "r_n r" arbitrary: r)
  case 0
  then show ?case by (subst (1 2 3) evict_step) (simp add: ring_contents_def)
next
  case (Suc n)
  have pos: "0 < r_n r" using Suc.hyps(2) by simp
  note d = drop_oldest_contents [OF Suc.prems pos]
  have n: "n = r_n (drop_oldest r)" and h: "r_head (drop_oldest r) = r_head r"
    using Suc.hyps(2) by (simp_all add: drop_oldest_def)
  have len: "length (ring_contents r) = r_n r" by (simp add: ring_contents_def)
  have bytes: "r_bytes r = sum_list (map snd (ring_contents r))" "length (r_buf r) = cap"
    using Suc.prems by (simp_all add: ring_ok_def)
  show ?case
  proof (cases "r_n r = cap \<or> r_bytes r + sz > budget")
    case True
    then have "evict sz r = evict sz (drop_oldest r)" using pos bytes(2) by (subst evict_step) simp
    moreover obtain x where x: "ring_contents r = x # ring_contents (drop_oldest r)" using d(1) by blast
    have "drop_until_fits cap sz (ring_contents r) = drop_until_fits cap sz (ring_contents (drop_oldest r))"
      using True bytes len unfolding x by auto
    ultimately show ?thesis using Suc.hyps(1) [OF n d(2)] h by simp
  next
    case False
    then have "evict sz r = r" using bytes(2) by (subst evict_step) simp
    moreover have "drop_until_fits cap sz (ring_contents r) = ring_contents r"
      using False bytes len d(1) by (cases "ring_contents r") auto
    ultimately show ?thesis using Suc.prems by simp
  qed
qed

lemma drop_until_fits_length: "length q \<le> c \<Longrightarrow> 0 < c \<Longrightarrow> length (drop_until_fits c sz q) < c"
  by (induction q) auto

definition write_head :: "'e \<Rightarrow> int \<Rightarrow> 'e logRing \<Rightarrow> 'e logRing" where
  "write_head e sz r = r\<lparr>r_buf := (r_buf r)[r_head r := Some e], r_sizes := (r_sizes r)[r_head r := sz],
     r_bytes := r_bytes r + sz, r_n := r_n r + 1, r_head := (r_head r + 1) mod length (r_buf r)\<rparr>"

lemma write_head_contents:
  assumes "ring_ok cap r" and "r_n r < cap"
  shows "ring_contents (write_head e sz r) = ring_contents r @ [(e, sz)]" and "ring_ok cap (write_head e sz r)"
proof -
  let ?r' = "write_head e sz r"
  have c: "length (r_buf r) = cap" "length (r_sizes r) = cap" "r_head r < cap" using assms by (auto simp: ring_ok_def)
  have slot': "slot ?r' i = slot r i" for i
  proof -
    have "((r_head r + 1) mod cap + cap - (r_n r + 1) + i) mod cap = ((r_head r + 1) mod cap + (cap - (r_n r + 1) + i)) mod cap"
      using assms(2) by (intro arg_cong [where f = "\<lambda>x. x mod cap"]) linarith
    also have "\<dots> = (r_head r + 1 + (cap - (r_n r + 1) + i)) mod cap" by (rule mod_add_left_eq)
    also have "r_head r + 1 + (cap - (r_n r + 1) + i) = r_head r + cap - r_n r + i" using assms(2) by simp
    finally show ?thesis by (simp add: slot_base write_head_def c)
  qed
  have head: "slot r (r_n r) = r_head r" using c assms(2) by (simp add: slot_base)
  have other: "slot r i \<noteq> r_head r" if "i < r_n r" for i
    using slot_inj [of i r "r_n r"] that assms(2) c head by auto
  have old: "(r_buf ?r' ! slot r i, r_sizes ?r' ! slot r i) = (r_buf r ! slot r i, r_sizes r ! slot r i)"
    if "i < r_n r" for i using other [OF that] by (simp add: write_head_def)
  have new: "r_buf ?r' ! r_head r = Some e" "r_sizes ?r' ! r_head r = sz" using c by (simp_all add: write_head_def)
  have "map (\<lambda>i. (the (r_buf ?r' ! slot r i), r_sizes ?r' ! slot r i)) [0..<r_n r] = ring_contents r"
    unfolding ring_contents_def by (rule map_cong) (use old in auto)
  then show cont: "ring_contents ?r' = ring_contents r @ [(e, sz)]"
  proof -
    assume old_part: "map (\<lambda>i. (the (r_buf ?r' ! slot r i), r_sizes ?r' ! slot r i)) [0..<r_n r] = ring_contents r"
    have n: "r_n ?r' = Suc (r_n r)" by (simp add: write_head_def)
    show ?thesis unfolding ring_contents_def [of ?r'] n slot' upt_Suc using old_part new head by simp
  qed
  have "\<forall>i < r_n r + 1. r_buf ?r' ! slot ?r' i \<noteq> None"
    using assms(1) old new head by (auto simp: slot' ring_ok_def less_Suc_eq)
  with assms c cont show "ring_ok cap ?r'"
    unfolding ring_ok_def by (auto simp: write_head_def)
qed

lemma push_contents:
  assumes "ring_ok cap r"
  shows "ring_contents (push e sz r) = enqueue cap e sz (ring_contents r)" and "ring_ok cap (push e sz r)"
proof -
  have len: "length (r_buf r) = cap" using assms by (simp add: ring_ok_def)
  have p: "push e sz r = (if cap = 0 \<or> sz > budget then r else write_head e sz (evict sz r))"
    by (simp add: push_def write_head_def len Let_def)
  note ev = evict_contents [OF assms, of sz]
  have "0 < cap \<Longrightarrow> r_n (evict sz r) < cap"
  proof -
    have n: "length (ring_contents x) = r_n x" for x :: "'a logRing" by (simp add: ring_contents_def)
    assume "0 < cap"
    moreover have "length (ring_contents r) \<le> cap" using assms by (simp add: n ring_ok_def)
    ultimately have "length (drop_until_fits cap sz (ring_contents r)) < cap" by (intro drop_until_fits_length)
    then show ?thesis using ev n [of "evict sz r"] by simp
  qed
  with write_head_contents [of cap "evict sz r" e sz] ev assms
  show "ring_contents (push e sz r) = enqueue cap e sz (ring_contents r)" "ring_ok cap (push e sz r)"
    unfolding p enqueue_def by auto
qed

lemma new_ring_ok: "ring_ok cap (newLogRing cap)"
  by (simp add: ring_ok_def newLogRing_def ring_contents_def)

interpretation ring: bounded_history "newLogRing cap" push ring_contents "ring_ok cap" cap for cap
  by unfold_locales (auto simp: new_ring_ok push_contents, simp add: newLogRing_def ring_contents_def)

lemma snapshot_contents: "ring_ok cap r \<Longrightarrow> snapshot r = map (Some \<circ> fst) (ring_contents r)"
  by (auto simp: snapshot_def ring_contents_def slot_def [symmetric] ring_ok_def)

section \<open>The history\<close>

definition log_history :: "nat \<Rightarrow> ('e \<times> int) list \<Rightarrow> 'e logRing" where
  "log_history cap pushes = foldl (\<lambda>r (e, sz). push e sz r) (newLogRing cap) pushes"

text \<open>
  C29. The ring is the bounded queue it stands for: after any sequence of log entries, in encoded sizes, it holds
  exactly what the queue holds, and its snapshot lists, oldest first and without gaps, exactly the longest run of
  newest entries that is within its capacity and 256 KiB, entries too large for the budget on their own left aside.
\<close>

theorem log_history_newest:
  assumes "\<forall>(e, sz) \<in> set pushes. 0 \<le> sz"
  shows "ring_contents (log_history cap pushes) = foldl (\<lambda>q (e, sz). enqueue cap e sz q) [] pushes
    \<and> snapshot (log_history cap pushes) = map (Some \<circ> fst) (newest_fitting cap (filter (\<lambda>x. snd x \<le> budget) pushes))"
proof -
  have h: "log_history cap pushes = ring.history cap pushes" by (simp add: log_history_def ring.history_def)
  show ?thesis
    using snapshot_contents [OF ring.history_ok [OF assms]] ring.history_queue [OF assms, of cap] ring.history_newest [OF assms, of cap]
    unfolding h by simp
qed

theorem log_history_newest_witness:
  "snapshot (log_history 2 [(''a'', 5), (''b'', 300000), (''c'', 7), (''d'', 9)]) = [Some ''c'', Some ''d'']
   \<and> snapshot (log_history 3 [(''a'', 200000), (''b'', 100000), (''c'', 7)]) = [Some ''b'', Some ''c'']"
  using log_history_newest [of "[(''a'', 5), (''b'', 300000), (''c'', 7), (''d'', 9)]" 2]
    log_history_newest [of "[(''a'', 200000), (''b'', 100000), (''c'', 7)]" 3] by simp

end
