(* ===== verification/Proc_State.thy ===== *)
theory Proc_State
  imports Config_Types "HOL-Library.Word"
begin

text \<open>
  The state of one supervised process (\<^verbatim>\<open>internal/runner/state.go\<close>): its lifecycle state, the
  readiness cycles that dependents wait on, the guards that keep late probes out of newer
  incarnations, and the health verdict. A readiness cycle is shared with the waiters that hold it, so
  the state keeps every cycle it ever made and an index of the current one. Each operation is one
  critical section; \<open>live\<close> stands for \<^verbatim>\<open>ctx.Err() == nil\<close>. CPU and memory figures are not modelled.
\<close>

section \<open>Data\<close>

datatype run_state = Starting | Running | Restarting | Exited | Completed | Failed

datatype readyOutcome = readyUnset | readySatisfied | readyTerminal | readyAgain | readyStopped

text \<open>\<open>cy_closed\<close> says whether the channel of the cycle is closed.\<close>

record readyCycle =
  cy_closed :: bool
  cy_outcome :: readyOutcome

text \<open>
  Who answered a probe (\<^verbatim>\<open>EndpointOwner\<close> of \<^verbatim>\<open>internal/ipc/ipc.go\<close>): the result, the address that answered, the holder,
  and for a foreign holder where the registry of sessions places it. An address stays a pair where the code keeps
  its text.
\<close>

datatype ip_addr = NoAddr | V4 "8 word list" | V6 "8 word list" string

record addr_port =
  ap_Addr :: ip_addr
  ap_Port :: nat

record OwnerSession =
  on_Name :: string
  on_RunID :: string
  on_ConfigPath :: string
  on_Worktree :: string
  on_Process :: string
  on_Port :: string
  on_Evidence :: string

record EndpointOwner =
  eo_Result :: string
  eo_Address :: "addr_port option"
  eo_PID :: int
  eo_Command :: string
  eo_Reason :: string
  eo_Scope :: string
  eo_Session :: "OwnerSession option"

abbreviation OwnerForeign :: string where "OwnerForeign \<equiv> ''foreign''"

datatype health_verdict = healthNoProbe | healthUnknown | healthHealthy | healthUnhealthy

abbreviation healthThreshold :: int where "healthThreshold \<equiv> 3"

datatype healthTransition =
  healthNone | healthCheckFailed | healthBecameHealthy | healthBecameUnhealthy | healthRecovered

text \<open>\<open>ps_panicked\<close> records a close of a closed channel, which panics in Go.\<close>

record procState =
  ps_state :: run_state
  ps_pid :: int
  ps_restarts :: int
  ps_startedAt :: int
  ps_colorIndex :: int
  ps_generation :: "64 word"
  ps_lastError :: string
  ps_exitCode :: "int option"
  ps_active :: bool
  ps_cycles :: "readyCycle list"
  ps_cycle :: "nat option"
  ps_disposition :: readyOutcome
  ps_probeFailed :: bool
  ps_health :: health_verdict
  ps_healthFailures :: int
  ps_healthError :: string
  ps_readinessOwner :: "EndpointOwner option"
  ps_healthOwner :: "EndpointOwner option"
  ps_restartCh :: bool
  ps_panicked :: bool

definition newReadyCycle :: readyCycle where
  "newReadyCycle = \<lparr>cy_closed = False, cy_outcome = readyUnset\<rparr>"

definition newProcState :: "int \<Rightarrow> procState" where
  "newProcState color = \<lparr>ps_state = Starting, ps_pid = 0, ps_restarts = 0, ps_startedAt = 0,
     ps_colorIndex = color, ps_generation = 0, ps_lastError = [], ps_exitCode = None, ps_active = True,
     ps_cycles = [newReadyCycle], ps_cycle = Some 0, ps_disposition = readyUnset,
     ps_probeFailed = False, ps_health = healthNoProbe, ps_healthFailures = 0, ps_healthError = [],
     ps_readinessOwner = None, ps_healthOwner = None, ps_restartCh = False, ps_panicked = False\<rparr>"

section \<open>Readiness\<close>

definition cycle_at :: "procState \<Rightarrow> readyCycle option" where
  "cycle_at st = (case ps_cycle st of
     None \<Rightarrow> None | Some i \<Rightarrow> if i < length (ps_cycles st) then Some (ps_cycles st ! i) else None)"

text \<open>Writing the outcome and closing the channel of the current cycle.\<close>

definition settle_cycle :: "readyOutcome \<Rightarrow> procState \<Rightarrow> procState" where
  "settle_cycle out st = (case ps_cycle st of
     None \<Rightarrow> st
   | Some i \<Rightarrow> st\<lparr>ps_cycles := (ps_cycles st)[i := \<lparr>cy_closed = True, cy_outcome = out\<rparr>],
                  ps_panicked := (ps_panicked st \<or> cy_closed (ps_cycles st ! i))\<rparr>)"

definition unsettled :: "procState \<Rightarrow> bool" where
  "unsettled st = (case cycle_at st of None \<Rightarrow> False | Some c \<Rightarrow> cy_outcome c = readyUnset)"

definition readySettled :: "procState \<Rightarrow> bool" where
  "readySettled st = (case cycle_at st of None \<Rightarrow> False | Some c \<Rightarrow> cy_outcome c = readySatisfied)"

text \<open>\<open>admit\<close> runs in the critical section: \<open>None\<close> refuses, \<open>Some\<close> gives the state it leaves.\<close>

definition latchReady ::
  "readyOutcome \<Rightarrow> (procState \<Rightarrow> procState option) \<Rightarrow> procState \<Rightarrow> bool \<times> procState" where
  "latchReady out admit st =
     (if \<not> unsettled st then (False, st)
      else case admit st of
             None \<Rightarrow> (False, st)
           | Some st' \<Rightarrow> (True, settle_cycle out st'))"

definition markReady :: "bool \<Rightarrow> procState \<Rightarrow> bool \<times> procState" where
  "markReady ok st = latchReady (if ok then readySatisfied else readyTerminal) Some st"

definition markReadyFor ::
  "bool \<Rightarrow> 64 word \<Rightarrow> bool \<Rightarrow> EndpointOwner option \<Rightarrow> procState \<Rightarrow> bool \<times> procState" where
  "markReadyFor live gen ok owner st =
     latchReady (if ok then readySatisfied else readyTerminal)
       (\<lambda>s. if ps_probeFailed s \<or> \<not> live \<or> ps_generation s \<noteq> gen then None
            else Some (s\<lparr>ps_readinessOwner := owner\<rparr>)) st"

definition recordRefusedOwner :: "64 word \<Rightarrow> EndpointOwner option \<Rightarrow> procState \<Rightarrow> bool \<times> procState" where
  "recordRefusedOwner gen owner st =
     (if ps_generation st \<noteq> gen \<or> readySettled st then (False, st)
      else (True, st\<lparr>ps_readinessOwner := owner\<rparr>))"

definition failReadinessFor :: "bool \<Rightarrow> 64 word \<Rightarrow> string \<Rightarrow> procState \<Rightarrow> bool \<times> procState" where
  "failReadinessFor live gen msg st =
     (if \<not> live \<or> ps_generation st \<noteq> gen \<or> readySettled st then (False, st)
      else (True, st\<lparr>ps_probeFailed := True, ps_lastError := msg\<rparr>))"

definition settleLocked :: "readyOutcome \<Rightarrow> procState \<Rightarrow> procState" where
  "settleLocked out st = (if unsettled st then settle_cycle out st else st)"

definition resetReady :: "procState \<Rightarrow> procState" where
  "resetReady st =
     (let s = settleLocked readyAgain st
      in s\<lparr>ps_cycles := ps_cycles s @ [newReadyCycle], ps_cycle := Some (length (ps_cycles s)),
           ps_disposition := readyUnset\<rparr>)"

text \<open>\<open>None\<close> is the cycle whose channel never closes.\<close>

definition currentReadyCycle :: "procState \<Rightarrow> nat option" where
  "currentReadyCycle st = ps_cycle st"

definition outcomeOf :: "procState \<Rightarrow> nat option \<Rightarrow> readyOutcome" where
  "outcomeOf st c = (case c of
     None \<Rightarrow> readyUnset | Some i \<Rightarrow> if i < length (ps_cycles st) then cy_outcome (ps_cycles st ! i) else readyUnset)"

definition disposition :: "procState \<Rightarrow> readyOutcome" where
  "disposition st = ps_disposition st"

definition currentlyReady :: "procState \<Rightarrow> bool" where
  "currentlyReady st = (readySettled st \<and> (ps_state st = Running \<or> ps_state st = Completed))"

section \<open>Transitions\<close>

definition failProcess :: "string \<Rightarrow> procState \<Rightarrow> procState" where
  "failProcess msg st = settleLocked readyTerminal
     (st\<lparr>ps_state := Failed, ps_lastError := (if msg \<noteq> [] then msg else ps_lastError st),
         ps_disposition := readyTerminal\<rparr>)"

definition endProcess :: "procState \<Rightarrow> procState" where
  "endProcess st = settleLocked readyTerminal (st\<lparr>ps_state := Exited, ps_disposition := readyTerminal\<rparr>)"

definition stopProcess :: "string \<Rightarrow> procState \<Rightarrow> procState" where
  "stopProcess msg st = settleLocked readyStopped
     (st\<lparr>ps_state := Exited, ps_lastError := (if msg \<noteq> [] then msg else ps_lastError st),
         ps_disposition := readyStopped\<rparr>)"

definition requestRestart :: "procState \<Rightarrow> procState" where
  "requestRestart st = st\<lparr>ps_restartCh := True\<rparr>"

section \<open>Health\<close>

definition health_current :: "bool \<Rightarrow> 64 word \<Rightarrow> procState \<Rightarrow> bool" where
  "health_current live gen st =
     (live \<and> ps_generation st = gen \<and> ps_state st = Running \<and> ps_exitCode st = None)"

definition recordHealthOwner ::
  "bool \<Rightarrow> 64 word \<Rightarrow> EndpointOwner option \<Rightarrow> procState \<Rightarrow> bool \<times> procState" where
  "recordHealthOwner live gen owner st =
     (case owner of
        None \<Rightarrow> (False, st)
      | Some own \<Rightarrow>
          if \<not> health_current live gen st then (False, st)
          else let known = (case ps_healthOwner st of
                     None \<Rightarrow> False
                   | Some h \<Rightarrow> eo_Result h = OwnerForeign \<and> eo_PID h = eo_PID own)
               in (eo_Result own = OwnerForeign \<and> \<not> known, st\<lparr>ps_healthOwner := Some own\<rparr>))"

definition recordHealth ::
  "bool \<Rightarrow> 64 word \<Rightarrow> bool \<Rightarrow> string \<Rightarrow> bool \<Rightarrow> procState \<Rightarrow> healthTransition \<times> procState" where
  "recordHealth live gen ok detail restart st =
     (if \<not> health_current live gen st then (healthNone, st)
      else if ok
      then ((case ps_health st of
               healthHealthy \<Rightarrow> healthNone
             | healthUnhealthy \<Rightarrow> healthRecovered
             | _ \<Rightarrow> healthBecameHealthy),
            st\<lparr>ps_health := healthHealthy, ps_healthFailures := 0, ps_healthError := []\<rparr>)
      else let s = st\<lparr>ps_healthFailures := ps_healthFailures st + 1, ps_healthError := detail\<rparr>
           in if ps_healthFailures s < healthThreshold \<or> ps_health s = healthUnhealthy
              then (healthCheckFailed, s)
              else (healthBecameUnhealthy,
                    (if restart
                     then s\<lparr>ps_health := healthUnhealthy, ps_probeFailed := True,
                            ps_lastError := ''health check failed (3 consecutive): '' @ detail\<rparr>
                     else s\<lparr>ps_health := healthUnhealthy\<rparr>)))"

definition recordHealthSkipped :: "bool \<Rightarrow> 64 word \<Rightarrow> string \<Rightarrow> procState \<Rightarrow> bool \<times> procState" where
  "recordHealthSkipped live gen detail st =
     (if \<not> health_current live gen st then (False, st)
      else if ps_health st = healthUnknown \<and> ps_healthError st = detail then (False, st)
      else (True, st\<lparr>ps_health := healthUnknown, ps_healthError := detail\<rparr>))"

definition currentHealth :: "procState \<Rightarrow> health_verdict \<times> string" where
  "currentHealth st =
     (if ps_state st = Running then (ps_health st, ps_healthError st)
      else if ps_health st = healthNoProbe then (healthNoProbe, [])
      else (healthUnknown, []))"

definition healthOwnerIf :: "EndpointOwner option \<Rightarrow> bool \<Rightarrow> EndpointOwner option" where
  "healthOwnerIf owner running = (if running then owner else None)"

section \<open>The critical sections of the run loop\<close>

text \<open>The blocks of \<^verbatim>\<open>runProcess\<close>, \<^verbatim>\<open>runTaskProcess\<close> and \<^verbatim>\<open>exec\<close> that hold the state's mutex.\<close>

definition beginIncarnation :: "int \<Rightarrow> bool \<Rightarrow> procState \<Rightarrow> procState" where
  "beginIncarnation now hasHealth st =
     st\<lparr>ps_startedAt := now, ps_state := Starting, ps_pid := 0, ps_generation := ps_generation st + 1,
        ps_lastError := [], ps_exitCode := None, ps_probeFailed := False, ps_readinessOwner := None,
        ps_healthOwner := None, ps_health := (if hasHealth then healthUnknown else healthNoProbe),
        ps_healthFailures := 0, ps_healthError := [], ps_disposition := readyUnset\<rparr>"

definition beginTask :: "int \<Rightarrow> procState \<Rightarrow> procState" where
  "beginTask now st =
     st\<lparr>ps_startedAt := now, ps_state := Starting, ps_pid := 0, ps_generation := ps_generation st + 1\<rparr>"

definition setRunning :: "int \<Rightarrow> procState \<Rightarrow> procState" where
  "setRunning pid st = st\<lparr>ps_pid := pid, ps_state := Running\<rparr>"

definition setExitCode :: "int \<Rightarrow> procState \<Rightarrow> procState" where
  "setExitCode code st = st\<lparr>ps_exitCode := Some code\<rparr>"

definition setExited :: "procState \<Rightarrow> procState" where
  "setExited st = st\<lparr>ps_state := Exited\<rparr>"

definition countRestart :: "procState \<Rightarrow> procState" where
  "countRestart st = st\<lparr>ps_restarts := ps_restarts st + 1, ps_state := Restarting\<rparr>"

definition noteError :: "string \<Rightarrow> procState \<Rightarrow> procState" where
  "noteError msg st = (if ps_lastError st = [] then st\<lparr>ps_lastError := msg\<rparr> else st)"

definition setCompleted :: "procState \<Rightarrow> procState" where
  "setCompleted st = st\<lparr>ps_state := Completed\<rparr>"

definition clearPid :: "procState \<Rightarrow> procState" where
  "clearPid st = st\<lparr>ps_pid := 0\<rparr>"

definition takeRestart :: "procState \<Rightarrow> procState" where
  "takeRestart st = st\<lparr>ps_restartCh := False\<rparr>"

definition setActive :: "bool \<Rightarrow> procState \<Rightarrow> procState" where
  "setActive b st = st\<lparr>ps_active := b\<rparr>"

section \<open>What is reported\<close>

record ipcProcState =
  ip_Name :: string
  ip_State :: run_state
  ip_Mode :: string
  ip_Ready :: bool
  ip_PID :: int
  ip_Restarts :: int
  ip_StartedAt :: int
  ip_ColorIndex :: int
  ip_Generation :: "64 word"
  ip_LastError :: string
  ip_ExitCode :: "int option"
  ip_DependsOn :: "string list"
  ip_Health :: health_verdict
  ip_HealthError :: string
  ip_ReadinessOwner :: "EndpointOwner option"
  ip_HealthOwner :: "EndpointOwner option"

definition ipcStateLocked :: "string \<Rightarrow> Process \<Rightarrow> procState \<Rightarrow> ipcProcState" where
  "ipcStateLocked name proc st =
     \<lparr>ip_Name = name, ip_State = ps_state st, ip_Mode = EffectiveMode proc, ip_Ready = currentlyReady st,
      ip_PID = ps_pid st, ip_Restarts = ps_restarts st, ip_StartedAt = ps_startedAt st,
      ip_ColorIndex = ps_colorIndex st, ip_Generation = ps_generation st, ip_LastError = ps_lastError st,
      ip_ExitCode = ps_exitCode st, ip_DependsOn = p_DependsOn proc,
      ip_Health = fst (currentHealth st), ip_HealthError = snd (currentHealth st),
      ip_ReadinessOwner = ps_readinessOwner st,
      ip_HealthOwner = healthOwnerIf (ps_healthOwner st) (ps_state st = Running)\<rparr>"

record procInfo =
  pi_name :: string
  pi_proc :: Process
  pi_colorIndex :: int
  pi_teardown :: bool

record stateStore =
  ss_procs :: "procState gomap"
  ss_infoByName :: "procInfo gomap"

definition newStateStore :: "procInfo list \<Rightarrow> stateStore" where
  "newStateStore infos =
     \<lparr>ss_procs = fold (\<lambda>p. gput (pi_name p) (newProcState (pi_colorIndex p))) infos [],
      ss_infoByName = fold (\<lambda>p. gput (pi_name p) p) infos []\<rparr>"

definition store_get :: "stateStore \<Rightarrow> string \<Rightarrow> procState option" where
  "store_get s name = gget (ss_procs s) name"

definition store_info :: "stateStore \<Rightarrow> string \<Rightarrow> procInfo option" where
  "store_info s name = gget (ss_infoByName s) name"

definition store_snapshot :: "stateStore \<Rightarrow> ipcProcState list" where
  "store_snapshot s =
     map (\<lambda>(name, st). ipcStateLocked name
        (case gget (ss_infoByName s) name of Some i \<Rightarrow> pi_proc i | None \<Rightarrow> zero_Process) st) (ss_procs s)"

definition setProc :: "string \<Rightarrow> Process \<Rightarrow> stateStore \<Rightarrow> stateStore" where
  "setProc name proc s =
     (case gget (ss_infoByName s) name of
        None \<Rightarrow> s
      | Some i \<Rightarrow> s\<lparr>ss_infoByName := gput name (i\<lparr>pi_proc := proc\<rparr>) (ss_infoByName s)\<rparr>)"

definition anyActive :: "stateStore \<Rightarrow> bool" where
  "anyActive s = list_ex (\<lambda>(_, st). ps_active st) (ss_procs s)"

section \<open>Any interleaving of operations\<close>

text \<open>One critical section of any goroutine.\<close>

inductive proc_op :: "procState \<Rightarrow> procState \<Rightarrow> bool" where
  op_markReady: "proc_op st (snd (markReady ok st))"
| op_markReadyFor: "proc_op st (snd (markReadyFor live gen ok owner st))"
| op_refused: "proc_op st (snd (recordRefusedOwner gen owner st))"
| op_failReadiness: "proc_op st (snd (failReadinessFor live gen msg st))"
| op_reset: "proc_op st (resetReady st)"
| op_fail: "proc_op st (failProcess msg st)"
| op_end: "proc_op st (endProcess st)"
| op_stop: "proc_op st (stopProcess msg st)"
| op_request: "proc_op st (requestRestart st)"
| op_take: "proc_op st (takeRestart st)"
| op_healthOwner: "proc_op st (snd (recordHealthOwner live gen owner st))"
| op_health: "proc_op st (snd (recordHealth live gen ok detail restart st))"
| op_skipped: "proc_op st (snd (recordHealthSkipped live gen detail st))"
| op_begin: "proc_op st (beginIncarnation now hasHealth st)"
| op_beginTask: "proc_op st (beginTask now st)"
| op_running: "proc_op st (setRunning pid st)"
| op_exitCode: "proc_op st (setExitCode code st)"
| op_exited: "proc_op st (setExited st)"
| op_count: "proc_op st (countRestart st)"
| op_note: "proc_op st (noteError msg st)"
| op_completed: "proc_op st (setCompleted st)"
| op_clear: "proc_op st (clearPid st)"
| op_active: "proc_op st (setActive b st)"

lemmas plain_ops = recordRefusedOwner_def failReadinessFor_def requestRestart_def takeRestart_def
  recordHealthOwner_def recordHealth_def recordHealthSkipped_def beginIncarnation_def beginTask_def
  setRunning_def setExitCode_def setExited_def countRestart_def noteError_def setCompleted_def
  clearPid_def setActive_def

text \<open>The current cycle is the newest one, and a channel is closed exactly when its outcome is set.\<close>

definition cycles_ok :: "procState \<Rightarrow> bool" where
  "cycles_ok st = (\<not> ps_panicked st \<and> ps_cycle st = Some (length (ps_cycles st) - 1) \<and> ps_cycles st \<noteq> []
     \<and> (\<forall>c \<in> set (ps_cycles st). cy_closed c \<longleftrightarrow> cy_outcome c \<noteq> readyUnset))"

text \<open>Published outcomes are never changed.\<close>

definition keeps_outcomes :: "procState \<Rightarrow> procState \<Rightarrow> bool" where
  "keeps_outcomes st st' = (length (ps_cycles st) \<le> length (ps_cycles st')
     \<and> (\<forall>i < length (ps_cycles st). cy_outcome (ps_cycles st ! i) \<noteq> readyUnset \<longrightarrow>
          ps_cycles st' ! i = ps_cycles st ! i))"

lemma keeps_outcomes_refl [simp]: "keeps_outcomes st st"
  by (simp add: keeps_outcomes_def)

lemma keeps_outcomes_trans: "keeps_outcomes a b \<Longrightarrow> keeps_outcomes b c \<Longrightarrow> keeps_outcomes a c"
  by (fastforce simp: keeps_outcomes_def)

lemma cycle_at_ok: "cycles_ok st \<Longrightarrow> cycle_at st = Some (last (ps_cycles st))"
  by (cases "ps_cycles st" rule: rev_cases) (auto simp: cycles_ok_def cycle_at_def nth_append)

lemma settle_ok:
  assumes "cycles_ok st" and "unsettled st" and "out \<noteq> readyUnset"
  shows "cycles_ok (settle_cycle out st)" and "keeps_outcomes st (settle_cycle out st)"
    and "outcomeOf (settle_cycle out st) (ps_cycle st) = out"
proof -
  obtain cs c where cs: "ps_cycles st = cs @ [c]" using assms(1)
    by (cases "ps_cycles st" rule: rev_cases) (auto simp: cycles_ok_def)
  have cur: "ps_cycle st = Some (length cs)" using assms(1) cs by (simp add: cycles_ok_def)
  have c: "cy_outcome c = readyUnset" using assms(1,2) by (simp add: unsettled_def cycle_at_ok cs)
  with assms(1) have open_ch: "\<not> cy_closed c" by (auto simp: cycles_ok_def cs)
  have s: "settle_cycle out st = st\<lparr>ps_cycles := cs @ [\<lparr>cy_closed = True, cy_outcome = out\<rparr>]\<rparr>"
    using assms(1) open_ch by (simp add: settle_cycle_def cur cs cycles_ok_def)
  show "cycles_ok (settle_cycle out st)" using assms(1,3) cur by (auto simp: s cycles_ok_def cs)
  show "keeps_outcomes st (settle_cycle out st)"
    using c by (auto simp: s keeps_outcomes_def cs nth_append less_Suc_eq)
  show "outcomeOf (settle_cycle out st) (ps_cycle st) = out" by (simp add: s cur outcomeOf_def)
qed

text \<open>An update that touches no cycle.\<close>

lemma frame_ok:
  assumes "ps_cycles st' = ps_cycles st" and "ps_cycle st' = ps_cycle st" and "ps_panicked st' = ps_panicked st"
  shows "cycles_ok st \<Longrightarrow> cycles_ok st'" and "keeps_outcomes st st'" and "unsettled st' = unsettled st"
    and "readySettled st' = readySettled st"
proof -
  have "cycle_at st' = cycle_at st" by (simp add: cycle_at_def assms split: option.splits)
  then show "unsettled st' = unsettled st" "readySettled st' = readySettled st"
    by (simp_all add: unsettled_def readySettled_def)
qed (use assms in \<open>auto simp: cycles_ok_def keeps_outcomes_def\<close>)

lemma settleLocked_ok:
  assumes "cycles_ok st" and "out \<noteq> readyUnset"
  shows "cycles_ok (settleLocked out st)" and "keeps_outcomes st (settleLocked out st)"
    and "\<not> unsettled (settleLocked out st)"
  using settle_ok [OF assms(1) _ assms(2)] assms(1)
proof -
  show "cycles_ok (settleLocked out st)" "keeps_outcomes st (settleLocked out st)"
    using settle_ok [OF assms(1) _ assms(2)] assms(1) by (auto simp: settleLocked_def)
  show "\<not> unsettled (settleLocked out st)"
  proof (cases "unsettled st")
    case True
    have "cycles_ok (settle_cycle out st)" by (rule settle_ok(1) [OF assms(1) True assms(2)])
    moreover have "ps_cycle (settle_cycle out st) = ps_cycle st" by (simp add: settle_cycle_def split: option.splits)
    ultimately have "cycle_at (settle_cycle out st) = Some (ps_cycles (settle_cycle out st) ! the (ps_cycle st))"
      by (auto simp: cycles_ok_def cycle_at_def)
    with settle_ok(3) [OF assms(1) True assms(2)] assms True show ?thesis
      by (auto simp: settleLocked_def unsettled_def outcomeOf_def cycles_ok_def split: if_splits option.splits)
  qed (simp add: settleLocked_def)
qed

lemma latchReady_ok:
  assumes "cycles_ok st" and "out \<noteq> readyUnset"
    and "\<And>s. admit st = Some s \<Longrightarrow>
      ps_cycles s = ps_cycles st \<and> ps_cycle s = ps_cycle st \<and> ps_panicked s = ps_panicked st"
  shows "cycles_ok (snd (latchReady out admit st)) \<and> keeps_outcomes st (snd (latchReady out admit st))"
proof (cases "unsettled st \<and> admit st \<noteq> None")
  case True
  then obtain s where s: "admit st = Some s" by blast
  have f: "ps_cycles s = ps_cycles st" "ps_cycle s = ps_cycle st" "ps_panicked s = ps_panicked st"
    using assms(3) [OF s] by auto
  have "cycles_ok s" "unsettled s" using frame_ok [OF f] assms(1) True by auto
  from settle_ok [OF this assms(2)] frame_ok(2) [OF f] keeps_outcomes_trans s True show ?thesis
    by (auto simp: latchReady_def)
next
  case False
  then show ?thesis using assms(1) by (auto simp: latchReady_def)
qed

lemma resetReady_ok:
  assumes "cycles_ok st"
  shows "cycles_ok (resetReady st) \<and> keeps_outcomes st (resetReady st)"
proof -
  have s: "cycles_ok (settleLocked readyAgain st)" "keeps_outcomes st (settleLocked readyAgain st)"
    using settleLocked_ok [OF assms, of readyAgain] by auto
  then have "cycles_ok (resetReady st)"
    by (auto simp: resetReady_def Let_def cycles_ok_def newReadyCycle_def)
  moreover have "keeps_outcomes (settleLocked readyAgain st) (resetReady st)"
    by (auto simp: resetReady_def Let_def keeps_outcomes_def nth_append)
  ultimately show ?thesis using s keeps_outcomes_trans by blast
qed

lemma settle_after_frame:
  assumes "cycles_ok st" and "out \<noteq> readyUnset"
    and "ps_cycles s = ps_cycles st" "ps_cycle s = ps_cycle st" "ps_panicked s = ps_panicked st"
  shows "cycles_ok (settleLocked out s) \<and> keeps_outcomes st (settleLocked out s)"
  using settleLocked_ok [OF frame_ok(1) [OF assms(3-5) assms(1)] assms(2)] frame_ok(2) [OF assms(3-5)]
    keeps_outcomes_trans by blast

lemma proc_op_ok: "proc_op st st' \<Longrightarrow> cycles_ok st \<Longrightarrow> cycles_ok st' \<and> keeps_outcomes st st'"
proof (induction rule: proc_op.induct)
  case (op_markReady st ok)
  then show ?case unfolding markReady_def by (intro latchReady_ok) auto
next
  case (op_markReadyFor st live gen ok owner)
  then show ?case
    unfolding markReadyFor_def by (intro latchReady_ok) (auto split: if_splits)
next
  case (op_reset st)
  then show ?case by (rule resetReady_ok)
next
  case (op_fail st msg)
  then show ?case unfolding failProcess_def by (intro settle_after_frame) auto
next
  case (op_end st)
  then show ?case unfolding endProcess_def by (intro settle_after_frame) auto
next
  case (op_stop st msg)
  then show ?case unfolding stopProcess_def by (intro settle_after_frame) auto
qed (auto simp: plain_ops Let_def cycles_ok_def keeps_outcomes_def split: option.splits)

interpretation ps: transition_invariant proc_op cycles_ok keeps_outcomes
  by unfold_locales (auto simp: proc_op_ok intro: keeps_outcomes_trans dest: proc_op_ok)

lemma cycles_ok_new: "cycles_ok (newProcState color)"
  by (simp add: cycles_ok_def newProcState_def newReadyCycle_def)

section \<open>Properties\<close>

text \<open>
  C5. Readiness verdicts are final: whatever critical sections of the run loop, probes, waiters and
  shutdown interleave on a fresh process state, a published outcome of a readiness cycle is never
  changed, the channel of a cycle is closed exactly when its outcome is published, and no channel
  is closed twice.
\<close>

theorem readiness_outcomes_final:
  assumes "proc_op\<^sup>*\<^sup>* (newProcState color) st" and "proc_op\<^sup>*\<^sup>* st st'"
  shows "keeps_outcomes st st' \<and> \<not> ps_panicked st'
    \<and> (\<forall>c \<in> set (ps_cycles st'). cy_closed c \<longleftrightarrow> cy_outcome c \<noteq> readyUnset)"
proof -
  have "cycles_ok st" by (rule ps.steps_inv [OF assms(1) cycles_ok_new])
  with ps.steps_keep [OF assms(2)] have "cycles_ok st'" "keeps_outcomes st st'" by auto
  then show ?thesis by (simp add: cycles_ok_def)
qed

theorem readiness_outcomes_final_witness:
  "keeps_outcomes (snd (markReady True (newProcState 0))) (resetReady (snd (markReady True (newProcState 0))))
   \<and> ps_cycles (resetReady (snd (markReady True (newProcState 0)))) =
      [\<lparr>cy_closed = True, cy_outcome = readySatisfied\<rparr>, newReadyCycle]"
proof
  have "proc_op\<^sup>*\<^sup>* (newProcState 0) (snd (markReady True (newProcState 0)))"
    by (rule r_into_rtranclp) (rule op_markReady)
  moreover have "proc_op\<^sup>*\<^sup>* (snd (markReady True (newProcState 0))) (resetReady (snd (markReady True (newProcState 0))))"
    by (rule r_into_rtranclp) (rule op_reset)
  ultimately show "keeps_outcomes (snd (markReady True (newProcState 0))) (resetReady (snd (markReady True (newProcState 0))))"
    using readiness_outcomes_final by blast
  show "ps_cycles (resetReady (snd (markReady True (newProcState 0)))) =
      [\<lparr>cy_closed = True, cy_outcome = readySatisfied\<rparr>, newReadyCycle]"
    by (simp add: markReady_def latchReady_def unsettled_def cycle_at_def newProcState_def newReadyCycle_def
        settle_cycle_def resetReady_def settleLocked_def Let_def)
qed

text \<open>
  A probe result that outlived its incarnation has no effect: once the incarnation's context is
  cancelled, or another generation has begun, marking it ready, failing its readiness and recording
  its health or the owner of its endpoint leave the state exactly as it was.
\<close>

theorem stale_probe_is_noop:
  assumes "\<not> live \<or> gen \<noteq> ps_generation st"
  shows "markReadyFor live gen ok owner st = (False, st)
    \<and> failReadinessFor live gen msg st = (False, st)
    \<and> recordHealth live gen ok detail restart st = (healthNone, st)
    \<and> recordHealthSkipped live gen detail st = (False, st)
    \<and> recordHealthOwner live gen owner st = (False, st)"
  using assms
  by (auto simp: markReadyFor_def latchReady_def failReadinessFor_def recordHealth_def recordHealthSkipped_def
      recordHealthOwner_def health_current_def split: option.splits)

theorem stale_probe_is_noop_witness:
  "markReadyFor True 7 True None (newProcState 0) = (False, newProcState 0)
    \<and> recordHealth True 7 False ''x'' True (newProcState 0) = (healthNone, newProcState 0)"
  using stale_probe_is_noop [of True 7 "newProcState 0" True None _ "''x''" True]
    stale_probe_is_noop [of True 7 "newProcState 0" False None _ "''x''" True]
  by (simp add: newProcState_def)

text \<open>The verdict after a sequence of checks of one running incarnation.\<close>

definition run_checks :: "64 word \<Rightarrow> bool \<Rightarrow> (bool \<times> string) list \<Rightarrow> procState \<Rightarrow> procState" where
  "run_checks gen restart rs st = foldl (\<lambda>s (ok, detail). snd (recordHealth True gen ok detail restart s)) st rs"

definition failing_tail :: "(bool \<times> string) list \<Rightarrow> nat" where
  "failing_tail rs = length (takeWhile (\<lambda>r. \<not> fst r) (rev rs))"

lemma run_checks_snoc:
  "run_checks gen restart (rs @ [(ok, d)]) st = snd (recordHealth True gen ok d restart (run_checks gen restart rs st))"
  by (simp add: run_checks_def)

lemma failing_tail_snoc: "failing_tail (rs @ [(ok, d)]) = (if ok then 0 else Suc (failing_tail rs))"
  by (simp add: failing_tail_def)

lemma failing_tail_le: "failing_tail rs \<le> length rs"
  unfolding failing_tail_def by (metis length_rev length_takeWhile_le)

lemma run_checks_state:
  assumes "health_current True gen st" and "ps_health st = healthUnknown" and "ps_healthFailures st = 0"
  shows "health_current True gen (run_checks gen restart rs st)
    \<and> ps_healthFailures (run_checks gen restart rs st) = int (failing_tail rs)
    \<and> ps_health (run_checks gen restart rs st) =
        (if failing_tail rs \<ge> 3 then healthUnhealthy
         else if failing_tail rs = length rs then healthUnknown else healthHealthy)
    \<and> (ps_probeFailed (run_checks gen restart rs st) \<longrightarrow> ps_probeFailed st \<or> restart)"
proof (induction rs rule: rev_induct)
  case Nil
  then show ?case using assms by (simp add: run_checks_def failing_tail_def)
next
  case (snoc r rs)
  obtain ok d where r: "r = (ok, d)" by (cases r)
  let ?s = "run_checks gen restart rs st"
  have cur: "health_current True gen ?s" using snoc by simp
  have "failing_tail rs \<le> length rs" by (rule failing_tail_le)
  with snoc cur show ?case
    unfolding r run_checks_snoc failing_tail_snoc
    by (auto simp: recordHealth_def health_current_def Let_def split: if_splits health_verdict.splits)
qed

text \<open>
  The health verdict of an incarnation depends only on its latest checks: it is unhealthy
  exactly while the last three or more checks in a row failed, a single pass makes it healthy
  again, and before any pass and before three failures it is unknown.
\<close>

theorem health_verdict_of_checks:
  assumes "health_current True gen st" and "ps_health st = healthUnknown" and "ps_healthFailures st = 0"
  shows "ps_health (run_checks gen restart rs st) =
    (if failing_tail rs \<ge> 3 then healthUnhealthy
     else if failing_tail rs = length rs then healthUnknown else healthHealthy)"
  using run_checks_state [OF assms] by blast

theorem health_verdict_of_checks_witness:
  "ps_health (run_checks 1 True [(True, []), (False, ''a''), (False, ''b''), (False, ''c'')]
     (setRunning 9 (beginIncarnation 0 True (newProcState 0)))) = healthUnhealthy"
  by (subst health_verdict_of_checks)
    (simp_all add: health_current_def setRunning_def beginIncarnation_def newProcState_def failing_tail_def)

text \<open>
  The end of a process is published in one step: after \<^verbatim>\<open>failProcess\<close>, \<^verbatim>\<open>endProcess\<close> and
  \<^verbatim>\<open>stopProcess\<close> the state is terminal, the disposition carries the matching verdict, the current
  cycle has settled, and the process is not advertised as ready.
\<close>

theorem terminal_transitions:
  assumes "cycles_ok st"
  shows "ps_state (failProcess msg st) = Failed \<and> disposition (failProcess msg st) = readyTerminal
      \<and> \<not> unsettled (failProcess msg st) \<and> \<not> currentlyReady (failProcess msg st)
    \<and> ps_state (endProcess st) = Exited \<and> disposition (endProcess st) = readyTerminal
      \<and> \<not> unsettled (endProcess st) \<and> \<not> currentlyReady (endProcess st)
    \<and> ps_state (stopProcess msg st) = Exited \<and> disposition (stopProcess msg st) = readyStopped
      \<and> \<not> unsettled (stopProcess msg st) \<and> \<not> currentlyReady (stopProcess msg st)"
proof -
  have st: "ps_state (settleLocked out s) = ps_state s" "ps_disposition (settleLocked out s) = ps_disposition s"
    for out s by (auto simp: settleLocked_def settle_cycle_def split: option.splits)
  have ok: "cycles_ok s \<Longrightarrow> out \<noteq> readyUnset \<Longrightarrow> \<not> unsettled (settleLocked out s)" for out s
    by (rule settleLocked_ok(3))
  have fr: "cycles_ok (st\<lparr>ps_state := a, ps_lastError := b, ps_disposition := c\<rparr>)"
      "cycles_ok (st\<lparr>ps_state := a, ps_disposition := c\<rparr>)" for a b c
    using frame_ok(1) [OF _ _ _ assms] by auto
  show ?thesis
    by (simp add: failProcess_def endProcess_def stopProcess_def disposition_def currentlyReady_def st ok fr)
qed

theorem terminal_transitions_witness:
  "ps_state (failProcess ''x'' (newProcState 0)) = Failed \<and> disposition (failProcess ''x'' (newProcState 0)) = readyTerminal"
  using terminal_transitions [OF cycles_ok_new, of "''x''" 0] by blast

end
