(* ===== verification/Lifecycle.thy ===== *)
theory Lifecycle
  imports Proc_State Config_Refs
begin

text \<open>
  The lifecycle of one process (\<^verbatim>\<open>internal/runner/lifecycle.go\<close>): waiting for dependencies, the restart
  loop of a service with its backoff and restart limit, and the single run of a task. The waiting
  dependent is a step relation that interleaves with every critical section on the dependency. The
  restart loop is a function of what each incarnation met: the operations other goroutines applied to
  the state, how the command ended, and whether a stop or a restart arrived. Times are nanoseconds.
\<close>

section \<open>Waiting for a dependency\<close>

record dependencyVerdict =
  dv_verdict :: readyOutcome
  dv_quiesced :: bool

abbreviation verdict :: "readyOutcome \<Rightarrow> dependencyVerdict" where
  "verdict v \<equiv> \<lparr>dv_verdict = v, dv_quiesced = False\<rparr>"

text \<open>Where the loop is: at its head, in the select, after reading an outcome, or returned.\<close>

datatype wait_pc = WaitTop | WaitOn "nat option" | WaitRead "nat option" readyOutcome | WaitDone dependencyVerdict

record wait_env =
  we_dep :: procState
  we_handoff :: bool
  we_cancelled :: bool

definition cycle_closed :: "procState \<Rightarrow> nat option \<Rightarrow> bool" where
  "cycle_closed st c = (case c of
     None \<Rightarrow> False | Some i \<Rightarrow> i < length (ps_cycles st) \<and> cy_closed (ps_cycles st ! i))"

definition on_outcome :: "procState \<Rightarrow> nat option \<Rightarrow> readyOutcome \<Rightarrow> wait_pc" where
  "on_outcome dep c out = (case out of
     readySatisfied \<Rightarrow> WaitDone (verdict out)
   | readyTerminal \<Rightarrow> WaitDone (verdict out)
   | readyStopped \<Rightarrow> WaitDone (verdict out)
   | readyAgain \<Rightarrow> if currentReadyCycle dep = c then WaitDone (verdict readyStopped) else WaitTop
   | readyUnset \<Rightarrow> WaitTop)"

inductive waitForDependency :: "wait_pc \<times> wait_env \<Rightarrow> wait_pc \<times> wait_env \<Rightarrow> bool" where
  wait_dep: "proc_op (we_dep e) dep' \<Longrightarrow> waitForDependency (pc, e) (pc, e\<lparr>we_dep := dep'\<rparr>)"
| wait_signal_handoff: "waitForDependency (pc, e) (pc, e\<lparr>we_handoff := True\<rparr>)"
| wait_signal_cancel: "waitForDependency (pc, e) (pc, e\<lparr>we_cancelled := True\<rparr>)"
| wait_top: "waitForDependency (WaitTop, e) (WaitOn (currentReadyCycle (we_dep e)), e)"
| wait_handoff: "we_handoff e \<Longrightarrow> waitForDependency (WaitOn c, e)
    (WaitDone \<lparr>dv_verdict = readyUnset, dv_quiesced = True\<rparr>, e)"
| wait_cancel: "we_cancelled e \<Longrightarrow> waitForDependency (WaitOn c, e)
    (WaitDone (verdict (if disposition (we_dep e) = readyTerminal then readyTerminal else readyStopped)), e)"
| wait_settled: "cycle_closed (we_dep e) c \<Longrightarrow> waitForDependency (WaitOn c, e)
    (WaitRead c (outcomeOf (we_dep e) c), e)"
| wait_outcome: "waitForDependency (WaitRead c out, e) (on_outcome (we_dep e) c out, e)"

inductive_cases waitForDependencyE: "waitForDependency (pc, e) (pc', e')"

section \<open>Timing\<close>

abbreviation Second :: int where "Second \<equiv> 1000000000"

definition nextBackoff :: "int \<Rightarrow> int" where
  "nextBackoff cur = min (2 * cur) (30 * Second)"

text \<open>A 64-bit signed product wraps.\<close>

definition int64 :: "int \<Rightarrow> int" where
  "int64 i = (i + 2 ^ 63) mod 2 ^ 64 - 2 ^ 63"

definition resolveReadyTimeout :: "int \<Rightarrow> int" where
  "resolveReadyTimeout seconds =
     (if seconds < 0 then 0 else if seconds = 0 then 60 * Second else int64 (seconds * Second))"

section \<open>The restart loop\<close>

record processRunResult =
  rr_failed :: bool
  rr_failFast :: bool
  rr_quiesced :: bool

definition result :: "bool \<Rightarrow> bool \<Rightarrow> bool \<Rightarrow> processRunResult" where
  "result failed failFast quiesced = \<lparr>rr_failed = failed, rr_failFast = failFast, rr_quiesced = quiesced\<rparr>"

text \<open>
  What the command, its probes and other goroutines do to the state while an incarnation runs; the
  live flag and the generation are those the caller holds.
\<close>

datatype side_op =
    SideRunning int
  | SideExitCode int
  | SideReady bool "64 word" "EndpointOwner option"
  | SideRefused "64 word" "EndpointOwner option"
  | SideFailReadiness bool "64 word" string
  | SideHealth bool "64 word" bool string bool
  | SideHealthSkipped bool "64 word" string
  | SideHealthOwner bool "64 word" "EndpointOwner option"
  | SideRequestRestart
  | SideTakeRestart

fun apply_side :: "side_op \<Rightarrow> procState \<Rightarrow> procState" where
  "apply_side (SideRunning pid) st = setRunning pid st"
| "apply_side (SideExitCode code) st = setExitCode code st"
| "apply_side (SideReady live gen owner) st = snd (markReadyFor live gen True owner st)"
| "apply_side (SideRefused gen owner) st = snd (recordRefusedOwner gen owner st)"
| "apply_side (SideFailReadiness live gen msg) st = snd (failReadinessFor live gen msg st)"
| "apply_side (SideHealth live gen ok detail restart) st = snd (recordHealth live gen ok detail restart st)"
| "apply_side (SideHealthSkipped live gen detail) st = snd (recordHealthSkipped live gen detail st)"
| "apply_side (SideHealthOwner live gen owner) st = snd (recordHealthOwner live gen owner st)"
| "apply_side SideRequestRestart st = requestRestart st"
| "apply_side SideTakeRestart st = takeRestart st"

text \<open>How \<^verbatim>\<open>exec\<close> returned: the flag of an error says that it wraps \<^verbatim>\<open>errTreeUnconfirmed\<close>.\<close>

datatype exec_result = ExecOk | ExecErr string bool | ExecHandoff

datatype wait_result = WaitStopped | WaitRequested | WaitTimer

record incarnation =
  in_now :: int
  in_proc :: Process
  in_during :: "side_op list"
  in_exec :: exec_result
  in_longer :: bool
  in_stopped :: bool
  in_restart :: bool
  in_wait :: wait_result

definition giveUp :: "Process \<Rightarrow> procState \<Rightarrow> procState" where
  "giveUp proc st =
     failProcess (''max restarts ('' @ Itoa (p_MaxRestarts proc) @ '') reached, giving up'') st"

definition waitBeforeRestart :: "wait_result \<Rightarrow> procState \<Rightarrow> int \<Rightarrow> procState \<times> int \<times> bool" where
  "waitBeforeRestart w st backoff = (case w of
     WaitStopped \<Rightarrow> (stopProcess [] st, backoff, False)
   | WaitRequested \<Rightarrow> (takeRestart st, Second, True)
   | WaitTimer \<Rightarrow> (st, nextBackoff backoff, True))"

text \<open>Resetting readiness, counting the restart and waiting: the tail both restart paths share.\<close>

definition restart_path ::
  "incarnation \<Rightarrow> procState \<Rightarrow> int \<Rightarrow> (processRunResult \<times> procState) + (procState \<times> int)" where
  "restart_path i st backoff =
     (case waitBeforeRestart (in_wait i) (countRestart (resetReady st)) backoff of
        (st', backoff', restart) \<Rightarrow>
          if restart then Inr (st', backoff') else Inl (result False False False, st'))"

definition limit_reached :: "Process \<Rightarrow> procState \<Rightarrow> bool" where
  "limit_reached proc st = (p_MaxRestarts proc > 0 \<and> ps_restarts st + 1 > p_MaxRestarts proc)"

text \<open>The error that decides: a failed probe turns a clean exit into a failure.\<close>

definition exit_error :: "exec_result \<Rightarrow> procState \<Rightarrow> (string \<times> bool) option" where
  "exit_error r st = (case r of
     ExecErr msg unconfirmed \<Rightarrow> Some (msg, unconfirmed)
   | _ \<Rightarrow> if ps_probeFailed st then Some (ps_lastError st, False) else None)"

text \<open>The restart policy after an exit that was neither a stop nor a requested restart.\<close>

definition restart_policy ::
  "incarnation \<Rightarrow> (string \<times> bool) option \<Rightarrow> procState \<Rightarrow> int \<Rightarrow>
   (processRunResult \<times> procState) + (procState \<times> int)" where
  "restart_policy i err st backoff = (case err of
     None \<Rightarrow>
       if p_Restart (in_proc i) = ''always''
       then if limit_reached (in_proc i) (setExited st)
            then Inl (result True False False, giveUp (in_proc i) (setExited st))
            else restart_path i (setExited st) backoff
       else Inl (result False False False, endProcess st)
   | Some (msg, unconfirmed) \<Rightarrow>
       if p_Restart (in_proc i) = ''never'' \<or> unconfirmed
       then Inl (result True False False, failProcess [] (noteError msg st))
       else if limit_reached (in_proc i) (noteError msg st)
       then Inl (result True False False, giveUp (in_proc i) (noteError msg st))
       else restart_path i (noteError msg st) backoff)"

text \<open>The state an incarnation ends in, before the loop decides what follows.\<close>

definition after_exec :: "incarnation \<Rightarrow> procState \<Rightarrow> procState" where
  "after_exec i st = fold apply_side (in_during i) (beginIncarnation (in_now i) (p_HealthWhen (in_proc i) \<noteq> None) st)"

text \<open>One turn of the loop: \<open>Inl\<close> when \<^verbatim>\<open>runProcess\<close> returns, \<open>Inr\<close> when it goes round again.\<close>

definition incarnate ::
  "incarnation \<Rightarrow> procState \<Rightarrow> int \<Rightarrow> (processRunResult \<times> procState) + (procState \<times> int)" where
  "incarnate i st0 backoff =
     (let st = after_exec i st0
      in if in_exec i = ExecHandoff then Inl (result False False True, st)
         else if in_stopped i then Inl (result False False False, stopProcess [] st)
         else if in_restart i then Inr (countRestart (resetReady st), Second)
         else restart_policy i (exit_error (in_exec i) st) st (if in_longer i then Second else backoff))"

text \<open>The loop over the incarnations met so far; \<open>Inr\<close> when it is still running after them.\<close>

fun service_loop ::
  "incarnation list \<Rightarrow> procState \<Rightarrow> int \<Rightarrow> (processRunResult \<times> procState) + (procState \<times> int)" where
  "service_loop [] st backoff = Inr (st, backoff)"
| "service_loop (i # is) st backoff =
     (case incarnate i st backoff of
        Inl r \<Rightarrow> Inl r
      | Inr (st', backoff') \<Rightarrow> service_loop is st' backoff')"

section \<open>Tasks\<close>

record task_run =
  tr_now :: int
  tr_during :: "side_op list"
  tr_exec :: exec_result
  tr_cancelled :: bool

definition runTaskProcess :: "task_run \<Rightarrow> procState \<Rightarrow> processRunResult \<times> procState" where
  "runTaskProcess t st0 =
     (let st = fold apply_side (tr_during t) (beginTask (tr_now t) st0)
      in if tr_exec t = ExecHandoff then (result False False True, st)
         else let st1 = clearPid st
              in if tr_cancelled t then (result False False False, stopProcess [] st1)
                 else case tr_exec t of
                        ExecErr msg _ \<Rightarrow> (result True True False, failProcess (''task failed: '' @ msg) st1)
                      | _ \<Rightarrow> (result False False False, snd (markReady True (setCompleted st1))))"

section \<open>runProcess\<close>

text \<open>
  The dependency phase: for each dependency, in order, what waiting for it gave, or \<open>None\<close> when the
  store has no state for it. The result \<open>None\<close> continues.
\<close>

fun dependency_phase ::
  "(string \<times> dependencyVerdict option) list \<Rightarrow> procState \<Rightarrow> (processRunResult \<times> procState) option" where
  "dependency_phase [] st = None"
| "dependency_phase ((dep, None) # rest) st = dependency_phase rest st"
| "dependency_phase ((dep, Some v) # rest) st =
     (if dv_quiesced v then Some (result False False True, st)
      else case dv_verdict v of
             readyTerminal \<Rightarrow>
               Some (result True False False, failProcess (''dependency '' @ Quote dep @ '' failed'') st)
           | readyStopped \<Rightarrow>
               Some (result False False False,
                     stopProcess (''stopped while waiting for dependency '' @ Quote dep) st)
           | _ \<Rightarrow> dependency_phase rest st)"

text \<open>\<open>waits k\<close> is what waiting for the dependency at position \<open>k\<close> gave.\<close>

definition waited :: "Process \<Rightarrow> (nat \<Rightarrow> dependencyVerdict option) \<Rightarrow> (string \<times> dependencyVerdict option) list" where
  "waited proc waits = map (\<lambda>k. (p_DependsOn proc ! k, waits k)) [0..<length (p_DependsOn proc)]"

definition runProcess ::
  "Process \<Rightarrow> (nat \<Rightarrow> dependencyVerdict option) \<Rightarrow> task_run \<Rightarrow> incarnation list \<Rightarrow> procState \<Rightarrow>
   (processRunResult \<times> procState) + (procState \<times> int)" where
  "runProcess proc waits t is st =
     (case dependency_phase (waited proc waits) st of
        Some r \<Rightarrow> Inl r
      | None \<Rightarrow>
          if EffectiveMode proc = ProcessModeTask then Inl (runTaskProcess t st)
          else service_loop is st Second)"

text \<open>The verdict of a finished http, tcp or cmd probe; the flag says that the caller cancels the incarnation.\<close>

definition handleProbeResult ::
  "bool \<Rightarrow> 64 word \<Rightarrow> string \<Rightarrow> bool \<Rightarrow> string \<Rightarrow> EndpointOwner option \<Rightarrow> procState \<Rightarrow> bool \<times> procState" where
  "handleProbeResult live gen kind ok detail owner st =
     (if ok then (False, snd (markReadyFor live gen True owner st))
      else let msg = ''readiness probe ('' @ kind @ '') timed out''
                   @ (if detail \<noteq> [] then '' (last attempt: '' @ detail @ '')'' else [])
           in failReadinessFor live gen msg st)"

section \<open>Lemmas on waiting\<close>

text \<open>A cycle that ended without a verdict is never the current one.\<close>

definition current_live :: "procState \<Rightarrow> bool" where
  "current_live st = (cycles_ok st \<and> outcomeOf st (ps_cycle st) \<noteq> readyAgain)"

lemma settle_cycle_cycle [simp]: "ps_cycle (settle_cycle out st) = ps_cycle st"
  by (simp add: settle_cycle_def split: option.splits)

lemma live_frame:
  "ps_cycles st' = ps_cycles st \<Longrightarrow> ps_cycle st' = ps_cycle st \<Longrightarrow> ps_panicked st' = ps_panicked st \<Longrightarrow>
     current_live st \<Longrightarrow> current_live st'"
  using frame_ok(1) [of st' st] by (auto simp: current_live_def outcomeOf_def split: option.splits if_splits)

lemma live_settle:
  assumes "current_live s" and "out \<notin> {readyUnset, readyAgain}"
  shows "current_live (settleLocked out s)"
proof (cases "unsettled s")
  case True
  with assms settle_ok [of s out] show ?thesis by (simp add: current_live_def settleLocked_def)
qed (use assms in \<open>simp add: settleLocked_def\<close>)

lemma live_latch:
  assumes "current_live st" and "out \<notin> {readyUnset, readyAgain}"
    and "\<And>s. admit st = Some s \<Longrightarrow>
      ps_cycles s = ps_cycles st \<and> ps_cycle s = ps_cycle st \<and> ps_panicked s = ps_panicked st"
  shows "current_live (snd (latchReady out admit st))"
proof (cases "unsettled st \<and> admit st \<noteq> None")
  case True
  then obtain s where s: "admit st = Some s" by blast
  have l: "current_live s" using live_frame [of s st] assms(1) assms(3) [OF s] by blast
  have u: "unsettled s" using frame_ok(3) [of s st] assms(3) [OF s] True by blast
  from live_settle [OF l assms(2)] u s True show ?thesis by (simp add: latchReady_def settleLocked_def)
qed (use assms(1) in \<open>auto simp: latchReady_def\<close>)

lemma live_op: "proc_op st st' \<Longrightarrow> current_live st \<Longrightarrow> current_live st'"
proof (induction rule: proc_op.induct)
  case (op_markReady st ok)
  then show ?case unfolding markReady_def by (intro live_latch) auto
next
  case (op_markReadyFor st live gen ok owner)
  then show ?case unfolding markReadyFor_def by (intro live_latch) (auto split: if_splits)
next
  case (op_reset st)
  then show ?case using resetReady_ok [of st]
    by (auto simp: current_live_def resetReady_def Let_def outcomeOf_def newReadyCycle_def)
next
  case (op_fail st msg)
  then show ?case unfolding failProcess_def by (intro live_settle live_frame [OF _ _ _ op_fail]) auto
next
  case (op_end st)
  then show ?case unfolding endProcess_def by (intro live_settle live_frame [OF _ _ _ op_end]) auto
next
  case (op_stop st msg)
  then show ?case unfolding stopProcess_def by (intro live_settle live_frame [OF _ _ _ op_stop]) auto
qed (erule live_frame [rotated 3]; auto simp: plain_ops Let_def split: option.splits)+

definition published :: "procState \<Rightarrow> readyOutcome \<Rightarrow> bool" where
  "published st v = (\<exists>i. outcomeOf st (Some i) = v)"

lemma outcome_kept:
  "keeps_outcomes st st' \<Longrightarrow> outcomeOf st c = out \<Longrightarrow> out \<noteq> readyUnset \<Longrightarrow> outcomeOf st' c = out"
  by (cases c) (auto simp: keeps_outcomes_def outcomeOf_def split: if_splits)

lemma published_kept: "keeps_outcomes st st' \<Longrightarrow> published st v \<Longrightarrow> v \<noteq> readyUnset \<Longrightarrow> published st' v"
  unfolding published_def using outcome_kept by blast

fun wait_inv :: "wait_pc \<times> wait_env \<Rightarrow> bool" where
  "wait_inv (pc, e) = (current_live (we_dep e) \<and> (case pc of
       WaitTop \<Rightarrow> True
     | WaitOn c \<Rightarrow> (\<exists>i. c = Some i \<and> i < length (ps_cycles (we_dep e)))
     | WaitRead c out \<Rightarrow> (\<exists>i. c = Some i \<and> i < length (ps_cycles (we_dep e)))
         \<and> outcomeOf (we_dep e) c = out \<and> out \<noteq> readyUnset
     | WaitDone v \<Rightarrow> if dv_quiesced v then we_handoff e
         else dv_verdict v \<in> {readySatisfied, readyTerminal, readyStopped}
           \<and> (dv_verdict v = readySatisfied \<or> \<not> we_cancelled e \<longrightarrow> published (we_dep e) (dv_verdict v))))"

lemma wait_inv_dep:
  assumes "wait_inv (pc, e)" and "proc_op (we_dep e) dep'"
  shows "wait_inv (pc, e\<lparr>we_dep := dep'\<rparr>)"
proof -
  have live: "current_live dep'" and ok: "cycles_ok (we_dep e)"
    using assms live_op by (auto simp: current_live_def)
  have k: "keeps_outcomes (we_dep e) dep'" using proc_op_ok [OF assms(2) ok] by simp
  then have len: "length (ps_cycles (we_dep e)) \<le> length (ps_cycles dep')" by (simp add: keeps_outcomes_def)
  show ?thesis
  proof (cases pc)
    case (WaitDone v)
    then show ?thesis using assms(1) live published_kept [OF k] by (cases "dv_quiesced v") auto
  qed (use assms(1) live len outcome_kept [OF k] in auto)
qed

lemma wait_inv_outcome:
  assumes "wait_inv (WaitRead c out, e)"
  shows "wait_inv (on_outcome (we_dep e) c out, e)"
proof -
  obtain i where c: "c = Some i" and out: "outcomeOf (we_dep e) (Some i) = out" "out \<noteq> readyUnset"
    and live: "current_live (we_dep e)" using assms by auto
  have "out = readyAgain \<Longrightarrow> currentReadyCycle (we_dep e) \<noteq> c"
    using live out c by (auto simp: current_live_def currentReadyCycle_def)
  with out live c show ?thesis
    by (cases out) (auto simp: on_outcome_def published_def)
qed

lemma wait_inv_step: "waitForDependency s s' \<Longrightarrow> wait_inv s \<Longrightarrow> wait_inv s'"
proof (induction rule: waitForDependency.induct)
  case (wait_dep e dep' pc)
  then show ?case by (intro wait_inv_dep)
next
  case (wait_signal_cancel pc e)
  then show ?case by (cases pc) (auto split: if_splits)
next
  case (wait_signal_handoff pc e)
  then show ?case by (cases pc) (auto split: if_splits)
next
  case (wait_top e)
  then show ?case
    by (auto simp: current_live_def cycles_ok_def currentReadyCycle_def intro: diff_less)
next
  case (wait_settled e c)
  then obtain i where c: "c = Some i" "i < length (ps_cycles (we_dep e))" "current_live (we_dep e)"
    and cl: "cy_closed (ps_cycles (we_dep e) ! i)" by (auto simp: cycle_closed_def)
  then have "cy_outcome (ps_cycles (we_dep e) ! i) \<noteq> readyUnset"
    by (auto simp: current_live_def cycles_ok_def)
  with c show ?case by (auto simp: outcomeOf_def)
next
  case (wait_outcome c out e)
  then show ?case by (intro wait_inv_outcome)
qed auto

interpretation wt: transition_invariant waitForDependency wait_inv "\<lambda>_ _. True"
  by unfold_locales (auto intro: wait_inv_step)

lemma wait_rereads_newer:
  assumes "wait_inv (WaitRead c out, e)" and "on_outcome (we_dep e) c out = WaitTop"
  shows "\<exists>i j. c = Some i \<and> currentReadyCycle (we_dep e) = Some j \<and> i < j"
proof -
  obtain i where c: "c = Some i" "i < length (ps_cycles (we_dep e))" and live: "cycles_ok (we_dep e)"
    and out: "out \<noteq> readyUnset" using assms(1) by (auto simp: current_live_def)
  have "currentReadyCycle (we_dep e) \<noteq> c"
    using assms(2) out by (cases out) (auto simp: on_outcome_def split: if_splits)
  moreover have "currentReadyCycle (we_dep e) = Some (length (ps_cycles (we_dep e)) - 1)"
    using live by (simp add: cycles_ok_def currentReadyCycle_def)
  ultimately show ?thesis
    using c by (intro exI [of _ i] exI [of _ "length (ps_cycles (we_dep e)) - 1"]) auto
qed

section \<open>Lemmas on the restart loop\<close>

lemma apply_side_op: "proc_op st (apply_side op st)"
  by (cases op) (auto intro: proc_op.intros)

lemma apply_side_restarts [simp]: "ps_restarts (apply_side op st) = ps_restarts st"
  by (cases op)
    (auto simp: plain_ops markReadyFor_def latchReady_def settle_cycle_def Let_def split: option.splits)

lemma side_ops: "proc_op\<^sup>*\<^sup>* st (fold apply_side ops st) \<and> ps_restarts (fold apply_side ops st) = ps_restarts st"
proof (induction ops arbitrary: st)
  case (Cons op ops)
  have "proc_op\<^sup>*\<^sup>* st (apply_side op st)" by (rule r_into_rtranclp) (rule apply_side_op)
  with Cons.IH [of "apply_side op st"] show ?case by (auto intro: rtranclp_trans)
qed simp

lemma settleLocked_fields [simp]:
  "ps_state (settleLocked out s) = ps_state s" "ps_disposition (settleLocked out s) = ps_disposition s"
  "ps_restarts (settleLocked out s) = ps_restarts s"
  by (auto simp: settleLocked_def settle_cycle_def split: option.splits)

text \<open>The end of a lifecycle: terminal state, disposition and readiness verdict all published.\<close>

definition ended :: "bool \<Rightarrow> procState \<Rightarrow> bool" where
  "ended failed st = (\<not> unsettled st
     \<and> (if failed then ps_state st = Failed \<and> ps_disposition st = readyTerminal
        else ps_state st = Exited \<and> ps_disposition st \<in> {readyTerminal, readyStopped}))"

lemma ended_transitions:
  assumes "cycles_ok st"
  shows "ended True (failProcess msg st)" "ended False (endProcess st)" "ended False (stopProcess msg st)"
proof -
  have "cycles_ok (st\<lparr>ps_state := a, ps_lastError := b, ps_disposition := c\<rparr>)"
      "cycles_ok (st\<lparr>ps_state := a, ps_disposition := c\<rparr>)" for a b c
    using frame_ok(1) [OF _ _ _ assms] by auto
  then show "ended True (failProcess msg st)" "ended False (endProcess st)" "ended False (stopProcess msg st)"
    by (simp_all add: ended_def failProcess_def endProcess_def stopProcess_def settleLocked_ok(3))
qed

lemma giveUp_ended: "cycles_ok st \<Longrightarrow> ended True (giveUp proc st)"
  by (simp add: giveUp_def ended_transitions)

lemma cycles_ok_plain [simp]:
  "cycles_ok st \<Longrightarrow> cycles_ok (setExited st)" "cycles_ok st \<Longrightarrow> cycles_ok (noteError msg st)"
  "cycles_ok st \<Longrightarrow> cycles_ok (countRestart st)" "cycles_ok st \<Longrightarrow> cycles_ok (takeRestart st)"
  "cycles_ok st \<Longrightarrow> cycles_ok (resetReady st)" "cycles_ok st \<Longrightarrow> cycles_ok (beginIncarnation now h st)"
  "cycles_ok st \<Longrightarrow> cycles_ok (beginTask now st)" "cycles_ok st \<Longrightarrow> cycles_ok (clearPid st)"
  "cycles_ok st \<Longrightarrow> cycles_ok (setCompleted st)"
proof -
  have "proc_op st st' \<Longrightarrow> cycles_ok st \<Longrightarrow> cycles_ok st'" for st' using proc_op_ok by blast
  note keep = this
  show "cycles_ok st \<Longrightarrow> cycles_ok (setExited st)" "cycles_ok st \<Longrightarrow> cycles_ok (noteError msg st)"
    "cycles_ok st \<Longrightarrow> cycles_ok (countRestart st)" "cycles_ok st \<Longrightarrow> cycles_ok (takeRestart st)"
    "cycles_ok st \<Longrightarrow> cycles_ok (resetReady st)" "cycles_ok st \<Longrightarrow> cycles_ok (beginIncarnation now h st)"
    "cycles_ok st \<Longrightarrow> cycles_ok (beginTask now st)" "cycles_ok st \<Longrightarrow> cycles_ok (clearPid st)"
    "cycles_ok st \<Longrightarrow> cycles_ok (setCompleted st)"
    by (rule keep, rule proc_op.intros, assumption)+
qed

lemma countRestart_restarts [simp]: "ps_restarts (countRestart st) = ps_restarts st + 1"
  by (simp add: countRestart_def)

lemma resetReady_restarts [simp]: "ps_restarts (resetReady st) = ps_restarts st"
  by (simp add: resetReady_def Let_def)

lemma restart_path_cases:
  assumes "cycles_ok st"
  shows "case restart_path i st b of
     Inl (res, st') \<Rightarrow> res = result False False False \<and> ended False st'
   | Inr (st', b') \<Rightarrow> cycles_ok st' \<and> ps_restarts st' = ps_restarts st + 1 \<and> b' \<in> {Second, nextBackoff b}"
proof -
  have ok: "cycles_ok (countRestart (resetReady st))" using assms by simp
  have n: "ps_restarts (countRestart (resetReady st)) = ps_restarts st + 1" by (simp add: countRestart_def)
  show ?thesis
    using ok n ended_transitions(3) [OF ok, of "[]"]
    by (cases "in_wait i") (simp_all add: restart_path_def waitBeforeRestart_def takeRestart_def [of "countRestart _"],
        simp_all add: cycles_ok_def)
qed

lemma after_exec_ok:
  assumes "cycles_ok st"
  shows "cycles_ok (after_exec i st)" and "ps_restarts (after_exec i st) = ps_restarts st"
proof -
  let ?s = "beginIncarnation (in_now i) (p_HealthWhen (in_proc i) \<noteq> None) st"
  have "cycles_ok ?s" using assms by simp
  then show "cycles_ok (after_exec i st)"
    unfolding after_exec_def by (rule ps.steps_inv [OF conjunct1 [OF side_ops]])
  show "ps_restarts (after_exec i st) = ps_restarts st"
    by (simp add: after_exec_def side_ops beginIncarnation_def)
qed

end
