(* ===== verification/Lifecycle_Correct.thy ===== *)
theory Lifecycle_Correct
  imports Lifecycle
begin

text \<open>
  The properties of one process's lifecycle: what waiting for a dependency returns and that it cannot
  wait for ever on an ended one, that a process starts only behind satisfied dependencies, how the
  restart loop of a service ends, its restart limit and backoff, and the outcome of a task.
\<close>

section \<open>One turn of the restart loop\<close>

fun turn_ok :: "incarnation \<Rightarrow> procState \<Rightarrow> int \<Rightarrow> (processRunResult \<times> procState) + (procState \<times> int) \<Rightarrow> bool" where
  "turn_ok i st b (Inl (res, st')) =
     (if rr_quiesced res then in_exec i = ExecHandoff \<and> \<not> rr_failed res else ended (rr_failed res) st')"
| "turn_ok i st b (Inr (st', b')) =
     (cycles_ok st' \<and> ps_restarts st' = ps_restarts st + 1 \<and> b' \<in> {Second, nextBackoff Second, nextBackoff b}
      \<and> (in_restart i \<or> \<not> limit_reached (in_proc i) st))"

lemma turn_ok_ended: "ended failed st' \<Longrightarrow> turn_ok i st b (Inl (result failed ff False, st'))"
  by (simp add: result_def)

lemma turn_ok_restart:
  assumes "cycles_ok s" and "ps_restarts s = ps_restarts st" and "\<not> limit_reached (in_proc i) s"
    and "b' \<in> {Second, b}"
  shows "turn_ok i st b (restart_path i s b')"
proof -
  have l: "limit_reached (in_proc i) s = limit_reached (in_proc i) st" using assms(2) by (simp add: limit_reached_def)
  show ?thesis
    using restart_path_cases [OF assms(1), where i = i and b = b'] assms(2-4) l
    by (cases "restart_path i s b'") (auto simp: result_def)
qed

lemma restart_policy_turn:
  assumes "cycles_ok s" and "ps_restarts s = ps_restarts st" and b: "b' \<in> {Second, b}"
  shows "turn_ok i st b (restart_policy i err s b')"
proof -
  have ok: "cycles_ok (noteError m s)" "cycles_ok (setExited s)" for m using assms by simp_all
  have n: "ps_restarts (noteError m s) = ps_restarts st" "ps_restarts (setExited s) = ps_restarts st" for m
    using assms by (simp_all add: noteError_def setExited_def)
  note leaves = turn_ok_ended [OF ended_transitions(2) [OF assms(1)]] turn_ok_ended [OF ended_transitions(1) [OF ok(1)]]
    turn_ok_ended [OF giveUp_ended [OF ok(1)]] turn_ok_ended [OF giveUp_ended [OF ok(2)]]
    turn_ok_restart [OF ok(1) n(1) _ b] turn_ok_restart [OF ok(2) n(2) _ b]
  show ?thesis
    by (cases err) (auto simp: restart_policy_def simp del: turn_ok.simps intro: leaves)
qed

lemma incarnate_turn:
  assumes "cycles_ok st"
  shows "turn_ok i st b (incarnate i st b)"
proof -
  let ?s = "after_exec i st"
  have ok: "cycles_ok ?s" and n: "ps_restarts ?s = ps_restarts st" using after_exec_ok [OF assms] by auto
  have "in_restart i \<Longrightarrow> turn_ok i st b (Inr (countRestart (resetReady ?s), Second))"
    using ok n by simp
  then show ?thesis
    using turn_ok_ended [OF ended_transitions(3) [OF ok], of i st b] restart_policy_turn [OF ok n]
    by (simp add: incarnate_def Let_def result_def del: turn_ok.simps(2))
qed

section \<open>Waiting ends\<close>

text \<open>Every cycle but the current one has settled.\<close>

definition older_settled :: "procState \<Rightarrow> bool" where
  "older_settled st = (current_live st
     \<and> (\<forall>i. Suc i < length (ps_cycles st) \<longrightarrow> cy_outcome (ps_cycles st ! i) \<noteq> readyUnset))"

lemma settle_cycle_length [simp]: "length (ps_cycles (settle_cycle out st)) = length (ps_cycles st)"
  by (simp add: settle_cycle_def split: option.splits)

lemma settleLocked_length [simp]: "length (ps_cycles (settleLocked out st)) = length (ps_cycles st)"
  by (simp add: settleLocked_def)

lemma latchReady_length:
  "(\<And>s. admit st = Some s \<Longrightarrow> ps_cycles s = ps_cycles st) \<Longrightarrow>
     length (ps_cycles (snd (latchReady out admit st))) = length (ps_cycles st)"
  by (simp add: latchReady_def split: option.splits)

lemma proc_op_length:
  "proc_op st st' \<Longrightarrow> length (ps_cycles st') = length (ps_cycles st) \<or> st' = resetReady st"
proof (induction rule: proc_op.induct)
  case (op_markReady st ok)
  then show ?case unfolding markReady_def by (intro disjI1 latchReady_length) auto
next
  case (op_markReadyFor st live gen ok owner)
  then show ?case unfolding markReadyFor_def by (intro disjI1 latchReady_length) (auto split: if_splits)
qed (auto simp: plain_ops failProcess_def endProcess_def stopProcess_def Let_def split: option.splits)

lemma older_settled_op: "proc_op st st' \<Longrightarrow> older_settled st \<Longrightarrow> older_settled st'"
proof -
  assume op: "proc_op st st'" and old: "older_settled st"
  have ok: "cycles_ok st" and live: "current_live st'"
    using old op live_op by (auto simp: older_settled_def current_live_def)
  have k: "keeps_outcomes st st'" using proc_op_ok [OF op ok] by simp
  have "cy_outcome (ps_cycles st' ! i) \<noteq> readyUnset" if i: "Suc i < length (ps_cycles st')" for i
  proof (cases "Suc i < length (ps_cycles st)")
    case True
    with k old show ?thesis by (auto simp: keeps_outcomes_def older_settled_def)
  next
    case False
    with i proc_op_length [OF op] have r: "st' = resetReady st" by auto
    let ?s = "settleLocked readyAgain st"
    have ok': "cycles_ok ?s" and u: "\<not> unsettled ?s" using settleLocked_ok [OF ok, of readyAgain] by auto
    from i r False have "i = length (ps_cycles ?s) - 1" by (simp add: resetReady_def Let_def)
    moreover have "ps_cycles ?s \<noteq> []" "ps_cycles st \<noteq> []" using ok' ok by (simp_all add: cycles_ok_def)
    ultimately have "ps_cycles st' ! i = last (ps_cycles ?s)"
      by (simp add: r resetReady_def Let_def nth_append last_conv_nth)
    with u show ?thesis by (simp add: unsettled_def cycle_at_ok [OF ok'])
  qed
  with live show ?thesis by (simp add: older_settled_def)
qed

lemma older_cycles_ok: "older_settled st \<Longrightarrow> cycles_ok st"
  by (simp add: older_settled_def current_live_def)

interpretation os: transition_invariant proc_op older_settled keeps_outcomes
  by unfold_locales (auto intro: older_settled_op keeps_outcomes_trans conjunct2 [OF proc_op_ok] older_cycles_ok)

lemma older_settled_new: "older_settled (newProcState color)"
  by (simp add: older_settled_def current_live_def cycles_ok_new) (simp add: newProcState_def newReadyCycle_def outcomeOf_def)

text \<open>The steps of the waiter alone, the dependency and the signals left as they are.\<close>

definition waiter_step :: "wait_pc \<times> wait_env \<Rightarrow> wait_pc \<times> wait_env \<Rightarrow> bool" where
  "waiter_step s s' = (waitForDependency s s' \<and> snd s' = snd s \<and> fst s' \<noteq> fst s)"

lemma on_outcome_moves: "on_outcome dep c out \<noteq> WaitRead c' out'"
  by (auto simp: on_outcome_def split: readyOutcome.splits)

lemma wait_on_ended:
  assumes "older_settled (we_dep e)" and "\<not> unsettled (we_dep e)" and "i < length (ps_cycles (we_dep e))"
  shows "waiter_step\<^sup>*\<^sup>* (WaitOn (Some i), e)
    (on_outcome (we_dep e) (Some i) (cy_outcome (ps_cycles (we_dep e) ! i)), e)"
    and "cy_outcome (ps_cycles (we_dep e) ! i) \<noteq> readyUnset"
proof -
  let ?c = "ps_cycles (we_dep e) ! i"
  have ok: "cycles_ok (we_dep e)" by (rule older_cycles_ok [OF assms(1)])
  show out: "cy_outcome ?c \<noteq> readyUnset"
  proof (cases "Suc i < length (ps_cycles (we_dep e))")
    case False
    with assms(3) have "?c = last (ps_cycles (we_dep e))" by (cases "ps_cycles (we_dep e)" rule: rev_cases) (auto simp: nth_append)
    with assms(2) show ?thesis by (simp add: unsettled_def cycle_at_ok [OF ok])
  qed (use assms(1) in \<open>simp add: older_settled_def\<close>)
  with ok assms(3) have "cycle_closed (we_dep e) (Some i)" by (auto simp: cycle_closed_def cycles_ok_def)
  then have "waiter_step (WaitOn (Some i), e) (WaitRead (Some i) (cy_outcome ?c), e)"
    using wait_settled [of e "Some i"] assms(3) by (simp add: waiter_step_def outcomeOf_def)
  moreover have "waiter_step (WaitRead (Some i) (cy_outcome ?c), e) (on_outcome (we_dep e) (Some i) (cy_outcome ?c), e)"
    using wait_outcome [of "Some i" "cy_outcome ?c" e] on_outcome_moves by (simp add: waiter_step_def)
  ultimately show "waiter_step\<^sup>*\<^sup>* (WaitOn (Some i), e) (on_outcome (we_dep e) (Some i) (cy_outcome ?c), e)"
    by (meson r_into_rtranclp rtranclp.rtrancl_into_rtrancl)
qed

lemma wait_top_ends:
  assumes "older_settled (we_dep e)" and "\<not> unsettled (we_dep e)"
  shows "\<exists>v. waiter_step\<^sup>*\<^sup>* (WaitTop, e) (WaitDone v, e)"
proof -
  let ?i = "length (ps_cycles (we_dep e)) - 1"
  have ok: "cycles_ok (we_dep e)" by (rule older_cycles_ok [OF assms(1)])
  then have i: "currentReadyCycle (we_dep e) = Some ?i" "?i < length (ps_cycles (we_dep e))"
    by (auto simp: currentReadyCycle_def cycles_ok_def)
  have "cy_outcome (ps_cycles (we_dep e) ! ?i) \<noteq> readyAgain"
    using assms(1) i by (auto simp: older_settled_def current_live_def outcomeOf_def currentReadyCycle_def)
  then obtain v where v: "on_outcome (we_dep e) (Some ?i) (cy_outcome (ps_cycles (we_dep e) ! ?i)) = WaitDone v"
    using wait_on_ended(2) [OF assms i(2)] by (cases "cy_outcome (ps_cycles (we_dep e) ! ?i)") (auto simp: on_outcome_def)
  have "waiter_step (WaitTop, e) (WaitOn (Some ?i), e)"
    using wait_top [of e] i(1) by (simp add: waiter_step_def)
  with wait_on_ended(1) [OF assms i(2)] v show ?thesis by (metis converse_rtranclp_into_rtranclp)
qed

lemma wait_on_ends:
  assumes "older_settled (we_dep e)" and "\<not> unsettled (we_dep e)" and "i < length (ps_cycles (we_dep e))"
  shows "\<exists>v. waiter_step\<^sup>*\<^sup>* (WaitOn (Some i), e) (WaitDone v, e)"
proof (cases "on_outcome (we_dep e) (Some i) (cy_outcome (ps_cycles (we_dep e) ! i))")
  case WaitTop
  then show ?thesis using wait_on_ended(1) [OF assms] wait_top_ends [OF assms(1,2)] by (metis rtranclp_trans)
next
  case (WaitDone v)
  then show ?thesis using wait_on_ended(1) [OF assms] by metis
qed (auto simp: on_outcome_def split: readyOutcome.splits if_splits)

text \<open>A stop or a handoff ends the wait from anywhere.\<close>

lemma wait_signalled:
  assumes "we_cancelled e \<or> we_handoff e"
  shows "\<exists>v. waiter_step (WaitOn c, e) (WaitDone v, e)"
  using assms wait_cancel [of e c] wait_handoff [of e c] by (auto simp: waiter_step_def)

lemma wait_top_signalled:
  assumes "we_cancelled e \<or> we_handoff e"
  shows "\<exists>v. waiter_step\<^sup>*\<^sup>* (WaitTop, e) (WaitDone v, e)"
proof -
  have "waiter_step (WaitTop, e) (WaitOn (currentReadyCycle (we_dep e)), e)"
    using wait_top [of e] by (simp add: waiter_step_def)
  with wait_signalled [OF assms] show ?thesis by (meson converse_rtranclp_into_rtranclp r_into_rtranclp)
qed

lemma wait_read_ends:
  assumes "\<exists>v. waiter_step\<^sup>*\<^sup>* (WaitTop, e) (WaitDone v, e)"
  shows "\<exists>v. waiter_step\<^sup>*\<^sup>* (WaitRead c out, e) (WaitDone v, e)"
proof -
  have "waiter_step (WaitRead c out, e) (on_outcome (we_dep e) c out, e)"
    using wait_outcome [of c out e] on_outcome_moves by (simp add: waiter_step_def)
  moreover have "on_outcome (we_dep e) c out = WaitTop \<or> (\<exists>v. on_outcome (we_dep e) c out = WaitDone v)"
    by (auto simp: on_outcome_def split: readyOutcome.splits)
  ultimately show ?thesis using assms by (metis converse_rtranclp_into_rtranclp r_into_rtranclp)
qed

lemma wait_env_older: "waitForDependency s s' \<Longrightarrow> older_settled (we_dep (snd s)) \<Longrightarrow> older_settled (we_dep (snd s'))"
  by (induction rule: waitForDependency.induct) (auto intro: older_settled_op)

interpretation we: transition_invariant waitForDependency "\<lambda>s. older_settled (we_dep (snd s))" "\<lambda>_ _. True"
  by unfold_locales (auto intro: wait_env_older)

lemma reachable_older: "proc_op\<^sup>*\<^sup>* (newProcState color) st \<Longrightarrow> older_settled st"
  by (rule os.steps_inv [OF _ older_settled_new])

lemma reachable_wait:
  assumes "proc_op\<^sup>*\<^sup>* (newProcState color) (we_dep e)" and "waitForDependency\<^sup>*\<^sup>* (WaitTop, e) (pc, e')"
  shows "wait_inv (pc, e') \<and> older_settled (we_dep e')"
proof -
  have old: "older_settled (we_dep e)" by (rule reachable_older [OF assms(1)])
  then have "wait_inv (WaitTop, e)" by (simp add: older_settled_def)
  with wt.steps_inv [OF assms(2)] we.steps_inv [OF assms(2)] old show ?thesis by simp
qed

section \<open>Properties\<close>

text \<open>
  What waiting for a dependency concludes is what the dependency published: under every
  interleaving with the dependency, the stop and the cleanup handoff, the wait returns quiesced only
  after the handoff, otherwise with satisfied, terminal or stopped; it reports satisfied only when a
  readiness cycle of the dependency was satisfied, and without a stop every verdict is a published one.
\<close>

theorem wait_verdict_published:
  assumes "proc_op\<^sup>*\<^sup>* (newProcState color) (we_dep e)" and "waitForDependency\<^sup>*\<^sup>* (WaitTop, e) (WaitDone v, e')"
  shows "if dv_quiesced v then we_handoff e'
    else dv_verdict v \<in> {readySatisfied, readyTerminal, readyStopped}
      \<and> (dv_verdict v = readySatisfied \<or> \<not> we_cancelled e' \<longrightarrow> published (we_dep e') (dv_verdict v))"
  using reachable_wait [OF assms] by auto

definition ready_env :: wait_env where
  "ready_env = \<lparr>we_dep = snd (markReady True (newProcState 0)), we_handoff = False, we_cancelled = False\<rparr>"

lemma ready_env_reachable: "proc_op\<^sup>*\<^sup>* (newProcState 0) (we_dep ready_env)"
  by (simp add: ready_env_def r_into_rtranclp op_markReady)

lemma ready_env_wait: "waitForDependency\<^sup>*\<^sup>* (WaitTop, ready_env) (WaitDone (verdict readySatisfied), ready_env)"
proof -
  have 1: "waitForDependency (WaitTop, ready_env) (WaitOn (Some 0), ready_env)"
    using wait_top [of ready_env] by (simp add: ready_env_def currentReadyCycle_def markReady_def latchReady_def
        unsettled_def cycle_at_def newProcState_def newReadyCycle_def settle_cycle_def)
  have 2: "waitForDependency (WaitOn (Some 0), ready_env) (WaitRead (Some 0) readySatisfied, ready_env)"
    using wait_settled [of ready_env "Some 0"] by (simp add: ready_env_def markReady_def latchReady_def cycle_closed_def
        unsettled_def cycle_at_def newProcState_def newReadyCycle_def settle_cycle_def outcomeOf_def)
  have 3: "waitForDependency (WaitRead (Some 0) readySatisfied, ready_env) (WaitDone (verdict readySatisfied), ready_env)"
    using wait_outcome [of "Some 0" readySatisfied ready_env] by (simp add: on_outcome_def)
  from 1 2 3 show ?thesis by (meson converse_rtranclp_into_rtranclp r_into_rtranclp)
qed

theorem wait_verdict_published_witness: "published (we_dep ready_env) readySatisfied"
  using wait_verdict_published [OF ready_env_reachable ready_env_wait] by simp

text \<open>
  C37. No dependent waits for ever: in every reachable state of the wait, once the dependency's
  current readiness cycle has settled (every ended process has settled it), or the run is stopped, or
  the cleanup handoff is released, the waiter's own steps lead to a verdict.
\<close>

theorem wait_ends:
  assumes "proc_op\<^sup>*\<^sup>* (newProcState color) (we_dep e)" and "waitForDependency\<^sup>*\<^sup>* (WaitTop, e) (pc, e')"
    and "\<not> unsettled (we_dep e') \<or> we_cancelled e' \<or> we_handoff e'"
  shows "\<exists>v. waiter_step\<^sup>*\<^sup>* (pc, e') (WaitDone v, e')"
proof -
  note inv = reachable_wait [OF assms(1,2)]
  have top: "\<exists>v. waiter_step\<^sup>*\<^sup>* (WaitTop, e') (WaitDone v, e')"
    using wait_top_ends [of e'] wait_top_signalled [of e'] inv assms(3) by blast
  show ?thesis
  proof (cases pc)
    case (WaitOn c)
    then obtain i where "c = Some i" "i < length (ps_cycles (we_dep e'))" using inv by auto
    with WaitOn inv assms(3) wait_on_ends [of e' i] wait_signalled [of e' c] show ?thesis by blast
  next
    case (WaitRead c out)
    with wait_read_ends [OF top] show ?thesis by simp
  qed (use top in auto)
qed

theorem wait_ends_witness:
  "\<exists>v. waiter_step\<^sup>*\<^sup>* (WaitTop, ready_env) (WaitDone v, ready_env)"
  by (rule wait_ends [OF ready_env_reachable rtranclp.rtrancl_refl])
    (simp add: ready_env_def markReady_def latchReady_def unsettled_def cycle_at_def newProcState_def
      newReadyCycle_def settle_cycle_def)

text \<open>The dependency phase continues exactly when no verdict ends it.\<close>

lemma dependency_phase_continues:
  "dependency_phase ws st = None \<longleftrightarrow>
     (\<forall>(dep, w) \<in> set ws. \<forall>v. w = Some v \<longrightarrow> \<not> dv_quiesced v \<and> dv_verdict v \<notin> {readyTerminal, readyStopped})"
  by (induction ws st rule: dependency_phase.induct) (auto split: readyOutcome.splits)

text \<open>
  C8. A process is started only behind its dependencies: when the dependency phase of \<^verbatim>\<open>runProcess\<close>
  goes on to run the command, every dependency that has a state has published a satisfied readiness
  cycle, each wait interleaving in any way with its dependency.
\<close>

theorem start_after_dependencies:
  assumes "dependency_phase (waited proc waits) st = None"
    and "k < length (p_DependsOn proc)" and "waits k = Some v"
    and "proc_op\<^sup>*\<^sup>* (newProcState color) (we_dep e)" and "waitForDependency\<^sup>*\<^sup>* (WaitTop, e) (WaitDone v, e')"
  shows "published (we_dep e') readySatisfied"
proof -
  have "(p_DependsOn proc ! k, Some v) \<in> set (waited proc waits)" using assms(2,3) by (auto simp: waited_def)
  with assms(1) have "\<not> dv_quiesced v \<and> dv_verdict v \<notin> {readyTerminal, readyStopped}"
    unfolding dependency_phase_continues by blast
  with reachable_wait [OF assms(4,5)] show ?thesis by auto
qed

theorem start_after_dependencies_witness: "published (we_dep ready_env) readySatisfied \<and>
    dependency_phase (waited (zero_Process\<lparr>p_DependsOn := [''db'']\<rparr>) (\<lambda>_. Some (verdict readySatisfied)))
      (newProcState 1) = None"
proof
  show phase: "dependency_phase (waited (zero_Process\<lparr>p_DependsOn := [''db'']\<rparr>) (\<lambda>_. Some (verdict readySatisfied)))
      (newProcState 1) = None" by (simp add: waited_def)
  show "published (we_dep ready_env) readySatisfied"
    by (rule start_after_dependencies [OF phase _ _ ready_env_reachable ready_env_wait, of 0]) simp_all
qed

lemma service_loop_turns:
  assumes "cycles_ok st"
  shows "case service_loop is st b of
     Inl (res, st') \<Rightarrow>
       if rr_quiesced res then \<not> rr_failed res \<and> (\<exists>i \<in> set is. in_exec i = ExecHandoff) else ended (rr_failed res) st'
   | Inr (st', b') \<Rightarrow> cycles_ok st' \<and> ps_restarts st' = ps_restarts st + int (length is)"
  using assms
proof (induction "is" arbitrary: st b)
  case (Cons i "is")
  show ?case
  proof (cases "incarnate i st b")
    case (Inl r)
    then show ?thesis using incarnate_turn [OF Cons.prems, of i b] by (cases r) auto
  next
    case (Inr r)
    obtain st' b' where r: "r = (st', b')" by (cases r)
    with Inr incarnate_turn [OF Cons.prems, of i b] have t: "cycles_ok st'" "ps_restarts st' = ps_restarts st + 1" by auto
    from Cons.IH [OF t(1), of b'] t(2) Inr r show ?thesis by (auto split: sum.splits prod.splits)
  qed
qed simp

text \<open>
  A service that ends publishes its end: whatever its incarnations met, when \<^verbatim>\<open>runProcess\<close>
  returns a failure the state is failed with a terminal disposition, when it returns without failure
  the state is exited with a terminal or stopped disposition, and in both cases the current readiness
  cycle has settled; only the cleanup handoff leaves the state as it is.
\<close>

theorem service_end_published:
  assumes "proc_op\<^sup>*\<^sup>* (newProcState color) st" and "service_loop is st backoff = Inl (res, st')"
  shows "if rr_quiesced res then \<not> rr_failed res \<and> (\<exists>i \<in> set is. in_exec i = ExecHandoff) else ended (rr_failed res) st'"
  using service_loop_turns [OF ps.steps_inv [OF assms(1) cycles_ok_new], of "is" backoff] assms(2) by simp

definition failing :: "string \<Rightarrow> int \<Rightarrow> incarnation" where
  "failing policy limit = \<lparr>in_now = 0, in_proc = zero_Process\<lparr>p_Restart := policy, p_MaxRestarts := limit\<rparr>,
     in_during = [SideRunning 7, SideExitCode 1], in_exec = ExecErr ''exit status 1'' False, in_longer = False,
     in_stopped = False, in_restart = False, in_wait = WaitTimer\<rparr>"

theorem service_end_published_witness:
  "ended True (snd (projl (service_loop [failing ''never'' 0] (newProcState 0) Second)))"
proof -
  obtain res st' where r: "service_loop [failing ''never'' 0] (newProcState 0) Second = Inl (res, st')"
    and f: "rr_failed res" "\<not> rr_quiesced res"
    by (simp add: failing_def incarnate_def restart_policy_def exit_error_def result_def Let_def)
  from service_end_published [OF rtranclp.rtrancl_refl r] r f show ?thesis by simp
qed

text \<open>
  C25. The restart limit ends a failing service: with \<^verbatim>\<open>max_restarts\<close> set to \<open>m\<close> in every incarnation and no
  restart requested by a user, the loop returns at the latest with the incarnation after the \<open>m\<close>-th
  restart, whatever the incarnations did.
\<close>

theorem restart_limit_ends:
  assumes "proc_op\<^sup>*\<^sup>* (newProcState color) st"
    and "\<forall>i \<in> set is. p_MaxRestarts (in_proc i) = m \<and> \<not> in_restart i" and "0 < m"
    and "m < ps_restarts st + int (length is)" and "is \<noteq> []"
  shows "\<exists>r. service_loop is st backoff = Inl r"
proof -
  have "cycles_ok st" by (rule ps.steps_inv [OF assms(1) cycles_ok_new])
  from this assms(2,4,5) show ?thesis
  proof (induction "is" arbitrary: st backoff)
    case (Cons i "is")
    show ?case
    proof (cases "incarnate i st backoff")
      case (Inr r)
      obtain st' b' where r: "r = (st', b')" by (cases r)
      with Inr incarnate_turn [OF Cons.prems(1), of i backoff] Cons.prems(2)
      have t: "cycles_ok st'" "ps_restarts st' = ps_restarts st + 1" "ps_restarts st + 1 \<le> m"
        using assms(3) by (auto simp: limit_reached_def)
      from Cons.prems(3) t(2,3) have "m < ps_restarts st' + int (length is)" "is \<noteq> []" by auto
      with Cons.IH [OF t(1), of b'] Cons.prems(2) Inr r show ?thesis by auto
    qed auto
  qed simp
qed

theorem restart_limit_ends_witness:
  "\<exists>r. service_loop [failing ''always'' 2, failing ''always'' 2, failing ''always'' 2] (newProcState 0) Second = Inl r"
  by (rule restart_limit_ends [OF rtranclp.rtrancl_refl, where m = 2]) (simp_all add: failing_def newProcState_def)

text \<open>The waits a service that keeps failing quickly goes through, in nanoseconds.\<close>

definition backoff_after :: "nat \<Rightarrow> int" where
  "backoff_after n = min (2 ^ n * Second) (30 * Second)"

lemma nextBackoff_after: "nextBackoff (backoff_after n) = backoff_after (Suc n)"
  by (simp add: nextBackoff_def backoff_after_def min_def)

lemma incarnate_backoff:
  assumes "\<not> in_longer i" and "\<not> in_restart i" and "in_wait i = WaitTimer" and "incarnate i st b = Inr (st', b')"
  shows "b' = nextBackoff b"
  using assms
  by (auto simp: incarnate_def Let_def restart_policy_def restart_path_def waitBeforeRestart_def
      split: if_splits option.splits prod.splits)

text \<open>
  The backoff doubles from one second to a ceiling of thirty: after \<open>n\<close> consecutive incarnations
  that each ended before their backoff ran out and waited it out, the next wait is \<open>min (2^n) 30\<close>
  seconds, the sequence 1, 2, 4, 8, 16, 30, 30, and \<open>n\<close> restarts have been counted.
\<close>

theorem backoff_schedule:
  assumes "proc_op\<^sup>*\<^sup>* (newProcState color) st"
    and "\<forall>i \<in> set is. \<not> in_longer i \<and> \<not> in_restart i \<and> in_wait i = WaitTimer"
    and "service_loop is st Second = Inr (st', b)"
  shows "b = min (2 ^ length is * Second) (30 * Second) \<and> ps_restarts st' = ps_restarts st + int (length is)"
proof
  have "service_loop is s (backoff_after n) = Inr (st', b) \<Longrightarrow> b = backoff_after (n + length is)" for s n
    using assms(2)
  proof (induction "is" arbitrary: s n)
    case (Cons i "is")
    obtain s' b' where i: "incarnate i s (backoff_after n) = Inr (s', b')" and rest: "service_loop is s' b' = Inr (st', b)"
      using Cons.prems(1) by (auto split: sum.splits)
    have "b' = backoff_after (Suc n)"
      using incarnate_backoff [OF _ _ _ i] Cons.prems(2) by (simp add: nextBackoff_after)
    with Cons.IH [of s' "Suc n"] rest Cons.prems(2) show ?case by simp
  qed simp
  from this [of st 0] assms(3) show "b = min (2 ^ length is * Second) (30 * Second)" by (simp add: backoff_after_def)
  show "ps_restarts st' = ps_restarts st + int (length is)"
    using service_loop_turns [OF ps.steps_inv [OF assms(1) cycles_ok_new], of "is" Second] assms(3) by simp
qed

lemma failing_restarts:
  "\<exists>st'. incarnate (failing ''always'' 0) st b = Inr (st', nextBackoff b)"
  by (simp add: failing_def incarnate_def Let_def restart_policy_def exit_error_def restart_path_def
      waitBeforeRestart_def limit_reached_def)

theorem backoff_schedule_witness:
  "\<exists>st'. service_loop (replicate 6 (failing ''always'' 0)) (newProcState 0) Second = Inr (st', 30 * Second)"
proof -
  have run: "\<exists>st' b'. service_loop (replicate n (failing ''always'' 0)) st b = Inr (st', b')" for n st b
  proof (induction n arbitrary: st b)
    case (Suc n)
    obtain s where "incarnate (failing ''always'' 0) st b = Inr (s, nextBackoff b)" using failing_restarts by blast
    with Suc show ?case by simp
  qed simp
  obtain st' b' where r: "service_loop (replicate 6 (failing ''always'' 0)) (newProcState 0) Second = Inr (st', b')"
    using run by blast
  have "\<forall>i \<in> set (replicate 6 (failing ''always'' 0)). \<not> in_longer i \<and> \<not> in_restart i \<and> in_wait i = WaitTimer"
    by (simp add: failing_def)
  from backoff_schedule [OF rtranclp.rtrancl_refl this r] r show ?thesis by (simp add: min_def)
qed

text \<open>
  An incarnation whose process tree could not be proven gone fails the process under every
  restart policy, except in one case: when a restart was requested meanwhile and the run is not being
  stopped, it is restarted all the same.
\<close>

theorem unconfirmed_tree_restarts_on_request:
  assumes "in_exec i = ExecErr msg True"
  shows "(if in_stopped i then incarnate i st b = Inl (result False False False, stopProcess [] (after_exec i st))
     else if in_restart i then incarnate i st b = Inr (countRestart (resetReady (after_exec i st)), Second)
     else incarnate i st b = Inl (result True False False, failProcess [] (noteError msg (after_exec i st))))"
  using assms by (simp add: incarnate_def Let_def restart_policy_def exit_error_def)

theorem unconfirmed_tree_restarts_on_request_witness:
  "incarnate ((failing ''never'' 0)\<lparr>in_exec := ExecErr ''observe'' True, in_restart := True\<rparr>) (newProcState 0) Second
     = Inr (countRestart (resetReady (after_exec
         ((failing ''never'' 0)\<lparr>in_exec := ExecErr ''observe'' True, in_restart := True\<rparr>) (newProcState 0))), Second)"
  using unconfirmed_tree_restarts_on_request
    [of "(failing ''never'' 0)\<lparr>in_exec := ExecErr ''observe'' True, in_restart := True\<rparr>" "''observe''" "newProcState 0" Second]
  by (simp add: failing_def)

text \<open>
  A clean exit cannot hide a failed probe: when the readiness or health probe failed the
  incarnation, the loop treats an exit with status 0 exactly like a failing exit that carries the
  probe's error, so the restart policy, the restart limit and the result of the run see a failure.
\<close>

theorem probe_failure_decides:
  assumes "in_exec i = ExecOk" and "ps_probeFailed (after_exec i st)"
  shows "incarnate i st b = incarnate (i\<lparr>in_exec := ExecErr (ps_lastError (after_exec i st)) False\<rparr>) st b"
proof -
  have a: "after_exec (i\<lparr>in_exec := r\<rparr>) st = after_exec i st" for r by (simp add: after_exec_def)
  have p: "restart_policy (i\<lparr>in_exec := r\<rparr>) err s c = restart_policy i err s c" for r err s c
    by (simp add: restart_policy_def restart_path_def split: option.splits)
  show ?thesis using assms by (simp add: incarnate_def Let_def a p exit_error_def)
qed

definition probe_failing :: incarnation where
  "probe_failing = (failing ''never'' 0)\<lparr>in_exec := ExecOk, in_during := [SideFailReadiness True 1 ''no answer'']\<rparr>"

theorem probe_failure_decides_witness:
  "incarnate probe_failing (newProcState 0) Second =
     incarnate (probe_failing\<lparr>in_exec := ExecErr ''no answer'' False\<rparr>) (newProcState 0) Second"
  using probe_failure_decides [of probe_failing "newProcState 0" Second]
  by (simp add: probe_failing_def failing_def after_exec_def beginIncarnation_def newProcState_def
      failReadinessFor_def readySettled_def cycle_at_def newReadyCycle_def)

section \<open>Tasks\<close>

text \<open>Without probes, only the start and the exit status touch the state of a task.\<close>

definition task_op :: "side_op \<Rightarrow> bool" where
  "task_op op = (case op of SideRunning _ \<Rightarrow> True | SideExitCode _ \<Rightarrow> True | SideRequestRestart \<Rightarrow> True | _ \<Rightarrow> False)"

lemma task_ops_frame:
  "list_all task_op ops \<Longrightarrow> ps_cycles (fold apply_side ops st) = ps_cycles st
     \<and> ps_cycle (fold apply_side ops st) = ps_cycle st \<and> ps_panicked (fold apply_side ops st) = ps_panicked st"
proof (induction ops arbitrary: st)
  case (Cons op ops)
  then show ?case
    by (cases op) (simp_all add: task_op_def setRunning_def setExitCode_def requestRestart_def)
qed simp

text \<open>
  A task that exits with status 0 completes and releases its dependents: its state is completed,
  the readiness cycle they wait on is satisfied and it is advertised as ready; a failing task ends
  failed with the terminal verdict and makes the run fail fast.
\<close>

theorem task_outcome:
  assumes "proc_op\<^sup>*\<^sup>* (newProcState color) st" and "unsettled st" and "list_all task_op (tr_during t)"
    and "\<not> tr_cancelled t" and "tr_exec t \<noteq> ExecHandoff"
  shows "case runTaskProcess t st of (res, st') \<Rightarrow>
    (if tr_exec t = ExecOk
     then res = result False False False \<and> ps_state st' = Completed \<and> currentlyReady st'
       \<and> outcomeOf st' (currentReadyCycle st) = readySatisfied
     else res = result True True False \<and> ended True st' \<and> outcomeOf st' (currentReadyCycle st) = readyTerminal)"
proof -
  have ok: "cycles_ok st" by (rule ps.steps_inv [OF assms(1) cycles_ok_new])
  let ?s = "clearPid (fold apply_side (tr_during t) (beginTask (tr_now t) st))"
  have f: "ps_cycles ?s = ps_cycles st" "ps_cycle ?s = ps_cycle st" "ps_panicked ?s = ps_panicked st"
    using task_ops_frame [OF assms(3), of "beginTask (tr_now t) st"] by (simp_all add: clearPid_def beginTask_def)
  have g: "cycles_ok s' \<and> unsettled s' \<and> ps_cycle s' = ps_cycle st"
    if "ps_cycles s' = ps_cycles ?s" "ps_cycle s' = ps_cycle ?s" "ps_panicked s' = ps_panicked ?s" for s'
    using frame_ok(1,3) [of s' st] that f ok assms(2) by simp
  have settled: "outcomeOf (settle_cycle out s') (ps_cycle st) = out
      \<and> cycle_at (settle_cycle out s') = Some (ps_cycles (settle_cycle out s') ! the (ps_cycle st))"
    if "cycles_ok s' \<and> unsettled s' \<and> ps_cycle s' = ps_cycle st" "out \<noteq> readyUnset" for s' out
    using settle_ok(1,3) [of s' out] that by (auto simp: cycle_at_def cycles_ok_def)
  show ?thesis
  proof (cases "tr_exec t = ExecOk")
    case True
    have c: "cycles_ok (setCompleted ?s) \<and> unsettled (setCompleted ?s) \<and> ps_cycle (setCompleted ?s) = ps_cycle st"
      by (rule g) (simp_all add: setCompleted_def)
    have r: "runTaskProcess t st = (result False False False, settle_cycle readySatisfied (setCompleted ?s))"
      using True assms(4) c by (simp add: runTaskProcess_def Let_def markReady_def latchReady_def)
    have "ps_state (settle_cycle readySatisfied (setCompleted ?s)) = Completed"
      by (simp add: settle_cycle_def setCompleted_def split: option.splits)
    moreover have "readySettled (settle_cycle readySatisfied (setCompleted ?s))"
      using settled [OF c, of readySatisfied] c
      by (auto simp: readySettled_def outcomeOf_def cycles_ok_def split: if_splits)
    ultimately show ?thesis using True r settled [OF c, of readySatisfied]
      by (simp add: currentlyReady_def currentReadyCycle_def)
  next
    case False
    then obtain msg u where e: "tr_exec t = ExecErr msg u" using assms(5) by (cases "tr_exec t") auto
    let ?m = "''task failed: '' @ msg"
    let ?f = "?s\<lparr>ps_state := Failed, ps_lastError := ?m, ps_disposition := readyTerminal\<rparr>"
    have c: "cycles_ok ?f \<and> unsettled ?f \<and> ps_cycle ?f = ps_cycle st" by (rule g) simp_all
    have r: "runTaskProcess t st = (result True True False, failProcess ?m ?s)"
      using e assms(4) by (simp add: runTaskProcess_def Let_def)
    moreover have "failProcess ?m ?s = settle_cycle readyTerminal ?f"
      using c by (simp add: failProcess_def settleLocked_def)
    moreover have "ended True (failProcess ?m ?s)"
      by (rule ended_transitions(1)) (use frame_ok(1) [OF f ok] in simp)
    ultimately show ?thesis using False settled [OF c, of readyTerminal] by (simp add: currentReadyCycle_def)
  qed
qed

theorem task_outcome_witness:
  "currentlyReady (snd (runTaskProcess \<lparr>tr_now = 1, tr_during = [SideRunning 5, SideExitCode 0], tr_exec = ExecOk,
     tr_cancelled = False\<rparr> (newProcState 0)))"
  using task_outcome [OF rtranclp.rtrancl_refl, of 0 "\<lparr>tr_now = 1, tr_during = [SideRunning 5, SideExitCode 0],
     tr_exec = ExecOk, tr_cancelled = False\<rparr>"]
  by (simp add: task_op_def unsettled_def cycle_at_def newProcState_def newReadyCycle_def split: prod.splits)

section \<open>Timeouts\<close>

text \<open>
  The readiness timeout is exact up to the range of a 64-bit duration: a negative setting gives
  no limit, 0 gives sixty seconds, and a positive one gives that many seconds; above 9223372036
  seconds the product wraps, and already 9223372037 seconds become a negative duration.
\<close>

theorem ready_timeout_range:
  "(s < 0 \<longrightarrow> resolveReadyTimeout s = 0) \<and> resolveReadyTimeout 0 = 60 * Second
   \<and> (0 < s \<and> s \<le> 9223372036 \<longrightarrow> resolveReadyTimeout s = s * Second)
   \<and> resolveReadyTimeout 9223372037 < 0"
  by (simp add: resolveReadyTimeout_def int64_def)

theorem ready_timeout_range_witness: "resolveReadyTimeout 30 = 30 * Second \<and> resolveReadyTimeout (- 1) = 0"
  using ready_timeout_range [of 30] ready_timeout_range [of "- 1"] by simp

end
