(* ===== verification/Process_Group.thy ===== *)
theory Process_Group
  imports Lifecycle
begin

text \<open>
  The process group of one managed command on Unix (\<^verbatim>\<open>internal/runner/processgroup.go\<close>,
  \<^verbatim>\<open>processgroup_unix.go\<close>, \<^verbatim>\<open>exitwatch.go\<close> and \<^verbatim>\<open>exitwatch_unix.go\<close>). The kernel is explicit: which
  processes of a group are alive at each instant is a function of time that the environment chooses,
  reading it lets one instant pass, and every signal and reap is logged. A group is known by a handle,
  as the Go code knows it by its pointer. A polling loop with a deadline polls as often as its budget
  allows.
\<close>

section \<open>Kernel\<close>

datatype sig = SIGTERM | SIGKILL

datatype kevent = Signalled nat int sig | ReapStarted nat

text \<open>
  \<open>k_live t g\<close>: the live members of group \<open>g\<close> at instant \<open>t\<close>, or \<open>None\<close> when they cannot be
  enumerated; \<open>k_probe t g\<close>: whether signal 0 reaches the group.
\<close>

record kernel =
  k_live :: "nat \<Rightarrow> int \<Rightarrow> int list option"
  k_probe :: "nat \<Rightarrow> int \<Rightarrow> bool"
  k_now :: nat
  k_log :: "kevent list"

definition tick :: "kernel \<Rightarrow> kernel" where
  "tick k = k\<lparr>k_now := Suc (k_now k)\<rparr>"

section \<open>Data\<close>

datatype GroupState = GroupEmpty | GroupOwned | GroupUnavailable

definition GroupState_String :: "GroupState \<Rightarrow> string" where
  "GroupState_String s = (case s of
     GroupEmpty \<Rightarrow> ''empty'' | GroupOwned \<Rightarrow> ''owned'' | GroupUnavailable \<Rightarrow> ''unavailable'')"

record SealObservation =
  so_State :: GroupState
  so_Identity :: string
  so_Members :: "string list"
  so_Reason :: string

record GroupResult =
  gr_Name :: string
  gr_PGID :: int
  gr_Identity :: string
  gr_State :: GroupState
  gr_Members :: "string list"
  gr_Reason :: string

record unixProcessGroup =
  ug_pgid :: int
  ug_withdrawn :: bool
  ug_trackErr :: "string option"
  ug_probeErr :: "string option"
  ug_members :: "string list"

definition newProcessGroup :: unixProcessGroup where
  "newProcessGroup = \<lparr>ug_pgid = 0, ug_withdrawn = False, ug_trackErr = None, ug_probeErr = None, ug_members = []\<rparr>"

section \<open>Operations of a group\<close>

definition Track :: "int \<Rightarrow> unixProcessGroup \<Rightarrow> unixProcessGroup" where
  "Track pid pg = pg\<lparr>ug_pgid := pid\<rparr>"

text \<open>The flag is false for \<^verbatim>\<open>os.ErrProcessDone\<close> without a system call.\<close>

definition signal :: "sig \<Rightarrow> nat \<Rightarrow> unixProcessGroup \<Rightarrow> kernel \<Rightarrow> bool \<times> kernel" where
  "signal sg h pg k =
     (if ug_withdrawn pg \<or> ug_pgid pg \<le> 1 then (False, k)
      else (True, k\<lparr>k_log := k_log k @ [Signalled h (ug_pgid pg) sg]\<rparr>))"

definition Withdraw :: "unixProcessGroup \<Rightarrow> unixProcessGroup" where
  "Withdraw pg = pg\<lparr>ug_withdrawn := True\<rparr>"

definition identifyPID :: "int \<Rightarrow> string" where
  "identifyPID pid = Itoa pid"

definition recordObservation :: "int list \<Rightarrow> string option \<Rightarrow> unixProcessGroup \<Rightarrow> unixProcessGroup" where
  "recordObservation pids err pg =
     pg\<lparr>ug_probeErr := err, ug_members := (if err \<noteq> None then [] else map identifyPID pids)\<rparr>"

definition State :: "unixProcessGroup \<Rightarrow> kernel \<Rightarrow> GroupState \<times> unixProcessGroup \<times> kernel" where
  "State pg k =
     (if ug_pgid pg \<le> 1 then (GroupEmpty, pg, k)
      else if ug_trackErr pg \<noteq> None then (GroupUnavailable, pg, k)
      else case k_live k (k_now k) (ug_pgid pg) of
             None \<Rightarrow>
               (if k_probe k (k_now k) (ug_pgid pg) then GroupOwned else GroupUnavailable,
                recordObservation [] (Some ''process group membership could not be enumerated'') pg, tick k)
           | Some pids \<Rightarrow>
               (if pids \<noteq> [] then GroupOwned else GroupEmpty, recordObservation pids None pg, tick k))"

definition memberPIDs :: "unixProcessGroup \<Rightarrow> string list" where
  "memberPIDs pg = ug_members pg"

definition failureReason :: "unixProcessGroup \<Rightarrow> string" where
  "failureReason pg = (case ug_probeErr pg of None \<Rightarrow> [] | Some e \<Rightarrow> e)"

definition Identify :: "unixProcessGroup \<Rightarrow> string" where
  "Identify pg = (if ug_pgid pg \<le> 1 then ''unknown'' else identifyPID (ug_pgid pg))"

definition numericID :: "unixProcessGroup \<Rightarrow> int" where
  "numericID pg = (if ug_pgid pg \<le> 1 then 0 else ug_pgid pg)"

definition pg_Close :: "unixProcessGroup \<Rightarrow> unixProcessGroup" where
  "pg_Close pg = pg\<lparr>ug_pgid := 0\<rparr>"

text \<open>The third component is the error of the seal, which a Unix group never has.\<close>

definition Seal :: "unixProcessGroup \<Rightarrow> kernel \<Rightarrow> SealObservation \<times> string option \<times> unixProcessGroup \<times> kernel" where
  "Seal pg k =
     (case State (Withdraw pg) k of
        (state, pg', k') \<Rightarrow>
          (\<lparr>so_State = state, so_Identity = Identify pg', so_Members = memberPIDs pg', so_Reason = failureReason pg'\<rparr>,
           None, pg_Close pg', k'))"

section \<open>Waiting and terminating\<close>

abbreviation memberPollInterval :: int where "memberPollInterval \<equiv> 100000000"
abbreviation defaultShutdownGrace :: int where "defaultShutdownGrace \<equiv> 5 * Second"
abbreviation killSettle :: int where "killSettle \<equiv> 2 * Second"
abbreviation sweepDrain :: int where "sweepDrain \<equiv> 250000000"

definition shutdownGrace :: "int \<Rightarrow> int" where
  "shutdownGrace timeout = (if timeout > 0 then int64 (timeout * Second) else defaultShutdownGrace)"

text \<open>How often a loop with this budget sleeps before its deadline has passed.\<close>

definition polls :: "int \<Rightarrow> nat" where
  "polls budget = nat ((budget + memberPollInterval - 1) div memberPollInterval)"

fun waitWhileLive :: "nat \<Rightarrow> unixProcessGroup \<Rightarrow> kernel \<Rightarrow> bool \<times> unixProcessGroup \<times> kernel" where
  "waitWhileLive 0 pg k = (case State pg k of (s, pg', k') \<Rightarrow> (s = GroupEmpty, pg', k'))"
| "waitWhileLive (Suc n) pg k =
     (case State pg k of
        (s, pg', k') \<Rightarrow> if s = GroupEmpty then (True, pg', k') else waitWhileLive n pg' k')"

definition terminateGroup :: "int \<Rightarrow> nat \<Rightarrow> unixProcessGroup \<Rightarrow> kernel \<Rightarrow> unixProcessGroup \<times> kernel" where
  "terminateGroup grace h pg k =
     (case State pg k of
        (s, pg1, k1) \<Rightarrow>
          if s = GroupEmpty then (pg1, k1)
          else case waitWhileLive (polls grace) pg1 (snd (signal SIGTERM h pg1 k1)) of
                 (drained, pg2, k2) \<Rightarrow>
                   if drained then (pg2, k2)
                   else snd (waitWhileLive (polls killSettle) pg2 (snd (signal SIGKILL h pg2 k2))))"

definition terminateSealedGroup :: "nat \<Rightarrow> unixProcessGroup \<Rightarrow> kernel \<Rightarrow> unixProcessGroup \<times> kernel" where
  "terminateSealedGroup h pg k =
     (case State pg k of
        (s, pg1, k1) \<Rightarrow>
          if s = GroupEmpty then (pg1, k1)
          else snd (waitWhileLive (polls sweepDrain) pg1 (snd (signal SIGKILL h pg1 k1))))"

section \<open>Exit observations\<close>

datatype exitObservation = exitPending | exitObserved | exitOwnershipLost | exitUnsupported

definition exitObservation_String :: "exitObservation \<Rightarrow> string" where
  "exitObservation_String obs = (case obs of
     exitPending \<Rightarrow> ''not observed''
   | exitObserved \<Rightarrow> ''leader exited and was not reaped''
   | exitOwnershipLost \<Rightarrow> ''leader ownership could not be established''
   | exitUnsupported \<Rightarrow> ''exit observation is not supported on this platform'')"

definition signallingEstablished :: "exitObservation \<Rightarrow> bool \<Rightarrow> bool" where
  "signallingEstablished obs cancelled = (case obs of
     exitOwnershipLost \<Rightarrow> False
   | exitUnsupported \<Rightarrow> cancelled
   | _ \<Rightarrow> cancelled \<or> obs = exitObserved)"

section \<open>Reports\<close>

abbreviation newline :: string where "newline \<equiv> [char_of (10 :: nat)]"

definition describeGroup :: "GroupResult \<Rightarrow> string" where
  "describeGroup r =
     (if gr_Identity r \<noteq> [] \<and> gr_Identity r \<noteq> ''unknown'' then gr_Identity r
      else if gr_PGID r > 1 then identifyPID (gr_PGID r)
      else ''(identifier unavailable)'')"

definition survivor_lines :: "GroupResult \<Rightarrow> string" where
  "survivor_lines r =
     (if gr_Members r = [] \<and> gr_State r = GroupEmpty then []
      else newline @ ''  '' @ gr_Name r @ '':'' @
        (case gr_State r of
           GroupUnavailable \<Rightarrow>
             newline @ ''    process group containment was unavailable, so termination could not be attempted'' @
             (if gr_Reason r \<noteq> [] then '': '' @ gr_Reason r else [])
         | GroupOwned \<Rightarrow>
             newline @ ''    process group '' @ describeGroup r @
             (if gr_Members r \<noteq> [] then '': '' @ Join (gr_Members r) '', '' @ '' still running''
              else '' still has a live member that could not be enumerated'') @
             newline @ ''    could not terminate''
         | GroupEmpty \<Rightarrow>
             newline @ ''    process group '' @ describeGroup r @ '' reported '' @ GroupState_String (gr_State r)))"

definition survivorsError :: "GroupResult list \<Rightarrow> string option" where
  "survivorsError results =
     (let b = concat (map survivor_lines results)
      in if b = [] then None
         else Some (''managed process tree could not be verified as terminated:'' @ b))"

definition groupResult :: "string \<Rightarrow> unixProcessGroup \<Rightarrow> GroupState \<Rightarrow> GroupResult list" where
  "groupResult name pg state =
     [\<lparr>gr_Name = name, gr_PGID = numericID pg, gr_Identity = Identify pg, gr_State = state,
       gr_Members = memberPIDs pg, gr_Reason = failureReason pg\<rparr>]"

definition sealedGroupResult :: "string \<Rightarrow> SealObservation \<Rightarrow> GroupResult list" where
  "sealedGroupResult name obs =
     [\<lparr>gr_Name = name, gr_PGID = 0, gr_Identity = so_Identity obs, gr_State = so_State obs,
       gr_Members = so_Members obs, gr_Reason = so_Reason obs\<rparr>]"

section \<open>Lemmas\<close>

lemma State_withdrawn:
  "State pg k = (s, pg', k') \<Longrightarrow> ug_withdrawn pg' = ug_withdrawn pg \<and> ug_pgid pg' = ug_pgid pg
     \<and> k_log k' = k_log k \<and> k_live k' = k_live k"
  by (auto simp: State_def recordObservation_def tick_def split: if_splits option.splits)

lemma waitWhileLive_frame:
  "waitWhileLive n pg k = (b, pg', k') \<Longrightarrow> ug_withdrawn pg' = ug_withdrawn pg \<and> ug_pgid pg' = ug_pgid pg
     \<and> k_log k' = k_log k"
proof (induction n arbitrary: pg k)
  case 0
  then show ?case by (auto split: prod.splits dest: State_withdrawn)
next
  case (Suc n)
  obtain s pg1 k1 where s: "State pg k = (s, pg1, k1)" by (rule prod_cases3)
  from State_withdrawn [OF s] Suc s show ?case by (auto split: if_splits)
qed

lemma signal_withdrawn [simp]: "ug_withdrawn pg \<Longrightarrow> signal sg h pg k = (False, k)"
  by (simp add: signal_def)

text \<open>Signals of one handle only, and none once authority is withdrawn.\<close>

definition signals_of :: "nat \<Rightarrow> kevent list \<Rightarrow> bool" where
  "signals_of h es = (\<forall>e \<in> set es. \<exists>g sg. e = Signalled h g sg)"

lemma signals_of_simps [simp]: "signals_of h []" "signals_of h (a @ b) \<longleftrightarrow> signals_of h a \<and> signals_of h b"
  "signals_of h [Signalled h g sg]"
  by (auto simp: signals_of_def)

lemma signal_log:
  "\<exists>es. k_log (snd (signal sg h pg k)) = k_log k @ es \<and> signals_of h es \<and> (ug_withdrawn pg \<longrightarrow> es = [])"
  by (simp add: signal_def)

lemma terminateGroup_log:
  assumes "terminateGroup grace h pg k = (pg', k')"
  shows "ug_withdrawn pg' = ug_withdrawn pg
    \<and> (\<exists>es. k_log k' = k_log k @ es \<and> signals_of h es \<and> (ug_withdrawn pg \<longrightarrow> es = []))"
proof -
  obtain s pg1 k1 where 1: "State pg k = (s, pg1, k1)" by (rule prod_cases3)
  note f1 = State_withdrawn [OF 1]
  obtain es1 where e1: "k_log (snd (signal SIGTERM h pg1 k1)) = k_log k1 @ es1" "signals_of h es1"
      "ug_withdrawn pg1 \<longrightarrow> es1 = []" using signal_log by blast
  obtain d pg2 k2 where 2: "waitWhileLive (polls grace) pg1 (snd (signal SIGTERM h pg1 k1)) = (d, pg2, k2)"
    by (rule prod_cases3)
  note f2 = waitWhileLive_frame [OF 2]
  obtain es2 where e2: "k_log (snd (signal SIGKILL h pg2 k2)) = k_log k2 @ es2" "signals_of h es2"
      "ug_withdrawn pg2 \<longrightarrow> es2 = []" using signal_log by blast
  obtain d' pg3 k3 where 3: "waitWhileLive (polls killSettle) pg2 (snd (signal SIGKILL h pg2 k2)) = (d', pg3, k3)"
    by (rule prod_cases3)
  note f3 = waitWhileLive_frame [OF 3]
  show ?thesis
    using assms 1 2 3 f1 f2 f3 e1 e2 by (auto simp: terminateGroup_def split: if_splits)
qed

lemma terminateSealedGroup_log:
  assumes "terminateSealedGroup h pg k = (pg', k')"
  shows "ug_withdrawn pg' = ug_withdrawn pg
    \<and> (\<exists>es. k_log k' = k_log k @ es \<and> signals_of h es \<and> (ug_withdrawn pg \<longrightarrow> es = []))"
proof -
  obtain s pg1 k1 where 1: "State pg k = (s, pg1, k1)" by (rule prod_cases3)
  obtain es2 where e2: "k_log (snd (signal SIGKILL h pg1 k1)) = k_log k1 @ es2" "signals_of h es2"
      "ug_withdrawn pg1 \<longrightarrow> es2 = []" using signal_log by blast
  obtain d' pg3 k3 where 3: "waitWhileLive (polls sweepDrain) pg1 (snd (signal SIGKILL h pg1 k1)) = (d', pg3, k3)"
    by (rule prod_cases3)
  show ?thesis
    using assms 1 3 State_withdrawn [OF 1] waitWhileLive_frame [OF 3] e2
    by (auto simp: terminateSealedGroup_def split: if_splits)
qed

lemma Seal_withdraws:
  "Seal pg k = (obs, err, pg', k') \<Longrightarrow> ug_withdrawn pg' \<and> err = None \<and> k_log k' = k_log k"
  by (auto simp: Seal_def Withdraw_def pg_Close_def split: prod.splits dest: State_withdrawn)

text \<open>Time passes, the group keeps its identifier, and an empty group was seen empty.\<close>

lemma State_time:
  "State pg k = (s, pg', k') \<Longrightarrow> ug_pgid pg' = ug_pgid pg \<and> k_live k' = k_live k \<and> k_now k \<le> k_now k'
     \<and> (s = GroupEmpty \<and> 1 < ug_pgid pg \<longrightarrow> k_live k (k_now k) (ug_pgid pg) = Some [] \<and> k_now k < k_now k')"
  by (auto simp: State_def recordObservation_def tick_def split: if_splits option.splits)

lemma signal_time [simp]: "k_live (snd (signal sg h pg k)) = k_live k" "k_now (snd (signal sg h pg k)) = k_now k"
  by (simp_all add: signal_def)

lemma waitWhileLive_time:
  "waitWhileLive n pg k = (b, pg', k') \<Longrightarrow> ug_pgid pg' = ug_pgid pg \<and> k_live k' = k_live k \<and> k_now k \<le> k_now k'"
proof (induction n arbitrary: pg k)
  case 0
  then show ?case by (auto split: prod.splits dest: State_time)
next
  case (Suc n)
  obtain s pg1 k1 where s: "State pg k = (s, pg1, k1)" by (rule prod_cases3)
  note t = State_time [OF s]
  show ?case
  proof (cases "s = GroupEmpty")
    case True
    with Suc.prems s t show ?thesis by simp
  next
    case False
    with Suc.prems s have "waitWhileLive n pg1 k1 = (b, pg', k')" by simp
    from Suc.IH [OF this] t show ?thesis by simp
  qed
qed

lemma terminateSealedGroup_time:
  assumes "terminateSealedGroup h pg k = (pg', k')"
  shows "ug_pgid pg' = ug_pgid pg \<and> k_live k' = k_live k \<and> k_now k \<le> k_now k'"
proof -
  obtain s pg1 k1 where 1: "State pg k = (s, pg1, k1)" by (rule prod_cases3)
  obtain d pg3 k3 where 3: "waitWhileLive (polls sweepDrain) pg1 (snd (signal SIGKILL h pg1 k1)) = (d, pg3, k3)"
    by (rule prod_cases3)
  show ?thesis
    using assms 1 3 State_time [OF 1] waitWhileLive_time [OF 3]
    by (auto simp: terminateSealedGroup_def split: if_splits)
qed

lemma survivors_not_empty:
  assumes "gr_State r \<noteq> GroupEmpty"
  shows "\<exists>msg. survivorsError [r] = Some msg"
  using assms by (simp add: survivorsError_def survivor_lines_def Let_def)

end
