(* ===== verification/Runner_Groups.thy ===== *)
theory Runner_Groups
  imports Process_Group
begin

text \<open>
  What the runner keeps about the process groups it launched (\<^verbatim>\<open>internal/runner/lifecycle.go\<close> from
  \<^verbatim>\<open>exec\<close> on): the registry of live groups, the crash-recovery record in the daemon's PID file, the
  problems a shutdown must report, the waits that still have to reap a leader, and the execution of one
  command, split at the points where it gives up the locks. Events and log lines are left out. The
  build modelled is the Unix one, where the exit of a leader is either observed without reaping it or
  the launch fails.
\<close>

section \<open>State\<close>

record Group =
  g_Name :: string
  g_PGID :: int
  g_LeaderStart :: int

text \<open>\<open>re_id\<close> is the identity of the entry, which Go has by its pointer.\<close>

record recEntry =
  re_id :: nat
  re_pg :: nat
  re_group :: Group

text \<open>The PID file: gone, naming another daemon, or ours with the groups written last.\<close>

datatype pidfile = FileMissing | FileForeign | FileOurs "Group list"

datatype write_error = ErrNotExist | ErrNotOwner | ErrWrite string

definition write_message :: "write_error \<Rightarrow> string" where
  "write_message e = (case e of ErrNotExist \<Rightarrow> ''file does not exist'' | ErrNotOwner \<Rightarrow> ''PID file belongs to another process'' | ErrWrite m \<Rightarrow> m)"

record trackedReap =
  tr_process :: string
  tr_identity :: string
  tr_reap :: nat
  tr_taken :: bool

record UnresolvedProcess =
  up_Name :: string
  up_Identity :: string

text \<open>\<open>rn_disk\<close> is the error the file system gives for a write of the PID file, if any.\<close>

record runner =
  rn_pgs :: "nat \<Rightarrow> unixProcessGroup"
  rn_groups :: "nat gomap"
  rn_recordPath :: string
  rn_recordOn :: bool
  rn_records :: "recEntry list"
  rn_nextRec :: nat
  rn_file :: pidfile
  rn_disk :: "string option"
  rn_unresolved :: "UnresolvedProcess list"
  rn_stopProblems :: "string list"
  rn_reapers :: "trackedReap list"
  rn_stopping :: bool
  rn_sealing :: bool
  rn_teardownOpen :: bool
  rn_kernel :: kernel

definition newRunner :: "string \<Rightarrow> pidfile \<Rightarrow> kernel \<Rightarrow> runner" where
  "newRunner path file k = \<lparr>rn_pgs = (\<lambda>_. newProcessGroup), rn_groups = [], rn_recordPath = path, rn_recordOn = False,
     rn_records = [], rn_nextRec = 0, rn_file = file, rn_disk = None, rn_unresolved = [], rn_stopProblems = [],
     rn_reapers = [], rn_stopping = False, rn_sealing = False, rn_teardownOpen = False, rn_kernel = k\<rparr>"

section \<open>Operations on one group\<close>

definition set_pg :: "nat \<Rightarrow> unixProcessGroup \<Rightarrow> kernel \<Rightarrow> runner \<Rightarrow> runner" where
  "set_pg h pg k r = r\<lparr>rn_pgs := (rn_pgs r)(h := pg), rn_kernel := k\<rparr>"

definition close_group :: "nat \<Rightarrow> runner \<Rightarrow> runner" where
  "close_group h r = set_pg h (pg_Close (rn_pgs r h)) (rn_kernel r) r"

definition withdraw_group :: "nat \<Rightarrow> runner \<Rightarrow> runner" where
  "withdraw_group h r = set_pg h (Withdraw (rn_pgs r h)) (rn_kernel r) r"

definition state_of :: "nat \<Rightarrow> runner \<Rightarrow> GroupState \<times> runner" where
  "state_of h r = (case State (rn_pgs r h) (rn_kernel r) of (s, pg, k) \<Rightarrow> (s, set_pg h pg k r))"

text \<open>\<^verbatim>\<open>Terminate\<close>, which a cancelled context also calls, and \<^verbatim>\<open>Kill\<close> of a registered group.\<close>

definition signal_group :: "sig \<Rightarrow> nat \<Rightarrow> runner \<Rightarrow> runner" where
  "signal_group sg h r = set_pg h (rn_pgs r h) (snd (signal sg h (rn_pgs r h) (rn_kernel r))) r"

abbreviation kill_group :: "nat \<Rightarrow> runner \<Rightarrow> runner" where
  "kill_group \<equiv> signal_group SIGKILL"

definition terminate :: "int \<Rightarrow> nat \<Rightarrow> runner \<Rightarrow> runner" where
  "terminate grace h r = (case terminateGroup grace h (rn_pgs r h) (rn_kernel r) of (pg, k) \<Rightarrow> set_pg h pg k r)"

definition terminate_sealed :: "nat \<Rightarrow> runner \<Rightarrow> runner" where
  "terminate_sealed h r = (case terminateSealedGroup h (rn_pgs r h) (rn_kernel r) of (pg, k) \<Rightarrow> set_pg h pg k r)"

section \<open>Problems\<close>

definition recordUnresolved :: "string \<Rightarrow> string \<Rightarrow> runner \<Rightarrow> runner" where
  "recordUnresolved name identity r =
     (let ident = (if identity = [] \<or> identity = ''unknown'' then ''unavailable'' else identity);
          u = \<lparr>up_Name = name, up_Identity = ident\<rparr>
      in if u \<in> set (rn_unresolved r) then r else r\<lparr>rn_unresolved := rn_unresolved r @ [u]\<rparr>)"

definition recordShutdownProblem :: "string \<Rightarrow> runner \<Rightarrow> runner" where
  "recordShutdownProblem msg r = r\<lparr>rn_stopProblems := rn_stopProblems r @ [msg]\<rparr>"

text \<open>A nil error prints as \<^verbatim>\<open><nil>\<close>.\<close>

definition error_text :: "string option \<Rightarrow> string" where
  "error_text e = (case e of None \<Rightarrow> ''<nil>'' | Some m \<Rightarrow> m)"

definition recordSurvivor :: "string \<Rightarrow> string \<Rightarrow> string option \<Rightarrow> runner \<Rightarrow> runner" where
  "recordSurvivor name identity err r =
     recordShutdownProblem (''could not terminate '' @ name @ '': '' @ error_text err) (recordUnresolved name identity r)"

definition recordUnverified :: "string \<Rightarrow> string \<Rightarrow> string \<Rightarrow> runner \<Rightarrow> runner" where
  "recordUnverified name identity msg r = recordShutdownProblem msg (recordUnresolved name identity r)"

definition Unresolved :: "runner \<Rightarrow> UnresolvedProcess list" where
  "Unresolved r = rn_unresolved r"

definition shutdownProblems :: "runner \<Rightarrow> string list" where
  "shutdownProblems r = rn_stopProblems r"

definition ShutdownResult :: "runner \<Rightarrow> string option" where
  "ShutdownResult r = (if shutdownProblems r = [] then None else Some (Join (shutdownProblems r) newline))"

section \<open>The record on disk\<close>

definition writeRecordLocked :: "runner \<Rightarrow> write_error option \<times> runner" where
  "writeRecordLocked r = (case rn_file r of
     FileMissing \<Rightarrow> (Some ErrNotExist, r)
   | FileForeign \<Rightarrow> (Some ErrNotOwner, r)
   | FileOurs _ \<Rightarrow> (case rn_disk r of
       Some m \<Rightarrow> (Some (ErrWrite m), r)
     | None \<Rightarrow> (None, r\<lparr>rn_file := FileOurs (map re_group (rn_records r))\<rparr>)))"

definition beginRecord :: "runner \<Rightarrow> runner" where
  "beginRecord r =
     (let r1 = r\<lparr>rn_records := [], rn_recordOn := (rn_recordPath r \<noteq> [])\<rparr>
      in if \<not> rn_recordOn r1 then r1
         else case writeRecordLocked r1 of
                (None, r2) \<Rightarrow> r2
              | (Some _, r2) \<Rightarrow> r2\<lparr>rn_recordOn := False\<rparr>)"

text \<open>The entry, or no entry with recording off; an error refuses the launch.\<close>

definition recordPending :: "string \<Rightarrow> nat \<Rightarrow> runner \<Rightarrow> nat option \<times> write_error option \<times> runner" where
  "recordPending name h r =
     (if \<not> rn_recordOn r then (None, None, r)
      else let e = \<lparr>re_id = rn_nextRec r, re_pg = h, re_group = \<lparr>g_Name = name, g_PGID = 0, g_LeaderStart = 0\<rparr>\<rparr>;
               r1 = r\<lparr>rn_records := rn_records r @ [e], rn_nextRec := Suc (rn_nextRec r)\<rparr>
           in case writeRecordLocked r1 of
                (None, r2) \<Rightarrow> (Some (re_id e), None, r2)
              | (Some err, r2) \<Rightarrow>
                  (case err of
                     ErrWrite _ \<Rightarrow> (None, Some err, r2\<lparr>rn_records := rn_records r\<rparr>)
                   | _ \<Rightarrow> (None, None, r2\<lparr>rn_recordOn := False, rn_records := []\<rparr>)))"

definition recordTracked :: "nat option \<Rightarrow> int \<Rightarrow> int \<Rightarrow> runner \<Rightarrow> runner" where
  "recordTracked entry pid start r = (case entry of
     None \<Rightarrow> r
   | Some i \<Rightarrow>
       if \<not> rn_recordOn r then r
       else snd (writeRecordLocked (r\<lparr>rn_records :=
         map (\<lambda>e. if re_id e = i then e\<lparr>re_group := (re_group e)\<lparr>g_PGID := pid, g_LeaderStart := start\<rparr>\<rparr> else e)
           (rn_records r)\<rparr>)))"

definition removeRecordsLocked :: "(recEntry \<Rightarrow> bool) \<Rightarrow> runner \<Rightarrow> runner" where
  "removeRecordsLocked matches r =
     (if \<not> rn_recordOn r then r
      else let kept = filter (\<lambda>e. \<not> matches e) (rn_records r)
           in if length kept = length (rn_records r) then r
              else snd (writeRecordLocked (r\<lparr>rn_records := kept\<rparr>)))"

definition recordDrop :: "nat option \<Rightarrow> runner \<Rightarrow> runner" where
  "recordDrop entry r = (case entry of None \<Rightarrow> r | Some i \<Rightarrow> removeRecordsLocked (\<lambda>e. re_id e = i) r)"

definition recordDropGroup :: "nat \<Rightarrow> runner \<Rightarrow> runner" where
  "recordDropGroup h r = removeRecordsLocked (\<lambda>e. re_pg e = h) r"

section \<open>The registry\<close>

definition trackGroup :: "string \<Rightarrow> nat \<Rightarrow> runner \<Rightarrow> runner" where
  "trackGroup name h r =
     (let r1 = r\<lparr>rn_groups := gput name h (rn_groups r)\<rparr>
      in case gget (rn_groups r) name of
           None \<Rightarrow> r1
         | Some prev \<Rightarrow>
             if prev = h then r1
             else case state_of prev r1 of
                    (s, r2) \<Rightarrow>
                      close_group prev
                        (if s \<noteq> GroupEmpty
                         then recordSurvivor name (Identify (rn_pgs r2 prev))
                           (Some (''previous incarnation: '' @
                              error_text (survivorsError (groupResult name (rn_pgs r2 prev) s)))) r2
                         else recordDropGroup prev r2))"

definition untrackGroup :: "string \<Rightarrow> nat \<Rightarrow> runner \<Rightarrow> runner" where
  "untrackGroup name h r =
     (if gget (rn_groups r) name = Some h then r\<lparr>rn_groups := gdelete name (rn_groups r)\<rparr> else r)"

definition snapshotGroups :: "runner \<Rightarrow> nat list" where
  "snapshotGroups r = map snd (rn_groups r)"

definition takeGroups :: "runner \<Rightarrow> nat gomap \<times> runner" where
  "takeGroups r = (rn_groups r, r\<lparr>rn_groups := []\<rparr>)"

definition closeAdmission :: "runner \<Rightarrow> runner" where
  "closeAdmission r = r\<lparr>rn_stopping := True\<rparr>"

definition seal_group :: "nat gomap \<Rightarrow> string \<Rightarrow> runner \<Rightarrow> runner" where
  "seal_group groups name r =
     (case gget groups name of
        None \<Rightarrow> r
      | Some h \<Rightarrow>
          (let r1 = terminate_sealed h r
           in case Seal (rn_pgs r1 h) (rn_kernel r1) of
                (obs, err, pg, k) \<Rightarrow>
                  (let r2 = set_pg h pg k r1;
                       r3 = (if so_State obs = GroupEmpty \<and> err = None then recordDropGroup h r2 else r2);
                       r4 = (if so_State obs \<noteq> GroupEmpty
                             then recordSurvivor name (so_Identity obs) (survivorsError (sealedGroupResult name obs)) r3
                             else r3)
                   in case err of
                        None \<Rightarrow> r4
                      | Some m \<Rightarrow> recordUnverified name (so_Identity obs)
                          (name @ '': process-group seal failed: '' @ m) r4)))"

definition sealGroups :: "runner \<Rightarrow> runner" where
  "sealGroups r =
     (case takeGroups (r\<lparr>rn_stopping := True, rn_sealing := True\<rparr>) of
        (groups, r1) \<Rightarrow> fold (seal_group groups) (sort (gokeys groups)) r1)"

definition sweepGroups :: "bool \<Rightarrow> runner \<Rightarrow> runner" where
  "sweepGroups cancelled r = (if \<not> cancelled then r else sealGroups r)"

text \<open>The force kill of \<^verbatim>\<open>Shutdown\<close>, after admission is closed.\<close>

definition Shutdown :: "bool \<Rightarrow> runner \<Rightarrow> runner" where
  "Shutdown force r =
     (let r1 = closeAdmission r
      in if force then fold kill_group (snapshotGroups r1) r1 else r1)"

section \<open>Reaps\<close>

definition pruneTakenReapsLocked :: "runner \<Rightarrow> runner" where
  "pruneTakenReapsLocked r = r\<lparr>rn_reapers := filter (\<lambda>t. \<not> tr_taken t) (rn_reapers r)\<rparr>"

text \<open>\<^verbatim>\<open>reap.start\<close>: from here on the leader of \<open>h\<close> may be reaped at any time.\<close>

definition startReap :: "string \<Rightarrow> string \<Rightarrow> nat \<Rightarrow> runner \<Rightarrow> runner" where
  "startReap name identity h r =
     (if ReapStarted h \<in> set (k_log (rn_kernel r)) then r
      else let r1 = pruneTakenReapsLocked r;
               k = rn_kernel r1
           in r1\<lparr>rn_kernel := k\<lparr>k_log := k_log k @ [ReapStarted h]\<rparr>,
                 rn_reapers := rn_reapers r1 @
                   [\<lparr>tr_process = name, tr_identity = identity, tr_reap = h, tr_taken = False\<rparr>]\<rparr>)"

definition publish_reap :: "nat \<Rightarrow> runner \<Rightarrow> runner" where
  "publish_reap h r = r\<lparr>rn_reapers := map (\<lambda>t. if tr_reap t = h then t\<lparr>tr_taken := True\<rparr> else t) (rn_reapers r)\<rparr>"

definition report_reap :: "trackedReap \<Rightarrow> runner \<Rightarrow> runner" where
  "report_reap t r = recordUnverified (tr_process t) (tr_identity t)
     (tr_process t @ '': process leader '' @ tr_identity t @ '' was not reaped before cleanup handoff'') r"

definition reportPendingReaps :: "runner \<Rightarrow> runner" where
  "reportPendingReaps r = (let r1 = pruneTakenReapsLocked r in fold report_reap (rn_reapers r1) r1)"

end
