(* ===== verification/Runner_Exec.thy ===== *)
theory Runner_Exec
  imports Runner_Groups
begin

text \<open>
  One execution of a command (\<^verbatim>\<open>exec\<close> and \<^verbatim>\<open>settleUnobserved\<close> in \<^verbatim>\<open>internal/runner/lifecycle.go\<close>), cut into
  the sections that hold \<^verbatim>\<open>lifecycleMu\<close> or send signals: admission and launch, the launch whose exit
  cannot be observed, the teardown of the group, the withdrawal before the reap, and the final
  verification. What the system does is given by \<open>exec_env\<close>: which calls fail, which of the ready
  channels each select takes, what was observed of the leader, how the command ended, and what other
  goroutines did to the runner before each of the selects (\<open>ee_meanwhile\<close>).
\<close>

section \<open>What an execution meets\<close>

text \<open>The selects in which the cleanup handoff can win.\<close>

datatype exec_point = AtTrackReap | AtObserveReap | AtRun | AtJoin | AtScan | AtReap

text \<open>Whether the readers had finished at once, within the settle time, or not even then.\<close>

datatype scan_status = ScanDone | ScanSettled | ScanEscaped

datatype wait_status = WaitOk | WaitExit int string | WaitError string

record exec_env =
  ee_pipe :: "string option"
  ee_ctxErr :: bool
  ee_start :: "string option"
  ee_track :: "string option"
  ee_pid :: int
  ee_leaderStart :: int
  ee_observe :: "(string \<times> bool) option"
  ee_handoff :: "exec_point \<Rightarrow> bool"
  ee_observation :: exitObservation
  ee_cancelled :: bool
  ee_scan :: scan_status
  ee_wait :: wait_status
  ee_meanwhile :: "exec_point \<Rightarrow> runner \<Rightarrow> runner"

text \<open>\<open>hand\<close>: the run has a cleanup handoff; a nil channel is never ready.\<close>

definition handing :: "bool \<Rightarrow> exec_env \<Rightarrow> exec_point \<Rightarrow> bool" where
  "handing hand e pt = (hand \<and> ee_handoff e pt)"

section \<open>Launch\<close>

text \<open>Admission is closed by a shutdown, except for a teardown process during its phase.\<close>

definition launch_refused :: "procInfo \<Rightarrow> exec_env \<Rightarrow> runner \<Rightarrow> bool" where
  "launch_refused p e r = ((rn_stopping r \<and> \<not> (pi_teardown p \<and> rn_teardownOpen r)) \<or> ee_ctxErr e)"

definition track_failed ::
  "procInfo \<Rightarrow> exec_env \<Rightarrow> bool \<Rightarrow> nat \<Rightarrow> nat option \<Rightarrow> string \<Rightarrow> runner \<Rightarrow> exec_result \<times> runner" where
  "track_failed p e hand h entry m r =
     (case Seal (rn_pgs r h) (rn_kernel r) of
        (obs, err, pg, k) \<Rightarrow>
          (let r1 = set_pg h pg k r;
               r2 = (if so_State obs = GroupEmpty \<and> err = None then recordDrop entry r1 else r1);
               r3 = startReap (pi_name p) (so_Identity obs) h r2;
               r4 = (if so_State obs \<noteq> GroupEmpty \<or> err \<noteq> None
                     then recordUnverified (pi_name p) (so_Identity obs)
                       (pi_name p @ '': failed to establish process-group tracking; seal state='' @
                        GroupState_String (so_State obs) @ '' identity='' @ so_Identity obs @ '' error='' @ error_text err) r3
                     else r3)
           in if handing hand e AtTrackReap then (ExecHandoff, r4) else (ExecErr (''track: '' @ m) False, r4)))"

text \<open>Admission to registration, under one lock; \<open>Inr\<close> carries the identity of the group.\<close>

definition exec_launch ::
  "procInfo \<Rightarrow> exec_env \<Rightarrow> bool \<Rightarrow> nat \<Rightarrow> runner \<Rightarrow> (exec_result \<times> runner) + (string \<times> runner)" where
  "exec_launch p e hand h r =
     (if launch_refused p e r then Inl (ExecErr ''context canceled'' False, close_group h r)
      else case recordPending (pi_name p) h r of
             (_, Some err, r1) \<Rightarrow>
               Inl (ExecErr (''record process group: '' @ write_message err) False, close_group h r1)
           | (entry, None, r1) \<Rightarrow>
               (case ee_start e of
                  Some m \<Rightarrow> Inl (ExecErr (''start: '' @ m) False, close_group h (recordDrop entry r1))
                | None \<Rightarrow>
                    (case ee_track e of
                       Some m \<Rightarrow> Inl (track_failed p e hand h entry m r1)
                     | None \<Rightarrow>
                         (let r2 = set_pg h (Track (ee_pid e) (rn_pgs r1 h)) (rn_kernel r1) r1;
                              identity = Identify (rn_pgs r2 h);
                              r3 = trackGroup (pi_name p) h r2
                          in Inr (identity, recordTracked entry (ee_pid e) (ee_leaderStart e) r3)))))"

section \<open>A launch that cannot be observed\<close>

definition settleUnobserved ::
  "procInfo \<Rightarrow> nat \<Rightarrow> string \<Rightarrow> bool \<Rightarrow> bool \<Rightarrow> string \<Rightarrow> runner \<Rightarrow> exec_result \<times> runner" where
  "settleUnobserved p h identity hand signalled err r =
     (if hand \<and> rn_sealing r \<and> \<not> pi_teardown p then (ExecHandoff, r)
      else case state_of h r of
             (s, r1) \<Rightarrow>
               if s \<noteq> GroupEmpty
               then (ExecErr (err @ '': its process tree could not be proven terminated, so it is not restarted'') True,
                     recordUnverified (pi_name p) identity
                       (pi_name p @ '': '' @ err @ ''; '' @
                        (if signalled then ''its process group was killed''
                         else ''the leader's identity could not be established, so no process group signal was sent'') @
                        '', and the group could not be proven empty afterwards ('' @ GroupState_String s @ ''), so '' @
                        pi_name p @ '' is not restarted'') r1)
               else (ExecErr err False, close_group h (recordDropGroup h (untrackGroup (pi_name p) h r1))))"

definition exec_unobserved ::
  "procInfo \<Rightarrow> exec_env \<Rightarrow> bool \<Rightarrow> nat \<Rightarrow> string \<Rightarrow> string \<times> bool \<Rightarrow> runner \<Rightarrow> exec_result \<times> runner" where
  "exec_unobserved p e hand h identity obsErr r =
     (let signalled = snd obsErr;
          r1 = (if signalled then terminate_sealed h r else r);
          r2 = ee_meanwhile e AtObserveReap (startReap (pi_name p) identity h (withdraw_group h r1))
      in if handing hand e AtObserveReap then (ExecHandoff, r2)
         else settleUnobserved p h identity hand signalled (''observe leader exit: '' @ fst obsErr) (publish_reap h r2))"

section \<open>A running command\<close>

definition finishHandoff :: "procInfo \<Rightarrow> nat \<Rightarrow> string \<Rightarrow> runner \<Rightarrow> exec_result \<times> runner" where
  "finishHandoff p h identity r = (ExecHandoff, startReap (pi_name p) identity h r)"

definition exec_teardown :: "procInfo \<Rightarrow> exec_env \<Rightarrow> nat \<Rightarrow> string \<Rightarrow> runner \<Rightarrow> runner" where
  "exec_teardown p e h identity r =
     (if signallingEstablished (ee_observation e) (ee_cancelled e)
      then terminate (shutdownGrace (p_ShutdownTimeout (pi_proc p))) h r
      else recordUnverified (pi_name p) identity
        (pi_name p @ '': the command leader's identity could not be established ('' @
         exitObservation_String (ee_observation e) @ ''), so no process group signal was sent; its descendants ''
         @ ''could not be terminated by proc-compose'') r)"

definition wait_code :: "wait_status \<Rightarrow> int" where
  "wait_code w = (case w of WaitOk \<Rightarrow> 0 | WaitExit code _ \<Rightarrow> code | WaitError _ \<Rightarrow> - 1)"

definition wait_err :: "wait_status \<Rightarrow> exec_result" where
  "wait_err w = (case w of WaitOk \<Rightarrow> ExecOk | WaitExit _ m \<Rightarrow> ExecErr m False | WaitError m \<Rightarrow> ExecErr m False)"

text \<open>The verification after the leader is collected, under the lock.\<close>

definition exec_verify ::
  "procInfo \<Rightarrow> exec_env \<Rightarrow> bool \<Rightarrow> nat \<Rightarrow> string \<Rightarrow> bool \<Rightarrow> runner \<Rightarrow> exec_result \<times> runner" where
  "exec_verify p e hand h identity escaped r =
     (if hand \<and> rn_sealing r \<and> \<not> pi_teardown p then (ExecHandoff, r)
      else case state_of h r of
             (s, r1) \<Rightarrow>
               if s \<noteq> GroupEmpty
               then (wait_err (ee_wait e),
                     recordSurvivor (pi_name p) identity (survivorsError (groupResult (pi_name p) (rn_pgs r1 h) s)) r1)
               else (wait_err (ee_wait e),
                     close_group h (recordDropGroup h (untrackGroup (pi_name p) h
                       (if escaped
                        then recordUnverified (pi_name p) identity
                          (pi_name p @ '': a descendant still held the command's output after the process group was ''
                           @ ''force-killed, so it had left the group and its termination could not be verified; ''
                           @ ''check for detached children of '' @ pi_name p) r1
                        else r1)))))"

text \<open>The reap, the exit code and the verification, once no signal will be sent any more.\<close>

definition exec_reap ::
  "procInfo \<Rightarrow> exec_env \<Rightarrow> bool \<Rightarrow> nat \<Rightarrow> string \<Rightarrow> bool \<Rightarrow> runner \<times> procState \<Rightarrow> exec_result \<times> runner \<times> procState" where
  "exec_reap p e hand h identity escaped = (\<lambda>(r, st).
     let r1 = ee_meanwhile e AtReap (startReap (pi_name p) identity h (withdraw_group h r))
     in if handing hand e AtReap then (ExecHandoff, r1, st)
        else case exec_verify p e hand h identity escaped (publish_reap h r1) of
               (res, r2) \<Rightarrow> (res, r2, setExitCode (wait_code (ee_wait e)) st))"

text \<open>
  From the select on the exit to the reap. The observation is \<open>exitPending\<close> when the cancellation
  won the select, and the reader has escaped when it was still blocked after the settle time.
\<close>

definition exec_observed ::
  "procInfo \<Rightarrow> exec_env \<Rightarrow> bool \<Rightarrow> nat \<Rightarrow> string \<Rightarrow> runner \<times> procState \<Rightarrow> exec_result \<times> runner \<times> procState" where
  "exec_observed p e hand h identity = (\<lambda>(r, st).
     let r0 = ee_meanwhile e AtRun r
     in if handing hand e AtRun then (case finishHandoff p h identity r0 of (res, r') \<Rightarrow> (res, r', st))
     else let r1 = ee_meanwhile e AtJoin (exec_teardown p e h identity r0)
     in if ee_observation e = exitPending \<and> handing hand e AtJoin
        then (case finishHandoff p h identity r1 of (res, r') \<Rightarrow> (res, r', st))
     else let r2 = ee_meanwhile e AtScan r1
     in if ee_scan e \<noteq> ScanDone \<and> handing hand e AtScan
        then (case finishHandoff p h identity r2 of (res, r') \<Rightarrow> (res, r', st))
     else exec_reap p e hand h identity (ee_scan e = ScanEscaped) (r2, st))"

definition exec ::
  "procInfo \<Rightarrow> exec_env \<Rightarrow> bool \<Rightarrow> nat \<Rightarrow> (procState \<Rightarrow> procState) \<Rightarrow> runner \<times> procState \<Rightarrow>
   exec_result \<times> runner \<times> procState" where
  "exec p e hand h onStart = (\<lambda>(r, st).
     case ee_pipe e of
       Some m \<Rightarrow> (ExecErr m False, r, st)
     | None \<Rightarrow>
         (case exec_launch p e hand h r of
            Inl (res, r1) \<Rightarrow> (res, r1, st)
          | Inr (identity, r1) \<Rightarrow>
              (let st1 = setRunning (ee_pid e) st
               in case ee_observe e of
                    Some obsErr \<Rightarrow>
                      (case exec_unobserved p e hand h identity obsErr r1 of (res, r2) \<Rightarrow> (res, r2, st1))
                  | None \<Rightarrow> exec_observed p e hand h identity (r1, onStart st1))))"

end
