(* ===== verification/Runner_Safety.thy ===== *)
theory Runner_Safety
  imports Runner_Exec
begin

text \<open>
  Invariants of the runner under every interleaving of its critical sections. \<open>runner_op\<close> is one
  section of any goroutine, or a change of the PID file by its environment. Two facts are carried
  through all of them: a group is never signalled once the reap of its leader has started, and the
  record on disk covers every launch that has not been proven empty.
\<close>

section \<open>Steps\<close>

definition withdrawn :: "runner \<Rightarrow> nat \<Rightarrow> bool" where
  "withdrawn r h = ug_withdrawn (rn_pgs r h)"

definition klog :: "runner \<Rightarrow> kevent list" where
  "klog r = k_log (rn_kernel r)"

text \<open>A handle no group has used before.\<close>

definition fresh :: "nat \<Rightarrow> runner \<Rightarrow> bool" where
  "fresh h r = (rn_pgs r h = newProcessGroup \<and> (\<forall>e \<in> set (rn_records r). re_pg e \<noteq> h)
     \<and> ReapStarted h \<notin> set (klog r) \<and> h \<notin> snd ` set (rn_groups r))"

definition after_launch :: "(exec_result \<times> runner) + (string \<times> runner) \<Rightarrow> runner" where
  "after_launch x = (case x of Inl (_, r) \<Rightarrow> r | Inr (_, r) \<Rightarrow> r)"

definition take_groups :: "runner \<Rightarrow> runner" where
  "take_groups r = snd (takeGroups (r\<lparr>rn_stopping := True, rn_sealing := True\<rparr>))"

inductive runner_op :: "runner \<Rightarrow> runner \<Rightarrow> bool" where
  op_launch: "fresh h r \<Longrightarrow> runner_op r (after_launch (exec_launch p e hand h r))"
| op_terminate: "runner_op r (terminate grace h r)"
| op_terminate_sealed: "runner_op r (terminate_sealed h r)"
| op_signal: "runner_op r (signal_group sg h r)"
| op_state: "runner_op r (snd (state_of h r))"
| op_withdraw: "runner_op r (withdraw_group h r)"
| op_reap: "withdrawn r h \<Longrightarrow> runner_op r (startReap name identity h r)"
| op_publish: "runner_op r (publish_reap h r)"
| op_unverified: "runner_op r (recordUnverified name identity msg r)"
| op_verify: "runner_op r (snd (exec_verify p e hand h identity escaped r))"
| op_settle: "runner_op r (snd (settleUnobserved p h identity hand signalled err r))"
| op_take: "runner_op r (take_groups r)"
| op_seal: "runner_op r (seal_group groups name r)"
| op_close: "runner_op r (closeAdmission r)"
| op_open: "runner_op r (r\<lparr>rn_teardownOpen := b\<rparr>)"
| op_report: "runner_op r (reportPendingReaps r)"
| op_file: "file \<in> {FileMissing, FileForeign} \<Longrightarrow> runner_op r (r\<lparr>rn_file := file\<rparr>)"
| op_disk: "runner_op r (r\<lparr>rn_disk := d\<rparr>)"

section \<open>Signals and reaps\<close>

text \<open>No signal to a group after the reap of its leader started.\<close>

fun orderly :: "kevent list \<Rightarrow> bool" where
  "orderly [] = True"
| "orderly (ReapStarted h # es) = ((\<forall>g sg. Signalled h g sg \<notin> set es) \<and> orderly es)"
| "orderly (Signalled h g sg # es) = orderly es"

lemma orderly_append:
  "orderly (a @ b) \<longleftrightarrow> orderly a \<and> orderly b \<and> (\<forall>h g sg. ReapStarted h \<in> set a \<longrightarrow> Signalled h g sg \<notin> set b)"
  by (induction a rule: orderly.induct) auto

lemma orderly_signals: "signals_of h es \<Longrightarrow> orderly es"
  by (induction es rule: orderly.induct) (auto simp: signals_of_def)

text \<open>A step keeps withdrawn groups withdrawn, signals only owned ones and reaps only withdrawn ones.\<close>

definition calm :: "runner \<Rightarrow> runner \<Rightarrow> bool" where
  "calm r r' = ((\<forall>h. withdrawn r h \<longrightarrow> withdrawn r' h)
     \<and> (\<exists>es. klog r' = klog r @ es \<and> orderly es
          \<and> (\<forall>h g sg. Signalled h g sg \<in> set es \<longrightarrow> \<not> withdrawn r h)
          \<and> (\<forall>h. ReapStarted h \<in> set es \<longrightarrow> withdrawn r' h)))"

lemma calm_refl [simp, intro]: "calm r r"
  by (simp add: calm_def)

lemma calm_trans [trans]:
  assumes "calm r r'" and "calm r' r''"
  shows "calm r r''"
proof -
  obtain es1 es2 where 1: "klog r' = klog r @ es1" "orderly es1" "\<forall>h g sg. Signalled h g sg \<in> set es1 \<longrightarrow> \<not> withdrawn r h"
      "\<forall>h. ReapStarted h \<in> set es1 \<longrightarrow> withdrawn r' h"
    and 2: "klog r'' = klog r' @ es2" "orderly es2" "\<forall>h g sg. Signalled h g sg \<in> set es2 \<longrightarrow> \<not> withdrawn r' h"
      "\<forall>h. ReapStarted h \<in> set es2 \<longrightarrow> withdrawn r'' h"
    using assms unfolding calm_def by blast
  have m: "withdrawn r h \<Longrightarrow> withdrawn r' h" "withdrawn r' h \<Longrightarrow> withdrawn r'' h" for h
    using assms unfolding calm_def by blast+
  have "orderly (es1 @ es2)" unfolding orderly_append using 1 2 by blast
  moreover have "\<forall>h g sg. Signalled h g sg \<in> set (es1 @ es2) \<longrightarrow> \<not> withdrawn r h"
      "\<forall>h. ReapStarted h \<in> set (es1 @ es2) \<longrightarrow> withdrawn r'' h"
    unfolding set_append Un_iff using 1 2 m by blast+
  moreover have "klog r'' = klog r @ (es1 @ es2)" using 1(1) 2(1) by simp
  ultimately show ?thesis unfolding calm_def using m by blast
qed

lemma calm_frame: "rn_pgs r' = rn_pgs r \<Longrightarrow> k_log (rn_kernel r') = k_log (rn_kernel r) \<Longrightarrow> calm r r'"
  by (simp add: calm_def withdrawn_def klog_def)

text \<open>A change of one group that may signal it.\<close>

lemma calm_set_pg:
  assumes "ug_withdrawn (rn_pgs r h) \<longrightarrow> ug_withdrawn pg"
    and "\<exists>es. k_log k = klog r @ es \<and> signals_of h es \<and> (withdrawn r h \<longrightarrow> es = [])"
  shows "calm r (set_pg h pg k r)"
proof -
  obtain es where es: "k_log k = klog r @ es" "signals_of h es" "withdrawn r h \<longrightarrow> es = []" using assms(2) by blast
  have "\<forall>h' g sg. Signalled h' g sg \<in> set es \<longrightarrow> \<not> withdrawn r h'" "\<forall>h'. ReapStarted h' \<notin> set es"
    using es(2,3) by (auto simp: signals_of_def)
  with es orderly_signals [OF es(2)] assms(1) show ?thesis
    unfolding calm_def by (intro conjI exI [of _ es]) (auto simp: set_pg_def klog_def withdrawn_def)
qed

lemma calm_quiet:
  "(ug_withdrawn (rn_pgs r h) \<longrightarrow> ug_withdrawn pg) \<Longrightarrow> k_log k = klog r \<Longrightarrow> calm r (set_pg h pg k r)"
  by (rule calm_set_pg) auto

lemma calm_withdraw: "calm r (withdraw_group h r)"
  by (simp add: withdraw_group_def calm_quiet Withdraw_def klog_def)

lemma calm_close: "calm r (close_group h r)"
  by (simp add: close_group_def calm_quiet pg_Close_def klog_def)

lemma calm_state_of: "state_of h r = (s, r') \<Longrightarrow> calm r r'"
  by (auto simp: state_of_def klog_def split: prod.splits intro!: calm_quiet dest: State_withdrawn)

lemma calm_signal: "calm r (signal_group sg h r)"
  unfolding signal_group_def
  by (rule calm_set_pg) (use signal_log [of sg h "rn_pgs r h" "rn_kernel r"] in \<open>simp_all add: klog_def withdrawn_def\<close>)

lemma calm_terminate: "calm r (terminate grace h r)"
  by (cases "terminateGroup grace h (rn_pgs r h) (rn_kernel r)")
    (use terminateGroup_log in \<open>auto simp: terminate_def klog_def withdrawn_def intro!: calm_set_pg\<close>)

lemma calm_terminate_sealed: "calm r (terminate_sealed h r)"
  by (cases "terminateSealedGroup h (rn_pgs r h) (rn_kernel r)")
    (use terminateSealedGroup_log in \<open>auto simp: terminate_sealed_def klog_def withdrawn_def intro!: calm_set_pg\<close>)

lemma calm_startReap: "withdrawn r h \<Longrightarrow> calm r (startReap name identity h r)"
  by (auto simp: startReap_def Let_def calm_def klog_def withdrawn_def pruneTakenReapsLocked_def)

section \<open>Operations that leave the groups alone\<close>

text \<open>Neither the groups nor the kernel are touched.\<close>

definition still :: "runner \<Rightarrow> runner \<Rightarrow> bool" where
  "still r r' = (rn_pgs r' = rn_pgs r \<and> rn_kernel r' = rn_kernel r)"

lemma still_calm: "still r r' \<Longrightarrow> calm r r'"
  by (simp add: still_def calm_frame)

lemma still_write: "still r (snd (writeRecordLocked r))"
  by (simp add: still_def writeRecordLocked_def split: pidfile.splits option.splits)

lemma still_updates [simp]:
  "still r (r\<lparr>rn_records := x\<rparr>)" "still r (r\<lparr>rn_groups := g\<rparr>)" "still r (r\<lparr>rn_stopping := b\<rparr>)"
  "still r (r\<lparr>rn_teardownOpen := b\<rparr>)" "still r (r\<lparr>rn_file := f\<rparr>)" "still r (r\<lparr>rn_disk := d\<rparr>)" "still r r"
  by (simp_all add: still_def)

lemma still_problems [simp]:
  "still r (recordUnresolved name identity r)" "still r (recordShutdownProblem msg r)"
  "still r (recordSurvivor name identity err r)" "still r (recordUnverified name identity msg r)"
  by (simp_all add: still_def recordUnresolved_def recordShutdownProblem_def recordSurvivor_def
      recordUnverified_def Let_def)

lemma still_trans: "still a b \<Longrightarrow> still b c \<Longrightarrow> still a c"
  by (simp add: still_def)

lemma still_remove [simp]: "still r (removeRecordsLocked m r)"
  using still_write [of "r\<lparr>rn_records := filter (\<lambda>e. \<not> m e) (rn_records r)\<rparr>"]
  by (auto simp: removeRecordsLocked_def Let_def still_def)

lemma still_record [simp]:
  "still r (recordDrop entry r)" "still r (recordDropGroup h r)" "still r (recordTracked entry pid start r)"
  "still r (untrackGroup name h r)" "still r (publish_reap h r)" "still r (pruneTakenReapsLocked r)" "still r (closeAdmission r)"
  "still r (take_groups r)"
  using still_write still_remove by (auto simp: recordDrop_def recordDropGroup_def recordTracked_def untrackGroup_def publish_reap_def
      pruneTakenReapsLocked_def closeAdmission_def take_groups_def takeGroups_def still_def split: option.splits)

lemma still_pending: "recordPending name h r = (entry, err, r') \<Longrightarrow> still r r'"
  using still_write [of "r\<lparr>rn_records := rn_records r @ [\<lparr>re_id = rn_nextRec r, re_pg = h,
      re_group = \<lparr>g_Name = name, g_PGID = 0, g_LeaderStart = 0\<rparr>\<rparr>], rn_nextRec := Suc (rn_nextRec r)\<rparr>"]
  by (auto simp: recordPending_def Let_def still_def split: if_splits prod.splits option.splits write_error.splits)

lemma still_report: "still r (reportPendingReaps r)"
proof -
  have "still s (fold report_reap ts s)" for s ts
    by (induction ts arbitrary: s) (auto simp: report_reap_def intro: still_trans still_problems)
  then show ?thesis unfolding reportPendingReaps_def Let_def using still_record(6) still_trans by blast
qed

lemma calm_trackGroup: "calm r (trackGroup name h r)"
proof (cases "gget (rn_groups r) name")
  case None
  then show ?thesis by (simp add: trackGroup_def still_calm)
next
  case (Some prev)
  let ?r1 = "r\<lparr>rn_groups := gput name h (rn_groups r)\<rparr>"
  obtain s r2 where s: "state_of prev ?r1 = (s, r2)" by (cases "state_of prev ?r1")
  have "calm r ?r1" by (simp add: still_calm)
  also have "calm ?r1 r2" by (rule calm_state_of [OF s])
  finally have "calm r r2" .
  then have "calm r (close_group prev (recordSurvivor name i m r2))" "calm r (close_group prev (recordDropGroup prev r2))" for i m
    using still_calm calm_close calm_trans still_problems(3) still_record(2) by meson+
  then show ?thesis using Some s \<open>calm r ?r1\<close> by (simp add: trackGroup_def Let_def)
qed

lemma calm_track_failed: "calm r (snd (track_failed p e hand h entry m r))"
proof -
  obtain obs err pg k where s: "Seal (rn_pgs r h) (rn_kernel r) = (obs, err, pg, k)" by (rule prod_cases4)
  let ?r1 = "set_pg h pg k r"
  have w: "ug_withdrawn pg" "k_log k = klog r" using Seal_withdraws [OF s] by (simp_all add: klog_def)
  then have 1: "calm r ?r1" by (intro calm_quiet) auto
  have d: "calm r x \<Longrightarrow> withdrawn x h \<Longrightarrow> calm r (startReap n i h x)" for x n i
    using calm_startReap calm_trans by blast
  have "withdrawn ?r1 h" using w by (simp add: withdrawn_def set_pg_def)
  then have w2: "withdrawn (recordDrop entry ?r1) h" using still_record(1) [of ?r1 entry] by (simp add: still_def withdrawn_def)
  have c2: "calm r (recordDrop entry ?r1)" using 1 still_calm [OF still_record(1)] calm_trans by blast
  have u: "calm r x \<Longrightarrow> calm r (recordUnverified a b c x)" for x a b c
    using still_calm [OF still_problems(4)] calm_trans by blast
  show ?thesis
    using d [OF 1 \<open>withdrawn ?r1 h\<close>] d [OF c2 w2] u
    by (simp add: track_failed_def s Let_def)
qed

lemma calm_launch: "calm r (after_launch (exec_launch p e hand h r))"
proof (cases "launch_refused p e r")
  case True
  then show ?thesis by (simp add: exec_launch_def after_launch_def calm_close)
next
  case False
  obtain entry err r1 where pend: "recordPending (pi_name p) h r = (entry, err, r1)" by (rule prod_cases3)
  have 1: "calm r r1" by (rule still_calm [OF still_pending [OF pend]])
  let ?r2 = "set_pg h (Track (ee_pid e) (rn_pgs r1 h)) (rn_kernel r1) r1"
  have "calm r1 ?r2" by (rule calm_quiet) (simp_all add: Track_def klog_def)
  then have 2: "calm r ?r2" using 1 calm_trans by blast
  have closed: "calm r (close_group h r1)" "calm r (close_group h (recordDrop entry r1))"
    using 1 calm_close still_calm [OF still_record(1)] calm_trans by meson+
  have tracked: "calm r (recordTracked entry (ee_pid e) (ee_leaderStart e) (trackGroup (pi_name p) h ?r2))"
    using 2 calm_trackGroup still_calm [OF still_record(3)] calm_trans by meson
  have failed: "track_failed p e hand h entry m r1 = (res, r') \<Longrightarrow> calm r r'" for m res r'
    using 1 calm_track_failed [of r1 p e hand h entry m] calm_trans by force
  show ?thesis using False pend closed tracked failed
    by (auto simp: exec_launch_def after_launch_def Let_def split: option.splits prod.splits intro: failed)
qed

lemma calm_release: "calm r r1 \<Longrightarrow> calm r (close_group h (recordDropGroup h (untrackGroup name h r1)))"
  using still_calm [OF still_record(2)] still_calm [OF still_record(4)] calm_close calm_trans by meson

lemma calm_settle: "calm r (snd (settleUnobserved p h identity hand signalled err r))"
proof -
  obtain s r1 where s: "state_of h r = (s, r1)" by (cases "state_of h r")
  note 1 = calm_state_of [OF s]
  have "calm r (recordUnverified a b c r1)" for a b c using 1 still_calm [OF still_problems(4)] calm_trans by blast
  then show ?thesis using s calm_release [OF 1] by (simp add: settleUnobserved_def)
qed

lemma calm_verify: "calm r (snd (exec_verify p e hand h identity escaped r))"
proof -
  obtain s r1 where s: "state_of h r = (s, r1)" by (cases "state_of h r")
  note 1 = calm_state_of [OF s]
  have "calm r (recordUnverified a b c r1)" "calm r (recordSurvivor a b m r1)" for a b c m
    using 1 still_calm [OF still_problems(4)] still_calm [OF still_problems(3)] calm_trans by blast+
  then show ?thesis using s calm_release 1 by (simp add: exec_verify_def)
qed

lemma calm_seal_group: "calm r (seal_group groups name r)"
proof (cases "gget groups name")
  case (Some h)
  let ?r1 = "terminate_sealed h r"
  obtain obs err pg k where s: "Seal (rn_pgs ?r1 h) (rn_kernel ?r1) = (obs, err, pg, k)" by (rule prod_cases4)
  have w: "ug_withdrawn pg" "k_log k = klog ?r1" "err = None" using Seal_withdraws [OF s] by (simp_all add: klog_def)
  have "calm ?r1 (set_pg h pg k ?r1)" using w by (intro calm_quiet) auto
  then have 1: "calm r (set_pg h pg k ?r1)" using calm_terminate_sealed calm_trans by blast
  then have "calm r (recordDropGroup h (set_pg h pg k ?r1))" "calm r (recordSurvivor a b m (set_pg h pg k ?r1))" for a b m
    using still_calm [OF still_record(2)] still_calm [OF still_problems(3)] calm_trans by blast+
  with 1 Some s w show ?thesis by (simp add: seal_group_def Let_def)
qed (simp add: seal_group_def)

lemma calm_op: "runner_op r r' \<Longrightarrow> calm r r'"
  by (induction rule: runner_op.induct)
    (simp_all add: calm_launch calm_state_of [OF prod.collapse [symmetric]] calm_terminate calm_terminate_sealed calm_signal calm_withdraw calm_startReap
      calm_verify calm_settle calm_seal_group still_calm still_report)

definition reaps_ok :: "runner \<Rightarrow> bool" where
  "reaps_ok r = (orderly (klog r) \<and> (\<forall>h. ReapStarted h \<in> set (klog r) \<longrightarrow> withdrawn r h))"

lemma reaps_ok_calm: "reaps_ok r \<Longrightarrow> calm r r' \<Longrightarrow> reaps_ok r'"
proof -
  assume ok: "reaps_ok r" and c: "calm r r'"
  obtain es where es: "klog r' = klog r @ es" "orderly es" "\<forall>h g sg. Signalled h g sg \<in> set es \<longrightarrow> \<not> withdrawn r h"
      "\<forall>h. ReapStarted h \<in> set es \<longrightarrow> withdrawn r' h" and m: "\<forall>h. withdrawn r h \<longrightarrow> withdrawn r' h"
    using c unfolding calm_def by blast
  have "orderly (klog r @ es)" unfolding orderly_append using ok es unfolding reaps_ok_def by blast
  moreover have "\<forall>h. ReapStarted h \<in> set (klog r @ es) \<longrightarrow> withdrawn r' h"
    unfolding set_append Un_iff using ok es(4) m unfolding reaps_ok_def by blast
  ultimately show ?thesis by (simp add: reaps_ok_def es(1))
qed

interpretation rc: transition_invariant runner_op reaps_ok calm
  by unfold_locales (auto intro: calm_op reaps_ok_calm calm_trans)

section \<open>The record\<close>

text \<open>Every entry in memory is on disk, at least as a pending one; entry numbers are used once.\<close>

definition entry_covered :: "Group list \<Rightarrow> recEntry \<Rightarrow> bool" where
  "entry_covered gs e = (\<exists>g \<in> set gs. g_Name g = g_Name (re_group e) \<and> g_PGID g \<in> {0, g_PGID (re_group e)})"

definition record_ok :: "runner \<Rightarrow> bool" where
  "record_ok r = ((\<forall>e \<in> set (rn_records r). re_id e < rn_nextRec r)
     \<and> (\<forall>gs. rn_recordOn r \<longrightarrow> rn_file r = FileOurs gs \<longrightarrow> (\<forall>e \<in> set (rn_records r). entry_covered gs e)))"

lemma record_ok_frame:
  "rn_records r' = rn_records r \<Longrightarrow> rn_nextRec r' = rn_nextRec r \<Longrightarrow> rn_recordOn r' = rn_recordOn r \<Longrightarrow>
     rn_file r' = rn_file r \<Longrightarrow> record_ok r \<Longrightarrow> record_ok r'"
  by (simp add: record_ok_def)

lemma record_write: "record_ok r \<Longrightarrow> record_ok (snd (writeRecordLocked r))"
  by (auto simp: writeRecordLocked_def record_ok_def entry_covered_def split: pidfile.splits option.splits)

lemma record_sub:
  "record_ok r \<Longrightarrow> set xs \<subseteq> set (rn_records r) \<Longrightarrow> record_ok (r\<lparr>rn_records := xs\<rparr>)"
  by (auto simp: record_ok_def)

lemma record_remove: "record_ok r \<Longrightarrow> record_ok (removeRecordsLocked m r)"
  unfolding removeRecordsLocked_def Let_def by (auto intro!: record_write record_sub)

lemma record_drop: "record_ok r \<Longrightarrow> record_ok (recordDrop entry r)" "record_ok r \<Longrightarrow> record_ok (recordDropGroup h r)"
  by (auto simp: recordDrop_def recordDropGroup_def record_remove split: option.splits)

lemma record_tracked:
  assumes "record_ok r" and "\<forall>i. entry = Some i \<longrightarrow> (\<forall>e \<in> set (rn_records r). re_id e = i \<longrightarrow> g_PGID (re_group e) = 0)"
  shows "record_ok (recordTracked entry pid start r)"
proof (cases entry)
  case (Some i)
  let ?f = "\<lambda>e. if re_id e = i then e\<lparr>re_group := (re_group e)\<lparr>g_PGID := pid, g_LeaderStart := start\<rparr>\<rparr> else e"
  have "record_ok (r\<lparr>rn_records := map ?f (rn_records r)\<rparr>)"
    using assms Some by (fastforce simp: record_ok_def entry_covered_def)
  then show ?thesis using Some assms(1) record_write by (simp add: recordTracked_def)
qed (simp add: recordTracked_def assms)

definition pending_entry :: "string \<Rightarrow> nat \<Rightarrow> runner \<Rightarrow> recEntry" where
  "pending_entry name h r =
     \<lparr>re_id = rn_nextRec r, re_pg = h, re_group = \<lparr>g_Name = name, g_PGID = 0, g_LeaderStart = 0\<rparr>\<rparr>"

lemma pending_entry_id [simp]: "re_id (pending_entry name h r) = rn_nextRec r"
  by (simp add: pending_entry_def)

lemma recordPending_cases:
  assumes "recordPending name h r = (entry, err, r')"
  obtains (off) "\<not> rn_recordOn r" "entry = None" "r' = r"
    | (written) "entry = Some (rn_nextRec r)" "err = None" "r' = r\<lparr>rn_records := rn_records r @ [pending_entry name h r],
        rn_nextRec := Suc (rn_nextRec r), rn_file := FileOurs (map re_group (rn_records r @ [pending_entry name h r]))\<rparr>"
    | (refused) "entry = None" "err \<noteq> None" "r' = r\<lparr>rn_nextRec := Suc (rn_nextRec r)\<rparr>"
    | (lost) "entry = None" "err = None" "r' = r\<lparr>rn_nextRec := Suc (rn_nextRec r), rn_recordOn := False, rn_records := []\<rparr>"
proof (cases "rn_recordOn r")
  case True
  note on = this
  have d: "recordPending name h r =
      (case writeRecordLocked (r\<lparr>rn_records := rn_records r @ [pending_entry name h r], rn_nextRec := Suc (rn_nextRec r)\<rparr>) of
         (None, r2) \<Rightarrow> (Some (re_id (pending_entry name h r)), None, r2)
       | (Some err, r2) \<Rightarrow>
           (case err of
              ErrWrite _ \<Rightarrow> (None, Some err, r2\<lparr>rn_records := rn_records r\<rparr>)
            | _ \<Rightarrow> (None, None, r2\<lparr>rn_recordOn := False, rn_records := []\<rparr>)))"
    using True by (simp only: recordPending_def pending_entry_def Let_def if_False not_True_eq_False simp_thms)
  show ?thesis
  proof (cases "rn_file r")
    case FileMissing
    with assms d show ?thesis by (intro lost) (simp_all add: writeRecordLocked_def)
  next
    case FileForeign
    with assms d show ?thesis by (intro lost) (simp_all add: writeRecordLocked_def)
  next
    case (FileOurs gs)
    show ?thesis
    proof (cases "rn_disk r")
      case None
      with FileOurs assms d show ?thesis by (intro written) (simp_all add: writeRecordLocked_def)
    next
      case (Some m)
      with FileOurs assms d show ?thesis by (intro refused) (auto simp: writeRecordLocked_def)
    qed
  qed
next
  case False
  with assms have "entry = None" "r' = r" by (auto simp: recordPending_def)
  with False show ?thesis by (intro off)
qed

lemma record_pending:
  assumes "record_ok r" and "recordPending name h r = (entry, err, r')"
  shows "record_ok r'"
    and "entry = Some i \<Longrightarrow> \<forall>e \<in> set (rn_records r'). re_id e = i \<longrightarrow> g_PGID (re_group e) = 0"
proof -
  have ids: "\<forall>e \<in> set (rn_records r). re_id e < rn_nextRec r" using assms(1) by (simp add: record_ok_def)
  show "record_ok r'"
    using assms(2)
  proof (cases rule: recordPending_cases)
    case written
    have "entry_covered (map re_group (rn_records r @ [pending_entry name h r])) e"
      if "e \<in> set (rn_records r @ [pending_entry name h r])" for e
      unfolding entry_covered_def using that by (intro bexI [of _ "re_group e"]) auto
    with ids written show ?thesis by (simp add: record_ok_def pending_entry_def less_Suc_eq)
  qed (use assms(1) ids in \<open>auto simp: record_ok_def less_Suc_eq\<close>)
  show "\<forall>e \<in> set (rn_records r'). re_id e = i \<longrightarrow> g_PGID (re_group e) = 0" if i: "entry = Some i"
    using assms(2)
  proof (cases rule: recordPending_cases)
    case written
    with ids i show ?thesis by (auto simp: pending_entry_def)
  qed (use i in auto)
qed

text \<open>Operations that do not touch the record.\<close>

definition unfiled :: "runner \<Rightarrow> runner \<Rightarrow> bool" where
  "unfiled r r' = (rn_records r' = rn_records r \<and> rn_nextRec r' = rn_nextRec r \<and> rn_recordOn r' = rn_recordOn r
     \<and> rn_file r' = rn_file r)"

lemma unfiled_ok: "unfiled r r' \<Longrightarrow> record_ok r \<Longrightarrow> record_ok r'"
  by (simp add: unfiled_def record_ok_def)

lemma unfiled_trans: "unfiled a b \<Longrightarrow> unfiled b c \<Longrightarrow> unfiled a c"
  by (simp add: unfiled_def)

lemma unfiled_ops [simp]:
  "unfiled r (set_pg h pg k r)" "unfiled r (close_group h r)" "unfiled r (withdraw_group h r)" "unfiled r (signal_group sg h r)"
  "unfiled r (recordUnresolved n i r)" "unfiled r (recordShutdownProblem m r)" "unfiled r (recordSurvivor n i er r)"
  "unfiled r (recordUnverified n i m r)" "unfiled r (untrackGroup n h r)" "unfiled r (publish_reap h r)"
  "unfiled r (pruneTakenReapsLocked r)" "unfiled r (startReap n i h r)" "unfiled r (closeAdmission r)"
  "unfiled r (take_groups r)" "unfiled r (r\<lparr>rn_teardownOpen := b\<rparr>)" "unfiled r (r\<lparr>rn_disk := d\<rparr>)"
  "unfiled r (r\<lparr>rn_groups := gs\<rparr>)" "unfiled r (terminate grace h r)" "unfiled r (terminate_sealed h r)"
  by (auto simp: unfiled_def set_pg_def close_group_def withdraw_group_def signal_group_def recordUnresolved_def
      recordShutdownProblem_def recordSurvivor_def recordUnverified_def untrackGroup_def publish_reap_def
      pruneTakenReapsLocked_def startReap_def closeAdmission_def take_groups_def takeGroups_def terminate_def
      terminate_sealed_def Let_def split: prod.splits)

lemma unfiled_state_of: "state_of h r = (s, r') \<Longrightarrow> unfiled r r'"
  by (auto simp: state_of_def split: prod.splits)

lemma unfiled_report: "unfiled r (reportPendingReaps r)"
proof -
  have one: "unfiled s (report_reap t s)" for s t by (simp add: report_reap_def)
  have "unfiled s (fold report_reap ts s)" for s ts
  proof (induction ts arbitrary: s)
    case (Cons t ts)
    show ?case using unfiled_trans [OF one Cons.IH] by simp
  qed (simp add: unfiled_def)
  then show ?thesis unfolding reportPendingReaps_def Let_def using unfiled_ops(11) unfiled_trans by blast
qed

lemma record_sub_ops:
  "set (rn_records (removeRecordsLocked m r)) \<subseteq> set (rn_records r)"
  by (auto simp: removeRecordsLocked_def writeRecordLocked_def Let_def split: pidfile.splits option.splits)

lemma trackGroup_records: "set (rn_records (trackGroup name h r)) \<subseteq> set (rn_records r)"
proof (cases "gget (rn_groups r) name")
  case (Some prev)
  let ?r1 = "r\<lparr>rn_groups := gput name h (rn_groups r)\<rparr>"
  obtain s r2 where s: "state_of prev ?r1 = (s, r2)" by (cases "state_of prev ?r1")
  have 2: "rn_records r2 = rn_records r" using unfiled_state_of [OF s] by (simp add: unfiled_def)
  have c: "rn_records (close_group prev x) = rn_records x" for x using unfiled_ops(2) by (simp add: unfiled_def)
  have "rn_records (recordSurvivor a b m r2) = rn_records r" for a b m
    using unfiled_ops(7) [of r2 a b m] 2 by (simp add: unfiled_def)
  moreover have "set (rn_records (recordDropGroup prev r2)) \<subseteq> set (rn_records r)"
    using record_sub_ops [of _ r2] 2 by (simp add: recordDropGroup_def)
  ultimately show ?thesis using Some s by (simp add: trackGroup_def Let_def c)
qed (simp add: trackGroup_def)

lemma record_trackGroup: "record_ok r \<Longrightarrow> record_ok (trackGroup name h r)"
proof (cases "gget (rn_groups r) name")
  case (Some prev)
  assume ok: "record_ok r"
  let ?r1 = "r\<lparr>rn_groups := gput name h (rn_groups r)\<rparr>"
  obtain s r2 where s: "state_of prev ?r1 = (s, r2)" by (cases "state_of prev ?r1")
  have 1: "record_ok ?r1" by (rule unfiled_ok [OF unfiled_ops(17) ok])
  have 2: "record_ok r2" by (rule unfiled_ok [OF unfiled_state_of [OF s] 1])
  have "record_ok (recordSurvivor a b m r2)" for a b m by (rule unfiled_ok [OF unfiled_ops(7) 2])
  with 1 record_drop(2) [OF 2, of prev] Some s show ?thesis
    by (simp add: trackGroup_def Let_def unfiled_ok [OF unfiled_ops(2)])
qed (simp add: trackGroup_def unfiled_ok [OF unfiled_ops(17)])

lemma record_track_failed: "record_ok r \<Longrightarrow> record_ok (snd (track_failed p e hand h entry m r))"
  by (auto simp: track_failed_def Let_def unfiled_ok [OF unfiled_ops(8)] unfiled_ok [OF unfiled_ops(12)]
      unfiled_ok [OF unfiled_ops(1)] record_drop split: prod.splits)

lemma record_launch:
  assumes "record_ok r"
  shows "record_ok (after_launch (exec_launch p e hand h r))"
proof (cases "launch_refused p e r")
  case True
  then show ?thesis by (simp add: exec_launch_def after_launch_def unfiled_ok [OF unfiled_ops(2) assms])
next
  case False
  obtain entry err r1 where pend: "recordPending (pi_name p) h r = (entry, err, r1)" by (rule prod_cases3)
  have 1: "record_ok r1" and z: "entry = Some i \<Longrightarrow> \<forall>e \<in> set (rn_records r1). re_id e = i \<longrightarrow> g_PGID (re_group e) = 0" for i
    using record_pending [OF assms pend] by auto
  let ?r2 = "set_pg h (Track (ee_pid e) (rn_pgs r1 h)) (rn_kernel r1) r1"
  have 2: "record_ok ?r2" by (rule unfiled_ok [OF unfiled_ops(1) 1])
  have sub: "set (rn_records (trackGroup (pi_name p) h ?r2)) \<subseteq> set (rn_records r1)"
    using trackGroup_records [of "pi_name p" h ?r2] by (simp add: set_pg_def)
  have "\<forall>e \<in> set (rn_records (trackGroup (pi_name p) h ?r2)). re_id e = i \<longrightarrow> g_PGID (re_group e) = 0"
    if "entry = Some i" for i using z [OF that] sub by (meson subsetD)
  then have tracked: "record_ok (recordTracked entry (ee_pid e) (ee_leaderStart e) (trackGroup (pi_name p) h ?r2))"
    by (intro record_tracked [OF record_trackGroup [OF 2]]) simp
  have closed: "record_ok (close_group h r1)" "record_ok (close_group h (recordDrop entry r1))"
    by (rule unfiled_ok [OF unfiled_ops(2) 1], rule unfiled_ok [OF unfiled_ops(2) record_drop(1) [OF 1]])
  have failed: "track_failed p e hand h entry m r1 = (res, r') \<Longrightarrow> record_ok r'" for m res r'
    using record_track_failed [OF 1, of p e hand h entry m] by simp
  show ?thesis using False pend closed tracked
    by (auto simp: exec_launch_def after_launch_def Let_def split: option.splits prod.splits intro: failed)
qed

lemma record_release: "record_ok r \<Longrightarrow> record_ok (close_group h (recordDropGroup h (untrackGroup name h r)))"
  by (simp add: unfiled_ok [OF unfiled_ops(2)] unfiled_ok [OF unfiled_ops(9)] record_drop)

lemma record_settle: "record_ok r \<Longrightarrow> record_ok (snd (settleUnobserved p h identity hand signalled err r))"
  by (cases "state_of h r")
    (auto simp: settleUnobserved_def unfiled_ok [OF unfiled_ops(8)] record_release unfiled_ok [OF unfiled_state_of])

lemma record_verify: "record_ok r \<Longrightarrow> record_ok (snd (exec_verify p e hand h identity escaped r))"
  by (cases "state_of h r")
    (auto simp: exec_verify_def unfiled_ok [OF unfiled_ops(8)] unfiled_ok [OF unfiled_ops(7)] record_release
      unfiled_ok [OF unfiled_state_of])

lemma record_seal_group: "record_ok r \<Longrightarrow> record_ok (seal_group groups name r)"
  by (auto simp: seal_group_def Let_def unfiled_ok [OF unfiled_ops(8)] unfiled_ok [OF unfiled_ops(7)]
      unfiled_ok [OF unfiled_ops(1)] unfiled_ok [OF unfiled_ops(19)] record_drop split: option.splits prod.splits)

lemma record_op: "runner_op r r' \<Longrightarrow> record_ok r \<Longrightarrow> record_ok r'"
proof (induction rule: runner_op.induct)
  case (op_file f r)
  then show ?case by (auto simp: record_ok_def)
qed (auto simp: record_launch record_settle record_verify record_seal_group
    intro: unfiled_ok unfiled_ops unfiled_report unfiled_ok [OF unfiled_state_of [OF prod.collapse [symmetric]]])

interpretation rr: transition_invariant runner_op record_ok "\<lambda>_ _. True"
  by unfold_locales (auto intro: record_op)

end
