(* ===== verification/Runner_Correct.thy ===== *)
theory Runner_Correct
  imports Runner_Safety
begin

text \<open>
  The properties of the runner's process groups: signals never follow a reap, the record on disk
  covers what may still run and loses an entry only for a group that was seen empty, a closed
  admission launches nothing, and a clean shutdown verdict proves every registered group empty.
\<close>

section \<open>Whole operations as steps\<close>

lemma sealGroups_steps: "runner_op\<^sup>*\<^sup>* r (sealGroups r)"
proof -
  have "runner_op\<^sup>*\<^sup>* s (fold (seal_group gs) ns s)" for gs ns s
  proof (induction ns arbitrary: s)
    case (Cons n ns)
    have "runner_op s (seal_group gs n s)" by (rule op_seal)
    with Cons [of "seal_group gs n s"] show ?case by (simp add: converse_rtranclp_into_rtranclp)
  qed simp
  moreover have "runner_op r (take_groups r)" by (rule op_take)
  ultimately show ?thesis
    by (simp add: sealGroups_def take_groups_def takeGroups_def converse_rtranclp_into_rtranclp)
qed

lemma step1: "runner_op\<^sup>*\<^sup>* r s \<Longrightarrow> runner_op s s' \<Longrightarrow> runner_op\<^sup>*\<^sup>* r s'"
  by (rule rtranclp.rtrancl_into_rtrancl)

text \<open>
  The discipline of the cleanup handoff: what happens meanwhile are steps of the runner, and the
  handoff is released only after the group was sealed.
\<close>

definition disciplined :: "exec_env \<Rightarrow> bool \<Rightarrow> nat \<Rightarrow> bool" where
  "disciplined e hand h = ((\<forall>pt r. runner_op\<^sup>*\<^sup>* r (ee_meanwhile e pt r))
     \<and> (\<forall>pt r. handing hand e pt \<longrightarrow> withdrawn (ee_meanwhile e pt r) h))"

lemma exec_reap_steps:
  assumes "disciplined e hand h" and "runner_op\<^sup>*\<^sup>* r0 r"
  shows "runner_op\<^sup>*\<^sup>* r0 (fst (snd (exec_reap p e hand h identity escaped (r, st))))"
proof -
  let ?a = "withdraw_group h r"
  let ?b = "startReap (pi_name p) identity h ?a"
  let ?c = "ee_meanwhile e AtReap ?b"
  have "withdrawn ?a h" by (simp add: withdrawn_def withdraw_group_def set_pg_def Withdraw_def)
  then have "runner_op\<^sup>*\<^sup>* r0 ?b" using assms(2) op_withdraw op_reap step1 by meson
  then have c: "runner_op\<^sup>*\<^sup>* r0 ?c" using assms(1) by (meson disciplined_def rtranclp_trans)
  then have "runner_op\<^sup>*\<^sup>* r0 (snd (exec_verify p e hand h identity escaped (publish_reap h ?c)))"
    using op_publish op_verify step1 by meson
  with c show ?thesis by (auto simp: exec_reap_def Let_def split: prod.splits)
qed

lemma exec_observed_steps:
  assumes d: "disciplined e hand h" and "runner_op\<^sup>*\<^sup>* r0 r"
  shows "runner_op\<^sup>*\<^sup>* r0 (fst (snd (exec_observed p e hand h identity (r, st))))"
proof -
  let ?m = "ee_meanwhile e"
  let ?t = "exec_teardown p e h identity (?m AtRun r)"
  have m: "runner_op\<^sup>*\<^sup>* r0 s \<Longrightarrow> runner_op\<^sup>*\<^sup>* r0 (?m pt s)" for s pt using d by (meson disciplined_def rtranclp_trans)
  have f: "runner_op\<^sup>*\<^sup>* r0 (startReap (pi_name p) identity h (?m pt s))"
    if "runner_op\<^sup>*\<^sup>* r0 s" "handing hand e pt" for s pt
    using m [OF that(1), of pt] d that(2) op_reap step1 by (meson disciplined_def)
  have run: "runner_op\<^sup>*\<^sup>* r0 (?m AtRun r)" by (rule m [OF assms(2)])
  have "runner_op s (exec_teardown p e h identity s)" for s
    by (simp add: exec_teardown_def op_terminate op_unverified)
  then have t: "runner_op\<^sup>*\<^sup>* r0 ?t" using run step1 by blast
  show ?thesis
    using f [OF assms(2), of AtRun] f [OF t, of AtJoin] f [OF m [OF t, of AtJoin], of AtScan]
      exec_reap_steps [OF d m [OF m [OF t, of AtJoin], of AtScan]]
    by (simp add: exec_observed_def Let_def finishHandoff_def)
qed

lemma exec_steps:
  assumes d: "disciplined e hand h" and "fresh h r"
  shows "runner_op\<^sup>*\<^sup>* r (fst (snd (exec p e hand h onStart (r, st))))"
proof -
  have l: "runner_op\<^sup>*\<^sup>* r (after_launch (exec_launch p e hand h r))"
    by (rule r_into_rtranclp) (rule op_launch [OF assms(2)])
  have unobserved: "runner_op\<^sup>*\<^sup>* r (snd (exec_unobserved p e hand h identity oe s))" if s: "runner_op\<^sup>*\<^sup>* r s" for s identity oe
  proof -
    let ?a = "if snd oe then terminate_sealed h s else s"
    let ?b = "startReap (pi_name p) identity h (withdraw_group h ?a)"
    have "runner_op\<^sup>*\<^sup>* r (withdraw_group h ?a)" using s op_terminate_sealed op_withdraw step1 by (metis (full_types))
    moreover have "withdrawn (withdraw_group h ?a) h" by (simp add: withdrawn_def withdraw_group_def set_pg_def Withdraw_def)
    ultimately have "runner_op\<^sup>*\<^sup>* r ?b" using op_reap step1 by meson
    then have c: "runner_op\<^sup>*\<^sup>* r (ee_meanwhile e AtObserveReap ?b)" using d by (meson disciplined_def rtranclp_trans)
    then have "runner_op\<^sup>*\<^sup>* r (snd (settleUnobserved p h identity hand sg err (publish_reap h (ee_meanwhile e AtObserveReap ?b))))"
      for sg err using op_publish op_settle step1 by meson
    with c show ?thesis by (simp add: exec_unobserved_def Let_def)
  qed
  show ?thesis
  proof (cases "exec_launch p e hand h r")
    case (Inl x)
    with l show ?thesis by (auto simp: exec_def after_launch_def split: option.splits prod.splits)
  next
    case (Inr x)
    then obtain identity r1 where x: "exec_launch p e hand h r = Inr (identity, r1)" by (cases x) auto
    with l have r1: "runner_op\<^sup>*\<^sup>* r r1" by (simp add: after_launch_def)
    from unobserved [OF r1] exec_observed_steps [OF d r1] x show ?thesis
      by (auto simp: exec_def Let_def split: option.splits prod.splits) (metis snd_conv)
  qed
qed

section \<open>The registry\<close>

text \<open>No name twice, and no group under two names.\<close>

definition registry_ok :: "runner \<Rightarrow> bool" where
  "registry_ok r = (gomap_ok (rn_groups r)
     \<and> (\<forall>n m h. gget (rn_groups r) n = Some h \<longrightarrow> gget (rn_groups r) m = Some h \<longrightarrow> n = m))"

lemma registry_frame: "rn_groups r' = rn_groups r \<Longrightarrow> registry_ok r \<Longrightarrow> registry_ok r'"
  by (simp add: registry_ok_def)

lemma groups_write [simp]: "rn_groups (snd (writeRecordLocked r)) = rn_groups r"
  by (simp add: writeRecordLocked_def split: pidfile.splits option.splits)

lemma groups_set [simp]:
  "rn_groups (set_pg h pg k r) = rn_groups r" "rn_groups (close_group h r) = rn_groups r"
  "rn_groups (withdraw_group h r) = rn_groups r" "rn_groups (signal_group sg h r) = rn_groups r"
  "rn_groups (terminate grace h r) = rn_groups r" "rn_groups (terminate_sealed h r) = rn_groups r"
  by (simp_all add: set_pg_def close_group_def withdraw_group_def signal_group_def terminate_def terminate_sealed_def
      split: prod.splits)

lemma groups_problems [simp]:
  "rn_groups (recordUnresolved n i r) = rn_groups r" "rn_groups (recordShutdownProblem m r) = rn_groups r"
  "rn_groups (recordSurvivor n i er r) = rn_groups r" "rn_groups (recordUnverified n i m r) = rn_groups r"
  "rn_groups (publish_reap h r) = rn_groups r" "rn_groups (pruneTakenReapsLocked r) = rn_groups r"
  "rn_groups (startReap n i h r) = rn_groups r" "rn_groups (closeAdmission r) = rn_groups r"
  by (simp_all add: recordUnresolved_def recordShutdownProblem_def recordSurvivor_def recordUnverified_def
      publish_reap_def pruneTakenReapsLocked_def startReap_def closeAdmission_def Let_def)

lemma groups_remove [simp]: "rn_groups (removeRecordsLocked mt r) = rn_groups r"
  by (simp add: removeRecordsLocked_def Let_def)

lemma groups_record [simp]:
  "rn_groups (recordDrop en r) = rn_groups r" "rn_groups (recordDropGroup h r) = rn_groups r"
  "rn_groups (recordTracked en pid start r) = rn_groups r"
  by (simp_all add: recordDrop_def recordDropGroup_def recordTracked_def split: option.splits)

lemma groups_state_of: "state_of h r = (s, r') \<Longrightarrow> rn_groups r' = rn_groups r"
  by (auto simp: state_of_def split: prod.splits)

lemma groups_pending: "recordPending name h r = (entry, err, r') \<Longrightarrow> rn_groups r' = rn_groups r"
  by (elim recordPending_cases) auto

lemma groups_report [simp]: "rn_groups (reportPendingReaps r) = rn_groups r"
proof -
  have "rn_groups (fold report_reap ts s) = rn_groups s" for ts s
    by (induction ts arbitrary: s) (simp_all add: report_reap_def)
  then show ?thesis by (simp add: reportPendingReaps_def Let_def)
qed

lemma groups_track: "rn_groups (trackGroup name h r) = gput name h (rn_groups r)"
  by (auto simp: trackGroup_def Let_def split: option.splits prod.splits dest: groups_state_of)

lemma groups_track_failed: "rn_groups (snd (track_failed p e hand h entry m r)) = rn_groups r"
  by (auto simp: track_failed_def Let_def split: prod.splits)

lemma groups_launch:
  "rn_groups (after_launch (exec_launch p e hand h r)) \<in> {rn_groups r, gput (pi_name p) h (rn_groups r)}"
proof (cases "launch_refused p e r")
  case False
  obtain entry err r1 where pend: "recordPending (pi_name p) h r = (entry, err, r1)" by (rule prod_cases3)
  note g = groups_pending [OF pend]
  show ?thesis
  proof (cases err)
    case None
    have failed: "track_failed p e hand h entry m r1 = (res, r') \<Longrightarrow> rn_groups r' = rn_groups r" for m res r'
      using groups_track_failed [of p e hand h entry m r1] g by simp
    show ?thesis using False pend g None failed
      by (cases "ee_start e"; cases "ee_track e") (auto simp: exec_launch_def after_launch_def Let_def groups_track split: prod.splits)
  qed (use False pend g in \<open>simp add: exec_launch_def after_launch_def\<close>)
qed (simp add: exec_launch_def after_launch_def)

lemma registry_launch:
  assumes "registry_ok r" and "fresh h r"
  shows "registry_ok (after_launch (exec_launch p e hand h r))"
proof -
  have "\<forall>n. gget (rn_groups r) n \<noteq> Some h" using assms(2) by (force simp: fresh_def dest: map_of_SomeD)
  then show ?thesis using groups_launch [of p e hand h r] assms(1) 
    by (auto simp: registry_ok_def split: if_splits)
qed

lemma registry_op: "runner_op r r' \<Longrightarrow> registry_ok r \<Longrightarrow> registry_ok r'"
proof (induction rule: runner_op.induct)
  case (op_launch h r p e hand)
  then show ?case by (intro registry_launch)
next
  case (op_verify r p e hand h identity escaped)
  then show ?case
    by (cases "state_of h r")
      (auto simp: exec_verify_def untrackGroup_def registry_ok_def split: if_splits dest!: groups_state_of)
next
  case (op_settle r p h identity hand signalled err)
  then show ?case
    by (cases "state_of h r")
      (auto simp: settleUnobserved_def untrackGroup_def registry_ok_def split: if_splits dest!: groups_state_of)
next
  case (op_take r)
  then show ?case by (simp add: take_groups_def takeGroups_def registry_ok_def gomap_ok_def)
next
  case (op_seal r groups name)
  then show ?case
    by (auto simp: seal_group_def Let_def registry_frame split: option.splits prod.splits)
qed (auto simp: registry_frame groups_state_of [OF prod.collapse [symmetric]])

interpretation rg: transition_invariant runner_op registry_ok "\<lambda>_ _. True"
  by unfold_locales (auto intro: registry_op)

section \<open>Sealing\<close>

text \<open>The group with this identifier was seen without live members between two states.\<close>

definition seen_empty :: "runner \<Rightarrow> runner \<Rightarrow> int \<Rightarrow> bool" where
  "seen_empty r r' g = (\<exists>t. k_now (rn_kernel r) \<le> t \<and> t < k_now (rn_kernel r') \<and> k_live (rn_kernel r) t g = Some [])"

definition later :: "runner \<Rightarrow> runner \<Rightarrow> bool" where
  "later r r' = (k_now (rn_kernel r) \<le> k_now (rn_kernel r') \<and> k_live (rn_kernel r') = k_live (rn_kernel r)
     \<and> set (rn_unresolved r) \<subseteq> set (rn_unresolved r') \<and> (rn_stopProblems r \<noteq> [] \<longrightarrow> rn_stopProblems r' \<noteq> []))"

lemma later_refl [simp]: "later r r"
  by (simp add: later_def)

lemma later_trans: "later a b \<Longrightarrow> later b c \<Longrightarrow> later a c"
  by (auto simp: later_def)

lemma seen_empty_mono: "later a b \<Longrightarrow> later c d \<Longrightarrow> seen_empty b c g \<Longrightarrow> seen_empty a d g"
  unfolding seen_empty_def later_def by (metis le_trans less_le_trans)

lemma write_rest [simp]:
  "rn_unresolved (snd (writeRecordLocked r)) = rn_unresolved r" "rn_stopProblems (snd (writeRecordLocked r)) = rn_stopProblems r"
  by (simp_all add: writeRecordLocked_def split: pidfile.splits option.splits)

lemma drop_rest [simp]:
  "rn_unresolved (recordDropGroup h r) = rn_unresolved r" "rn_stopProblems (recordDropGroup h r) = rn_stopProblems r"
  "rn_pgs (recordDropGroup h r) = rn_pgs r" "rn_kernel (recordDropGroup h r) = rn_kernel r"
  using still_record(2) [of r h] by (simp_all add: recordDropGroup_def removeRecordsLocked_def Let_def still_def)

lemma survivor_reported:
  "\<exists>u \<in> set (rn_unresolved (recordSurvivor name i err r)). up_Name u = name"
  "rn_stopProblems (recordSurvivor name i err r) \<noteq> []" "set (rn_unresolved r) \<subseteq> set (rn_unresolved (recordSurvivor name i err r))"
  "rn_pgs (recordSurvivor name i err r) = rn_pgs r" "rn_kernel (recordSurvivor name i err r) = rn_kernel r"
  by (auto simp: recordSurvivor_def recordShutdownProblem_def recordUnresolved_def Let_def intro: rev_bexI)

lemma seal_group_cases:
  assumes "gget groups name = Some h"
  obtains r2 where "unfiled r r2" and "later r r2" and "withdrawn r2 h" and "\<forall>h'. h' \<noteq> h \<longrightarrow> rn_pgs r2 h' = rn_pgs r h'"
    and "seal_group groups name r = recordDropGroup h r2 \<and> (1 < ug_pgid (rn_pgs r h) \<longrightarrow> seen_empty r r2 (ug_pgid (rn_pgs r h)))
      \<or> (\<exists>i err. seal_group groups name r = recordSurvivor name i err r2)"
proof -
  obtain pg1 k1 where t: "terminateSealedGroup h (rn_pgs r h) (rn_kernel r) = (pg1, k1)"
    by (cases "terminateSealedGroup h (rn_pgs r h) (rn_kernel r)")
  let ?r1 = "terminate_sealed h r"
  have r1: "?r1 = set_pg h pg1 k1 r" by (simp add: terminate_sealed_def t)
  note t' = terminateSealedGroup_time [OF t]
  obtain s pg2 k2 where st: "State (Withdraw pg1) k1 = (s, pg2, k2)" by (rule prod_cases3)
  note s' = State_time [OF st]
  have wd: "ug_withdrawn pg2" using State_withdrawn [OF st] by (simp add: Withdraw_def)
  let ?r2 = "set_pg h (pg_Close pg2) k2 ?r1"
  let ?obs = "\<lparr>so_State = s, so_Identity = Identify pg2, so_Members = memberPIDs pg2, so_Reason = failureReason pg2\<rparr>"
  have eq: "seal_group groups name r = (if s = GroupEmpty then recordDropGroup h ?r2
      else recordSurvivor name (Identify pg2) (survivorsError (sealedGroupResult name ?obs)) ?r2)"
    using assms st by (simp add: seal_group_def Let_def Seal_def r1) (simp add: set_pg_def)
  have k2: "rn_kernel ?r2 = k2" "rn_pgs ?r2 = (rn_pgs r)(h := pg_Close pg2)" by (simp_all add: r1 set_pg_def)
  show thesis
  proof (rule that [of ?r2])
    show "unfiled r ?r2" by (rule unfiled_trans [OF unfiled_ops(19) unfiled_ops(1)])
    show "later r ?r2" using t' s' by (auto simp: later_def r1 set_pg_def)
    show "withdrawn ?r2 h" using wd k2 by (simp add: withdrawn_def pg_Close_def)
    show "\<forall>h'. h' \<noteq> h \<longrightarrow> rn_pgs ?r2 h' = rn_pgs r h'" using k2 by simp
    have "seen_empty r ?r2 (ug_pgid (rn_pgs r h))" if "s = GroupEmpty" "1 < ug_pgid (rn_pgs r h)"
      using s' t' that k2(1) by (auto simp: Withdraw_def seen_empty_def)
    with eq show "seal_group groups name r = recordDropGroup h ?r2
        \<and> (1 < ug_pgid (rn_pgs r h) \<longrightarrow> seen_empty r ?r2 (ug_pgid (rn_pgs r h)))
      \<or> (\<exists>i err. seal_group groups name r = recordSurvivor name i err ?r2)" by auto
  qed
qed

lemma seal_group_effect:
  assumes "gget groups name = Some h"
  shows "later r (seal_group groups name r)"
    and "h' \<noteq> h \<Longrightarrow> rn_pgs (seal_group groups name r) h' = rn_pgs r h'"
    and "1 < ug_pgid (rn_pgs r h) \<Longrightarrow> seen_empty r (seal_group groups name r) (ug_pgid (rn_pgs r h))
      \<or> (\<exists>u \<in> set (rn_unresolved (seal_group groups name r)). up_Name u = name)
        \<and> rn_stopProblems (seal_group groups name r) \<noteq> []"
proof -
  obtain r2 where "unfiled r r2" and r2: "later r r2" and "withdrawn r2 h" and pgs: "\<forall>h'. h' \<noteq> h \<longrightarrow> rn_pgs r2 h' = rn_pgs r h'"
    and c: "seal_group groups name r = recordDropGroup h r2 \<and> (1 < ug_pgid (rn_pgs r h) \<longrightarrow> seen_empty r r2 (ug_pgid (rn_pgs r h)))
      \<or> (\<exists>i err. seal_group groups name r = recordSurvivor name i err r2)"
    by (rule seal_group_cases [OF assms, where r = r])
  have d: "later r2 (recordDropGroup h r2)" "later r2 (recordSurvivor name i err r2)" for i err
    using survivor_reported(2,3) by (auto simp: later_def survivor_reported(5))
  show "later r (seal_group groups name r)" using c later_trans [OF r2 d(1)] later_trans [OF r2 d(2)] by auto
  show "h' \<noteq> h \<Longrightarrow> rn_pgs (seal_group groups name r) h' = rn_pgs r h'"
    using c pgs by (auto simp: survivor_reported(4))
  assume "1 < ug_pgid (rn_pgs r h)"
  with c show "seen_empty r (seal_group groups name r) (ug_pgid (rn_pgs r h))
      \<or> (\<exists>u \<in> set (rn_unresolved (seal_group groups name r)). up_Name u = name)
        \<and> rn_stopProblems (seal_group groups name r) \<noteq> []"
    using survivor_reported(1,2) by (auto simp: seen_empty_def)
qed

lemma seal_fold:
  assumes "distinct names" and "\<forall>n \<in> set names. gget groups n \<noteq> None"
    and "\<forall>n m h. gget groups n = Some h \<longrightarrow> gget groups m = Some h \<longrightarrow> n = m"
  shows "later r (fold (seal_group groups) names r)
    \<and> (\<forall>h. (\<forall>n \<in> set names. gget groups n \<noteq> Some h) \<longrightarrow> rn_pgs (fold (seal_group groups) names r) h = rn_pgs r h)
    \<and> (\<forall>n \<in> set names. \<forall>h. gget groups n = Some h \<longrightarrow> 1 < ug_pgid (rn_pgs r h) \<longrightarrow>
         seen_empty r (fold (seal_group groups) names r) (ug_pgid (rn_pgs r h))
         \<or> (\<exists>u \<in> set (rn_unresolved (fold (seal_group groups) names r)). up_Name u = n)
           \<and> rn_stopProblems (fold (seal_group groups) names r) \<noteq> [])"
  using assms(1,2)
proof (induction names arbitrary: r)
  case (Cons name names)
  obtain h where h: "gget groups name = Some h" using Cons.prems(2) by auto
  let ?s = "seal_group groups name r"
  let ?f = "fold (seal_group groups) names ?s"
  note one = seal_group_effect [OF h, where r = r]
  have ih: "later ?s ?f" "\<And>h'. \<forall>n \<in> set names. gget groups n \<noteq> Some h' \<Longrightarrow> rn_pgs ?f h' = rn_pgs ?s h'"
    and ihp: "\<And>n h'. n \<in> set names \<Longrightarrow> gget groups n = Some h' \<Longrightarrow> 1 < ug_pgid (rn_pgs ?s h') \<Longrightarrow>
         seen_empty ?s ?f (ug_pgid (rn_pgs ?s h'))
         \<or> (\<exists>u \<in> set (rn_unresolved ?f). up_Name u = n) \<and> rn_stopProblems ?f \<noteq> []"
    using Cons.IH [of ?s] Cons.prems by auto
  have lat: "later r ?f" by (rule later_trans [OF one(1) ih(1)])
  have other: "rn_pgs ?f h' = rn_pgs r h'" if "\<forall>n \<in> set (name # names). gget groups n \<noteq> Some h'" for h'
    using that one(2) [where h' = h'] ih(2) [of h'] h by auto
  have main: "seen_empty r ?f (ug_pgid (rn_pgs r h'))
         \<or> (\<exists>u \<in> set (rn_unresolved ?f). up_Name u = n) \<and> rn_stopProblems ?f \<noteq> []"
    if n: "n \<in> set (name # names)" "gget groups n = Some h'" "1 < ug_pgid (rn_pgs r h')" for n h'
  proof (cases "n = name")
    case True
    then have "h' = h" using n h by simp
    with one(3) n(3) True ih(1) seen_empty_mono [OF later_refl ih(1)] show ?thesis
      unfolding later_def by blast
  next
    case False
    then have "h' \<noteq> h" using assms(3) n(2) h by blast
    then have "rn_pgs ?s h' = rn_pgs r h'" by (rule one(2))
    with ihp [of n h'] n False seen_empty_mono [OF one(1) later_refl] show ?thesis by auto
  qed
  from lat other main show ?case by simp
qed simp

section \<open>Properties\<close>

definition begun :: "string \<Rightarrow> pidfile \<Rightarrow> kernel \<Rightarrow> runner" where
  "begun path file k = beginRecord (newRunner path file k)"

lemma begun_ok:
  assumes "k_log k = []"
  shows "reaps_ok (begun path pf k)" and "record_ok (begun path pf k)" and "registry_ok (begun path pf k)"
  using assms
  by (auto simp: begun_def beginRecord_def newRunner_def writeRecordLocked_def reaps_ok_def klog_def record_ok_def
      registry_ok_def gomap_ok_def Let_def split: pidfile.splits)

text \<open>A quiet environment: one process, which has gone by the second instant.\<close>

definition example_kernel :: kernel where
  "example_kernel = \<lparr>k_live = (\<lambda>t g. if t = 0 then Some [100] else Some []), k_probe = (\<lambda>_ _. False), k_now = 0, k_log = []\<rparr>"

definition example_info :: procInfo where
  "example_info = \<lparr>pi_name = ''api'', pi_proc = zero_Process, pi_colorIndex = 0, pi_teardown = False\<rparr>"

definition example_env :: exec_env where
  "example_env = \<lparr>ee_pipe = None, ee_ctxErr = False, ee_start = None, ee_track = None, ee_pid = 100, ee_leaderStart = 5,
     ee_observe = None, ee_handoff = (\<lambda>_. False), ee_observation = exitPending, ee_cancelled = True, ee_scan = ScanDone,
     ee_wait = WaitOk, ee_meanwhile = (\<lambda>_ r. r)\<rparr>"

abbreviation example_runner :: runner where
  "example_runner \<equiv> begun ''pid'' (FileOurs []) example_kernel"

lemma example_ok: "disciplined example_env hand h" "fresh h example_runner"
  by (simp_all add: disciplined_def example_env_def handing_def fresh_def begun_def beginRecord_def newRunner_def
      writeRecordLocked_def klog_def example_kernel_def Let_def)

lemmas exec_defs = exec_def exec_launch_def launch_refused_def recordPending_def writeRecordLocked_def set_pg_def Track_def
  Identify_def identifyPID_def trackGroup_def recordTracked_def exec_observed_def handing_def exec_teardown_def
  signallingEstablished_def terminate_def terminateGroup_def State_def recordObservation_def tick_def signal_def
  exec_reap_def withdraw_group_def Withdraw_def startReap_def pruneTakenReapsLocked_def publish_reap_def exec_verify_def
  state_of_def

text \<open>
  C2. A signal never follows a reap: however the executions of commands interleave with forced kills,
  seals and shutdown, as long as the cleanup handoff is only released after the groups were sealed, no
  signal is sent to a process group once the reap of its leader has started, so no signal can reach a
  process group that reuses the identifier.
\<close>

theorem no_signal_after_reap:
  assumes "runner_op\<^sup>*\<^sup>* (begun path pf k) r" and "k_log k = []" and "fresh h r" and "disciplined e hand h"
  shows "orderly (klog (fst (snd (exec p e hand h onStart (r, st)))))"
proof -
  have "runner_op\<^sup>*\<^sup>* (begun path pf k) (fst (snd (exec p e hand h onStart (r, st))))"
    using assms(1) exec_steps [OF assms(4,3)] by (rule rtranclp_trans)
  from rc.steps_inv [OF this begun_ok(1) [OF assms(2)]] show ?thesis by (simp add: reaps_ok_def)
qed

theorem no_signal_after_reap_witness:
  "orderly (klog (fst (snd (exec example_info example_env True 1 id (example_runner, newProcState 0)))))"
  by (rule no_signal_after_reap [OF rtranclp.rtrancl_refl _ example_ok(2,1)]) (simp add: example_kernel_def)

text \<open>
  C22. The record on disk covers every launch: in every reachable state with recording on, while the PID
  file is the daemon's own, each entry of the record in memory has an entry on disk under the same
  process name that carries its group identifier or is still marked pending, failed writes included.
\<close>

theorem record_covers_launches:
  assumes "runner_op\<^sup>*\<^sup>* (begun path pf k) r" and "k_log k = []" and "rn_recordOn r" and "rn_file r = FileOurs gs"
  shows "\<forall>e \<in> set (rn_records r). \<exists>g \<in> set gs. g_Name g = g_Name (re_group e) \<and> g_PGID g \<in> {0, g_PGID (re_group e)}"
  using rr.steps_inv [OF assms(1) begun_ok(2) [OF assms(2)]] assms(3,4) by (auto simp: record_ok_def entry_covered_def)

lemma example_launched:
  "after_launch (exec_launch example_info example_env True 1 example_runner) =
     example_runner\<lparr>rn_pgs := (rn_pgs example_runner)(1 := newProcessGroup\<lparr>ug_pgid := 100\<rparr>), rn_groups := [(''api'', 1)],
       rn_records := [\<lparr>re_id = 0, re_pg = 1, re_group = \<lparr>g_Name = ''api'', g_PGID = 100, g_LeaderStart = 5\<rparr>\<rparr>],
       rn_nextRec := 1, rn_file := FileOurs [\<lparr>g_Name = ''api'', g_PGID = 100, g_LeaderStart = 5\<rparr>]\<rparr>"
  by (simp add: exec_defs after_launch_def example_env_def example_info_def begun_def beginRecord_def newRunner_def
      example_kernel_def newProcessGroup_def Let_def fun_eq_iff)

lemma example_launch_step:
  "runner_op\<^sup>*\<^sup>* example_runner (after_launch (exec_launch example_info example_env True 1 example_runner))"
  by (rule r_into_rtranclp) (rule op_launch [OF example_ok(2)])

theorem record_covers_launches_witness:
  "\<exists>g \<in> set [\<lparr>g_Name = ''api'', g_PGID = 100, g_LeaderStart = 5\<rparr> :: Group]. g_Name g = ''api'' \<and> g_PGID g \<in> {0, 100}"
proof -
  let ?r = "after_launch (exec_launch example_info example_env True 1 example_runner)"
  have on: "rn_recordOn ?r" unfolding example_launched
    by (simp add: begun_def beginRecord_def newRunner_def writeRecordLocked_def Let_def)
  have pf: "rn_file ?r = FileOurs [\<lparr>g_Name = ''api'', g_PGID = 100, g_LeaderStart = 5\<rparr>]" unfolding example_launched by simp
  have rec: "rn_records ?r = [\<lparr>re_id = 0, re_pg = 1, re_group = \<lparr>g_Name = ''api'', g_PGID = 100, g_LeaderStart = 5\<rparr>\<rparr>]"
    unfolding example_launched by simp
  from record_covers_launches [OF example_launch_step _ on pf] rec show ?thesis by (simp add: example_kernel_def)
qed

text \<open>
  C9. A clean shutdown verdict is a proof: when the seal of all groups at the end of a run leaves no
  problem to report, every process group that was registered has been seen without live members while
  it was sealed. Otherwise each group that was not seen empty is named among the unresolved processes.
\<close>

theorem clean_verdict_proves_empty:
  assumes "runner_op\<^sup>*\<^sup>* (begun path pf k) r" and "k_log k = []"
    and "gget (rn_groups r) name = Some h" and "1 < ug_pgid (rn_pgs r h)"
  shows "seen_empty r (sealGroups r) (ug_pgid (rn_pgs r h))
    \<or> ShutdownResult (sealGroups r) \<noteq> None \<and> name \<in> up_Name ` set (Unresolved (sealGroups r))"
proof -
  have reg: "registry_ok r" by (rule rg.steps_inv [OF assms(1) begun_ok(3) [OF assms(2)]])
  let ?r1 = "take_groups r"
  let ?names = "sort (gokeys (rn_groups r))"
  have s: "sealGroups r = fold (seal_group (rn_groups r)) ?names ?r1"
    by (simp add: sealGroups_def take_groups_def takeGroups_def)
  have same: "rn_pgs ?r1 = rn_pgs r" "rn_kernel ?r1 = rn_kernel r" by (simp_all add: take_groups_def takeGroups_def)
  have d: "distinct ?names" using reg by (simp add: registry_ok_def gomap_ok_def)
  have k: "\<forall>n \<in> set ?names. gget (rn_groups r) n \<noteq> None" by (auto simp: map_of_eq_None_iff)
  have inj: "\<forall>n m h. gget (rn_groups r) n = Some h \<longrightarrow> gget (rn_groups r) m = Some h \<longrightarrow> n = m"
    using reg unfolding registry_ok_def by blast
  have n: "name \<in> set ?names" using gget_in_keys [OF assms(3)] by simp
  from seal_fold [OF d k inj, of ?r1] n assms(3,4)
  have "seen_empty ?r1 (sealGroups r) (ug_pgid (rn_pgs r h))
      \<or> (\<exists>u \<in> set (rn_unresolved (sealGroups r)). up_Name u = name) \<and> rn_stopProblems (sealGroups r) \<noteq> []"
    unfolding s same by blast
  moreover have "seen_empty ?r1 (sealGroups r) g = seen_empty r (sealGroups r) g" for g by (simp add: seen_empty_def same)
  ultimately show ?thesis by (auto simp: ShutdownResult_def shutdownProblems_def Unresolved_def)
qed

theorem clean_verdict_proves_empty_witness:
  "seen_empty (after_launch (exec_launch example_info example_env True 1 example_runner))
     (sealGroups (after_launch (exec_launch example_info example_env True 1 example_runner))) 100
   \<or> ''api'' \<in> up_Name ` set (Unresolved (sealGroups (after_launch (exec_launch example_info example_env True 1 example_runner))))"
proof -
  let ?r = "after_launch (exec_launch example_info example_env True 1 example_runner)"
  have g: "gget (rn_groups ?r) ''api'' = Some 1" "ug_pgid (rn_pgs ?r 1) = 100" unfolding example_launched by simp_all
  from clean_verdict_proves_empty [OF example_launch_step _ g(1)] g(2) show ?thesis by (auto simp: example_kernel_def)
qed

text \<open>An entry stays, or recording is off, or its group was seen empty.\<close>

definition entry_safe :: "runner \<Rightarrow> runner \<Rightarrow> recEntry \<Rightarrow> bool" where
  "entry_safe r r' e = ((\<exists>e' \<in> set (rn_records r'). re_id e' = re_id e \<and> re_pg e' = re_pg e) \<or> \<not> rn_recordOn r'
     \<or> (1 < ug_pgid (rn_pgs r (re_pg e)) \<longrightarrow> seen_empty r r' (ug_pgid (rn_pgs r (re_pg e)))))"

lemma unfiled_safe: "unfiled r r' \<Longrightarrow> e \<in> set (rn_records r) \<Longrightarrow> entry_safe r r' e"
  by (auto simp: entry_safe_def unfiled_def)

lemma remove_keeps:
  "e \<in> set (rn_records r) \<Longrightarrow> \<not> m e \<Longrightarrow> e \<in> set (rn_records (removeRecordsLocked m r))"
  by (auto simp: removeRecordsLocked_def writeRecordLocked_def Let_def split: pidfile.splits option.splits)

text \<open>Dropping the entries of a group that was just seen empty.\<close>

lemma safe_release:
  assumes "state_of h r = (GroupEmpty, r1)" and "unfiled r1 r2" and "rn_kernel r2 = rn_kernel r1" and "e \<in> set (rn_records r)"
  shows "entry_safe r (close_group h (recordDropGroup h r2)) e"
proof (cases "re_pg e = h")
  case True
  obtain pg k where st: "State (rn_pgs r h) (rn_kernel r) = (GroupEmpty, pg, k)" and r1: "r1 = set_pg h pg k r"
    using assms(1) by (auto simp: state_of_def split: prod.splits)
  have "rn_kernel (close_group h (recordDropGroup h r2)) = k" using assms(3) r1 by (simp add: close_group_def set_pg_def)
  with State_time [OF st] True show ?thesis by (auto simp: entry_safe_def seen_empty_def)
next
  case False
  have "e \<in> set (rn_records r2)" using assms(2,4) unfiled_state_of [OF assms(1)] by (simp add: unfiled_def)
  then have "e \<in> set (rn_records (close_group h (recordDropGroup h r2)))"
    using False remove_keeps [of e r2] by (simp add: recordDropGroup_def close_group_def set_pg_def)
  then show ?thesis by (auto simp: entry_safe_def)
qed

lemma safe_settle: "e \<in> set (rn_records r) \<Longrightarrow> entry_safe r (snd (settleUnobserved p h identity hand sg err r)) e"
proof (cases "state_of h r")
  case (Pair s r1)
  assume e: "e \<in> set (rn_records r)"
  have u: "unfiled r r1" by (rule unfiled_state_of [OF Pair])
  have "entry_safe r (recordUnverified a b c r1) e" for a b c by (rule unfiled_safe [OF unfiled_trans [OF u unfiled_ops(8)] e])
  moreover have "s = GroupEmpty \<Longrightarrow> entry_safe r (close_group h (recordDropGroup h (untrackGroup n h r1))) e" for n
    by (rule safe_release [OF _ unfiled_ops(9) _ e]) (use Pair in \<open>simp_all add: untrackGroup_def\<close>)
  moreover have "entry_safe r r e" using e by (auto simp: entry_safe_def)
  ultimately show ?thesis using Pair by (simp add: settleUnobserved_def)
qed

lemma safe_verify: "e \<in> set (rn_records r) \<Longrightarrow> entry_safe r (snd (exec_verify p ee hand h identity escaped r)) e"
proof (cases "state_of h r")
  case (Pair s r1)
  assume e: "e \<in> set (rn_records r)"
  have u: "unfiled r r1" by (rule unfiled_state_of [OF Pair])
  have "entry_safe r (recordSurvivor a b c r1) e" for a b c by (rule unfiled_safe [OF unfiled_trans [OF u unfiled_ops(7)] e])
  moreover have "entry_safe r (close_group h (recordDropGroup h (untrackGroup n h r2))) e"
    if "s = GroupEmpty" "unfiled r1 r2" "rn_kernel r2 = rn_kernel r1" for n r2
    by (rule safe_release [of h r r1, OF _ unfiled_trans [OF that(2) unfiled_ops(9)] _ e])
      (use that Pair in \<open>simp_all add: untrackGroup_def\<close>)
  moreover have "unfiled r1 (recordUnverified a b c r1)" "rn_kernel (recordUnverified a b c r1) = rn_kernel r1" "unfiled r1 r1" for a b c
    using still_problems(4) by (simp_all add: still_def unfiled_def [of r1 r1])
  moreover have "entry_safe r r e" using e by (auto simp: entry_safe_def)
  ultimately show ?thesis using Pair by (auto simp: exec_verify_def)
qed

lemma safe_seal: "e \<in> set (rn_records r) \<Longrightarrow> entry_safe r (seal_group groups name r) e"
proof (cases "gget groups name")
  case (Some h)
  assume e: "e \<in> set (rn_records r)"
  obtain r2 where u: "unfiled r r2" and "later r r2" and "withdrawn r2 h" and "\<forall>h'. h' \<noteq> h \<longrightarrow> rn_pgs r2 h' = rn_pgs r h'"
    and c: "seal_group groups name r = recordDropGroup h r2 \<and> (1 < ug_pgid (rn_pgs r h) \<longrightarrow> seen_empty r r2 (ug_pgid (rn_pgs r h)))
      \<or> (\<exists>i err. seal_group groups name r = recordSurvivor name i err r2)"
    by (rule seal_group_cases [OF Some, where r = r])
  have e2: "e \<in> set (rn_records r2)" using e u by (simp add: unfiled_def)
  have "entry_safe r (recordSurvivor name i err r2) e" for i err by (rule unfiled_safe [OF unfiled_trans [OF u unfiled_ops(7)] e])
  moreover have "entry_safe r (recordDropGroup h r2) e"
    if "1 < ug_pgid (rn_pgs r h) \<longrightarrow> seen_empty r r2 (ug_pgid (rn_pgs r h))"
  proof (cases "re_pg e = h")
    case True
    with that show ?thesis by (auto simp: entry_safe_def seen_empty_def)
  next
    case False
    then have "e \<in> set (rn_records (recordDropGroup h r2))" using remove_keeps [OF e2] by (simp add: recordDropGroup_def)
    then show ?thesis by (auto simp: entry_safe_def)
  qed
  ultimately show ?thesis using c by auto
qed (auto simp: seal_group_def entry_safe_def)

lemma safe_track:
  assumes "e \<in> set (rn_records r)" and "re_pg e \<noteq> h"
  shows "e \<in> set (rn_records (trackGroup name h r))
    \<or> (1 < ug_pgid (rn_pgs r (re_pg e)) \<longrightarrow> seen_empty r (trackGroup name h r) (ug_pgid (rn_pgs r (re_pg e))))"
proof (cases "gget (rn_groups r) name")
  case (Some prev)
  let ?r1 = "r\<lparr>rn_groups := gput name h (rn_groups r)\<rparr>"
  obtain s r2 where s: "state_of prev ?r1 = (s, r2)" by (cases "state_of prev ?r1")
  have r2: "rn_records r2 = rn_records r" using unfiled_state_of [OF s] by (simp add: unfiled_def)
  have sv: "rn_records (recordSurvivor a b m r2) = rn_records r2" for a b m
    using unfiled_ops(7) [of r2 a b m] by (simp add: unfiled_def)
  have cl: "rn_records (close_group prev x) = rn_records x" "rn_kernel (close_group prev x) = rn_kernel x" for x
    by (simp_all add: close_group_def set_pg_def)
  show ?thesis
  proof (cases "prev = h \<or> s \<noteq> GroupEmpty \<or> re_pg e \<noteq> prev")
    case True
    then have "e \<in> set (rn_records (trackGroup name h r))"
      using Some s r2 sv cl assms remove_keeps [of e r2] by (auto simp: trackGroup_def Let_def recordDropGroup_def)
    then show ?thesis by blast
  next
    case False
    obtain pg k where st: "State (rn_pgs r prev) (rn_kernel r) = (GroupEmpty, pg, k)" and k: "rn_kernel r2 = k"
      using s False by (auto simp: state_of_def set_pg_def split: prod.splits)
    have "rn_kernel (trackGroup name h r) = k" using Some s False k cl by (simp add: trackGroup_def Let_def)
    with State_time [OF st] False show ?thesis by (auto simp: seen_empty_def)
  qed
qed (use assms in \<open>simp add: trackGroup_def\<close>)

definition keeps_entry :: "recEntry \<Rightarrow> runner \<Rightarrow> bool" where
  "keeps_entry e r = (\<exists>e' \<in> set (rn_records r). re_id e' = re_id e \<and> re_pg e' = re_pg e)"

lemma keeps_safe: "keeps_entry e r' \<Longrightarrow> entry_safe r r' e"
  by (auto simp: keeps_entry_def entry_safe_def)

lemma keeps_unfiled: "unfiled r r' \<Longrightarrow> keeps_entry e r' = keeps_entry e r"
  by (simp add: keeps_entry_def unfiled_def)

lemma keeps_tracked: "keeps_entry e r \<Longrightarrow> keeps_entry e (recordTracked entry pid start r)"
proof -
  assume "keeps_entry e r"
  then obtain e' where e': "e' \<in> set (rn_records r)" "re_id e' = re_id e" "re_pg e' = re_pg e" by (auto simp: keeps_entry_def)
  let ?f = "\<lambda>i x. if re_id x = i then x\<lparr>re_group := (re_group x)\<lparr>g_PGID := pid, g_LeaderStart := start\<rparr>\<rparr> else x"
  have "?f i e' \<in> set (map (?f i) (rn_records r))" for i using e'(1) by (simp only: set_map) (rule imageI)
  moreover have "re_id (?f i e') = re_id e \<and> re_pg (?f i e') = re_pg e" for i using e' by simp
  ultimately have f: "\<exists>x \<in> set (map (?f i) (rn_records r)). re_id x = re_id e \<and> re_pg x = re_pg e" for i by blast
  have w: "rn_records (snd (writeRecordLocked s)) = rn_records s" for s
    by (simp add: writeRecordLocked_def split: option.splits pidfile.splits)
  show ?thesis
    using e' f by (auto simp: keeps_entry_def recordTracked_def w simp del: set_map split: option.splits)
qed

lemma keeps_drop: "keeps_entry e r \<Longrightarrow> entry \<noteq> Some (re_id e) \<Longrightarrow> keeps_entry e (recordDrop entry r)"
  unfolding keeps_entry_def recordDrop_def by (auto split: option.splits intro: remove_keeps)

lemma recordOn_kept [simp]:
  "rn_recordOn (removeRecordsLocked m r) = rn_recordOn r" "rn_recordOn (recordTracked en pid start r) = rn_recordOn r"
  by (auto simp: removeRecordsLocked_def recordTracked_def writeRecordLocked_def Let_def split: option.splits pidfile.splits)

lemma unfiled_on: "unfiled r r' \<Longrightarrow> rn_recordOn r' = rn_recordOn r"
  by (simp add: unfiled_def)

lemma recordOn_track: "rn_recordOn (trackGroup name h r) = rn_recordOn r"
  using unfiled_on [OF unfiled_state_of] unfiled_on [OF unfiled_ops(2)] unfiled_on [OF unfiled_ops(7)]
  by (auto simp: trackGroup_def recordDropGroup_def Let_def split: option.splits prod.splits)

lemma keeps_track_failed:
  "keeps_entry e r \<Longrightarrow> entry \<noteq> Some (re_id e) \<Longrightarrow> keeps_entry e (snd (track_failed p ee hand h entry m r))"
  by (auto simp: track_failed_def Let_def keeps_unfiled [OF unfiled_ops(8)] keeps_unfiled [OF unfiled_ops(12)]
      keeps_unfiled [OF unfiled_ops(1)] keeps_drop split: prod.splits)

lemma off_track_failed: "rn_recordOn (snd (track_failed p ee hand h entry m r)) = rn_recordOn r"
  by (auto simp: track_failed_def recordDrop_def Let_def unfiled_on [OF unfiled_ops(8)] unfiled_on [OF unfiled_ops(12)]
      unfiled_on [OF unfiled_ops(1)] split: prod.splits option.splits)

lemma safe_launch:
  assumes "record_ok r" and "fresh h r" and e: "e \<in> set (rn_records r)"
  shows "entry_safe r (after_launch (exec_launch p ee hand h r)) e"
proof (cases "launch_refused p ee r")
  case True
  then show ?thesis using e by (auto simp: exec_launch_def after_launch_def intro: unfiled_safe unfiled_ops)
next
  case False
  obtain entry err r1 where pend: "recordPending (pi_name p) h r = (entry, err, r1)" by (rule prod_cases3)
  have id: "re_id e < rn_nextRec r" and pg: "re_pg e \<noteq> h" using assms by (auto simp: record_ok_def fresh_def)
  have 1: "(e \<in> set (rn_records r1) \<and> entry \<noteq> Some (re_id e)) \<or> \<not> rn_recordOn r1"
    using pend by (cases rule: recordPending_cases) (use e id in auto)
  have st: "rn_pgs r1 = rn_pgs r" "rn_kernel r1 = rn_kernel r" using still_pending [OF pend] by (simp_all add: still_def)
  let ?r2 = "set_pg h (Track (ee_pid ee) (rn_pgs r1 h)) (rn_kernel r1) r1"
  let ?r3 = "trackGroup (pi_name p) h ?r2"
  let ?r4 = "recordTracked entry (ee_pid ee) (ee_leaderStart ee) ?r3"
  have k4: "rn_kernel ?r4 = rn_kernel ?r3" using still_record(3) by (simp add: still_def)
  have tracked: "entry_safe r ?r4 e"
  proof (cases "e \<in> set (rn_records r1)")
    case True
    then have "e \<in> set (rn_records ?r2)" by (simp add: set_pg_def)
    from safe_track [OF this pg, of "pi_name p"] consider "e \<in> set (rn_records ?r3)"
      | "1 < ug_pgid (rn_pgs r (re_pg e)) \<longrightarrow> seen_empty ?r2 ?r3 (ug_pgid (rn_pgs r (re_pg e)))"
      using pg st by (auto simp: set_pg_def)
    then show ?thesis
    proof cases
      case 1
      then have "keeps_entry e ?r3" by (auto simp: keeps_entry_def)
      then show ?thesis by (intro keeps_safe keeps_tracked)
    next
      case 2
      then show ?thesis using st k4 by (auto simp: entry_safe_def seen_empty_def set_pg_def)
    qed
  next
    case False
    with 1 show ?thesis by (simp add: entry_safe_def recordOn_track unfiled_on [OF unfiled_ops(1)])
  qed
  have keep: "keeps_entry e r1 \<and> entry \<noteq> Some (re_id e) \<or> \<not> rn_recordOn r1" using 1 by (auto simp: keeps_entry_def)
  have "keeps_entry e (close_group h (recordDrop entry r1)) \<and> keeps_entry e (close_group h r1) \<or> \<not> rn_recordOn r1"
    using keep keeps_drop [of e r1 entry] by (auto simp: keeps_unfiled [OF unfiled_ops(2)])
  moreover have "rn_recordOn (close_group h (recordDrop entry r1)) = rn_recordOn r1" "rn_recordOn (close_group h r1) = rn_recordOn r1"
    by (simp_all add: unfiled_on [OF unfiled_ops(2)] recordDrop_def split: option.splits)
  ultimately have closed: "entry_safe r (close_group h r1) e" "entry_safe r (close_group h (recordDrop entry r1)) e"
    using keeps_safe by (auto simp: entry_safe_def)
  have failed: "track_failed p ee hand h entry m r1 = (res, r') \<Longrightarrow> entry_safe r r' e" for m res r'
    using keep keeps_track_failed [of e r1 entry p ee hand h m] off_track_failed [of p ee hand h entry m r1] keeps_safe
    by (auto simp: entry_safe_def)
  show ?thesis using False pend closed tracked
    by (auto simp: exec_launch_def after_launch_def Let_def split: option.splits prod.splits intro: failed)
qed

text \<open>
  The record forgets only what is gone: no critical section removes the entry of a launched group
  from the record, while recording stays on, unless the group was seen without live members during
  that section; an entry of a group that may still run survives failed writes, restarts and seals.
\<close>

theorem record_forgets_only_empty:
  assumes "runner_op\<^sup>*\<^sup>* (begun path pf k) r" and "k_log k = []" and "runner_op r r'"
    and "e \<in> set (rn_records r)" and "rn_recordOn r'" and "1 < ug_pgid (rn_pgs r (re_pg e))"
  shows "(\<exists>e' \<in> set (rn_records r'). re_id e' = re_id e) \<or> seen_empty r r' (ug_pgid (rn_pgs r (re_pg e)))"
proof -
  have ok: "record_ok r" by (rule rr.steps_inv [OF assms(1) begun_ok(2) [OF assms(2)]])
  have "entry_safe r r' e"
    using assms(3,4) ok
  proof (induction rule: runner_op.induct)
    case (op_launch h r p ee hand)
    then show ?case by (intro safe_launch)
  next
    case (op_file f r)
    then show ?case by (auto simp: entry_safe_def)
  qed (auto simp: safe_settle safe_verify safe_seal intro: unfiled_safe unfiled_ops unfiled_report
      unfiled_state_of [OF prod.collapse [symmetric]])
  then show ?thesis using assms(5,6) by (auto simp: entry_safe_def)
qed

theorem record_forgets_only_empty_witness:
  "(\<exists>e' \<in> set (rn_records (kill_group 1 (after_launch (exec_launch example_info example_env True 1 example_runner)))).
      re_id e' = 0)
   \<or> seen_empty (after_launch (exec_launch example_info example_env True 1 example_runner))
      (kill_group 1 (after_launch (exec_launch example_info example_env True 1 example_runner))) 100"
proof -
  let ?r = "after_launch (exec_launch example_info example_env True 1 example_runner)"
  let ?e = "\<lparr>re_id = 0, re_pg = 1, re_group = \<lparr>g_Name = ''api'', g_PGID = 100, g_LeaderStart = 5\<rparr>\<rparr>"
  have e: "?e \<in> set (rn_records ?r)" "ug_pgid (rn_pgs ?r (re_pg ?e)) = 100" unfolding example_launched by simp_all
  have on: "rn_recordOn (kill_group 1 ?r)" unfolding unfiled_on [OF unfiled_ops(4)] example_launched
    by (simp add: begun_def beginRecord_def newRunner_def writeRecordLocked_def Let_def)
  from record_forgets_only_empty [OF example_launch_step _ op_signal e(1) on] e(2) show ?thesis by (simp add: example_kernel_def)
qed

text \<open>A stopped runner: admission closed by a shutdown request or by the seal at the end of a run.\<close>

definition shut :: "runner \<Rightarrow> runner \<Rightarrow> bool" where
  "shut r r' = (r' \<in> {closeAdmission r, Shutdown True r, Shutdown False r, sealGroups r})"

lemma stopping_ops [simp]:
  "rn_stopping (set_pg h pg k r) = rn_stopping r" "rn_stopping (signal_group sg h r) = rn_stopping r"
  "rn_stopping (terminate_sealed h r) = rn_stopping r" "rn_stopping (recordSurvivor n i er r) = rn_stopping r"
  "rn_stopping (recordDropGroup h r) = rn_stopping r" "rn_stopping (recordUnverified n i m r) = rn_stopping r"
  by (auto simp: set_pg_def signal_group_def terminate_sealed_def recordSurvivor_def recordShutdownProblem_def
      recordUnresolved_def recordDropGroup_def removeRecordsLocked_def writeRecordLocked_def recordUnverified_def Let_def
      split: prod.splits pidfile.splits option.splits)

lemma shut_stopping: "shut r r' \<Longrightarrow> rn_stopping r'"
proof -
  have k: "rn_stopping (fold kill_group hs s) = rn_stopping s" for hs s by (induction hs arbitrary: s) simp_all
  have "rn_stopping (seal_group gs n s) = rn_stopping s" for gs n s
    by (simp add: seal_group_def Let_def split: option.splits prod.splits)
  then have g: "rn_stopping (fold (seal_group gs) ns s) = rn_stopping s" for gs ns s by (induction ns arbitrary: s) simp_all
  assume "shut r r'"
  then show ?thesis by (auto simp: shut_def Shutdown_def closeAdmission_def sealGroups_def takeGroups_def k g Let_def)
qed

text \<open>
  After a shutdown request or the final seal nothing can be launched: the execution of any command
  other than a teardown in its open phase is refused as cancelled and changes neither the runner (no
  group, no record, no signal) nor the state of the process.
\<close>

theorem closed_admission_launches_nothing:
  assumes "shut r0 r" and "\<not> (pi_teardown p \<and> rn_teardownOpen r)" and "fresh h r" and "ee_pipe e = None"
  shows "exec p e hand h onStart (r, st) = (ExecErr ''context canceled'' False, r, st)"
proof -
  have "close_group h r = r"
    using assms(3) by (simp add: fresh_def close_group_def set_pg_def pg_Close_def newProcessGroup_def fun_upd_idem)
  then show ?thesis
    using shut_stopping [OF assms(1)] assms(2,4) by (simp add: exec_def exec_launch_def launch_refused_def)
qed

theorem closed_admission_launches_nothing_witness:
  "exec example_info example_env True 1 id (closeAdmission example_runner, newProcState 0) =
     (ExecErr ''context canceled'' False, closeAdmission example_runner, newProcState 0)"
  by (rule closed_admission_launches_nothing [of example_runner])
    (use example_ok(2) in \<open>simp_all add: shut_def example_info_def example_env_def fresh_def closeAdmission_def klog_def\<close>)

end
