(* ===== verification/Runner_Reload.thy ===== *)
theory Runner_Reload
  imports Runner_Exec
begin

text \<open>
  Commands to a running stack: restart requests, \<^verbatim>\<open>Reload\<close> (\<^verbatim>\<open>internal/runner/reload.go\<close>), and the command
  loop with its shutdown acknowledgment (\<^verbatim>\<open>internal/runner/runner.go\<close>). The command loop is one goroutine;
  between two critical sections of a reload the other goroutines may do anything to the runner and the
  states of the processes (\<open>meanwhile\<close>). Diagnostics are left out.
\<close>

section \<open>State\<close>

record stack =
  sk_runner :: runner
  sk_cancelled :: bool
  sk_configPath :: string
  sk_procs :: "Process gomap"
  sk_store :: "stateStore option"

record CommandResult =
  cr_Status :: string
  cr_Message :: string
  cr_Generation :: "64 word"

definition reply :: "string \<Rightarrow> string \<Rightarrow> CommandResult" where
  "reply status msg = \<lparr>cr_Status = status, cr_Message = msg, cr_Generation = 0\<rparr>"

definition launchAdmissionClosedLocked :: "stack \<Rightarrow> bool" where
  "launchAdmissionClosedLocked s = (rn_stopping (sk_runner s) \<or> sk_cancelled s)"

definition getProc :: "string \<Rightarrow> stack \<Rightarrow> Process option" where
  "getProc name s = gget (sk_procs s) name"

definition refreshProc :: "procInfo \<Rightarrow> stack \<Rightarrow> procInfo \<times> stack" where
  "refreshProc p s = (case getProc (pi_name p) s of
     None \<Rightarrow> (p, s)
   | Some u \<Rightarrow> (p\<lparr>pi_proc := u\<rparr>, s\<lparr>sk_store := map_option (setProc (pi_name p) u) (sk_store s)\<rparr>))"

definition state_in :: "string \<Rightarrow> stack \<Rightarrow> procState option" where
  "state_in name s = (case sk_store s of None \<Rightarrow> None | Some ss \<Rightarrow> store_get ss name)"

definition put_state :: "string \<Rightarrow> procState \<Rightarrow> stack \<Rightarrow> stack" where
  "put_state name st s = s\<lparr>sk_store := map_option (\<lambda>ss. ss\<lparr>ss_procs := gput name st (ss_procs ss)\<rparr>) (sk_store s)\<rparr>"

section \<open>Restart requests\<close>

definition requestRestartLocked :: "string \<Rightarrow> procState \<Rightarrow> stack \<Rightarrow> CommandResult \<times> stack" where
  "requestRestartLocked name st s =
     (if launchAdmissionClosedLocked s then (reply ''error'' ''daemon is shutting down'', s)
      else (\<lparr>cr_Status = ''ok'', cr_Message = [], cr_Generation = ps_generation st + 1\<rparr>,
            put_state name (requestRestart (st\<lparr>ps_active := True\<rparr>)) s))"

definition restart_command :: "string \<Rightarrow> stack \<Rightarrow> CommandResult \<times> stack" where
  "restart_command name s =
     (if name = [] then (reply ''error'' ''restart requires a process name'', s)
      else case gget (sk_procs s) name of
             None \<Rightarrow> (reply ''error'' (''unknown process '' @ Quote name), s)
           | Some proc \<Rightarrow> (case state_in name s of
               None \<Rightarrow> (reply ''error'' (''process '' @ Quote name @ '' is not currently managed''), s)
             | Some st \<Rightarrow>
                 if EffectiveMode proc = ProcessModeTask
                 then (reply ''error'' (''process '' @ Quote name @
                        '' is a task and cannot be restarted; restart the stack to rerun tasks''), s)
                 else requestRestartLocked name st s))"

section \<open>Reload\<close>

definition readyWhenEqual :: "ReadyWhen option \<Rightarrow> ReadyWhen option \<Rightarrow> bool" where
  "readyWhenEqual a b = (case (a, b) of
     (None, None) \<Rightarrow> True | (Some x, Some y) \<Rightarrow> x = y | _ \<Rightarrow> False)"

definition procChanged :: "Process \<Rightarrow> Process \<Rightarrow> bool" where
  "procChanged a b =
     (p_Cmd a \<noteq> p_Cmd b \<or> p_Dir a \<noteq> p_Dir b \<or> p_Restart a \<noteq> p_Restart b \<or>
      p_MaxRestarts a \<noteq> p_MaxRestarts b \<or> p_ShutdownTimeout a \<noteq> p_ShutdownTimeout b \<or>
      p_EnvFile a \<noteq> p_EnvFile b \<or> p_Mode a \<noteq> p_Mode b \<or> p_ReadyTimeout a \<noteq> p_ReadyTimeout b \<or>
      \<not> readyWhenEqual (p_ReadyWhen a) (p_ReadyWhen b) \<or> \<not> readyWhenEqual (p_HealthWhen a) (p_HealthWhen b) \<or>
      p_HealthInterval a \<noteq> p_HealthInterval b \<or> p_HealthAction a \<noteq> p_HealthAction b \<or>
      p_ForeignListener a \<noteq> p_ForeignListener b \<or>
      length (p_Env a) \<noteq> length (p_Env b) \<or> list_ex (\<lambda>(k, v). gget (p_Env b) k \<noteq> Some v) (p_Env a) \<or>
      p_DependsOn a \<noteq> p_DependsOn b)"

definition immutable_changed :: "Process gomap \<Rightarrow> string \<times> Process \<Rightarrow> bool" where
  "immutable_changed old = (\<lambda>(name, new). case gget old name of
     None \<Rightarrow> False
   | Some p \<Rightarrow> EffectiveMode p \<noteq> EffectiveMode new \<or> p_DependsOn p \<noteq> p_DependsOn new)"

definition changes :: "Process gomap \<Rightarrow> Process gomap \<Rightarrow> (string \<times> Process) list" where
  "changes old new = filter (\<lambda>(name, p). case gget old name of None \<Rightarrow> False | Some q \<Rightarrow> procChanged q p) new"

definition names_missing :: "Process gomap \<Rightarrow> Process gomap \<Rightarrow> string list" where
  "names_missing from here = filter (\<lambda>name. \<not> ghas here name) (gokeys from)"

text \<open>One definition, under the locks; \<open>Inl\<close> ends the reload, \<open>Inr\<close> says whether it was skipped or updated.\<close>

datatype change_kind = Skipped | Updated | Restarted

definition apply_change :: "string \<times> Process \<Rightarrow> stack \<Rightarrow> (CommandResult + change_kind) \<times> stack" where
  "apply_change c s =
     (let name = fst c; proc = snd c; closed = launchAdmissionClosedLocked s;
          s1 = s\<lparr>sk_procs := gput name proc (sk_procs s)\<rparr>
      in if EffectiveMode proc = ProcessModeTeardown
         then (if closed then (Inl (reply ''error'' ''daemon is shutting down''), s) else (Inr Updated, s1))
         else if EffectiveMode proc = ProcessModeTask then (Inr Skipped, s)
         else case state_in name s of
                None \<Rightarrow> (Inr Skipped, s)
              | Some st \<Rightarrow>
                  if closed then (Inl (reply ''error'' ''daemon is shutting down''), s)
                  else case requestRestartLocked name st s1 of
                         (res, s2) \<Rightarrow> (if cr_Status res \<noteq> ''ok'' then Inl res else Inr Restarted, s2))"

fun apply_changes ::
  "(nat \<Rightarrow> stack \<Rightarrow> stack) \<Rightarrow> nat \<Rightarrow> (string \<times> Process) list \<Rightarrow> stack \<Rightarrow> (CommandResult + change_kind list) \<times> stack" where
  "apply_changes meanwhile i [] s = (Inr [], s)"
| "apply_changes meanwhile i (c # cs) s =
     (case apply_change c (meanwhile i s) of
        (Inl res, s1) \<Rightarrow> (Inl res, s1)
      | (Inr kd, s1) \<Rightarrow> (case apply_changes meanwhile (Suc i) cs s1 of
          (Inl res, s2) \<Rightarrow> (Inl res, s2)
        | (Inr kds, s2) \<Rightarrow> (Inr (kd # kds), s2)))"

definition applied :: "nat \<Rightarrow> nat \<Rightarrow> string list" where
  "applied restarted updated =
     (if restarted > 0 then [''restarted '' @ Itoa (int restarted)] else []) @
     (if updated > 0 then [''updated '' @ Itoa (int updated) @ '' teardown''] else [])"

definition reload_verdict :: "string list \<Rightarrow> string list \<Rightarrow> change_kind list \<Rightarrow> CommandResult" where
  "reload_verdict added removed kinds =
     (let skipped = length (filter (\<lambda>kd. kd = Skipped) kinds);
          updated = length (filter (\<lambda>kd. kd = Updated) kinds);
          restarted = length kinds - skipped - updated
      in if added \<noteq> [] \<or> removed \<noteq> []
         then reply ''partial'' (Join (
             (if added \<noteq> [] then [''ignored added: '' @ Join added '', ''] else []) @
             (if removed \<noteq> [] then [''ignored removed: '' @ Join removed '', ''] else []) @ applied restarted updated) ''; '' @
             '' (restart the daemon to apply add/remove)'')
         else if skipped > 0
         then reply ''partial'' (Join (applied restarted updated @ [''skipped '' @ Itoa (int skipped) @ '' completed'']) ''; '' @
             '' (restart the daemon to apply changes to completed tasks)'')
         else if kinds = [] then reply ''ok'' ''no changes detected''
         else reply ''ok'' (Join (applied restarted updated) ''; ''))"

text \<open>\<open>loaded\<close>: what \<^verbatim>\<open>config.Load\<close> and the resolution of the session give for the path.\<close>

definition Reload :: "(nat \<Rightarrow> stack \<Rightarrow> stack) \<Rightarrow> (string \<Rightarrow> string + Config) \<Rightarrow> stack \<Rightarrow> CommandResult \<times> stack" where
  "Reload meanwhile loaded s =
     (if sk_configPath s = [] then (reply ''error'' ''no config path set'', s)
      else case loaded (sk_configPath s) of
             Inl msg \<Rightarrow> (reply ''error'' msg, s)
           | Inr cfg \<Rightarrow>
               (let old = sk_procs s; new = c_Processes cfg
                in case find (immutable_changed old) new of
                     Some (name, _) \<Rightarrow> (reply ''error'' (''process '' @ Quote name @
                         '' changes mode or dependencies; restart the stack to apply this change''), s)
                   | None \<Rightarrow> (case apply_changes meanwhile 0 (changes old new) s of
                       (Inl res, s1) \<Rightarrow> (res, s1)
                     | (Inr kinds, s1) \<Rightarrow> (reload_verdict (names_missing new old) (names_missing old new) kinds, s1))))"

section \<open>The shutdown acknowledgment\<close>

record ackBarrier =
  ab_holders :: int
  ab_sealed :: bool
  ab_drained :: "bool option"

text \<open>
  The channel \<^verbatim>\<open>drained\<close>: \<open>None\<close> before the first holder, then whether it is closed. A closed channel is
  dropped by the Go code, which never looks at it again.
\<close>

definition enter :: "ackBarrier \<Rightarrow> bool \<times> ackBarrier" where
  "enter b =
     (if ab_sealed b then (False, b)
      else (True, b\<lparr>ab_drained := (if ab_holders b = 0 \<and> ab_drained b = None then Some False else ab_drained b),
                     ab_holders := ab_holders b + 1\<rparr>))"

definition leave :: "ackBarrier \<Rightarrow> ackBarrier" where
  "leave b =
     (let h = ab_holders b - 1
      in b\<lparr>ab_holders := h,
           ab_drained := (if ab_sealed b \<and> h = 0 \<and> ab_drained b \<noteq> None then Some True else ab_drained b)\<rparr>)"

text \<open>
  The first half of \<^verbatim>\<open>sealAndWait\<close>. The flag says whether the caller has to wait for the channel, which it does
  until a timeout of its own; that backstop is left out.
\<close>

definition seal :: "ackBarrier \<Rightarrow> bool \<times> ackBarrier" where
  "seal b =
     (let b1 = b\<lparr>ab_sealed := True\<rparr>
      in if ab_holders b = 0
         then (False, b1\<lparr>ab_drained := (if ab_drained b \<noteq> None then Some True else None)\<rparr>)
         else (True, b1))"

section \<open>The command loop\<close>

record Command =
  co_Action :: string
  co_Process :: string
  co_Force :: bool

text \<open>What a waiting shutdown sees: the stack in time or not, and the verdict that was published.\<close>

datatype shutdown_wait = NotRunning | TimedOut | Stopped "string option option"

definition handleShutdown :: "shutdown_wait \<Rightarrow> CommandResult" where
  "handleShutdown w = (case w of
     NotRunning \<Rightarrow> reply ''error'' ''no stack is running''
   | TimedOut \<Rightarrow> reply ''error'' ''daemon did not finish shutting down within 25s; managed processes were not verified''
   | Stopped (Some None) \<Rightarrow> reply ''ok'' []
   | Stopped (Some (Some m)) \<Rightarrow> reply ''partial'' m
   | Stopped None \<Rightarrow> reply ''partial'' ''daemon finished shutting down without publishing a verdict'')"

text \<open>One command: the reply, whether the barrier is held until the reply is flushed, and the state after.\<close>

definition handleCommand ::
  "(nat \<Rightarrow> stack \<Rightarrow> stack) \<Rightarrow> (string \<Rightarrow> string + Config) \<Rightarrow> shutdown_wait \<Rightarrow> Command \<Rightarrow> stack \<times> ackBarrier \<Rightarrow>
   CommandResult \<times> bool \<times> stack \<times> ackBarrier" where
  "handleCommand meanwhile loaded w cmd = (\<lambda>(s, b).
     if co_Action cmd = ''restart''
     then (case restart_command (co_Process cmd) s of (res, s1) \<Rightarrow> (res, False, s1, b))
     else if co_Action cmd = ''reload''
     then (case Reload meanwhile loaded s of (res, s1) \<Rightarrow> (res, False, s1, b))
     else if co_Action cmd = ''shutdown''
     then (case enter b of
             (True, b1) \<Rightarrow>
               (handleShutdown w, True,
                if w = NotRunning then s else s\<lparr>sk_runner := Shutdown (co_Force cmd) (sk_runner s), sk_cancelled := True\<rparr>, b1)
           | (False, b1) \<Rightarrow>
               (reply ''error'' ''daemon is already shutting down and cannot accept another stop request'', False, s, b1))
     else (reply ''error'' (''unknown action: '' @ co_Action cmd), False, s, b))"

section \<open>Correctness\<close>

definition undisturbed :: "(nat \<Rightarrow> stack \<Rightarrow> stack) \<Rightarrow> bool" where
  "undisturbed meanwhile = (\<forall>i s. sk_procs (meanwhile i s) = sk_procs s)"

lemma put_state_procs [simp]: "sk_procs (put_state name st s) = sk_procs s"
  by (simp add: put_state_def)

lemma apply_change_procs:
  assumes "apply_change c s = (r, s')"
  shows "sk_procs s' = (case r of
      Inr Updated \<Rightarrow> gput (fst c) (snd c) (sk_procs s) | Inr Restarted \<Rightarrow> gput (fst c) (snd c) (sk_procs s) | _ \<Rightarrow> sk_procs s)"
proof -
  let ?s1 = "s\<lparr>sk_procs := gput (fst c) (snd c) (sk_procs s)\<rparr>"
  have adm: "launchAdmissionClosedLocked ?s1 = launchAdmissionClosedLocked s" by (simp add: launchAdmissionClosedLocked_def)
  show ?thesis using assms adm
    by (auto simp: apply_change_def Let_def requestRestartLocked_def split: if_splits option.splits)
qed

text \<open>What all changes of a reload do to the definitions.\<close>

lemma apply_changes_procs:
  assumes "undisturbed mw"
  shows "apply_changes mw i cs s = (r, s') \<Longrightarrow>
    (\<forall>name. gget (sk_procs s') name = gget (sk_procs s) name \<or> (\<exists>p. (name, p) \<in> set cs \<and> gget (sk_procs s') name = Some p))
    \<and> (\<forall>kinds. r = Inr kinds \<longrightarrow> length kinds = length cs \<and> (Skipped \<notin> set kinds \<longrightarrow> distinct (map fst cs) \<longrightarrow>
        (\<forall>(name, p) \<in> set cs. gget (sk_procs s') name = Some p)))"
proof (induction cs arbitrary: i s r s')
  case (Cons c cs)
  obtain r1 s1 where a: "apply_change c (mw i s) = (r1, s1)" by (rule prod.exhaust)
  note p1 = apply_change_procs [OF a]
  have mw: "sk_procs (mw i s) = sk_procs s" using assms by (simp add: undisturbed_def)
  show ?case
  proof (cases r1)
    case (Inl res)
    with Cons.prems a p1 mw show ?thesis by auto
  next
    case (Inr kd)
    obtain r2 s2 where b: "apply_changes mw (Suc i) cs s1 = (r2, s2)" by (rule prod.exhaust)
    have s': "s' = s2" "\<forall>kinds. r = Inr kinds \<longrightarrow> (\<exists>ks. r2 = Inr ks \<and> kinds = kd # ks)"
      using Cons.prems a Inr b by (auto split: sum.splits)
    note IH = Cons.IH [OF b]
    have g1: "gget (sk_procs s1) name = gget (sk_procs s) name \<or> (name = fst c \<and> gget (sk_procs s1) name = Some (snd c))" for name
      using p1 mw Inr by (cases kd) auto
    have g2: "kd \<noteq> Skipped \<Longrightarrow> gget (sk_procs s1) (fst c) = Some (snd c)" using p1 mw Inr by (cases kd) auto
    have all: "\<forall>name. gget (sk_procs s') name = gget (sk_procs s) name \<or> (\<exists>p. (name, p) \<in> set (c # cs) \<and> gget (sk_procs s') name = Some p)"
    proof
      fix name
      show "gget (sk_procs s') name = gget (sk_procs s) name \<or> (\<exists>p. (name, p) \<in> set (c # cs) \<and> gget (sk_procs s') name = Some p)"
        using IH g1 [of name] s'(1) by (cases c) (metis fst_conv list.set_intros snd_conv)
    qed
    have fst_c: "gget (sk_procs s') (fst c) = Some (snd c)" if "kd \<noteq> Skipped" "fst c \<notin> fst ` set cs"
      using IH g2 [OF that(1)] that(2) s'(1) by (metis fst_conv image_eqI)
    show ?thesis
    proof (intro conjI all allI impI)
      fix kinds
      assume "r = Inr kinds"
      then obtain ks where ks: "r2 = Inr ks" "kinds = kd # ks" using s'(2) by blast
      show "length kinds = length (c # cs)" using IH ks by simp
      assume "Skipped \<notin> set kinds" "distinct (map fst (c # cs))"
      with IH ks s'(1) fst_c show "\<forall>(name, p) \<in> set (c # cs). gget (sk_procs s') name = Some p" by auto
    qed
  qed
qed simp

lemma changes_in: "(name, p) \<in> set (changes old new) \<Longrightarrow> (name, p) \<in> set new \<and> (\<exists>q. gget old name = Some q \<and> procChanged q p)"
  by (auto simp: changes_def split: option.splits)

lemma Reload_cases:
  assumes "Reload mw loaded s = (res, s')"
  obtains (refused) "s' = s" "cr_Status res = ''error''"
  | (stopped) cfg where "loaded (sk_configPath s) = Inr cfg" "find (immutable_changed (sk_procs s)) (c_Processes cfg) = None"
      "apply_changes mw 0 (changes (sk_procs s) (c_Processes cfg)) s = (Inl res, s')"
  | (applied) cfg kinds where "loaded (sk_configPath s) = Inr cfg" "find (immutable_changed (sk_procs s)) (c_Processes cfg) = None"
      "apply_changes mw 0 (changes (sk_procs s) (c_Processes cfg)) s = (Inr kinds, s')"
      "res = reload_verdict (names_missing (c_Processes cfg) (sk_procs s)) (names_missing (sk_procs s) (c_Processes cfg)) kinds"
  using assms that by (auto simp: Reload_def Let_def reply_def split: if_splits sum.splits option.splits prod.splits)

lemma unchanged_graph:
  assumes "undisturbed mw" and "find (immutable_changed old) new = None"
    and "apply_changes mw 0 (changes old new) s = (r, s')" and "sk_procs s = old"
  shows "map_option (\<lambda>p. (EffectiveMode p, p_DependsOn p)) (gget (sk_procs s') name)
       = map_option (\<lambda>p. (EffectiveMode p, p_DependsOn p)) (gget old name)"
proof -
  consider "gget (sk_procs s') name = gget old name"
    | p where "(name, p) \<in> set (changes old new)" "gget (sk_procs s') name = Some p"
    using apply_changes_procs [OF assms(1,3)] assms(4) by blast
  then show ?thesis
  proof cases
    case 2
    from changes_in [OF 2(1)] obtain q where q: "(name, p) \<in> set new" "gget old name = Some q" by blast
    have "\<not> immutable_changed old (name, p)" using assms(2) q(1) by (auto simp: find_None_iff)
    with q(2) 2(2) show ?thesis by (simp add: immutable_changed_def)
  qed simp
qed

definition reload_stack :: stack where
  "reload_stack = \<lparr>sk_runner = newRunner [] FileMissing \<lparr>k_live = (\<lambda>_ _. None), k_probe = (\<lambda>_ _. False), k_now = 0, k_log = []\<rparr>,
     sk_cancelled = False, sk_configPath = ''f'', sk_procs = [(''api'', zero_Process\<lparr>p_Cmd := ''old'', p_Ports := [(''http'', 80)]\<rparr>)],
     sk_store = Some \<lparr>ss_procs = [(''api'', newProcState 0)], ss_infoByName = []\<rparr>\<rparr>"

definition reload_cfg :: Config where
  "reload_cfg = \<lparr>c_Merge = None, c_Processes = [(''api'', zero_Process\<lparr>p_Cmd := ''new'', p_Ports := [(''http'', 81)]\<rparr>)],
     c_Resources = []\<rparr>"

text \<open>
  When a reload is refused outright: there is no config, it cannot be loaded, or it gives a process that exists
  another effective mode or other dependencies.
\<close>

definition regraphs :: "Process gomap \<Rightarrow> Process gomap \<Rightarrow> bool" where
  "regraphs old new = list_ex (\<lambda>(name, p). case gget old name of
     None \<Rightarrow> False | Some q \<Rightarrow> (EffectiveMode q, p_DependsOn q) \<noteq> (EffectiveMode p, p_DependsOn p)) new"

definition reload_refused :: "(string \<Rightarrow> string + Config) \<Rightarrow> stack \<Rightarrow> bool" where
  "reload_refused loaded s = (sk_configPath s = []
     \<or> (case loaded (sk_configPath s) of Inl msg \<Rightarrow> True | Inr cfg \<Rightarrow> regraphs (sk_procs s) (c_Processes cfg)))"

lemma regraphs_immutable: "regraphs old new \<longleftrightarrow> find (immutable_changed old) new \<noteq> None"
  by (auto simp: regraphs_def immutable_changed_def find_None_iff list_ex_iff split: option.splits)

lemma Reload_refused:
  "reload_refused loaded s \<Longrightarrow> Reload mw loaded s = (res, s') \<Longrightarrow> cr_Status res = ''error'' \<and> s' = s"
  by (auto simp: reload_refused_def regraphs_immutable Reload_def reply_def Let_def split: if_splits sum.splits option.splits)

text \<open>Every definition that a reload leaves is the one before or one of the file.\<close>

lemma definitions_from:
  assumes "undisturbed mw" and "apply_changes mw 0 (changes (sk_procs s) new) s = (r, s')"
  shows "gget (sk_procs s') name = gget (sk_procs s) name
    \<or> (\<exists>p. (name, p) \<in> set new \<and> gget (sk_procs s') name = Some p)"
proof -
  from apply_changes_procs [OF assms] have "gget (sk_procs s') name = gget (sk_procs s) name
      \<or> (\<exists>p. (name, p) \<in> set (changes (sk_procs s) new) \<and> gget (sk_procs s') name = Some p)" by blast
  then show ?thesis using changes_in by blast
qed

text \<open>
  C17. A reload never changes the dependency graph under a running stack. The definitions of a stack are written by
  its command loop alone; whatever else other goroutines do meanwhile, the set of processes, their effective modes
  and their dependencies stay as they were, every definition is the one before or one of the file, and a reload
  that is refused, for its config cannot be loaded or would change the graph, answers with an error and changes
  nothing at all.
\<close>

theorem reload_keeps_graph:
  assumes "undisturbed mw" and "Reload mw loaded s = (res, s')"
  shows "map_option (\<lambda>p. (EffectiveMode p, p_DependsOn p)) (gget (sk_procs s') name)
       = map_option (\<lambda>p. (EffectiveMode p, p_DependsOn p)) (gget (sk_procs s) name)
    \<and> (gget (sk_procs s') name = gget (sk_procs s) name
       \<or> (\<exists>cfg p. loaded (sk_configPath s) = Inr cfg \<and> (name, p) \<in> set (c_Processes cfg) \<and> gget (sk_procs s') name = Some p))
    \<and> (reload_refused loaded s \<longrightarrow> cr_Status res = ''error'' \<and> s' = s)"
proof -
  have "reload_refused loaded s \<longrightarrow> cr_Status res = ''error'' \<and> s' = s" using Reload_refused [OF _ assms(2)] by blast
  moreover have "map_option (\<lambda>p. (EffectiveMode p, p_DependsOn p)) (gget (sk_procs s') name)
       = map_option (\<lambda>p. (EffectiveMode p, p_DependsOn p)) (gget (sk_procs s) name)
    \<and> (gget (sk_procs s') name = gget (sk_procs s) name
       \<or> (\<exists>cfg p. loaded (sk_configPath s) = Inr cfg \<and> (name, p) \<in> set (c_Processes cfg) \<and> gget (sk_procs s') name = Some p))"
    using assms(2)
  proof (cases rule: Reload_cases)
    case (stopped cfg)
    show ?thesis
      using unchanged_graph [OF assms(1) stopped(2,3) refl, of name] definitions_from [OF assms(1) stopped(3), of name] stopped(1)
      by (intro conjI) (assumption, blast)
  next
    case (applied cfg kinds)
    show ?thesis
      using unchanged_graph [OF assms(1) applied(2,3) refl, of name] definitions_from [OF assms(1) applied(3), of name] applied(1)
      by (intro conjI) (assumption, blast)
  qed simp
  ultimately show ?thesis by blast
qed

definition moved_cfg :: Config where
  "moved_cfg = reload_cfg\<lparr>c_Processes := [(''api'', zero_Process\<lparr>p_Cmd := ''new'', p_Mode := ''task''\<rparr>)]\<rparr>"

theorem reload_keeps_graph_witness:
  "map_option (\<lambda>p. (EffectiveMode p, p_DependsOn p)) (gget (sk_procs (snd (Reload (\<lambda>_. id) (\<lambda>_. Inr reload_cfg) reload_stack))) ''api'')
     = Some (ProcessModeService, []) \<and>
   snd (Reload (\<lambda>_. id) (\<lambda>_. Inr moved_cfg) reload_stack) = reload_stack"
proof -
  have u: "undisturbed (\<lambda>_. id)" by (simp add: undisturbed_def)
  have "reload_refused (\<lambda>_. Inr moved_cfg) reload_stack"
    by (simp add: reload_refused_def regraphs_def reload_stack_def moved_cfg_def EffectiveMode_def zero_Process_def)
  then have "snd (Reload (\<lambda>_. id) (\<lambda>_. Inr moved_cfg) reload_stack) = reload_stack"
    using reload_keeps_graph [OF u prod.collapse [symmetric], of "\<lambda>_. Inr moved_cfg" reload_stack] by blast
  then show ?thesis
    using reload_keeps_graph [OF u prod.collapse [symmetric], of "\<lambda>_. Inr reload_cfg" reload_stack "''api''"]
    by (simp add: reload_stack_def zero_Process_def EffectiveMode_def)
qed

lemma apply_changes_error: "apply_changes mw i cs s = (Inl res, s') \<Longrightarrow> cr_Status res \<noteq> ''ok''"
proof (induction cs arbitrary: i s)
  case (Cons c cs)
  then show ?case
    by (auto simp: apply_change_def reply_def Let_def split: sum.splits prod.splits if_splits option.splits)
qed simp

lemma verdict_ok:
  "cr_Status (reload_verdict added removed kinds) = ''ok'' \<Longrightarrow> added = [] \<and> removed = [] \<and> Skipped \<notin> set kinds"
  by (auto simp: reload_verdict_def reply_def Let_def filter_empty_conv split: if_splits)

lemma none_missing: "names_missing from here = [] \<Longrightarrow> gget from name \<noteq> None \<Longrightarrow> gget here name \<noteq> None"
  by (auto simp: names_missing_def filter_empty_conv map_of_eq_None_iff dest: gget_in_keys)

text \<open>
  A reload that answers ok has brought every running definition up to the file: the file names the
  same processes, and no definition differs from the running one in a field that \<^verbatim>\<open>procChanged\<close> compares.
\<close>

theorem reload_ok_is_current:
  assumes "undisturbed mw" and "Reload mw loaded s = (res, s')" and "cr_Status res = ''ok''"
    and "\<And>cfg. loaded (sk_configPath s) = Inr cfg \<Longrightarrow> gomap_ok (c_Processes cfg)"
  shows "\<exists>cfg. loaded (sk_configPath s) = Inr cfg \<and> (\<forall>name. case gget (c_Processes cfg) name of
      None \<Rightarrow> gget (sk_procs s') name = None
    | Some p \<Rightarrow> \<exists>q. gget (sk_procs s') name = Some q \<and> (q = p \<or> \<not> procChanged q p))"
  using assms(2)
proof (cases rule: Reload_cases)
  case refused
  with assms(3) show ?thesis by simp
next
  case (stopped cfg)
  with assms(3) apply_changes_error show ?thesis by blast
next
  case (applied cfg kinds)
  let ?new = "c_Processes cfg" and ?old = "sk_procs s"
  have ok: "names_missing ?new ?old = []" "names_missing ?old ?new = []" "Skipped \<notin> set kinds"
    using verdict_ok assms(3) applied(4) by blast+
  have dist: "distinct (map fst ?new)" using assms(4) [OF applied(1)] by (simp add: gomap_ok_def)
  then have "distinct (map fst (changes ?old ?new))" by (simp add: changes_def distinct_map_filter)
  with apply_changes_procs [OF assms(1) applied(3)] ok(3)
  have set: "(name, p) \<in> set (changes ?old ?new) \<Longrightarrow> gget (sk_procs s') name = Some p"
    and keep: "gget (sk_procs s') name = gget ?old name \<or> (\<exists>p. (name, p) \<in> set (changes ?old ?new))" for name p
    by blast+
  have "case gget ?new name of None \<Rightarrow> gget (sk_procs s') name = None
      | Some p \<Rightarrow> \<exists>q. gget (sk_procs s') name = Some q \<and> (q = p \<or> \<not> procChanged q p)" for name
  proof (cases "gget ?new name")
    case None
    have "gget ?old name = None" using none_missing [OF ok(2), of name] None by blast
    moreover have "(name, p) \<notin> set (changes ?old ?new)" for p
      using changes_in [of name p ?old ?new] None by (metis option.distinct(1) weak_map_of_SomeI)
    ultimately show ?thesis using None keep [of name] by auto
  next
    case (Some p)
    then obtain q where q: "gget ?old name = Some q" using none_missing [OF ok(1)] by auto
    have mem: "(name, p) \<in> set ?new" using Some by (rule map_of_SomeD)
    have only: "(name, p') \<in> set (changes ?old ?new) \<Longrightarrow> p' = p" for p'
      using changes_in Some dist by (metis map_of_is_SomeI option.inject)
    show ?thesis
    proof (cases "procChanged q p")
      case True
      then have "(name, p) \<in> set (changes ?old ?new)" using mem q by (simp add: changes_def)
      with set Some show ?thesis by auto
    next
      case False
      then have "(name, p') \<notin> set (changes ?old ?new)" for p' using only changes_in q by fastforce
      with keep [of name] q Some False show ?thesis by auto
    qed
  qed
  with applied(1) show ?thesis by blast
qed

lemma reload_example: "cr_Status (fst (Reload (\<lambda>_. id) (\<lambda>_. Inr reload_cfg) reload_stack)) = ''ok''"
  by code_simp

theorem reload_ok_is_current_witness:
  "\<exists>q. gget (sk_procs (snd (Reload (\<lambda>_. id) (\<lambda>_. Inr reload_cfg) reload_stack))) ''api'' = Some q
     \<and> (q = zero_Process\<lparr>p_Cmd := ''new'', p_Ports := [(''http'', 81)]\<rparr>
        \<or> procChanged q (zero_Process\<lparr>p_Cmd := ''new'', p_Ports := [(''http'', 81)]\<rparr>) = False)"
  using reload_ok_is_current [of "\<lambda>_. id" "\<lambda>_. Inr reload_cfg" reload_stack, OF _ prod.collapse [symmetric] reload_example]
  by (auto simp: undisturbed_def reload_cfg_def gomap_ok_def dest!: spec [of _ "''api''"])

text \<open>
  A reload that only changes the ports of a process reports that nothing changed and keeps the old
  ports, because \<^verbatim>\<open>procChanged\<close> does not compare them.
\<close>

theorem reload_ignores_ports:
  "Reload mw (\<lambda>_. Inr (reload_cfg\<lparr>c_Processes := [(''api'', zero_Process\<lparr>p_Cmd := ''old'', p_Ports := [(''http'', 81)]\<rparr>)]\<rparr>)) reload_stack
     = (reply ''ok'' ''no changes detected'', reload_stack)
   \<and> map_option p_Ports (gget (sk_procs reload_stack) ''api'') = Some [(''http'', 80)]"
  by (simp add: Reload_def reload_stack_def changes_def procChanged_def readyWhenEqual_def zero_Process_def immutable_changed_def
      EffectiveMode_def names_missing_def reload_verdict_def Let_def)

section \<open>The barrier\<close>

inductive barrier_op :: "ackBarrier \<Rightarrow> ackBarrier \<Rightarrow> bool" where
  bo_enter: "barrier_op b (snd (enter b))"
| bo_leave: "ab_holders b > 0 \<Longrightarrow> barrier_op b (leave b)"
| bo_seal: "barrier_op b (snd (seal b))"

definition newBarrier :: ackBarrier where
  "newBarrier = \<lparr>ab_holders = 0, ab_sealed = False, ab_drained = None\<rparr>"

definition barrier_ok :: "ackBarrier \<Rightarrow> bool" where
  "barrier_ok b = (ab_holders b \<ge> 0 \<and> (ab_holders b > 0 \<longrightarrow> ab_drained b = Some False)
     \<and> (ab_drained b = Some True \<longrightarrow> ab_sealed b)
     \<and> (ab_sealed b \<and> ab_holders b = 0 \<longrightarrow> ab_drained b \<noteq> Some False))"

interpretation ab: transition_invariant barrier_op barrier_ok "\<lambda>b b'. ab_sealed b \<longrightarrow> ab_sealed b' \<and> ab_holders b' \<le> ab_holders b"
proof unfold_locales
  fix b b'
  assume ok: "barrier_ok b" and "barrier_op b b'"
  from this(2) ok show "barrier_ok b'" "ab_sealed b \<longrightarrow> ab_sealed b' \<and> ab_holders b' \<le> ab_holders b"
    by (induction; auto simp: enter_def leave_def seal_def barrier_ok_def Let_def)+
qed auto

text \<open>
  C38. Run's exit waits for exactly the verdicts that are being delivered: however commands enter and
  leave, a seal finds either no holder, or an open channel that closes in the step in which the last
  holder leaves, and no command enters after it.
\<close>

theorem ack_barrier_drains:
  assumes "barrier_op\<^sup>*\<^sup>* newBarrier b" and "seal b = (waits, b1)" and "barrier_op\<^sup>*\<^sup>* b1 b2"
  shows "fst (enter b2) = False \<and> waits = (ab_holders b > 0) \<and> ab_holders b2 \<le> ab_holders b
    \<and> (if waits then (ab_drained b2 = Some True) = (ab_holders b2 = 0) else ab_holders b2 = 0)"
proof -
  have ok: "barrier_ok b" by (rule ab.steps_inv [OF assms(1)]) (simp add: barrier_ok_def newBarrier_def)
  have step: "barrier_op b b1" using bo_seal [of b] assms(2) by simp
  have ok1: "barrier_ok b1" by (rule ab.step_inv [OF ok step])
  have ok2: "barrier_ok b2" by (rule ab.steps_inv [OF assms(3) ok1])
  have b1: "ab_sealed b1" "ab_holders b1 = ab_holders b" "waits = (ab_holders b \<noteq> 0)"
    using assms(2) by (auto simp: seal_def Let_def split: if_splits)
  have b2: "ab_sealed b2" "ab_holders b2 \<le> ab_holders b" using ab.steps_ord [OF assms(3) ok1] b1 by auto
  have drained: "ab_drained b1 \<noteq> None \<Longrightarrow> ab_drained b2 \<noteq> None"
    using assms(3) by (induction rule: rtranclp_induct) (auto elim!: barrier_op.cases simp: enter_def leave_def seal_def Let_def)
  have d1: "waits \<Longrightarrow> ab_drained b1 \<noteq> None" using ok1 b1 by (auto simp: barrier_ok_def)
  show ?thesis using ok ok2 b1 b2 drained d1 by (auto simp: enter_def barrier_ok_def)
qed

theorem ack_barrier_drains_witness:
  "fst (enter (leave (snd (seal (snd (enter newBarrier)))))) = False \<and> ab_drained (leave (snd (seal (snd (enter newBarrier))))) = Some True"
proof -
  let ?b = "snd (enter newBarrier)"
  have r: "barrier_op\<^sup>*\<^sup>* newBarrier ?b" by (rule r_into_rtranclp) (rule bo_enter)
  have s: "seal ?b = (True, snd (seal ?b))" by (simp add: seal_def enter_def newBarrier_def Let_def)
  have l: "barrier_op\<^sup>*\<^sup>* (snd (seal ?b)) (leave (snd (seal ?b)))"
    by (rule r_into_rtranclp) (rule bo_leave, simp add: seal_def enter_def newBarrier_def Let_def)
  from ack_barrier_drains [OF r s l] show ?thesis by (simp add: seal_def enter_def leave_def newBarrier_def Let_def)
qed

end
