(* ===== verification/Runner_Teardown.thy ===== *)
theory Runner_Teardown
  imports Runner_Safety Config_Plan
begin

text \<open>
  Executions the runner owns itself and the teardown phase (\<^verbatim>\<open>runOwned\<close> and \<^verbatim>\<open>cappedBuffer\<close> in
  \<^verbatim>\<open>internal/runner/check.go\<close>, \<^verbatim>\<open>internal/runner/teardown.go\<close>, the verdict at the end of \<^verbatim>\<open>Run\<close> in
  \<^verbatim>\<open>runner.go\<close>). Time is given by what a process has left of the budget when its turn comes. Log lines are
  left out, and of a result the times and identifiers that nothing decides on.
\<close>

section \<open>Captured output\<close>

record cappedBuffer =
  cb_limit :: int
  cb_data :: string
  cb_truncated :: bool

text \<open>A byte that continues a UTF-8 sequence.\<close>

definition continues :: "char \<Rightarrow> bool" where
  "continues c = (of_char c div 64 = (2 :: nat))"

fun cut_back :: "string \<Rightarrow> nat \<Rightarrow> nat" where
  "cut_back line 0 = 0"
| "cut_back line (Suc n) = (if Suc n < length line \<and> continues (line ! Suc n) then cut_back line n else Suc n)"

definition writeLine :: "string \<Rightarrow> cappedBuffer \<Rightarrow> cappedBuffer" where
  "writeLine line b =
     (if cb_truncated b then b
      else let full = line @ newline; room = cb_limit b - int (length (cb_data b))
           in if int (length full) > room
              then b\<lparr>cb_data := cb_data b @ take (cut_back full (nat room)) full, cb_truncated := True\<rparr>
              else b\<lparr>cb_data := cb_data b @ full\<rparr>)"

definition newBuffer :: "int \<Rightarrow> cappedBuffer" where
  "newBuffer limit = \<lparr>cb_limit = limit, cb_data = [], cb_truncated = False\<rparr>"

section \<open>One owned execution\<close>

record CheckResult =
  ck_Started :: bool
  ck_ExitCode :: "int option"
  ck_Signal :: "string option"
  ck_Stderr :: string
  ck_OutputTruncated :: bool
  ck_HandedOff :: bool
  ck_Err :: "string option"
  ck_AdmissionRefused :: bool

definition TrimPrefix :: "string \<Rightarrow> string \<Rightarrow> string" where
  "TrimPrefix s pre = (if take (length pre) s = pre then drop (length pre) s else s)"

text \<open>
  The error is an \<^verbatim>\<open>ExitError\<close> when the leader was collected and had a status to report. The streams are
  given by the lines the command wrote.
\<close>

definition runOwned ::
  "procInfo \<Rightarrow> exec_env \<Rightarrow> nat \<Rightarrow> int \<Rightarrow> string list \<times> string list \<Rightarrow> runner \<times> procState \<Rightarrow> CheckResult \<times> runner \<times> procState" where
  "runOwned p e h maxOutput lines = (\<lambda>(r, st).
     let out = fold writeLine (fst lines) (newBuffer maxOutput);
         err = fold writeLine (snd lines) (newBuffer maxOutput)
     in case exec p e True h id (r, st) of
          (res, r1, st1) \<Rightarrow>
            (let started = (ps_pid st1 \<noteq> 0 \<or> ps_exitCode st1 \<noteq> None);
                 base = \<lparr>ck_Started = started, ck_ExitCode = ps_exitCode st1, ck_Signal = None, ck_Stderr = cb_data err,
                   ck_OutputTruncated = (cb_truncated out \<or> cb_truncated err), ck_HandedOff = False, ck_Err = None,
                   ck_AdmissionRefused = False\<rparr>;
                 ck = (case res of
                     ExecHandoff \<Rightarrow> base\<lparr>ck_HandedOff := True, ck_ExitCode := None\<rparr>
                   | ExecErr m _ \<Rightarrow>
                       if \<not> started then base\<lparr>ck_Err := Some m, ck_AdmissionRefused := (m = ''context canceled'')\<rparr>
                       else (case (ps_exitCode st1, ee_wait e) of
                           (Some _, WaitExit code status) \<Rightarrow>
                             if code = - 1 then base\<lparr>ck_Signal := Some (TrimPrefix status ''signal: ''), ck_ExitCode := None\<rparr> else base
                         | _ \<Rightarrow> base\<lparr>ck_Err := Some m\<rparr>)
                   | ExecOk \<Rightarrow> base)
             in (ck, r1, st1\<lparr>ps_state := (if ck_ExitCode ck = Some 0 then Completed else Failed), ps_pid := 0\<rparr>)))"

text \<open>\<open>late\<close>: the context had ended when the result was read.\<close>

definition exitedZeroInTime :: "bool \<Rightarrow> CheckResult \<Rightarrow> bool \<times> CheckResult" where
  "exitedZeroInTime late ck =
     (if ck_ExitCode ck \<noteq> Some 0 then (False, ck)
      else if late then (False, ck\<lparr>ck_Err := Some ''context deadline exceeded''\<rparr>) else (True, ck))"

definition cmdProbeFailure :: "CheckResult \<Rightarrow> string" where
  "cmdProbeFailure ck =
     (case ck_Err ck of Some m \<Rightarrow> m
      | None \<Rightarrow> (case ck_Signal ck of Some s \<Rightarrow> ''killed by '' @ s
      | None \<Rightarrow> (case ck_ExitCode ck of Some c \<Rightarrow> ''exit '' @ Itoa c | None \<Rightarrow> ''no exit status''))) @
     (if TrimSpace (ck_Stderr ck) \<noteq> [] then '': '' @ TrimSpace (ck_Stderr ck) else [])"

section \<open>The teardown phase\<close>

abbreviation TeardownBudget :: int where "TeardownBudget \<equiv> 15 * Second"
abbreviation teardownMinStart :: int where "teardownMinStart \<equiv> Second"
abbreviation cmdProbeOutputLimit :: int where "cmdProbeOutputLimit \<equiv> 256"

datatype teardown_status = TeardownPassed | TeardownFailed | TeardownTimedOut | TeardownHandedOff | TeardownNotRun | TeardownSkipped

definition status_text :: "teardown_status \<Rightarrow> string" where
  "status_text s = (case s of
     TeardownPassed \<Rightarrow> ''passed'' | TeardownFailed \<Rightarrow> ''failed'' | TeardownTimedOut \<Rightarrow> ''timed_out''
   | TeardownHandedOff \<Rightarrow> ''handed_off'' | TeardownNotRun \<Rightarrow> ''not_run'' | TeardownSkipped \<Rightarrow> ''skipped'')"

abbreviation TeardownSkipUnverified :: string where "TeardownSkipUnverified \<equiv> ''managed_processes_unverified''"
abbreviation TeardownSkipHandoff :: string where "TeardownSkipHandoff \<equiv> ''cleanup_handoff''"

record TeardownResult =
  td_Name :: string
  td_Status :: teardown_status
  td_ExitCode :: "int option"
  td_Error :: string

text \<open>What one teardown process meets: the time left of the budget, its execution, and its output.\<close>

record teardown_env =
  te_remaining :: int
  te_exec :: exec_env
  te_handle :: nat
  te_late :: bool
  te_lines :: "string list \<times> string list"
  te_budget :: string

definition owned_state :: procState where
  "owned_state = (newProcState 0)\<lparr>ps_generation := 1, ps_active := False\<rparr>"

definition runTeardownProcess :: "procInfo \<Rightarrow> teardown_env \<Rightarrow> runner \<Rightarrow> TeardownResult \<times> runner" where
  "runTeardownProcess p te r =
     (if te_remaining te \<le> shutdownGrace (p_ShutdownTimeout (pi_proc p)) + teardownMinStart
      then (\<lparr>td_Name = pi_name p, td_Status = TeardownNotRun, td_ExitCode = None,
             td_Error = ''the teardown budget ran out before it could start''\<rparr>, r)
      else case runOwned p (te_exec te) (te_handle te) cmdProbeOutputLimit (te_lines te) (r, owned_state) of
             (ck, r1, st1) \<Rightarrow> (case exitedZeroInTime (te_late te) ck of
               (passed, ck1) \<Rightarrow>
                 (let verdict = (if passed then (TeardownPassed, [])
                    else if ck_HandedOff ck1 then (TeardownHandedOff, ''its process group was not reaped within the teardown budget'')
                    else if ck_Started ck1 \<and> te_late te
                    then (TeardownTimedOut, ''still running when the teardown budget ('' @ te_budget te @ '') ran out'')
                    else (TeardownFailed, cmdProbeFailure ck1))
                  in (\<lparr>td_Name = pi_name p, td_Status = fst verdict, td_ExitCode = ck_ExitCode ck1, td_Error = snd verdict\<rparr>, r1))))"

fun teardown_each :: "(string \<Rightarrow> teardown_env) \<Rightarrow> Config \<Rightarrow> int \<Rightarrow> string list \<Rightarrow> runner \<Rightarrow> TeardownResult list \<times> runner" where
  "teardown_each te cfg color [] r = ([], r)"
| "teardown_each te cfg color (name # names) r =
     (case runTeardownProcess \<lparr>pi_name = name, pi_proc = proc_at (c_Processes cfg) name, pi_colorIndex = color, pi_teardown = True\<rparr>
             (te name) r of
        (res, r1) \<Rightarrow> (case teardown_each te cfg (color + 1) names r1 of (rest, r2) \<Rightarrow> (res # rest, r2)))"

definition skip_reason :: "bool \<Rightarrow> runner \<Rightarrow> string" where
  "skip_reason handedOff r =
     (if handedOff then TeardownSkipHandoff else if ShutdownResult r \<noteq> None then TeardownSkipUnverified else [])"

definition runTeardown :: "(string \<Rightarrow> teardown_env) \<Rightarrow> Config \<Rightarrow> bool \<Rightarrow> int \<Rightarrow> runner \<Rightarrow> TeardownResult list \<times> runner" where
  "runTeardown te cfg handedOff color r =
     (let names = TeardownNames cfg; r1 = closeAdmission r; skip = skip_reason handedOff r1
      in if names = [] then ([], r)
         else if skip \<noteq> []
         then (map (\<lambda>n. \<lparr>td_Name = n, td_Status = TeardownSkipped, td_ExitCode = None, td_Error = skip\<rparr>) names, r1)
         else case teardown_each te cfg color names (r1\<lparr>rn_teardownOpen := True\<rparr>) of
                (results, r2) \<Rightarrow> (results, reportPendingReaps (sealGroups (r2\<lparr>rn_teardownOpen := False\<rparr>))))"

definition TeardownError :: "TeardownResult list \<Rightarrow> string option" where
  "TeardownError results =
     (let lines = map (\<lambda>t. ''teardown: '' @ td_Name t @ '' '' @ status_text (td_Status t) @ '': '' @ td_Error t)
                    (filter (\<lambda>t. td_Status t \<noteq> TeardownPassed) results)
      in if lines = [] then None else Some (Join lines newline))"

section \<open>The end of a run\<close>

definition join_errors :: "string option \<Rightarrow> string option \<Rightarrow> string option" where
  "join_errors a b = (case (a, b) of
     (None, _) \<Rightarrow> b | (_, None) \<Rightarrow> a | (Some x, Some y) \<Rightarrow> Some (x @ newline @ y))"

text \<open>\<open>cancelled\<close>: a signal ended the run, so processes that failed are not its result.\<close>

definition run_result :: "bool \<Rightarrow> ipcProcState list \<Rightarrow> TeardownResult list \<Rightarrow> runner \<Rightarrow> string option" where
  "run_result cancelled states results r =
     (let failed = sort (map ip_Name (filter (\<lambda>s. ip_State s = Failed) states));
          runErr = (if \<not> cancelled \<and> failed \<noteq> [] then Some (''processes failed: '' @ Join failed '', '') else None);
          both = (case (runErr, ShutdownResult r) of
                    (e, None) \<Rightarrow> e | (None, s) \<Rightarrow> s | (Some e, Some s) \<Rightarrow> Some (e @ ''; '' @ s))
      in join_errors both (TeardownError results))"

text \<open>The verdict \<^verbatim>\<open>endRun\<close> publishes to a waiting shutdown.\<close>

definition published_verdict :: "TeardownResult list \<Rightarrow> runner \<Rightarrow> string option" where
  "published_verdict results r = join_errors (ShutdownResult r) (TeardownError results)"

section \<open>Correctness\<close>

lemma runTeardownProcess_name:
  "td_Name (fst (runTeardownProcess p te r)) = pi_name p \<and> td_Status (fst (runTeardownProcess p te r)) \<noteq> TeardownSkipped"
  by (auto simp: runTeardownProcess_def Let_def split: prod.splits)

lemma runTeardownProcess_passed:
  "td_Status (fst (runTeardownProcess p te r)) = TeardownPassed \<Longrightarrow> td_ExitCode (fst (runTeardownProcess p te r)) = Some 0 \<and> \<not> te_late te"
  by (auto simp: runTeardownProcess_def exitedZeroInTime_def Let_def split: prod.splits if_splits)

lemma teardown_each_results:
  "map td_Name (fst (teardown_each te cfg color names r)) = names
   \<and> list_all (\<lambda>t. td_Status t \<noteq> TeardownSkipped \<and> (td_Status t = TeardownPassed \<longrightarrow> td_ExitCode t = Some 0))
       (fst (teardown_each te cfg color names r))"
proof (induction names arbitrary: color r)
  case (Cons name names)
  let ?p = "\<lparr>pi_name = name, pi_proc = proc_at (c_Processes cfg) name, pi_colorIndex = color, pi_teardown = True\<rparr>"
  obtain res r1 where one: "runTeardownProcess ?p (te name) r = (res, r1)" by (rule prod.exhaust)
  obtain rest r2 where more: "teardown_each te cfg (color + 1) names r1 = (rest, r2)" by (rule prod.exhaust)
  from Cons.IH [of "color + 1" r1] one more runTeardownProcess_name [of ?p "te name" r] runTeardownProcess_passed [of ?p "te name" r]
  show ?case by simp
qed simp

lemma ShutdownResult_closed [simp]: "ShutdownResult (closeAdmission r) = ShutdownResult r"
  by (simp add: ShutdownResult_def shutdownProblems_def closeAdmission_def)

text \<open>
  C10. Teardown processes run only beside a stack that is proven gone: every configured one is reported,
  in name order; after a cleanup handoff or with any termination problem each is skipped and nothing is
  launched, signalled or recorded, and otherwise none is skipped.
\<close>

theorem teardown_after_verified_cleanup:
  "map td_Name (fst (runTeardown te cfg handedOff color r)) = TeardownNames cfg
   \<and> (if \<not> handedOff \<and> ShutdownResult r = None
      then list_all (\<lambda>t. td_Status t \<noteq> TeardownSkipped) (fst (runTeardown te cfg handedOff color r))
      else list_all (\<lambda>t. td_Status t = TeardownSkipped) (fst (runTeardown te cfg handedOff color r))
           \<and> snd (runTeardown te cfg handedOff color r) \<in> {r, closeAdmission r})"
proof (cases "TeardownNames cfg = [] \<or> handedOff \<or> ShutdownResult r \<noteq> None")
  case True
  then show ?thesis by (auto simp: runTeardown_def skip_reason_def Let_def list_all_iff comp_def)
next
  case False
  obtain results r2
    where e: "teardown_each te cfg color (TeardownNames cfg) ((closeAdmission r)\<lparr>rn_teardownOpen := True\<rparr>) = (results, r2)"
    by (rule prod.exhaust)
  from teardown_each_results [of te cfg color "TeardownNames cfg" "(closeAdmission r)\<lparr>rn_teardownOpen := True\<rparr>"] e False
  show ?thesis by (auto simp: runTeardown_def skip_reason_def Let_def list_all_iff)
qed

text \<open>
  The verdict published to a waiting stop is clean exactly when no managed process is left
  unverified and every teardown process passed, and a teardown process passes only by exiting with
  status 0.
\<close>

theorem published_verdict_clean:
  assumes "runTeardown te cfg handedOff color r = (results, r')"
  shows "(published_verdict results r' = None) = (ShutdownResult r' = None \<and> list_all (\<lambda>t. td_Status t = TeardownPassed) results)
    \<and> list_all (\<lambda>t. td_Status t = TeardownPassed \<longrightarrow> td_ExitCode t = Some 0) results"
proof -
  have a: "list_all (\<lambda>t. td_Status t = TeardownPassed \<longrightarrow> td_ExitCode t = Some 0) results"
    using assms teardown_each_results [of te cfg color "TeardownNames cfg" "(closeAdmission r)\<lparr>rn_teardownOpen := True\<rparr>"]
    by (auto simp: runTeardown_def Let_def list_all_iff split: if_splits prod.splits)
  have "(TeardownError results = None) = list_all (\<lambda>t. td_Status t = TeardownPassed) results"
    by (auto simp: TeardownError_def Let_def list_all_iff filter_empty_conv)
  then show ?thesis using a by (auto simp: published_verdict_def join_errors_def split: option.splits)
qed

definition clean_cfg :: Config where
  "clean_cfg = \<lparr>c_Merge = None, c_Processes = [(''clean'', zero_Process\<lparr>p_Mode := ProcessModeTeardown\<rparr>)], c_Resources = []\<rparr>"

text \<open>A teardown process that no signal ends: its budget runs out while its leader is still awaited.\<close>

definition stuck_env :: exec_env where
  "stuck_env = \<lparr>ee_pipe = None, ee_ctxErr = False, ee_start = None, ee_track = None, ee_pid = 100, ee_leaderStart = 5,
     ee_observe = None, ee_handoff = (\<lambda>pt. pt = AtJoin), ee_observation = exitPending, ee_cancelled = True, ee_scan = ScanDone,
     ee_wait = WaitOk, ee_meanwhile = (\<lambda>_ r. r)\<rparr>"

definition stuck_te :: teardown_env where
  "stuck_te = \<lparr>te_remaining = 15 * Second, te_exec = stuck_env, te_handle = 1, te_late = True, te_lines = ([], []), te_budget = ''10s''\<rparr>"

definition stuck_runner :: runner where
  "stuck_runner = newRunner [] FileMissing \<lparr>k_live = (\<lambda>t g. Some [100]), k_probe = (\<lambda>_ _. True), k_now = 0, k_log = []\<rparr>"

definition stuck_teardown :: "TeardownResult list \<times> runner" where
  "stuck_teardown = runTeardown (\<lambda>_. stuck_te) clean_cfg False 0 stuck_runner"

lemma stuck_log:
  "klog (snd stuck_teardown) = [Signalled 1 100 SIGTERM, Signalled 1 100 SIGKILL, ReapStarted 1, Signalled 1 100 SIGKILL]"
  by code_simp

lemma stuck_status: "map td_Status (fst stuck_teardown) = [TeardownHandedOff]"
  by code_simp

theorem published_verdict_clean_witness:
  "(published_verdict (fst stuck_teardown) (snd stuck_teardown) = None) = (ShutdownResult (snd stuck_teardown) = None \<and> False)"
proof -
  have "\<not> list_all (\<lambda>t. td_Status t = TeardownPassed) (fst stuck_teardown)" using stuck_status by (auto simp: map_eq_Cons_conv)
  with published_verdict_clean [of "\<lambda>_. stuck_te" clean_cfg False 0 stuck_runner "fst stuck_teardown" "snd stuck_teardown"]
  show ?thesis by (simp add: stuck_teardown_def)
qed

text \<open>
  The discipline of the handoff matters: a teardown process whose own budget runs out is handed off
  without being sealed, so its leader's reap is started first and the final seal signals the group after
  it.
\<close>

theorem teardown_handoff_signals_after_reap: "\<not> orderly (klog (snd stuck_teardown))"
  unfolding stuck_log by simp

section \<open>Captured output\<close>

lemma cut_back_le: "cut_back line n \<le> n"
  by (induction n) auto

lemma cut_back_stops: "cut_back line n < length line \<Longrightarrow> cut_back line n = 0 \<or> \<not> continues (line ! cut_back line n)"
  by (induction n) auto

definition whole :: "string list \<Rightarrow> string" where
  "whole lines = concat (map (\<lambda>l. l @ newline) lines)"

definition starts_clean :: "string \<Rightarrow> bool" where
  "starts_clean l = (case l of [] \<Rightarrow> True | c # _ \<Rightarrow> \<not> continues c)"

lemma starts_clean_full: "starts_clean l \<Longrightarrow> \<not> continues ((l @ newline) ! 0)"
  by (cases l) (simp_all add: starts_clean_def continues_def)

definition buffer_ok :: "int \<Rightarrow> string \<Rightarrow> cappedBuffer \<Rightarrow> bool" where
  "buffer_ok limit out b = (cb_limit b = limit \<and> int (length (cb_data b)) \<le> limit
     \<and> cb_data b = take (length (cb_data b)) out \<and> length (cb_data b) \<le> length out
     \<and> (if cb_truncated b then int (length out) > limit \<and> length (cb_data b) < length out \<and> \<not> continues (out ! length (cb_data b))
        else cb_data b = out))"

lemma writeLine_ok:
  assumes "buffer_ok limit out b" and "starts_clean line"
  shows "buffer_ok limit (out @ line @ newline) (writeLine line b)"
proof (cases "cb_truncated b")
  case True
  with assms(1) show ?thesis by (auto simp: writeLine_def buffer_ok_def nth_append)
next
  case False
  let ?full = "line @ newline" and ?room = "limit - int (length out)"
  have t: "cb_data b = out" "cb_limit b = limit" "int (length out) \<le> limit" using assms(1) False by (auto simp: buffer_ok_def)
  show ?thesis
  proof (cases "int (length ?full) > ?room")
    case True
    let ?c = "cut_back ?full (nat ?room)"
    have c: "int ?c \<le> ?room" using cut_back_le [of ?full "nat ?room"] t(3) by simp
    have lt: "?c < length ?full" using c True by linarith
    have "\<not> continues (?full ! ?c)" using cut_back_stops [OF lt] starts_clean_full [OF assms(2)] by metis
    then have "writeLine line b = b\<lparr>cb_data := out @ take ?c ?full, cb_truncated := True\<rparr>"
      "\<not> continues ((out @ ?full) ! (length out + ?c))"
      using t False True by (simp_all add: writeLine_def Let_def nth_append)
    with c lt t True show ?thesis by (auto simp: buffer_ok_def)
  next
    case False': False
    with t False show ?thesis by (auto simp: writeLine_def buffer_ok_def Let_def)
  qed
qed

text \<open>
  Captured output is a prefix of what the command wrote, never longer than the limit; it is complete
  unless it is marked as truncated, which it is only when all of it would not fit, and a truncation never
  splits a UTF-8 sequence.
\<close>

theorem capped_output_is_prefix:
  assumes "0 \<le> limit" and "list_all starts_clean lines"
  shows "buffer_ok limit (whole lines) (fold writeLine lines (newBuffer limit))"
proof -
  have "buffer_ok limit out b \<Longrightarrow> list_all starts_clean ls \<Longrightarrow> buffer_ok limit (out @ whole ls) (fold writeLine ls b)" for out b ls
  proof (induction ls arbitrary: out b)
    case (Cons l ls)
    with Cons.IH [OF writeLine_ok, of out b l] show ?case by (simp add: whole_def)
  qed (simp add: whole_def)
  from this [of "[]" "newBuffer limit" lines] assms show ?thesis by (simp add: buffer_ok_def newBuffer_def)
qed

theorem capped_output_is_prefix_witness: "buffer_ok 3 (whole [''ab'', ''cd'']) (fold writeLine [''ab'', ''cd''] (newBuffer 3))"
  by (rule capped_output_is_prefix) (simp_all add: starts_clean_def continues_def)

end
