(* ===== verification/Process_Table.thy ===== *)
theory Process_Table
  imports Runner_Groups "HOL-Library.Product_Lexorder"
begin

text \<open>
  What crash recovery sees of the operating system (\<^verbatim>\<open>daemon.ProcStat\<close> in
  \<^verbatim>\<open>internal/daemon/daemon_unix.go\<close> and the walk of \<^verbatim>\<open>/proc\<close> in \<^verbatim>\<open>internal/runner/processgroup_linux.go\<close>).
  A process has an identity that outlives its pid; \<open>pt_procs t\<close> are the processes that are not reaped at
  instant \<open>t\<close>. Every system call lets one instant pass, so whatever happens between two calls is a change
  of the table that the environment makes. A pidfd is the identity of the process it was opened for, and
  a process group the identity of the leader it is named after.
\<close>

section \<open>The table\<close>

datatype stat_error = StatNotExist | StatUnsupported | StatOther

datatype open_error = OpenESRCH | OpenRefused

datatype probe_result = ProbeOK | ProbeESRCH | ProbeEPERM

record Host =
  ho_BootID :: string
  ho_PIDNS :: string
  ho_TimeNS :: string

record ProcInfo =
  in_State :: char
  in_PGID :: int
  in_StartTime :: int

record ptable =
  pt_procs :: "nat \<Rightarrow> nat list"
  pt_pid :: "nat \<Rightarrow> int"
  pt_start :: "nat \<Rightarrow> int"
  pt_group :: "nat \<Rightarrow> nat \<Rightarrow> nat"
  pt_state :: "nat \<Rightarrow> nat \<Rightarrow> char"
  pt_tasks :: "nat \<Rightarrow> int \<Rightarrow> nat option"
  pt_readdir :: "nat \<Rightarrow> int list option"
  pt_statErr :: "nat \<Rightarrow> int \<Rightarrow> stat_error option"
  pt_openErr :: "nat \<Rightarrow> int \<Rightarrow> bool"
  pt_sendErr :: "nat \<Rightarrow> nat \<Rightarrow> bool"
  pt_denied :: "nat \<Rightarrow> int \<Rightarrow> bool"
  pt_self :: int
  pt_pgrp :: int
  pt_host :: Host
  pt_procOwn :: bool
  pt_now :: nat
  pt_sent :: "(nat \<times> sig) list"
  pt_open :: int

definition wait_tick :: "ptable \<Rightarrow> ptable" where
  "wait_tick k = k\<lparr>pt_now := Suc (pt_now k)\<rparr>"

definition holder :: "ptable \<Rightarrow> nat \<Rightarrow> int \<Rightarrow> nat option" where
  "holder k t pid = find (\<lambda>x. pt_pid k x = pid) (pt_procs k t)"

section \<open>System calls\<close>

definition ProcStat :: "int \<Rightarrow> ptable \<Rightarrow> (stat_error + ProcInfo) \<times> ptable" where
  "ProcStat pid k =
     (let t = pt_now k
      in (case pt_statErr k t pid of
            Some e \<Rightarrow> Inl e
          | None \<Rightarrow> (case holder k t pid of
              None \<Rightarrow> Inl StatNotExist
            | Some x \<Rightarrow> Inr \<lparr>in_State = pt_state k t x, in_PGID = pt_pid k (pt_group k t x), in_StartTime = pt_start k x\<rparr>),
          wait_tick k))"

text \<open>Signal 0 to a whole group.\<close>

definition groupKill :: "int \<Rightarrow> ptable \<Rightarrow> probe_result \<times> ptable" where
  "groupKill pgid k =
     (let t = pt_now k
      in (if filter (\<lambda>x. pt_pid k (pt_group k t x) = pgid) (pt_procs k t) = [] then ProbeESRCH
          else if pt_denied k t pgid then ProbeEPERM else ProbeOK,
          wait_tick k))"

definition pidfdOpen :: "int \<Rightarrow> ptable \<Rightarrow> (open_error + nat) \<times> ptable" where
  "pidfdOpen pid k =
     (let t = pt_now k
      in if pt_openErr k t pid then (Inl OpenRefused, wait_tick k)
         else case holder k t pid of
                None \<Rightarrow> (Inl OpenESRCH, wait_tick k)
              | Some x \<Rightarrow> (Inr x, (wait_tick k)\<lparr>pt_open := pt_open k + 1\<rparr>))"

text \<open>Signal \<open>None\<close> is signal 0; the flag says that the call succeeded.\<close>

definition pidfdSend :: "nat \<Rightarrow> sig option \<Rightarrow> ptable \<Rightarrow> bool \<times> ptable" where
  "pidfdSend fd sg k =
     (let t = pt_now k
      in if fd \<notin> set (pt_procs k t) \<or> pt_sendErr k t fd then (False, wait_tick k)
         else (True, case sg of
                 None \<Rightarrow> wait_tick k
               | Some s \<Rightarrow> (wait_tick k)\<lparr>pt_sent := pt_sent k @ [(fd, s)]\<rparr>))"

definition closeFd :: "ptable \<Rightarrow> ptable" where
  "closeFd k = k\<lparr>pt_open := pt_open k - 1\<rparr>"

section \<open>The walk of procfs\<close>

definition ExitedState :: "char \<Rightarrow> bool" where
  "ExitedState s = (s = CHR ''Z'' \<or> s = CHR ''X'' \<or> s = CHR ''x'')"

definition procTasks :: "int \<Rightarrow> ptable \<Rightarrow> nat option \<times> ptable" where
  "procTasks pid k = (pt_tasks k (pt_now k) pid, wait_tick k)"

definition recoveryLive :: "int \<Rightarrow> char \<Rightarrow> ptable \<Rightarrow> bool \<times> ptable" where
  "recoveryLive pid state k =
     (if \<not> ExitedState state then (True, k)
      else case procTasks pid k of
             (None, k') \<Rightarrow> (True, k')
           | (Some n, k') \<Rightarrow> (n > 1, k'))"

definition any_state :: "int \<Rightarrow> char \<Rightarrow> ptable \<Rightarrow> bool \<times> ptable" where
  "any_state pid state k = (True, k)"

fun walk_entries :: "int \<Rightarrow> (int \<Rightarrow> char \<Rightarrow> ptable \<Rightarrow> bool \<times> ptable) \<Rightarrow> int list \<Rightarrow> ptable \<Rightarrow> int list \<times> ptable" where
  "walk_entries pgid live [] k = ([], k)"
| "walk_entries pgid live (pid # pids) k =
     (if pid \<le> 0 then walk_entries pgid live pids k
      else case ProcStat pid k of
             (Inl _, k1) \<Rightarrow> walk_entries pgid live pids k1
           | (Inr info, k1) \<Rightarrow>
               if in_PGID info \<noteq> pgid then walk_entries pgid live pids k1
               else case live pid (in_State info) k1 of
                      (l, k2) \<Rightarrow> (case walk_entries pgid live pids k2 of
                        (rest, k3) \<Rightarrow> (if l then pid # rest else rest, k3)))"

definition walkGroupMembers ::
  "int \<Rightarrow> (int \<Rightarrow> char \<Rightarrow> ptable \<Rightarrow> bool \<times> ptable) \<Rightarrow> ptable \<Rightarrow> int list option \<times> ptable" where
  "walkGroupMembers pgid live k =
     (case pt_readdir k (pt_now k) of
        None \<Rightarrow> (None, wait_tick k)
      | Some entries \<Rightarrow> (case walk_entries pgid live entries (wait_tick k) of (ms, k') \<Rightarrow> (Some ms, k')))"

definition recoveryMemberPIDs :: "int \<Rightarrow> ptable \<Rightarrow> int list option \<times> ptable" where
  "recoveryMemberPIDs pgid = walkGroupMembers pgid recoveryLive"

definition recoveryGroupHolders :: "int \<Rightarrow> ptable \<Rightarrow> nat option \<times> ptable" where
  "recoveryGroupHolders pgid k = (case walkGroupMembers pgid any_state k of (ms, k') \<Rightarrow> (map_option length ms, k'))"

section \<open>Frames\<close>

text \<open>
  \<open>evolves k k'\<close>: only time passed, pidfds were opened or closed and signals were sent. \<open>quiet\<close>: and none
  of the latter two happened.
\<close>

definition evolves :: "ptable \<Rightarrow> ptable \<Rightarrow> bool" where
  "evolves k k' = (k' = k\<lparr>pt_now := pt_now k', pt_sent := pt_sent k', pt_open := pt_open k'\<rparr> \<and> pt_now k \<le> pt_now k')"

definition quiet :: "ptable \<Rightarrow> ptable \<Rightarrow> bool" where
  "quiet k k' = (evolves k k' \<and> pt_sent k' = pt_sent k \<and> pt_open k' = pt_open k)"

lemma evolves_refl [simp, intro]: "evolves k k"
  by (simp add: evolves_def)

lemma evolves_trans [trans]: "evolves a b \<Longrightarrow> evolves b c \<Longrightarrow> evolves a c"
  by (cases a; cases b; cases c) (auto simp: evolves_def)

lemma evolves_fields:
  assumes "evolves k k'"
  shows "pt_procs k' = pt_procs k" "pt_pid k' = pt_pid k" "pt_start k' = pt_start k" "pt_group k' = pt_group k"
    "pt_self k' = pt_self k" "pt_pgrp k' = pt_pgrp k" "pt_host k' = pt_host k" "pt_procOwn k' = pt_procOwn k"
    "holder k' = holder k" "pt_now k \<le> pt_now k'"
proof -
  have e: "k' = k\<lparr>pt_now := pt_now k', pt_sent := pt_sent k', pt_open := pt_open k'\<rparr>" "pt_now k \<le> pt_now k'"
    using assms by (simp_all add: evolves_def)
  from arg_cong [OF e(1), of pt_procs] arg_cong [OF e(1), of pt_pid] arg_cong [OF e(1), of pt_start]
    arg_cong [OF e(1), of pt_group] arg_cong [OF e(1), of pt_self] arg_cong [OF e(1), of pt_pgrp]
    arg_cong [OF e(1), of pt_host] arg_cong [OF e(1), of pt_procOwn] e(2)
  show "pt_procs k' = pt_procs k" "pt_pid k' = pt_pid k" "pt_start k' = pt_start k" "pt_group k' = pt_group k"
    "pt_self k' = pt_self k" "pt_pgrp k' = pt_pgrp k" "pt_host k' = pt_host k" "pt_procOwn k' = pt_procOwn k"
    "pt_now k \<le> pt_now k'" by simp_all
  then show "holder k' = holder k" by (simp add: holder_def fun_eq_iff)
qed

lemma quiet_refl [simp, intro]: "quiet k k"
  by (simp add: quiet_def)

lemma quiet_trans [trans]: "quiet a b \<Longrightarrow> quiet b c \<Longrightarrow> quiet a c"
  by (auto simp: quiet_def intro: evolves_trans)

lemma quiet_evolves: "quiet k k' \<Longrightarrow> evolves k k'"
  by (simp add: quiet_def)

lemma quiet_tick [simp]: "quiet k (wait_tick k)"
  by (simp add: quiet_def evolves_def wait_tick_def)

lemma quiet_ProcStat: "ProcStat pid k = (x, k') \<Longrightarrow> quiet k k'"
  by (auto simp: ProcStat_def Let_def)

lemma quiet_groupKill: "groupKill pgid k = (x, k') \<Longrightarrow> quiet k k'"
  by (auto simp: groupKill_def Let_def)

lemma quiet_live: "recoveryLive pid state k = (b, k') \<Longrightarrow> quiet k k'"
  by (auto simp: recoveryLive_def procTasks_def split: if_splits option.splits)

lemma quiet_any: "any_state pid state k = (b, k') \<Longrightarrow> quiet k k'"
  by (simp add: any_state_def)

lemma quiet_walk:
  assumes "\<And>pid state k b k'. live pid state k = (b, k') \<Longrightarrow> quiet k k'"
  shows "walk_entries pgid live pids k = (ms, k') \<Longrightarrow> quiet k k'"
proof (induction pids arbitrary: k ms)
  case (Cons pid pids)
  obtain r k1 where r: "ProcStat pid k = (r, k1)" by (rule prod.exhaust)
  note q = quiet_ProcStat [OF r]
  have IH: "\<And>k ms. walk_entries pgid live pids k = (ms, k') \<Longrightarrow> quiet k k'" by (rule Cons.IH)
  show ?case
  proof (cases "pid \<le> 0")
    case False
    show ?thesis
    proof (cases r)
      case (Inr info)
      obtain l k2 where l: "live pid (in_State info) k1 = (l, k2)" by (rule prod.exhaust)
      show ?thesis using Cons.prems False r Inr l q IH assms [OF l]
        by (auto split: if_splits prod.splits intro: quiet_trans)
    qed (use Cons.prems False r q IH in \<open>auto intro: quiet_trans\<close>)
  qed (use Cons in simp)
qed simp

lemma quiet_walkGroupMembers:
  assumes "\<And>pid state k b k'. live pid state k = (b, k') \<Longrightarrow> quiet k k'"
    and "walkGroupMembers pgid live k = (ms, k')"
  shows "quiet k k'"
  using assms(2) quiet_trans [OF quiet_tick quiet_walk [OF assms(1)]]
  by (auto simp: walkGroupMembers_def split: option.splits prod.splits)

lemma quiet_members: "recoveryMemberPIDs pgid k = (ms, k') \<Longrightarrow> quiet k k'"
  unfolding recoveryMemberPIDs_def by (rule quiet_walkGroupMembers [OF quiet_live])

lemma quiet_holders: "recoveryGroupHolders pgid k = (n, k') \<Longrightarrow> quiet k k'"
  using quiet_walkGroupMembers [OF quiet_any] by (auto simp: recoveryGroupHolders_def split: prod.splits)

section \<open>What the kernel guarantees\<close>

text \<open>
  A pid names at most one process that is not reaped; a process that was reaped does not come back; and
  a number is not given to a new process while it is the number of a group in use.
\<close>

definition table_ok :: "ptable \<Rightarrow> bool" where
  "table_ok k =
     ((\<forall>t. \<forall>x \<in> set (pt_procs k t). \<forall>y \<in> set (pt_procs k t). pt_pid k x = pt_pid k y \<longrightarrow> x = y)
      \<and> (\<forall>x t1 t2 t3. t1 \<le> t2 \<and> t2 \<le> t3 \<and> x \<in> set (pt_procs k t1) \<and> x \<in> set (pt_procs k t3) \<longrightarrow> x \<in> set (pt_procs k t2))
      \<and> (\<forall>t. \<forall>x \<in> set (pt_procs k t). \<forall>y \<in> set (pt_procs k t).
           pt_pid k y = pt_pid k (pt_group k t x) \<longrightarrow> y = pt_group k t x))"

lemma holder_Some: "holder k t pid = Some x \<Longrightarrow> x \<in> set (pt_procs k t) \<and> pt_pid k x = pid"
  by (auto simp: holder_def find_Some_iff)

lemma holder_unique:
  assumes "table_ok k" and "x \<in> set (pt_procs k t)" and "pt_pid k x = pid" and "holder k t pid = Some y"
  shows "y = x"
  using assms(1,2,3) holder_Some [OF assms(4)] unfolding table_ok_def by metis

lemma stays:
  assumes "table_ok k" and "x \<in> set (pt_procs k t1)" and "x \<in> set (pt_procs k t3)" and "t1 \<le> t2" and "t2 \<le> t3"
  shows "x \<in> set (pt_procs k t2)"
  using assms unfolding table_ok_def by blast

lemma group_named:
  assumes "table_ok k" and "x \<in> set (pt_procs k t)" and "y \<in> set (pt_procs k t)" and "pt_pid k (pt_group k t x) = pt_pid k y"
  shows "pt_group k t x = y"
  using assms unfolding table_ok_def by metis

lemma evolves_ok: "evolves k k' \<Longrightarrow> table_ok k' = table_ok k"
  by (simp add: table_ok_def evolves_fields)

end
