(* ===== verification/Crash_Recovery.thy ===== *)
theory Crash_Recovery
  imports Process_Table
begin

text \<open>
  Recovery of the process groups a crashed daemon recorded (\<^verbatim>\<open>internal/runner/recover_unix.go\<close> and the end
  of \<^verbatim>\<open>internal/runner/processgroup.go\<close>), as built on Linux. Each group is proven empty, proven ours and
  ended, or reported as unknown. The number of polls a wait makes before its deadline is an argument.
\<close>

section \<open>Data\<close>

datatype RecoveryMode = RecoverGraceful | RecoverForce | RecoverAssessOnly

abbreviation OutcomeEmpty :: string where "OutcomeEmpty \<equiv> ''empty''"
abbreviation OutcomeTerminated :: string where "OutcomeTerminated \<equiv> ''terminated''"
abbreviation OutcomeUnknown :: string where "OutcomeUnknown \<equiv> ''unknown''"
abbreviation OutcomeLive :: string where "OutcomeLive \<equiv> ''live''"

record RecoveredGroup = GroupResult +
  rg_LeaderStart :: int
  rg_Outcome :: string
  rg_Reason :: string
  rg_Signals :: "string list"
  rg_PIDs :: "int list"
  rg_LiveMembers :: nat

record pinnedProcess =
  pp_fd :: nat
  pp_pid :: int

record recovery = RecoveredGroup +
  rc_leader :: "nat option"
  rc_pins :: "pinnedProcess list"
  rc_proven :: bool
  rc_emptied :: bool

definition new_recovery :: "Group \<Rightarrow> recovery" where
  "new_recovery g = \<lparr>gr_Name = g_Name g, gr_PGID = g_PGID g, gr_Identity = [], gr_State = GroupEmpty, gr_Members = [],
     gr_Reason = [], rg_LeaderStart = g_LeaderStart g, rg_Outcome = [], rg_Reason = [], rg_Signals = [], rg_PIDs = [],
     rg_LiveMembers = 0, rc_leader = None, rc_pins = [], rc_proven = False, rc_emptied = False\<rparr>"

definition finish :: "string \<Rightarrow> string \<Rightarrow> recovery \<Rightarrow> recovery" where
  "finish outcome reason r = r\<lparr>rg_Outcome := outcome, rg_Reason := reason,
     gr_State := (if outcome = OutcomeEmpty \<or> outcome = OutcomeTerminated then GroupEmpty
                  else if rg_LiveMembers r > 0 then GroupOwned else GroupUnavailable)\<rparr>"

section \<open>Pidfds\<close>

definition closePins :: "pinnedProcess list \<Rightarrow> ptable \<Rightarrow> ptable" where
  "closePins pins k = fold (\<lambda>_. closeFd) pins k"

definition release :: "recovery \<Rightarrow> ptable \<Rightarrow> recovery \<times> ptable" where
  "release r k =
     (r\<lparr>rc_leader := None, rc_pins := []\<rparr>,
      closePins (rc_pins r) (case rc_leader r of None \<Rightarrow> k | Some _ \<Rightarrow> closeFd k))"

text \<open>One member: pinned when its procfs entry, read after the pidfd was opened, still shows it in the group.\<close>

definition try_pin :: "int \<Rightarrow> int \<Rightarrow> ptable \<Rightarrow> pinnedProcess option \<times> ptable" where
  "try_pin pgid pid k = (case pidfdOpen pid k of
     (Inl _, k1) \<Rightarrow> (None, k1)
   | (Inr fd, k1) \<Rightarrow> (case ProcStat pid k1 of
       (Inl _, k2) \<Rightarrow> (None, closeFd k2)
     | (Inr info, k2) \<Rightarrow>
         if in_PGID info \<noteq> pgid then (None, closeFd k2)
         else case recoveryLive pid (in_State info) k2 of
                (live, k3) \<Rightarrow>
                  if \<not> live then (None, closeFd k3)
                  else case pidfdSend fd None k3 of
                         (sent, k4) \<Rightarrow>
                           if \<not> sent then (None, closeFd k4) else (Some \<lparr>pp_fd = fd, pp_pid = pid\<rparr>, k4)))"

fun pin_each :: "int \<Rightarrow> pinnedProcess list \<Rightarrow> int list \<Rightarrow> ptable \<Rightarrow> pinnedProcess list \<times> ptable" where
  "pin_each pgid have [] k = ([], k)"
| "pin_each pgid have (pid # pids) k =
     (if pid = pt_self k \<or> pid \<in> pp_pid ` set have then pin_each pgid have pids k
      else case try_pin pgid pid k of
             (None, k1) \<Rightarrow> pin_each pgid have pids k1
           | (Some p, k1) \<Rightarrow> (case pin_each pgid have pids k1 of (pins, k2) \<Rightarrow> (p # pins, k2)))"

definition pinMembers :: "int \<Rightarrow> pinnedProcess list \<Rightarrow> ptable \<Rightarrow> pinnedProcess list option \<times> ptable" where
  "pinMembers pgid have k = (case recoveryMemberPIDs pgid k of
     (None, k1) \<Rightarrow> (None, k1)
   | (Some pids, k1) \<Rightarrow> (case pin_each pgid have pids k1 of (pins, k2) \<Rightarrow> (Some pins, k2)))"

section \<open>Proofs of identity and of emptiness\<close>

definition leaderIdentity :: "recovery \<Rightarrow> ptable \<Rightarrow> string \<times> ptable" where
  "leaderIdentity r k = (case ProcStat (gr_PGID r) k of
     (Inl StatNotExist, k1) \<Rightarrow> (''leader_gone'', k1)
   | (Inl StatUnsupported, k1) \<Rightarrow> (''leader_start_unknown'', k1)
   | (Inl StatOther, k1) \<Rightarrow> (''enumeration_failed'', k1)
   | (Inr info, k1) \<Rightarrow>
       (if in_StartTime info \<noteq> rg_LeaderStart r then ''pgid_reused''
        else if in_PGID info \<noteq> gr_PGID r then ''leader_left_group'' else [], k1))"

text \<open>The verdict of a scan that ends the loop: not empty, the members, and whether they are known.\<close>

fun scans :: "nat \<Rightarrow> int \<Rightarrow> bool \<Rightarrow> ptable \<Rightarrow> (bool \<times> int list \<times> bool) option \<times> ptable" where
  "scans 0 pgid hidden k = (None, k)"
| "scans (Suc n) pgid hidden k = (case recoveryMemberPIDs pgid k of
     (None, k1) \<Rightarrow> (Some (False, [], False), k1)
   | (Some pids, k1) \<Rightarrow>
       if pids \<noteq> [] then (Some (False, pids, True), k1)
       else if hidden then (Some (False, [], False), k1)
       else scans n pgid hidden (if n > 0 then wait_tick k1 else k1))"

definition groupProvenEmpty :: "int \<Rightarrow> ptable \<Rightarrow> (bool \<times> int list \<times> bool) \<times> ptable" where
  "groupProvenEmpty pgid k =
     (if pgid \<le> 1 then ((False, [], False), k)
      else case groupKill pgid k of
             (probe, k1) \<Rightarrow>
               if probe = ProbeESRCH then ((True, [], True), k1)
               else case scans 2 pgid (probe = ProbeEPERM) k1 of
                      (Some v, k2) \<Rightarrow> (v, k2)
                    | (None, k2) \<Rightarrow>
                        if probe = ProbeOK
                        then (case recoveryGroupHolders pgid k2 of
                                (n, k3) \<Rightarrow> (if n = None \<or> n = Some 0 then (False, [], False) else (True, [], True), k3))
                        else ((True, [], True), k2))"

definition finishUnproven :: "string \<Rightarrow> recovery \<Rightarrow> ptable \<Rightarrow> recovery \<times> ptable" where
  "finishUnproven reason r k = (case release r k of
     (r1, k1) \<Rightarrow>
       if reason = ''pgid_reused'' then (finish OutcomeEmpty reason (r1\<lparr>rg_PIDs := [], rg_LiveMembers := 0\<rparr>), k1)
       else case groupProvenEmpty (gr_PGID r) k1 of
              ((gone, members, known), k2) \<Rightarrow>
                (if gone then finish OutcomeEmpty ''no_members'' (r1\<lparr>rg_PIDs := [], rg_LiveMembers := 0\<rparr>)
                 else if \<not> known then finish OutcomeUnknown ''enumeration_failed'' r1
                 else finish OutcomeUnknown reason (r1\<lparr>rg_PIDs := members, rg_LiveMembers := length members\<rparr>), k2))"

section \<open>Classification\<close>

text \<open>The members, once the leader is proven: it stays unreaped across the scan or nothing is pinned.\<close>

definition pin_group :: "nat \<Rightarrow> recovery \<Rightarrow> ptable \<Rightarrow> recovery \<times> ptable" where
  "pin_group lfd r k = (case pinMembers (gr_PGID r) [] k of
     (None, k1) \<Rightarrow> (finish OutcomeUnknown ''enumeration_failed'' r, k1)
   | (Some pins, k1) \<Rightarrow> (case pidfdSend lfd None k1 of
       (sent, k2) \<Rightarrow>
         if \<not> sent then finishUnproven ''leader_gone'' r (closePins pins k2)
         else (r\<lparr>rc_pins := pins, rc_proven := True, rg_Reason := ''leader_proven'', rg_PIDs := [], rg_LiveMembers := 0\<rparr>, k2)))"

text \<open>From the pidfd of the leader on; the group is proven when its members are pinned.\<close>

definition pin_leader :: "recovery \<Rightarrow> ptable \<Rightarrow> recovery \<times> ptable" where
  "pin_leader r k = (case pidfdOpen (gr_PGID r) k of
     (Inl OpenESRCH, k1) \<Rightarrow> finishUnproven ''leader_gone'' r k1
   | (Inl OpenRefused, k1) \<Rightarrow> (finish OutcomeUnknown ''signal_unavailable'' r, k1)
   | (Inr lfd, k1) \<Rightarrow>
       (let r1 = r\<lparr>rc_leader := Some lfd\<rparr>
        in case leaderIdentity r1 k1 of
             (reason, k2) \<Rightarrow>
               if reason \<noteq> [] then finishUnproven reason r1 k2
               else case pidfdSend lfd None k2 of
                      (sent, k3) \<Rightarrow>
                        if \<not> sent then finishUnproven ''leader_gone'' r1 k3 else pin_group lfd r1 k3))"

text \<open>The Go function also returns what it leaves in \<^verbatim>\<open>proven\<close>.\<close>

definition classify :: "RecoveryMode \<Rightarrow> recovery \<Rightarrow> ptable \<Rightarrow> recovery \<times> ptable" where
  "classify mode r k =
     (if gr_PGID r = 0 then (finish OutcomeUnknown ''launch_pending'' r, k)
      else if gr_PGID r \<le> 1 then (finish OutcomeUnknown ''invalid_pgid'' r, k)
      else case groupProvenEmpty (gr_PGID r) k of
             ((gone, members, known), k1) \<Rightarrow>
               if gone then (finish OutcomeEmpty ''no_members'' r, k1)
               else if \<not> known then (finish OutcomeUnknown ''enumeration_failed'' r, k1)
               else let r1 = r\<lparr>rg_PIDs := members, rg_LiveMembers := length members\<rparr>
                    in if rg_LeaderStart r = 0 then (finish OutcomeUnknown ''leader_start_unknown'' r1, k1)
                       else case leaderIdentity r1 k1 of
                              (reason, k2) \<Rightarrow>
                                if reason \<noteq> [] then finishUnproven reason r1 k2
                                else if gr_PGID r = pt_pgrp k then (finish OutcomeUnknown ''own_group'' r1, k2)
                                else if mode = RecoverAssessOnly then (finish OutcomeLive ''leader_proven'' r1, k2)
                                else pin_leader r1 k2)"

definition hostVerdict :: "Host \<Rightarrow> ptable \<Rightarrow> (string \<times> string) option" where
  "hostVerdict host k =
     (let current = pt_host k
      in if ho_BootID host = [] \<or> ho_BootID current = [] then Some (OutcomeUnknown, ''boot_unknown'')
         else if ho_BootID host \<noteq> ho_BootID current then Some (OutcomeEmpty, ''rebooted'')
         else if ho_PIDNS host \<noteq> ho_PIDNS current \<or> ho_TimeNS host \<noteq> ho_TimeNS current \<or> \<not> pt_procOwn k
         then Some (OutcomeUnknown, ''namespace_mismatch'')
         else None)"

section \<open>Signalling\<close>

fun keep_alive :: "pinnedProcess list \<Rightarrow> ptable \<Rightarrow> pinnedProcess list \<times> ptable" where
  "keep_alive [] k = ([], k)"
| "keep_alive (p # ps) k = (case pidfdSend (pp_fd p) None k of
     (sent, k1) \<Rightarrow> (case keep_alive ps (if sent then k1 else closeFd k1) of
       (alive, k2) \<Rightarrow> (if sent then p # alive else alive, k2)))"

definition repin :: "recovery \<Rightarrow> ptable \<Rightarrow> recovery \<times> ptable" where
  "repin r k = (case keep_alive (rc_pins r) k of
     (alive, k1) \<Rightarrow>
       (let r1 = r\<lparr>rc_pins := alive\<rparr>
        in case rc_leader r of
             None \<Rightarrow> (r1, k1)
           | Some lfd \<Rightarrow> (case pidfdSend lfd None k1 of
               (sent, k2) \<Rightarrow>
                 if \<not> sent then (r1, k2)
                 else case leaderIdentity r1 k2 of
                        (reason, k3) \<Rightarrow>
                          if reason \<noteq> [] then (r1, k3)
                          else case pinMembers (gr_PGID r) alive k3 of
                                 (None, k4) \<Rightarrow> (r1, k4)
                               | (Some new, k4) \<Rightarrow> (case pidfdSend lfd None k4 of
                                   (sent', k5) \<Rightarrow>
                                     if \<not> sent' then (r1, closePins new k5)
                                     else (r1\<lparr>rc_pins := alive @ new\<rparr>, k5)))))"

fun deliver :: "sig \<Rightarrow> pinnedProcess list \<Rightarrow> int list \<Rightarrow> bool \<Rightarrow> ptable \<Rightarrow> int list \<times> bool \<times> ptable" where
  "deliver sg [] pids delivered k = (pids, delivered, k)"
| "deliver sg (p # ps) pids delivered k = (case pidfdSend (pp_fd p) (Some sg) k of
     (sent, k1) \<Rightarrow>
       deliver sg ps (if sent \<and> pp_pid p \<notin> set pids then pids @ [pp_pid p] else pids) (delivered \<or> sent) k1)"

definition sig_name :: "sig \<Rightarrow> string" where
  "sig_name sg = (case sg of SIGTERM \<Rightarrow> ''SIGTERM'' | SIGKILL \<Rightarrow> ''SIGKILL'')"

definition recovery_signal :: "sig \<Rightarrow> recovery \<Rightarrow> ptable \<Rightarrow> recovery \<times> ptable" where
  "recovery_signal sg r k = (case deliver sg (rc_pins r) (rg_PIDs r) False k of
     (pids, delivered, k1) \<Rightarrow>
       (r\<lparr>rg_PIDs := pids, rg_Signals := (if delivered then rg_Signals r @ [sig_name sg] else rg_Signals r)\<rparr>, k1))"

definition allPinned :: "int list \<Rightarrow> pinnedProcess list \<Rightarrow> bool" where
  "allPinned pids pins = (\<forall>pid \<in> set pids. pid \<in> pp_pid ` set pins)"

definition conclude :: "recovery \<Rightarrow> ptable \<Rightarrow> recovery \<times> ptable" where
  "conclude r k =
     (case (if rc_emptied r then ((True, [], True), k) else groupProvenEmpty (gr_PGID r) k) of
        ((emptied, members, known), k1) \<Rightarrow>
          (let r1 = r\<lparr>rc_emptied := emptied\<rparr>
           in if emptied
              then (let r2 = r1\<lparr>rg_LiveMembers := 0\<rparr>
                    in if rg_Signals r \<noteq> [] then finish OutcomeTerminated (rg_Reason r) r2
                       else finish OutcomeEmpty ''no_members'' r2, k1)
              else (let r2 = r1\<lparr>rg_PIDs := members, rg_LiveMembers := length members\<rparr>
                    in if \<not> known then finish OutcomeUnknown ''enumeration_failed'' r2
                       else if allPinned members (rc_pins r) then finish OutcomeUnknown ''survived_sigkill'' r2
                       else finish OutcomeUnknown ''unproven_members'' r2, k1)))"

text \<open>A loop over the recoveries that satisfy a condition.\<close>

fun each :: "('r \<Rightarrow> bool) \<Rightarrow> ('r \<Rightarrow> 'k \<Rightarrow> 'r \<times> 'k) \<Rightarrow> 'r list \<Rightarrow> 'k \<Rightarrow> 'r list \<times> 'k" where
  "each sel f [] k = ([], k)"
| "each sel f (r # rs) k =
     (case (if sel r then f r k else (r, k)) of
        (r', k1) \<Rightarrow> (case each sel f rs k1 of (rs', k2) \<Rightarrow> (r' # rs', k2)))"

definition probe_empty :: "recovery \<Rightarrow> ptable \<Rightarrow> recovery \<times> ptable" where
  "probe_empty r k = (case groupProvenEmpty (gr_PGID r) k of ((e, _, _), k1) \<Rightarrow> (r\<lparr>rc_emptied := e\<rparr>, k1))"

definition pending :: "recovery \<Rightarrow> bool" where
  "pending r = (rc_proven r \<and> \<not> rc_emptied r)"

fun awaitEmpty :: "nat \<Rightarrow> recovery list \<Rightarrow> ptable \<Rightarrow> recovery list \<times> ptable" where
  "awaitEmpty n rs k = (case each pending probe_empty rs k of
     (rs1, k1) \<Rightarrow>
       (case n of
          0 \<Rightarrow> (rs1, k1)
        | Suc m \<Rightarrow> if \<not> list_ex pending rs1 then (rs1, k1) else awaitEmpty m rs1 (wait_tick k1)))"

definition kill_one :: "recovery \<Rightarrow> ptable \<Rightarrow> recovery \<times> ptable" where
  "kill_one r k = (case repin r k of (r1, k1) \<Rightarrow> recovery_signal SIGKILL r1 k1)"

definition recoveryResults :: "recovery list \<Rightarrow> RecoveredGroup list" where
  "recoveryResults rs = sort_key (\<lambda>g. (gr_Name g, gr_PGID g))
     (map (\<lambda>r. (RecoveredGroup.truncate r)\<lparr>rg_PIDs := sort (rg_PIDs r)\<rparr>) rs)"

text \<open>The body of \<^verbatim>\<open>RecoverGroups\<close> up to the deferred release.\<close>

definition recover_all ::
  "Host \<Rightarrow> RecoveryMode \<Rightarrow> nat \<Rightarrow> nat \<Rightarrow> recovery list \<Rightarrow> ptable \<Rightarrow> recovery list \<times> ptable" where
  "recover_all host mode grace settle rs k = (case hostVerdict host k of
     Some (outcome, reason) \<Rightarrow> (map (finish outcome reason) rs, k)
   | None \<Rightarrow> (case each (\<lambda>_. True) (classify mode) rs k of
       (rs1, k1) \<Rightarrow>
         if mode = RecoverAssessOnly \<or> \<not> list_ex rc_proven rs1 then (rs1, k1)
         else case (if mode = RecoverGraceful
                    then (case each rc_proven (recovery_signal SIGTERM) rs1 k1 of (rs2, k2) \<Rightarrow> awaitEmpty grace rs2 k2)
                    else (rs1, k1)) of
                (rs3, k3) \<Rightarrow> (case each pending kill_one rs3 k3 of
                  (rs4, k4) \<Rightarrow> (case awaitEmpty settle rs4 k4 of
                    (rs5, k5) \<Rightarrow> each rc_proven conclude rs5 k5))))"

definition RecoverGroups ::
  "Group list \<Rightarrow> Host \<Rightarrow> RecoveryMode \<Rightarrow> nat \<Rightarrow> nat \<Rightarrow> ptable \<Rightarrow> RecoveredGroup list \<times> ptable" where
  "RecoverGroups groups host mode grace settle k =
     (case recover_all host mode grace settle (map new_recovery groups) k of
        (rs, k1) \<Rightarrow> (recoveryResults rs, snd (each (\<lambda>_. True) release rs k1)))"

section \<open>Taking over a PID file\<close>

text \<open>A PID file as \<^verbatim>\<open>ReadRecord\<close> finds it; without groups nothing was recorded.\<close>

record Record =
  rd_PID :: int
  rd_Host :: Host
  rd_Groups :: "Group list option"

datatype pid_state = PidMissing | PidUnreadable | PidRecord Record

datatype crash_error = AlreadyRunning int | RecordUnreadable | CrashedRun int "RecoveredGroup list"

text \<open>\<open>alive\<close>: what \<^verbatim>\<open>IsAliveFromPIDFile\<close> answers for the recorded daemon.\<close>

definition assessCrashedRun :: "bool \<Rightarrow> pid_state \<Rightarrow> ptable \<Rightarrow> (crash_error + bool) \<times> ptable" where
  "assessCrashedRun alive f k = (case f of
     PidMissing \<Rightarrow> (Inr False, k)
   | PidUnreadable \<Rightarrow> (Inl RecordUnreadable, k)
   | PidRecord rec \<Rightarrow>
       if alive then (Inl (AlreadyRunning (rd_PID rec)), k)
       else case rd_Groups rec of
              None \<Rightarrow> (Inr True, k)
            | Some groups \<Rightarrow> (case RecoverGroups groups (rd_Host rec) RecoverAssessOnly 0 0 k of
                (results, k1) \<Rightarrow>
                  (if list_all (\<lambda>g. rg_Outcome g = OutcomeEmpty) results then Inr True
                   else Inl (CrashedRun (rd_PID rec) results), k1)))"

definition CheckCrashedRun :: "bool \<Rightarrow> pid_state \<Rightarrow> ptable \<Rightarrow> crash_error option \<times> ptable" where
  "CheckCrashedRun alive f k = (case assessCrashedRun alive f k of
     (Inl e, k1) \<Rightarrow> (Some e, k1) | (Inr _, k1) \<Rightarrow> (None, k1))"

text \<open>The PID file is removed exactly when it is stale.\<close>

definition ResolveCrashedRun :: "bool \<Rightarrow> pid_state \<Rightarrow> ptable \<Rightarrow> crash_error option \<times> pid_state \<times> ptable" where
  "ResolveCrashedRun alive f k = (case assessCrashedRun alive f k of
     (Inl e, k1) \<Rightarrow> (Some e, f, k1)
   | (Inr stale, k1) \<Rightarrow> (None, if stale then PidMissing else f, k1))"

definition recordedGroupOf :: "int \<Rightarrow> Group list \<Rightarrow> Host \<Rightarrow> ptable \<Rightarrow> Group option \<times> ptable" where
  "recordedGroupOf pid groups host k =
     (if pid \<le> 0 \<or> groups = [] \<or> hostVerdict host k \<noteq> None then (None, k)
      else case ProcStat pid k of
             (Inl _, k1) \<Rightarrow> (None, k1)
           | (Inr info, k1) \<Rightarrow>
               if in_PGID info \<le> 1 then (None, k1)
               else fold (\<lambda>g (found, k). case found of
                     Some _ \<Rightarrow> (found, k)
                   | None \<Rightarrow>
                       if g_PGID g \<noteq> in_PGID info \<or> g_LeaderStart g = 0 then (None, k)
                       else case leaderIdentity (new_recovery g) k of
                              (reason, k') \<Rightarrow> (if reason = [] then Some g else None, k'))
                   groups (None, k1))"

section \<open>Evidence\<close>

definition quoted_name :: "string \<Rightarrow> string" where
  "quoted_name name =
     (if name = [] \<or> list_ex (\<lambda>c. of_char c \<le> (32 :: nat) \<or> c = char_of (34 :: nat) \<or> c = CHR ''='' \<or> of_char c = (127 :: nat)) name
      then Quote name else name)"

definition evidence :: "RecoveredGroup \<Rightarrow> string" where
  "evidence g = ''recovered group='' @ quoted_name (gr_Name g) @ '' pgid='' @ Itoa (gr_PGID g) @
     (if rg_LeaderStart g \<noteq> 0 then '' leader_start='' @ Itoa (rg_LeaderStart g) else []) @
     '' outcome='' @ rg_Outcome g @ '' reason='' @ rg_Reason g @
     (if rg_Signals g \<noteq> [] then '' signals='' @ Join (rg_Signals g) '','' else []) @
     (if rg_LiveMembers g > 0 then '' live_members='' @ Itoa (int (rg_LiveMembers g)) else []) @
     (if rg_PIDs g \<noteq> [] then '' members='' @ Join (map Itoa (rg_PIDs g)) '','' else [])"

definition FormatRecovery :: "RecoveredGroup list \<Rightarrow> string" where
  "FormatRecovery groups = Join (map evidence (sort_key (\<lambda>g. (gr_Name g, gr_PGID g)) groups)) newline"

end
