(* ===== verification/Crash_Correct.thy ===== *)
theory Crash_Correct
  imports Crash_Recovery
begin

text \<open>
  Safety of crash recovery. Every pass over the recorded groups keeps the contract of the locale
  \<open>recovery_pass\<close>: what is pinned belongs to the recorded group, only pinned processes are signalled, every
  pidfd is accounted for, and a group is only called empty on evidence.
\<close>

section \<open>Accounting\<close>

text \<open>From \<open>k\<close> to \<open>k'\<close> the number of open pidfds changes by \<open>a\<close> and only processes in \<open>S\<close> are signalled.\<close>

definition grows :: "nat set \<Rightarrow> int \<Rightarrow> ptable \<Rightarrow> ptable \<Rightarrow> bool" where
  "grows S a k k' = (evolves k k' \<and> pt_open k' = pt_open k + a \<and> (\<exists>new. pt_sent k' = pt_sent k @ new \<and> fst ` set new \<subseteq> S))"

lemma grows_evolves: "grows S a k k' \<Longrightarrow> evolves k k'"
  by (simp add: grows_def)

lemma grows_refl [simp, intro]: "grows S 0 k k"
  by (simp add: grows_def)

lemma grows_trans: "grows S a k k1 \<Longrightarrow> grows S b k1 k2 \<Longrightarrow> grows S (a + b) k k2"
  unfolding grows_def by (auto intro: evolves_trans simp: image_Un)

lemma grows_mono: "grows S a k k' \<Longrightarrow> S \<subseteq> T \<Longrightarrow> grows T a k k'"
  unfolding grows_def by blast

lemma quiet_grows: "quiet k k' \<Longrightarrow> grows S 0 k k'"
  by (simp add: quiet_def grows_def)

lemma grows_then_quiet: "grows S a k k1 \<Longrightarrow> quiet k1 k2 \<Longrightarrow> grows S a k k2"
  using grows_trans [of S a k k1 0 k2] quiet_grows by simp

lemma quiet_then_grows: "quiet k k1 \<Longrightarrow> grows S a k1 k2 \<Longrightarrow> grows S a k k2"
  using grows_trans [of S 0 k k1 a k2] quiet_grows by simp

lemma grows_close: "grows S (- 1) k (closeFd k)"
  by (simp add: grows_def closeFd_def evolves_def)

lemma grows_then_close: "grows S a k k1 \<Longrightarrow> grows S (a - 1) k (closeFd k1)"
  using grows_trans [of S a k k1 "- 1"] grows_close by simp

lemma grows_closePins: "grows S (- int (length pins)) k (closePins pins k)"
proof (induction pins arbitrary: k)
  case (Cons p pins)
  show ?case using grows_trans [OF grows_close Cons.IH] by (simp add: closePins_def)
qed (simp add: closePins_def)

lemma open_cases:
  assumes "pidfdOpen pid k = (res, k')"
  obtains (failed) e where "res = Inl e" "quiet k k'"
  | (opened) x where "res = Inr x" "x \<in> set (pt_procs k (pt_now k))" "pt_pid k x = pid" "grows {} 1 k k'" "pt_now k < pt_now k'"
proof -
  have "grows {} 1 k ((wait_tick k)\<lparr>pt_open := pt_open k + 1\<rparr>)" by (simp add: grows_def evolves_def wait_tick_def)
  then show thesis using assms that holder_Some [of k "pt_now k" pid]
    by (auto simp: pidfdOpen_def Let_def wait_tick_def split: if_splits option.splits intro: quiet_tick [unfolded wait_tick_def])
qed

lemma send0:
  assumes "pidfdSend fd None k = (sent, k')"
  shows "quiet k k'" "sent \<Longrightarrow> fd \<in> set (pt_procs k (pt_now k))" "pt_now k' = Suc (pt_now k)"
  using assms quiet_tick by (auto simp: pidfdSend_def Let_def wait_tick_def split: if_splits)

lemma send_sig:
  assumes "pidfdSend fd (Some sg) k = (sent, k')"
  shows "grows {fd} 0 k k'"
  using assms quiet_grows [OF quiet_tick, of "{fd}" k]
  by (auto simp: pidfdSend_def Let_def grows_def evolves_def wait_tick_def split: if_splits)

lemma stat_found:
  assumes "ProcStat pid k = (Inr info, k')"
  obtains x where "holder k (pt_now k) pid = Some x" "in_PGID info = pt_pid k (pt_group k (pt_now k) x)"
    "in_StartTime info = pt_start k x"
  using assms by (auto simp: ProcStat_def Let_def split: option.splits)

lemma stat_time: "ProcStat pid k = (res, k') \<Longrightarrow> pt_now k' = Suc (pt_now k)"
  by (auto simp: ProcStat_def Let_def wait_tick_def)

section \<open>Pinned members\<close>

text \<open>Seen in group \<open>pgid\<close> at an instant between \<open>k\<close> and \<open>k'\<close>.\<close>

definition seen_in :: "ptable \<Rightarrow> ptable \<Rightarrow> int \<Rightarrow> nat \<Rightarrow> bool" where
  "seen_in k k' pgid x = (\<exists>t. pt_now k \<le> t \<and> t < pt_now k' \<and> x \<in> set (pt_procs k t) \<and> pt_pid k (pt_group k t x) = pgid)"

lemma seen_in_widen:
  assumes "seen_in k1 k2 pgid x" and "evolves k k1" and "evolves k2 k3"
  shows "seen_in k k3 pgid x"
proof -
  obtain t where "pt_now k1 \<le> t" "t < pt_now k2" "x \<in> set (pt_procs k1 t)" "pt_pid k1 (pt_group k1 t x) = pgid"
    using assms(1) unfolding seen_in_def by blast
  then show ?thesis unfolding seen_in_def
    using evolves_fields [OF assms(2)] evolves_fields(10) [OF assms(3)] by (intro exI [of _ t]) auto
qed

lemma try_pin_ok:
  assumes ok: "table_ok k" and pin: "try_pin pgid pid k = (res, k')"
  shows "grows {} (if res = None then 0 else 1) k k' \<and> (\<forall>p. res = Some p \<longrightarrow> pp_pid p = pid \<and> seen_in k k' pgid (pp_fd p))"
proof -
  obtain opn k1 where o: "pidfdOpen pid k = (opn, k1)" by (rule prod.exhaust)
  from o show ?thesis
  proof (cases rule: open_cases)
    case failed
    with pin o show ?thesis by (auto simp: try_pin_def quiet_grows)
  next
    case (opened x)
    obtain st k2 where s: "ProcStat pid k1 = (st, k2)" by (rule prod.exhaust)
    have g2: "grows {} 1 k k2" using opened(4) quiet_ProcStat [OF s] by (rule grows_then_quiet)
    show ?thesis
    proof (cases st)
      case (Inl e)
      with pin o opened s grows_then_close [OF g2] show ?thesis by (auto simp: try_pin_def)
    next
      case (Inr info)
      obtain live k3 where l: "recoveryLive pid (in_State info) k2 = (live, k3)" by (rule prod.exhaust)
      have g3: "grows {} 1 k k3" using g2 quiet_live [OF l] by (rule grows_then_quiet)
      obtain sent k4 where w: "pidfdSend x None k3 = (sent, k4)" by (rule prod.exhaust)
      have g4: "grows {} 1 k k4" using g3 send0(1) [OF w] by (rule grows_then_quiet)
      have seen: "seen_in k k4 pgid x" if "sent" "in_PGID info = pgid"
      proof -
        have e: "evolves k k1" "evolves k k2" "evolves k k3" using opened(4) g2 g3 by (auto dest: grows_evolves)
        obtain y where y: "holder k (pt_now k1) pid = Some y" "in_PGID info = pt_pid k (pt_group k (pt_now k1) y)"
          using stat_found [OF s [unfolded Inr]] evolves_fields [OF e(1)] by metis
        have times: "pt_now k < pt_now k1" "pt_now k1 < pt_now k2" "pt_now k2 \<le> pt_now k3" "pt_now k4 = Suc (pt_now k3)"
          using opened(5) stat_time [OF s] evolves_fields(10) [OF quiet_evolves [OF quiet_live [OF l]]] send0(3) [OF w] by auto
        have end_in: "x \<in> set (pt_procs k (pt_now k3))" using send0(2) [OF w that(1)] evolves_fields(1) [OF e(3)] by simp
        have x1: "x \<in> set (pt_procs k (pt_now k1))"
          by (rule stays [OF ok opened(2) end_in]) (use times in simp_all)
        have "y = x" by (rule holder_unique [OF ok x1 opened(3) y(1)])
        with x1 y(2) that(2) times show ?thesis unfolding seen_in_def by (intro exI [of _ "pt_now k1"]) auto
      qed
      show ?thesis
        using pin o opened s Inr l w seen g4 grows_then_close [OF g2] grows_then_close [OF g3] grows_then_close [OF g4]
        by (auto simp: try_pin_def split: if_splits)
    qed
  qed
qed

lemma pin_each_ok:
  "table_ok k \<Longrightarrow> pin_each pgid have pids k = (pins, k') \<Longrightarrow>
     grows {} (int (length pins)) k k' \<and> (\<forall>p \<in> set pins. seen_in k k' pgid (pp_fd p))"
proof (induction pids arbitrary: k pins k')
  case (Cons pid pids)
  show ?case
  proof (cases "pid = pt_self k \<or> pid \<in> pp_pid ` set have")
    case False
    obtain res k1 where t: "try_pin pgid pid k = (res, k1)" by (rule prod.exhaust)
    note one = try_pin_ok [OF Cons.prems(1) t]
    have ev: "evolves k k1" using one grows_evolves by blast
    have ok1: "table_ok k1" using evolves_ok [OF ev] Cons.prems(1) by simp
    obtain rest k2 where r: "pin_each pgid have pids k1 = (rest, k2)" by (rule prod.exhaust)
    note more = Cons.IH [OF ok1 r]
    have ev2: "evolves k1 k2" using more grows_evolves by blast
    have rest: "\<forall>p \<in> set rest. seen_in k k2 pgid (pp_fd p)" using more seen_in_widen [OF _ ev evolves_refl] by blast
    show ?thesis
    proof (cases res)
      case None
      with Cons.prems(2) False t r have "pins = rest" "k' = k2" by auto
      with one more None rest grows_trans [of "{}" 0 k k1] show ?thesis by fastforce
    next
      case (Some p)
      with Cons.prems(2) False t r have res: "pins = p # rest" "k' = k2" by auto
      have "seen_in k k2 pgid (pp_fd p)" using one Some seen_in_widen [OF _ evolves_refl ev2] by auto
      moreover have "grows {} (1 + int (length rest)) k k2" using one Some more grows_trans [of "{}" 1 k k1] by auto
      ultimately show ?thesis using res rest by simp
    qed
  qed (use Cons in simp)
qed simp

lemma pinMembers_ok:
  assumes "table_ok k" and "pinMembers pgid have k = (res, k')"
  shows "grows {} (case res of None \<Rightarrow> 0 | Some pins \<Rightarrow> int (length pins)) k k'
    \<and> (\<forall>pins. res = Some pins \<longrightarrow> (\<forall>p \<in> set pins. seen_in k k' pgid (pp_fd p)))"
proof -
  obtain ms k1 where m: "recoveryMemberPIDs pgid k = (ms, k1)" by (rule prod.exhaust)
  note q = quiet_members [OF m]
  have ok1: "table_ok k1" using evolves_ok [OF quiet_evolves [OF q]] assms(1) by simp
  show ?thesis
  proof (cases ms)
    case None
    with assms(2) m q show ?thesis by (auto simp: pinMembers_def quiet_grows)
  next
    case (Some pids)
    obtain pins k2 where p: "pin_each pgid have pids k1 = (pins, k2)" by (rule prod.exhaust)
    note one = pin_each_ok [OF ok1 p]
    have res: "res = Some pins" "k' = k2" using assms(2) m Some p by (auto simp: pinMembers_def)
    have "grows {} (int (length pins)) k k2" using quiet_then_grows [OF q] one by blast
    with res one show ?thesis using seen_in_widen [OF _ quiet_evolves [OF q] evolves_refl] by auto
  qed
qed

section \<open>The recorded group\<close>

text \<open>
  A process of the recorded group: at some instant it was in the group of a leader that had the recorded
  pid and start time and was not reaped.
\<close>

definition recorded_member :: "ptable \<Rightarrow> int \<Rightarrow> int \<Rightarrow> nat \<Rightarrow> bool" where
  "recorded_member k pgid start x =
     (\<exists>t. \<exists>L \<in> set (pt_procs k t). pt_pid k L = pgid \<and> pt_start k L = start \<and> x \<in> set (pt_procs k t) \<and> pt_group k t x = L)"

lemma seen_member:
  assumes "table_ok k0" and "evolves k0 k" and "seen_in k k' (pt_pid k0 L) x" and "pt_start k0 L = start"
    and "L \<in> set (pt_procs k0 ta)" and "ta \<le> pt_now k" and "L \<in> set (pt_procs k0 (pt_now k'))"
  shows "recorded_member k0 (pt_pid k0 L) start x"
proof -
  obtain t where t: "pt_now k \<le> t" "t < pt_now k'" "x \<in> set (pt_procs k0 t)" "pt_pid k0 (pt_group k0 t x) = pt_pid k0 L"
    using assms(3) evolves_fields [OF assms(2)] unfolding seen_in_def by auto
  have L: "L \<in> set (pt_procs k0 t)" by (rule stays [OF assms(1,5,7)]) (use t assms(6) in simp_all)
  from group_named [OF assms(1) t(3) L t(4)] L t(3) assms(4) show ?thesis unfolding recorded_member_def by blast
qed

text \<open>
  What an empty verdict rests on: at an instant no process was in the recorded group, or two complete
  walks of procfs, one after the other, found no live member.
\<close>

definition gone_between :: "ptable \<Rightarrow> ptable \<Rightarrow> int \<Rightarrow> int \<Rightarrow> bool" where
  "gone_between k k' pgid start =
     (\<exists>t. pt_now k \<le> t \<and> t < pt_now k' \<and>
        (\<forall>x \<in> set (pt_procs k t). \<forall>L. pt_pid k L = pgid \<and> pt_start k L = start \<longrightarrow> pt_group k t x \<noteq> L))"

definition walked_twice :: "ptable \<Rightarrow> ptable \<Rightarrow> int \<Rightarrow> bool" where
  "walked_twice k k' pgid =
     (\<exists>ka kb. evolves k ka \<and> evolves ka kb \<and> pt_now ka < pt_now kb \<and> evolves kb k'
        \<and> fst (recoveryMemberPIDs pgid ka) = Some [] \<and> fst (recoveryMemberPIDs pgid kb) = Some [])"

definition evid :: "ptable \<Rightarrow> ptable \<Rightarrow> int \<Rightarrow> int \<Rightarrow> bool" where
  "evid k k' pgid start = (gone_between k k' pgid start \<or> walked_twice k k' pgid)"

lemma evid_widen:
  assumes "evid k1 k2 pgid start" and "evolves k k1" and "evolves k2 k3"
  shows "evid k k3 pgid start"
proof -
  have "gone_between k1 k2 pgid start \<Longrightarrow> gone_between k k3 pgid start"
    unfolding gone_between_def evolves_fields(1,2,3,4) [OF assms(2)]
    using evolves_fields(10) [OF assms(2)] evolves_fields(10) [OF assms(3)] by (meson le_trans less_le_trans)
  moreover have "walked_twice k1 k2 pgid \<Longrightarrow> walked_twice k k3 pgid"
    unfolding walked_twice_def using evolves_trans [OF assms(2)] evolves_trans [OF _ assms(3)] by blast
  ultimately show ?thesis using assms(1) unfolding evid_def by blast
qed

lemma evid_groupKill:
  assumes "groupKill pgid k = (ProbeESRCH, k')"
  shows "evid k k' pgid start"
proof -
  have "filter (\<lambda>x. pt_pid k (pt_group k (pt_now k) x) = pgid) (pt_procs k (pt_now k)) = []" "pt_now k' = Suc (pt_now k)"
    using assms by (auto simp: groupKill_def Let_def wait_tick_def split: if_splits)
  then have "gone_between k k' pgid start"
    unfolding gone_between_def by (intro exI [of _ "pt_now k"]) (auto simp: filter_empty_conv)
  then show ?thesis by (simp add: evid_def)
qed

lemma quiet_scans: "scans n pgid hidden k = (v, k') \<Longrightarrow> quiet k k'"
proof (induction n arbitrary: k)
  case (Suc n)
  obtain ms k1 where m: "recoveryMemberPIDs pgid k = (ms, k1)" by (rule prod.exhaust)
  note q = quiet_members [OF m]
  note qt = quiet_trans [OF q quiet_tick]
  show ?case using Suc.prems m q qt quiet_trans [OF q] quiet_trans [OF qt] Suc.IH
    by (auto split: option.splits if_splits)
qed simp

lemma scans_twice:
  assumes "scans 2 pgid hidden k = (None, k')"
  shows "evid k k' pgid start"
proof -
  obtain ms k1 where m: "recoveryMemberPIDs pgid k = (ms, k1)" by (rule prod.exhaust)
  obtain ms' k2 where m': "recoveryMemberPIDs pgid (wait_tick k1) = (ms', k2)" by (rule prod.exhaust)
  have two: "scans (Suc (Suc 0)) pgid hidden k = (None, k')" using assms by (simp add: numeral_2_eq_2)
  then have r: "ms = Some []" "ms' = Some []" "k' = k2"
    using m m' by (auto split: option.splits if_splits)
  have e: "evolves k k1" "evolves (wait_tick k1) k2" "evolves k1 (wait_tick k1)"
    using quiet_evolves [OF quiet_members [OF m]] quiet_evolves [OF quiet_members [OF m']] quiet_evolves [OF quiet_tick] by auto
  have "evolves k (wait_tick k1)" using e evolves_trans by blast
  moreover have "pt_now k < pt_now (wait_tick k1)" using evolves_fields(10) [OF e(1)] by (simp add: wait_tick_def)
  ultimately have "walked_twice k k' pgid" using e r m m' unfolding walked_twice_def
    by (intro exI [of _ k] exI [of _ "wait_tick k1"]) auto
  then show ?thesis by (simp add: evid_def)
qed

lemma proven_empty:
  assumes "groupProvenEmpty pgid k = ((gone, members, known), k')"
  shows "quiet k k'" "gone \<Longrightarrow> evid k k' pgid start"
proof -
  obtain probe k1 where p: "groupKill pgid k = (probe, k1)" by (rule prod.exhaust)
  obtain v k2 where s: "scans 2 pgid (probe = ProbeEPERM) k1 = (v, k2)" by (rule prod.exhaust)
  obtain n k3 where h: "recoveryGroupHolders pgid k2 = (n, k3)" by (rule prod.exhaust)
  note q = quiet_groupKill [OF p] quiet_scans [OF s] quiet_holders [OF h]
  have q2: "quiet k k2" "quiet k k3" "quiet k1 k3" using q quiet_trans by blast+
  show "quiet k k'"
    using assms p s h q q2 by (auto simp: groupProvenEmpty_def split: if_splits option.splits)
  have sc: "v = None \<Longrightarrow> evid k k2 pgid start" "v = None \<Longrightarrow> evid k k3 pgid start"
    using scans_twice [of pgid "probe = ProbeEPERM" k1 k2 start] s quiet_evolves [OF q(3)]
      evid_widen [OF _ quiet_evolves [OF q(1)], of k2 pgid start] by auto
  have not: "v = Some (g, ms, kn) \<Longrightarrow> \<not> g" for g ms kn
  proof -
    have "scans m pgid hid k = (Some (g, ms, kn), k') \<Longrightarrow> \<not> g" for m hid k k'
      by (induction m arbitrary: k) (auto split: option.splits prod.splits if_splits)
    then show "v = Some (g, ms, kn) \<Longrightarrow> \<not> g" using s by blast
  qed
  show "gone \<Longrightarrow> evid k k' pgid start"
    using assms p s h sc not evid_groupKill [of pgid k k1]
    by (auto simp: groupProvenEmpty_def split: if_splits option.splits)
qed

lemma identity_cases:
  assumes "leaderIdentity r k = (reason, k')"
  shows "quiet k k'" "pt_now k' = Suc (pt_now k)"
    "reason = [] \<Longrightarrow> \<exists>y. holder k (pt_now k) (gr_PGID r) = Some y \<and> pt_start k y = rg_LeaderStart r"
    "table_ok k \<Longrightarrow> reason = ''pgid_reused'' \<Longrightarrow> evid k k' (gr_PGID r) (rg_LeaderStart r)"
proof -
  obtain st k1 where s: "ProcStat (gr_PGID r) k = (st, k1)" by (rule prod.exhaust)
  have k1: "k' = k1" using assms s by (auto simp: leaderIdentity_def split: sum.splits stat_error.splits)
  show "quiet k k'" "pt_now k' = Suc (pt_now k)" using k1 quiet_ProcStat [OF s] stat_time [OF s] by auto
  show "reason = [] \<Longrightarrow> \<exists>y. holder k (pt_now k) (gr_PGID r) = Some y \<and> pt_start k y = rg_LeaderStart r"
    using assms s by (auto simp: leaderIdentity_def split: sum.splits stat_error.splits if_splits elim: stat_found)
  assume ok: "table_ok k" and "reason = ''pgid_reused''"
  then obtain y where y: "holder k (pt_now k) (gr_PGID r) = Some y" "pt_start k y \<noteq> rg_LeaderStart r"
    using assms s by (auto simp: leaderIdentity_def split: sum.splits stat_error.splits if_splits elim: stat_found)
  have "pt_group k (pt_now k) x \<noteq> L"
    if "x \<in> set (pt_procs k (pt_now k))" "pt_pid k L = gr_PGID r" "pt_start k L = rg_LeaderStart r" for x L
    using group_named [OF ok that(1), of y] holder_Some [OF y(1)] y(2) that by auto
  then have "gone_between k k' (gr_PGID r) (rg_LeaderStart r)"
    unfolding gone_between_def using k1 stat_time [OF s] by (intro exI [of _ "pt_now k"]) auto
  then show "evid k k' (gr_PGID r) (rg_LeaderStart r)" by (simp add: evid_def)
qed

section \<open>The contract of a pass\<close>

definition rec_key :: "('a) RecoveredGroup_scheme \<Rightarrow> string \<times> int \<times> int" where
  "rec_key r = (gr_Name r, gr_PGID r, rg_LeaderStart r)"

text \<open>The pidfds a recovery holds.\<close>

definition held :: "recovery \<Rightarrow> int" where
  "held r = (if rc_leader r = None then 0 else 1) + int (length (rc_pins r))"

definition rec_ok :: "ptable \<Rightarrow> recovery \<Rightarrow> bool" where
  "rec_ok k r = ((\<forall>L. rc_leader r = Some L \<longrightarrow> pt_pid k L = gr_PGID r \<and> pt_start k L = rg_LeaderStart r)
     \<and> (\<forall>p \<in> set (rc_pins r). recorded_member k (gr_PGID r) (rg_LeaderStart r) (pp_fd p)))"

definition settled :: "recovery \<Rightarrow> bool" where
  "settled r = (rg_Outcome r \<in> {OutcomeEmpty, OutcomeTerminated} \<or> rc_emptied r)"

definition evident :: "ptable \<Rightarrow> ptable \<Rightarrow> recovery \<Rightarrow> bool" where
  "evident k0 k r = (settled r \<longrightarrow> evid k0 k (gr_PGID r) (rg_LeaderStart r))"

definition members_of :: "ptable \<Rightarrow> recovery \<Rightarrow> nat set" where
  "members_of k r = {x. recorded_member k (gr_PGID r) (rg_LeaderStart r) x}"

definition keeps :: "ptable \<Rightarrow> nat set \<Rightarrow> recovery \<Rightarrow> ptable \<Rightarrow> recovery \<Rightarrow> ptable \<Rightarrow> bool" where
  "keeps k0 S r k r' k' = (rec_ok k0 r' \<and> rec_key r' = rec_key r \<and> grows S (held r' - held r) k k'
     \<and> (evident k0 k r \<longrightarrow> evident k0 k' r'))"

lemma keeps_trans:
  assumes "keeps k0 S r k r1 k1" and "keeps k0 S r1 k1 r2 k2"
  shows "keeps k0 S r k r2 k2"
  using assms grows_trans [of S "held r1 - held r" k k1 "held r2 - held r1" k2] by (auto simp: keeps_def)

lemma evident_later:
  assumes "evident k0 k r" and "evolves k k'" and "settled r' \<Longrightarrow> settled r" and "rec_key r' = rec_key r"
  shows "evident k0 k' r'"
  using assms evid_widen [OF _ evolves_refl assms(2)] by (auto simp: evident_def rec_key_def)

text \<open>A step that touches neither pidfds nor pins, and calls nothing empty that was not.\<close>

lemma keeps_plain:
  assumes "rec_ok k0 r" and "quiet k k'" and "rec_key r' = rec_key r" and "rc_leader r' = rc_leader r"
    and "rc_pins r' = rc_pins r" and "settled r' \<Longrightarrow> settled r"
  shows "keeps k0 S r k r' k'"
  using assms evident_later [OF _ quiet_evolves [OF assms(2)] assms(6,3)] quiet_grows [OF assms(2)]
  by (auto simp: keeps_def rec_ok_def rec_key_def held_def)

lemma keeps_evident:
  assumes "rec_ok k0 r" and "quiet k k'" and "rec_key r' = rec_key r" and "rc_leader r' = rc_leader r"
    and "rc_pins r' = rc_pins r" and "evid k0 k' (gr_PGID r) (rg_LeaderStart r)"
  shows "keeps k0 S r k r' k'"
  using assms quiet_grows [OF assms(2)] by (auto simp: keeps_def rec_ok_def rec_key_def held_def evident_def)

lemma finish_simps [simp]:
  "rec_key (finish oc re r) = rec_key r" "rc_leader (finish oc re r) = rc_leader r" "rc_pins (finish oc re r) = rc_pins r"
  "settled (finish oc re r) \<longleftrightarrow> oc \<in> {OutcomeEmpty, OutcomeTerminated} \<or> rc_emptied r"
  by (simp_all add: finish_def rec_key_def settled_def)

lemma update_simps [simp]:
  "rec_key (r\<lparr>rg_PIDs := ps\<rparr>) = rec_key r" "rec_key (r\<lparr>rg_LiveMembers := n\<rparr>) = rec_key r"
  "rec_key (r\<lparr>rc_leader := l\<rparr>) = rec_key r" "rec_key (r\<lparr>rc_pins := pins\<rparr>) = rec_key r"
  "rec_key (r\<lparr>rc_emptied := b\<rparr>) = rec_key r" "rec_key (r\<lparr>rg_Signals := ss\<rparr>) = rec_key r"
  "rec_key (r\<lparr>rc_proven := b\<rparr>) = rec_key r" "rec_key (r\<lparr>rg_Reason := m\<rparr>) = rec_key r"
  "settled (r\<lparr>rg_PIDs := ps\<rparr>) = settled r" "settled (r\<lparr>rg_LiveMembers := n\<rparr>) = settled r"
  "settled (r\<lparr>rc_leader := l\<rparr>) = settled r" "settled (r\<lparr>rc_pins := pins\<rparr>) = settled r"
  "settled (r\<lparr>rg_Signals := ss\<rparr>) = settled r" "settled (r\<lparr>rc_proven := b\<rparr>) = settled r"
  "settled (r\<lparr>rg_Reason := m\<rparr>) = settled r"
  by (simp_all add: rec_key_def settled_def)

lemma emptied_settled: "rc_emptied r \<Longrightarrow> settled r"
  by (simp add: settled_def)

lemma keeps_release:
  assumes "release r k = (r', k')"
  shows "keeps k0 S r k r' k' \<and> held r' = 0"
proof -
  let ?k1 = "case rc_leader r of None \<Rightarrow> k | Some _ \<Rightarrow> closeFd k"
  have r': "r' = r\<lparr>rc_leader := None, rc_pins := []\<rparr>" "k' = closePins (rc_pins r) ?k1" using assms by (auto simp: release_def)
  have "grows S (- (if rc_leader r = None then 0 else 1)) k ?k1" by (cases "rc_leader r") (simp_all add: grows_close)
  from grows_trans [OF this grows_closePins] have g: "grows S (- held r) k k'" by (simp add: r' held_def)
  have "evident k0 k r \<Longrightarrow> evident k0 k' r'"
    by (rule evident_later [OF _ grows_evolves [OF g]]) (simp_all add: r')
  with g show ?thesis by (simp add: keeps_def rec_ok_def r' held_def)
qed

lemma keeps_finishUnproven:
  assumes "evolves k0 k" and "finishUnproven reason r k = (r', k')"
    and "reason = ''pgid_reused'' \<Longrightarrow> evid k0 k (gr_PGID r) (rg_LeaderStart r)"
  shows "keeps k0 S r k r' k'"
proof -
  obtain r1 k1 where rel: "release r k = (r1, k1)" by (rule prod.exhaust)
  have kr: "keeps k0 S r k r1 k1" using keeps_release [OF rel] by blast
  have ev: "evolves k k1" and ok1: "rec_ok k0 r1" and key: "rec_key r1 = rec_key r"
    using kr grows_evolves by (auto simp: keeps_def)
  have key': "gr_PGID r1 = gr_PGID r" "rg_LeaderStart r1 = rg_LeaderStart r" using key by (simp_all add: rec_key_def)
  have "keeps k0 S r1 k1 r' k'"
  proof (cases "reason = ''pgid_reused''")
    case True
    then have "evid k0 k1 (gr_PGID r1) (rg_LeaderStart r1)" unfolding key' by (intro evid_widen [OF assms(3) evolves_refl ev])
    with True assms(2) rel show ?thesis by (auto simp: finishUnproven_def intro!: keeps_evident [OF ok1])
  next
    case False
    obtain gone ms known k2 where p: "groupProvenEmpty (gr_PGID r) k1 = ((gone, ms, known), k2)" by (metis prod.exhaust)
    note q = proven_empty(1) [OF p]
    have e0: "evolves k0 k1" using assms(1) ev by (rule evolves_trans)
    have e: "gone \<Longrightarrow> evid k0 k2 (gr_PGID r1) (rg_LeaderStart r1)"
      using evid_widen [OF proven_empty(2) [OF p] e0 evolves_refl] by (simp add: key')
    have k': "k' = k2" using assms(2) rel False p by (auto simp: finishUnproven_def)
    have r': "r' = (if gone then finish OutcomeEmpty ''no_members'' (r1\<lparr>rg_PIDs := [], rg_LiveMembers := 0\<rparr>)
        else if \<not> known then finish OutcomeUnknown ''enumeration_failed'' r1
        else finish OutcomeUnknown reason (r1\<lparr>rg_PIDs := ms, rg_LiveMembers := length ms\<rparr>))"
      using assms(2) rel False p by (simp add: finishUnproven_def)
    show ?thesis unfolding k'
    proof (cases gone)
      case True
      then show "keeps k0 S r1 k1 r' k2" by (intro keeps_evident [OF ok1 q _ _ _ e]) (simp_all add: r')
    next
      case False
      then show "keeps k0 S r1 k1 r' k2" by (intro keeps_plain [OF ok1 q]) (auto simp: r' emptied_settled split: if_splits)
    qed
  qed
  with kr show ?thesis by (rule keeps_trans)
qed

text \<open>The leader whose pidfd was opened is the recorded one once its identity was read and it is still there.\<close>

lemma leader_proven:
  assumes "table_ok k0" and "evolves k0 k" and "lfd \<in> set (pt_procs k0 ta)" and "pt_pid k0 lfd = gr_PGID r" and "ta \<le> pt_now k"
    and "leaderIdentity r k = ([], k1)" and "pidfdSend lfd None k1 = (True, k2)"
  shows "pt_start k0 lfd = rg_LeaderStart r" "lfd \<in> set (pt_procs k0 (pt_now k1))"
proof -
  note i = identity_cases [OF assms(6)]
  have e1: "evolves k0 k1" using assms(2) quiet_evolves [OF i(1)] by (rule evolves_trans)
  obtain y where y: "holder k0 (pt_now k) (gr_PGID r) = Some y" "pt_start k0 y = rg_LeaderStart r"
    using i(3) evolves_fields [OF assms(2)] by auto
  show in1: "lfd \<in> set (pt_procs k0 (pt_now k1))" using send0(2) [OF assms(7)] evolves_fields(1) [OF e1] by simp
  have "lfd \<in> set (pt_procs k0 (pt_now k))" by (rule stays [OF assms(1,3) in1 assms(5)]) (use i(2) in simp)
  from holder_unique [OF assms(1) this assms(4) y(1)] y(2) show "pt_start k0 lfd = rg_LeaderStart r" by simp
qed

text \<open>Members pinned between two moments at which the recorded leader was not reaped are in its group.\<close>

lemma pins_recorded:
  assumes "table_ok k0" and "evolves k0 k" and "pt_pid k0 lfd = pgid" and "pt_start k0 lfd = start"
    and "lfd \<in> set (pt_procs k0 ta)" and "ta \<le> pt_now k" and "pinMembers pgid have k = (Some pins, k1)"
    and "pidfdSend lfd None k1 = (True, k2)"
  shows "\<forall>p \<in> set pins. recorded_member k0 pgid start (pp_fd p)"
proof
  fix p
  assume "p \<in> set pins"
  have ok: "table_ok k" using evolves_ok [OF assms(2)] assms(1) by simp
  note m = pinMembers_ok [OF ok assms(7)]
  have e1: "evolves k0 k1" using assms(2) grows_evolves m evolves_trans by blast
  have "lfd \<in> set (pt_procs k0 (pt_now k1))" using send0(2) [OF assms(8)] evolves_fields(1) [OF e1] by simp
  with seen_member [OF assms(1,2) _ assms(4,5,6)] m \<open>p \<in> set pins\<close> assms(3)
  show "recorded_member k0 pgid start (pp_fd p)" by blast
qed

lemma keeps_from:
  assumes "keeps k0 S r1 k1 r' k'" and "grows S (held r1 - held r) k k1" and "rec_key r1 = rec_key r" and "settled r1 \<Longrightarrow> settled r"
  shows "keeps k0 S r k r' k'"
  using assms grows_trans [OF assms(2), of "held r' - held r1" k'] evident_later [OF _ grows_evolves [OF assms(2)] assms(4,3)]
  by (auto simp: keeps_def)

lemma keeps_pin_group:
  assumes ok: "table_ok k0" and ev: "evolves k0 k" and r: "rec_ok k0 r" "rc_leader r = Some lfd" "rc_pins r = []"
    and there: "lfd \<in> set (pt_procs k0 ta)" "ta \<le> pt_now k" and pin: "pin_group lfd r k = (r', k')"
  shows "keeps k0 {} r k r' k'"
proof -
  have L: "pt_pid k0 lfd = gr_PGID r" "pt_start k0 lfd = rg_LeaderStart r" using r by (simp_all add: rec_ok_def)
  obtain pins k1 where p: "pinMembers (gr_PGID r) [] k = (pins, k1)" by (rule prod.exhaust)
  note pm = pinMembers_ok [OF _ p, unfolded evolves_ok [OF ev], OF ok]
  show ?thesis
  proof (cases pins)
    case None
    have "r' = finish OutcomeUnknown ''enumeration_failed'' r" "k' = k1" using pin p None by (auto simp: pin_group_def)
    moreover have "quiet k k1" using pm None by (simp add: grows_def quiet_def)
    ultimately show ?thesis by (intro keeps_plain [OF r(1)]) (auto simp: emptied_settled)
  next
    case (Some ps)
    obtain sent k2 where s: "pidfdSend lfd None k1 = (sent, k2)" by (rule prod.exhaust)
    have g2: "grows {} (int (length ps)) k k2" using pm Some grows_then_quiet send0(1) [OF s] by fastforce
    show ?thesis
    proof (cases sent)
      case False
      with pin p Some s have f: "finishUnproven ''leader_gone'' r (closePins ps k2) = (r', k')" by (auto simp: pin_group_def)
      have gc: "grows {} 0 k (closePins ps k2)" using grows_trans [OF g2 grows_closePins, of ps] by simp
      have "evolves k0 (closePins ps k2)" using ev grows_evolves [OF gc] by (rule evolves_trans)
      from keeps_finishUnproven [OF this f] gc show ?thesis by (intro keeps_from [where r = r]) simp_all
    next
      case True
      have "\<forall>q \<in> set ps. recorded_member k0 (gr_PGID r) (rg_LeaderStart r) (pp_fd q)"
        by (rule pins_recorded [OF ok ev L there p [unfolded Some] s [unfolded eqTrueI [OF True]]])
      moreover have "r' = r\<lparr>rc_pins := ps, rc_proven := True, rg_Reason := ''leader_proven'', rg_PIDs := [], rg_LiveMembers := 0\<rparr>"
        "k' = k2" using pin p Some s True by (auto simp: pin_group_def)
      ultimately show ?thesis using g2 r evident_later [OF _ grows_evolves [OF g2], of k0 r r']
        by (auto simp: keeps_def rec_ok_def held_def)
    qed
  qed
qed

lemma keeps_pin_leader:
  assumes ok: "table_ok k0" and ev: "evolves k0 k" and r: "rec_ok k0 r" "rc_leader r = None" "rc_pins r = []"
    and pin: "pin_leader r k = (r', k')"
  shows "keeps k0 {} r k r' k'"
proof -
  obtain opn k1 where o: "pidfdOpen (gr_PGID r) k = (opn, k1)" by (rule prod.exhaust)
  from o show ?thesis
  proof (cases rule: open_cases)
    case (failed e)
    have e1: "evolves k0 k1" using ev quiet_evolves [OF failed(2)] by (rule evolves_trans)
    have p: "keeps k0 {} r k r k1" by (rule keeps_plain [OF r(1) failed(2)]) simp_all
    have f: "keeps k0 {} r k r' k'" if "finishUnproven ''leader_gone'' r k1 = (r', k')"
      by (rule keeps_trans [OF p keeps_finishUnproven [OF e1 that]]) simp
    show ?thesis using pin o failed r(1) f
      by (cases e) (auto simp: pin_leader_def emptied_settled intro!: keeps_plain)
  next
    case (opened lfd)
    let ?r1 = "r\<lparr>rc_leader := Some lfd\<rparr>"
    have e1: "evolves k0 k1" using ev grows_evolves [OF opened(4)] by (rule evolves_trans)
    have pid: "pt_pid k0 lfd = gr_PGID ?r1" and there: "lfd \<in> set (pt_procs k0 (pt_now k))"
      using opened(2,3) evolves_fields [OF ev] by auto
    obtain reason k2 where i: "leaderIdentity ?r1 k1 = (reason, k2)" by (rule prod.exhaust)
    note q2 = identity_cases [OF i]
    obtain sent k3 where s: "pidfdSend lfd None k2 = (sent, k3)" by (rule prod.exhaust)
    have g: "grows {} 1 k k2" "grows {} 1 k k3"
      using grows_then_quiet [OF opened(4) q2(1)] grows_then_quiet [OF _ send0(1) [OF s]] by blast+
    have e: "evolves k0 k2" "evolves k0 k3" using ev g grows_evolves evolves_trans by blast+
    have from1: "keeps k0 {} r k r' k'" if "keeps k0 {} ?r1 ku r' k'" and "grows {} 1 k ku" for ku
      by (rule keeps_from [OF that(1)]) (use that(2) r in \<open>simp_all add: held_def\<close>)
    have reused: "reason = ''pgid_reused'' \<Longrightarrow> evid k0 k2 (gr_PGID ?r1) (rg_LeaderStart ?r1)"
      using evid_widen [OF q2(4) e1 evolves_refl] evolves_ok [OF e1] ok by simp
    show ?thesis
    proof (cases "reason = [] \<and> sent")
      case False
      with pin o opened i s have "if reason \<noteq> [] then finishUnproven reason ?r1 k2 = (r', k')
          else finishUnproven ''leader_gone'' ?r1 k3 = (r', k')"
        by (auto simp: pin_leader_def Let_def)
      then show ?thesis
        using from1 [OF keeps_finishUnproven [OF e(1) _ reused] g(1)] from1 [OF keeps_finishUnproven [OF e(2)] g(2)]
        by (auto split: if_splits)
    next
      case True
      have start: "pt_start k0 lfd = rg_LeaderStart r" and in2: "lfd \<in> set (pt_procs k0 (pt_now k2))"
        using leader_proven [OF ok e1 there pid _ i [unfolded conjunct1 [OF True]] s [unfolded eqTrueI [OF conjunct2 [OF True]]]]
          opened(5) by simp_all
      have ok1: "rec_ok k0 ?r1" using r pid start by (simp add: rec_ok_def)
      have t: "pin_group lfd ?r1 k3 = (r', k')" using pin o opened i s True by (auto simp: pin_leader_def Let_def)
      show ?thesis
        by (rule from1 [OF keeps_pin_group [OF ok e(2) ok1 _ _ in2 _ t] g(2)]) (use r(3) send0(3) [OF s] in simp_all)
    qed
  qed
qed

lemma keeps_classify:
  assumes ok: "table_ok k0" and ev: "evolves k0 k" and r: "rec_ok k0 r" "rc_leader r = None" "rc_pins r = []"
    and c: "classify mode r k = (r', k')"
  shows "keeps k0 {} r k r' k'"
proof -
  obtain gone ms known k1 where p: "groupProvenEmpty (gr_PGID r) k = ((gone, ms, known), k1)" by (metis prod.exhaust)
  let ?r1 = "r\<lparr>rg_PIDs := ms, rg_LiveMembers := length ms\<rparr>"
  obtain reason k2 where i: "leaderIdentity ?r1 k1 = (reason, k2)" by (rule prod.exhaust)
  note q = proven_empty(1) [OF p] and q2 = identity_cases [OF i]
  have e1: "evolves k0 k1" using ev quiet_evolves [OF q] by (rule evolves_trans)
  have e2: "evolves k0 k2" using e1 quiet_evolves [OF q2(1)] by (rule evolves_trans)
  have q12: "quiet k k2" using q q2(1) by (rule quiet_trans)
  have ok1: "rec_ok k0 ?r1" using r by (simp add: rec_ok_def)
  have p1: "keeps k0 {} r k ?r1 k2" by (rule keeps_plain [OF r(1) q12]) simp_all
  have unknown: "keeps k0 {} r k (finish OutcomeUnknown re r) k" "keeps k0 {} r k (finish OutcomeUnknown re r) k1"
    "keeps k0 {} r k (finish OutcomeUnknown re ?r1) k1" "keeps k0 {} r k (finish OutcomeUnknown re ?r1) k2"
    "keeps k0 {} r k (finish OutcomeLive re ?r1) k2" for re
    by (rule keeps_plain [OF r(1)]; use q q12 in \<open>auto simp: emptied_settled\<close>)+
  have empty: "keeps k0 {} r k (finish OutcomeEmpty ''no_members'' r) k1" if gone
    by (rule keeps_evident [OF r(1) q]) (use evid_widen [OF proven_empty(2) [OF p that] ev evolves_refl] in simp_all)
  have unproven: "keeps k0 {} r k r' k'" if "finishUnproven reason ?r1 k2 = (r', k')"
    by (rule keeps_trans [OF p1 keeps_finishUnproven [OF e2 that]])
      (use evid_widen [OF q2(4) e1 evolves_refl] evolves_ok [OF e1] ok in simp)
  have pinned: "keeps k0 {} r k r' k'" if "pin_leader ?r1 k2 = (r', k')"
    by (rule keeps_trans [OF p1 keeps_pin_leader [OF ok e2 ok1 _ _ that]]) (use r in simp_all)
  consider "gr_PGID r \<le> 1" | "1 < gr_PGID r" "gone \<or> \<not> known \<or> rg_LeaderStart r = 0"
    | "1 < gr_PGID r" "\<not> gone" "known" "rg_LeaderStart r \<noteq> 0" by fastforce
  then show ?thesis
  proof cases
    case 3
    then have "classify mode r k = (if reason \<noteq> [] then finishUnproven reason ?r1 k2
        else if gr_PGID r = pt_pgrp k then (finish OutcomeUnknown ''own_group'' ?r1, k2)
        else if mode = RecoverAssessOnly then (finish OutcomeLive ''leader_proven'' ?r1, k2) else pin_leader ?r1 k2)"
      using p i by (simp add: classify_def)
    with c unknown(4,5) unproven pinned show ?thesis by (metis prod.inject)
  qed (use c p unknown(1,2,3) empty in \<open>auto simp: classify_def Let_def split: if_splits\<close>)
qed

section \<open>Signals\<close>

lemma deliver_grows:
  "deliver sg ps pids d k = (pids', d', k') \<Longrightarrow> grows (pp_fd ` set ps) 0 k k'"
proof (induction ps arbitrary: pids d k)
  case (Cons p ps)
  obtain sent k1 where s: "pidfdSend (pp_fd p) (Some sg) k = (sent, k1)" by (rule prod.exhaust)
  have "grows (pp_fd ` set (p # ps)) 0 k k1" using grows_mono [OF send_sig [OF s]] by simp
  moreover have "grows (pp_fd ` set (p # ps)) 0 k1 k'" using Cons s by (auto intro: grows_mono)
  ultimately show ?case using grows_trans [of _ 0 k k1 0 k'] by simp
qed simp

lemma keeps_signal:
  assumes "rec_ok k0 r" and "recovery_signal sg r k = (r', k')"
  shows "keeps k0 (members_of k0 r) r k r' k'"
proof -
  obtain pids d k1 where dl: "deliver sg (rc_pins r) (rg_PIDs r) False k = (pids, d, k1)" by (rule prod_cases3)
  have "grows (members_of k0 r) 0 k k1"
    by (rule grows_mono [OF deliver_grows [OF dl]]) (use assms(1) in \<open>auto simp: rec_ok_def members_of_def\<close>)
  with assms dl evident_later [OF _ grows_evolves, of k0 k r "members_of k0 r" 0 k1 r'] show ?thesis
    by (auto simp: keeps_def recovery_signal_def rec_ok_def held_def)
qed

lemma keep_alive_grows:
  "keep_alive ps k = (alive, k') \<Longrightarrow> grows {} (int (length alive) - int (length ps)) k k' \<and> set alive \<subseteq> set ps"
proof (induction ps arbitrary: k alive k')
  case (Cons p ps)
  obtain sent k1 where s: "pidfdSend (pp_fd p) None k = (sent, k1)" by (rule prod.exhaust)
  obtain rest k2 where a: "keep_alive ps (if sent then k1 else closeFd k1) = (rest, k2)" by (rule prod.exhaust)
  note g = send0(1) [OF s]
  have first: "grows {} (if sent then 0 else - 1) k (if sent then k1 else closeFd k1)"
    using quiet_grows [OF g] quiet_then_grows [OF g grows_close] by simp
  have res: "alive = (if sent then p # rest else rest)" "k' = k2" using Cons.prems s a by auto
  show ?case using grows_trans [OF first conjunct1 [OF Cons.IH [OF a]]] Cons.IH [OF a] res by (auto simp: algebra_simps split: if_splits)
qed simp

lemma keeps_repin:
  assumes ok: "table_ok k0" and ev: "evolves k0 k" and r: "rec_ok k0 r" and rp: "repin r k = (r', k')"
  shows "keeps k0 {} r k r' k'"
proof -
  obtain alive k1 where a: "keep_alive (rc_pins r) k = (alive, k1)" by (rule prod.exhaust)
  let ?r1 = "r\<lparr>rc_pins := alive\<rparr>"
  note al = keep_alive_grows [OF a]
  have ok1: "rec_ok k0 ?r1" using r al by (auto simp: rec_ok_def)
  have e1: "evolves k0 k1" using ev al grows_evolves evolves_trans by blast
  have from1: "keeps k0 {} r k r' k'" if "keeps k0 {} ?r1 k1 r' k'"
    by (rule keeps_from [OF that]) (use al in \<open>simp_all add: held_def\<close>)
  have plain: "keeps k0 {} ?r1 k1 ?r1 ku" if "quiet k1 ku" for ku
    by (rule keeps_plain [OF ok1 that]) simp_all
  show ?thesis
  proof (cases "rc_leader r")
    case None
    with rp a from1 plain show ?thesis by (auto simp: repin_def Let_def)
  next
    case (Some lfd)
    have L: "pt_pid k0 lfd = gr_PGID r" "pt_start k0 lfd = rg_LeaderStart r" using r Some by (simp_all add: rec_ok_def)
    obtain sent k2 where s: "pidfdSend lfd None k1 = (sent, k2)" by (rule prod.exhaust)
    obtain reason k3 where i: "leaderIdentity ?r1 k2 = (reason, k3)" by (rule prod.exhaust)
    obtain new k4 where p: "pinMembers (gr_PGID r) alive k3 = (new, k4)" by (rule prod.exhaust)
    note q2 = send0(1) [OF s] and q3 = identity_cases [OF i]
    have q13: "quiet k1 k3" using q2 q3(1) by (rule quiet_trans)
    have e3: "evolves k0 k3" using e1 quiet_evolves [OF q13] by (rule evolves_trans)
    note pm = pinMembers_ok [OF _ p, unfolded evolves_ok [OF e3], OF ok]
    show ?thesis
    proof (cases "sent \<and> reason = [] \<and> new \<noteq> None")
      case False
      have "new = None \<Longrightarrow> quiet k1 k4" using quiet_trans [OF q13] pm by (auto simp: grows_def quiet_def)
      with False rp a Some s i p show ?thesis
        using from1 plain [OF q2] plain [OF q13] plain [of k4] by (auto simp: repin_def Let_def split: if_splits)
    next
      case True
      then obtain ps where ps: "new = Some ps" by blast
      obtain sent' k5 where s': "pidfdSend lfd None k4 = (sent', k5)" by (rule prod.exhaust)
      have g5: "grows {} (int (length ps)) k1 k5"
        using quiet_then_grows [OF q13 conjunct1 [OF pm]] grows_then_quiet [OF _ send0(1) [OF s']] ps by auto
      have there: "lfd \<in> set (pt_procs k0 (pt_now k1))" using send0(2) [OF s] True evolves_fields(1) [OF e1] by simp
      have mem: "sent' \<Longrightarrow> \<forall>q \<in> set ps. recorded_member k0 (gr_PGID r) (rg_LeaderStart r) (pp_fd q)"
        using pins_recorded [OF ok e3 L there evolves_fields(10) [OF quiet_evolves [OF q13]] p [unfolded ps]] s' by simp
      have r': "(r', k') = (if sent' then (?r1\<lparr>rc_pins := alive @ ps\<rparr>, k5) else (?r1, closePins ps k5))"
        using rp a Some s i p ps True s' by (auto simp: repin_def Let_def)
      have gc: "grows {} 0 k1 (closePins ps k5)" using grows_trans [OF g5 grows_closePins, of ps] by simp
      have "keeps k0 {} ?r1 k1 r' k'"
        using r' ok1 mem g5 gc evident_later [OF _ grows_evolves [OF g5], of k0 ?r1 r'] evident_later [OF _ grows_evolves [OF gc], of k0 ?r1 r']
        by (auto simp: keeps_def rec_ok_def held_def split: if_splits)
      then show ?thesis by (rule from1)
    qed
  qed
qed

lemma keeps_mono: "keeps k0 S r k r' k' \<Longrightarrow> S \<subseteq> T \<Longrightarrow> keeps k0 T r k r' k'"
  unfolding keeps_def using grows_mono by blast

lemma keeps_kill_one:
  assumes ok: "table_ok k0" and ev: "evolves k0 k" and r: "rec_ok k0 r" and kl: "kill_one r k = (r', k')"
  shows "keeps k0 (members_of k0 r) r k r' k'"
proof -
  obtain r1 k1 where p: "repin r k = (r1, k1)" by (rule prod.exhaust)
  note kr = keeps_repin [OF ok ev r p]
  have "members_of k0 r1 = members_of k0 r" using kr by (simp add: keeps_def members_of_def rec_key_def)
  with keeps_signal [of k0 r1 SIGKILL k1 r' k'] kr kl p have "keeps k0 (members_of k0 r) r1 k1 r' k'"
    by (simp add: kill_one_def keeps_def)
  with keeps_mono [OF kr] show ?thesis using keeps_trans by blast
qed

lemma keeps_probe:
  assumes ev: "evolves k0 k" and r: "rec_ok k0 r" "\<not> rc_emptied r" and pr: "probe_empty r k = (r', k')"
  shows "keeps k0 {} r k r' k'"
proof -
  obtain gone ms known k1 where p: "groupProvenEmpty (gr_PGID r) k = ((gone, ms, known), k1)" by (metis prod.exhaust)
  have r': "r' = r\<lparr>rc_emptied := gone\<rparr>" "k' = k1" using pr p by (auto simp: probe_empty_def)
  show ?thesis
  proof (cases gone)
    case True
    show ?thesis unfolding r' using evid_widen [OF proven_empty(2) [OF p True] ev evolves_refl]
      by (intro keeps_evident [OF r(1) proven_empty(1) [OF p]]) simp_all
  next
    case False
    then show ?thesis unfolding r' by (intro keeps_plain [OF r(1) proven_empty(1) [OF p]]) (simp_all add: settled_def)
  qed
qed

lemma keeps_conclude:
  assumes ev: "evolves k0 k" and r: "rec_ok k0 r" and c: "conclude r k = (r', k')"
  shows "keeps k0 {} r k r' k'"
proof -
  obtain gone ms known k1
    where p: "(if rc_emptied r then ((True, [], True), k) else groupProvenEmpty (gr_PGID r) k) = ((gone, ms, known), k1)"
    by (metis prod.exhaust)
  have q: "quiet k k1" using p proven_empty(1) [of "gr_PGID r" k gone ms known k1] by (auto split: if_splits)
  have key: "rec_key r' = rec_key r" "rc_leader r' = rc_leader r" "rc_pins r' = rc_pins r" "k' = k1"
    "\<not> gone \<Longrightarrow> \<not> settled r'"
    using c p by (auto simp: conclude_def Let_def split: if_splits)
  have e: "gone \<Longrightarrow> \<not> rc_emptied r \<Longrightarrow> evid k0 k1 (gr_PGID r) (rg_LeaderStart r)"
    using p evid_widen [OF proven_empty(2) ev evolves_refl, of "gr_PGID r" gone ms known k1] by auto
  show ?thesis
  proof (cases "gone \<and> \<not> rc_emptied r")
    case True
    with e key show ?thesis by (auto intro: keeps_evident [OF r q])
  next
    case False
    then have "settled r' \<Longrightarrow> settled r" using key(5) emptied_settled by blast
    with key show ?thesis by (auto intro: keeps_plain [OF r q])
  qed
qed

section \<open>Passes over all recorded groups\<close>

definition all_members :: "ptable \<Rightarrow> (string \<times> int \<times> int) list \<Rightarrow> nat set" where
  "all_members k keys = {x. \<exists>key \<in> set keys. recorded_member k (fst (snd key)) (snd (snd key)) x}"

definition run_ok :: "ptable \<Rightarrow> (string \<times> int \<times> int) list \<Rightarrow> recovery list \<Rightarrow> ptable \<Rightarrow> bool" where
  "run_ok k0 keys rs k = (evolves k0 k \<and> map rec_key rs = keys \<and> (\<forall>r \<in> set rs. rec_ok k0 r \<and> evident k0 k r))"

definition held_total :: "recovery list \<Rightarrow> int" where
  "held_total rs = sum_list (map held rs)"

text \<open>
  An operation on one recovery, used where \<open>guard\<close> holds; \<open>loud\<close> if it may signal the members of its group.
\<close>

locale recovery_pass =
  fixes loud :: bool and guard :: "recovery \<Rightarrow> bool" and f :: "recovery \<Rightarrow> ptable \<Rightarrow> recovery \<times> ptable"
  assumes pass: "table_ok k0 \<Longrightarrow> evolves k0 k \<Longrightarrow> rec_ok k0 r \<Longrightarrow> guard r \<Longrightarrow> f r k = (r', k') \<Longrightarrow>
    keeps k0 (if loud then members_of k0 r else {}) r k r' k'"
begin

lemma one:
  assumes "table_ok k0" and "evolves k0 k" and "rec_ok k0 r" and "evident k0 k r" and "sel r \<Longrightarrow> guard r"
    and "(if sel r then f r k else (r, k)) = (r', k')"
  shows "rec_ok k0 r' \<and> rec_key r' = rec_key r \<and> evident k0 k' r' \<and> evolves k k'
    \<and> grows (if loud then members_of k0 r else {}) (held r' - held r) k k'"
proof (cases "sel r")
  case True
  with pass [OF assms(1-3)] assms(4-6) show ?thesis by (auto simp: keeps_def dest: grows_evolves)
qed (use assms in auto)

lemma all:
  assumes "table_ok k0"
  shows "run_ok k0 keys rs k \<Longrightarrow> (\<And>r. r \<in> set rs \<Longrightarrow> sel r \<Longrightarrow> guard r) \<Longrightarrow> each sel f rs k = (rs', k') \<Longrightarrow>
    run_ok k0 keys rs' k' \<and> grows (if loud then all_members k0 keys else {}) (held_total rs' - held_total rs) k k'"
proof (induction rs arbitrary: keys k rs' k')
  case Nil
  then show ?case by (simp add: held_total_def)
next
  case (Cons r rs)
  obtain r1 k1 where o: "(if sel r then f r k else (r, k)) = (r1, k1)" by (rule prod.exhaust)
  obtain rs1 k2 where e: "each sel f rs k1 = (rs1, k2)" by (rule prod.exhaust)
  have res: "rs' = r1 # rs1" "k' = k2" using Cons.prems(3) o e by auto
  have keys: "keys = rec_key r # map rec_key rs" and ev: "evolves k0 k" and r: "rec_ok k0 r" "evident k0 k r"
    using Cons.prems(1) by (auto simp: run_ok_def)
  have "sel r \<Longrightarrow> guard r" using Cons.prems(2) by simp
  note one = one [where sel = sel, OF assms ev r this o]
  have ev1: "evolves k0 k1" using ev one evolves_trans by blast
  have "run_ok k0 (map rec_key rs) rs k1"
    using Cons.prems(1) ev1 one evident_later [of k0 k _ k1] by (auto simp: run_ok_def)
  from Cons.IH [OF this Cons.prems(2) e]
  have more: "run_ok k0 (map rec_key rs) rs1 k2"
    "grows (if loud then all_members k0 (map rec_key rs) else {}) (held_total rs1 - held_total rs) k1 k2" by auto
  have ev2: "evolves k1 k2" using more(2) by (rule grows_evolves)
  have "run_ok k0 keys rs' k'"
    using more(1) one ev2 evident_later [of k0 k1 r1 k2 r1] by (auto simp: run_ok_def keys res)
  moreover have "grows (if loud then all_members k0 keys else {}) (held r1 - held r) k k1"
    by (rule grows_mono [where S = "if loud then members_of k0 r else {}"])
      (use one in \<open>auto simp: keys all_members_def members_of_def rec_key_def\<close>)
  moreover have "grows (if loud then all_members k0 keys else {}) (held_total rs1 - held_total rs) k1 k2"
    by (rule grows_mono [OF more(2)]) (auto simp: keys all_members_def)
  ultimately show ?case using grows_trans [of _ "held r1 - held r" k k1 "held_total rs1 - held_total rs" k2]
    by (simp add: res held_total_def algebra_simps)
qed

end

interpretation cl: recovery_pass False "\<lambda>r. rc_leader r = None \<and> rc_pins r = []" "classify mode" for mode
  by unfold_locales (simp add: keeps_classify)

interpretation rs: recovery_pass True rc_proven "recovery_signal sg" for sg
  by unfold_locales (simp add: keeps_signal)

interpretation pe: recovery_pass False pending probe_empty
  by unfold_locales (simp add: keeps_probe pending_def)

interpretation ko: recovery_pass True pending kill_one
  by unfold_locales (simp add: keeps_kill_one)

interpretation co: recovery_pass False rc_proven conclude
  by unfold_locales (simp add: keeps_conclude)

interpretation re: recovery_pass False "\<lambda>_. True" release
  by unfold_locales (simp add: keeps_release)

lemma await_all:
  assumes "table_ok k0"
  shows "run_ok k0 keys rs k \<Longrightarrow> awaitEmpty n rs k = (rs', k') \<Longrightarrow>
    run_ok k0 keys rs' k' \<and> grows {} (held_total rs' - held_total rs) k k'"
proof (induction n arbitrary: rs k)
  case 0
  then show ?case using pe.all [OF assms, of keys rs k pending] by (auto split: prod.splits)
next
  case (Suc n)
  obtain rs1 k1 where e: "each pending probe_empty rs k = (rs1, k1)" by (rule prod.exhaust)
  from pe.all [OF assms Suc.prems(1) _ e] have one: "run_ok k0 keys rs1 k1" "grows {} (held_total rs1 - held_total rs) k k1" by auto
  have "run_ok k0 keys rs1 (wait_tick k1)"
    using one(1) evolves_trans [OF _ quiet_evolves [OF quiet_tick]] evident_later [of k0 k1 _ "wait_tick k1"] quiet_evolves [OF quiet_tick]
    by (auto simp: run_ok_def)
  from Suc.IH [OF this] Suc.prems(2) e one
    grows_trans [OF grows_then_quiet [OF one(2) quiet_tick], of "held_total rs' - held_total rs1" k']
  show ?case by (auto split: if_splits)
qed

lemma each_total: "each (\<lambda>_. True) release rs k = (rs', k') \<Longrightarrow> held_total rs' = 0"
  by (induction rs arbitrary: k rs' k')
    (auto simp: held_total_def split: prod.splits dest!: conjunct2 [OF keeps_release])

section \<open>The whole recovery\<close>

lemma new_recovery_simps [simp]:
  "rec_key (new_recovery g) = (g_Name g, g_PGID g, g_LeaderStart g)" "held (new_recovery g) = 0" "rec_ok k (new_recovery g)"
  "evident k0 k (new_recovery g)" "rc_leader (new_recovery g) = None" "rc_pins (new_recovery g) = []"
  by (simp_all add: new_recovery_def rec_key_def held_def rec_ok_def evident_def settled_def)

definition group_keys :: "Group list \<Rightarrow> (string \<times> int \<times> int) list" where
  "group_keys groups = map (\<lambda>g. (g_Name g, g_PGID g, g_LeaderStart g)) groups"

lemma total_new [simp]: "held_total (map new_recovery groups) = 0"
  by (induction groups) (simp_all add: held_total_def)

lemma run_new: "run_ok k (group_keys groups) (map new_recovery groups) k"
  by (auto simp: run_ok_def group_keys_def)

lemma recover_all_ok:
  assumes ok: "table_ok k" and h: "hostVerdict host k = None"
    and rec: "recover_all host mode grace settle (map new_recovery groups) k = (rs', k')"
  shows "run_ok k (group_keys groups) rs' k'
    \<and> grows (if mode = RecoverAssessOnly then {} else all_members k (group_keys groups)) (held_total rs') k k'"
proof -
  let ?keys = "group_keys groups" and ?T = "all_members k (group_keys groups)"
  obtain rs1 k1 where 1: "each (\<lambda>_. True) (classify mode) (map new_recovery groups) k = (rs1, k1)" by (rule prod.exhaust)
  have new: "\<And>r. r \<in> set (map new_recovery groups) \<Longrightarrow> True \<Longrightarrow> rc_leader r = None \<and> rc_pins r = []" by auto
  have c: "run_ok k ?keys rs1 k1" "grows {} (held_total rs1) k k1"
    using cl.all [OF ok run_new new 1] by simp_all
  define mid where "mid = (if mode = RecoverGraceful
      then (case each rc_proven (recovery_signal SIGTERM) rs1 k1 of (rs2, k2) \<Rightarrow> awaitEmpty grace rs2 k2) else (rs1, k1))"
  obtain rs2 k2 where 2: "each rc_proven (recovery_signal SIGTERM) rs1 k1 = (rs2, k2)" by (rule prod.exhaust)
  obtain rs3 k3 where 3: "mid = (rs3, k3)" by (rule prod.exhaust)
  have s: "run_ok k ?keys rs2 k2" "grows ?T (held_total rs2 - held_total rs1) k1 k2" using rs.all [OF ok c(1) _ 2] by auto
  have m: "run_ok k ?keys rs3 k3 \<and> grows ?T (held_total rs3 - held_total rs1) k1 k3"
  proof (cases "mode = RecoverGraceful")
    case True
    then have "awaitEmpty grace rs2 k2 = (rs3, k3)" using 2 3 by (simp add: mid_def)
    note a = await_all [OF ok s(1) this]
    from grows_trans [OF s(2) grows_mono [OF conjunct2 [OF a]]] a show ?thesis by simp
  qed (use 3 c in \<open>simp add: mid_def\<close>)
  obtain rs4 k4 where 4: "each pending kill_one rs3 k3 = (rs4, k4)" by (rule prod.exhaust)
  have f: "run_ok k ?keys rs4 k4" "grows ?T (held_total rs4 - held_total rs3) k3 k4" using ko.all [OF ok conjunct1 [OF m] _ 4] by auto
  obtain rs5 k5 where 5: "awaitEmpty settle rs4 k4 = (rs5, k5)" by (rule prod.exhaust)
  note w = await_all [OF ok f(1) 5]
  obtain rs6 k6 where 6: "each rc_proven conclude rs5 k5 = (rs6, k6)" by (rule prod.exhaust)
  have z: "run_ok k ?keys rs6 k6" "grows {} (held_total rs6 - held_total rs5) k5 k6" using co.all [OF ok conjunct1 [OF w] _ 6] by auto
  have "grows ?T (held_total rs3) k k3" using grows_trans [OF grows_mono [OF c(2)] conjunct2 [OF m]] by simp
  from grows_trans [OF this f(2)] have "grows ?T (held_total rs4) k k4" by simp
  from grows_trans [OF this grows_mono [OF conjunct2 [OF w]]] have "grows ?T (held_total rs5) k k5" by simp
  from grows_trans [OF this grows_mono [OF z(2)]] have g: "grows ?T (held_total rs6) k k6" by simp
  show ?thesis
  proof (cases "mode = RecoverAssessOnly \<or> \<not> list_ex rc_proven rs1")
    case True
    with rec h 1 have "rs' = rs1" "k' = k1" by (auto simp: recover_all_def)
    with c grows_mono [OF c(2)] show ?thesis by simp
  next
    case False
    then have "recover_all host mode grace settle (map new_recovery groups) k = (rs6, k6)"
      using h 1 3 4 5 6 by (simp add: recover_all_def mid_def [symmetric])
    with rec z(1) g False show ?thesis by simp
  qed
qed

lemma RecoverGroups_cases:
  assumes "RecoverGroups groups host mode grace settle k = (results, k')"
  obtains rs k1 rs2 where "recover_all host mode grace settle (map new_recovery groups) k = (rs, k1)"
    "each (\<lambda>_. True) release rs k1 = (rs2, k')" "results = recoveryResults rs"
proof -
  obtain rs k1 where r: "recover_all host mode grace settle (map new_recovery groups) k = (rs, k1)" by (rule prod.exhaust)
  obtain rs2 k2 where e: "each (\<lambda>_. True) release rs k1 = (rs2, k2)" by (rule prod.exhaust)
  show thesis by (rule that [OF r]) (use assms r e in \<open>auto simp: RecoverGroups_def\<close>)
qed

lemma results_of: "res \<in> set (recoveryResults rs) \<Longrightarrow> \<exists>r \<in> set rs. rg_Outcome res = rg_Outcome r \<and> rec_key res = rec_key r"
  by (auto simp: recoveryResults_def rec_key_def RecoveredGroup.truncate_def)

lemma verdict_all:
  assumes "hostVerdict host k = Some (outcome, reason)" and "recover_all host mode grace settle (map new_recovery groups) k = (rs, k1)"
  shows "k1 = k" "rs = map (finish outcome reason) (map new_recovery groups)" "held_total rs = 0"
proof -
  show "k1 = k" and rs: "rs = map (finish outcome reason) (map new_recovery groups)"
    using assms by (simp_all add: recover_all_def)
  have "held_total (map (finish oc re) xs) = held_total xs" for oc re xs
    by (induction xs) (simp_all add: held_total_def held_def)
  then show "held_total rs = 0" by (simp only: rs total_new)
qed

lemma recover_release_all:
  assumes "table_ok k" and "run_ok k keys rs k1" and "each (\<lambda>_. True) release rs k1 = (rs2, k')"
  shows "run_ok k keys rs2 k'" "grows {} (- held_total rs) k1 k'"
  using re.all [OF assms(1,2) _ assms(3)] each_total [OF assms(3)] by auto

lemma recovery_signals_ok:
  assumes "table_ok k" and "RecoverGroups groups host mode grace settle k = (results, k')"
  shows "grows (if mode = RecoverAssessOnly then {} else all_members k (group_keys groups)) 0 k k'"
proof -
  obtain rs k1 rs2 where r: "recover_all host mode grace settle (map new_recovery groups) k = (rs, k1)"
    and rel: "each (\<lambda>_. True) release rs k1 = (rs2, k')" by (rule RecoverGroups_cases [OF assms(2)])
  show ?thesis
  proof (cases "hostVerdict host k")
    case None
    note a = recover_all_ok [OF assms(1) None r]
    from grows_trans [OF conjunct2 [OF a] grows_mono [OF recover_release_all(2) [OF assms(1) conjunct1 [OF a] rel]]]
    show ?thesis by simp
  next
    case (Some v)
    then obtain oc re where v: "hostVerdict host k = Some (oc, re)" by (cases v) auto
    note a = verdict_all [OF v r]
    have "each (\<lambda>_. True) release rs k = (rs2, k') \<Longrightarrow> \<forall>r \<in> set rs. rc_leader r = None \<and> rc_pins r = [] \<Longrightarrow> k' = k" for rs rs2
      by (induction rs arbitrary: rs2) (auto simp: release_def closePins_def split: prod.splits)
    from this [of rs rs2] rel a show ?thesis by auto
  qed
qed

lemma evidence_ok:
  assumes "table_ok k" and "RecoverGroups groups host mode grace settle k = (results, k')"
    and "res \<in> set results" and "rg_Outcome res \<in> {OutcomeEmpty, OutcomeTerminated}"
  shows "ho_BootID host \<noteq> ho_BootID (pt_host k)
    \<or> evid k k' (gr_PGID res) (rg_LeaderStart res)"
proof -
  obtain rs k1 rs2 where r: "recover_all host mode grace settle (map new_recovery groups) k = (rs, k1)"
    and rel: "each (\<lambda>_. True) release rs k1 = (rs2, k')" and res: "results = recoveryResults rs"
    by (rule RecoverGroups_cases [OF assms(2)])
  obtain x where x: "x \<in> set rs" "rg_Outcome res = rg_Outcome x" "rec_key res = rec_key x"
    using results_of assms(3) res by blast
  show ?thesis
  proof (cases "hostVerdict host k")
    case None
    note a = recover_all_ok [OF assms(1) None r]
    have "evident k k1 x" using a x(1) by (simp add: run_ok_def)
    then have "evid k k1 (gr_PGID x) (rg_LeaderStart x)" using x(2) assms(4) by (auto simp: evident_def settled_def)
    from evid_widen [OF this evolves_refl grows_evolves [OF recover_release_all(2) [OF assms(1) conjunct1 [OF a] rel]]] x(3)
    show ?thesis by (simp add: rec_key_def)
  next
    case (Some v)
    then obtain oc re where v: "hostVerdict host k = Some (oc, re)" by (cases v) auto
    have "rg_Outcome x = oc" using x(1) verdict_all(2) [OF v r] by (auto simp: finish_def)
    with x(2) assms(4) v show ?thesis by (auto simp: hostVerdict_def Let_def split: if_splits)
  qed
qed

lemma recovery_covers:
  assumes "table_ok k" and "RecoverGroups groups host mode grace settle k = (results, k')"
  shows "mset (map rec_key results) = mset (group_keys groups)"
proof -
  obtain rs k1 rs2 where r: "recover_all host mode grace settle (map new_recovery groups) k = (rs, k1)"
    and res: "results = recoveryResults rs" by (rule RecoverGroups_cases [OF assms(2)])
  have "map rec_key rs = group_keys groups"
  proof (cases "hostVerdict host k")
    case None
    with recover_all_ok [OF assms(1) None r] show ?thesis by (simp add: run_ok_def)
  next
    case (Some v)
    then obtain oc re where "hostVerdict host k = Some (oc, re)" by (cases v) auto
    from verdict_all(2) [OF this r] show ?thesis by (simp add: group_keys_def)
  qed
  moreover have "mset (map rec_key results) = mset (map rec_key rs)"
  proof -
    have "rec_key ((RecoveredGroup.truncate r)\<lparr>rg_PIDs := sort (rg_PIDs r)\<rparr>) = rec_key r" for r :: recovery
      by (simp add: rec_key_def RecoveredGroup.truncate_def)
    then have "image_mset rec_key (mset (map (\<lambda>r. (RecoveredGroup.truncate r)\<lparr>rg_PIDs := sort (rg_PIDs r)\<rparr>) rs))
        = image_mset rec_key (mset rs)" for rs :: "recovery list"
      by (induction rs) simp_all
    then show ?thesis unfolding res recoveryResults_def mset_map mset_sort .
  qed
  ultimately show ?thesis by simp
qed

text \<open>A table in which the leader 1 and the member 2 of a recorded group run until instant 40.\<close>

definition example_table :: ptable where
  "example_table = \<lparr>pt_procs = (\<lambda>t. if t < 40 then [9, 1, 2] else [9]),
     pt_pid = (\<lambda>x. if x = 1 then 100 else if x = 2 then 101 else 50 + int x),
     pt_start = (\<lambda>x. 7), pt_group = (\<lambda>t x. if x = 2 then 1 else x), pt_state = (\<lambda>t x. CHR ''S''),
     pt_tasks = (\<lambda>t p. Some 1), pt_readdir = (\<lambda>t. Some [59, 100, 101]), pt_statErr = (\<lambda>t p. None),
     pt_openErr = (\<lambda>t p. False), pt_sendErr = (\<lambda>t x. False), pt_denied = (\<lambda>t g. False), pt_self = 59, pt_pgrp = 59,
     pt_host = \<lparr>ho_BootID = ''b'', ho_PIDNS = ''p'', ho_TimeNS = ''t''\<rparr>, pt_procOwn = True, pt_now = 0, pt_sent = [], pt_open = 0\<rparr>"

definition example_record :: "Group list" where
  "example_record = [\<lparr>g_Name = ''api'', g_PGID = 100, g_LeaderStart = 7\<rparr>]"

lemma example_table_ok: "table_ok example_table"
  by (auto simp: table_ok_def example_table_def split: if_splits)

definition example_recovery :: "RecoveredGroup list \<times> ptable" where
  "example_recovery = RecoverGroups example_record (pt_host example_table) RecoverForce 0 1 example_table"

lemma example_recovery_eval:
  "map rg_Outcome (fst example_recovery) = [OutcomeTerminated]" "pt_sent (snd example_recovery) = [(1, SIGKILL), (2, SIGKILL)]"
  by code_simp+

text \<open>
  C3. Crash recovery signals only the recorded group: every signal it sends goes to a process that was
  seen in the group of a leader with the recorded pid and start time while that leader was not reaped,
  whatever pids are reused meanwhile; an assessment sends none; and every pidfd it opened is closed.
\<close>

theorem recovery_signals_only_recorded:
  assumes "table_ok k" and "RecoverGroups groups host mode grace settle k = (results, k')"
  shows "\<exists>new. pt_sent k' = pt_sent k @ new \<and> pt_open k' = pt_open k
    \<and> list_all (\<lambda>(x, sg). mode \<noteq> RecoverAssessOnly \<and>
        (\<exists>g \<in> set groups. recorded_member k (g_PGID g) (g_LeaderStart g) x)) new"
  using recovery_signals_ok [OF assms]
  by (fastforce simp: grows_def all_members_def group_keys_def list_all_iff image_subset_iff split: if_splits)

theorem recovery_signals_only_recorded_witness:
  "\<exists>new. [(1, SIGKILL), (2, SIGKILL)] = pt_sent example_table @ new \<and> pt_open (snd example_recovery) = pt_open example_table
    \<and> list_all (\<lambda>(x, sg). RecoverForce \<noteq> RecoverAssessOnly \<and>
        (\<exists>g \<in> set example_record. recorded_member example_table (g_PGID g) (g_LeaderStart g) x)) new"
  using recovery_signals_only_recorded [OF example_table_ok, of example_record "pt_host example_table" RecoverForce 0 1
      "fst example_recovery" "snd example_recovery"]
  unfolding example_recovery_eval(2) by (simp add: example_recovery_def)

text \<open>
  C20. Crash recovery calls a group gone only on evidence: a group reported empty or terminated belongs to
  another boot, or at some instant of the recovery no process was in the recorded group (also when its
  number had been reused), or two complete walks of procfs found no live member.
\<close>

theorem recovery_empty_on_evidence:
  assumes "table_ok k" and "RecoverGroups groups host mode grace settle k = (results, k')"
    and "res \<in> set results" and "rg_Outcome res \<in> {OutcomeEmpty, OutcomeTerminated}"
  shows "ho_BootID host \<noteq> ho_BootID (pt_host k)
    \<or> gone_between k k' (gr_PGID res) (rg_LeaderStart res) \<or> walked_twice k k' (gr_PGID res)"
  using evidence_ok [OF assms] by (simp add: evid_def)

theorem recovery_empty_on_evidence_witness:
  "ho_BootID (pt_host example_table) = [] \<or> gone_between example_table (snd example_recovery) 100 7
    \<or> walked_twice example_table (snd example_recovery) 100"
proof -
  have e: "RecoverGroups example_record (pt_host example_table) RecoverForce 0 1 example_table
      = (fst example_recovery, snd example_recovery)" by (simp add: example_recovery_def)
  have "map (\<lambda>g. (rg_Outcome g, gr_PGID g, rg_LeaderStart g)) (fst example_recovery) = [(OutcomeTerminated, 100, 7)]"
    by code_simp
  then obtain res where "fst example_recovery = [res]" "rg_Outcome res = OutcomeTerminated" "gr_PGID res = 100" "rg_LeaderStart res = 7"
    by auto
  with recovery_empty_on_evidence [OF example_table_ok e, of res] show ?thesis by simp
qed

text \<open>
  A new run takes over the PID file of a crashed daemon only on evidence, and never signals: the
  file is removed only if the daemon is gone and each recorded group belongs to another boot or has been
  proven empty; in every other case the record stays as it was.
\<close>

theorem takeover_on_evidence:
  assumes "table_ok k" and "ResolveCrashedRun alive (PidRecord rec) k = (err, f, k')" and "rd_Groups rec = Some groups"
  shows "pt_sent k' = pt_sent k \<and> (case err of
      Some _ \<Rightarrow> f = PidRecord rec
    | None \<Rightarrow> f = PidMissing \<and> \<not> alive \<and>
        (ho_BootID (rd_Host rec) \<noteq> ho_BootID (pt_host k)
         \<or> list_all (\<lambda>g. evid k k' (g_PGID g) (g_LeaderStart g)) groups))"
proof (cases alive)
  case True
  with assms show ?thesis by (auto simp: ResolveCrashedRun_def assessCrashedRun_def)
next
  case False
  obtain results k1 where r: "RecoverGroups groups (rd_Host rec) RecoverAssessOnly 0 0 k = (results, k1)" by (rule prod.exhaust)
  have k1: "k' = k1" using assms False r by (auto simp: ResolveCrashedRun_def assessCrashedRun_def split: if_splits)
  have quiet: "pt_sent k1 = pt_sent k" using recovery_signals_ok [OF assms(1) r] by (simp add: grows_def)
  have "list_all (\<lambda>g. evid k k1 (g_PGID g) (g_LeaderStart g)) groups"
    if "list_all (\<lambda>g. rg_Outcome g = OutcomeEmpty) results" "ho_BootID (rd_Host rec) = ho_BootID (pt_host k)"
    unfolding list_all_iff
  proof
    fix g
    assume "g \<in> set groups"
    with recovery_covers [OF assms(1) r] obtain res where "res \<in> set results" "rec_key res = (g_Name g, g_PGID g, g_LeaderStart g)"
      by (metis (no_types, lifting) group_keys_def image_eqI image_iff list.set_map mset_eq_setD)
    with evidence_ok [OF assms(1) r, of res] that show "evid k k1 (g_PGID g) (g_LeaderStart g)"
      by (auto simp: list_all_iff rec_key_def)
  qed
  with assms(2,3) False r k1 quiet show ?thesis
    by (auto simp: ResolveCrashedRun_def assessCrashedRun_def split: if_splits)
qed

theorem takeover_on_evidence_witness:
  "pt_sent (snd (snd (ResolveCrashedRun False (PidRecord \<lparr>rd_PID = 70, rd_Host = pt_host example_table, rd_Groups = Some example_record\<rparr>)
      example_table))) = []"
proof -
  obtain err f k' where e: "ResolveCrashedRun False (PidRecord \<lparr>rd_PID = 70, rd_Host = pt_host example_table, rd_Groups = Some example_record\<rparr>)
      example_table = (err, f, k')" by (rule prod_cases3)
  from takeover_on_evidence [OF example_table_ok e] e show ?thesis by (simp add: example_table_def)
qed

end
