(* ===== verification/Log_Rotate.thy ===== *)
theory Log_Rotate
  imports Go_Strings
begin

text \<open>
  The rotating writer of the event journal (\<^verbatim>\<open>internal/logrotate/logrotate.go\<close>) over an explicit disk:
  names that lead to files, the bytes of each file, and the faults the file system will answer with. The
  writer holds an open file, which a rename moves and which keeps its bytes. The lemmas follow the files
  a reader of the journal finds, oldest first, through every way a rotation can fail.
\<close>

section \<open>The disk\<close>

text \<open>
  A file is a number. Every operation that changes names takes the next fault, if any is left: a true one
  makes it fail and change nothing. \<^verbatim>\<open>Lstat\<close> tells whether the name exists; that it fails for another
  reason is left out.
\<close>

record disk =
  d_names :: "nat gomap"
  d_data :: "nat \<Rightarrow> string"
  d_next :: nat
  d_faults :: "bool list"

datatype fs_error = NotExist | FsFailed

definition file_at :: "disk \<Rightarrow> string \<Rightarrow> nat option" where
  "file_at d name = gget (d_names d) name"

definition faulty :: "disk \<Rightarrow> bool" where
  "faulty d = (case d_faults d of [] \<Rightarrow> False | b # _ \<Rightarrow> b)"

definition tick_fault :: "disk \<Rightarrow> disk" where
  "tick_fault d = d\<lparr>d_faults := tl (d_faults d)\<rparr>"

definition rename :: "string \<Rightarrow> string \<Rightarrow> disk \<Rightarrow> fs_error option \<times> disk" where
  "rename a b d =
     (let d1 = tick_fault d
      in if faulty d then (Some FsFailed, d1)
         else case file_at d a of
             None \<Rightarrow> (Some NotExist, d1)
           | Some f \<Rightarrow> (None, d1\<lparr>d_names := gput b f (gdelete a (d_names d))\<rparr>))"

definition remove_file :: "string \<Rightarrow> disk \<Rightarrow> fs_error option \<times> disk" where
  "remove_file a d =
     (let d1 = tick_fault d
      in if faulty d then (Some FsFailed, d1)
         else case file_at d a of
             None \<Rightarrow> (Some NotExist, d1)
           | Some f \<Rightarrow> (None, d1\<lparr>d_names := gdelete a (d_names d)\<rparr>))"

definition openFile :: "string \<Rightarrow> disk \<Rightarrow> (fs_error + nat) \<times> disk" where
  "openFile a d =
     (let d1 = tick_fault d
      in if faulty d then (Inl FsFailed, d1)
         else case file_at d a of
             Some f \<Rightarrow> (Inr f, d1)
           | None \<Rightarrow> (Inr (d_next d), d1\<lparr>d_names := gput a (d_next d) (d_names d),
                        d_data := (d_data d)(d_next d := []), d_next := d_next d + 1\<rparr>))"

section \<open>The writer\<close>

abbreviation StagingSuffix :: string where "StagingSuffix \<equiv> ''.staging''"

text \<open>The open file, and where it is when a failed rotation could not put it back.\<close>

record LogWriter =
  lw_path :: string
  lw_maxSize :: int
  lw_maxFiles :: int
  lw_file :: nat
  lw_written :: int
  lw_displaced :: string

datatype rotate_error =
    ErrRestoreStaged string fs_error
  | ErrOpen fs_error
  | ErrWriteFile
  | ErrRestoreLive string string fs_error
  | ErrStage string fs_error
  | ErrRemoveOld string fs_error
  | ErrShift string string fs_error
  | ErrRotateTo string fs_error
  | ErrReopen string fs_error
  | ErrRecreate string fs_error
  | ErrLiveRemoved string

definition copyName :: "LogWriter \<Rightarrow> nat \<Rightarrow> string" where
  "copyName w i = lw_path w @ ''.'' @ Itoa (int i)"

definition NewWriter :: "string \<Rightarrow> int \<Rightarrow> int \<Rightarrow> disk \<Rightarrow> (rotate_error + LogWriter) \<times> disk" where
  "NewWriter path maxSize maxFiles d =
     (let (restored, d1) = (if file_at d path = None then rename (path @ StagingSuffix) path d else (None, d))
      in case restored of
           Some FsFailed \<Rightarrow> (Inl (ErrRestoreStaged path FsFailed), d1)
         | _ \<Rightarrow> (case openFile path d1 of
               (Inl e, d2) \<Rightarrow> (Inl (ErrOpen e), d2)
             | (Inr f, d2) \<Rightarrow>
                 (Inr \<lparr>lw_path = path, lw_maxSize = maxSize, lw_maxFiles = maxFiles, lw_file = f,
                       lw_written = int (length (d_data d2 f)), lw_displaced = []\<rparr>, d2)))"

definition install :: "nat \<Rightarrow> LogWriter \<Rightarrow> LogWriter" where
  "install f w = w\<lparr>lw_file := f, lw_written := 0\<rparr>"

definition recreate :: "LogWriter \<Rightarrow> disk \<Rightarrow> rotate_error list \<times> LogWriter \<times> disk" where
  "recreate w d =
     (case openFile (lw_path w) d of
        (Inl e, d1) \<Rightarrow> ([ErrRecreate (lw_path w) e], w, d1)
      | (Inr f, d1) \<Rightarrow> ([ErrLiveRemoved (lw_path w)], install f w, d1))"

definition rollback :: "string \<Rightarrow> rotate_error \<Rightarrow> LogWriter \<Rightarrow> disk \<Rightarrow> rotate_error list \<times> LogWriter \<times> disk" where
  "rollback name cause w d =
     (case rename name (lw_path w) d of
        (Some e, d1) \<Rightarrow> ([cause, ErrRestoreLive (lw_path w) name e], w\<lparr>lw_displaced := name\<rparr>, d1)
      | (None, d1) \<Rightarrow> ([cause], w, d1))"

definition slots :: "LogWriter \<Rightarrow> nat" where
  "slots w = nat (max (lw_maxFiles w) 1)"

text \<open>The copies move up by one, from the one below the free slot down to the newest.\<close>

fun shift_up :: "LogWriter \<Rightarrow> nat \<Rightarrow> disk \<Rightarrow> rotate_error option \<times> disk" where
  "shift_up w 0 d = (None, d)"
| "shift_up w (Suc i) d =
     (case rename (copyName w (Suc i)) (copyName w (Suc (Suc i))) d of
        (Some e, d1) \<Rightarrow> (Some (ErrShift (copyName w (Suc i)) (copyName w (Suc (Suc i))) e), d1)
      | (None, d1) \<Rightarrow> shift_up w i d1)"

definition shift :: "LogWriter \<Rightarrow> disk \<Rightarrow> rotate_error option \<times> disk" where
  "shift w d =
     (case find (\<lambda>i. file_at d (copyName w i) = None) [1..<Suc (slots w)] of
        Some free \<Rightarrow> shift_up w (free - 1) d
      | None \<Rightarrow> (case remove_file (copyName w (slots w)) d of
            (Some FsFailed, d1) \<Rightarrow> (Some (ErrRemoveOld (copyName w (slots w)) FsFailed), d1)
          | (_, d1) \<Rightarrow> shift_up w (slots w - 1) d1))"

text \<open>From the staged live file on: the copies are shifted and a fresh live file is opened.\<close>

definition rotate_staged :: "LogWriter \<Rightarrow> disk \<Rightarrow> rotate_error list \<times> LogWriter \<times> disk" where
  "rotate_staged w d =
     (let staging = lw_path w @ StagingSuffix; rotated = copyName w 1
      in case shift w d of
           (Some e, d1) \<Rightarrow> rollback staging e w d1
         | (None, d1) \<Rightarrow> (case rename staging rotated d1 of
               (Some e, d2) \<Rightarrow> rollback staging (ErrRotateTo rotated e) w d2
             | (None, d2) \<Rightarrow> (case openFile (lw_path w) d2 of
                   (Inl e, d3) \<Rightarrow> rollback rotated (ErrReopen (lw_path w) e) w d3
                 | (Inr f, d3) \<Rightarrow> ([], install f w, d3))))"

definition rotate_live :: "LogWriter \<Rightarrow> disk \<Rightarrow> rotate_error list \<times> LogWriter \<times> disk" where
  "rotate_live w d =
     (case rename (lw_path w) (lw_path w @ StagingSuffix) d of
        (Some NotExist, d1) \<Rightarrow> recreate w d1
      | (Some e, d1) \<Rightarrow> ([ErrStage (lw_path w) e], w, d1)
      | (None, d1) \<Rightarrow> rotate_staged w d1)"

definition rotate_log :: "LogWriter \<Rightarrow> disk \<Rightarrow> rotate_error list \<times> LogWriter \<times> disk" where
  "rotate_log w d =
     (if lw_displaced w = [] then rotate_live w d
      else case rename (lw_displaced w) (lw_path w) d of
          (Some e, d1) \<Rightarrow> ([ErrRestoreLive (lw_path w) (lw_displaced w) e], w, d1)
        | (None, d1) \<Rightarrow> rotate_live (w\<lparr>lw_displaced := []\<rparr>) d1)"

text \<open>\<open>k\<close>: how many bytes the operating system takes of this write; fewer than all is an error.\<close>

definition WriteLog :: "string \<Rightarrow> nat \<Rightarrow> LogWriter \<Rightarrow> disk \<Rightarrow> nat \<times> rotate_error list \<times> LogWriter \<times> disk" where
  "WriteLog p k w d =
     (let n = min k (length p);
          d1 = d\<lparr>d_data := (d_data d)(lw_file w := d_data d (lw_file w) @ take n p)\<rparr>;
          w1 = w\<lparr>lw_written := lw_written w + int n\<rparr>;
          err = (if n < length p then [ErrWriteFile] else [])
      in if lw_written w1 \<ge> lw_maxSize w1
         then (case rotate_log w1 d1 of (rerr, w2, d2) \<Rightarrow> (n, if err = [] then rerr else err, w2, d2))
         else (n, err, w1, d1))"

section \<open>What a reader finds\<close>

text \<open>The files of the journal, oldest first: the rotated copies, then the live file or the staged one.\<close>

definition copies :: "LogWriter \<Rightarrow> disk \<Rightarrow> nat list" where
  "copies w d = List.map_filter (\<lambda>i. file_at d (copyName w i)) (rev [1..<Suc (slots w)])"

definition newest :: "LogWriter \<Rightarrow> disk \<Rightarrow> nat list" where
  "newest w d = (case file_at d (lw_path w) of Some f \<Rightarrow> [f]
     | None \<Rightarrow> (case file_at d (lw_path w @ StagingSuffix) of Some f \<Rightarrow> [f] | None \<Rightarrow> []))"

definition retained :: "LogWriter \<Rightarrow> disk \<Rightarrow> nat list" where
  "retained w d = copies w d @ newest w d"

definition journal_bytes :: "LogWriter \<Rightarrow> disk \<Rightarrow> string" where
  "journal_bytes w d = concat (map (d_data d) (retained w d))"

section \<open>Names and renames\<close>

definition disk_ok :: "disk \<Rightarrow> bool" where
  "disk_ok d = (gomap_ok (d_names d)
     \<and> (\<forall>a b f. file_at d a = Some f \<longrightarrow> file_at d b = Some f \<longrightarrow> a = b)
     \<and> (\<forall>a f. file_at d a = Some f \<longrightarrow> f < d_next d))"

definition copy_slots :: "LogWriter \<Rightarrow> disk \<Rightarrow> nat \<Rightarrow> nat option" where
  "copy_slots w d i = file_at d (copyName w i)"

lemma copyName_inject [simp]: "copyName w i = copyName w j \<longleftrightarrow> i = j"
  by (simp add: copyName_def Itoa_inject)

lemma copyName_path [simp]: "copyName w i \<noteq> lw_path w" "lw_path w \<noteq> copyName w i"
  by (simp_all add: copyName_def)

lemma Itoa_not_letter: "hd (Itoa (int i)) \<noteq> CHR ''s''"
proof -
  obtain c t where u: "utoa i = c # t" by (metis utoa_nonempty neq_Nil_conv)
  obtain d where "d < 10" "c = digit_char d" using utoa_digits [of c i] u by auto
  then have "(of_char c :: nat) = 48 + d" by (simp add: of_char_digit_char)
  then have "c \<noteq> CHR ''s''" using \<open>d < 10\<close> by auto
  then show ?thesis by (simp add: Itoa_def u)
qed

lemma copyName_staging [simp]:
  "copyName w i \<noteq> lw_path w @ StagingSuffix" "lw_path w @ StagingSuffix \<noteq> copyName w i"
  using Itoa_not_letter [of i] by (auto simp: copyName_def dest: arg_cong [of _ _ hd])

lemma disk_ok_tick [simp]: "disk_ok (tick_fault d) = disk_ok d"
  by (simp add: disk_ok_def tick_fault_def file_at_def)

lemma tick_fault_fields [simp]:
  "file_at (tick_fault d) = file_at d" "d_data (tick_fault d) = d_data d" "d_next (tick_fault d) = d_next d"
  by (simp_all add: tick_fault_def file_at_def fun_eq_iff)

lemma rename_done:
  assumes "rename a b d = (None, d')" and "disk_ok d" and "a \<noteq> b"
  shows "disk_ok d' \<and> file_at d a \<noteq> None \<and> file_at d' = (file_at d)(b := file_at d a, a := None)
    \<and> d_data d' = d_data d \<and> d_next d' = d_next d"
proof -
  from assms(1) obtain f where f: "file_at d a = Some f" and d': "d' = (tick_fault d)\<lparr>d_names := gput b f (gdelete a (d_names d))\<rparr>"
    by (auto simp: rename_def Let_def split: if_splits option.splits)
  have at: "file_at d' = (file_at d)(b := Some f, a := None)"
    using assms(3) by (auto simp: d' file_at_def fun_eq_iff)
  moreover have "disk_ok d'"
    unfolding disk_ok_def at using assms(2) f by (auto simp: disk_ok_def d' tick_fault_def split: if_splits)
  ultimately show ?thesis using f by (simp add: d')
qed

lemma rename_failed:
  "rename a b d = (Some e, d') \<Longrightarrow> file_at d' = file_at d \<and> d_data d' = d_data d \<and> d_next d' = d_next d \<and> disk_ok d' = disk_ok d
     \<and> (e = NotExist \<longrightarrow> file_at d a = None)"
  by (auto simp: rename_def Let_def split: if_splits option.splits)

lemma remove_done:
  assumes "remove_file a d = (e, d')" and "disk_ok d" and "e \<noteq> Some FsFailed"
  shows "disk_ok d' \<and> file_at d' = (file_at d)(a := None) \<and> d_data d' = d_data d \<and> d_next d' = d_next d"
  using assms by (auto simp: remove_file_def Let_def disk_ok_def tick_fault_def file_at_def fun_eq_iff split: if_splits option.splits)

lemma remove_failed:
  "remove_file a d = (Some FsFailed, d') \<Longrightarrow> file_at d' = file_at d \<and> d_data d' = d_data d \<and> d_next d' = d_next d \<and> disk_ok d' = disk_ok d"
  by (auto simp: remove_file_def Let_def split: if_splits option.splits)

lemma open_failed:
  "openFile a d = (Inl e, d') \<Longrightarrow> file_at d' = file_at d \<and> d_data d' = d_data d \<and> d_next d' = d_next d \<and> disk_ok d' = disk_ok d"
  by (auto simp: openFile_def Let_def split: if_splits option.splits)

lemma open_fresh:
  assumes "openFile a d = (Inr f, d')" and "disk_ok d" and "file_at d a = None"
  shows "disk_ok d' \<and> f = d_next d \<and> file_at d' = (file_at d)(a := Some f) \<and> d_data d' = (d_data d)(f := []) \<and> d_next d' = d_next d + 1"
proof -
  from assms(1,3) have f: "f = d_next d" and d': "d' = (tick_fault d)\<lparr>d_names := gput a f (d_names d), d_data := (d_data d)(f := []), d_next := f + 1\<rparr>"
    by (auto simp: openFile_def Let_def split: if_splits)
  have at: "file_at d' = (file_at d)(a := Some f)"
    by (auto simp: d' file_at_def fun_eq_iff)
  have "disk_ok d'"
    unfolding disk_ok_def at using assms(2) f
    by (auto simp: disk_ok_def d' tick_fault_def less_Suc_eq split: if_splits)
  then show ?thesis using f at by (simp add: d')
qed

section \<open>The copies as a list\<close>

fun slot_list :: "(nat \<Rightarrow> nat option) \<Rightarrow> nat \<Rightarrow> nat list" where
  "slot_list c 0 = []"
| "slot_list c (Suc n) = (case c (Suc n) of Some f \<Rightarrow> [f] | None \<Rightarrow> []) @ slot_list c n"

lemma slot_list_copies: "copies w d = slot_list (copy_slots w d) (slots w)"
proof -
  have "List.map_filter c (rev [1..<Suc n]) = slot_list c n" for c :: "nat \<Rightarrow> nat option" and n
    by (induction n) (auto simp: map_filter_simps split: option.splits)
  then show ?thesis by (simp add: copies_def copy_slots_def [abs_def])
qed

lemma slot_list_cong: "(\<And>i. 1 \<le> i \<Longrightarrow> i \<le> n \<Longrightarrow> c i = c' i) \<Longrightarrow> slot_list c n = slot_list c' n"
  by (induction n) (auto split: option.splits)

lemma slot_list_other [simp]: "n < i \<Longrightarrow> slot_list (c(i := x)) n = slot_list c n"
  by (induction n) auto

lemma slot_list_length: "length (slot_list c n) \<le> n"
  by (induction n) (auto split: option.splits)

lemma slot_list_full: "length (slot_list c n) = n \<longleftrightarrow> (\<forall>i \<in> {1..n}. c i \<noteq> None)"
proof (induction n)
  case (Suc n)
  then show ?case
    using slot_list_length [of c n] by (auto simp: atLeastAtMostSuc_conv split: option.splits)
qed simp

lemma slot_list_move:
  "c (Suc i) = None \<Longrightarrow> i < n \<Longrightarrow> 0 < i \<Longrightarrow> slot_list (c(Suc i := c i, i := None)) n = slot_list c n"
proof (induction n)
  case (Suc n)
  show ?case
  proof (cases "i = n")
    case True
    then obtain m where "i = Suc m" using Suc.prems by (cases i) auto
    moreover define c' where "c' = c(Suc i := c i, i := None)"
    then have "c' (Suc i) = c i" "c' i = None" by auto
    moreover have "slot_list c' m = slot_list c m" using \<open>i = Suc m\<close> by (intro slot_list_cong) (auto simp: c'_def)
    ultimately show ?thesis using True Suc.prems unfolding c'_def [symmetric] by (auto split: option.splits)
  qed (use Suc in auto)
qed simp

lemma slot_list_drop: "length (slot_list c n) = n \<Longrightarrow> 0 < n \<Longrightarrow> slot_list (c(n := None)) n = tl (slot_list c n)"
  using slot_list_full [of c n] by (cases n) (auto split: option.splits)

lemma slot_list_first:
  "0 < n \<Longrightarrow> c 1 = None \<Longrightarrow> slot_list (c(1 := Some f)) n = slot_list c n @ [f]"
proof (induction n)
  case (Suc n)
  then show ?case by (cases n) auto
qed simp

section \<open>Rotations keep the journal\<close>

text \<open>
  Between writes the open file is at the live path, or where a failed rotation left it; nothing is
  staged otherwise. \<open>on_disk\<close> is that state for a given place of the open file.
\<close>

definition on_disk :: "LogWriter \<Rightarrow> string \<Rightarrow> disk \<Rightarrow> bool" where
  "on_disk w place d = (disk_ok d \<and> file_at d place = Some (lw_file w)
     \<and> place \<in> {lw_path w, lw_path w @ StagingSuffix, copyName w 1}
     \<and> (place \<noteq> lw_path w \<longrightarrow> file_at d (lw_path w) = None)
     \<and> (file_at d (lw_path w @ StagingSuffix) \<noteq> None \<longrightarrow> place = lw_path w @ StagingSuffix))"

definition writer_ok :: "LogWriter \<Rightarrow> disk \<Rightarrow> bool" where
  "writer_ok w d = (lw_displaced w \<noteq> lw_path w \<and> on_disk w (if lw_displaced w = [] then lw_path w else lw_displaced w) d)"

definition same_log :: "LogWriter \<Rightarrow> LogWriter \<Rightarrow> bool" where
  "same_log w w' = (lw_path w' = lw_path w \<and> lw_maxSize w' = lw_maxSize w \<and> lw_maxFiles w' = lw_maxFiles w)"

lemma same_log_refl [simp]: "same_log w w"
  by (simp add: same_log_def)

lemma same_log_simps:
  assumes "same_log w w'"
  shows "copyName w' i = copyName w i" "slots w' = slots w" "copies w' d = copies w d" "newest w' d = newest w d"
    "retained w' d = retained w d"
  using assms by (auto simp: same_log_def copyName_def slots_def copies_def newest_def retained_def split: option.splits)

lemma slots_pos [simp]: "0 < slots w"
  by (simp add: slots_def)

lemma copies_length: "length (copies w d) \<le> slots w"
  by (simp add: slot_list_copies slot_list_length)

lemma copies_cong: "(\<And>i. copy_slots w d' i = copy_slots w d i) \<Longrightarrow> copies w d' = copies w d"
  by (simp add: slot_list_copies fun_eq_iff [symmetric, of "copy_slots w d'" "copy_slots w d"] cong: slot_list_cong)

lemma newest_live: "file_at d (lw_path w) = Some f \<Longrightarrow> newest w d = [f]"
  by (simp add: newest_def)

lemma restore_live:
  assumes on: "on_disk w place d" and place: "place \<noteq> lw_path w" and ren: "rename place (lw_path w) d = (None, d')"
  shows "on_disk w (lw_path w) d' \<and> copies w d' @ [lw_file w] = retained w d \<and> d_data d' = d_data d \<and> d_next d' = d_next d"
proof -
  have d': "disk_ok d'" "file_at d' = (file_at d)(lw_path w := file_at d place, place := None)"
      "d_data d' = d_data d" "d_next d' = d_next d"
    using rename_done [OF ren] on place by (auto simp: on_disk_def)
  have on': "on_disk w (lw_path w) d'"
    using on place d'(1,2) by (auto simp: on_disk_def)
  consider "place = lw_path w @ StagingSuffix" | "place = copyName w 1" using on place by (auto simp: on_disk_def)
  then have "copies w d' @ [lw_file w] = retained w d"
  proof cases
    case 1
    then have "copies w d' = copies w d" by (intro copies_cong) (simp add: copy_slots_def d'(2))
    with 1 on show ?thesis by (simp add: retained_def newest_def on_disk_def)
  next
    case 2
    let ?c = "copy_slots w d"
    have c: "?c 1 = Some (lw_file w)" using on 2 by (simp add: on_disk_def copy_slots_def)
    have "copy_slots w d' = ?c(1 := None)" using 2 by (auto simp: copy_slots_def d'(2) fun_eq_iff)
    moreover have "?c = (?c(1 := None))(1 := Some (lw_file w))" using c by (auto simp: fun_eq_iff)
    ultimately have "copies w d = copies w d' @ [lw_file w]"
      by (metis slot_list_copies slot_list_first slots_pos fun_upd_same)
    moreover have "newest w d = []" using on 2 by (auto simp: newest_def on_disk_def)
    ultimately show ?thesis by (simp add: retained_def)
  qed
  with on' d' show ?thesis by simp
qed

text \<open>How a rotation may leave the log: the writer in the same file, with the failure reported, or a fresh live file.\<close>

definition rotated_to :: "LogWriter \<Rightarrow> disk \<Rightarrow> nat list \<Rightarrow> rotate_error list \<times> LogWriter \<times> disk \<Rightarrow> bool" where
  "rotated_to w d files out = (case out of (errs, w', d') \<Rightarrow>
     writer_ok w' d' \<and> same_log w w' \<and>
     (if errs = [] then lw_file w' = d_next d \<and> lw_written w' = 0 \<and> retained w' d' = files @ [d_next d] \<and> d_data d' = (d_data d)(d_next d := [])
      else lw_file w' = lw_file w \<and> retained w' d' = files \<and> d_data d' = d_data d \<and> d_next d' = d_next d))"

lemma rotated_to_later:
  "rotated_to w' d' files out \<Longrightarrow> same_log w w' \<Longrightarrow> lw_file w' = lw_file w \<Longrightarrow> d_data d' = d_data d \<Longrightarrow> d_next d' = d_next d
     \<Longrightarrow> rotated_to w d files out"
  by (auto simp: rotated_to_def same_log_def split: prod.splits if_splits)

lemma rollback_ok:
  assumes on: "on_disk w name d" and name: "name \<noteq> lw_path w" "name \<noteq> []" and disp: "lw_displaced w = []" and path: "lw_path w \<noteq> []"
  shows "rotated_to w d (retained w d) (rollback name cause w d)"
proof (cases "rename name (lw_path w) d")
  case (Pair e d1)
  show ?thesis
  proof (cases e)
    case None
    from restore_live [OF on name(1)] Pair None have
      r: "on_disk w (lw_path w) d1" "copies w d1 @ [lw_file w] = retained w d" "d_data d1 = d_data d" "d_next d1 = d_next d" by auto
    from r(1) have "newest w d1 = [lw_file w]" by (auto intro: newest_live simp: on_disk_def)
    with r disp path show ?thesis by (simp add: rollback_def Pair None rotated_to_def writer_ok_def retained_def)
  next
    case (Some x)
    with Pair rename_failed have "file_at d1 = file_at d" "d_data d1 = d_data d" "d_next d1 = d_next d" "disk_ok d1 = disk_ok d" by blast+
    then show ?thesis
      using on name by (simp add: rollback_def Pair Some rotated_to_def writer_ok_def on_disk_def same_log_def
          retained_def copies_def newest_def copyName_def slots_def)
  qed
qed

section \<open>Shifting the copies\<close>

definition log_kept :: "LogWriter \<Rightarrow> disk \<Rightarrow> disk \<Rightarrow> bool" where
  "log_kept w d d' = (disk_ok d' \<and> file_at d' (lw_path w) = file_at d (lw_path w)
     \<and> file_at d' (lw_path w @ StagingSuffix) = file_at d (lw_path w @ StagingSuffix)
     \<and> d_data d' = d_data d \<and> d_next d' = d_next d)"

lemma log_kept_trans: "log_kept w d d1 \<Longrightarrow> log_kept w d1 d2 \<Longrightarrow> log_kept w d d2"
  by (simp add: log_kept_def)

lemma shift_up_ok:
  assumes "shift_up w i d = (e, d')" and "disk_ok d" and "copy_slots w d (Suc i) = None" and "i < slots w"
  shows "log_kept w d d' \<and> copies w d' = copies w d \<and> (e = None \<longrightarrow> copy_slots w d' 1 = None)"
  using assms
proof (induction i arbitrary: d)
  case 0
  then show ?case by (auto simp: log_kept_def)
next
  case (Suc i)
  show ?case
  proof (cases "rename (copyName w (Suc i)) (copyName w (Suc (Suc i))) d")
    case (Pair x d1)
    show ?thesis
    proof (cases x)
      case (Some err)
      with Pair rename_failed have "file_at d1 = file_at d" "d_data d1 = d_data d" "d_next d1 = d_next d" "disk_ok d1 = disk_ok d"
        by blast+
      then show ?thesis using Suc.prems Pair Some by (auto simp: log_kept_def copies_def)
    next
      case None
      have d1: "disk_ok d1" "file_at d1 = (file_at d)(copyName w (Suc (Suc i)) := file_at d (copyName w (Suc i)), copyName w (Suc i) := None)"
          "d_data d1 = d_data d" "d_next d1 = d_next d"
        using rename_done [of _ _ d d1] Pair None Suc.prems(2) by auto
      have c: "copy_slots w d1 = (copy_slots w d)(Suc (Suc i) := copy_slots w d (Suc i), Suc i := None)"
        by (auto simp: copy_slots_def d1(2) fun_eq_iff)
      have "copies w d1 = copies w d"
        using Suc.prems slot_list_move [of "copy_slots w d" "Suc i" "slots w"] by (simp add: slot_list_copies c)
      moreover have "log_kept w d d1" using d1 by (simp add: log_kept_def)
      ultimately show ?thesis
        using Suc.IH [of d1] Suc.prems Pair None d1(1) by (auto simp: c dest: log_kept_trans)
    qed
  qed
qed

lemma shift_ok:
  assumes sh: "shift w d = (e, d')" and ok: "disk_ok d"
  shows "log_kept w d d' \<and> (copies w d' = copies w d \<or> length (copies w d) = slots w \<and> copies w d' = tl (copies w d))
    \<and> (e = None \<longrightarrow> copy_slots w d' 1 = None)"
proof (cases "find (\<lambda>i. file_at d (copyName w i) = None) [1..<Suc (slots w)]")
  case (Some free)
  then have "copy_slots w d free = None" "1 \<le> free" "free \<le> slots w"
    by (auto simp: find_Some_iff copy_slots_def nth_append simp del: upt_Suc)
  then show ?thesis
    using shift_up_ok [of w "free - 1" d e d'] sh ok Some by (simp add: shift_def del: upt_Suc)
next
  case None
  then have full: "length (slot_list (copy_slots w d) (slots w)) = slots w"
    by (auto simp: find_None_iff slot_list_full copy_slots_def)
  show ?thesis
  proof (cases "remove_file (copyName w (slots w)) d")
    case (Pair x d1)
    show ?thesis
    proof (cases "x = Some FsFailed")
      case True
      with Pair remove_failed have "file_at d1 = file_at d" "d_data d1 = d_data d" "d_next d1 = d_next d" "disk_ok d1 = disk_ok d" by blast+
      then show ?thesis using sh None Pair True ok by (auto simp: shift_def log_kept_def copies_def)
    next
      case False
      have d1: "disk_ok d1" "file_at d1 = (file_at d)(copyName w (slots w) := None)" "d_data d1 = d_data d" "d_next d1 = d_next d"
        using remove_done [OF Pair ok False] by auto
      have c: "copy_slots w d1 = (copy_slots w d)(slots w := None)" by (auto simp: copy_slots_def d1(2) fun_eq_iff)
      have "copies w d1 = tl (copies w d)" using slot_list_drop [OF full] by (simp add: slot_list_copies c)
      moreover have "log_kept w d d1" using d1 by (simp add: log_kept_def)
      moreover have "shift_up w (slots w - 1) d1 = (e, d')"
        using sh None Pair False by (cases x; cases "the x") (auto simp: shift_def)
      ultimately show ?thesis
        using shift_up_ok [of w "slots w - 1" d1 e d'] d1(1) full by (auto simp: c slot_list_copies dest: log_kept_trans)
    qed
  qed
qed

text \<open>What the rotation keeps of the retained files: all, or all but the oldest copy when every slot is taken.\<close>

definition kept_files :: "LogWriter \<Rightarrow> disk \<Rightarrow> nat list \<Rightarrow> bool" where
  "kept_files w d files = (files = retained w d \<or> length (retained w d) = slots w + 1 \<and> files = tl (retained w d))"

lemma staged_retained: "on_disk w (lw_path w @ StagingSuffix) d \<Longrightarrow> retained w d = copies w d @ [lw_file w]"
  by (auto simp: on_disk_def retained_def newest_def)

lemma on_disk_same:
  "on_disk w place d \<Longrightarrow> file_at d' = file_at d \<Longrightarrow> disk_ok d' = disk_ok d \<Longrightarrow> on_disk w place d' \<and> retained w d' = retained w d"
  by (auto simp: on_disk_def retained_def copies_def newest_def split: option.splits)

lemma rotates_later:
  assumes "\<exists>files. kept_files w' d' files \<and> rotated_to w' d' files out" and "same_log w w'" and "lw_file w' = lw_file w"
    and "retained w d' = retained w d" and "d_data d' = d_data d" and "d_next d' = d_next d"
  shows "\<exists>files. kept_files w d files \<and> rotated_to w d files out"
proof -
  from assms(1) obtain fs where f: "kept_files w' d' fs" "rotated_to w' d' fs out" by blast
  from f(1) have "kept_files w d fs" using assms(4) same_log_simps [OF assms(2)] by (simp add: kept_files_def)
  moreover have "rotated_to w d fs out" using f(2) assms(2,3,5,6) by (rule rotated_to_later)
  ultimately show ?thesis by blast
qed

lemma rotate_staged_ok:
  assumes on: "on_disk w (lw_path w @ StagingSuffix) d" and disp: "lw_displaced w = []" and path: "lw_path w \<noteq> []"
  shows "\<exists>files. kept_files w d files \<and> rotated_to w d files (rotate_staged w d)"
proof (cases "shift w d")
  case (Pair e d1)
  let ?staging = "lw_path w @ StagingSuffix"
  from shift_ok [OF Pair] on have k: "log_kept w d d1"
      and cs: "copies w d1 = copies w d \<or> length (copies w d) = slots w \<and> copies w d1 = tl (copies w d)"
      and free: "e = None \<longrightarrow> copy_slots w d1 1 = None" by (auto simp: on_disk_def)
  have on1: "on_disk w ?staging d1" using on k by (simp add: on_disk_def log_kept_def)
  define files where "files = copies w d1 @ [lw_file w]"
  have kept: "kept_files w d files"
    using cs slots_pos [of w] by (cases "copies w d") (auto simp: kept_files_def staged_retained [OF on] files_def)
  have same: "d_data d1 = d_data d" "d_next d1 = d_next d" using k by (simp_all add: log_kept_def)
  have rolled: "rotated_to w d files (rollback ?staging x w d2)"
    if "file_at d2 = file_at d1" "disk_ok d2 = disk_ok d1" "d_data d2 = d_data d1" "d_next d2 = d_next d1" for x d2
  proof -
    have "on_disk w ?staging d2 \<and> retained w d2 = files"
      using on_disk_same [OF on1 that(1,2)] staged_retained [OF on1] by (simp add: files_def)
    then show ?thesis
      using rollback_ok [of w ?staging d2 x] disp path that same by (auto intro: rotated_to_later)
  qed
  have "rotated_to w d files (rotate_staged w d)"
  proof (cases e)
    case (Some x)
    with Pair rolled [of d1] show ?thesis by (simp add: rotate_staged_def)
  next
    case None
    then have c1: "copy_slots w d1 1 = None" using free by simp
    show ?thesis
    proof (cases "rename ?staging (copyName w 1) d1")
      case (Pair y d2)
      note r = Pair
      show ?thesis
      proof (cases y)
        case (Some z)
        with r rename_failed have "file_at d2 = file_at d1" "d_data d2 = d_data d1" "d_next d2 = d_next d1" "disk_ok d2 = disk_ok d1"
          by blast+
        with rolled [of d2] r Some None \<open>shift w d = (e, d1)\<close> show ?thesis by (simp add: rotate_staged_def)
      next
        case y: None
        have d2: "disk_ok d2" "file_at d2 = (file_at d1)(copyName w 1 := Some (lw_file w), ?staging := None)"
            "d_data d2 = d_data d" "d_next d2 = d_next d"
          using rename_done [of ?staging "copyName w 1" d1 d2] r y on1 same by (auto simp: on_disk_def)
        have "copy_slots w d2 = (copy_slots w d1)(1 := Some (lw_file w))" by (auto simp: copy_slots_def d2(2) fun_eq_iff)
        then have c2: "copies w d2 = files" using c1 slot_list_first by (simp add: slot_list_copies files_def)
        have on2: "on_disk w (copyName w 1) d2" using on1 d2 by (auto simp: on_disk_def)
        have r2: "retained w d2 = files" using on2 by (auto simp: retained_def newest_def c2 on_disk_def)
        show ?thesis
        proof (cases "openFile (lw_path w) d2")
          case (Pair z d3)
          show ?thesis
          proof (cases z)
            case (Inl x)
            with Pair open_failed have o: "file_at d3 = file_at d2" "d_data d3 = d_data d2" "d_next d3 = d_next d2" "disk_ok d3 = disk_ok d2"
              by blast+
            have on3: "on_disk w (copyName w 1) d3 \<and> retained w d3 = files" using on_disk_same [OF on2 o(1,4)] r2 by simp
            then have "rotated_to w d files (rollback (copyName w 1) (ErrReopen (lw_path w) x) w d3)"
              using rollback_ok [of w "copyName w 1" d3 "ErrReopen (lw_path w) x"] disp path o d2(3,4)
              by (auto intro: rotated_to_later simp: copyName_def)
            then show ?thesis using Pair Inl r y None \<open>shift w d = (e, d1)\<close> by (simp add: rotate_staged_def)
          next
            case (Inr f)
            have o: "disk_ok d3" "f = d_next d" "file_at d3 = (file_at d2)(lw_path w := Some f)" "d_data d3 = (d_data d)(f := [])"
              using open_fresh [of "lw_path w" d2 f d3] Pair Inr d2 on2 by (auto simp: on_disk_def)
            have "copies w d3 = copies w d2" by (intro copies_cong) (simp add: copy_slots_def o(3))
            then have "retained (install f w) d3 = files @ [f]"
              using c2 o(3) by (simp add: install_def retained_def newest_def copies_def copyName_def slots_def)
            moreover have "writer_ok (install f w) d3"
              using o on2 d2(2) disp path by (auto simp: writer_ok_def on_disk_def install_def)
            ultimately show ?thesis
              using Pair Inr r y None \<open>shift w d = (e, d1)\<close> o by (simp add: rotate_staged_def rotated_to_def install_def same_log_def)
          qed
        qed
      qed
    qed
  qed
  with kept show ?thesis by blast
qed

lemma rotate_live_ok:
  assumes on: "on_disk w (lw_path w) d" and disp: "lw_displaced w = []" and path: "lw_path w \<noteq> []"
  shows "\<exists>files. kept_files w d files \<and> rotated_to w d files (rotate_live w d)"
proof (cases "rename (lw_path w) (lw_path w @ StagingSuffix) d")
  case (Pair e d1)
  show ?thesis
  proof (cases e)
    case (Some x)
    with Pair rename_failed have f: "file_at d1 = file_at d" "d_data d1 = d_data d" "disk_ok d1 = disk_ok d" "d_next d1 = d_next d" by blast+
    have "x = FsFailed" using rename_failed [of _ _ d x d1] Pair Some on by (cases x) (auto simp: on_disk_def)
    moreover have "writer_ok w d1" "retained w d1 = retained w d"
      using on_disk_same [OF on f(1,3)] disp path by (auto simp: writer_ok_def)
    ultimately show ?thesis using Pair Some f
      by (intro exI [of _ "retained w d"]) (simp add: rotate_live_def kept_files_def rotated_to_def)
  next
    case None
    have d1: "disk_ok d1" "file_at d1 = (file_at d)(lw_path w @ StagingSuffix := Some (lw_file w), lw_path w := None)"
        "d_data d1 = d_data d" "d_next d1 = d_next d"
      using rename_done [of _ _ d d1] Pair None on by (auto simp: on_disk_def)
    have on1: "on_disk w (lw_path w @ StagingSuffix) d1" using on d1 by (auto simp: on_disk_def)
    have "copies w d1 = copies w d" by (intro copies_cong) (simp add: copy_slots_def d1(2))
    then have "retained w d1 = retained w d"
      using on by (simp add: staged_retained [OF on1]) (simp add: retained_def newest_def on_disk_def)
    from rotates_later [OF rotate_staged_ok [OF on1 disp path] same_log_refl refl this d1(3,4)] Pair None
    show ?thesis by (simp add: rotate_live_def)
  qed
qed

lemma rotate_log_ok:
  assumes ok: "writer_ok w d" and path: "lw_path w \<noteq> []"
  shows "\<exists>files. kept_files w d files \<and> rotated_to w d files (rotate_log w d)"
proof (cases "lw_displaced w = []")
  case True
  with ok path rotate_live_ok show ?thesis by (simp add: writer_ok_def rotate_log_def)
next
  case False
  then have on: "on_disk w (lw_displaced w) d" and ne: "lw_displaced w \<noteq> lw_path w" using ok by (auto simp: writer_ok_def)
  show ?thesis
  proof (cases "rename (lw_displaced w) (lw_path w) d")
    case (Pair e d1)
    show ?thesis
    proof (cases e)
      case (Some x)
      with Pair rename_failed have f: "file_at d1 = file_at d" "d_data d1 = d_data d" "disk_ok d1 = disk_ok d" "d_next d1 = d_next d" by blast+
      with on_disk_same [OF on f(1,3)] ne False Pair Some show ?thesis
        by (intro exI [of _ "retained w d"]) (simp add: rotate_log_def kept_files_def rotated_to_def writer_ok_def)
    next
      case None
      let ?w = "w\<lparr>lw_displaced := []\<rparr>"
      have same: "same_log w ?w" by (simp add: same_log_def)
      from restore_live [OF on ne] Pair None have r: "on_disk w (lw_path w) d1" "copies w d1 @ [lw_file w] = retained w d"
          "d_data d1 = d_data d" "d_next d1 = d_next d" by auto
      have "retained w d1 = retained w d" using r(1,2) by (auto simp: retained_def newest_def on_disk_def)
      moreover have "on_disk ?w (lw_path ?w) d1" using r(1) by (simp add: on_disk_def copyName_def)
      ultimately have "\<exists>files. kept_files w d files \<and> rotated_to w d files (rotate_live ?w d1)"
        using path r(3,4) by (intro rotates_later [OF rotate_live_ok same]) simp_all
      then show ?thesis using Pair None False by (simp add: rotate_log_def)
    qed
  qed
qed

section \<open>Writes\<close>

lemma slot_list_set: "set (slot_list c n) = {f. \<exists>i \<in> {1..n}. c i = Some f}"
  by (induction n) (auto simp: atLeastAtMostSuc_conv split: option.splits)

lemma copies_set: "set (copies w d) = {f. \<exists>i \<in> {1..slots w}. file_at d (copyName w i) = Some f}"
  by (simp add: slot_list_copies slot_list_set copy_slots_def)

lemma retained_last:
  assumes "writer_ok w d"
  shows "\<exists>older. retained w d = older @ [lw_file w] \<and> lw_file w \<notin> set older"
proof -
  define place where "place = (if lw_displaced w = [] then lw_path w else lw_displaced w)"
  have on: "on_disk w place d" using assms by (auto simp: writer_ok_def place_def split: if_splits)
  then have inj: "file_at d a = Some (lw_file w) \<Longrightarrow> a = place" for a by (auto simp: on_disk_def disk_ok_def)
  show ?thesis
  proof (cases "place = copyName w 1")
    case False
    then have "place \<noteq> copyName w i" if "place = lw_path w \<or> place = lw_path w @ StagingSuffix" for i using that by auto
    then have "lw_file w \<notin> set (copies w d)" using inj on False by (fastforce simp: copies_set on_disk_def)
    moreover have "newest w d = [lw_file w]" using on False by (auto simp: newest_def on_disk_def)
    ultimately show ?thesis by (simp add: retained_def)
  next
    case True
    let ?c = "(copy_slots w d)(1 := None)"
    have "copy_slots w d = ?c(1 := Some (lw_file w))" using on True by (auto simp: on_disk_def copy_slots_def fun_eq_iff)
    then have "copies w d = slot_list ?c (slots w) @ [lw_file w]"
      by (metis slot_list_copies slot_list_first slots_pos fun_upd_same)
    moreover have "newest w d = []" using on True by (auto simp: newest_def on_disk_def)
    moreover have "lw_file w \<notin> set (slot_list ?c (slots w))"
      using True by (auto simp: slot_list_set copy_slots_def split: if_splits dest!: inj)
    ultimately show ?thesis by (simp add: retained_def)
  qed
qed

lemma retained_known: "writer_ok w d \<Longrightarrow> f \<in> set (retained w d) \<Longrightarrow> f < d_next d"
  by (auto simp: retained_def copies_set newest_def writer_ok_def on_disk_def disk_ok_def split: option.splits)

lemma journal_written:
  assumes "writer_ok w d"
  shows "concat (map ((d_data d)(lw_file w := d_data d (lw_file w) @ p)) (retained w d)) = journal_bytes w d @ p"
proof -
  obtain older where r: "retained w d = older @ [lw_file w]" "lw_file w \<notin> set older" using retained_last [OF assms] by blast
  then show ?thesis by (auto simp: journal_bytes_def intro!: arg_cong [of _ _ concat])
qed

text \<open>One write, whatever fails: the bytes taken are at the end of the journal, and at most the oldest copy has gone.\<close>

lemma WriteLog_ok:
  assumes wr: "WriteLog p k w d = (n, err, w', d')" and ok: "writer_ok w d" and path: "lw_path w \<noteq> []"
  shows "writer_ok w' d' \<and> same_log w w' \<and> n = min k (length p) \<and>
    (\<exists>gone left. retained w d = gone @ left \<and> (gone = [] \<or> length (retained w d) = slots w + 1 \<and> gone = [hd (retained w d)] \<and> lw_file w \<notin> set gone)
       \<and> journal_bytes w d @ take n p = concat (map (d_data d) gone) @ journal_bytes w' d'
       \<and> (if lw_file w' = lw_file w then retained w' d' = left \<and> d_next d' = d_next d
          else lw_file w' = d_next d \<and> retained w' d' = left @ [d_next d] \<and> d_next d < d_next d')
       \<and> (\<forall>f < d_next d. f \<noteq> lw_file w \<longrightarrow> d_data d' f = d_data d f))"
proof -
  define data where "data = (d_data d)(lw_file w := d_data d (lw_file w) @ take n p)"
  define d1 where "d1 = d\<lparr>d_data := data\<rparr>"
  define w1 where "w1 = w\<lparr>lw_written := lw_written w + int n\<rparr>"
  have n: "n = min k (length p)" using wr by (auto simp: WriteLog_def Let_def split: if_splits prod.splits)
  have at: "file_at d1 = file_at d" by (simp add: d1_def file_at_def fun_eq_iff)
  have same: "same_log w w1" by (simp add: w1_def same_log_def)
  have "disk_ok d1 = disk_ok d" by (simp add: disk_ok_def at) (simp add: d1_def)
  then have ok1: "writer_ok w1 d1" using ok by (cases "lw_displaced w = []") (auto simp: writer_ok_def on_disk_def at w1_def copyName_def)
  have r1: "retained w1 d1 = retained w d" unfolding same_log_simps(5) [OF same] by (auto simp: retained_def copies_def newest_def at split: option.splits)
  have bytes: "concat (map data (retained w d)) = journal_bytes w d @ take n p"
    unfolding data_def by (rule journal_written [OF ok])
  obtain older where last: "retained w d = older @ [lw_file w]" "lw_file w \<notin> set older" using retained_last [OF ok] by blast
  show ?thesis
  proof (cases "lw_written w1 \<ge> lw_maxSize w1")
    case False
    then have "w' = w1" "d' = d1" using wr n by (auto simp: WriteLog_def Let_def w1_def d1_def data_def split: if_splits)
    then show ?thesis using ok1 same n bytes r1
      by (intro conjI exI [of _ "[]"] exI [of _ "retained w d"]) (simp_all add: journal_bytes_def d1_def w1_def data_def)
  next
    case True
    obtain rerr where rot: "rotate_log w1 d1 = (rerr, w', d')"
      using wr n True by (auto simp: WriteLog_def Let_def w1_def d1_def data_def split: if_splits prod.splits)
    obtain fs where k: "kept_files w1 d1 fs" and to: "rotated_to w1 d1 fs (rerr, w', d')"
      using rotate_log_ok [OF ok1] path rot by (auto simp: w1_def)
    obtain gone where g: "retained w d = gone @ fs"
        "gone = [] \<or> length (retained w d) = slots w + 1 \<and> gone = [hd (retained w d)] \<and> lw_file w \<notin> set gone"
    proof (cases "fs = retained w d")
      case False
      then have "length (retained w d) = slots w + 1" "fs = tl (retained w d)"
        using k r1 same_log_simps [OF same] by (auto simp: kept_files_def)
      moreover from this last slots_pos [of w] have "older \<noteq> []" by (metis append_Nil length_Cons list.size(3) Suc_eq_plus1 nat.inject less_irrefl)
      ultimately show ?thesis using last that [of "[hd (retained w d)]"] by (cases older) auto
    qed (auto intro: that)
    have "concat (map data gone) = concat (map (d_data d) gone)"
      using g(2) by (intro arg_cong [of _ _ concat] map_cong) (auto simp: data_def)
    moreover have "concat (map (d_data d') (retained w' d')) = concat (map data fs)"
    proof -
      have "f \<in> set fs \<Longrightarrow> f < d_next d" for f using retained_known [OF ok] g(1) by auto
      then have "map (data(d_next d := [])) fs = map data fs" by (intro map_cong) auto
      then have "concat (map (data(d_next d := [])) fs) = concat (map data fs)" by (rule arg_cong)
      then show ?thesis using to by (cases "rerr = []") (simp_all add: rotated_to_def d1_def)
    qed
    ultimately have "journal_bytes w d @ take n p = concat (map (d_data d) gone) @ journal_bytes w' d'"
      using bytes g(1) by (simp add: journal_bytes_def)
    moreover have known: "lw_file w < d_next d" using ok by (auto simp: writer_ok_def on_disk_def disk_ok_def split: if_splits)
    moreover have wrote: "same_log w w'" "writer_ok w' d'" using to same by (auto simp: rotated_to_def same_log_def)
    moreover have "if lw_file w' = lw_file w then retained w' d' = fs \<and> d_next d' = d_next d
        else lw_file w' = d_next d \<and> retained w' d' = fs @ [d_next d] \<and> d_next d < d_next d'"
    proof (cases "rerr = []")
      case True
      then have "lw_file w' = d_next d" "retained w' d' = fs @ [d_next d]" using to by (simp_all add: rotated_to_def d1_def)
      moreover have "lw_file w' < d_next d'" using wrote(2) by (auto simp: writer_ok_def on_disk_def disk_ok_def split: if_splits)
      ultimately show ?thesis using known by simp
    qed (use to in \<open>simp add: rotated_to_def d1_def w1_def\<close>)
    moreover have "\<forall>f < d_next d. f \<noteq> lw_file w \<longrightarrow> d_data d' f = d_data d f"
      using to by (cases "rerr = []") (simp_all add: rotated_to_def d1_def data_def)
    ultimately show ?thesis using g n by (intro conjI exI [of _ gone] exI [of _ fs]) simp_all
  qed
qed

fun write_all :: "(string \<times> nat) list \<Rightarrow> LogWriter \<times> disk \<Rightarrow> LogWriter \<times> disk" where
  "write_all [] (w, d) = (w, d)"
| "write_all ((p, k) # ps) (w, d) = (case WriteLog p k w d of (n, err, w1, d1) \<Rightarrow> write_all ps (w1, d1))"

definition accepted_bytes :: "(string \<times> nat) list \<Rightarrow> string" where
  "accepted_bytes ps = concat (map (\<lambda>(p, k). take (min k (length p)) p) ps)"

text \<open>
  Any number of writes, followed in files: those there were at the start and those opened since leave from the
  front, as they are, and never so many that fewer than all slots but one stay.
\<close>

lemma write_all_ok:
  "write_all ps (w, d) = (w', d') \<Longrightarrow> writer_ok w d \<Longrightarrow> lw_path w \<noteq> [] \<Longrightarrow>
    writer_ok w' d' \<and> same_log w w' \<and> d_next d \<le> d_next d'
    \<and> (\<exists>gone fresh. retained w d @ fresh = gone @ retained w' d' \<and> list_all (\<lambda>f. d_next d \<le> f) fresh
        \<and> journal_bytes w d @ accepted_bytes ps = concat (map (d_data d') gone) @ journal_bytes w' d'
        \<and> (gone = [] \<or> slots w \<le> length (retained w' d'))
        \<and> (lw_file w' = lw_file w \<longrightarrow> fresh = [] \<and> length gone \<le> 1 \<and> (gone \<noteq> [] \<longrightarrow> length (retained w d) = slots w + 1))
        \<and> (lw_file w' \<noteq> lw_file w \<longrightarrow> d_next d \<le> lw_file w'))
    \<and> (\<forall>f < d_next d. f \<noteq> lw_file w \<longrightarrow> d_data d' f = d_data d f)"
proof (induction ps arbitrary: w d)
  case Nil
  then show ?case by (auto simp: accepted_bytes_def)
next
  case (Cons pk ps)
  obtain p k where pk: "pk = (p, k)" by (cases pk)
  obtain n err w1 d1 where one: "WriteLog p k w d = (n, err, w1, d1)" by (metis prod_cases4)
  have rest: "write_all ps (w1, d1) = (w', d')" using Cons.prems(1) by (simp add: pk one)
  from WriteLog_ok [OF one Cons.prems(2,3)] obtain gone left where
    ok1: "writer_ok w1 d1" and same: "same_log w w1" and n: "n = min k (length p)"
    and r: "retained w d = gone @ left" and g: "gone = [] \<or> length (retained w d) = slots w + 1 \<and> gone = [hd (retained w d)] \<and> lw_file w \<notin> set gone"
    and b: "journal_bytes w d @ take n p = concat (map (d_data d) gone) @ journal_bytes w1 d1"
    and f: "if lw_file w1 = lw_file w then retained w1 d1 = left \<and> d_next d1 = d_next d
        else lw_file w1 = d_next d \<and> retained w1 d1 = left @ [d_next d] \<and> d_next d < d_next d1"
    and old: "\<forall>f < d_next d. f \<noteq> lw_file w \<longrightarrow> d_data d1 f = d_data d f"
    by blast
  have "lw_path w1 \<noteq> []" using same Cons.prems(3) by (simp add: same_log_def)
  from Cons.IH [OF rest ok1 this] obtain gone' fresh' where
    ok': "writer_ok w' d'" "same_log w1 w'" "d_next d1 \<le> d_next d'"
    and r': "retained w1 d1 @ fresh' = gone' @ retained w' d'" "list_all (\<lambda>f. d_next d1 \<le> f) fresh'"
    and b': "journal_bytes w1 d1 @ accepted_bytes ps = concat (map (d_data d') gone') @ journal_bytes w' d'"
    and s': "gone' = [] \<or> slots w1 \<le> length (retained w' d')"
    and g': "lw_file w' = lw_file w1 \<longrightarrow> fresh' = [] \<and> length gone' \<le> 1 \<and> (gone' \<noteq> [] \<longrightarrow> length (retained w1 d1) = slots w1 + 1)"
        "lw_file w' \<noteq> lw_file w1 \<longrightarrow> d_next d1 \<le> lw_file w'"
    and old': "\<forall>f < d_next d1. f \<noteq> lw_file w1 \<longrightarrow> d_data d' f = d_data d1 f"
    by blast
  have slots: "slots w1 = slots w" using same by (rule same_log_simps)
  have next1: "d_next d \<le> d_next d1" using f by (auto split: if_splits)
  have known: "lw_file w < d_next d" using Cons.prems(2) by (auto simp: writer_ok_def on_disk_def disk_ok_def split: if_splits)
  have w1: "lw_file w1 = lw_file w \<or> lw_file w1 = d_next d" using f by (auto split: if_splits)
  have old2: "\<forall>f < d_next d. f \<noteq> lw_file w \<longrightarrow> d_data d' f = d_data d f"
  proof (intro allI impI)
    fix x
    assume x: "x < d_next d" "x \<noteq> lw_file w"
    then have "x < d_next d1" "x \<noteq> lw_file w1" using next1 w1 by auto
    with x old old' show "d_data d' x = d_data d x" by simp
  qed
  define new where "new = (if lw_file w1 = lw_file w then [] else [d_next d])"
  have r1: "retained w1 d1 = left @ new" using f by (auto simp: new_def split: if_splits)
  let ?gone = "gone @ gone'" and ?fresh = "new @ fresh'"
  have files: "retained w d @ ?fresh = ?gone @ retained w' d'"
    using r'(1) unfolding r r1 by simp
  have fresh: "list_all (\<lambda>f. d_next d \<le> f) ?fresh"
    using r'(2) next1 by (auto simp: new_def list_all_iff dest: order_trans)
  have same_data: "map (d_data d') gone = map (d_data d) gone"
  proof (rule map_cong [OF refl])
    fix x
    assume x: "x \<in> set gone"
    then have "x \<in> set (retained w d)" using r by simp
    then have "x < d_next d" by (rule retained_known [OF Cons.prems(2)])
    moreover have "x \<noteq> lw_file w" using g x by auto
    ultimately show "d_data d' x = d_data d x" using old2 by simp
  qed
  have bytes: "journal_bytes w d @ accepted_bytes (pk # ps) = concat (map (d_data d') ?gone) @ journal_bytes w' d'"
  proof -
    have "journal_bytes w d @ accepted_bytes (pk # ps) = (journal_bytes w d @ take n p) @ accepted_bytes ps"
      by (simp add: accepted_bytes_def pk n)
    also have "\<dots> = concat (map (d_data d) gone) @ journal_bytes w1 d1 @ accepted_bytes ps" by (simp only: b append_assoc)
    finally show ?thesis by (simp only: b' append_assoc map_append concat_append same_data)
  qed
  have stays: "?gone = [] \<or> slots w \<le> length (retained w' d')"
  proof (cases "gone' = []")
    case True
    then have "length (retained w' d') = length left + length new + length fresh'" using r'(1) unfolding r1 by (metis append_Nil length_append)
    moreover from g have "gone = [] \<or> length gone = 1 \<and> length gone + length left = slots w + 1"
      unfolding r by (metis length_append length_Cons list.size(3) One_nat_def)
    ultimately show ?thesis using True by auto
  qed (use s' slots in simp)
  have one_file: "?fresh = [] \<and> length ?gone \<le> 1 \<and> (?gone \<noteq> [] \<longrightarrow> length (retained w d) = slots w + 1)" if same_file: "lw_file w' = lw_file w"
  proof -
    have l: "lw_file w1 = lw_file w"
    proof (rule ccontr)
      assume "lw_file w1 \<noteq> lw_file w"
      moreover from this have "lw_file w1 = d_next d" using w1 by simp
      moreover have "lw_file w' \<noteq> lw_file w1" using calculation(1) that by simp
      ultimately show False using g'(2) next1 known that by simp
    qed
    then have n: "new = []" by (simp add: new_def)
    have "lw_file w' = lw_file w1" using l that by simp
    then have h: "fresh' = []" "length gone' \<le> 1" "gone' \<noteq> [] \<longrightarrow> length left = slots w + 1" using g'(1) r1 n slots by simp_all
    from g have "gone = [] \<or> length gone = 1 \<and> length gone + length left = slots w + 1 \<and> length (retained w d) = slots w + 1"
      unfolding r by (metis length_append length_Cons list.size(3) One_nat_def)
    then have "gone = [] \<or> length gone = 1 \<and> length left = slots w \<and> length (retained w d) = slots w + 1" by auto
    with h n r show ?thesis by (cases "gone = []") auto
  qed
  have later: "d_next d \<le> lw_file w'" if "lw_file w' \<noteq> lw_file w"
    using that g'(2) next1 w1 by (cases "lw_file w' = lw_file w1") auto
  have "same_log w w'" using same ok'(2) by (simp add: same_log_def)
  moreover have "d_next d \<le> d_next d'" using next1 ok'(3) by simp
  ultimately show ?case using ok'(1) files fresh bytes stays one_file later old2 by blast
qed

section \<open>Opening the log\<close>

lemma NewWriter_ok:
  assumes new: "NewWriter path maxSize maxFiles d = (Inr w, d')" and ok: "disk_ok d"
    and one: "file_at d path = None \<or> file_at d (path @ StagingSuffix) = None" and path: "path \<noteq> []"
  shows "writer_ok w d' \<and> lw_path w = path \<and> journal_bytes w d' = journal_bytes w d"
proof -
  obtain x d1 where r: "(if file_at d path = None then rename (path @ StagingSuffix) path d else (None, d)) = (x, d1)"
    by (rule prod.exhaust)
  obtain f where o: "openFile path d1 = (Inr f, d')"
      and w: "w = \<lparr>lw_path = path, lw_maxSize = maxSize, lw_maxFiles = maxFiles, lw_file = f,
                 lw_written = int (length (d_data d' f)), lw_displaced = []\<rparr>" and x: "x \<noteq> Some FsFailed"
    using new by (auto simp: NewWriter_def Let_def r split: option.splits fs_error.splits sum.splits prod.splits)
  have ok1: "disk_ok d1" "d_data d1 = d_data d"
      and at1: "file_at d1 = (if file_at d path = None \<and> file_at d (path @ StagingSuffix) \<noteq> None
         then (file_at d)(path := file_at d (path @ StagingSuffix), path @ StagingSuffix := None) else file_at d)"
    using r ok x rename_done [of "path @ StagingSuffix" path d d1] rename_failed [of "path @ StagingSuffix" path d _ d1]
    by (auto split: if_splits) (metis fs_error.exhaust option.exhaust)+
  have staged: "file_at d1 (path @ StagingSuffix) = None" using one by (auto simp: at1)
  have letter: "Itoa (int i) \<noteq> ''staging''" for i using Itoa_not_letter [of i] by auto
  have bound: "file_at d a = Some g \<Longrightarrow> g < d_next d" for a g using ok by (simp add: disk_ok_def)
  have next1: "d_next d1 = d_next d"
    using r ok rename_done [of "path @ StagingSuffix" path d d1] rename_failed [of "path @ StagingSuffix" path d _ d1]
    by (cases x) (auto split: if_splits)
  define before where "before = (case file_at d1 path of Some g \<Rightarrow> [g] | None \<Rightarrow> [])"
  have before: "newest w d = before"
    using one by (auto simp: before_def newest_def w at1 split: option.splits)
  have new_file: "disk_ok d' \<and> file_at d' = (file_at d1)(path := Some f)
      \<and> (if before = [] then f = d_next d \<and> d_data d' = (d_data d)(f := []) else before = [f] \<and> d_data d' = d_data d)"
  proof (cases "file_at d1 path")
    case None
    with open_fresh [OF o ok1(1)] ok1(2) next1 show ?thesis by (simp add: before_def)
  next
    case (Some g)
    then show ?thesis using o ok1 by (auto simp: openFile_def Let_def fun_eq_iff before_def split: if_splits)
  qed
  have cs: "copies w d' = copies w d"
    by (intro copies_cong) (use new_file at1 letter in \<open>auto simp: copy_slots_def w copyName_def\<close>)
  have "newest w d' = [f]" using new_file by (auto simp: newest_def w)
  moreover have m: "concat (map (d_data d') (copies w d)) = concat (map (d_data d) (copies w d))"
    using new_file bound by (intro arg_cong [of _ _ concat] map_cong) (fastforce simp: copies_set split: if_splits)+
  moreover have "concat (map (d_data d') [f]) = concat (map (d_data d) before)" using new_file by (auto split: if_splits)
  ultimately have "journal_bytes w d' = journal_bytes w d"
    by (simp only: journal_bytes_def retained_def cs before map_append concat_append)
  moreover have "writer_ok w d'" using new_file staged path by (auto simp: writer_ok_def on_disk_def w)
  ultimately show ?thesis by (simp add: w)
qed

lemma NewWriter_maxFiles: "NewWriter path maxSize maxFiles d = (Inr w, d') \<Longrightarrow> lw_maxFiles w = maxFiles"
  by (auto simp: NewWriter_def Let_def split: option.splits fs_error.splits sum.splits prod.splits)

section \<open>The journal through failing rotations\<close>

definition example_disk :: "bool list \<Rightarrow> disk" where
  "example_disk faults = \<lparr>d_names = [(''j.1'', 0), (''j.staging'', 1)], d_data = (\<lambda>f. if f = 0 then ''old'' else ''ab''),
     d_next = 2, d_faults = faults\<rparr>"

definition example_writer :: LogWriter where
  "example_writer = \<lparr>lw_path = ''j'', lw_maxSize = 4, lw_maxFiles = 1, lw_file = 1, lw_written = 2, lw_displaced = []\<rparr>"

lemma example_disk_ok: "disk_ok (example_disk faults)"
  by (auto simp: disk_ok_def example_disk_def file_at_def gomap_ok_def split: if_splits)

text \<open>
  What one write may do to the files a reader finds: nothing leaves them, or the oldest of them does when every slot
  for a copy is taken beside the newest; and at most one file is added.
\<close>

definition drops_oldest :: "LogWriter \<times> disk \<Rightarrow> string \<times> nat \<Rightarrow> bool" where
  "drops_oldest s pk =
     (let files = case_prod retained s; files' = case_prod retained (write_all [pk] s)
      in \<exists>fresh. length fresh \<le> 1 \<and>
           (files' = files @ fresh \<or> length files = slots (fst s) + 1 \<and> files' = tl files @ fresh))"

lemma WriteLog_drops_oldest:
  assumes "writer_ok w d" and "lw_path w \<noteq> []"
  shows "drops_oldest (w, d) pk"
proof -
  obtain p k where pk: "pk = (p, k)" by (cases pk)
  obtain n err w1 d1 where one: "WriteLog p k w d = (n, err, w1, d1)" by (metis prod_cases4)
  from WriteLog_ok [OF one assms] obtain gone left where
    r: "retained w d = gone @ left"
    and g: "gone = [] \<or> length (retained w d) = slots w + 1 \<and> gone = [hd (retained w d)] \<and> lw_file w \<notin> set gone"
    and f: "if lw_file w1 = lw_file w then retained w1 d1 = left \<and> d_next d1 = d_next d
        else lw_file w1 = d_next d \<and> retained w1 d1 = left @ [d_next d] \<and> d_next d < d_next d1"
    by blast
  from f obtain fresh where fresh: "length fresh \<le> 1" "retained w1 d1 = left @ fresh"
    by (cases "lw_file w1 = lw_file w") (auto intro: that [of "[]"] that [of "[d_next d]"])
  have "left = retained w d \<or> length (retained w d) = slots w + 1 \<and> left = tl (retained w d)"
    using g r by (metis append_Nil append_Cons list.sel(3))
  then have "length fresh \<le> 1 \<and> (retained w1 d1 = retained w d @ fresh
      \<or> length (retained w d) = slots w + 1 \<and> retained w1 d1 = tl (retained w d) @ fresh)"
    using fresh by metis
  then show ?thesis unfolding drops_oldest_def Let_def pk by (intro exI [of _ fresh]) (simp add: one)
qed


definition example_opened :: "bool list \<Rightarrow> disk" where
  "example_opened faults = snd (NewWriter ''j'' 4 1 (example_disk faults))"

definition example_writes :: "bool list \<Rightarrow> LogWriter \<times> disk" where
  "example_writes faults = write_all [(''cd'', 2), (''ef'', 1)] (example_writer, example_opened faults)"

lemma example_opens:
  assumes "take 2 faults = [False, False]"
  shows "NewWriter ''j'' 4 1 (example_disk faults) = (Inr example_writer, example_opened faults)"
proof -
  obtain fs where "faults = False # False # fs" using assms by (cases faults; cases "tl faults") auto
  then show ?thesis
    by (simp add: example_opened_def NewWriter_def example_disk_def example_writer_def file_at_def rename_def openFile_def faulty_def tick_fault_def)
qed

lemma example_alone: "file_at (example_disk faults) ''j'' = None"
  by (simp add: file_at_def example_disk_def)


text \<open>
  A rotation that keeps failing drops at most one copy however often it is retried: while no fresh live
  file has been installed, the journal has lost nothing but the oldest copy, and that only if every slot
  for a copy was taken beside the open file.
\<close>

theorem retried_rotation_drops_one_copy:
  assumes "writer_ok w d" and "lw_path w \<noteq> []" and "write_all ps (w, d) = (w', d')" and "lw_file w' = lw_file w"
  shows "\<exists>gone. retained w d = gone @ retained w' d'
    \<and> (gone = [] \<or> length gone = 1 \<and> length (retained w d) = slots w + 1)
    \<and> journal_bytes w d @ accepted_bytes ps = concat (map (d_data d') gone) @ journal_bytes w' d'"
proof -
  from write_all_ok [OF assms(3,1,2)] obtain gone fresh where
    g: "retained w d @ fresh = gone @ retained w' d'" "fresh = []" "length gone \<le> 1" "gone \<noteq> [] \<longrightarrow> length (retained w d) = slots w + 1"
    and b: "journal_bytes w d @ accepted_bytes ps = concat (map (d_data d') gone) @ journal_bytes w' d'"
    using assms(4) by blast
  from g(3) have "gone = [] \<or> length gone = 1" by (cases gone) auto
  with g b show ?thesis by (intro exI [of _ gone]) auto
qed

text \<open>
  When the open file is removed while it is displaced, no later write replaces it: \<^verbatim>\<open>recreate\<close> is only
  reached from the live path. Every byte from then on goes to a file that has no name.
\<close>

lemma displaced_file_never_replaced:
  assumes "lw_displaced w \<noteq> []" and "file_at d (lw_displaced w) = None" and "write_all ps (w, d) = (w', d')"
  shows "lw_file w' = lw_file w \<and> lw_displaced w' = lw_displaced w \<and> file_at d' = file_at d"
  using assms
proof (induction ps arbitrary: w d)
  case (Cons pk ps)
  obtain p k where pk: "pk = (p, k)" by (cases pk)
  obtain n err w1 d1 where one: "WriteLog p k w d = (n, err, w1, d1)" by (metis prod_cases4)
  have "lw_file w1 = lw_file w \<and> lw_displaced w1 = lw_displaced w \<and> file_at d1 = file_at d"
  proof -
    have at: "file_at (d\<lparr>d_data := x\<rparr>) = file_at d" for x by (simp add: file_at_def fun_eq_iff)
    then show ?thesis
      using one Cons.prems(1,2)
      by (auto simp: WriteLog_def Let_def rotate_log_def rename_def split: if_splits prod.splits option.splits)
  qed
  with Cons.IH [of w1 d1] Cons.prems one show ?case by (simp add: pk)
qed simp

end
