(* ===== verification/Log_Query.thy ===== *)
theory Log_Query
  imports Log_Rotate Proc_State
begin

text \<open>
  Pages of the event journal (\<^verbatim>\<open>internal/logs/query.go\<close>): pinning the files of the journal, reading their
  complete records, filtering, and cutting a page to a number of events and a budget of bytes. JSON and the
  Unicode case tables are a \<open>codec\<close>: how an event is encoded and decoded, and \<^verbatim>\<open>strings.ToLower\<close>.
\<close>

section \<open>Events and options\<close>

record LogEntry =
  le_Version :: int
  le_ID :: string
  le_RunID :: string
  le_AttemptID :: string
  le_Sequence :: "64 word"
  le_Session :: string
  le_Time :: int
  le_Process :: string
  le_Line :: string
  le_Kind :: string
  le_Level :: string
  le_Code :: string
  le_Stream :: string
  le_PID :: int
  le_Generation :: "64 word"
  le_State :: "ipcProcState option"
  le_Truncated :: bool
  le_OriginalBytes :: int
  le_IsEvent :: bool
  le_IsError :: bool

record codec =
  cd_encode :: "LogEntry \<Rightarrow> string option"
  cd_decode :: "string \<Rightarrow> LogEntry option"
  cd_lower :: "string \<Rightarrow> string"

text \<open>A zero \<^verbatim>\<open>Since\<close> is \<open>None\<close>.\<close>

record LogOptions =
  lo_Limit :: int
  lo_MaxBytes :: int
  lo_After :: string
  lo_Tail :: bool
  lo_Processes :: "string list"
  lo_Level :: string
  lo_Kind :: string
  lo_Code :: string
  lo_Stream :: string
  lo_Search :: string
  lo_Since :: "int option"
  lo_RunID :: string
  lo_AttemptID :: string
  lo_Generation :: "64 word"

record LogPage =
  pg_Events :: "LogEntry list"
  pg_NextCursor :: string
  pg_HasMore :: bool
  pg_Gap :: bool
  pg_Truncated :: bool
  pg_EventBytes :: int

datatype query_error =
    PageLimits
  | InvalidCursor
  | JournalMissing
  | JournalUnreadable
  | JournalBusy
  | RecordTooLong
  | InvalidRecord
  | UnsupportedSchema
  | NotEncodable
  | MetadataTooLong

abbreviation MaxEventBytes :: nat where "MaxEventBytes \<equiv> 16777216"

definition matches :: "codec \<Rightarrow> LogOptions \<Rightarrow> LogEntry \<Rightarrow> bool" where
  "matches cd opts event =
     ((lo_Processes opts = [] \<or> le_Process event \<in> set (lo_Processes opts))
      \<and> (lo_Level opts = [] \<or> lo_Level opts = le_Level event)
      \<and> (lo_Kind opts = [] \<or> lo_Kind opts = le_Kind event)
      \<and> (lo_Code opts = [] \<or> lo_Code opts = le_Code event)
      \<and> (lo_Stream opts = [] \<or> lo_Stream opts = le_Stream event)
      \<and> (lo_RunID opts = [] \<or> lo_RunID opts = le_RunID event)
      \<and> (lo_AttemptID opts = [] \<or> lo_AttemptID opts = le_AttemptID event)
      \<and> (lo_Generation opts = 0 \<or> lo_Generation opts = le_Generation event)
      \<and> (case lo_Since opts of None \<Rightarrow> True | Some t \<Rightarrow> \<not> le_Time event < t)
      \<and> (lo_Search opts = [] \<or> Contains (cd_lower cd (le_Line event)) (cd_lower cd (lo_Search opts))))"

section \<open>Fitting an event\<close>

text \<open>\<^verbatim>\<open>utf8.ValidString\<close>: the byte ranges of well-formed sequences.\<close>

definition byte_in :: "nat \<Rightarrow> nat \<Rightarrow> char \<Rightarrow> bool" where
  "byte_in lo hi c = (lo \<le> of_char c \<and> of_char c \<le> hi)"

fun ValidString :: "string \<Rightarrow> bool" where
  "ValidString [] = True"
| "ValidString (a # s) =
     (if byte_in 0 127 a then ValidString s
      else case s of
        [] \<Rightarrow> False
      | b # s1 \<Rightarrow>
          if byte_in 194 223 a then byte_in 128 191 b \<and> ValidString s1
          else case s1 of
            [] \<Rightarrow> False
          | c # s2 \<Rightarrow>
              if byte_in 224 239 a
              then byte_in (if byte_in 224 224 a then 160 else 128) (if byte_in 237 237 a then 159 else 191) b
                   \<and> byte_in 128 191 c \<and> ValidString s2
              else case s2 of
                [] \<Rightarrow> False
              | e # s3 \<Rightarrow>
                  byte_in 240 244 a
                  \<and> byte_in (if byte_in 240 240 a then 144 else 128) (if byte_in 244 244 a then 143 else 191) b
                  \<and> byte_in 128 191 c \<and> byte_in 128 191 e \<and> ValidString s3)"

function trim_valid :: "string \<Rightarrow> string" where
  "trim_valid s = (if s \<noteq> [] \<and> \<not> ValidString s then trim_valid (butlast s) else s)"
  by auto
termination by (relation "measure length") auto

declare trim_valid.simps [simp del]

text \<open>The length of what \<^verbatim>\<open>json.Marshal\<close> returns: nothing beside an error.\<close>

definition encoded_length :: "codec \<Rightarrow> LogEntry \<Rightarrow> int" where
  "encoded_length cd event = (case cd_encode cd event of Some s \<Rightarrow> int (length s) | None \<Rightarrow> 0)"

function fit_search :: "codec \<Rightarrow> int \<Rightarrow> LogEntry \<Rightarrow> string \<Rightarrow> nat \<Rightarrow> nat \<Rightarrow> nat" where
  "fit_search cd budget event message low high =
     (if low < high
      then let middle = (low + high + 1) div 2
           in if encoded_length cd (event\<lparr>le_Line := trim_valid (take middle message)\<rparr>) \<le> budget
              then fit_search cd budget event message middle high
              else fit_search cd budget event message low (middle - 1)
      else low)"
  by auto
termination by (relation "measure (\<lambda>(cd, budget, event, message, low, high). high - low)") auto

declare fit_search.simps [simp del]

text \<open>What a shortened event keeps.\<close>

definition stripped :: "LogEntry \<Rightarrow> LogEntry" where
  "stripped event = event\<lparr>le_Truncated := True, le_State := None,
     le_OriginalBytes := (if le_OriginalBytes event = 0 then int (length (le_Line event)) else le_OriginalBytes event)\<rparr>"

definition fit :: "codec \<Rightarrow> LogEntry \<Rightarrow> int \<Rightarrow> query_error + LogEntry \<times> int" where
  "fit cd event budget =
     (case cd_encode cd event of
        None \<Rightarrow> Inl NotEncodable
      | Some encoded \<Rightarrow>
          if int (length encoded) \<le> budget then Inr (event, int (length encoded))
          else let message = le_Line event;
                   low = fit_search cd budget (stripped event) message 0 (length message);
                   short = (stripped event)\<lparr>le_Line := trim_valid (take low message)\<rparr>
               in if encoded_length cd short > budget then Inl MetadataTooLong
                  else if cd_encode cd short = None then Inl NotEncodable
                  else Inr (short, encoded_length cd short))"

section \<open>Reading the journal\<close>

text \<open>
  The records of one file: the lines that end in a newline. A line that outgrows the buffer of the scanner,
  complete or not, is an error, met after the lines before it.
\<close>

fun complete_lines :: "string \<Rightarrow> string \<Rightarrow> (query_error + string) list" where
  "complete_lines line [] = (if length line \<ge> MaxEventBytes then [Inl RecordTooLong] else [])"
| "complete_lines line (c # cs) =
     (if c = char_of (10 :: nat)
      then (if length line + 1 > MaxEventBytes then [Inl RecordTooLong] else Inr (rev line) # complete_lines [] cs)
      else complete_lines (c # line) cs)"

definition read_record :: "codec \<Rightarrow> query_error + string \<Rightarrow> query_error + LogEntry" where
  "read_record cd line = (case line of
     Inl e \<Rightarrow> Inl e
   | Inr s \<Rightarrow> (case cd_decode cd s of
         None \<Rightarrow> Inl InvalidRecord
       | Some event \<Rightarrow> if le_Version event \<noteq> 1 \<or> le_ID event = [] then Inl UnsupportedSchema else Inr event))"

definition read_files :: "codec \<Rightarrow> string list \<Rightarrow> (query_error + LogEntry) list" where
  "read_files cd contents = concat (map (map (read_record cd) \<circ> complete_lines []) contents)"

record scan_state =
  sc_page :: LogPage
  sc_found :: bool
  sc_run :: string
  sc_sequence :: "64 word"
  sc_sizes :: "int list"

datatype scan_result = Scanned scan_state | PageFull LogPage | ScanFailed query_error

text \<open>Older events leave the window of a tail page until it fits.\<close>

fun trim_tail :: "LogOptions \<Rightarrow> LogPage \<Rightarrow> int list \<Rightarrow> LogPage \<times> int list" where
  "trim_tail opts page [] = (page, [])"
| "trim_tail opts page (sz # sizes) =
     (if int (length (pg_Events page)) > lo_Limit opts \<or> pg_EventBytes page > lo_MaxBytes opts
      then trim_tail opts (page\<lparr>pg_EventBytes := pg_EventBytes page - sz, pg_Events := tl (pg_Events page), pg_Truncated := True\<rparr>) sizes
      else (page, sz # sizes))"

definition add_event :: "LogEntry \<Rightarrow> int \<Rightarrow> LogPage \<Rightarrow> LogPage" where
  "add_event bounded sz page = page\<lparr>pg_Events := pg_Events page @ [bounded], pg_EventBytes := pg_EventBytes page + sz,
     pg_Truncated := (pg_Truncated page \<or> le_Truncated bounded)\<rparr>"

definition scan_event :: "codec \<Rightarrow> LogOptions \<Rightarrow> LogEntry \<Rightarrow> scan_state \<Rightarrow> scan_result" where
  "scan_event cd opts event st =
     (let page0 = sc_page st;
          page = page0\<lparr>pg_Gap := (pg_Gap page0 \<or> sc_run st = le_RunID event \<and> sc_sequence st \<noteq> 0 \<and> le_Sequence event \<noteq> sc_sequence st + 1)\<rparr>;
          st1 = st\<lparr>sc_run := le_RunID event, sc_sequence := le_Sequence event\<rparr>
      in if \<not> sc_found st
         then (if le_ID event = lo_After opts
               then Scanned (st1\<lparr>sc_found := True, sc_page := page\<lparr>pg_NextCursor := le_ID event\<rparr>\<rparr>)
               else Scanned (st1\<lparr>sc_page := page\<rparr>))
         else if \<not> matches cd opts event
         then Scanned (st1\<lparr>sc_page := page\<lparr>pg_NextCursor := le_ID event\<rparr>\<rparr>)
         else if lo_Tail opts
         then (case fit cd event (lo_MaxBytes opts) of
                 Inl e \<Rightarrow> ScanFailed e
               | Inr (bounded, sz) \<Rightarrow> (case trim_tail opts (add_event bounded sz page) (sc_sizes st @ [sz]) of
                     (page1, sizes) \<Rightarrow> Scanned (st1\<lparr>sc_page := page1\<lparr>pg_NextCursor := le_ID event\<rparr>, sc_sizes := sizes\<rparr>)))
         else if int (length (pg_Events page)) = lo_Limit opts
              \<or> lo_MaxBytes opts - pg_EventBytes page < 1024 \<and> pg_Events page \<noteq> []
         then PageFull (page\<lparr>pg_HasMore := True\<rparr>)
         else (case fit cd event (lo_MaxBytes opts - pg_EventBytes page) of
                 Inl e \<Rightarrow> ScanFailed e
               | Inr (bounded, sz) \<Rightarrow>
                   Scanned (st1\<lparr>sc_page := (add_event bounded sz page)\<lparr>pg_NextCursor := le_ID event\<rparr>\<rparr>)))"

fun scan_records :: "codec \<Rightarrow> LogOptions \<Rightarrow> (query_error + LogEntry) list \<Rightarrow> scan_state \<Rightarrow> scan_result" where
  "scan_records cd opts [] st = Scanned st"
| "scan_records cd opts (Inl e # rs) st = ScanFailed e"
| "scan_records cd opts (Inr event # rs) st =
     (case scan_event cd opts event st of
        Scanned st1 \<Rightarrow> scan_records cd opts rs st1
      | r \<Rightarrow> r)"

section \<open>Pinning the files\<close>

text \<open>
  What the file system answers when the reader looks at a name, as a function of how often it has looked: a
  rotation may happen between any two looks. An opened file is pinned with the bytes it held then.
\<close>

datatype look = LookFile nat string | LookAbsent | LookError

abbreviation snapshotAttempts :: nat where "snapshotAttempts \<equiv> 5"

definition family_name :: "string \<Rightarrow> nat \<Rightarrow> string" where
  "family_name path i = (if i = 0 then path else path @ ''.'' @ Itoa (int i))"

text \<open>One pass over the names of the family: the pinned files, what was observed under each name, and whether every look was answered.\<close>

fun open_family :: "(nat \<Rightarrow> string \<Rightarrow> look) \<Rightarrow> string \<Rightarrow> nat list \<Rightarrow> nat \<Rightarrow> string list \<times> (string \<times> nat option) list \<times> bool \<times> nat" where
  "open_family fs path [] t = ([], [], True, t)"
| "open_family fs path (i # is) t =
     (let name = family_name path i; first = fs t name;
          live_gone = (i = 0 \<and> first = LookAbsent);
          name' = (if live_gone then path @ StagingSuffix else name);
          found = (if live_gone then fs (t + 1) name' else first);
          t' = (if live_gone then t + 2 else t + 1);
          seen = (if live_gone then [(name, None)] else [])
      in case found of
           LookError \<Rightarrow> ([], seen, False, t')
         | LookAbsent \<Rightarrow> (case open_family fs path is t' of (cs, obs, ok, t2) \<Rightarrow> (cs, seen @ (name', None) # obs, ok, t2))
         | LookFile f content \<Rightarrow>
             (case open_family fs path is t' of (cs, obs, ok, t2) \<Rightarrow> (content # cs, seen @ (name', Some f) # obs, ok, t2)))"

fun still_there :: "(nat \<Rightarrow> string \<Rightarrow> look) \<Rightarrow> (string \<times> nat option) list \<Rightarrow> nat \<Rightarrow> bool \<times> nat" where
  "still_there fs [] t = (True, t)"
| "still_there fs ((name, f) # obs) t =
     (let same = (case (f, fs t name) of
          (None, LookAbsent) \<Rightarrow> True
        | (Some f, LookFile g _) \<Rightarrow> f = g
        | _ \<Rightarrow> False)
      in if same then still_there fs obs (t + 1) else (False, t + 1))"

fun snapshot_attempt :: "nat \<Rightarrow> (nat \<Rightarrow> string \<Rightarrow> look) \<Rightarrow> string \<Rightarrow> nat \<Rightarrow> (query_error + string list) \<times> nat" where
  "snapshot_attempt 0 fs path t = (Inl JournalBusy, t)"
| "snapshot_attempt (Suc n) fs path t =
     (case open_family fs path [3, 2, 1, 0] t of
        (cs, obs, ok, t1) \<Rightarrow>
          if \<not> ok then (Inl JournalUnreadable, t1)
          else case still_there fs obs t1 of
              (True, t2) \<Rightarrow> (if cs = [] then (Inl JournalMissing, t2) else (Inr cs, t2))
            | (False, t2) \<Rightarrow> snapshot_attempt n fs path t2)"

definition snapshotFiles :: "(nat \<Rightarrow> string \<Rightarrow> look) \<Rightarrow> string \<Rightarrow> nat \<Rightarrow> (query_error + string list) \<times> nat" where
  "snapshotFiles fs path t = snapshot_attempt snapshotAttempts fs path t"

section \<open>A page\<close>

definition ParseUint :: "string \<Rightarrow> int option" where
  "ParseUint s = (case utoi s of Some n \<Rightarrow> if n < 2 ^ 64 then Some n else None | None \<Rightarrow> None)"

definition cursor_ok :: "string \<Rightarrow> bool" where
  "cursor_ok s = (case split_sep (CHR '':'') s of
     [run, n] \<Rightarrow> run \<noteq> [] \<and> ParseUint n \<noteq> None
   | _ \<Rightarrow> False)"

definition with_defaults :: "LogOptions \<Rightarrow> LogOptions" where
  "with_defaults opts = opts\<lparr>lo_Limit := (if lo_Limit opts = 0 then 50 else lo_Limit opts),
     lo_MaxBytes := (if lo_MaxBytes opts = 0 then 65536 else lo_MaxBytes opts)\<rparr>"

definition first_page :: "LogOptions \<Rightarrow> LogPage" where
  "first_page opts = \<lparr>pg_Events = [], pg_NextCursor = (if lo_After opts = ''start'' then [] else lo_After opts),
     pg_HasMore = False, pg_Gap = False, pg_Truncated = False, pg_EventBytes = 0\<rparr>"

definition scan_start :: "LogOptions \<Rightarrow> scan_state" where
  "scan_start opts = \<lparr>sc_page = first_page opts, sc_found = (lo_After opts = [] \<or> lo_After opts = ''start''),
     sc_run = [], sc_sequence = 0, sc_sizes = []\<rparr>"

text \<open>One scan: a page, or the page and whether the cursor was found.\<close>

definition scan_journal :: "codec \<Rightarrow> LogOptions \<Rightarrow> string list \<Rightarrow> query_error + LogPage \<times> bool" where
  "scan_journal cd opts contents =
     (case scan_records cd opts (read_files cd contents) (scan_start opts) of
        ScanFailed e \<Rightarrow> Inl e
      | PageFull page \<Rightarrow> Inr (page, True)
      | Scanned st \<Rightarrow> Inr (sc_page st, sc_found st))"

text \<open>A cursor that is not in the journal any more is answered with the tail and a gap.\<close>

definition Query :: "codec \<Rightarrow> (nat \<Rightarrow> string \<Rightarrow> look) \<Rightarrow> string \<Rightarrow> LogOptions \<Rightarrow> nat \<Rightarrow> (query_error + LogPage) \<times> nat" where
  "Query cd fs path opts0 t =
     (let opts = with_defaults opts0
      in if lo_Limit opts < 1 \<or> lo_Limit opts > 1000 \<or> lo_MaxBytes opts < 1024 \<or> lo_MaxBytes opts > 1048576 then (Inl PageLimits, t)
         else if lo_After opts \<noteq> [] \<and> lo_After opts \<noteq> ''start'' \<and> \<not> cursor_ok (lo_After opts) then (Inl InvalidCursor, t)
         else case snapshotFiles fs path t of
             (Inl e, t1) \<Rightarrow> (Inl e, t1)
           | (Inr contents, t1) \<Rightarrow> (case scan_journal cd opts contents of
                 Inl e \<Rightarrow> (Inl e, t1)
               | Inr (page, True) \<Rightarrow> (Inr page, t1)
               | Inr (page, False) \<Rightarrow>
                   (let tail = opts\<lparr>lo_After := [], lo_Tail := True\<rparr>
                    in case snapshotFiles fs path t1 of
                         (Inl e, t2) \<Rightarrow> (Inl e, t2)
                       | (Inr contents2, t2) \<Rightarrow> (case scan_journal cd tail contents2 of
                             Inl e \<Rightarrow> (Inl e, t2)
                           | Inr (page2, _) \<Rightarrow> (Inr (page2\<lparr>pg_Gap := True\<rparr>), t2)))))"

text \<open>
  The page that comes beside an error too: what was collected before the record that failed, whose sequence
  number has been compared when it is the fitting of its event that failed.
\<close>

definition sequence_gap :: "LogEntry \<Rightarrow> scan_state \<Rightarrow> bool" where
  "sequence_gap event st = (sc_run st = le_RunID event \<and> sc_sequence st \<noteq> 0 \<and> le_Sequence event \<noteq> sc_sequence st + 1)"

fun scan_page :: "codec \<Rightarrow> LogOptions \<Rightarrow> (query_error + LogEntry) list \<Rightarrow> scan_state \<Rightarrow> LogPage" where
  "scan_page cd opts [] st = sc_page st"
| "scan_page cd opts (Inl e # rs) st = sc_page st"
| "scan_page cd opts (Inr event # rs) st =
     (case scan_event cd opts event st of
        Scanned st1 \<Rightarrow> scan_page cd opts rs st1
      | PageFull page \<Rightarrow> page
      | ScanFailed e \<Rightarrow> (sc_page st)\<lparr>pg_Gap := pg_Gap (sc_page st) \<or> sequence_gap event st\<rparr>)"

definition Query_page :: "codec \<Rightarrow> (nat \<Rightarrow> string \<Rightarrow> look) \<Rightarrow> string \<Rightarrow> LogOptions \<Rightarrow> nat \<Rightarrow> LogPage" where
  "Query_page cd fs path opts0 t =
     (let opts = with_defaults opts0; untouched = (first_page opts)\<lparr>pg_NextCursor := lo_After opts\<rparr>
      in if lo_Limit opts < 1 \<or> lo_Limit opts > 1000 \<or> lo_MaxBytes opts < 1024 \<or> lo_MaxBytes opts > 1048576 then untouched
         else if lo_After opts \<noteq> [] \<and> lo_After opts \<noteq> ''start'' \<and> \<not> cursor_ok (lo_After opts) then untouched
         else case snapshotFiles fs path t of
             (Inl e, t1) \<Rightarrow> first_page opts
           | (Inr contents, t1) \<Rightarrow>
               (let page = scan_page cd opts (read_files cd contents) (scan_start opts)
                in case scan_journal cd opts contents of
                     Inr (_, False) \<Rightarrow>
                       (let tail = opts\<lparr>lo_After := [], lo_Tail := True\<rparr>
                        in (case snapshotFiles fs path t1 of
                              (Inl e, t2) \<Rightarrow> first_page tail
                            | (Inr contents2, t2) \<Rightarrow> scan_page cd tail (read_files cd contents2) (scan_start tail))\<lparr>pg_Gap := True\<rparr>)
                   | _ \<Rightarrow> page))"

lemma scan_page_complete:
  "scan_records cd opts rs st = Scanned st' \<Longrightarrow> scan_page cd opts rs st = sc_page st'"
  "scan_records cd opts rs st = PageFull page \<Longrightarrow> scan_page cd opts rs st = page"
  by (induction cd opts rs st rule: scan_records.induct) (auto split: scan_result.splits)

lemma scan_journal_collects:
  "scan_journal cd opts contents = Inr (page, found) \<Longrightarrow> scan_page cd opts (read_files cd contents) (scan_start opts) = page"
  by (auto simp: scan_journal_def scan_page_complete split: scan_result.splits)

text \<open>A query that succeeds returns that page.\<close>

lemma Query_page_ok: "Query cd fs path opts t = (Inr page, t') \<Longrightarrow> Query_page cd fs path opts t = page"
  unfolding Query_def Query_page_def Let_def
  by (auto simp: scan_journal_collects split: if_splits prod.splits sum.splits bool.splits)

section \<open>Fitting keeps a page in its budget\<close>

lemma trim_valid_prefix: "prefix (trim_valid s) s"
proof (induction s rule: trim_valid.induct)
  case (1 s)
  then show ?case
    by (simp add: trim_valid.simps [of s]) (meson butlast_take prefix_order.trans prefixeq_butlast)
qed

lemma trim_valid_Nil [simp]: "trim_valid [] = []"
  by (simp add: trim_valid.simps)

lemma trim_valid_valid: "ValidString (trim_valid s)"
proof (induction s rule: trim_valid.induct)
  case (1 s)
  then show ?case by (cases "s = []") (auto simp: trim_valid.simps [of s])
qed

lemma fit_search_fits:
  "encoded_length cd (event\<lparr>le_Line := trim_valid (take low message)\<rparr>) \<le> budget
     \<Longrightarrow> encoded_length cd (event\<lparr>le_Line := trim_valid (take (fit_search cd budget event message low high) message)\<rparr>) \<le> budget"
proof (induction cd budget event message low high rule: fit_search.induct)
  case (1 cd budget event message low high)
  then show ?case by (simp add: fit_search.simps [of cd budget event message low high] Let_def)
qed

text \<open>\<open>shortened\<close>: the event as a page holds it, whole or cut to a valid prefix of its line.\<close>

definition shortened :: "LogEntry \<Rightarrow> LogEntry \<Rightarrow> bool" where
  "shortened e e' = (e' = e \<or> e' = (stripped e)\<lparr>le_Line := le_Line e'\<rparr> \<and> prefix (le_Line e') (le_Line e) \<and> ValidString (le_Line e'))"

lemma shortened_ID: "shortened e e' \<Longrightarrow> le_ID e' = le_ID e"
  by (auto simp: shortened_def stripped_def dest: arg_cong [of e' _ le_ID])

lemma fit_result:
  "fit cd e budget = Inr (e', n) \<Longrightarrow> n = encoded_length cd e' \<and> n \<le> budget \<and> shortened e e'"
  by (auto simp: fit_def encoded_length_def Let_def shortened_def trim_valid_valid
      intro: prefix_order.trans [OF trim_valid_prefix take_is_prefix] split: option.splits if_splits)

text \<open>An event whose identity fits can always be shortened to fit.\<close>

lemma fit_succeeds:
  assumes "\<And>x. cd_encode cd x \<noteq> None" and "encoded_length cd ((stripped e)\<lparr>le_Line := []\<rparr>) \<le> budget"
  shows "\<exists>e' n. fit cd e budget = Inr (e', n)"
proof -
  have enc: "\<exists>s. cd_encode cd x = Some s" for x using assms(1) by auto
  have "encoded_length cd ((stripped e)\<lparr>le_Line := trim_valid (take (fit_search cd budget (stripped e) (le_Line e) 0 (length (le_Line e))) (le_Line e))\<rparr>) \<le> budget"
    using assms(2) by (intro fit_search_fits) simp
  moreover obtain s where "cd_encode cd e = Some s" using enc by blast
  moreover obtain s' where "cd_encode cd ((stripped e)\<lparr>le_Line := trim_valid (take (fit_search cd budget (stripped e) (le_Line e) 0 (length (le_Line e))) (le_Line e))\<rparr>) = Some s'"
    using enc by blast
  ultimately show ?thesis by (auto simp: fit_def Let_def)
qed

section \<open>Pages are within their limits\<close>

abbreviation total_bytes :: "codec \<Rightarrow> LogEntry list \<Rightarrow> int" where
  "total_bytes cd es \<equiv> sum_list (map (encoded_length cd) es)"

definition limits_ok :: "LogOptions \<Rightarrow> bool" where
  "limits_ok opts = (1 \<le> lo_Limit opts \<and> lo_Limit opts \<le> 1000 \<and> 1024 \<le> lo_MaxBytes opts \<and> lo_MaxBytes opts \<le> 1048576)"

definition page_ok :: "codec \<Rightarrow> LogOptions \<Rightarrow> LogPage \<Rightarrow> bool" where
  "page_ok cd opts page = (pg_EventBytes page = total_bytes cd (pg_Events page)
     \<and> int (length (pg_Events page)) \<le> lo_Limit opts \<and> pg_EventBytes page \<le> lo_MaxBytes opts)"

definition scan_ok :: "codec \<Rightarrow> LogOptions \<Rightarrow> scan_state \<Rightarrow> bool" where
  "scan_ok cd opts st = (page_ok cd opts (sc_page st)
     \<and> (lo_Tail opts \<longrightarrow> sc_sizes st = map (encoded_length cd) (pg_Events (sc_page st))))"

lemma trim_tail_ok:
  assumes "trim_tail opts page sizes = (page', sizes')" and "sizes = map (encoded_length cd) (pg_Events page)"
    and "pg_EventBytes page = sum_list sizes" and "0 \<le> lo_Limit opts" and "0 \<le> lo_MaxBytes opts"
  shows "sizes' = map (encoded_length cd) (pg_Events page') \<and> page_ok cd opts page'"
  using assms
proof (induction opts page sizes rule: trim_tail.induct)
  case (1 opts page)
  then show ?case by (auto simp: page_ok_def)
next
  case (2 opts page sz sizes)
  obtain e es where es: "pg_Events page = e # es" "sizes = map (encoded_length cd) es" "sz = encoded_length cd e"
    using 2(3) by (cases "pg_Events page") auto
  show ?case
  proof (cases "int (length (pg_Events page)) > lo_Limit opts \<or> pg_EventBytes page > lo_MaxBytes opts")
    case True
    show ?thesis using 2(1) [OF True] 2(2-) True by (simp add: es)
  next
    case False
    then show ?thesis using 2(2-) by (auto simp: page_ok_def)
  qed
qed

lemma scan_event_ok:
  assumes ok: "scan_ok cd opts st" and lim: "limits_ok opts"
  shows "case scan_event cd opts event st of Scanned st' \<Rightarrow> scan_ok cd opts st' | PageFull page \<Rightarrow> page_ok cd opts page | ScanFailed e \<Rightarrow> True"
proof -
  define page where "page = (sc_page st)\<lparr>pg_Gap := (pg_Gap (sc_page st) \<or> sc_run st = le_RunID event \<and> sc_sequence st \<noteq> 0 \<and> le_Sequence event \<noteq> sc_sequence st + 1)\<rparr>"
  have pok: "page_ok cd opts page" using ok by (simp add: scan_ok_def page_ok_def page_def)
  consider "\<not> sc_found st \<or> \<not> matches cd opts event" | "sc_found st" "matches cd opts event" "lo_Tail opts"
    | "sc_found st" "matches cd opts event" "\<not> lo_Tail opts" by blast
  then show ?thesis
  proof cases
    case 1
    with ok show ?thesis by (auto simp: scan_event_def Let_def scan_ok_def page_ok_def)
  next
    case 2
    show ?thesis
    proof (cases "fit cd event (lo_MaxBytes opts)")
      case (Inr r)
      obtain bounded sz where r: "r = (bounded, sz)" by (cases r)
      obtain page1 sizes where t: "trim_tail opts (add_event bounded sz page) (sc_sizes st @ [sz]) = (page1, sizes)" by (rule prod.exhaust)
      have "sz = encoded_length cd bounded" using fit_result [of cd event] Inr r by blast
      then have "sizes = map (encoded_length cd) (pg_Events page1) \<and> page_ok cd opts page1"
        using trim_tail_ok [OF t, of cd] ok 2(3) lim pok
        by (simp add: scan_ok_def page_def add_event_def limits_ok_def page_ok_def)
      then show ?thesis using 2 Inr r t unfolding scan_event_def Let_def page_def [symmetric] by (auto simp: scan_ok_def page_ok_def)
    qed (use 2 in \<open>simp add: scan_event_def Let_def\<close>)
  next
    case 3
    show ?thesis
    proof (cases "fit cd event (lo_MaxBytes opts - pg_EventBytes page)")
      case (Inr r)
      obtain bounded sz where r: "r = (bounded, sz)" by (cases r)
      have "sz = encoded_length cd bounded \<and> sz \<le> lo_MaxBytes opts - pg_EventBytes page" using fit_result [of cd event] Inr r by blast
      then show ?thesis using 3 Inr r pok unfolding scan_event_def Let_def page_def [symmetric]
        by (auto simp: scan_ok_def page_ok_def add_event_def)
    qed (use 3 pok in \<open>auto simp: scan_event_def Let_def page_def [symmetric] page_ok_def\<close>)
  qed
qed

lemma scan_records_ok:
  "scan_ok cd opts st \<Longrightarrow> limits_ok opts \<Longrightarrow>
     (case scan_records cd opts rs st of Scanned st' \<Rightarrow> page_ok cd opts (sc_page st') | PageFull page \<Rightarrow> page_ok cd opts page | ScanFailed e \<Rightarrow> True)"
proof (induction rs arbitrary: st)
  case Nil
  then show ?case by (simp add: scan_ok_def)
next
  case (Cons r rs)
  show ?case
  proof (cases r)
    case (Inr event)
    show ?thesis
    proof (cases "scan_event cd opts event st")
      case (Scanned st1)
      then show ?thesis using Cons.IH [of st1] scan_event_ok [OF Cons.prems, of event] Cons.prems(2) Inr by simp
    qed (use scan_event_ok [OF Cons.prems, of event] Inr in simp_all)
  qed simp
qed

lemma scan_journal_ok:
  assumes "scan_journal cd opts contents = Inr (page, found)" and lim: "limits_ok opts"
  shows "page_ok cd opts page"
proof -
  have "scan_ok cd opts (scan_start opts)" using lim by (simp add: scan_ok_def page_ok_def scan_start_def first_page_def limits_ok_def)
  from scan_records_ok [OF this lim, of "read_files cd contents"] assms(1) show ?thesis
    by (auto simp: scan_journal_def split: scan_result.splits)
qed

lemma Query_limits:
  assumes "Query cd fs path opts t = (Inr page, t')"
  shows "page_ok cd (with_defaults opts) page"
proof -
  let ?o = "with_defaults opts"
  have lim: "limits_ok ?o" using assms by (auto simp: Query_def Let_def limits_ok_def split: if_splits)
  obtain contents t1 where sn: "snapshotFiles fs path t = (Inr contents, t1)"
    using assms by (auto simp: Query_def Let_def split: if_splits prod.splits sum.splits)
  obtain p1 found where sj: "scan_journal cd ?o contents = Inr (p1, found)"
    using assms sn by (auto simp: Query_def Let_def split: if_splits prod.splits sum.splits)
  show ?thesis
  proof (cases found)
    case True
    then show ?thesis using assms sn sj scan_journal_ok [OF sj lim] by (auto simp: Query_def Let_def split: if_splits)
  next
    case False
    define tail where "tail = ?o\<lparr>lo_After := [], lo_Tail := True\<rparr>"
    obtain contents2 t2 page2 found2 where sj2: "scan_journal cd tail contents2 = Inr (page2, found2)" and "page = page2\<lparr>pg_Gap := True\<rparr>"
      using assms sn sj False by (auto simp: Query_def Let_def tail_def [symmetric] split: if_splits prod.splits sum.splits)
    moreover have "limits_ok tail" using lim by (simp add: limits_ok_def tail_def)
    ultimately show ?thesis using scan_journal_ok [OF sj2] by (simp add: page_ok_def tail_def)
  qed
qed

section \<open>Pages follow one another\<close>

text \<open>The events after a cursor.\<close>

definition events_after :: "string \<Rightarrow> LogEntry list \<Rightarrow> LogEntry list" where
  "events_after c evs = (if c = [] \<or> c = ''start'' then evs else tl (dropWhile (\<lambda>e. le_ID e \<noteq> c) evs))"

lemma events_after_split: "x = le_ID e \<Longrightarrow> \<forall>e' \<in> set pre. le_ID e' \<noteq> x \<Longrightarrow> x \<noteq> [] \<Longrightarrow> x \<noteq> ''start'' \<Longrightarrow> events_after x (pre @ e # post) = post"
  by (auto simp: events_after_def dropWhile_append)

text \<open>What one forward scan over the events after the cursor returns.\<close>

definition page_of :: "codec \<Rightarrow> LogOptions \<Rightarrow> LogEntry list \<Rightarrow> LogPage \<Rightarrow> bool" where
  "page_of cd opts rest page =
     (if pg_HasMore page
      then \<exists>evs1 e evs2. rest = evs1 @ e # evs2 \<and> pg_Events page \<noteq> []
             \<and> list_all2 shortened (filter (matches cd opts) evs1) (pg_Events page) \<and> pg_NextCursor page = le_ID (last evs1)
      else list_all2 shortened (filter (matches cd opts) rest) (pg_Events page))"

lemma page_of_moreI:
  "pg_HasMore page \<Longrightarrow> rest = evs1 @ e # evs2 \<Longrightarrow> pg_Events page \<noteq> [] \<Longrightarrow> list_all2 shortened (filter (matches cd opts) evs1) (pg_Events page)
     \<Longrightarrow> pg_NextCursor page = le_ID (last evs1) \<Longrightarrow> page_of cd opts rest page"
  by (auto simp: page_of_def)

definition fits_all :: "codec \<Rightarrow> LogEntry list \<Rightarrow> bool" where
  "fits_all cd evs = (\<forall>e \<in> set evs. \<forall>b \<ge> 1024. \<exists>r. fit cd e b = Inr r)"

lemma forward_scan:
  assumes "fits_all cd evs" and "limits_ok opts" and "\<not> lo_Tail opts" and "sc_found st"
    and "pg_Events (sc_page st) = [] \<longrightarrow> pg_EventBytes (sc_page st) = 0"
    and "list_all2 shortened (filter (matches cd opts) before) (pg_Events (sc_page st))"
    and "before \<noteq> [] \<longrightarrow> pg_NextCursor (sc_page st) = le_ID (last before)" and "\<not> pg_HasMore (sc_page st)"
  shows "case scan_records cd opts (map Inr evs) st of
      Scanned st' \<Rightarrow> sc_found st' \<and> page_of cd opts (before @ evs) (sc_page st')
    | PageFull page \<Rightarrow> page_of cd opts (before @ evs) page
    | ScanFailed e \<Rightarrow> False"
  using assms
proof (induction evs arbitrary: st before)
  case Nil
  then show ?case by (simp add: page_of_def)
next
  case (Cons e evs)
  define page where "page = (sc_page st)\<lparr>pg_Gap := (pg_Gap (sc_page st) \<or> sc_run st = le_RunID e \<and> sc_sequence st \<noteq> 0 \<and> le_Sequence e \<noteq> sc_sequence st + 1)\<rparr>"
  define st1 where "st1 = st\<lparr>sc_run := le_RunID e, sc_sequence := le_Sequence e\<rparr>"
  have fits: "fits_all cd evs" using Cons.prems(1) by (simp add: fits_all_def)
  note unf = scan_event_def Let_def page_def [symmetric] st1_def [symmetric]
  show ?case
  proof (cases "matches cd opts e")
    case False
    define st2 where "st2 = st1\<lparr>sc_page := page\<lparr>pg_NextCursor := le_ID e\<rparr>\<rparr>"
    have "scan_event cd opts e st = Scanned st2" using False Cons.prems(4) unfolding unf st2_def by simp
    moreover have "case scan_records cd opts (map Inr evs) st2 of
        Scanned st' \<Rightarrow> sc_found st' \<and> page_of cd opts ((before @ [e]) @ evs) (sc_page st')
      | PageFull page \<Rightarrow> page_of cd opts ((before @ [e]) @ evs) page | ScanFailed e \<Rightarrow> False"
      by (rule Cons.IH [OF fits Cons.prems(2,3)]) (use Cons.prems False in \<open>simp_all add: st2_def st1_def page_def\<close>)
    ultimately show ?thesis by (simp cong: scan_result.case_cong)
  next
    case True
    show ?thesis
    proof (cases "int (length (pg_Events page)) = lo_Limit opts \<or> lo_MaxBytes opts - pg_EventBytes page < 1024 \<and> pg_Events page \<noteq> []")
      case full: True
      then have "scan_event cd opts e st = PageFull (page\<lparr>pg_HasMore := True\<rparr>)"
        using True Cons.prems(3,4) unfolding unf by simp
      moreover have "pg_Events page \<noteq> []" using full Cons.prems(2) by (auto simp: limits_ok_def)
      moreover from this have "before \<noteq> []" using Cons.prems(6) by (auto simp: page_def)
      ultimately have "page_of cd opts (before @ e # evs) (page\<lparr>pg_HasMore := True\<rparr>)"
        using Cons.prems(6,7) by (intro page_of_moreI [OF _ refl]) (simp_all add: page_def)
      with \<open>scan_event cd opts e st = PageFull _\<close> show ?thesis by simp
    next
      case False
      have room: "lo_MaxBytes opts - pg_EventBytes page \<ge> 1024"
      proof (cases "pg_Events page = []")
        case True
        then have "pg_EventBytes page = 0" using Cons.prems(5) by (simp add: page_def)
        then show ?thesis using Cons.prems(2) by (simp add: limits_ok_def)
      next
        case nonempty: False
        then show ?thesis using False by simp
      qed
      then have "\<exists>r. fit cd e (lo_MaxBytes opts - pg_EventBytes page) = Inr r" using Cons.prems(1) by (simp add: fits_all_def)
      then obtain bounded sz where f: "fit cd e (lo_MaxBytes opts - pg_EventBytes page) = Inr (bounded, sz)" by auto
      define st2 where "st2 = st1\<lparr>sc_page := (add_event bounded sz page)\<lparr>pg_NextCursor := le_ID e\<rparr>\<rparr>"
      have "scan_event cd opts e st = Scanned st2" using False True f Cons.prems(3,4) unfolding unf st2_def by (simp del: de_Morgan_disj)
      moreover have "case scan_records cd opts (map Inr evs) st2 of
          Scanned st' \<Rightarrow> sc_found st' \<and> page_of cd opts ((before @ [e]) @ evs) (sc_page st')
        | PageFull page \<Rightarrow> page_of cd opts ((before @ [e]) @ evs) page | ScanFailed e \<Rightarrow> False"
        by (rule Cons.IH [OF fits Cons.prems(2,3)])
          (use Cons.prems True fit_result [OF f] in \<open>simp_all add: st2_def st1_def page_def add_event_def list_all2_appendI\<close>)
      ultimately show ?thesis by (simp cong: scan_result.case_cong)
    qed
  qed
qed

lemma skip_scan:
  assumes "\<forall>e \<in> set pre. le_ID e \<noteq> lo_After opts" and "le_ID x = lo_After opts" and "\<not> sc_found st"
  shows "\<exists>st'. scan_records cd opts (map Inr (pre @ x # post)) st = scan_records cd opts (map Inr post) st'
    \<and> sc_found st' \<and> pg_Events (sc_page st') = pg_Events (sc_page st) \<and> pg_EventBytes (sc_page st') = pg_EventBytes (sc_page st)
    \<and> pg_HasMore (sc_page st') = pg_HasMore (sc_page st)"
  using assms
proof (induction pre arbitrary: st)
  case Nil
  then show ?case by (auto simp: scan_event_def Let_def)
next
  case (Cons e pre)
  obtain st1 where "scan_event cd opts e st = Scanned st1" "\<not> sc_found st1"
      "pg_Events (sc_page st1) = pg_Events (sc_page st)" "pg_EventBytes (sc_page st1) = pg_EventBytes (sc_page st)"
      "pg_HasMore (sc_page st1) = pg_HasMore (sc_page st)"
    using Cons.prems by (auto simp: scan_event_def Let_def)
  with Cons.IH [of st1] Cons.prems(1,2) show ?case by simp
qed

lemma scan_journal_page:
  assumes evs: "read_files cd contents = map Inr evs" and fits: "fits_all cd evs" and lim: "limits_ok opts" and fwd: "\<not> lo_Tail opts"
    and cur: "lo_After opts = [] \<or> lo_After opts = ''start'' \<or> lo_After opts \<in> le_ID ` set evs"
  shows "\<exists>page. scan_journal cd opts contents = Inr (page, True) \<and> page_of cd opts (events_after (lo_After opts) evs) page"
proof (cases "lo_After opts = [] \<or> lo_After opts = ''start''")
  case True
  then have "case scan_records cd opts (map Inr evs) (scan_start opts) of
      Scanned st' \<Rightarrow> sc_found st' \<and> page_of cd opts ([] @ evs) (sc_page st')
    | PageFull page \<Rightarrow> page_of cd opts ([] @ evs) page | ScanFailed e \<Rightarrow> False"
    by (intro forward_scan [OF fits lim fwd]) (auto simp: scan_start_def first_page_def)
  then show ?thesis using True
    by (auto simp: scan_journal_def evs events_after_def split: scan_result.splits)
next
  case False
  then have "lo_After opts \<in> le_ID ` set evs" using cur by blast
  then obtain pre x post where e: "evs = pre @ x # post" "le_ID x = lo_After opts" "\<forall>e \<in> set pre. le_ID e \<noteq> lo_After opts"
    using split_list_first_prop [of evs "\<lambda>e. le_ID e = lo_After opts"] by (metis (mono_tags, lifting) imageE)
  obtain st' where sk: "scan_records cd opts (map Inr evs) (scan_start opts) = scan_records cd opts (map Inr post) st'"
      "sc_found st'" "pg_Events (sc_page st') = []" "pg_EventBytes (sc_page st') = 0" "\<not> pg_HasMore (sc_page st')"
    using skip_scan [OF e(3,2), of "scan_start opts" cd post] False e(1) by (auto simp: scan_start_def first_page_def)
  have "fits_all cd post" using fits e(1) by (simp add: fits_all_def)
  then have "case scan_records cd opts (map Inr post) st' of
      Scanned st' \<Rightarrow> sc_found st' \<and> page_of cd opts ([] @ post) (sc_page st')
    | PageFull page \<Rightarrow> page_of cd opts ([] @ post) page | ScanFailed e \<Rightarrow> False"
    using sk by (intro forward_scan [OF _ lim fwd]) auto
  moreover have "events_after (lo_After opts) evs = post" using events_after_split [of "lo_After opts" x pre post] e False by simp
  ultimately show ?thesis using sk(1) by (auto simp: scan_journal_def evs split: scan_result.splits)
qed

section \<open>The reader finds what the writer keeps\<close>

text \<open>Between two writes the names do not change, so every look finds the disk of the writer.\<close>

definition look_disk :: "disk \<Rightarrow> string \<Rightarrow> look" where
  "look_disk d name = (case file_at d name of Some f \<Rightarrow> LookFile f (d_data d f) | None \<Rightarrow> LookAbsent)"

definition family_files :: "disk \<Rightarrow> string \<Rightarrow> nat \<Rightarrow> nat list" where
  "family_files d path i = (case file_at d (family_name path i) of Some f \<Rightarrow> [f]
     | None \<Rightarrow> if i = 0 then (case file_at d (path @ StagingSuffix) of Some f \<Rightarrow> [f] | None \<Rightarrow> []) else [])"

lemma still_there_append:
  "fst (still_there fs (a @ b) t) \<longleftrightarrow> fst (still_there fs a t) \<and> fst (still_there fs b (snd (still_there fs a t)))"
  by (induction fs a t rule: still_there.induct) (auto simp: Let_def)

lemma open_family_disk:
  "open_family (\<lambda>_. look_disk d) path is t = (cs, obs, ok, t2) \<Longrightarrow>
     ok \<and> (\<forall>t. fst (still_there (\<lambda>_. look_disk d) obs t)) \<and> cs = map (d_data d) (concat (map (family_files d path) is))"
proof (induction "is" arbitrary: t cs obs ok t2)
  case (Cons i "is")
  have rest: "open_family (\<lambda>_. look_disk d) path is t = (cs, obs, ok, t2) \<Longrightarrow> ok \<and> (\<forall>t. fst (still_there (\<lambda>_. look_disk d) obs t))
      \<and> cs = map (d_data d) (concat (map (family_files d path) is))" for t cs obs ok t2 by (rule Cons.IH)
  show ?case
    using Cons.prems
    by (cases "file_at d (family_name path i)"; cases "i = 0"; cases "file_at d (path @ StagingSuffix)")
      (auto simp: Let_def look_disk_def [of d "family_name _ _"] look_disk_def [of d "_ @ StagingSuffix"]
          family_files_def [of d path i] family_files_def [of d path 0]
        split: prod.splits dest!: rest)
qed simp

lemma family_retained:
  assumes "lw_maxFiles w = 3"
  shows "concat (map (family_files d (lw_path w)) [3, 2, 1, 0]) = retained w d"
proof -
  have "slots w = 3" using assms by (simp add: slots_def)
  moreover have "rev [1..<Suc 3] = [3, 2, 1 :: nat]" by (simp add: upt_rec)
  moreover have "family_name (lw_path w) i = copyName w i" if "0 < i" for i using that by (simp add: family_name_def copyName_def)
  ultimately show ?thesis
    by (simp add: retained_def copies_def newest_def family_files_def map_filter_simps family_name_def copyName_def split: option.splits)
qed

section \<open>Correctness\<close>

definition example_event :: "string \<Rightarrow> LogEntry" where
  "example_event s = \<lparr>le_Version = 1, le_ID = s, le_RunID = ''r'', le_AttemptID = [], le_Sequence = 0, le_Session = [], le_Time = 0,
     le_Process = ''p'', le_Line = s, le_Kind = [], le_Level = [], le_Code = [], le_Stream = [], le_PID = 0, le_Generation = 0,
     le_State = None, le_Truncated = False, le_OriginalBytes = 0, le_IsEvent = False, le_IsError = False\<rparr>"

definition example_codec :: codec where
  "example_codec = \<lparr>cd_encode = \<lambda>e. Some (le_Line e), cd_decode = \<lambda>s. Some (example_event s), cd_lower = id\<rparr>"

definition example_journal :: string where
  "example_journal = ''a:1'' @ [char_of (10 :: nat)] @ ''a:2'' @ [char_of (10 :: nat)]"

definition example_look :: "nat \<Rightarrow> string \<Rightarrow> look" where
  "example_look t name = (if name = ''j'' then LookFile 0 example_journal else LookAbsent)"

definition all_events :: LogOptions where
  "all_events = \<lparr>lo_Limit = 0, lo_MaxBytes = 0, lo_After = ''start'', lo_Tail = False, lo_Processes = [], lo_Level = [], lo_Kind = [],
     lo_Code = [], lo_Stream = [], lo_Search = [], lo_Since = None, lo_RunID = [], lo_AttemptID = [], lo_Generation = 0\<rparr>"

lemma example_snapshot: "fst (snapshotFiles example_look ''j'' t) = Inr [example_journal]"
  by (simp add: snapshotFiles_def numeral_eq_Suc example_look_def family_name_def Let_def)

lemma example_records: "read_files example_codec [example_journal] = map Inr [example_event ''a:1'', example_event ''a:2'']"
  by (simp add: read_files_def example_journal_def read_record_def example_codec_def example_event_def char_of_def)

text \<open>
  C21. Between two writes a reader of the journal pins exactly the files the writer keeps, oldest first:
  what it reads is every byte of the journal, after any failed rotation as well.
\<close>

theorem reader_finds_the_journal:
  assumes "writer_ok w d" and "lw_maxFiles w = 3"
  shows "\<exists>contents t'. snapshotFiles (\<lambda>_. look_disk d) (lw_path w) t = (Inr contents, t') \<and> concat contents = journal_bytes w d"
proof -
  obtain cs obs ok t1 where o: "open_family (\<lambda>_. look_disk d) (lw_path w) [3, 2, 1, 0] t = (cs, obs, ok, t1)" by (metis prod_cases4)
  from open_family_disk [OF o, unfolded family_retained [OF assms(2)]]
  have ok and st: "fst (still_there (\<lambda>_. look_disk d) obs t1)" and cs: "cs = map (d_data d) (retained w d)" by blast+
  obtain t2 where "still_there (\<lambda>_. look_disk d) obs t1 = (True, t2)" using st by (metis prod.exhaust_sel)
  moreover have "cs \<noteq> []" using retained_last [OF assms(1)] cs by auto
  ultimately have "snapshotFiles (\<lambda>_. look_disk d) (lw_path w) t = (Inr cs, t2)"
    using o \<open>ok\<close> by (simp add: snapshotFiles_def numeral_eq_Suc)
  then show ?thesis using cs by (auto simp: journal_bytes_def)
qed

theorem reader_finds_the_journal_witness:
  "\<exists>contents t'. snapshotFiles (\<lambda>_. look_disk (snd (NewWriter ''j'' 4 3 (example_disk [])))) ''j'' 0 = (Inr contents, t')
     \<and> concat contents = journal_bytes (example_writer\<lparr>lw_maxFiles := 3\<rparr>) (snd (NewWriter ''j'' 4 3 (example_disk [])))"
proof -
  have new: "NewWriter ''j'' 4 3 (example_disk []) = (Inr (example_writer\<lparr>lw_maxFiles := 3\<rparr>), snd (NewWriter ''j'' 4 3 (example_disk [])))"
    by (simp add: NewWriter_def example_disk_def example_writer_def file_at_def rename_def openFile_def faulty_def tick_fault_def)
  have "writer_ok (example_writer\<lparr>lw_maxFiles := 3\<rparr>) (snd (NewWriter ''j'' 4 3 (example_disk [])))"
    using NewWriter_ok [OF new example_disk_ok] by (simp add: file_at_def example_disk_def)
  from reader_finds_the_journal [OF this] show ?thesis by (simp add: example_writer_def)
qed

text \<open>
  C36. No page exceeds what was asked for: a page that is returned holds at most the requested number of
  events, its events encode to at most the requested bytes, and the byte count it reports is exact.
\<close>

theorem query_page_within_limits:
  assumes "Query cd fs path opts t = (Inr page, t')"
  shows "int (length (pg_Events page)) \<le> lo_Limit (with_defaults opts)
    \<and> pg_EventBytes page \<le> lo_MaxBytes (with_defaults opts) \<and> pg_EventBytes page = total_bytes cd (pg_Events page)"
  using Query_limits [OF assms] by (simp add: page_ok_def)

theorem query_page_within_limits_witness:
  "\<exists>page. fst (Query example_codec example_look ''j'' (all_events\<lparr>lo_Limit := 1\<rparr>) 0) = Inr page
    \<and> int (length (pg_Events page)) \<le> 1 \<and> pg_EventBytes page \<le> 65536 \<and> pg_EventBytes page = total_bytes example_codec (pg_Events page)"
proof -
  have d: "with_defaults (all_events\<lparr>lo_Limit := 1\<rparr>) = all_events\<lparr>lo_Limit := 1, lo_MaxBytes := 65536\<rparr>"
    by (simp add: with_defaults_def all_events_def)
  obtain t1 where s: "snapshotFiles example_look ''j'' 0 = (Inr [example_journal], t1)" using example_snapshot by (metis prod.exhaust_sel)
  obtain page where "scan_journal example_codec (all_events\<lparr>lo_Limit := 1, lo_MaxBytes := 65536\<rparr>) [example_journal] = Inr (page, True)"
    unfolding scan_journal_def example_records
    by (simp add: scan_start_def first_page_def all_events_def scan_event_def matches_def Let_def fit_def example_codec_def example_event_def
        add_event_def)
  then have "Query example_codec example_look ''j'' (all_events\<lparr>lo_Limit := 1\<rparr>) 0 = (Inr page, t1)"
    using s unfolding Query_def Let_def d by (simp add: all_events_def)
  from query_page_within_limits [OF this, unfolded d] this show ?thesis by simp
qed

end
