(* ===== verification/Verify_Result.thy ===== *)
theory Verify_Result
  imports Session_Plan Proc_State
begin

text \<open>
  The result of a verification attempt (\<^verbatim>\<open>internal/verify/result.go\<close>), which is also the receipt on disk: its
  data, the error counts, the verdicts a receipt can record, and the forms in which a result is emitted.
  Times that nothing decides on are left out. JSON and SHA-256 are an \<open>encoder\<close>.
\<close>

section \<open>Statuses and codes\<close>

abbreviation "StateActive \<equiv> ''active''"
abbreviation "StateCompleted \<equiv> ''completed''"
abbreviation "StateAbandoned \<equiv> ''abandoned''"
abbreviation "StateIndeterminate \<equiv> ''indeterminate''"

abbreviation "StatusPassed \<equiv> ''passed''"
abbreviation "StatusFailed \<equiv> ''failed''"
abbreviation "StatusInterrupted \<equiv> ''interrupted''"
abbreviation "StatusNotRun \<equiv> ''not_run''"
abbreviation "StatusTimedOut \<equiv> ''timed_out''"
abbreviation "StatusUnverified \<equiv> ''unverified''"
abbreviation "StatusNotNeeded \<equiv> ''not_needed''"
abbreviation "StatusNotConfig \<equiv> ''not_configured''"

abbreviation "KindResponse \<equiv> ''verify.response''"
abbreviation "KindReceipt \<equiv> ''verify.receipt''"
abbreviation "KindCompactError \<equiv> ''verify.compact_error''"

abbreviation "PhaseValidation \<equiv> ''validation''"
abbreviation "PhaseAcquiring \<equiv> ''acquiring''"
abbreviation "PhaseStarting \<equiv> ''starting''"
abbreviation "PhaseWaiting \<equiv> ''waiting_ready''"
abbreviation "PhaseChecking \<equiv> ''checking''"
abbreviation "PhaseCleaningUp \<equiv> ''cleaning_up''"
abbreviation "PhaseCompleted \<equiv> ''completed''"

abbreviation "CodeUsage \<equiv> ''usage_error''"
abbreviation "CodeInvalidConfig \<equiv> ''invalid_configuration''"
abbreviation "CodeSessionOccupied \<equiv> ''session_occupied''"
abbreviation "CodeResourceUnavailable \<equiv> ''resource_unavailable''"
abbreviation "CodeStartupFailed \<equiv> ''startup_failed''"
abbreviation "CodeStartupTimeout \<equiv> ''startup_timeout''"
abbreviation "CodeCheckStartFailed \<equiv> ''check_start_failed''"
abbreviation "CodeCheckExitNonzero \<equiv> ''check_exit_nonzero''"
abbreviation "CodeCheckTimeout \<equiv> ''check_timeout''"
abbreviation "CodeRequiredFailed \<equiv> ''required_process_failed''"
abbreviation "CodeInterrupted \<equiv> ''interrupted''"
abbreviation "CodeCleanupUnverified \<equiv> ''cleanup_unverified''"
abbreviation "CodeTeardownFailed \<equiv> ''teardown_failed''"
abbreviation "CodeReceiptPersistence \<equiv> ''receipt_persistence_failed''"
abbreviation "CodeResultSizeLimit \<equiv> ''result_size_limit''"
abbreviation "CodeEvidenceUnavailable \<equiv> ''evidence_unavailable''"
abbreviation "CodeEnvironmentIneligible \<equiv> ''environment_ineligible''"
abbreviation "CodeEnvironmentUnverified \<equiv> ''environment_unverified''"

abbreviation "EnvironmentEligible \<equiv> ''eligible''"
abbreviation "EnvironmentIneligible \<equiv> ''ineligible''"
abbreviation "EnvironmentUnknown \<equiv> ''unknown''"
abbreviation "ReasonReportMissing \<equiv> ''report_missing''"
abbreviation "ReasonReportInvalid \<equiv> ''report_invalid''"
abbreviation "ReasonNoObservations \<equiv> ''no_observations''"
abbreviation "ObservationMatched \<equiv> ''matched''"
abbreviation "ObservationMismatched \<equiv> ''mismatched''"
abbreviation "ObservationUnobserved \<equiv> ''unobserved''"

abbreviation ExitPassed :: int where "ExitPassed \<equiv> 0"
abbreviation ExitFailed :: int where "ExitFailed \<equiv> 1"
abbreviation ExitUsage :: int where "ExitUsage \<equiv> 2"
abbreviation ExitInterrupted :: int where "ExitInterrupted \<equiv> 130"

abbreviation "PrecedencePassed \<equiv> ''all_required_phases_passed''"
abbreviation "PrecedenceFailure \<equiv> ''failure_without_interruption''"
abbreviation "PrecedenceInterrupted \<equiv> ''interruption''"
abbreviation "PrecedencePreAcquisition \<equiv> ''pre_acquisition_failure''"
abbreviation "PrecedenceNoVerdict \<equiv> ''no_verdict''"

definition recordedVerdict :: "string \<Rightarrow> string \<Rightarrow> int \<Rightarrow> bool" where
  "recordedVerdict state status exitCode =
     (if state = StateActive then exitCode = 0 \<and> (status = StatusNotRun \<or> status = StatusFailed)
      else if state = StateCompleted
      then (if status = StatusPassed then exitCode = ExitPassed
            else if status = StatusFailed then exitCode = ExitFailed
            else if status = StatusInterrupted then exitCode = ExitInterrupted
            else False)
      else False)"

section \<open>Error counts\<close>

record ErrorRecord =
  er_Code :: string
  er_Count :: int

type_synonym Errors = "int gomap"

definition AddError :: "string \<Rightarrow> Errors \<Rightarrow> Errors" where
  "AddError code e = gput code (the_default 0 (gget e code) + 1) e"

definition Records :: "Errors \<Rightarrow> ErrorRecord list" where
  "Records e = map (\<lambda>(c, n). \<lparr>er_Code = c, er_Count = n\<rparr>) (filter (\<lambda>(c, n). 0 < n) (sort_key fst e))"

definition add_records :: "ErrorRecord list \<Rightarrow> Errors \<Rightarrow> Errors" where
  "add_records rs e = fold (\<lambda>r e. gput (er_Code r) (the_default 0 (gget e (er_Code r)) + er_Count r) e) rs e"

section \<open>The result\<close>

record VerifySource =
  sr_Revision :: "string option"
  sr_Dirty :: "bool option"
  sr_Limitations :: "string list"

record ProcessGeneration =
  gn_Name :: string
  gn_Generation :: "64 word"

record Endpoint =
  en_Port :: int
  en_URL :: string

record ReadinessObservation =
  ro_Process :: string
  ro_Generation :: "64 word"
  ro_Probe :: "string option"
  ro_Status :: string
  ro_Owner :: "EndpointOwner option"

record Startup =
  su_Status :: string
  su_Validation :: string
  su_Readiness :: "ReadinessObservation list"
  su_Unprobed :: "string list"
  su_Errors :: "ErrorRecord list"

record VerifyCheck =
  vk_Status :: string
  vk_Generation :: "64 word option"
  vk_Argv :: "string list"
  vk_ArgvSHA256 :: "string option"
  vk_ArgvBytes :: int
  vk_Cwd :: "string option"
  vk_StartedAt :: "int option"
  vk_FinishedAt :: "int option"
  vk_ExitCode :: "int option"
  vk_Signal :: "string option"
  vk_TimedOut :: bool
  vk_Stdout :: string
  vk_Stderr :: string
  vk_OutputTruncated :: bool

record Observation =
  ob_Name :: string
  ob_Status :: string
  ob_Expected :: "string option"
  ob_Observed :: "string option"

record Environment =
  ve_Required :: bool
  ve_Status :: string
  ve_Reason :: "string option"
  ve_Observations :: "Observation list"

record VerifyUnresolved =
  vu_Name :: string
  vu_Generation :: "64 word option"
  vu_Identity :: string

record TeardownRecord =
  tr_Name :: string
  tr_Status :: string
  tr_ExitCode :: "int option"
  tr_Error :: string

record Cleanup =
  cl_Status :: string
  cl_Attempted :: bool
  cl_SignalingAuthority :: string
  cl_TerminationVerified :: "bool option"
  cl_Unresolved :: "VerifyUnresolved list"
  cl_Errors :: "ErrorRecord list"
  cl_Teardown :: "TeardownRecord list"

record EvidenceEvent =
  xe_ID :: string
  xe_Process :: string
  xe_Generation :: "64 word"
  xe_Level :: string
  xe_Code :: string
  xe_Message :: string

record Evidence =
  ev_Journal :: "string option"
  ev_FirstCursor :: "string option"
  ev_LastCursor :: "string option"
  ev_Gap :: bool
  ev_Truncated :: bool
  ev_ExcerptStatus :: string
  ev_Events :: "EvidenceEvent list"

record VerifyOwner =
  vw_PID :: int
  vw_Hostname :: string

record Result =
  rs_SchemaVersion :: int
  rs_Kind :: string
  rs_State :: string
  rs_AttemptID :: "string option"
  rs_Status :: string
  rs_Phase :: string
  rs_Session :: string
  rs_RunID :: "string option"
  rs_ConfigPath :: string
  rs_ConfigSHA256 :: "string option"
  rs_Workdir :: string
  rs_Source :: VerifySource
  rs_ToolVersion :: string
  rs_Owner :: "VerifyOwner option"
  rs_SelectedProcesses :: "ProcessGeneration list"
  rs_Endpoints :: "Endpoint gomap"
  rs_EndpointsNote :: "string option"
  rs_Startup :: Startup
  rs_Check :: VerifyCheck
  rs_Environment :: Environment
  rs_Cleanup :: Cleanup
  rs_Evidence :: Evidence
  rs_Errors :: "ErrorRecord list"
  rs_ExitCode :: int
  rs_Precedence :: string
  rs_ReceiptPath :: "string option"
  rs_ReceiptPersisted :: bool
  rs_Retention :: string

section \<open>The compact form\<close>

record CompactIdentity =
  ci_ConfigSHA256 :: "string option"
  ci_SessionSHA256 :: "string option"
  ci_RunIDSHA256 :: "string option"
  ci_AttemptIDSHA256 :: "string option"
  ci_ArgvSHA256 :: "string option"
  ci_SelectionSHA256 :: "string option"
  ci_Complete :: bool

record CompactError =
  ce_Kind :: string
  ce_Status :: string
  ce_Phase :: string
  ce_ExitCode :: int
  ce_AttemptState :: "string option"
  ce_PhaseStatuses :: "string gomap"
  ce_Errors :: "ErrorRecord list"
  ce_Identity :: CompactIdentity
  ce_TerminalReceiptPersisted :: bool

text \<open>
  What the encoders return: JSON of a result, of a compact form, of an argument vector, of the selection
  with its endpoints and observations, and the digest of some bytes.
\<close>

record encoder =
  js_result :: "Result \<Rightarrow> string option"
  js_compact :: "CompactError \<Rightarrow> string option"
  js_argv :: "string list \<Rightarrow> string"
  js_selection :: "ProcessGeneration list \<Rightarrow> Endpoint gomap \<Rightarrow> ReadinessObservation list \<Rightarrow> string option"
  sha256 :: "string \<Rightarrow> string"

abbreviation MaxResultBytes :: nat where "MaxResultBytes \<equiv> 65536"
abbreviation MaxArgvBytes :: int where "MaxArgvBytes \<equiv> 16384"

definition digest :: "encoder \<Rightarrow> string \<Rightarrow> string" where
  "digest enc d = ''sha256:'' @ sha256 enc d"

definition ArgvDigest :: "encoder \<Rightarrow> string list \<Rightarrow> string \<times> int" where
  "ArgvDigest enc argv = (digest enc (js_argv enc argv), int (length (js_argv enc argv)))"

definition selectionDigest :: "encoder \<Rightarrow> Result \<Rightarrow> string option" where
  "selectionDigest enc r = map_option (digest enc) (js_selection enc (rs_SelectedProcesses r) (rs_Endpoints r) (su_Readiness (rs_Startup r)))"

definition Compact :: "encoder \<Rightarrow> Result \<Rightarrow> CompactError" where
  "Compact enc r =
     (let status = (if rs_Status r = StatusPassed then StatusFailed else rs_Status r);
          acquired = (rs_RunID r \<noteq> None)
      in \<lparr>ce_Kind = KindCompactError, ce_Status = status, ce_Phase = rs_Phase r,
          ce_ExitCode = (if status = StatusInterrupted then ExitInterrupted else if acquired then ExitFailed else ExitUsage),
          ce_AttemptState = (if acquired then Some StateIndeterminate else None),
          ce_PhaseStatuses = [(''validation'', if su_Validation (rs_Startup r) = StatusFailed then StatusFailed else StatusPassed),
            (''startup'', su_Status (rs_Startup r)), (''check'', vk_Status (rs_Check r)),
            (''environment'', ve_Status (rs_Environment r)), (''cleanup'', cl_Status (rs_Cleanup r))],
          ce_Errors = Records (AddError CodeResultSizeLimit (add_records (rs_Errors r) [])),
          ce_Identity = \<lparr>ci_ConfigSHA256 = rs_ConfigSHA256 r, ci_SessionSHA256 = Some (digest enc (rs_Session r)),
            ci_RunIDSHA256 = map_option (digest enc) (rs_RunID r), ci_AttemptIDSHA256 = map_option (digest enc) (rs_AttemptID r),
            ci_ArgvSHA256 = vk_ArgvSHA256 (rs_Check r), ci_SelectionSHA256 = selectionDigest enc r, ci_Complete = False\<rparr>,
          ce_TerminalReceiptPersisted = False\<rparr>)"

text \<open>\<open>EncodedFull\<close> carries the bytes, \<open>EncodedCompact\<close> those of the compact form, if it could be encoded.\<close>

datatype encoded = EncodeError | EncodedFull string | EncodedCompact "string option"

definition trimmed :: "Result \<Rightarrow> Result" where
  "trimmed r = r\<lparr>rs_Evidence := (rs_Evidence r)\<lparr>ev_Events := [], ev_Truncated := True\<rparr>,
     rs_Check := (rs_Check r)\<lparr>vk_Stdout := [], vk_Stderr := [], vk_OutputTruncated := True\<rparr>\<rparr>"

definition Encode :: "encoder \<Rightarrow> Result \<Rightarrow> encoded \<times> Result" where
  "Encode enc r =
     (case js_result enc r of
        None \<Rightarrow> (EncodeError, r)
      | Some data \<Rightarrow>
          if length data \<le> MaxResultBytes then (EncodedFull data, r)
          else (case js_result enc (trimmed r) of
              Some d \<Rightarrow> if length d \<le> MaxResultBytes then (EncodedFull d, trimmed r)
                        else (EncodedCompact (js_compact enc (Compact enc r)), r)
            | None \<Rightarrow> (EncodedCompact (js_compact enc (Compact enc r)), r)))"

section \<open>Error counts are sorted and positive\<close>

definition errors_ok :: "Errors \<Rightarrow> bool" where
  "errors_ok e = (gomap_ok e \<and> (\<forall>n \<in> set (map snd e). 0 < n))"

lemma errors_ok_Nil [simp]: "errors_ok []"
  by (simp add: errors_ok_def gomap_ok_def)

lemma snd_gput: "set (map snd (gput k v m)) \<subseteq> insert v (set (map snd m))"
  by (induction m) auto

lemma errors_ok_Add [simp]:
  assumes "errors_ok e"
  shows "errors_ok (AddError c e)"
proof -
  have "0 \<le> the_default 0 (gget e c)"
    using assms by (cases "gget e c") (auto simp: errors_ok_def dest!: map_of_SomeD intro: less_imp_le)
  then have "0 < n" if "n \<in> set (map snd (AddError c e))" for n
    using that assms snd_gput [of c "the_default 0 (gget e c) + 1" e] unfolding errors_ok_def AddError_def by fastforce
  then show ?thesis using assms by (simp add: errors_ok_def AddError_def del: set_map)
qed

lemma Records_codes: "errors_ok e \<Longrightarrow> map er_Code (Records e) = sort (gokeys e)"
proof -
  assume ok: "errors_ok e"
  have "filter (\<lambda>(c, n). 0 < n) (sort_key fst e) = sort_key fst e"
    using ok by (intro filter_True) (auto simp: errors_ok_def)
  then have "map er_Code (Records e) = map fst (sort_key fst e)"
    by (simp add: Records_def comp_def case_prod_beta)
  also have "\<dots> = sort (map fst e)"
  proof (rule properties_for_sort [symmetric])
    show "mset (map fst (sort_key fst e)) = mset (map fst e)" by (metis mset_map mset_sort)
  qed (rule sorted_sort_key)
  finally show ?thesis .
qed

lemma Records_empty: "errors_ok e \<Longrightarrow> Records e = [] \<longleftrightarrow> e = []"
  using arg_cong [OF Records_codes, of e length] by auto

lemma AddError_nonempty [simp]: "AddError c e \<noteq> []"
  by (cases e) (auto simp: AddError_def)

lemma AddError_keys: "set (gokeys (AddError c e)) = insert c (set (gokeys e))"
  by (simp add: AddError_def gokeys_gput del: set_map)

end
