(* ===== verification/Verify_Receipt.thy ===== *)
theory Verify_Receipt
  imports Verify_Result
begin

text \<open>
  Receipts on disk (\<^verbatim>\<open>internal/verify/receipt.go\<close>): attempt identifiers, writing and reading a receipt,
  the listing, pruning, the state of an attempt from evidence, and the environment report of a check. A
  directory maps names to entries. JSON is a parameter: what a text decodes to, and how values are encoded.
\<close>

section \<open>Attempt identifiers\<close>

definition crockford :: string where
  "crockford = ''0123456789ABCDEFGHJKMNPQRSTVWXYZ''"

text \<open>The 48 low bits of the milliseconds, most significant byte first.\<close>

definition time_bytes :: "64 word \<Rightarrow> 8 word list" where
  "time_bytes ms = map (\<lambda>i. ucast (drop_bit (8 * i) ms)) (rev [0..<6])"

definition load_bytes :: "8 word list \<Rightarrow> 64 word" where
  "load_bytes bs = foldl (\<lambda>h b. push_bit 8 h OR ucast b) 0 bs"

fun base32_digits :: "nat \<Rightarrow> 64 word \<Rightarrow> 64 word \<Rightarrow> string \<Rightarrow> string" where
  "base32_digits 0 hi lo out = out"
| "base32_digits (Suc n) hi lo out =
     base32_digits n (drop_bit 5 hi) (drop_bit 5 lo OR push_bit 59 hi) ((crockford ! unat (lo AND 31)) # out)"

text \<open>\<open>random\<close>: the ten random bytes, \<open>None\<close> when there are none to be had.\<close>

definition NewAttemptID :: "64 word \<Rightarrow> 8 word list option \<Rightarrow> string option" where
  "NewAttemptID ms random = (case random of
     None \<Rightarrow> None
   | Some rand \<Rightarrow> (let raw = time_bytes ms @ rand
       in Some (base32_digits 26 (load_bytes (take 8 raw)) (load_bytes (drop 8 raw)) [])))"

definition validAttemptID :: "string \<Rightarrow> bool" where
  "validAttemptID aid = (length aid = 26 \<and> list_all (\<lambda>c. c \<in> set crockford) aid)"

section \<open>Reading and writing\<close>

datatype dir_entry = EntryDir | EntryFile string

type_synonym attempts_dir = "dir_entry gomap"

text \<open>What a text decodes to: a result, and whether it names an exit code and which.\<close>

record receipt_decoder =
  jd_result :: "string \<Rightarrow> Result option"
  jd_exit :: "string \<Rightarrow> int option option"

datatype receipt_error =
    ReceiptUnreadable
  | ReceiptSyntax
  | ReceiptSchema int string
  | ReceiptNoID
  | ReceiptBadID string
  | ReceiptMisnamed string
  | ReceiptNoExitCode
  | ReceiptNoVerdict string string int

datatype write_failure = ReceiptEncoding | ReceiptTooLong | ReceiptNotWritten

definition receipt_name :: "string \<Rightarrow> string" where
  "receipt_name aid = aid @ ''.json''"

definition newline_end :: "string \<Rightarrow> string" where
  "newline_end data = data @ [char_of (10 :: nat)]"

text \<open>\<open>writable\<close>: the directory can be made and the file put in place.\<close>

definition WriteReceipt :: "encoder \<Rightarrow> bool \<Rightarrow> string \<Rightarrow> Result \<Rightarrow> attempts_dir \<Rightarrow> write_failure option \<times> attempts_dir" where
  "WriteReceipt enc writable name r d =
     (case js_result enc (r\<lparr>rs_Kind := KindReceipt\<rparr>) of
        None \<Rightarrow> (Some ReceiptEncoding, d)
      | Some data \<Rightarrow>
          if length data > MaxResultBytes then (Some ReceiptTooLong, d)
          else if \<not> writable then (Some ReceiptNotWritten, d)
          else (None, gput name (EntryFile (newline_end data)) d))"

definition check_receipt :: "string \<Rightarrow> Result \<Rightarrow> int option \<Rightarrow> receipt_error + Result" where
  "check_receipt name r exit_code =
     (case rs_AttemptID r of
        None \<Rightarrow> Inl ReceiptNoID
      | Some aid \<Rightarrow>
          if \<not> validAttemptID aid then Inl (ReceiptBadID aid)
          else if name \<noteq> receipt_name aid then Inl (ReceiptMisnamed aid)
          else if exit_code = None then Inl ReceiptNoExitCode
          else if \<not> recordedVerdict (rs_State r) (rs_Status r) (rs_ExitCode r)
          then Inl (ReceiptNoVerdict (rs_State r) (rs_Status r) (rs_ExitCode r))
          else Inr r)"

definition ReadReceipt :: "receipt_decoder \<Rightarrow> attempts_dir \<Rightarrow> string \<Rightarrow> receipt_error + Result" where
  "ReadReceipt dec d name =
     (case gget d name of
        Some (EntryFile data) \<Rightarrow> (case jd_result dec data of
            None \<Rightarrow> Inl ReceiptSyntax
          | Some r \<Rightarrow>
              if rs_SchemaVersion r \<noteq> 1 \<or> rs_Kind r \<noteq> KindReceipt then Inl (ReceiptSchema (rs_SchemaVersion r) (rs_Kind r))
              else (case jd_exit dec data of
                  None \<Rightarrow> Inl ReceiptSyntax
                | Some exit_code \<Rightarrow> check_receipt name r exit_code))
      | _ \<Rightarrow> Inl ReceiptUnreadable)"

definition is_receipt :: "receipt_decoder \<Rightarrow> attempts_dir \<Rightarrow> string \<Rightarrow> bool" where
  "is_receipt dec d name = (HasSuffix name ''.json'' \<and> \<not> HasPrefix name ''.'' \<and> \<not> isl (ReadReceipt dec d name))"

text \<open>The names of the receipts, newest first. A missing directory is an empty one.\<close>

definition ListReceipts :: "receipt_decoder \<Rightarrow> attempts_dir \<Rightarrow> string list" where
  "ListReceipts dec d = rev (sort (filter (\<lambda>n. gget d n \<noteq> Some EntryDir \<and> is_receipt dec d n) (gokeys d)))"

abbreviation RetainedTerminalReceipts :: nat where "RetainedTerminalReceipts \<equiv> 20"

definition is_completed :: "receipt_decoder \<Rightarrow> attempts_dir \<Rightarrow> string \<Rightarrow> bool" where
  "is_completed dec d name = (case ReadReceipt dec d name of Inr r \<Rightarrow> rs_State r = StateCompleted | Inl _ \<Rightarrow> False)"

text \<open>
  The loop of \<^verbatim>\<open>Prune\<close> over the listed names, with the count of terminal receipts so far. \<open>stuck\<close>: the
  names whose removal fails.
\<close>

fun prune_loop :: "receipt_decoder \<Rightarrow> (string \<Rightarrow> bool) \<Rightarrow> string \<Rightarrow> string list \<Rightarrow> nat \<Rightarrow> attempts_dir \<Rightarrow> string list \<times> attempts_dir" where
  "prune_loop dec stuck keep [] terminal d = ([], d)"
| "prune_loop dec stuck keep (name # names) terminal d =
     (if \<not> is_completed dec d name then prune_loop dec stuck keep names terminal d
      else if terminal + 1 \<le> RetainedTerminalReceipts \<or> name = keep then prune_loop dec stuck keep names (terminal + 1) d
      else if stuck name then (case prune_loop dec stuck keep names (terminal + 1) d of (errs, d1) \<Rightarrow> (name # errs, d1))
      else prune_loop dec stuck keep names (terminal + 1) (gdelete name d))"

definition Prune :: "receipt_decoder \<Rightarrow> (string \<Rightarrow> bool) \<Rightarrow> string \<Rightarrow> attempts_dir \<Rightarrow> string list \<times> attempts_dir" where
  "Prune dec stuck keep d = prune_loop dec stuck keep (ListReceipts dec d) 0 d"

section \<open>The state of an attempt\<close>

text \<open>
  The evidence as the functions answer it: whether the owner is alive and whether that is known, whether the
  session runtime names it as the runner, and whether the lease is held (\<open>None\<close>: an error). An absent
  function is \<open>None\<close>.
\<close>

record OwnerEvidence =
  oe_OwnerAlive :: "(VerifyOwner \<Rightarrow> bool \<times> bool) option"
  oe_OwnerRunning :: "(VerifyOwner \<Rightarrow> bool) option"
  oe_LeaseHeld :: "bool option option"

definition Classify :: "Result \<Rightarrow> OwnerEvidence \<Rightarrow> string" where
  "Classify r ev =
     (if rs_State r \<noteq> StateActive then rs_State r
      else case (rs_Owner r, oe_OwnerAlive ev) of
        (Some owner, Some aliveness) \<Rightarrow> (case aliveness owner of
            (alive, known) \<Rightarrow>
              if \<not> known then StateIndeterminate
              else if alive \<and> (case oe_OwnerRunning ev of Some running \<Rightarrow> running owner | None \<Rightarrow> False) then StateActive
              else if alive then StateIndeterminate
              else (case oe_LeaseHeld ev of
                  Some (Some held) \<Rightarrow> if \<not> held then StateAbandoned else StateIndeterminate
                | _ \<Rightarrow> StateIndeterminate))
      | _ \<Rightarrow> StateIndeterminate)"

section \<open>The environment report\<close>

abbreviation MaxEnvironmentBytes :: nat where "MaxEnvironmentBytes \<equiv> 8192"
abbreviation MaxObservations :: nat where "MaxObservations \<equiv> 32"

datatype json = JNull | JString string | JOther | JArray "json list" | JObject "(string \<times> json) list"

text \<open>
  Reading JSON: the first value of a text with what follows it, \<^verbatim>\<open>strings.EqualFold\<close>, the name a member
  stands for (\<^verbatim>\<open>encoding/json\<close> folds case), and the length of encoded observations.
\<close>

record json_reader =
  jr_parse :: "string \<Rightarrow> (json \<times> string) option"
  jr_fold :: "string \<Rightarrow> string \<Rightarrow> bool"
  jr_length :: "Observation list \<Rightarrow> nat"

datatype report_error =
    ReportMissing
  | ReportUnreadable
  | ReportNotRegular
  | ReportTooLong
  | ReportNotObject
  | ReportRepeated string
  | ReportUndecodable
  | ReportTrailing
  | ReportTooMany nat
  | ReportBadName string
  | ReportBadStatus string string

text \<open>\<open>None\<close> says that no object in the value repeats a member.\<close>

function unique_members :: "(string \<Rightarrow> string \<Rightarrow> bool) \<Rightarrow> json \<Rightarrow> string option"
  and unique_object :: "(string \<Rightarrow> string \<Rightarrow> bool) \<Rightarrow> string list \<Rightarrow> (string \<times> json) list \<Rightarrow> string option"
  and unique_array :: "(string \<Rightarrow> string \<Rightarrow> bool) \<Rightarrow> json list \<Rightarrow> string option" where
  "unique_members eq (JObject ms) = unique_object eq [] ms"
| "unique_members eq (JArray vs) = unique_array eq vs"
| "unique_members eq JNull = None"
| "unique_members eq (JString s) = None"
| "unique_members eq JOther = None"
| "unique_object eq names [] = None"
| "unique_object eq names ((name, v) # ms) =
     (if list_ex (\<lambda>seen. eq seen name) names then Some name
      else case unique_members eq v of Some bad \<Rightarrow> Some bad | None \<Rightarrow> unique_object eq (names @ [name]) ms)"
| "unique_array eq [] = None"
| "unique_array eq (v # vs) = (case unique_members eq v of Some bad \<Rightarrow> Some bad | None \<Rightarrow> unique_array eq vs)"
  by pat_completeness auto
termination
  by (relation "measure (\<lambda>x. case x of Inl (eq, v) \<Rightarrow> size v
        | Inr (Inl (eq, names, ms)) \<Rightarrow> size_list (size_prod (\<lambda>_. 0) size) ms
        | Inr (Inr (eq, vs)) \<Rightarrow> size_list size vs)")
    auto

definition json_string :: "json \<Rightarrow> string option" where
  "json_string v = (case v of JNull \<Rightarrow> Some [] | JString s \<Rightarrow> Some s | _ \<Rightarrow> None)"

definition json_pointer :: "json \<Rightarrow> string option option" where
  "json_pointer v = (case v of JNull \<Rightarrow> Some None | JString s \<Rightarrow> Some (Some s) | _ \<Rightarrow> None)"

definition names_field :: "json_reader \<Rightarrow> string \<Rightarrow> string \<Rightarrow> bool" where
  "names_field rd key name = (name = key \<or> jr_fold rd name key)"

text \<open>The value decoded for a field: a default when no member names it, \<open>None\<close> on a value of another type.\<close>

definition decode_field :: "json_reader \<Rightarrow> (string \<times> json) list \<Rightarrow> string \<Rightarrow> 'a \<Rightarrow> (json \<Rightarrow> 'a option) \<Rightarrow> 'a option" where
  "decode_field rd ms key zero f = (case find (\<lambda>(name, v). names_field rd key name) ms of None \<Rightarrow> Some zero | Some (name, v) \<Rightarrow> f v)"

definition known_fields :: "json_reader \<Rightarrow> string list \<Rightarrow> (string \<times> json) list \<Rightarrow> bool" where
  "known_fields rd keys ms = list_all (\<lambda>(name, v). list_ex (\<lambda>key. names_field rd key name) keys) ms"

definition decode_observation :: "json_reader \<Rightarrow> json \<Rightarrow> Observation option" where
  "decode_observation rd v = (case v of
     JNull \<Rightarrow> Some \<lparr>ob_Name = [], ob_Status = [], ob_Expected = None, ob_Observed = None\<rparr>
   | JObject ms \<Rightarrow>
       if \<not> known_fields rd [''name'', ''status'', ''expected'', ''observed''] ms then None
       else (case (decode_field rd ms ''name'' [] json_string, decode_field rd ms ''status'' [] json_string,
                   decode_field rd ms ''expected'' None json_pointer, decode_field rd ms ''observed'' None json_pointer) of
             (Some n, Some st, Some e, Some ob) \<Rightarrow> Some \<lparr>ob_Name = n, ob_Status = st, ob_Expected = e, ob_Observed = ob\<rparr>
           | _ \<Rightarrow> None)
   | _ \<Rightarrow> None)"

fun decode_all :: "('b \<Rightarrow> 'a option) \<Rightarrow> 'b list \<Rightarrow> 'a list option" where
  "decode_all f [] = Some []"
| "decode_all f (x # xs) = (case (f x, decode_all f xs) of (Some y, Some ys) \<Rightarrow> Some (y # ys) | _ \<Rightarrow> None)"

definition decode_report :: "json_reader \<Rightarrow> json \<Rightarrow> Observation list option" where
  "decode_report rd v = (case v of
     JObject ms \<Rightarrow>
       if \<not> known_fields rd [''observations''] ms then None
       else decode_field rd ms ''observations'' [] (\<lambda>v. case v of
           JNull \<Rightarrow> Some [] | JArray vs \<Rightarrow> decode_all (decode_observation rd) vs | _ \<Rightarrow> None)
   | _ \<Rightarrow> None)"

fun check_observations :: "string list \<Rightarrow> Observation list \<Rightarrow> report_error option" where
  "check_observations seen [] = None"
| "check_observations seen (ob # obs) =
     (if ob_Name ob = [] \<or> ob_Name ob \<in> set seen then Some (ReportBadName (ob_Name ob))
      else if ob_Status ob \<notin> {ObservationMatched, ObservationMismatched, ObservationUnobserved}
      then Some (ReportBadStatus (ob_Name ob) (ob_Status ob))
      else check_observations (ob_Name ob # seen) obs)"

datatype report_file = NoReport | ReportLstatFailed | ReportSpecial | ReportOpenFailed | ReportData string

definition json_space :: "char \<Rightarrow> bool" where
  "json_space c = (c = CHR '' '' \<or> of_char c = (9 :: nat) \<or> of_char c = (13 :: nat) \<or> of_char c = (10 :: nat))"

definition parse_report :: "json_reader \<Rightarrow> string \<Rightarrow> report_error + Observation list" where
  "parse_report rd data =
     (let body = dropWhile json_space data
      in if body = [] \<or> hd body \<noteq> CHR ''{'' then Inl ReportNotObject
         else case jr_parse rd data of
             None \<Rightarrow> Inl ReportUndecodable
           | Some (v, rest) \<Rightarrow> (case unique_members (jr_fold rd) v of
                 Some name \<Rightarrow> Inl (ReportRepeated name)
               | None \<Rightarrow> (case decode_report rd v of
                     None \<Rightarrow> Inl ReportUndecodable
                   | Some obs \<Rightarrow>
                       if \<not> list_all json_space rest then Inl ReportTrailing
                       else if length obs > MaxObservations then Inl (ReportTooMany (length obs))
                       else (case check_observations [] obs of
                           Some e \<Rightarrow> Inl e
                         | None \<Rightarrow> if jr_length rd obs > MaxEnvironmentBytes then Inl ReportTooLong else Inr obs))))"

definition readEnvironmentReport :: "json_reader \<Rightarrow> report_file \<Rightarrow> report_error + Observation list" where
  "readEnvironmentReport rd file = (case file of
     NoReport \<Rightarrow> Inl ReportMissing
   | ReportLstatFailed \<Rightarrow> Inl ReportUnreadable
   | ReportSpecial \<Rightarrow> Inl ReportNotRegular
   | ReportOpenFailed \<Rightarrow> Inl ReportUnreadable
   | ReportData data \<Rightarrow> if length data > MaxEnvironmentBytes then Inl ReportTooLong else parse_report rd data)"

section \<open>Identifiers are numbers in base 32\<close>

lemma crockford_length: "length crockford = 32"
  by (simp add: crockford_def)

lemma crockford_ascending: "i < j \<Longrightarrow> j < 32 \<Longrightarrow> crockford ! i < crockford ! j"
proof -
  have "sorted_wrt (<) crockford" by code_simp
  then show "i < j \<Longrightarrow> j < 32 \<Longrightarrow> crockford ! i < crockford ! j" by (simp add: sorted_wrt_iff_nth_less crockford_length)
qed

text \<open>The digits of a number, most significant first.\<close>

definition digits32 :: "nat \<Rightarrow> nat \<Rightarrow> string" where
  "digits32 n v = map (\<lambda>i. crockford ! (v div 32 ^ i mod 32)) (rev [0..<n])"

lemma digits32_Suc: "digits32 (Suc n) v = (crockford ! (v div 32 ^ n mod 32)) # digits32 n v"
  by (simp add: digits32_def)

lemma digits32_snoc: "digits32 (Suc n) v = digits32 n (v div 32) @ [crockford ! (v mod 32)]"
  by (induction n) (simp_all add: digits32_def div_mult2_eq)

lemma mod_mult_div: "0 < b \<Longrightarrow> v mod (b * c) div b = v div b mod (c :: nat)"
  by (simp add: mod_mult2_eq)

lemma digits32_mod: "digits32 n (v mod 32 ^ n) = digits32 n v"
proof -
  have "v mod 32 ^ n div 32 ^ i mod 32 = v div 32 ^ i mod (32 :: nat)" if i: "i < n" for i
  proof -
    have split: "(32 :: nat) ^ n = 32 ^ i * 32 ^ (n - i)" using i by (simp flip: power_add)
    have "v mod 32 ^ n div 32 ^ i = v div 32 ^ i mod 32 ^ (n - i)" unfolding split by (rule mod_mult_div) (rule zero_less_power, rule zero_less_numeral)
    moreover have "(32 :: nat) dvd 32 ^ (n - i)" using i by (intro dvd_power) linarith
    ultimately show ?thesis by (simp only: mod_mod_cancel)
  qed
  then show ?thesis by (simp add: digits32_def)
qed

lemma digits32_less: "v < 32 ^ n \<Longrightarrow> u < v \<Longrightarrow> digits32 n u < digits32 n v"
proof (induction n arbitrary: u v)
  case (Suc n)
  let ?a = "u div 32 ^ n" and ?b = "v div 32 ^ n"
  have b: "?b < 32" "?a \<le> ?b" using Suc.prems by (auto simp: less_mult_imp_div_less div_le_mono)
  show ?case
  proof (cases "?a = ?b")
    case True
    then have "u mod 32 ^ n < v mod 32 ^ n" using Suc.prems(2) by (metis div_mult_mod_eq nat_add_left_cancel_less)
    then have "digits32 n u < digits32 n v" using Suc.IH [of "v mod 32 ^ n" "u mod 32 ^ n"] by (simp add: digits32_mod)
    with True show ?thesis by (simp add: digits32_Suc)
  next
    case False
    then show ?thesis using b crockford_ascending [of ?a ?b] by (simp add: digits32_Suc)
  qed
qed simp

text \<open>The two words of the loop are one number of 128 bits.\<close>

definition wide :: "64 word \<Rightarrow> 64 word \<Rightarrow> nat" where
  "wide hi lo = unat hi * 2 ^ 64 + unat lo"

lemma unat_drop_5: "unat (drop_bit 5 w) = unat w div 32" for w :: "64 word"
  by (simp add: drop_bit_eq_div unat_div)

lemma wide_shift: "wide (drop_bit 5 hi) (drop_bit 5 lo OR push_bit 59 hi) = wide hi lo div 32"
proof -
  let ?h = "unat hi" and ?l = "unat lo"
  have "\<not> bit (drop_bit 5 lo) n \<or> \<not> bit (push_bit 59 hi) n" for n
    by (auto simp: bit_simps dest: bit_imp_le_length)
  then have sum: "drop_bit 5 lo OR push_bit 59 hi = drop_bit 5 lo + push_bit 59 hi"
    by (simp add: disjunctive_add_eq_or bit_eq_iff bit_simps)
  have "unat (push_bit 59 hi) = ?h * 2 ^ 59 mod (32 * 2 ^ 59)"
    by (simp add: push_bit_eq_mult unat_word_ariths)
  then have high: "unat (push_bit 59 hi) = ?h mod 32 * 2 ^ 59" by (simp only: mod_mult_mult2)
  have "?l < 2 ^ 64" using unsigned_less [of lo] by simp
  then have small: "?l div 32 + ?h mod 32 * 2 ^ 59 < 2 ^ 64" by simp
  have "unat (drop_bit 5 lo + push_bit 59 hi) = ?l div 32 + ?h mod 32 * 2 ^ 59"
    using small by (simp add: unat_word_ariths unat_drop_5 high)
  moreover have "(?h * 2 ^ 64 + ?l) div 32 = ?h * 2 ^ 59 + ?l div 32"
    using div_mult_self1 [of 32 "?l" "?h * 2 ^ 59"] by (simp add: algebra_simps)
  moreover have "?h div 32 * 2 ^ 64 + ?h mod 32 * 2 ^ 59 = ?h * 2 ^ 59"
  proof -
    have "?h div 32 * 2 ^ 64 + ?h mod 32 * 2 ^ 59 = (?h div 32 * 32 + ?h mod 32) * 2 ^ 59"
      by (simp only: add_mult_distrib mult.assoc) simp
    then show ?thesis by (simp only: div_mult_mod_eq)
  qed
  ultimately show ?thesis by (simp add: wide_def sum unat_drop_5)
qed

lemma low_digit: "unat (lo AND 31) = wide hi lo mod 32"
proof -
  have "lo AND 31 = take_bit 5 lo" by (simp add: take_bit_eq_mask mask_eq_exp_minus_1)
  moreover have "unat (take_bit 5 lo) = unat lo mod 32" by (simp add: take_bit_eq_mod unat_mod)
  moreover have "(unat hi * 2 ^ 64 + unat lo) mod 32 = unat lo mod 32"
    using mod_mult_self1 [of "unat lo" "unat hi * 2 ^ 59" 32] by (simp add: algebra_simps)
  ultimately show ?thesis by (simp add: wide_def)
qed

lemma base32_digits_eq: "base32_digits n hi lo out = digits32 n (wide hi lo) @ out"
proof (induction n arbitrary: hi lo out)
  case (Suc n)
  then show ?case by (simp add: digits32_snoc wide_shift low_digit [of lo hi])
qed (simp add: digits32_def)

lemma base32_length [simp]: "length (base32_digits n hi lo out) = n + length out"
  by (simp add: base32_digits_eq digits32_def)

text \<open>An identifier is the base-32 form of its sixteen bytes, read as one number.\<close>

definition big_endian :: "8 word list \<Rightarrow> nat" where
  "big_endian bs = foldl (\<lambda>v b. v * 256 + unat b) 0 bs"

lemma big_endian_snoc: "big_endian (bs @ [b]) = big_endian bs * 256 + unat b"
  by (simp add: big_endian_def)

lemma big_endian_append: "big_endian (xs @ ys) = big_endian xs * 256 ^ length ys + big_endian ys"
  by (induction ys rule: rev_induct) (simp_all add: big_endian_snoc algebra_simps flip: append_assoc, simp_all add: big_endian_def)

lemma big_endian_Cons: "big_endian (b # bs) = unat b * 256 ^ length bs + big_endian bs"
  using big_endian_append [of "[b]" bs] by (simp add: big_endian_def)

lemma big_endian_less: "big_endian bs < 256 ^ length bs"
proof (induction bs rule: rev_induct)
  case (snoc b bs)
  have "unat b < 256" using unsigned_less [of b] by simp
  with snoc show ?case by (simp add: big_endian_snoc)
qed (simp add: big_endian_def)

lemma load_bytes_snoc: "load_bytes (bs @ [b]) = push_bit 8 (load_bytes bs) OR ucast b"
  by (simp add: load_bytes_def)

lemma load_bytes_value: "length bs \<le> 8 \<Longrightarrow> unat (load_bytes bs) = big_endian bs"
proof (induction bs rule: rev_induct)
  case (snoc b bs)
  then have h: "unat (load_bytes bs) = big_endian bs" and len: "length bs \<le> 7" by simp_all
  have "(256 :: nat) ^ length bs \<le> 256 ^ 7" using len by (intro power_increasing) simp_all
  then have small: "big_endian bs < 2 ^ 56" using big_endian_less [of bs] by simp
  have b: "unat b < 256" using unsigned_less [of b] by simp
  have "\<not> bit (push_bit 8 (load_bytes bs)) n \<or> \<not> bit (ucast b :: 64 word) n" for n
    by (auto simp: bit_simps dest: bit_imp_le_length)
  then have "load_bytes (bs @ [b]) = push_bit 8 (load_bytes bs) + ucast b"
    by (simp add: load_bytes_snoc disjunctive_add_eq_or bit_eq_iff bit_simps)
  then show ?case using small b
    by (simp add: push_bit_eq_mult unat_word_ariths h big_endian_snoc unsigned_ucast_eq take_bit_eq_mod)
qed (simp add: load_bytes_def big_endian_def)

lemma time_bytes_value: "big_endian (map (\<lambda>i. ucast (drop_bit (8 * i) ms)) (rev [0..<n])) = unat ms mod 256 ^ n" for ms :: "64 word"
proof (induction n)
  case (Suc n)
  have "unat (ucast (drop_bit (8 * n) ms) :: 8 word) = unat ms div 256 ^ n mod 256"
    by (simp add: unsigned_ucast_eq take_bit_eq_mod unat_drop_bit_eq)
      (simp add: drop_bit_eq_div power_mult)
  then have "big_endian (map (\<lambda>i. ucast (drop_bit (8 * i) ms)) (rev [0..<Suc n])) = unat ms div 256 ^ n mod 256 * 256 ^ n + unat ms mod 256 ^ n"
    using Suc.IH by (simp add: big_endian_Cons)
  also have "\<dots> = unat ms mod 256 ^ Suc n"
    using mod_mult2_eq [of "unat ms" "256 ^ n" 256] by (simp add: algebra_simps)
  finally show ?case .
qed (simp add: big_endian_def)

lemma attempt_id_digits:
  assumes "length rand = 10"
  shows "NewAttemptID ms (Some rand) = Some (digits32 26 (unat ms mod 2 ^ 48 * 256 ^ 10 + big_endian rand))"
proof -
  let ?raw = "time_bytes ms @ rand"
  have len: "length ?raw = 16" using assms by (simp add: time_bytes_def)
  have "big_endian ?raw = wide (load_bytes (take 8 ?raw)) (load_bytes (drop 8 ?raw))"
    using big_endian_append [of "take 8 ?raw" "drop 8 ?raw"] len
    by (simp add: wide_def load_bytes_value del: take_append drop_append)
  moreover have "big_endian ?raw = unat ms mod 2 ^ 48 * 256 ^ 10 + big_endian rand"
    using time_bytes_value [of ms 6] assms by (simp add: big_endian_append time_bytes_def)
  ultimately show ?thesis by (simp add: NewAttemptID_def Let_def base32_digits_eq)
qed

lemma digits32_valid: "validAttemptID (digits32 26 v)"
  by (auto simp: validAttemptID_def digits32_def list_all_iff crockford_length intro!: nth_mem)

lemma fixed_part_less: "big_endian rand < 256 ^ 10 \<Longrightarrow> m < m' \<Longrightarrow> m * 256 ^ 10 + big_endian rand < m' * 256 ^ 10 + r"
proof -
  assume "big_endian rand < 256 ^ 10" "m < m'"
  then have "m * 256 ^ 10 + big_endian rand < Suc m * 256 ^ 10" "Suc m * 256 ^ 10 \<le> m' * (256 :: nat) ^ 10"
    by (simp, intro mult_right_mono) simp_all
  then show ?thesis by simp
qed

text \<open>
  Whatever the random bytes, attempt identifiers are valid, and those of a later millisecond (of the 48
  bits kept) come later in the order of names, so the listing of receipts by name is by creation.
\<close>

theorem attempt_ids_sort_by_creation:
  assumes "length rand = 10" "length rand' = 10"
    and "unat ms mod 2 ^ 48 < unat ms' mod 2 ^ 48"
  shows "\<exists>aid aid'. NewAttemptID ms (Some rand) = Some aid \<and> NewAttemptID ms' (Some rand') = Some aid'
    \<and> validAttemptID aid \<and> validAttemptID aid' \<and> aid < aid'"
proof -
  let ?v = "unat ms mod 2 ^ 48 * 256 ^ 10 + big_endian rand" and ?v' = "unat ms' mod 2 ^ 48 * 256 ^ 10 + big_endian rand'"
  have r: "big_endian rand < 256 ^ 10" "big_endian rand' < 256 ^ 10" using big_endian_less assms by metis+
  have "?v' < 2 ^ 48 * 256 ^ 10 + 0" using r(2) by (intro fixed_part_less) simp_all
  then have "?v' < 32 ^ 26" by simp
  then have "digits32 26 ?v < digits32 26 ?v'" using fixed_part_less [OF r(1) assms(3)] by (rule digits32_less)
  then show ?thesis by (simp add: attempt_id_digits assms(1,2) digits32_valid)
qed

lemma attempt_ids_sort_by_creation_witness:
  "\<exists>aid aid'. NewAttemptID 1700000000000 (Some (replicate 10 255)) = Some aid \<and> NewAttemptID 1700000000001 (Some (replicate 10 0)) = Some aid'
    \<and> validAttemptID aid \<and> validAttemptID aid' \<and> aid < aid'"
  using attempt_ids_sort_by_creation [of "replicate 10 255" "replicate 10 0" 1700000000000 1700000000001] by simp

section \<open>Pruning\<close>

lemma ReadReceipt_entry: "gget e name = gget d name \<Longrightarrow> ReadReceipt dec e name = ReadReceipt dec d name"
  by (simp add: ReadReceipt_def)

lemma is_completed_entry: "gget e name = gget d name \<Longrightarrow> is_completed dec e name = is_completed dec d name"
  using ReadReceipt_entry [of e name d dec] by (simp add: is_completed_def)

lemma ReadReceipt_accepts:
  assumes "ReadReceipt dec d name = Inr r"
  shows "\<exists>data aid. gget d name = Some (EntryFile data) \<and> rs_AttemptID r = Some aid \<and> validAttemptID aid
    \<and> name = receipt_name aid \<and> recordedVerdict (rs_State r) (rs_Status r) (rs_ExitCode r)"
  using assms by (auto simp: ReadReceipt_def check_receipt_def split: option.splits dir_entry.splits if_splits)

lemma receipt_names:
  assumes "validAttemptID aid"
  shows "HasSuffix (receipt_name aid) ''.json'' \<and> \<not> HasPrefix (receipt_name aid) ''.''"
proof -
  obtain c cs where c: "aid = c # cs" "c \<in> set crockford"
    using assms by (cases aid) (auto simp: validAttemptID_def)
  then have "c \<noteq> CHR ''.''" by (auto simp: crockford_def)
  then show ?thesis by (simp add: receipt_name_def HasSuffix_def HasPrefix_def c)
qed

lemma completed_listed:
  assumes "is_completed dec d name"
  shows "name \<in> set (ListReceipts dec d)"
proof -
  obtain r where r: "ReadReceipt dec d name = Inr r" using assms by (auto simp: is_completed_def split: sum.splits)
  obtain data aid where "gget d name = Some (EntryFile data)" "validAttemptID aid" "name = receipt_name aid"
    using ReadReceipt_accepts [OF r] by blast
  then show ?thesis using r receipt_names gget_in_keys [of d name]
    by (simp add: ListReceipts_def is_receipt_def)
qed

lemma ListReceipts_descending: "gomap_ok d \<Longrightarrow> sorted_wrt (>) (ListReceipts dec d)"
  by (simp add: ListReceipts_def gomap_ok_def sorted_wrt_rev strict_sorted_iff)

lemma in_drop_descending:
  "sorted_wrt (>) xs \<Longrightarrow> x \<in> set (drop k xs) \<longleftrightarrow> x \<in> set xs \<and> k \<le> card {y \<in> set xs. x < y}" for x :: "'a :: linorder"
proof (induction xs arbitrary: k)
  case (Cons a xs)
  have below: "y < a" if "y \<in> set xs" for y using Cons.prems that by simp
  have new: "x \<notin> set xs" if "x = a" using below that by blast
  show ?case
  proof (cases k)
    case (Suc j)
    have IH: "x \<in> set (drop j xs) \<longleftrightarrow> x \<in> set xs \<and> j \<le> card {y \<in> set xs. x < y}" using Cons by simp
    consider "x = a" | "x \<in> set xs" | "x \<notin> set (a # xs)" by auto
    then show ?thesis
    proof cases
      case 1
      then have "{y \<in> set (a # xs). x < y} = {}" using below by (auto dest: less_asym)
      then have "\<not> k \<le> card {y \<in> set (a # xs). x < y}" by (simp only: Suc card.empty)
      moreover have "x \<notin> set (drop k (a # xs))" using 1 new Suc in_set_dropD [of x j xs] by auto
      ultimately show ?thesis by blast
    next
      case 2
      then have "{y \<in> set (a # xs). x < y} = insert a {y \<in> set xs. x < y}" "a \<notin> {y \<in> set xs. x < y}"
        using below by auto
      then have "card {y \<in> set (a # xs). x < y} = Suc (card {y \<in> set xs. x < y})" by simp
      then show ?thesis using 2 Suc IH by (simp del: list.set) simp
    qed (simp add: Suc IH)
  qed simp
qed simp

lemma prune_loop_removes:
  assumes "distinct names" "\<forall>n \<in> set names. gget e n = gget d n"
  shows "gget (snd (prune_loop dec stuck keep names t e)) n =
    (if n \<in> set (drop (20 - t) (filter (is_completed dec d) names)) \<and> n \<noteq> keep \<and> \<not> stuck n then None else gget e n)"
  using assms
proof (induction dec stuck keep names t e rule: prune_loop.induct)
  case (2 dec stuck keep name names t e)
  have same: "is_completed dec e name = is_completed dec d name" using "2.prems" by (intro is_completed_entry) simp
  have rest: "distinct names" "\<forall>n \<in> set names. gget e n = gget d n" "\<forall>n \<in> set names. gget (gdelete name e) n = gget d n" "name \<notin> set names"
    using "2.prems" by auto
  consider "\<not> is_completed dec e name" | "is_completed dec e name" "t + 1 \<le> 20" | "is_completed dec e name" "\<not> t + 1 \<le> 20" by blast
  then show ?case
  proof cases
    case 3
    then have "20 - t = 0" "20 - Suc t = 0" by simp_all
    then show ?thesis using 3 "2.IH"(2-4) rest same by (auto split: prod.splits)
  next
    case 2
    then have "drop (20 - t) (name # xs) = drop (20 - Suc t) xs" for xs :: "string list" by (simp add: drop_Cons' Suc_diff_Suc)
    then show ?thesis using 2 "2.IH"(2) rest same by simp
  qed (use "2.IH"(1) rest same in simp)
qed simp

text \<open>
  C28. Pruning removes exactly the completed receipts older than the twenty newest completed ones, save the
  receipt just written and those whose file cannot be removed. Active and indeterminate receipts, and files
  that are not receipts, stay as they are.
\<close>

theorem prune_removes_exactly_old_receipts:
  assumes "gomap_ok d"
  shows "gget (snd (Prune dec stuck keep d)) name =
    (if is_completed dec d name \<and> 20 \<le> card {newer. is_completed dec d newer \<and> name < newer} \<and> name \<noteq> keep \<and> \<not> stuck name
     then None else gget d name)"
proof -
  let ?cs = "filter (is_completed dec d) (ListReceipts dec d)"
  have sorted: "sorted_wrt (>) (ListReceipts dec d)" using assms by (rule ListReceipts_descending)
  then have distinct: "distinct (ListReceipts dec d)" by (metis distinct_rev sorted_wrt_rev strict_sorted_iff)
  have "set ?cs = {n. is_completed dec d n}" using completed_listed by auto
  then have "name \<in> set (drop 20 ?cs) \<longleftrightarrow> is_completed dec d name \<and> 20 \<le> card {newer. is_completed dec d newer \<and> name < newer}"
    using in_drop_descending [OF sorted_wrt_filter [OF sorted], of name 20 "is_completed dec d"] by simp
  then show ?thesis using prune_loop_removes [OF distinct, of d d dec stuck keep 0 name] by (simp add: Prune_def)
qed

text \<open>A directory of twenty-one completed receipts, each of whose texts is its attempt identifier.\<close>

definition example_receipt :: Result where
  "example_receipt = \<lparr>rs_SchemaVersion = 1, rs_Kind = KindReceipt, rs_State = StateCompleted, rs_AttemptID = None,
     rs_Status = StatusPassed, rs_Phase = PhaseCompleted, rs_Session = ''default'', rs_RunID = None, rs_ConfigPath = [],
     rs_ConfigSHA256 = None, rs_Workdir = [], rs_Source = \<lparr>sr_Revision = None, sr_Dirty = None, sr_Limitations = []\<rparr>,
     rs_ToolVersion = [], rs_Owner = Some \<lparr>vw_PID = 7, vw_Hostname = ''host''\<rparr>, rs_SelectedProcesses = [], rs_Endpoints = [],
     rs_EndpointsNote = None,
     rs_Startup = \<lparr>su_Status = StatusPassed, su_Validation = StatusPassed, su_Readiness = [], su_Unprobed = [], su_Errors = []\<rparr>,
     rs_Check = \<lparr>vk_Status = StatusPassed, vk_Generation = Some 1, vk_Argv = [''true''], vk_ArgvSHA256 = None, vk_ArgvBytes = 8,
       vk_Cwd = None, vk_StartedAt = None, vk_FinishedAt = None, vk_ExitCode = Some 0, vk_Signal = None, vk_TimedOut = False,
       vk_Stdout = [], vk_Stderr = [], vk_OutputTruncated = False\<rparr>,
     rs_Environment = \<lparr>ve_Required = False, ve_Status = StatusNotRun, ve_Reason = None, ve_Observations = []\<rparr>,
     rs_Cleanup = \<lparr>cl_Status = StatusPassed, cl_Attempted = True, cl_SignalingAuthority = ''withdrawn'',
       cl_TerminationVerified = Some True, cl_Unresolved = [], cl_Errors = [], cl_Teardown = []\<rparr>,
     rs_Evidence = \<lparr>ev_Journal = None, ev_FirstCursor = None, ev_LastCursor = None, ev_Gap = False, ev_Truncated = False,
       ev_ExcerptStatus = ''complete'', ev_Events = []\<rparr>,
     rs_Errors = [], rs_ExitCode = 0, rs_Precedence = PrecedencePassed, rs_ReceiptPath = None, rs_ReceiptPersisted = True,
     rs_Retention = []\<rparr>"

definition example_decoder :: receipt_decoder where
  "example_decoder = \<lparr>jd_result = \<lambda>data. Some (example_receipt\<lparr>rs_AttemptID := Some data\<rparr>), jd_exit = \<lambda>data. Some (Some 0)\<rparr>"

definition example_name :: "nat \<Rightarrow> string" where
  "example_name i = receipt_name (digits32 26 i)"

definition example_attempts :: attempts_dir where
  "example_attempts = map (\<lambda>i. (example_name i, EntryFile (digits32 26 i))) [0..<21]"

lemma digits32_inj: "i < 32 ^ n \<Longrightarrow> j < 32 ^ n \<Longrightarrow> digits32 n i = digits32 n j \<longleftrightarrow> i = j"
  using digits32_less [of i n j] digits32_less [of j n i] by (metis less_irrefl linorder_neqE_nat)

lemma append_less: "length xs = length ys \<Longrightarrow> xs < ys \<Longrightarrow> xs @ zs < ys @ zs" for xs :: "char list"
  by (induction xs ys rule: list_induct2) auto

lemma example_name_less: "i < j \<Longrightarrow> j < 21 \<Longrightarrow> example_name i < example_name j"
  unfolding example_name_def receipt_name_def by (intro append_less digits32_less) (simp_all add: digits32_def)

lemma example_name_inj: "i < 21 \<Longrightarrow> j < 21 \<Longrightarrow> example_name i = example_name j \<longleftrightarrow> i = j"
  using example_name_less [of i j] example_name_less [of j i] by (metis less_irrefl linorder_neqE_nat)

lemma example_attempts_ok: "gomap_ok example_attempts"
  by (auto simp: gomap_ok_def example_attempts_def distinct_map inj_on_def example_name_inj)

lemma example_completed: "is_completed example_decoder example_attempts name \<longleftrightarrow> name \<in> example_name ` {0..<21}"
proof
  assume "is_completed example_decoder example_attempts name"
  then have "gget example_attempts name \<noteq> None"
    by (auto simp: is_completed_def ReadReceipt_def split: option.splits sum.splits)
  then show "name \<in> example_name ` {0..<21}"
    by (auto simp: example_attempts_def dest!: map_of_SomeD)
next
  assume "name \<in> example_name ` {0..<21}"
  then obtain i where i: "i < 21" "name = example_name i" by auto
  then have "(name, EntryFile (digits32 26 i)) \<in> set example_attempts" by (auto simp: example_attempts_def)
  then have "gget example_attempts name = Some (EntryFile (digits32 26 i))"
    using example_attempts_ok by (simp add: gomap_ok_def)
  then show "is_completed example_decoder example_attempts name"
    using i by (simp add: is_completed_def ReadReceipt_def check_receipt_def example_decoder_def example_receipt_def
        example_name_def digits32_valid recordedVerdict_def)
qed

lemma example_newer:
  assumes "i < 21"
  shows "card {newer. is_completed example_decoder example_attempts newer \<and> example_name i < newer} = 20 - i"
proof -
  have "{newer. is_completed example_decoder example_attempts newer \<and> example_name i < newer} = example_name ` {Suc i..<21}"
  proof (intro set_eqI iffI)
    fix name assume "name \<in> {newer. is_completed example_decoder example_attempts newer \<and> example_name i < newer}"
    then obtain j where j: "j < 21" "name = example_name j" "example_name i < example_name j" by (auto simp: example_completed)
    then have "\<not> j \<le> i" using example_name_less [of j i] assms by (metis less_asym nat_less_le order_less_irrefl)
    then show "name \<in> example_name ` {Suc i..<21}" using j by simp
  next
    fix name assume "name \<in> example_name ` {Suc i..<21}"
    then show "name \<in> {newer. is_completed example_decoder example_attempts newer \<and> example_name i < newer}"
      using example_name_less by (auto simp: example_completed)
  qed
  moreover have "inj_on example_name {Suc i..<21}" by (auto simp: inj_on_def example_name_inj)
  ultimately show ?thesis by (simp add: card_image)
qed

lemma prune_removes_exactly_old_receipts_witness:
  "gget (snd (Prune example_decoder (\<lambda>_. False) (example_name 20) example_attempts)) (example_name 0) = None \<and>
   gget (snd (Prune example_decoder (\<lambda>_. False) (example_name 20) example_attempts)) (example_name 1) \<noteq> None"
proof -
  have "example_name 1 \<in> fst ` set example_attempts" by (simp add: example_attempts_def image_image)
  then have "gget example_attempts (example_name 1) \<noteq> None" by (simp add: map_of_eq_None_iff)
  then show ?thesis
    using example_newer [of 0] example_newer [of 1] example_name_inj [of 0 20]
    by (simp add: prune_removes_exactly_old_receipts [OF example_attempts_ok] example_completed)
qed

section \<open>What classification and reports conclude\<close>

text \<open>
  An unfinished attempt is called active only when its owner is known to be alive and the session names it
  as its runner, and abandoned only when its owner is known to be gone and the lease is known to be free.
  Without evidence it is indeterminate; a recorded end of an attempt is reported as it is.
\<close>

lemma classified_on_evidence:
  "Classify r ev =
     (if rs_State r \<noteq> StateActive then rs_State r
      else if \<exists>owner f run. rs_Owner r = Some owner \<and> oe_OwnerAlive ev = Some f \<and> f owner = (True, True)
         \<and> oe_OwnerRunning ev = Some run \<and> run owner then StateActive
      else if \<exists>owner f. rs_Owner r = Some owner \<and> oe_OwnerAlive ev = Some f \<and> f owner = (False, True)
         \<and> oe_LeaseHeld ev = Some (Some False) then StateAbandoned
      else StateIndeterminate)"
  by (auto simp: Classify_def split: option.splits prod.splits)

lemma check_observations_ok:
  "check_observations seen obs = None \<longleftrightarrow>
     distinct (map ob_Name obs) \<and> set (map ob_Name obs) \<inter> insert [] (set seen) = {} \<and>
     (\<forall>ob \<in> set obs. ob_Status ob \<in> {ObservationMatched, ObservationMismatched, ObservationUnobserved})"
  by (induction seen obs rule: check_observations.induct) auto

text \<open>
  A report that is accepted is a regular file within the size limit that starts as an object, repeats no
  member and has nothing behind its object; its observations are at most 32, named apart, each with a known status.
\<close>

theorem accepted_report_is_well_formed:
  assumes "readEnvironmentReport rd f = Inr obs"
  shows "\<exists>data v rest. f = ReportData data \<and> length data \<le> MaxEnvironmentBytes
    \<and> take 1 (dropWhile json_space data) = ''{'' \<and> jr_parse rd data = Some (v, rest)
    \<and> unique_members (jr_fold rd) v = None \<and> decode_report rd v = Some obs \<and> list_all json_space rest
    \<and> length obs \<le> MaxObservations \<and> jr_length rd obs \<le> MaxEnvironmentBytes
    \<and> distinct (map ob_Name obs) \<and> [] \<notin> set (map ob_Name obs)
    \<and> set (map ob_Status obs) \<subseteq> {ObservationMatched, ObservationMismatched, ObservationUnobserved}"
proof -
  have object: "take (Suc 0) xs = [c] \<longleftrightarrow> xs \<noteq> [] \<and> hd xs = c" for xs and c :: char by (cases xs) simp_all
  obtain data where "f = ReportData data" "length data \<le> MaxEnvironmentBytes" "parse_report rd data = Inr obs"
    using assms by (auto simp: readEnvironmentReport_def split: report_file.splits if_splits)
  then show ?thesis
    by (auto simp: parse_report_def Let_def object check_observations_ok split: if_splits option.splits prod.splits)
qed

definition example_reader :: json_reader where
  "example_reader = \<lparr>jr_parse = \<lambda>data. Some (JObject [(''observations'', JArray [JObject [(''name'', JString ''node''),
      (''status'', JString ObservationMatched), (''expected'', JNull)]])], []), jr_fold = (=), jr_length = \<lambda>obs. 80\<rparr>"

lemma accepted_report_is_well_formed_witness:
  "\<exists>data v rest. ReportData ''{...}'' = ReportData data \<and> length data \<le> MaxEnvironmentBytes
    \<and> take 1 (dropWhile json_space data) = ''{'' \<and> jr_parse example_reader data = Some (v, rest)
    \<and> decode_report example_reader v = Some [\<lparr>ob_Name = ''node'', ob_Status = ObservationMatched, ob_Expected = None, ob_Observed = None\<rparr>]"
proof -
  have "readEnvironmentReport example_reader (ReportData ''{...}'') =
    Inr [\<lparr>ob_Name = ''node'', ob_Status = ObservationMatched, ob_Expected = None, ob_Observed = None\<rparr>]"
    by (simp add: readEnvironmentReport_def parse_report_def example_reader_def json_space_def decode_report_def known_fields_def
        names_field_def decode_field_def decode_observation_def json_string_def json_pointer_def)
  from accepted_report_is_well_formed [OF this] show ?thesis by blast
qed

end
