(* ===== verification/Verify_Operation.thy ===== *)
theory Verify_Operation
  imports Verify_Receipt Runner_Teardown Crash_Recovery Log_Query
begin

text \<open>
  One verification attempt (\<^verbatim>\<open>internal/verify/operation.go\<close>): validation, acquisition, startup, the check,
  cleanup, evidence and the receipts. It composes the models of its parts: \<open>Load\<close>, \<open>Acquire\<close>,
  \<open>ResolveCrashedRun\<close>, \<open>Query\<close>, \<open>WriteReceipt\<close>, \<open>Prune\<close>, and reads the verdict of a \<open>runner\<close>. What happens while
  the stack runs beside the attempt is in its environment: the snapshots it polls, how the check ended, and
  the runner as \<^verbatim>\<open>Run\<close> left it. Deadlines are outcomes; times nothing decides on are left out.
\<close>

section \<open>Inputs\<close>

abbreviation MinStartupTimeout :: int where "MinStartupTimeout \<equiv> Second"
abbreviation MaxStartupTimeout :: int where "MaxStartupTimeout \<equiv> 600 * Second"
abbreviation MinCheckTimeout :: int where "MinCheckTimeout \<equiv> Second"
abbreviation MaxCheckTimeout :: int where "MaxCheckTimeout \<equiv> 3600 * Second"
abbreviation MinCleanupTimeout :: int where "MinCleanupTimeout \<equiv> 30 * Second"
abbreviation MaxCleanupTimeout :: int where "MaxCleanupTimeout \<equiv> 120 * Second"
abbreviation maxGraceSeconds :: int where "maxGraceSeconds \<equiv> 5"
abbreviation CheckProcessName :: string where "CheckProcessName \<equiv> ''verify:check''"
abbreviation Retention :: string where "Retention \<equiv> ''runtime-directory; may disappear at logout/reboot''"

record VerifyOptions =
  vo_ConfigPath :: string
  vo_Session :: string
  vo_Hash :: string
  vo_Selectors :: "string list"
  vo_Argv :: "string list"
  vo_Dir :: string
  vo_StartupTimeout :: int
  vo_CheckTimeout :: int
  vo_CleanupTimeout :: int
  vo_ToolVersion :: string
  vo_ExtraEnv :: "string gomap"
  vo_RequireEnvironment :: bool

text \<open>The end of the wait when neither all processes are ready nor one failed.\<close>

datatype wait_end = EndInterrupted | EndTimedOut | EndRunReturned

text \<open>A check result with what \<open>CheckResult\<close> leaves out. \<open>cx_Canceled\<close>: its error is \<^verbatim>\<open>context.Canceled\<close>.\<close>

record check_result = CheckResult +
  cx_Generation :: "64 word"
  cx_Stdout :: string
  cx_StartedAt :: "int option"
  cx_FinishedAt :: "int option"
  cx_Canceled :: bool

record verify_env =
  xv_encoder :: encoder
  xv_decoder :: receipt_decoder
  xv_reader :: json_reader
  xv_host :: host
  xv_is_dir :: "string \<Rightarrow> bool"
  xv_git :: "(string option \<times> string option) \<times> (string option \<times> string option)"
  xv_mkdir :: bool
  xv_runID :: string
  xv_sessionDir :: string
  xv_journalPath :: string
  xv_alive :: bool
  xv_clock :: "64 word"
  xv_random :: "8 word list option"
  xv_owner :: VerifyOwner
  xv_writable :: "bool \<times> bool"
  xv_stuck :: "string \<Rightarrow> bool"
  xv_journal_ok :: bool
  xv_released :: "string list"
  xv_polls :: "ipcProcState list list"
  xv_last :: "ipcProcState list \<times> wait_end"
  xv_final :: "ipcProcState list"
  xv_baseline :: "ipcProcState list"
  xv_inspections :: "ipcProcState list list"
  xv_check :: check_result
  xv_interrupted :: bool
  xv_deadline :: bool
  xv_report :: report_file
  xv_checked :: "ipcProcState list"
  xv_returned :: bool
  xv_runner :: runner
  xv_teardown :: "TeardownResult list"
  xv_after :: "ipcProcState list"
  xv_codec :: codec
  xv_journal :: "nat \<Rightarrow> string \<Rightarrow> look"
  xv_time :: nat

text \<open>What the attempt shares with other sessions and later attempts.\<close>

record verify_machine =
  vm_os :: os_world
  vm_pid :: pid_state
  vm_table :: ptable
  vm_attempts :: attempts_dir

section \<open>The result before and at acquisition\<close>

definition ValidateDuration :: "int \<Rightarrow> int \<Rightarrow> int \<Rightarrow> bool" where
  "ValidateDuration v lo hi = (\<not> (v < lo \<or> v > hi))"

definition newResult :: "encoder \<Rightarrow> VerifyOptions \<Rightarrow> Result" where
  "newResult enc opts =
     \<lparr>rs_SchemaVersion = 1, rs_Kind = KindResponse, rs_State = StateCompleted, rs_AttemptID = None, rs_Status = StatusNotRun,
      rs_Phase = PhaseValidation, rs_Session = (if vo_Session opts = [] then ''default'' else vo_Session opts), rs_RunID = None,
      rs_ConfigPath = vo_ConfigPath opts, rs_ConfigSHA256 = None, rs_Workdir = filepath_Dir (vo_ConfigPath opts),
      rs_Source = \<lparr>sr_Revision = None, sr_Dirty = None,
        sr_Limitations = [''revision_unavailable'', ''dirty_state_unavailable'', ''observation_unavailable'']\<rparr>,
      rs_ToolVersion = vo_ToolVersion opts, rs_Owner = None, rs_SelectedProcesses = [], rs_Endpoints = [], rs_EndpointsNote = None,
      rs_Startup = \<lparr>su_Status = StatusNotRun, su_Validation = StatusNotRun, su_Readiness = [], su_Unprobed = [], su_Errors = []\<rparr>,
      rs_Check = \<lparr>vk_Status = StatusNotRun, vk_Generation = None, vk_Argv = vo_Argv opts,
        vk_ArgvSHA256 = (if vo_Argv opts = [] then None else Some (fst (ArgvDigest enc (vo_Argv opts)))),
        vk_ArgvBytes = (if vo_Argv opts = [] then 0 else snd (ArgvDigest enc (vo_Argv opts))),
        vk_Cwd = None, vk_StartedAt = None, vk_FinishedAt = None, vk_ExitCode = None, vk_Signal = None, vk_TimedOut = False,
        vk_Stdout = [], vk_Stderr = [], vk_OutputTruncated = False\<rparr>,
      rs_Environment = \<lparr>ve_Required = vo_RequireEnvironment opts, ve_Status = StatusNotRun, ve_Reason = None, ve_Observations = []\<rparr>,
      rs_Cleanup = \<lparr>cl_Status = StatusNotNeeded, cl_Attempted = False, cl_SignalingAuthority = ''none'',
        cl_TerminationVerified = None, cl_Unresolved = [], cl_Errors = [], cl_Teardown = []\<rparr>,
      rs_Evidence = \<lparr>ev_Journal = None, ev_FirstCursor = None, ev_LastCursor = None, ev_Gap = False, ev_Truncated = False,
        ev_ExcerptStatus = ''not_collected'', ev_Events = []\<rparr>,
      rs_Errors = [], rs_ExitCode = 0, rs_Precedence = PrecedenceNoVerdict, rs_ReceiptPath = None, rs_ReceiptPersisted = False,
      rs_Retention = ''no receipt created''\<rparr>"

definition one_error :: "string \<Rightarrow> ErrorRecord list" where
  "one_error code = [\<lparr>er_Code = code, er_Count = 1\<rparr>]"

definition failPreAcquisition :: "string \<Rightarrow> Result \<Rightarrow> Result" where
  "failPreAcquisition code r =
     (let r1 = r\<lparr>rs_Errors := one_error code\<rparr>;
          r2 = (if code = CodeInvalidConfig
                then r1\<lparr>rs_Startup := (rs_Startup r1)\<lparr>su_Validation := StatusFailed, su_Status := StatusFailed, su_Errors := one_error code\<rparr>\<rparr>
                else r1)
      in r2\<lparr>rs_Status := StatusFailed, rs_ExitCode := ExitUsage, rs_Precedence := PrecedencePreAcquisition\<rparr>)"

definition EnvName :: "string \<Rightarrow> string \<Rightarrow> string \<Rightarrow> string" where
  "EnvName kind process port =
     (let norm = map (\<lambda>c. if CHR ''a'' \<le> c \<and> c \<le> CHR ''z'' then char_of (of_char c - of_char CHR ''a'' + of_char CHR ''A'' :: nat)
          else if (CHR ''A'' \<le> c \<and> c \<le> CHR ''Z'') \<or> (CHR ''0'' \<le> c \<and> c \<le> CHR ''9'') then c else CHR ''_'')
      in ''PROC_COMPOSE_'' @ kind @ ''_'' @ norm process @ ''_'' @ norm port)"

fun name_collision :: "string list \<Rightarrow> (string \<times> string) list \<Rightarrow> bool" where
  "name_collision seen [] = False"
| "name_collision seen ((process, port) # es) =
     (let key = EnvName ''PORT'' process port in key \<in> set seen \<or> name_collision (key # seen) es)"

definition endpointNameCollisions :: "Config \<Rightarrow> string list \<Rightarrow> bool" where
  "endpointNameCollisions cfg selected =
     name_collision [] (concat (map (\<lambda>process. map (Pair process) (gokeys (p_Ports (proc_at (c_Processes cfg) process)))) selected))"

section \<open>Source provenance\<close>

record sourceObservation =
  so_source :: VerifySource
  so_revision :: string
  so_status :: string
  so_ok :: bool

text \<open>The two answers of git, trimmed; \<open>None\<close> when it failed. A failed answer is compared with none.\<close>

definition observeSource :: "string option \<times> string option \<Rightarrow> sourceObservation" where
  "observeSource git = (case git of (revision, st) \<Rightarrow>
     (let known = (revision \<noteq> None \<and> revision \<noteq> Some [])
      in \<lparr>so_source = \<lparr>sr_Revision = (if known then revision else None), sr_Dirty = map_option (\<lambda>s. s \<noteq> []) st,
            sr_Limitations = sort ((if known then [] else [''revision_unavailable''])
              @ (if st \<noteq> None then [] else [''dirty_state_unavailable''])
              @ (if revision \<noteq> None \<or> st \<noteq> None then [] else [''observation_unavailable'']))\<rparr>,
          so_revision = the_default [] revision, so_status = the_default [] st, so_ok = (revision \<noteq> None \<and> st \<noteq> None)\<rparr>))"

definition source_equal :: "sourceObservation \<Rightarrow> sourceObservation \<Rightarrow> bool" where
  "source_equal a b = (so_ok a \<and> so_ok b \<and> so_revision a = so_revision b \<and> so_status a = so_status b)"

definition appendUnique :: "string list \<Rightarrow> string \<Rightarrow> string list" where
  "appendUnique xs v = (if v \<in> set xs then xs else xs @ [v])"

section \<open>Validation\<close>

text \<open>
  Nothing is owned yet. A refusal is the finished result; otherwise the configuration, the selected names
  and the result so far.
\<close>

definition verify_workdir :: "VerifyOptions \<Rightarrow> string" where
  "verify_workdir opts =
     (let base = filepath_Dir (vo_ConfigPath opts)
      in if vo_Dir opts = [] then base else if IsAbs (vo_Dir opts) then vo_Dir opts else filepath_Join base (vo_Dir opts))"

definition validate_selection :: "verify_env \<Rightarrow> VerifyOptions \<Rightarrow> Config \<Rightarrow> Result \<Rightarrow> Result + Config \<times> string list \<times> Result" where
  "validate_selection env opts cfg r =
     (let selected = SelectedNames cfg (vo_Selectors opts); workdir = verify_workdir opts
      in if first_some (map (CheckSelector cfg) (vo_Selectors opts)) \<noteq> None then Inl (failPreAcquisition CodeUsage r)
         else if \<not> list_ex (\<lambda>n. EffectiveMode (proc_at (c_Processes cfg) n) \<noteq> ProcessModeTask) selected
         then Inl (failPreAcquisition CodeUsage r)
         else if endpointNameCollisions cfg selected then Inl (failPreAcquisition CodeUsage r)
         else if \<not> xv_is_dir env workdir then Inl (failPreAcquisition CodeUsage r)
         else Inr (cfg, selected, r\<lparr>rs_Workdir := workdir, rs_Check := (rs_Check r)\<lparr>vk_Cwd := Some workdir\<rparr>,
             rs_Startup := (rs_Startup r)\<lparr>su_Validation := StatusPassed\<rparr>,
             rs_Source := so_source (observeSource (fst (xv_git env)))\<rparr>))"

definition validation :: "verify_env \<Rightarrow> VerifyOptions \<Rightarrow> Result \<Rightarrow> Result + Config \<times> string list \<times> Result" where
  "validation env opts r =
     (if vo_Argv opts = [] \<or> hd (vo_Argv opts) = [] then Inl (failPreAcquisition CodeUsage r)
      else if vk_ArgvBytes (rs_Check r) > MaxArgvBytes then Inl (failPreAcquisition CodeResultSizeLimit r)
      else if \<not> ValidateDuration (vo_StartupTimeout opts) MinStartupTimeout MaxStartupTimeout
         \<or> \<not> ValidateDuration (vo_CheckTimeout opts) MinCheckTimeout MaxCheckTimeout
         \<or> \<not> ValidateDuration (vo_CleanupTimeout opts) MinCleanupTimeout MaxCleanupTimeout
      then Inl (failPreAcquisition CodeUsage r)
      else case h_read (xv_host env) (vo_ConfigPath opts) of
          None \<Rightarrow> Inl (failPreAcquisition CodeInvalidConfig r)
        | Some raw \<Rightarrow>
            (let r1 = r\<lparr>rs_ConfigSHA256 := Some (digest (xv_encoder env) raw)\<rparr>
             in case Load (xv_host env) (vo_ConfigPath opts) of
                  Inl err \<Rightarrow> Inl (failPreAcquisition CodeInvalidConfig r1)
                | Inr cfg \<Rightarrow> validate_selection env opts cfg r1))"

section \<open>Startup\<close>

definition snapshot_state :: "ipcProcState list \<Rightarrow> string \<Rightarrow> ipcProcState option" where
  "snapshot_state states n = find (\<lambda>st. ip_Name st = n) (rev states)"

definition generation_of :: "ipcProcState list \<Rightarrow> string \<Rightarrow> 64 word" where
  "generation_of states n = (case snapshot_state states n of Some st \<Rightarrow> ip_Generation st | None \<Rightarrow> 0)"

definition is_task :: "Config \<Rightarrow> string \<Rightarrow> bool" where
  "is_task cfg n = (EffectiveMode (proc_at (c_Processes cfg) n) = ProcessModeTask)"

definition startup_failed :: "bool \<Rightarrow> ipcProcState \<Rightarrow> bool" where
  "startup_failed task st = (ip_State st = Failed \<or> (\<not> task \<and> (ip_State st = Exited \<or> ip_State st = Restarting)) \<or> (task \<and> ip_State st = Exited))"

text \<open>One poll: which processes failed, whether all are ready, and the owners of the answers seen first.\<close>

fun poll :: "Config \<Rightarrow> ipcProcState list \<Rightarrow> string list \<Rightarrow> string list \<times> bool \<times> EndpointOwner option gomap \<Rightarrow>
    string list \<times> bool \<times> EndpointOwner option gomap" where
  "poll cfg states [] acc = acc"
| "poll cfg states (n # ns) (failed, allReady, seen) =
     (case snapshot_state states n of
        None \<Rightarrow> poll cfg states ns (failed, False, seen)
      | Some st \<Rightarrow>
          if startup_failed (is_task cfg n) st then poll cfg states ns (failed @ [n], allReady, seen)
          else if ip_Ready st then poll cfg states ns (failed, allReady, if ghas seen n then seen else gput n (ip_ReadinessOwner st) seen)
          else poll cfg states ns (failed, False, seen))"

definition end_status :: "wait_end \<Rightarrow> string" where
  "end_status e = (case e of EndInterrupted \<Rightarrow> StatusInterrupted | EndTimedOut \<Rightarrow> StatusTimedOut | EndRunReturned \<Rightarrow> StatusFailed)"

record wait_verdict =
  wt_outcome :: string
  wt_failed :: "string list"
  wt_seen :: "EndpointOwner option gomap"
  wt_states :: "ipcProcState list"

text \<open>The polling loop over the snapshots it takes; the last one is followed by the end of the wait.\<close>

fun wait_loop :: "Config \<Rightarrow> string list \<Rightarrow> EndpointOwner option gomap \<Rightarrow> ipcProcState list list \<Rightarrow> ipcProcState list \<times> wait_end \<Rightarrow> wait_verdict" where
  "wait_loop cfg selected seen [] (states, e) =
     (case poll cfg states selected ([], states \<noteq> [], seen) of (failed, allReady, seen1) \<Rightarrow>
        \<lparr>wt_outcome = (if failed \<noteq> [] then StatusFailed else if allReady then StatusPassed else end_status e),
         wt_failed = failed, wt_seen = seen1, wt_states = states\<rparr>)"
| "wait_loop cfg selected seen (states # later) final =
     (case poll cfg states selected ([], states \<noteq> [], seen) of (failed, allReady, seen1) \<Rightarrow>
        if failed \<noteq> [] then \<lparr>wt_outcome = StatusFailed, wt_failed = failed, wt_seen = seen1, wt_states = states\<rparr>
        else if allReady then \<lparr>wt_outcome = StatusPassed, wt_failed = failed, wt_seen = seen1, wt_states = states\<rparr>
        else wait_loop cfg selected seen1 later final)"

definition probeKind :: "Process \<Rightarrow> string option" where
  "probeKind proc =
     (if EffectiveMode proc = ProcessModeTask then Some ''task_exit''
      else case p_ReadyWhen proc of
          None \<Rightarrow> None
        | Some rw \<Rightarrow>
            if rw_HTTP rw \<noteq> [] then Some ''http'' else if rw_TCP rw \<noteq> [] then Some ''tcp''
            else if rw_Cmd rw \<noteq> [] then Some ''cmd'' else if rw_Log rw \<noteq> [] then Some ''log'' else None)"

definition readiness_observation :: "Config \<Rightarrow> wait_verdict \<Rightarrow> ipcProcState list \<Rightarrow> string \<Rightarrow> ReadinessObservation" where
  "readiness_observation cfg w final n =
     (let kind = probeKind (proc_at (c_Processes cfg) n);
          refused = (case snapshot_state final n of Some st \<Rightarrow> ip_ReadinessOwner st | None \<Rightarrow> None)
      in \<lparr>ro_Process = n, ro_Generation = generation_of (wt_states w) n, ro_Probe = kind,
          ro_Status = (case gget (wt_seen w) n of
              Some owner \<Rightarrow> if kind = None then StatusNotConfig else StatusPassed
            | None \<Rightarrow> if n \<in> set (wt_failed w) then StatusFailed
                     else if wt_outcome w = StatusTimedOut \<and> generation_of (wt_states w) n > 0 then StatusTimedOut else StatusNotRun),
          ro_Owner = (case gget (wt_seen w) n of Some owner \<Rightarrow> owner | None \<Rightarrow> refused)\<rparr>)"

text \<open>The state of an attempt: its result, the error counts, whether it was interrupted, and whether it has a runner.\<close>

record attempt =
  at_result :: Result
  at_errs :: Errors
  at_interrupt :: bool
  at_runner :: bool

definition add_error :: "string \<Rightarrow> attempt \<Rightarrow> attempt" where
  "add_error code a = a\<lparr>at_errs := AddError code (at_errs a)\<rparr>"

definition interrupted_error :: "attempt \<Rightarrow> attempt" where
  "interrupted_error a = add_error CodeInterrupted (a\<lparr>at_interrupt := True\<rparr>)"

definition change :: "(Result \<Rightarrow> Result) \<Rightarrow> attempt \<Rightarrow> attempt" where
  "change f a = a\<lparr>at_result := f (at_result a)\<rparr>"

definition failStartup :: "string \<Rightarrow> string \<Rightarrow> attempt \<Rightarrow> attempt" where
  "failStartup code status a =
     add_error code (change (\<lambda>r. r\<lparr>rs_Startup := (rs_Startup r)\<lparr>su_Status := status, su_Errors := one_error code\<rparr>\<rparr>) a)"

definition recordGenerations :: "ipcProcState list \<Rightarrow> Result \<Rightarrow> Result" where
  "recordGenerations states r =
     r\<lparr>rs_SelectedProcesses := map (\<lambda>g. if snapshot_state states (gn_Name g) \<noteq> None \<and> generation_of states (gn_Name g) > gn_Generation g
         then g\<lparr>gn_Generation := generation_of states (gn_Name g)\<rparr> else g) (rs_SelectedProcesses r)\<rparr>"

definition waitReady :: "verify_env \<Rightarrow> Config \<Rightarrow> string list \<Rightarrow> attempt \<Rightarrow> bool \<times> attempt" where
  "waitReady env cfg selected a =
     (let w = wait_loop cfg selected [] (xv_polls env) (xv_last env);
          obs = map (readiness_observation cfg w (xv_final env)) selected;
          a1 = change (\<lambda>r. (recordGenerations (wt_states w) r)\<lparr>rs_Startup := (rs_Startup r)\<lparr>
                 su_Readiness := su_Readiness (rs_Startup r) @ obs,
                 su_Unprobed := su_Unprobed (rs_Startup r) @ map ro_Process (filter (\<lambda>ob. ro_Probe ob = None) obs)\<rparr>\<rparr>) a;
          status = (\<lambda>s. change (\<lambda>r. r\<lparr>rs_Startup := (rs_Startup r)\<lparr>su_Status := s\<rparr>\<rparr>))
      in if wt_outcome w = StatusPassed then (True, status StatusPassed a1)
         else if wt_outcome w = StatusInterrupted then (False, interrupted_error (status StatusInterrupted a1))
         else if wt_outcome w = StatusTimedOut then (False, failStartup CodeStartupTimeout StatusTimedOut a1)
         else (False, failStartup CodeStartupFailed StatusFailed a1))"

section \<open>The check\<close>

definition service_failed :: "ipcProcState list \<Rightarrow> ipcProcState \<Rightarrow> bool" where
  "service_failed baseline st =
     (ip_Mode st \<noteq> ProcessModeTask \<and>
      (ip_State st \<noteq> Running \<or> ip_Generation st \<noteq> generation_of baseline (ip_Name st) \<or> ip_Health st = healthUnhealthy))"

text \<open>The last inspection is the one made when the check has ended.\<close>

definition monitorRequired :: "ipcProcState list \<Rightarrow> ipcProcState list list \<Rightarrow> string list" where
  "monitorRequired baseline inspections = remdups (map ip_Name (filter (service_failed baseline) (concat inspections)))"

text \<open>\<open>interrupted\<close>: the caller's context is done; \<open>deadline\<close>: the check's own context ended at its deadline.\<close>

definition check_status :: "check_result \<Rightarrow> bool \<Rightarrow> bool \<Rightarrow> string" where
  "check_status ck interrupted deadline =
     (if \<not> ck_Started ck \<and> interrupted \<and> cx_Canceled ck then StatusInterrupted
      else if \<not> ck_Started ck then StatusFailed
      else if interrupted then StatusInterrupted
      else if deadline then StatusTimedOut
      else if ck_ExitCode ck = Some 0 then StatusPassed
      else StatusFailed)"

definition check_errors :: "check_result \<Rightarrow> bool \<Rightarrow> bool \<Rightarrow> attempt \<Rightarrow> attempt" where
  "check_errors ck interrupted deadline a =
     (if \<not> ck_Started ck \<and> interrupted \<and> cx_Canceled ck then interrupted_error a
      else if \<not> ck_Started ck
      then (let a1 = add_error CodeCheckStartFailed a in if interrupted then interrupted_error a1 else a1)
      else if interrupted then interrupted_error a
      else if deadline then add_error CodeCheckTimeout a
      else if ck_ExitCode ck = Some 0 then a
      else add_error CodeCheckExitNonzero a)"

definition recordCheck :: "check_result \<Rightarrow> bool \<Rightarrow> bool \<Rightarrow> attempt \<Rightarrow> attempt" where
  "recordCheck ck interrupted deadline a =
     (let timedOut = (\<not> interrupted \<and> deadline);
          a1 = check_errors ck interrupted timedOut (change (\<lambda>r. r\<lparr>rs_Check := (rs_Check r)\<lparr>
            vk_Generation := (if ck_Started ck then Some (cx_Generation ck) else vk_Generation (rs_Check r)),
            vk_StartedAt := (if ck_Started ck then cx_StartedAt ck else vk_StartedAt (rs_Check r)),
            vk_FinishedAt := (if ck_Started ck then cx_FinishedAt ck else vk_FinishedAt (rs_Check r)),
            vk_ExitCode := ck_ExitCode ck, vk_Signal := ck_Signal ck, vk_Stdout := cx_Stdout ck, vk_Stderr := ck_Stderr ck,
            vk_OutputTruncated := ck_OutputTruncated ck, vk_TimedOut := vk_TimedOut (rs_Check r) \<or> (ck_Started ck \<and> timedOut),
            vk_Status := (if ck_HandedOff ck then StatusUnverified else check_status ck interrupted timedOut)\<rparr>\<rparr>) a)
      in if ck_HandedOff ck \<and> \<not> timedOut \<and> \<not> interrupted then add_error CodeCleanupUnverified a1 else a1)"

definition environment_unknown :: "string \<Rightarrow> attempt \<Rightarrow> attempt" where
  "environment_unknown reason a =
     (let a1 = change (\<lambda>r. r\<lparr>rs_Environment := (rs_Environment r)\<lparr>ve_Status := EnvironmentUnknown, ve_Reason := Some reason\<rparr>\<rparr>) a
      in if ve_Required (rs_Environment (at_result a)) \<or> reason = ReasonReportInvalid then add_error CodeEnvironmentUnverified a1 else a1)"

definition recordEnvironment :: "json_reader \<Rightarrow> report_file \<Rightarrow> bool \<Rightarrow> attempt \<Rightarrow> attempt" where
  "recordEnvironment rd report started a =
     (if \<not> started then a
      else case readEnvironmentReport rd report of
          Inl e \<Rightarrow> environment_unknown (if e = ReportMissing then ReasonReportMissing else ReasonReportInvalid) a
        | Inr obs \<Rightarrow>
            if obs = [] then environment_unknown ReasonNoObservations a
            else (let status = (if list_all (\<lambda>ob. ob_Status ob = ObservationMatched) obs then EnvironmentEligible else EnvironmentIneligible);
                      a1 = change (\<lambda>r. r\<lparr>rs_Environment := (rs_Environment r)\<lparr>ve_Observations := obs, ve_Status := status\<rparr>\<rparr>) a
                  in if status = EnvironmentIneligible then add_error CodeEnvironmentIneligible a1 else a1))"

section \<open>Cleanup\<close>

definition recordTeardown :: "TeardownResult list \<Rightarrow> attempt \<Rightarrow> attempt" where
  "recordTeardown results a =
     (let a1 = change (\<lambda>r. r\<lparr>rs_Cleanup := (rs_Cleanup r)\<lparr>cl_Teardown := cl_Teardown (rs_Cleanup r) @
                 map (\<lambda>t. \<lparr>tr_Name = td_Name t, tr_Status = status_text (td_Status t), tr_ExitCode = td_ExitCode t, tr_Error = td_Error t\<rparr>) results\<rparr>\<rparr>) a
      in if list_ex (\<lambda>t. td_Status t \<noteq> TeardownPassed) results then add_error CodeTeardownFailed a1 else a1)"

definition set_cleanup :: "(Cleanup \<Rightarrow> Cleanup) \<Rightarrow> attempt \<Rightarrow> attempt" where
  "set_cleanup f = change (\<lambda>r. r\<lparr>rs_Cleanup := f (rs_Cleanup r)\<rparr>)"

definition unverified_cleanup :: "string \<Rightarrow> VerifyUnresolved list \<Rightarrow> attempt \<Rightarrow> attempt" where
  "unverified_cleanup authority unresolved a =
     add_error CodeCleanupUnverified (set_cleanup (\<lambda>c. c\<lparr>cl_Status := StatusUnverified, cl_SignalingAuthority := authority,
       cl_TerminationVerified := Some False, cl_Unresolved := cl_Unresolved c @ unresolved, cl_Errors := one_error CodeCleanupUnverified\<rparr>) a)"

definition unresolved_entry :: "ipcProcState list \<Rightarrow> UnresolvedProcess \<Rightarrow> VerifyUnresolved" where
  "unresolved_entry after u =
     \<lparr>vu_Name = up_Name u, vu_Generation = (if up_Name u = CheckProcessName then Some 1 else map_option ip_Generation (snapshot_state after (up_Name u))),
      vu_Identity = up_Identity u\<rparr>"

definition cleanup :: "verify_env \<Rightarrow> string list \<Rightarrow> attempt \<Rightarrow> attempt" where
  "cleanup env selected a =
     (let a1 = set_cleanup (\<lambda>c. c\<lparr>cl_Attempted := True\<rparr>) (change (\<lambda>r. r\<lparr>rs_Phase := PhaseCleaningUp\<rparr>) a);
          passed = set_cleanup (\<lambda>c. c\<lparr>cl_Status := StatusPassed, cl_SignalingAuthority := ''withdrawn'', cl_TerminationVerified := Some True\<rparr>)
      in if \<not> at_runner a then passed a1
         else (let a2 = recordTeardown (xv_teardown env) a1; r = xv_runner env
               in if \<not> xv_returned env
                  then unverified_cleanup ''unknown'' (map (\<lambda>n. \<lparr>vu_Name = n, vu_Generation = Some (generation_of (xv_after env) n),
                         vu_Identity = ''unavailable''\<rparr>) selected) a2
                  else if ShutdownResult r = None \<and> Unresolved r = [] then passed a2
                  else unverified_cleanup ''withdrawn'' (map (unresolved_entry (xv_after env)) (Unresolved r)) a2))"

section \<open>Evidence and verdict\<close>

definition truncateUTF8 :: "string \<Rightarrow> nat \<Rightarrow> string" where
  "truncateUTF8 s limit = (if length s \<le> limit then s else take (cut_back s limit) s)"

definition no_options :: LogOptions where
  "no_options = \<lparr>lo_Limit = 0, lo_MaxBytes = 0, lo_After = [], lo_Tail = False, lo_Processes = [], lo_Level = [], lo_Kind = [],
     lo_Code = [], lo_Stream = [], lo_Search = [], lo_Since = None, lo_RunID = [], lo_AttemptID = [], lo_Generation = 0\<rparr>"

definition evidence_event :: "LogEntry \<Rightarrow> EvidenceEvent" where
  "evidence_event e = \<lparr>xe_ID = le_ID e, xe_Process = le_Process e, xe_Generation = le_Generation e, xe_Level = le_Level e,
     xe_Code = le_Code e, xe_Message = truncateUTF8 (le_Line e) 512\<rparr>"

definition collectEvidence :: "verify_env \<Rightarrow> string \<Rightarrow> attempt \<Rightarrow> attempt" where
  "collectEvidence env runID a =
     (case ev_Journal (rs_Evidence (at_result a)) of
        None \<Rightarrow> a
      | Some journal \<Rightarrow>
          if \<not> at_runner a then a
          else (case Query (xv_codec env) (xv_journal env) journal (no_options\<lparr>lo_RunID := runID, lo_Limit := 1, lo_MaxBytes := 1024\<rparr>) (xv_time env) of
              (Inl e, t1) \<Rightarrow> add_error CodeEvidenceUnavailable
                  (change (\<lambda>r. r\<lparr>rs_Evidence := (rs_Evidence r)\<lparr>ev_ExcerptStatus := ''not_collected''\<rparr>\<rparr>) a)
            | (Inr first, t1) \<Rightarrow>
                (let tail = no_options\<lparr>lo_RunID := runID, lo_Limit := 1, lo_MaxBytes := 1048576, lo_Tail := True\<rparr>;
                     errors = no_options\<lparr>lo_RunID := runID, lo_Level := ''error'', lo_Limit := 20, lo_MaxBytes := 8192, lo_Tail := True\<rparr>;
                     (q2, t2) = Query (xv_codec env) (xv_journal env) journal tail t1;
                     final = Query_page (xv_codec env) (xv_journal env) journal tail t1;
                     excerpt = Query_page (xv_codec env) (xv_journal env) journal errors t2;
                     cut = (pg_Truncated excerpt \<or> pg_HasMore excerpt);
                     open_ended = (cl_Status (rs_Cleanup (at_result a)) \<noteq> StatusPassed)
                 in change (\<lambda>r. r\<lparr>rs_Evidence := (rs_Evidence r)\<lparr>
                      ev_FirstCursor := (if pg_Events first = [] then ev_FirstCursor (rs_Evidence r) else Some (le_ID (hd (pg_Events first)))),
                      ev_LastCursor := (if pg_Events final = [] then ev_LastCursor (rs_Evidence r) else Some (le_ID (List.last (pg_Events final)))),
                      ev_Gap := pg_Gap first \<or> pg_Gap final,
                      ev_Events := ev_Events (rs_Evidence r) @ map evidence_event (pg_Events excerpt),
                      ev_Truncated := cut \<or> open_ended,
                      ev_ExcerptStatus := (if open_ended then ''incomplete_at_cleanup_deadline'' else if cut then ''truncated'' else ''complete'')\<rparr>\<rparr>) a)))"

definition finishVerdict :: "attempt \<Rightarrow> attempt" where
  "finishVerdict a =
     (let errs = Records (at_errs a)
      in change (\<lambda>r. (if at_interrupt a then r\<lparr>rs_Status := StatusInterrupted, rs_ExitCode := ExitInterrupted, rs_Precedence := PrecedenceInterrupted\<rparr>
           else if errs \<noteq> [] then r\<lparr>rs_Status := StatusFailed, rs_ExitCode := ExitFailed, rs_Precedence := PrecedenceFailure\<rparr>
           else r\<lparr>rs_Status := StatusPassed, rs_ExitCode := ExitPassed, rs_Precedence := PrecedencePassed\<rparr>)\<lparr>rs_Errors := errs\<rparr>) a)"

section \<open>The attempt\<close>

definition endpointsOf :: "Project \<Rightarrow> Endpoint gomap" where
  "endpointsOf pj = concat (map (\<lambda>(process, ports). map (\<lambda>(name, port). (process @ ''.'' @ name,
     \<lparr>en_Port = port, en_URL = the_default [] (gget (the_default [] (gget (pj_URLs pj) process)) name)\<rparr>)) ports) (pj_Ports pj))"

definition environment_path :: "string \<Rightarrow> string \<Rightarrow> string" where
  "environment_path dir aid = filepath_Join (filepath_Join dir ''attempts'') (aid @ ''.environment'')"

definition endpoint_env :: "Project \<Rightarrow> (string \<times> string) list" where
  "endpoint_env pj = concat (map (\<lambda>(process, ports). concat (map (\<lambda>(name, port).
     [(EnvName ''PORT'' process name, Itoa port),
      (EnvName ''URL'' process name, the_default [] (gget (the_default [] (gget (pj_URLs pj) process)) name))]) ports)) (pj_Ports pj))"

definition checkEnv :: "string gomap \<Rightarrow> string \<Rightarrow> string \<Rightarrow> Project \<Rightarrow> string gomap" where
  "checkEnv extra session aid pj =
     fold (\<lambda>(k, v). gput k v)
       (extra @ [(''PROC_COMPOSE_SESSION'', session), (''PROC_COMPOSE_SESSION_DIR'', pj_Directory pj), (''PROC_COMPOSE_RUN_ID'', pj_RunID pj),
          (''PROC_COMPOSE_ENVIRONMENT_REPORT'', environment_path (pj_Directory pj) aid)] @ endpoint_env pj) []"

definition clampGrace :: "Config \<Rightarrow> Config" where
  "clampGrace cfg = cfg\<lparr>c_Processes := map (\<lambda>(name, proc). (name,
     if p_ShutdownTimeout proc \<le> 0 \<or> p_ShutdownTimeout proc > maxGraceSeconds then proc\<lparr>p_ShutdownTimeout := maxGraceSeconds\<rparr> else proc))
     (c_Processes cfg)\<rparr>"

definition set_phase :: "string \<Rightarrow> attempt \<Rightarrow> attempt" where
  "set_phase ph = change (\<lambda>r. r\<lparr>rs_Phase := ph\<rparr>)"

definition startAndCheck :: "verify_env \<Rightarrow> Config \<Rightarrow> string list \<Rightarrow> attempt \<Rightarrow> attempt" where
  "startAndCheck env resolved selected a =
     (if \<not> xv_journal_ok env then failStartup CodeStartupFailed StatusFailed a
      else case waitReady env (clampGrace resolved) selected (set_phase PhaseWaiting (a\<lparr>at_runner := True\<rparr>)) of
          (False, a1) \<Rightarrow> a1
        | (True, a1) \<Rightarrow>
            (let a2 = recordCheck (xv_check env) (xv_interrupted env) (xv_deadline env) (set_phase PhaseChecking a1);
                 a3 = recordEnvironment (xv_reader env) (xv_report env) (ck_Started (xv_check env)) a2;
                 a4 = fold (\<lambda>n. add_error CodeRequiredFailed) (monitorRequired (xv_baseline env) (xv_inspections env)) a3
             in change (recordGenerations (xv_checked env)) a4))"

definition persistTerminal :: "verify_env \<Rightarrow> string \<Rightarrow> Result \<Rightarrow> attempts_dir \<Rightarrow> bool \<times> Result \<times> attempts_dir" where
  "persistTerminal env name r d =
     (case Encode (xv_encoder env) r of
        (EncodedFull data, r1) \<Rightarrow> (case WriteReceipt (xv_encoder env) (snd (xv_writable env)) name r1 d of
            (None, d1) \<Rightarrow> (True, r1, d1) | (Some e, d1) \<Rightarrow> (False, r1, d1))
      | (_, r1) \<Rightarrow> (False, r1, d))"

text \<open>The result an attempt starts with, written as the active receipt before anything is launched.\<close>

definition active_result :: "verify_env \<Rightarrow> string \<Rightarrow> SessionPlan \<Rightarrow> string list \<Rightarrow> Result \<Rightarrow> Result" where
  "active_result env aid plan selected r =
     r\<lparr>rs_AttemptID := Some aid, rs_RunID := Some (pj_RunID (pl_Project plan)), rs_Owner := Some (xv_owner env),
       rs_Endpoints := endpointsOf (pl_Project plan),
       rs_SelectedProcesses := rs_SelectedProcesses r @ map (\<lambda>n. \<lparr>gn_Name = n, gn_Generation = 0\<rparr>) selected,
       rs_ReceiptPath := Some (filepath_Join (filepath_Join (pj_Directory (pl_Project plan)) ''attempts'') (receipt_name aid)),
       rs_Retention := Retention, rs_Evidence := (rs_Evidence r)\<lparr>ev_Journal := Some (xv_journalPath env)\<rparr>,
       rs_Kind := KindReceipt, rs_State := StateActive, rs_Phase := PhaseStarting,
       rs_Cleanup := (rs_Cleanup r)\<lparr>cl_Status := StatusNotRun, cl_SignalingAuthority := ''held''\<rparr>\<rparr>"

definition close_plan :: "SessionPlan \<Rightarrow> verify_machine \<Rightarrow> verify_machine" where
  "close_plan plan m = m\<lparr>vm_os := snd (Close (plan, vm_os m))\<rparr>"

definition unrecorded :: "attempt \<Rightarrow> attempt" where
  "unrecorded a = finishVerdict (add_error CodeReceiptPersistence (change (\<lambda>r. r\<lparr>rs_Kind := KindResponse, rs_State := StateCompleted,
     rs_ReceiptPath := None, rs_Retention := ''no receipt created'',
     rs_Cleanup := (rs_Cleanup r)\<lparr>cl_Status := StatusNotNeeded, cl_SignalingAuthority := ''none''\<rparr>\<rparr>) a))"

definition source_noted :: "verify_env \<Rightarrow> attempt \<Rightarrow> attempt" where
  "source_noted env a =
     (let earlier = observeSource (fst (xv_git env)); later = observeSource (snd (xv_git env))
      in if so_ok earlier \<and> so_ok later \<and> \<not> source_equal later earlier
         then change (\<lambda>r. r\<lparr>rs_Source := (rs_Source r)\<lparr>sr_Limitations := appendUnique (sr_Limitations (rs_Source r)) ''source_changed_during_attempt''\<rparr>\<rparr>) a
         else a)"

definition terminal :: "verify_env \<Rightarrow> attempt \<Rightarrow> attempt" where
  "terminal env a = change (\<lambda>r. r\<lparr>rs_ReceiptPersisted := True\<rparr>)
     (finishVerdict (change (\<lambda>r. r\<lparr>rs_Phase := PhaseCompleted, rs_State := StateCompleted\<rparr>) (source_noted env a)))"

definition unpersisted :: "Result \<Rightarrow> attempt \<Rightarrow> attempt" where
  "unpersisted r a = finishVerdict (add_error CodeReceiptPersistence (change (\<lambda>r. r\<lparr>rs_ReceiptPersisted := False\<rparr>) (a\<lparr>at_result := r\<rparr>)))"

text \<open>What follows the work: the terminal receipt, pruning, the lease, the response.\<close>

definition conclude_attempt :: "verify_env \<Rightarrow> string \<Rightarrow> SessionPlan \<Rightarrow> attempt \<Rightarrow> verify_machine \<Rightarrow> Result \<times> verify_machine" where
  "conclude_attempt env aid plan a m =
     (case persistTerminal env (receipt_name aid) (at_result (terminal env a)) (vm_attempts m) of (ok, r1, d1) \<Rightarrow>
        let r = (if ok then r1 else at_result (unpersisted r1 (terminal env a)));
            m1 = m\<lparr>vm_attempts := if ok then snd (Prune (xv_decoder env) (xv_stuck env) (receipt_name aid) d1) else d1\<rparr>
        in (r\<lparr>rs_Kind := KindResponse\<rparr>, if cl_SignalingAuthority (rs_Cleanup r) = ''withdrawn'' then close_plan plan m1 else m1))"

definition run_ports :: "string list \<Rightarrow> SessionPlan \<Rightarrow> verify_machine \<Rightarrow> SessionPlan \<times> verify_machine" where
  "run_ports released plan m = (case fold ReleasePorts released (plan, vm_os m) of (plan1, w1) \<Rightarrow> (plan1, m\<lparr>vm_os := w1\<rparr>))"

definition plan_config :: "SessionPlan \<Rightarrow> Config" where
  "plan_config plan = the_default \<lparr>c_Merge = None, c_Processes = [], c_Resources = []\<rparr> (pl_Config plan)"

definition first_state :: "verify_env \<Rightarrow> string \<Rightarrow> SessionPlan \<Rightarrow> string list \<Rightarrow> Result \<Rightarrow> attempt" where
  "first_state env aid plan selected r =
     \<lparr>at_result = active_result env aid plan selected r, at_errs = [], at_interrupt = False, at_runner = False\<rparr>"

definition worked :: "verify_env \<Rightarrow> SessionPlan \<Rightarrow> string list \<Rightarrow> attempt \<Rightarrow> attempt" where
  "worked env plan selected a =
     collectEvidence env (pj_RunID (pl_Project plan)) (cleanup env selected (startAndCheck env (plan_config plan) selected a))"

definition attempt_run :: "verify_env \<Rightarrow> SessionPlan \<Rightarrow> string list \<Rightarrow> Result \<Rightarrow> verify_machine \<Rightarrow> Result \<times> verify_machine" where
  "attempt_run env plan selected r m =
     (case NewAttemptID (xv_clock env) (xv_random env) of
        None \<Rightarrow> (failPreAcquisition CodeReceiptPersistence r, close_plan plan m)
      | Some aid \<Rightarrow>
          (let a0 = first_state env aid plan selected r
           in case WriteReceipt (xv_encoder env) (fst (xv_writable env)) (receipt_name aid) (at_result a0) (vm_attempts m) of
                (Some e, d1) \<Rightarrow> (at_result (unrecorded a0), close_plan plan (m\<lparr>vm_attempts := d1\<rparr>))
              | (None, d1) \<Rightarrow>
                  (case run_ports (if at_runner (startAndCheck env (plan_config plan) selected a0) then xv_released env else [])
                          plan (m\<lparr>vm_attempts := d1\<rparr>) of
                     (plan1, m1) \<Rightarrow> conclude_attempt env aid plan1 (worked env plan selected a0) m1)))"

fun lease_error :: "session_error \<Rightarrow> LeaseError option" where
  "lease_error (ErrLease e) = Some e"
| "lease_error (ErrMergePort port e) = lease_error e"
| "lease_error (ErrPort process port e) = lease_error e"
| "lease_error (ErrField name field e) = lease_error e"
| "lease_error _ = None"

definition incomplete :: "Result \<Rightarrow> Result" where
  "incomplete r = r\<lparr>rs_Endpoints := [], rs_EndpointsNote := Some ''acquisition_incomplete''\<rparr>"

definition acquisition_code :: "session_error \<Rightarrow> string" where
  "acquisition_code e = (case lease_error e of
     Some le \<Rightarrow> if Instance le then CodeSessionOccupied else CodeResourceUnavailable
   | None \<Rightarrow> CodeInvalidConfig)"

definition Run_attempt :: "verify_env \<Rightarrow> VerifyOptions \<Rightarrow> verify_machine \<Rightarrow> Result \<times> verify_machine" where
  "Run_attempt env opts m =
     (case validation env opts (newResult (xv_encoder env) opts) of
        Inl r \<Rightarrow> (r, m)
      | Inr (cfg, selected, r0) \<Rightarrow>
          (let r = r0\<lparr>rs_Phase := PhaseAcquiring\<rparr>
           in case Acquire (xv_mkdir env) (xv_runID env) (xv_sessionDir env) cfg (vo_ConfigPath opts) (vo_Hash opts)
                    (vo_Session opts) (vo_Selectors opts) (vm_os m) of
                (Inl e, w) \<Rightarrow> (incomplete (failPreAcquisition (acquisition_code e) r), m\<lparr>vm_os := w\<rparr>)
              | (Inr plan, w) \<Rightarrow>
                  (case ResolveCrashedRun (xv_alive env) (vm_pid m) (vm_table m) of
                     (Some e, f, k) \<Rightarrow> (incomplete (failPreAcquisition CodeSessionOccupied r),
                         close_plan plan (m\<lparr>vm_os := w, vm_pid := f, vm_table := k\<rparr>))
                   | (None, f, k) \<Rightarrow> attempt_run env plan selected r (m\<lparr>vm_os := w, vm_pid := f, vm_table := k\<rparr>))))"

end
