(* ===== verification/Verify_Correct.thy ===== *)
theory Verify_Correct
  imports Verify_Operation Session_Correct
begin

text \<open>
  What a verification attempt establishes: the meaning of a passed attempt, the verdicts and exit codes, the
  leases at the end, and the receipts it leaves.
\<close>

section \<open>Attempts and their error counts\<close>

named_theorems attempt_simps \<open>what the record updates of an attempt leave alone\<close>

lemma change_simps [attempt_simps]:
  "at_result (change f a) = f (at_result a)" "at_errs (change f a) = at_errs a"
  "at_interrupt (change f a) = at_interrupt a" "at_runner (change f a) = at_runner a"
  by (simp_all add: change_def)

lemma add_error_simps [attempt_simps]:
  "at_result (add_error c a) = at_result a" "at_errs (add_error c a) = AddError c (at_errs a)"
  "at_interrupt (add_error c a) = at_interrupt a" "at_runner (add_error c a) = at_runner a"
  by (simp_all add: add_error_def)

lemma interrupted_error_simps [attempt_simps]:
  "at_result (interrupted_error a) = at_result a" "at_errs (interrupted_error a) = AddError CodeInterrupted (at_errs a)"
  "at_interrupt (interrupted_error a)" "at_runner (interrupted_error a) = at_runner a"
  by (simp_all add: interrupted_error_def add_error_def)

text \<open>
  A step of an attempt: it only adds errors, its counts stay positive, and an interruption comes with an
  error. \<open>sound\<close> is kept by every step.
\<close>

definition sound :: "attempt \<Rightarrow> bool" where
  "sound a = (errors_ok (at_errs a) \<and> (at_interrupt a \<longrightarrow> at_errs a \<noteq> []))"

definition advances :: "attempt \<Rightarrow> attempt \<Rightarrow> bool" where
  "advances a b = ((sound a \<longrightarrow> sound b) \<and> (at_errs b = [] \<longrightarrow> at_errs a = []))"

lemma advances_trans: "advances a b \<Longrightarrow> advances b c \<Longrightarrow> advances a c"
  by (simp add: advances_def)

lemma advances_no_errors: "advances a b \<Longrightarrow> at_errs b = [] \<Longrightarrow> at_errs a = []"
  by (simp add: advances_def)

lemma advances_refl: "advances a a"
  by (simp add: advances_def)

lemma advances_change: "advances a (change f a)"
  by (simp add: advances_def sound_def attempt_simps)

lemma advances_add_error: "advances a (add_error c a)"
  by (simp add: advances_def sound_def attempt_simps)

lemma advances_interrupted: "advances a (interrupted_error a)"
  by (simp add: advances_def sound_def attempt_simps)

lemma advances_add_error_to: "advances a b \<Longrightarrow> advances a (add_error c b)"
  using advances_trans advances_add_error by blast

lemma advances_change_to: "advances a b \<Longrightarrow> advances a (change f b)"
  using advances_trans advances_change by blast

lemma advances_interrupted_to: "advances a b \<Longrightarrow> advances a (interrupted_error b)"
  using advances_trans advances_interrupted by blast

lemmas advances_intros = advances_refl advances_add_error_to advances_change_to advances_interrupted_to

lemma advances_failStartup: "advances a (failStartup c s a)"
  by (simp add: failStartup_def advances_intros)

lemma advances_waitReady: "advances a (snd (waitReady env cfg selected a))"
  by (auto simp: waitReady_def Let_def failStartup_def intro!: advances_intros)

lemma advances_recordCheck: "advances a (recordCheck ck i d a)"
  by (auto simp: recordCheck_def check_errors_def Let_def intro!: advances_intros)

lemma advances_recordEnvironment: "advances a (recordEnvironment rd f s a)"
  by (auto simp: recordEnvironment_def environment_unknown_def Let_def intro!: advances_intros split: sum.splits)

lemma advances_required: "advances a (fold (\<lambda>n. add_error CodeRequiredFailed) ns a)"
  by (induction ns arbitrary: a) (auto intro: advances_refl advances_trans [OF advances_add_error])

lemma advances_startAndCheck: "advances (a\<lparr>at_runner := b\<rparr>) (startAndCheck env cfg selected a)"
proof -
  have same: "advances (a\<lparr>at_runner := b\<rparr>) a" "advances (a\<lparr>at_runner := b\<rparr>) (set_phase PhaseWaiting (a\<lparr>at_runner := True\<rparr>))"
    by (simp_all add: advances_def sound_def set_phase_def attempt_simps)
  obtain ok a1 where w: "waitReady env (clampGrace cfg) selected (set_phase PhaseWaiting (a\<lparr>at_runner := True\<rparr>)) = (ok, a1)"
    by (cases "waitReady env (clampGrace cfg) selected (set_phase PhaseWaiting (a\<lparr>at_runner := True\<rparr>))")
  have "advances (a\<lparr>at_runner := b\<rparr>) a1"
    using advances_trans [OF same(2) advances_waitReady, of env "clampGrace cfg" selected] by (simp add: w)
  then show ?thesis
    using same(1) w by (auto simp: startAndCheck_def Let_def set_phase_def failStartup_def
        intro!: advances_intros advances_trans [OF _ advances_required] advances_trans [OF _ advances_recordEnvironment] advances_trans [OF _ advances_recordCheck] split: bool.splits)
qed

lemma advances_cleanup: "advances a (cleanup env selected a)"
  by (auto simp: cleanup_def Let_def unverified_cleanup_def set_cleanup_def recordTeardown_def intro!: advances_intros)

lemma advances_collectEvidence: "advances a (collectEvidence env runID a)"
  by (auto simp: collectEvidence_def Let_def case_prod_beta intro!: advances_intros split: option.splits prod.splits sum.splits)

lemma advances_finishVerdict: "advances a (finishVerdict a)"
  by (simp add: finishVerdict_def Let_def advances_change)

section \<open>Verdicts\<close>

definition verdict_ok :: "Result \<Rightarrow> bool" where
  "verdict_ok r =
     ((rs_Precedence r, rs_Status r, rs_ExitCode r) \<in>
        {(PrecedencePassed, StatusPassed, ExitPassed), (PrecedenceFailure, StatusFailed, ExitFailed),
         (PrecedenceInterrupted, StatusInterrupted, ExitInterrupted), (PrecedencePreAcquisition, StatusFailed, ExitUsage)}
      \<and> (rs_Status r = StatusPassed \<longleftrightarrow> rs_Errors r = [])
      \<and> (\<forall>e \<in> set (rs_Errors r). 0 < er_Count e)
      \<and> sorted_wrt (<) (map er_Code (rs_Errors r)))"

lemma Records_ok:
  assumes "errors_ok e"
  shows "sorted_wrt (<) (map er_Code (Records e))" "\<forall>r \<in> set (Records e). 0 < er_Count r"
proof -
  have "distinct (map fst e)" using assms by (simp add: errors_ok_def gomap_ok_def)
  then show "sorted_wrt (<) (map er_Code (Records e))"
    by (simp add: Records_codes [OF assms] strict_sorted_iff)
  show "\<forall>r \<in> set (Records e). 0 < er_Count r" by (auto simp: Records_def)
qed

lemma finishVerdict_result:
  assumes "sound a"
  shows "verdict_ok (at_result (finishVerdict a))"
    and "rs_Status (at_result (finishVerdict a)) = StatusPassed \<longleftrightarrow> at_errs a = []"
    and "recordedVerdict StateCompleted (rs_Status (at_result (finishVerdict a))) (rs_ExitCode (at_result (finishVerdict a)))"
    and "rs_Precedence (at_result (finishVerdict a)) \<noteq> PrecedencePreAcquisition"
  using assms Records_ok [of "at_errs a"] Records_empty [of "at_errs a"]
  by (auto simp: sound_def verdict_ok_def finishVerdict_def Let_def attempt_simps recordedVerdict_def)

lemma failPreAcquisition_verdict: "verdict_ok (failPreAcquisition code r)"
  by (auto simp: failPreAcquisition_def verdict_ok_def one_error_def Let_def)

lemma incomplete_verdict: "verdict_ok (incomplete r) = verdict_ok r"
  by (simp add: incomplete_def verdict_ok_def)

lemma validation_refusal: "validation env opts r = Inl r' \<Longrightarrow> \<exists>code r1. r' = failPreAcquisition code r1"
  by (auto simp: validation_def validate_selection_def Let_def split: if_splits option.splits sum.splits)

text \<open>The terminal result is the one that was written, possibly trimmed, or a failure to persist it.\<close>

lemma Encode_result: "Encode enc r = (e, r1) \<Longrightarrow> r1 = r \<or> r1 = trimmed r"
  by (auto simp: Encode_def split: option.splits if_splits)

lemma persistTerminal_result: "persistTerminal env name r d = (ok, r1, d1) \<Longrightarrow> r1 = r \<or> r1 = trimmed r"
  using Encode_result [of "xv_encoder env" r] by (auto simp: persistTerminal_def split: prod.splits encoded.splits option.splits)

lemma persistTerminal_failed: "persistTerminal env name r d = (False, r1, d1) \<Longrightarrow> d1 = d"
  by (auto simp: persistTerminal_def WriteReceipt_def split: prod.splits encoded.splits option.splits if_splits)

lemma trimmed_verdict: "verdict_ok (trimmed r) = verdict_ok r"
  by (simp add: trimmed_def verdict_ok_def)

lemma source_noted_simps:
  "at_errs (source_noted env a) = at_errs a" "at_interrupt (source_noted env a) = at_interrupt a"
  by (simp_all add: source_noted_def Let_def attempt_simps)

lemma finishVerdict_simps:
  "at_errs (finishVerdict a) = at_errs a" "at_interrupt (finishVerdict a) = at_interrupt a"
  by (simp_all add: finishVerdict_def Let_def attempt_simps)

lemma terminal_facts:
  assumes "sound a"
  shows "verdict_ok (at_result (terminal env a))" "sound (terminal env a)"
    and "rs_Status (at_result (terminal env a)) = StatusPassed \<longleftrightarrow> at_errs a = []"
    and "recordedVerdict StateCompleted (rs_Status (at_result (terminal env a))) (rs_ExitCode (at_result (terminal env a)))"
    and "rs_Precedence (at_result (terminal env a)) \<noteq> PrecedencePreAcquisition"
proof -
  let ?b = "change (\<lambda>r. r\<lparr>rs_Phase := PhaseCompleted, rs_State := StateCompleted\<rparr>) (source_noted env a)"
  have b: "sound ?b" "at_errs ?b = at_errs a" using assms by (simp_all add: sound_def attempt_simps source_noted_simps)
  have keeps: "verdict_ok (r\<lparr>rs_ReceiptPersisted := x\<rparr>) = verdict_ok r" for r x by (simp add: verdict_ok_def)
  show "sound (terminal env a)" using b(1) by (simp add: terminal_def sound_def attempt_simps finishVerdict_simps)
  show "verdict_ok (at_result (terminal env a))" using finishVerdict_result(1) [OF b(1)] by (simp add: terminal_def attempt_simps keeps)
  show "rs_Status (at_result (terminal env a)) = StatusPassed \<longleftrightarrow> at_errs a = []"
    using finishVerdict_result(2) [OF b(1)] b(2) by (simp add: terminal_def attempt_simps)
  show "recordedVerdict StateCompleted (rs_Status (at_result (terminal env a))) (rs_ExitCode (at_result (terminal env a)))"
    using finishVerdict_result(3) [OF b(1)] by (simp add: terminal_def attempt_simps)
  show "rs_Precedence (at_result (terminal env a)) \<noteq> PrecedencePreAcquisition"
    using finishVerdict_result(4) [OF b(1)] by (simp add: terminal_def attempt_simps)
qed

lemma unpersisted_verdict:
  assumes "sound a"
  shows "verdict_ok (at_result (unpersisted r a))" "rs_Status (at_result (unpersisted r a)) \<noteq> StatusPassed"
proof -
  let ?b = "add_error CodeReceiptPersistence (change (\<lambda>r. r\<lparr>rs_ReceiptPersisted := False\<rparr>) (a\<lparr>at_result := r\<rparr>))"
  have b: "sound ?b" using assms by (simp add: sound_def attempt_simps)
  then show "verdict_ok (at_result (unpersisted r a))" unfolding unpersisted_def by (rule finishVerdict_result(1))
  have "at_errs ?b \<noteq> []" by (simp add: attempt_simps)
  then show "rs_Status (at_result (unpersisted r a)) \<noteq> StatusPassed"
    unfolding unpersisted_def using finishVerdict_result(2) [OF b] by blast
qed

lemma conclude_verdict:
  assumes "sound a" and "conclude_attempt env aid plan a m = (r, m')"
  shows "verdict_ok r" and "rs_Status r = StatusPassed \<Longrightarrow> at_errs a = [] \<and>
    (\<exists>d1. persistTerminal env (receipt_name aid) (at_result (terminal env a)) (vm_attempts m) = (True, r\<lparr>rs_Kind := rs_Kind (at_result (terminal env a))\<rparr>, d1))"
proof -
  have kind: "verdict_ok (r\<lparr>rs_Kind := k\<rparr>) = verdict_ok r" for r k by (simp add: verdict_ok_def)
  obtain ok r1 d1 where p: "persistTerminal env (receipt_name aid) (at_result (terminal env a)) (vm_attempts m) = (ok, r1, d1)"
    by (rule prod_cases3)
  note r1 = persistTerminal_result [OF p]
  have "verdict_ok r1" using r1 terminal_facts(1) [OF assms(1)] by (auto simp: trimmed_verdict)
  then show "verdict_ok r" using assms(2) p unpersisted_verdict [OF terminal_facts(2) [OF assms(1)]]
    by (auto simp: conclude_attempt_def Let_def kind)
  show "at_errs a = [] \<and> (\<exists>d1. persistTerminal env (receipt_name aid) (at_result (terminal env a)) (vm_attempts m) =
      (True, r\<lparr>rs_Kind := rs_Kind (at_result (terminal env a))\<rparr>, d1))" if passed: "rs_Status r = StatusPassed"
  proof -
    have ok: "ok" using passed assms(2) p unpersisted_verdict(2) [OF terminal_facts(2) [OF assms(1)]]
      by (auto simp: conclude_attempt_def Let_def split: if_splits)
    then have r: "r = r1\<lparr>rs_Kind := KindResponse\<rparr>" using assms(2) p by (simp add: conclude_attempt_def Let_def)
    have "rs_Kind r1 = rs_Kind (at_result (terminal env a))" "rs_Status r1 = rs_Status (at_result (terminal env a))"
      using r1 by (auto simp: trimmed_def)
    then show ?thesis using p ok r passed terminal_facts(3) [OF assms(1), of env] by simp
  qed
qed

section \<open>The ways an attempt goes\<close>

lemma attempt_run_cases:
  assumes "attempt_run env plan selected r m = (r', m')"
  obtains (no_id) "r' = failPreAcquisition CodeReceiptPersistence r" "m' = close_plan plan m"
  | (unwritten) aid where "NewAttemptID (xv_clock env) (xv_random env) = Some aid"
      "r' = at_result (unrecorded (first_state env aid plan selected r))" "m' = close_plan plan m"
  | (ran) aid d1 plan1 w1 ns where "NewAttemptID (xv_clock env) (xv_random env) = Some aid"
      "WriteReceipt (xv_encoder env) (fst (xv_writable env)) (receipt_name aid) (active_result env aid plan selected r) (vm_attempts m) = (None, d1)"
      "fold ReleasePorts ns (plan, vm_os m) = (plan1, w1)"
      "conclude_attempt env aid plan1 (worked env plan selected (first_state env aid plan selected r)) (m\<lparr>vm_attempts := d1, vm_os := w1\<rparr>) = (r', m')"
proof (cases "NewAttemptID (xv_clock env) (xv_random env)")
  case None
  then show ?thesis using assms no_id by (simp add: attempt_run_def)
next
  case aid: (Some aid)
  let ?r = "active_result env aid plan selected r" and ?a0 = "first_state env aid plan selected r"
  obtain e d1 where w: "WriteReceipt (xv_encoder env) (fst (xv_writable env)) (receipt_name aid) ?r (vm_attempts m) = (e, d1)"
    by (cases "WriteReceipt (xv_encoder env) (fst (xv_writable env)) (receipt_name aid) ?r (vm_attempts m)")
  have r0: "at_result ?a0 = ?r" by (simp add: first_state_def)
  show ?thesis
  proof (cases e)
    case (Some err)
    then have "d1 = vm_attempts m" using w by (auto simp: WriteReceipt_def split: option.splits if_splits)
    then show ?thesis using unwritten [OF aid] assms aid w Some by (simp add: attempt_run_def r0 Let_def)
  next
    case None
    let ?ns = "if at_runner (startAndCheck env (plan_config plan) selected ?a0) then xv_released env else []"
    obtain plan1 w1 where f: "fold ReleasePorts ?ns (plan, vm_os m) = (plan1, w1)"
      by (cases "fold ReleasePorts ?ns (plan, vm_os m)")
    have "conclude_attempt env aid plan1 (worked env plan selected ?a0) (m\<lparr>vm_attempts := d1, vm_os := w1\<rparr>) = (r', m')"
      using assms aid w [folded r0] None f by (simp add: attempt_run_def run_ports_def Let_def)
    then show ?thesis using ran [OF aid _ f] w None by blast
  qed
qed

lemma Run_attempt_cases:
  assumes "Run_attempt env opts m = (r, m')"
  obtains (invalid) "validation env opts (newResult (xv_encoder env) opts) = Inl r" "m' = m"
  | (unacquired) cfg selected r0 e w where
      "validation env opts (newResult (xv_encoder env) opts) = Inr (cfg, selected, r0)"
      "Acquire (xv_mkdir env) (xv_runID env) (xv_sessionDir env) cfg (vo_ConfigPath opts) (vo_Hash opts)
         (vo_Session opts) (vo_Selectors opts) (vm_os m) = (Inl e, w)"
      "r = incomplete (failPreAcquisition (acquisition_code e) (r0\<lparr>rs_Phase := PhaseAcquiring\<rparr>))" "m' = m\<lparr>vm_os := w\<rparr>"
  | (acquired) cfg selected r0 plan w e f k where
      "validation env opts (newResult (xv_encoder env) opts) = Inr (cfg, selected, r0)"
      "Acquire (xv_mkdir env) (xv_runID env) (xv_sessionDir env) cfg (vo_ConfigPath opts) (vo_Hash opts)
         (vo_Session opts) (vo_Selectors opts) (vm_os m) = (Inr plan, w)"
      "ResolveCrashedRun (xv_alive env) (vm_pid m) (vm_table m) = (e, f, k)"
      "if e = None then attempt_run env plan selected (r0\<lparr>rs_Phase := PhaseAcquiring\<rparr>) (m\<lparr>vm_os := w, vm_pid := f, vm_table := k\<rparr>) = (r, m')
       else r = incomplete (failPreAcquisition CodeSessionOccupied (r0\<lparr>rs_Phase := PhaseAcquiring\<rparr>))
         \<and> m' = close_plan plan (m\<lparr>vm_os := w, vm_pid := f, vm_table := k\<rparr>)"
proof (cases "validation env opts (newResult (xv_encoder env) opts)")
  case (Inl r1)
  then show ?thesis using assms invalid by (simp add: Run_attempt_def)
next
  case (Inr v)
  obtain cfg selected r0 where v: "v = (cfg, selected, r0)" by (rule prod_cases3)
  obtain res w where acq: "Acquire (xv_mkdir env) (xv_runID env) (xv_sessionDir env) cfg (vo_ConfigPath opts) (vo_Hash opts)
      (vo_Session opts) (vo_Selectors opts) (vm_os m) = (res, w)" by (rule prod.exhaust)
  obtain e f k where c: "ResolveCrashedRun (xv_alive env) (vm_pid m) (vm_table m) = (e, f, k)" by (rule prod_cases3)
  note run = assms [unfolded Run_attempt_def Inr v sum.case prod.case Let_def acq c]
  show ?thesis
  proof (cases res)
    case Inl: (Inl err)
    show ?thesis using run Inl by (intro unacquired [OF Inr [unfolded v] acq [unfolded Inl]]) simp_all
  next
    case plan: (Inr plan)
    show ?thesis using run plan by (intro acquired [OF Inr [unfolded v] acq [unfolded plan] c]) (cases e; simp)
  qed
qed

lemma worked_extends: "advances (first_state env aid plan selected r) (worked env plan selected (first_state env aid plan selected r))"
proof -
  let ?a0 = "first_state env aid plan selected r"
  have "?a0\<lparr>at_runner := False\<rparr> = ?a0" by (simp add: first_state_def)
  then have "advances ?a0 (startAndCheck env (plan_config plan) selected ?a0)" using advances_startAndCheck [of False ?a0] by simp
  then show ?thesis unfolding worked_def
    using advances_trans [OF advances_trans [OF _ advances_cleanup] advances_collectEvidence] by blast
qed

lemma worked_sound: "sound (worked env plan selected (first_state env aid plan selected r))"
  using worked_extends [of env aid plan selected r] by (simp add: advances_def sound_def first_state_def)

lemma conclude_shape:
  assumes "conclude_attempt env aid plan a m = (r, m')"
  shows "rs_Kind r = KindResponse \<and> rs_State r = StateCompleted"
proof -
  obtain ok r1 d1 where p: "persistTerminal env (receipt_name aid) (at_result (terminal env a)) (vm_attempts m) = (ok, r1, d1)"
    by (rule prod_cases3)
  have "rs_State (at_result (terminal env a)) = StateCompleted"
    by (simp add: terminal_def finishVerdict_def Let_def attempt_simps)
  then have "rs_State r1 = StateCompleted" using persistTerminal_result [OF p] by (auto simp: trimmed_def)
  moreover from this have "rs_State (at_result (unpersisted r1 b)) = StateCompleted" for b
    by (simp add: unpersisted_def finishVerdict_def Let_def attempt_simps)
  ultimately show ?thesis using assms p by (auto simp: conclude_attempt_def Let_def)
qed

lemma failPreAcquisition_shape:
  "rs_Kind (failPreAcquisition code r) = rs_Kind r" "rs_State (failPreAcquisition code r) = rs_State r"
  "rs_Cleanup (failPreAcquisition code r) = rs_Cleanup r" "rs_Environment (failPreAcquisition code r) = rs_Environment r"
  "rs_ReceiptPath (failPreAcquisition code r) = rs_ReceiptPath r" "rs_SchemaVersion (failPreAcquisition code r) = rs_SchemaVersion r"
  "rs_Status (failPreAcquisition code r) = StatusFailed"
  by (simp_all add: failPreAcquisition_def Let_def)

lemma incomplete_shape:
  "rs_Kind (incomplete r) = rs_Kind r" "rs_State (incomplete r) = rs_State r" "rs_Cleanup (incomplete r) = rs_Cleanup r"
  "rs_ReceiptPath (incomplete r) = rs_ReceiptPath r"
  "rs_Status (incomplete r) = rs_Status r"
  by (simp_all add: incomplete_def)

definition same_shape :: "Result \<Rightarrow> Result \<Rightarrow> bool" where
  "same_shape r r1 = (rs_Kind r1 = rs_Kind r \<and> rs_State r1 = rs_State r \<and> rs_Cleanup r1 = rs_Cleanup r \<and> rs_Environment r1 = rs_Environment r
     \<and> rs_ReceiptPath r1 = rs_ReceiptPath r \<and> rs_SchemaVersion r1 = rs_SchemaVersion r)"

lemma validation_shape:
  "case validation env opts r of Inl r1 \<Rightarrow> same_shape r r1 \<and> (\<exists>code r2. r1 = failPreAcquisition code r2)
   | Inr (cfg, selected, r1) \<Rightarrow> same_shape r r1 \<and> Load (xv_host env) (vo_ConfigPath opts) = Inr cfg
      \<and> selected = SelectedNames cfg (vo_Selectors opts)"
proof -
  have refused: "same_shape r (failPreAcquisition code r) \<and> (\<exists>code' r2. failPreAcquisition code r = failPreAcquisition code' r2)" for code and r :: Result
    by (auto simp: same_shape_def failPreAcquisition_shape)
  have sha: "same_shape (r\<lparr>rs_ConfigSHA256 := x\<rparr>) r1 = same_shape r r1" for x r1 by (simp add: same_shape_def)
  have selL: "validate_selection env opts cfg r = Inl r1 \<Longrightarrow> same_shape r r1 \<and> (\<exists>code r2. r1 = failPreAcquisition code r2)" for cfg r1 and r :: Result
    using refused [of r] by (auto simp: validate_selection_def Let_def split: if_splits)
  have selR: "validate_selection env opts cfg r = Inr (cfg1, selected, r1) \<Longrightarrow> same_shape r r1 \<and> cfg1 = cfg \<and> selected = SelectedNames cfg (vo_Selectors opts)"
    for cfg cfg1 selected r1 and r :: Result
    by (auto simp: validate_selection_def Let_def same_shape_def split: if_splits)
  show ?thesis
    using refused [of r] refused [of "r\<lparr>rs_ConfigSHA256 := x\<rparr>" for x]
    by (auto simp: validation_def Let_def sha split: option.splits sum.splits dest!: selL selR)
qed

lemma fresh_shape: "rs_Kind (newResult enc opts) = KindResponse" "rs_State (newResult enc opts) = StateCompleted"
  "cl_SignalingAuthority (rs_Cleanup (newResult enc opts)) = ''none''" "rs_ReceiptPath (newResult enc opts) = None"
  "rs_SchemaVersion (newResult enc opts) = 1" "rs_Status (newResult enc opts) = StatusNotRun" "rs_ExitCode (newResult enc opts) = 0"
  by (simp_all add: newResult_def)

lemma validation_unjudged:
  "validation env opts r = Inr (cfg, selected, r1) \<Longrightarrow> rs_Status r1 = rs_Status r \<and> rs_ExitCode r1 = rs_ExitCode r"
  by (auto simp: validation_def validate_selection_def Let_def split: if_splits option.splits sum.splits)

lemma unrecorded_facts:
  "verdict_ok (at_result (unrecorded (first_state env aid plan selected r)))"
  "rs_Kind (at_result (unrecorded (first_state env aid plan selected r))) = KindResponse"
  "rs_State (at_result (unrecorded (first_state env aid plan selected r))) = StateCompleted"
  "rs_Status (at_result (unrecorded (first_state env aid plan selected r))) \<noteq> StatusPassed"
  "cl_SignalingAuthority (rs_Cleanup (at_result (unrecorded (first_state env aid plan selected r)))) = ''none''"
  "rs_ReceiptPath (at_result (unrecorded (first_state env aid plan selected r))) = None"
proof -
  let ?a = "first_state env aid plan selected r"
  let ?b = "add_error CodeReceiptPersistence (change (\<lambda>r. r\<lparr>rs_Kind := KindResponse, rs_State := StateCompleted,
     rs_ReceiptPath := None, rs_Retention := ''no receipt created'',
     rs_Cleanup := (rs_Cleanup r)\<lparr>cl_Status := StatusNotNeeded, cl_SignalingAuthority := ''none''\<rparr>\<rparr>) ?a)"
  have b: "sound ?b" "at_errs ?b \<noteq> []" by (simp_all add: sound_def attempt_simps) (simp add: first_state_def)
  show "verdict_ok (at_result (unrecorded ?a))" unfolding unrecorded_def using b(1) by (rule finishVerdict_result)
  show "rs_Status (at_result (unrecorded ?a)) \<noteq> StatusPassed" unfolding unrecorded_def using b finishVerdict_result(2) [OF b(1)] by blast
qed (simp_all add: unrecorded_def finishVerdict_def Let_def attempt_simps)

lemma owns_ReleasePorts: "owns w0 st \<Longrightarrow> owns w0 (fold ReleasePorts ns st)"
proof (induction ns arbitrary: st)
  case (Cons n ns)
  from Cons.IH [OF own.ReleasePorts_keeps [OF Cons.prems, of n]] show ?case by simp
qed simp

lemma close_plan_restores: "owns w0 (plan, vm_os m) \<Longrightarrow> vm_os (close_plan plan m) = w0"
  using Close_restores [of w0 plan "vm_os m"] by (simp add: close_plan_def)

lemma ReleasePorts_locks: "ow_locks (snd (fold ReleasePorts ns st)) = ow_locks (snd st)"
proof -
  have "ow_locks (snd (release_port q st)) = ow_locks (snd st)" for q st
    by (cases st) (simp add: release_port_def close_listener_def)
  then have "ow_locks (snd (fold release_port qs st)) = ow_locks (snd st)" for qs st
    by (induction qs arbitrary: st) simp_all
  then show ?thesis by (induction ns arbitrary: st) (simp_all add: ReleasePorts_def)
qed

text \<open>Ports that a configuration pins are positive, as in every loaded one.\<close>

definition loads_pinned :: "verify_env \<Rightarrow> VerifyOptions \<Rightarrow> bool" where
  "loads_pinned env opts = (\<forall>cfg. Load (xv_host env) (vo_ConfigPath opts) = Inr cfg \<longrightarrow> pinned_positive cfg)"

definition refusal :: "verify_env \<Rightarrow> VerifyOptions \<Rightarrow> Result \<Rightarrow> bool" where
  "refusal env opts r = (\<exists>code r0. same_shape (newResult (xv_encoder env) opts) r0 \<and>
     (r = failPreAcquisition code r0 \<or> r = incomplete (failPreAcquisition code r0)))"

lemma Run_cases:
  assumes "Run_attempt env opts m = (r, m')"
  obtains (refused) "refusal env opts r" "vm_attempts m' = vm_attempts m" "loads_pinned env opts \<longrightarrow> vm_os m' = vm_os m"
  | (unwritten) aid plan selected r0 where "r = at_result (unrecorded (first_state env aid plan selected r0))"
      "vm_attempts m' = vm_attempts m" "loads_pinned env opts \<longrightarrow> vm_os m' = vm_os m"
  | (ran) cfg selected r0 plan w f k aid d1 plan1 w1 where
      "Load (xv_host env) (vo_ConfigPath opts) = Inr cfg" "selected = SelectedNames cfg (vo_Selectors opts)"
      "same_shape (newResult (xv_encoder env) opts) r0"
      "Acquire (xv_mkdir env) (xv_runID env) (xv_sessionDir env) cfg (vo_ConfigPath opts) (vo_Hash opts)
         (vo_Session opts) (vo_Selectors opts) (vm_os m) = (Inr plan, w)"
      "loads_pinned env opts \<longrightarrow> owns (vm_os m) (plan1, w1)" "ow_locks w1 = ow_locks w" "NewAttemptID (xv_clock env) (xv_random env) = Some aid"
      "WriteReceipt (xv_encoder env) (fst (xv_writable env)) (receipt_name aid) (active_result env aid plan selected r0) (vm_attempts m) = (None, d1)"
      "conclude_attempt env aid plan1 (worked env plan selected (first_state env aid plan selected r0))
         (m\<lparr>vm_pid := f, vm_table := k, vm_attempts := d1, vm_os := w1\<rparr>) = (r, m')"
      "rs_Status r0 = StatusNotRun" "rs_ExitCode r0 = 0"
  using assms
proof (cases rule: Run_attempt_cases)
  case invalid
  then obtain code r2 where "r = failPreAcquisition code r2" "same_shape (newResult (xv_encoder env) opts) (failPreAcquisition code r2)"
    using validation_shape [of "newResult (xv_encoder env) opts" env opts] by auto
  then have "refusal env opts r" unfolding refusal_def by (intro exI [of _ code] exI [of _ r2]) (simp add: same_shape_def failPreAcquisition_shape)
  then show ?thesis using refused invalid by simp
next
  case (unacquired cfg selected r0 e w)
  have v: "same_shape (newResult (xv_encoder env) opts) (r0\<lparr>rs_Phase := PhaseAcquiring\<rparr>)" "Load (xv_host env) (vo_ConfigPath opts) = Inr cfg"
    using validation_shape [of "newResult (xv_encoder env) opts" env opts] unacquired(1) by (simp_all add: same_shape_def)
  have "loads_pinned env opts \<longrightarrow> w = vm_os m" using v(2) Acquire_owns [OF _ unacquired(2)] by (simp add: loads_pinned_def)
  then show ?thesis using refused v(1) unacquired by (simp add: refusal_def) blast
next
  case (acquired cfg selected r0 plan w e f k)
  let ?r0 = "r0\<lparr>rs_Phase := PhaseAcquiring\<rparr>" and ?m = "m\<lparr>vm_os := w, vm_pid := f, vm_table := k\<rparr>"
  have v: "same_shape (newResult (xv_encoder env) opts) ?r0" "Load (xv_host env) (vo_ConfigPath opts) = Inr cfg"
      "selected = SelectedNames cfg (vo_Selectors opts)"
    using validation_shape [of "newResult (xv_encoder env) opts" env opts] acquired(1) by (simp_all add: same_shape_def)
  have o: "loads_pinned env opts \<longrightarrow> owns (vm_os m) (plan, w)" using v(2) Acquire_owns [OF _ acquired(2)] by (simp add: loads_pinned_def)
  then have closed: "loads_pinned env opts \<longrightarrow> vm_os (close_plan plan ?m) = vm_os m" using close_plan_restores [of "vm_os m" plan ?m] by simp
  have attempts: "vm_attempts (close_plan plan ?m) = vm_attempts m" by (simp add: close_plan_def)
  show ?thesis
  proof (cases e)
    case (Some err)
    then show ?thesis using acquired(4) refused closed attempts v(1) by (simp add: refusal_def) blast
  next
    case None
    then have "attempt_run env plan selected ?r0 ?m = (r, m')" using acquired(4) by simp
    then show ?thesis
    proof (cases rule: attempt_run_cases)
      case no_id
      then show ?thesis using refused closed attempts v(1) by (simp add: refusal_def) blast
    next
      case (unwritten aid)
      then show ?thesis using that(2) closed attempts by simp
    next
      case (ran aid d1 plan1 w1 ns)
      have "loads_pinned env opts \<longrightarrow> owns (vm_os m) (plan1, w1)" using o owns_ReleasePorts [of "vm_os m" "(plan, w)" ns] ran(3) by simp
      moreover have "ow_locks w1 = ow_locks w" using ReleasePorts_locks [of ns "(plan, w)"] ran(3) by simp
      moreover have "rs_Status ?r0 = StatusNotRun" "rs_ExitCode ?r0 = 0" using validation_unjudged [OF acquired(1)] by (simp_all add: fresh_shape)
      ultimately show ?thesis using ran that(3) [OF v(2,3,1) acquired(2)] by (simp del: owns.simps)
    qed
  qed
qed

lemma refusal_facts:
  assumes "refusal env opts r"
  shows "rs_Kind r = KindResponse" "rs_State r = StateCompleted" "verdict_ok r" "rs_Status r = StatusFailed"
    "cl_SignalingAuthority (rs_Cleanup r) = ''none''" "rs_ReceiptPath r = None"
proof -
  obtain code r0 where "same_shape (newResult (xv_encoder env) opts) r0"
      "r = failPreAcquisition code r0 \<or> r = incomplete (failPreAcquisition code r0)"
    using assms unfolding refusal_def by blast
  then show "rs_Kind r = KindResponse" "rs_State r = StateCompleted" "verdict_ok r" "rs_Status r = StatusFailed"
    "cl_SignalingAuthority (rs_Cleanup r) = ''none''" "rs_ReceiptPath r = None"
    by (auto simp: same_shape_def fresh_shape failPreAcquisition_shape incomplete_shape incomplete_verdict failPreAcquisition_verdict)
qed

text \<open>
  C24. Every run of \<^verbatim>\<open>verify\<close> ends in a completed response whose status, precedence and exit code are one of
  the four documented verdicts, 0 exactly for a passed attempt, and which has passed exactly when it lists no
  error; the listed codes are distinct, in order, and counted at least once.
\<close>

theorem every_run_has_a_verdict:
  "rs_Kind (fst (Run_attempt env opts m)) = KindResponse \<and> rs_State (fst (Run_attempt env opts m)) = StateCompleted
    \<and> verdict_ok (fst (Run_attempt env opts m))"
proof -
  obtain r m' where run: "Run_attempt env opts m = (r, m')" by (rule prod.exhaust)
  then have "rs_Kind r = KindResponse \<and> rs_State r = StateCompleted \<and> verdict_ok r"
  proof (cases rule: Run_cases)
    case (ran cfg selected r0 plan w f k aid d1 plan1 w1)
    then show ?thesis using conclude_shape conclude_verdict(1) worked_sound by blast
  qed (simp_all add: refusal_facts unrecorded_facts)
  then show ?thesis by (simp add: run)
qed

section \<open>Leases\<close>

lemma terminal_cleanup: "rs_Cleanup (at_result (terminal env a)) = rs_Cleanup (at_result a)"
  by (simp add: terminal_def finishVerdict_def source_noted_def Let_def attempt_simps)

lemma unpersisted_cleanup: "rs_Cleanup (at_result (unpersisted r a)) = rs_Cleanup r"
  by (simp add: unpersisted_def finishVerdict_def Let_def attempt_simps)

lemma trimmed_cleanup: "rs_Cleanup (trimmed r) = rs_Cleanup r"
  by (simp add: trimmed_def)

lemma conclude_leases:
  assumes "conclude_attempt env aid plan a m = (r, m')"
  shows "rs_Cleanup r = rs_Cleanup (at_result a)"
    and "cl_SignalingAuthority (rs_Cleanup (at_result a)) = ''withdrawn'' \<Longrightarrow> vm_os m' = snd (Close (plan, vm_os m))"
    and "cl_SignalingAuthority (rs_Cleanup (at_result a)) \<noteq> ''withdrawn'' \<Longrightarrow> vm_os m' = vm_os m"
proof -
  obtain ok r1 d1 where p: "persistTerminal env (receipt_name aid) (at_result (terminal env a)) (vm_attempts m) = (ok, r1, d1)"
    by (rule prod_cases3)
  have "rs_Cleanup r1 = rs_Cleanup (at_result a)" using persistTerminal_result [OF p] by (auto simp: trimmed_cleanup terminal_cleanup)
  then show "rs_Cleanup r = rs_Cleanup (at_result a)"
    and "cl_SignalingAuthority (rs_Cleanup (at_result a)) = ''withdrawn'' \<Longrightarrow> vm_os m' = snd (Close (plan, vm_os m))"
    and "cl_SignalingAuthority (rs_Cleanup (at_result a)) \<noteq> ''withdrawn'' \<Longrightarrow> vm_os m' = vm_os m"
    using assms p by (auto simp: conclude_attempt_def Let_def unpersisted_cleanup close_plan_def)
qed

lemma collectEvidence_frame:
  "rs_Cleanup (at_result (collectEvidence env runID a)) = rs_Cleanup (at_result a)"
  "rs_Startup (at_result (collectEvidence env runID a)) = rs_Startup (at_result a)"
  "rs_Check (at_result (collectEvidence env runID a)) = rs_Check (at_result a)"
  "rs_Environment (at_result (collectEvidence env runID a)) = rs_Environment (at_result a)"
  "rs_SelectedProcesses (at_result (collectEvidence env runID a)) = rs_SelectedProcesses (at_result a)"
  by (simp_all add: collectEvidence_def Let_def attempt_simps split: option.splits prod.splits sum.splits)

lemma cleanup_authority:
  "cl_SignalingAuthority (rs_Cleanup (at_result (cleanup env selected a))) = (if at_runner a \<and> \<not> xv_returned env then ''unknown'' else ''withdrawn'')"
  by (simp add: cleanup_def Let_def unverified_cleanup_def set_cleanup_def recordTeardown_def attempt_simps)

text \<open>
  C18. A run of \<^verbatim>\<open>verify\<close> gives back every lock and port it took, whatever fails, and only those, unless the
  runner had not returned when the cleanup budget ended: then the result says that the signalling authority is
  unknown, and the attempt keeps the locks that its acquisition took.
\<close>

theorem leases_follow_the_authority:
  assumes "Run_attempt env opts m = (r, m')"
    and "yaml_maps (xv_host env)" "h_cwd (xv_host env) = Some wd" "IsAbs wd"
  shows "if cl_SignalingAuthority (rs_Cleanup r) \<in> {''none'', ''withdrawn''} then vm_os m' = vm_os m
    else cl_SignalingAuthority (rs_Cleanup r) = ''unknown'' \<and> \<not> xv_returned env
      \<and> (\<exists>cfg plan w. Load (xv_host env) (vo_ConfigPath opts) = Inr cfg
            \<and> Acquire (xv_mkdir env) (xv_runID env) (xv_sessionDir env) cfg (vo_ConfigPath opts) (vo_Hash opts)
                (vo_Session opts) (vo_Selectors opts) (vm_os m) = (Inr plan, w)
            \<and> ow_locks (vm_os m') = ow_locks w)"
proof -
  have pinned: "loads_pinned env opts"
    unfolding loads_pinned_def using Load_loaded_ok [OF _ assms(2-4)] loaded_pinned by blast
  from assms(1) show ?thesis
  proof (cases rule: Run_cases)
    case (ran cfg selected r0 plan w f k aid d1 plan1 w1)
    let ?a = "worked env plan selected (first_state env aid plan selected r0)"
    note c = conclude_leases [OF ran(9)]
    have a: "cl_SignalingAuthority (rs_Cleanup (at_result ?a)) = ''withdrawn''
        \<or> cl_SignalingAuthority (rs_Cleanup (at_result ?a)) = ''unknown'' \<and> \<not> xv_returned env"
      by (simp add: worked_def collectEvidence_frame cleanup_authority)
    have "snd (Close (plan1, w1)) = vm_os m" using Close_restores [of "vm_os m" plan1 w1] ran(5) pinned by simp
    then show ?thesis using a c ran(1,4,6) by auto
  qed (use pinned in \<open>simp_all add: refusal_facts unrecorded_facts\<close>)
qed

section \<open>What a passed attempt means\<close>

lemma waitReady_true:
  assumes "waitReady env cfg selected a = (True, a1)"
  shows "at_errs a1 = at_errs a" "at_interrupt a1 = at_interrupt a" "at_runner a1 = at_runner a"
    "su_Status (rs_Startup (at_result a1)) = StatusPassed"
    "wt_outcome (wait_loop cfg selected [] (xv_polls env) (xv_last env)) = StatusPassed"
  using assms by (auto simp: waitReady_def Let_def attempt_simps split: if_splits)

lemma waitReady_outcome: "fst (waitReady env cfg selected a) \<longleftrightarrow> wt_outcome (wait_loop cfg selected [] (xv_polls env) (xv_last env)) = StatusPassed"
  by (simp add: waitReady_def Let_def)

lemma waitReady_false: "waitReady env cfg selected a = (False, a1) \<Longrightarrow> at_errs a1 \<noteq> []"
  by (auto simp: waitReady_def Let_def attempt_simps failStartup_def split: if_splits)

lemma poll_ready:
  "poll cfg states ns (failed, allReady, seen) = (failed', True, seen') \<Longrightarrow> failed' = [] \<Longrightarrow>
   failed = [] \<and> allReady \<and> (\<forall>n \<in> set ns. \<exists>st. snapshot_state states n = Some st \<and> ip_Ready st \<and> ip_State st \<noteq> Failed)"
proof (induction cfg states ns "(failed, allReady, seen)" arbitrary: failed allReady seen rule: poll.induct)
  case (2 cfg states n ns failed allReady seen)
  then show ?case by (auto simp: startup_failed_def split: option.splits if_splits)
qed auto

lemma wait_loop_passed:
  "wt_outcome (wait_loop cfg selected seen snaps final) = StatusPassed \<Longrightarrow>
   \<exists>states \<in> insert (fst final) (set snaps). \<forall>n \<in> set selected. \<exists>st. snapshot_state states n = Some st \<and> ip_Ready st \<and> ip_State st \<noteq> Failed"
proof (induction cfg selected seen snaps final rule: wait_loop.induct)
  case (1 cfg selected seen states e)
  obtain failed allReady seen1 where p: "poll cfg states selected ([], states \<noteq> [], seen) = (failed, allReady, seen1)" by (rule prod_cases3)
  then have "failed = [] \<and> allReady" using 1 by (auto simp: end_status_def split: if_splits wait_end.splits)
  then show ?case using poll_ready p by fastforce
next
  case (2 cfg selected seen states later final)
  obtain failed allReady seen1 where p: "poll cfg states selected ([], states \<noteq> [], seen) = (failed, allReady, seen1)" by (rule prod_cases3)
  have not_failed: "failed = []" using 2(2) p by (auto split: if_splits)
  show ?case
  proof (cases allReady)
    case True
    then show ?thesis using poll_ready p not_failed by (intro bexI [of _ states]) fastforce+
  next
    case False
    then show ?thesis using 2 p not_failed by auto
  qed
qed

lemma recordCheck_clean:
  assumes "at_errs (recordCheck ck i d a) = []"
  shows "ck_Started ck \<and> ck_ExitCode ck = Some 0 \<and> \<not> i \<and> \<not> d \<and> \<not> ck_HandedOff ck \<and> at_errs a = []
    \<and> vk_Status (rs_Check (at_result (recordCheck ck i d a))) = StatusPassed
    \<and> vk_ExitCode (rs_Check (at_result (recordCheck ck i d a))) = Some 0"
  using assms by (auto simp: recordCheck_def check_errors_def check_status_def Let_def attempt_simps split: if_splits)

lemma recordEnvironment_clean:
  assumes "at_errs (recordEnvironment rd f True a) = []" and "ve_Status (rs_Environment (at_result a)) = StatusNotRun"
  shows "(case readEnvironmentReport rd f of Inl e \<Rightarrow> e = ReportMissing \<and> \<not> ve_Required (rs_Environment (at_result a))
    | Inr obs \<Rightarrow> (\<forall>ob \<in> set obs. ob_Status ob = ObservationMatched) \<and> (obs = [] \<longrightarrow> \<not> ve_Required (rs_Environment (at_result a))))"
  using assms by (auto simp: recordEnvironment_def environment_unknown_def Let_def attempt_simps list_all_iff split: sum.splits if_splits)

lemma required_clean: "at_errs (fold (\<lambda>n. add_error CodeRequiredFailed) ns a) = [] \<Longrightarrow> ns = [] \<and> at_errs a = []"
proof (induction ns arbitrary: a)
  case (Cons n ns)
  have "at_errs (add_error CodeRequiredFailed a) = []" using Cons.IH [of "add_error CodeRequiredFailed a"] Cons.prems by simp
  then show ?case by (simp add: attempt_simps)
qed simp

lemma cleanup_clean:
  assumes "at_errs (cleanup env selected a) = []" and "at_runner a"
  shows "xv_returned env \<and> ShutdownResult (xv_runner env) = None \<and> Unresolved (xv_runner env) = []
    \<and> (\<forall>t \<in> set (xv_teardown env). td_Status t = TeardownPassed) \<and> at_errs a = []
    \<and> cl_TerminationVerified (rs_Cleanup (at_result (cleanup env selected a))) = Some True"
  using assms by (auto simp: cleanup_def Let_def unverified_cleanup_def set_cleanup_def recordTeardown_def attempt_simps list_ex_iff split: if_splits)

lemma cleanup_frame:
  "rs_Startup (at_result (cleanup env selected a)) = rs_Startup (at_result a)"
  "rs_Check (at_result (cleanup env selected a)) = rs_Check (at_result a)"
  "rs_Environment (at_result (cleanup env selected a)) = rs_Environment (at_result a)"
  "at_runner (cleanup env selected a) = at_runner a"
  by (simp_all add: cleanup_def Let_def unverified_cleanup_def set_cleanup_def recordTeardown_def attempt_simps)

lemma recordEnvironment_frame:
  "rs_Startup (at_result (recordEnvironment rd f s a)) = rs_Startup (at_result a)"
  "rs_Check (at_result (recordEnvironment rd f s a)) = rs_Check (at_result a)"
  "at_runner (recordEnvironment rd f s a) = at_runner a"
  by (simp_all add: recordEnvironment_def environment_unknown_def Let_def attempt_simps split: sum.splits)

lemma recordCheck_frame:
  "rs_Startup (at_result (recordCheck ck i d a)) = rs_Startup (at_result a)"
  "rs_Environment (at_result (recordCheck ck i d a)) = rs_Environment (at_result a)"
  "at_runner (recordCheck ck i d a) = at_runner a"
  by (simp_all add: recordCheck_def check_errors_def Let_def attempt_simps)

lemma waitReady_frame: "rs_Environment (at_result (snd (waitReady env cfg selected a))) = rs_Environment (at_result a)"
  by (simp add: waitReady_def recordGenerations_def Let_def failStartup_def attempt_simps)

lemma required_frame: "at_result (fold (\<lambda>n. add_error c) ns a) = at_result a" "at_runner (fold (\<lambda>n. add_error c) ns a) = at_runner a"
  by (induction ns arbitrary: a) (simp_all add: attempt_simps)

lemma monitorRequired_empty:
  "monitorRequired base snaps = [] \<longleftrightarrow> (\<forall>states \<in> set snaps. \<forall>st \<in> set states. \<not> service_failed base st)"
  by (auto simp: monitorRequired_def filter_empty_conv)

text \<open>What the environment of an attempt that recorded no error was.\<close>

definition all_ready :: "verify_env \<Rightarrow> string list \<Rightarrow> bool" where
  "all_ready env selected = (\<exists>states \<in> insert (fst (xv_last env)) (set (xv_polls env)). \<forall>n \<in> set selected.
     \<exists>st. snapshot_state states n = Some st \<and> ip_Ready st \<and> ip_State st \<noteq> Failed)"

definition check_succeeded :: "verify_env \<Rightarrow> bool" where
  "check_succeeded env = (ck_Started (xv_check env) \<and> ck_ExitCode (xv_check env) = Some 0 \<and> \<not> xv_interrupted env
     \<and> \<not> xv_deadline env \<and> \<not> ck_HandedOff (xv_check env)
     \<and> (\<forall>states \<in> set (xv_inspections env). \<forall>st \<in> set states. \<not> service_failed (xv_baseline env) st))"

definition report_acceptable :: "verify_env \<Rightarrow> bool \<Rightarrow> bool" where
  "report_acceptable env required = (case readEnvironmentReport (xv_reader env) (xv_report env) of
     Inl e \<Rightarrow> e = ReportMissing \<and> \<not> required
   | Inr obs \<Rightarrow> (\<forall>ob \<in> set obs. ob_Status ob = ObservationMatched) \<and> (obs = [] \<longrightarrow> \<not> required))"

definition cleaned_up :: "verify_env \<Rightarrow> bool" where
  "cleaned_up env = (xv_returned env \<and> ShutdownResult (xv_runner env) = None \<and> Unresolved (xv_runner env) = []
     \<and> (\<forall>t \<in> set (xv_teardown env). td_Status t = TeardownPassed))"

lemma startAndCheck_clean:
  assumes "at_errs (startAndCheck env cfg selected a) = []" and "ve_Status (rs_Environment (at_result a)) = StatusNotRun"
  defines "b \<equiv> startAndCheck env cfg selected a"
  shows "at_runner b" "all_ready env selected" "check_succeeded env" "report_acceptable env (ve_Required (rs_Environment (at_result a)))"
    "su_Status (rs_Startup (at_result b)) = StatusPassed" "vk_Status (rs_Check (at_result b)) = StatusPassed" "vk_ExitCode (rs_Check (at_result b)) = Some 0"
proof -
  let ?a = "set_phase PhaseWaiting (a\<lparr>at_runner := True\<rparr>)"
  have journal: "xv_journal_ok env" using assms(1) by (auto simp: startAndCheck_def failStartup_def attempt_simps split: if_splits)
  obtain ok a1 where w: "waitReady env (clampGrace cfg) selected ?a = (ok, a1)" by (rule prod.exhaust)
  have ok: "ok" using assms(1) waitReady_false w journal by (cases ok) (auto simp: startAndCheck_def)
  let ?a2 = "recordCheck (xv_check env) (xv_interrupted env) (xv_deadline env) (set_phase PhaseChecking a1)"
  let ?a3 = "recordEnvironment (xv_reader env) (xv_report env) (ck_Started (xv_check env)) ?a2"
  let ?a4 = "fold (\<lambda>n. add_error CodeRequiredFailed) (monitorRequired (xv_baseline env) (xv_inspections env)) ?a3"
  have b: "b = change (recordGenerations (xv_checked env)) ?a4" using journal w ok by (simp add: b_def startAndCheck_def Let_def)
  have e4: "at_errs ?a4 = []" using assms(1) by (simp add: b_def [symmetric] b attempt_simps)
  note m = required_clean [OF e4]
  have "at_errs ?a2 = []" using advances_no_errors [OF advances_recordEnvironment] m by blast
  note c = recordCheck_clean [OF this]
  show "check_succeeded env" using c m monitorRequired_empty by (simp add: check_succeeded_def)
  have env: "rs_Environment (at_result ?a2) = rs_Environment (at_result a)"
    using waitReady_frame [of env "clampGrace cfg" selected ?a] w by (simp add: recordCheck_frame set_phase_def attempt_simps)
  have e3: "at_errs (recordEnvironment (xv_reader env) (xv_report env) True ?a2) = []"
    using m unfolding eqTrueI [OF conjunct1 [OF c]] by blast
  show "report_acceptable env (ve_Required (rs_Environment (at_result a)))"
    using recordEnvironment_clean [OF e3] assms(2) unfolding env report_acceptable_def by blast
  note t = waitReady_true [OF w [unfolded eqTrueI [OF ok]]]
  show "all_ready env selected" using wait_loop_passed [OF t(5)] by (auto simp: all_ready_def)
  show "at_runner b" using t(3) by (simp add: b attempt_simps required_frame recordEnvironment_frame recordCheck_frame set_phase_def)
  show "su_Status (rs_Startup (at_result b)) = StatusPassed"
    using t(4) by (simp add: b attempt_simps required_frame recordEnvironment_frame recordCheck_frame set_phase_def recordGenerations_def)
  have kept: "rs_Check (at_result b) = rs_Check (at_result ?a2)"
    by (simp add: b attempt_simps required_frame recordEnvironment_frame recordGenerations_def)
  show "vk_Status (rs_Check (at_result b)) = StatusPassed" "vk_ExitCode (rs_Check (at_result b)) = Some 0"
    using c unfolding kept by blast+
qed

lemma terminal_kept:
  assumes "r\<lparr>rs_Kind := k\<rparr> = at_result (terminal env a) \<or> r\<lparr>rs_Kind := k\<rparr> = trimmed (at_result (terminal env a))"
  shows "rs_Startup r = rs_Startup (at_result a)" "vk_Status (rs_Check r) = vk_Status (rs_Check (at_result a))"
    "vk_ExitCode (rs_Check r) = vk_ExitCode (rs_Check (at_result a))" "rs_Cleanup r = rs_Cleanup (at_result a)" "rs_ReceiptPersisted r"
proof -
  let ?t = "at_result (terminal env a)"
  have t: "rs_Startup ?t = rs_Startup (at_result a)" "rs_Check ?t = rs_Check (at_result a)" "rs_Cleanup ?t = rs_Cleanup (at_result a)"
      "rs_ReceiptPersisted ?t"
    by (simp_all add: terminal_def finishVerdict_def source_noted_def Let_def attempt_simps)
  define u where "u = r\<lparr>rs_Kind := k\<rparr>"
  have u: "rs_Startup u = rs_Startup r" "rs_Check u = rs_Check r" "rs_Cleanup u = rs_Cleanup r" "rs_ReceiptPersisted u = rs_ReceiptPersisted r"
    by (simp_all add: u_def)
  have "u = ?t \<or> u = trimmed ?t" using assms by (simp add: u_def)
  then have "rs_Startup r = rs_Startup ?t \<and> vk_Status (rs_Check r) = vk_Status (rs_Check ?t) \<and> vk_ExitCode (rs_Check r) = vk_ExitCode (rs_Check ?t)
      \<and> rs_Cleanup r = rs_Cleanup ?t \<and> rs_ReceiptPersisted r = rs_ReceiptPersisted ?t"
    unfolding u [symmetric] by (auto simp: trimmed_def)
  then show "rs_Startup r = rs_Startup (at_result a)" "vk_Status (rs_Check r) = vk_Status (rs_Check (at_result a))"
    "vk_ExitCode (rs_Check r) = vk_ExitCode (rs_Check (at_result a))" "rs_Cleanup r = rs_Cleanup (at_result a)" "rs_ReceiptPersisted r"
    by (simp_all add: t)
qed

text \<open>
  C4. A passed attempt means what it says. At one poll every selected process was ready; the check started,
  exited with code 0 in time, uninterrupted and without being handed off, while no service was seen stopped,
  restarted or unhealthy; the environment report named no mismatch, and was there if it is required; the runner
  returned within the cleanup budget with nothing unresolved, every teardown command passed; and the receipt of
  the attempt was written. Its exit code is 0.
\<close>

theorem passed_attempt_has_all_evidence:
  assumes "Run_attempt env opts m = (r, m')" and "rs_Status r = StatusPassed"
  shows "\<exists>cfg. Load (xv_host env) (vo_ConfigPath opts) = Inr cfg
    \<and> all_ready env (SelectedNames cfg (vo_Selectors opts)) \<and> su_Status (rs_Startup r) = StatusPassed
    \<and> check_succeeded env \<and> vk_Status (rs_Check r) = StatusPassed \<and> vk_ExitCode (rs_Check r) = Some 0
    \<and> report_acceptable env (vo_RequireEnvironment opts)
    \<and> cleaned_up env \<and> cl_TerminationVerified (rs_Cleanup r) = Some True
    \<and> rs_ReceiptPersisted r \<and> rs_ExitCode r = 0"
  using assms(1)
proof (cases rule: Run_cases)
  case (ran cfg selected r0 plan w f k aid d1 plan1 w1)
  let ?init = "first_state env aid plan selected r0"
  let ?s = "startAndCheck env (plan_config plan) selected ?init"
  let ?c = "cleanup env selected ?s" and ?fin = "worked env plan selected ?init"
  note v = conclude_verdict(2) [OF worked_sound ran(9) assms(2)]
  from conjunct2 [OF v] obtain d2 where
    p: "persistTerminal env (receipt_name aid) (at_result (terminal env ?fin)) (vm_attempts (m\<lparr>vm_pid := f, vm_table := k, vm_attempts := d1, vm_os := w1\<rparr>))
        = (True, r\<lparr>rs_Kind := rs_Kind (at_result (terminal env ?fin))\<rparr>, d2)" by (rule exE)
  have "at_errs ?fin = []" by (rule conjunct1 [OF v])
  then have c: "at_errs ?c = []" unfolding worked_def by (rule advances_no_errors [OF advances_collectEvidence])
  then have e: "at_errs ?s = []" by (rule advances_no_errors [OF advances_cleanup])
  have fresh: "ve_Status (rs_Environment (at_result ?init)) = StatusNotRun" "ve_Required (rs_Environment (at_result ?init)) = vo_RequireEnvironment opts"
    using ran(3) by (simp_all add: first_state_def active_result_def same_shape_def newResult_def)
  note start = startAndCheck_clean [OF e fresh(1)]
  note swept = cleanup_clean [OF c start(1)]
  have kept: "rs_Startup r = rs_Startup (at_result ?s)" "vk_Status (rs_Check r) = vk_Status (rs_Check (at_result ?s))"
      "vk_ExitCode (rs_Check r) = vk_ExitCode (rs_Check (at_result ?s))" "rs_Cleanup r = rs_Cleanup (at_result ?c)" "rs_ReceiptPersisted r"
    using terminal_kept [OF persistTerminal_result [OF p]] by (simp_all add: worked_def collectEvidence_frame cleanup_frame)
  have "verdict_ok r" using conclude_verdict(1) [OF worked_sound ran(9)] .
  then have "rs_ExitCode r = 0" using assms(2) by (auto simp: verdict_ok_def)
  moreover have "cleaned_up env" unfolding cleaned_up_def using swept by blast
  moreover have "all_ready env (SelectedNames cfg (vo_Selectors opts))" using start(2) unfolding ran(2) .
  ultimately show ?thesis unfolding kept using ran(1) start [unfolded fresh] swept kept(5) by blast
next
  case refused
  then show ?thesis using assms(2) refusal_facts(4) by simp
next
  case (unwritten aid plan selected r0)
  then show ?thesis using assms(2) unrecorded_facts(4) by blast
qed

section \<open>An example attempt\<close>

definition example_states :: "ipcProcState list" where
  "example_states = map (\<lambda>(n, st, mode). \<lparr>ip_Name = n, ip_State = st, ip_Mode = mode, ip_Ready = True, ip_PID = 100, ip_Restarts = 0,
     ip_StartedAt = 0, ip_ColorIndex = 0, ip_Generation = 1, ip_LastError = [], ip_ExitCode = None, ip_DependsOn = [],
     ip_Health = healthNoProbe, ip_HealthError = [], ip_ReadinessOwner = None, ip_HealthOwner = None\<rparr>)
     [(''api'', Running, ''service''), (''db'', Completed, ''task''), (''merge-port'', Running, ''service''), (''web'', Running, ''service'')]"

definition example_ptable :: ptable where
  "example_ptable = \<lparr>pt_procs = \<lambda>_. [], pt_pid = \<lambda>_. 0, pt_start = \<lambda>_. 0, pt_group = \<lambda>_ _. 0, pt_state = \<lambda>_ _. CHR ''S'',
     pt_tasks = \<lambda>_ _. None, pt_readdir = \<lambda>_. Some [], pt_statErr = \<lambda>_ _. None, pt_openErr = \<lambda>_ _. False, pt_sendErr = \<lambda>_ _. False,
     pt_denied = \<lambda>_ _. False, pt_self = 1, pt_pgrp = 1, pt_host = \<lparr>ho_BootID = [], ho_PIDNS = [], ho_TimeNS = []\<rparr>, pt_procOwn = True, pt_now = 0, pt_sent = [], pt_open = 0\<rparr>"

definition example_options :: VerifyOptions where
  "example_options = \<lparr>vo_ConfigPath = ''/srv/app/c.yaml'', vo_Session = ''dev'', vo_Hash = ''abc'', vo_Selectors = [], vo_Argv = [''true''],
     vo_Dir = [], vo_StartupTimeout = 120 * Second, vo_CheckTimeout = 600 * Second, vo_CleanupTimeout = 30 * Second, vo_ToolVersion = [],
     vo_ExtraEnv = [], vo_RequireEnvironment = False\<rparr>"

definition example_attempt :: verify_env where
  "example_attempt = \<lparr>xv_encoder = \<lparr>js_result = \<lambda>r. Some ''{}'', js_compact = \<lambda>c. Some ''{}'', js_argv = \<lambda>a. concat a,
       js_selection = \<lambda>a b c. Some [], sha256 = \<lambda>d. []\<rparr>,
     xv_decoder = \<lparr>jd_result = \<lambda>d. None, jd_exit = \<lambda>d. None\<rparr>,
     xv_reader = \<lparr>jr_parse = \<lambda>d. None, jr_fold = (=), jr_length = length\<rparr>,
     xv_host = example_host, xv_is_dir = \<lambda>d. True, xv_git = ((Some ''f00'', Some []), (Some ''f00'', Some [])), xv_mkdir = True,
     xv_runID = ''run1'', xv_sessionDir = ''/run/s1'', xv_journalPath = ''j'', xv_alive = False, xv_clock = 1700000000000,
     xv_random = Some (replicate 10 7), xv_owner = \<lparr>vw_PID = 7, vw_Hostname = ''host''\<rparr>, xv_writable = (True, True),
     xv_stuck = \<lambda>n. False, xv_journal_ok = True, xv_released = [''web''], xv_polls = [], xv_last = (example_states, EndTimedOut),
     xv_final = example_states, xv_baseline = example_states, xv_inspections = [example_states],
     xv_check = \<lparr>ck_Started = True, ck_ExitCode = Some 0, ck_Signal = None, ck_Stderr = [], ck_OutputTruncated = False,
       ck_HandedOff = False, ck_Err = None, ck_AdmissionRefused = False, cx_Generation = 1, cx_Stdout = [], cx_StartedAt = None,
       cx_FinishedAt = None, cx_Canceled = False\<rparr>,
     xv_interrupted = False, xv_deadline = False, xv_report = NoReport, xv_checked = example_states, xv_returned = True,
     xv_runner = stuck_runner, xv_teardown = [], xv_after = example_states, xv_codec = example_codec, xv_journal = example_look, xv_time = 0\<rparr>"

definition example_machine :: verify_machine where
  "example_machine = \<lparr>vm_os = example_world, vm_pid = PidMissing, vm_table = example_ptable, vm_attempts = []\<rparr>"


abbreviation (input) example_names :: "string list" where
  "example_names \<equiv> [''api'', ''db'', ''merge-port'', ''web'']"

lemma example_selected: "SelectedNames example_loaded [] = example_names"
  by code_simp

lemma example_processes:
  "map (\<lambda>(n, p). (n, EffectiveMode p, gokeys (p_Ports p))) (c_Processes example_loaded) =
     [(''web'', ''service'', [''http'']), (''api'', ''service'', []), (''db'', ''task'', []), (''merge-port'', ''service'', [])]"
  by code_simp

lemma example_process:
  assumes "map_of [(''web'', ''service'', [''http'']), (''api'', ''service'', []), (''db'', ''task'', []), (''merge-port'', ''service'', [])] n = Some (mode, ports)"
  shows "EffectiveMode (proc_at (c_Processes example_loaded) n) = mode" "gokeys (p_Ports (proc_at (c_Processes example_loaded) n)) = ports"
  using assms map_of_map [of "\<lambda>p. (EffectiveMode p, gokeys (p_Ports p))" "c_Processes example_loaded", unfolded example_processes]
  by (auto simp: proc_at_def fun_eq_iff simp del: map_of.simps split: option.splits)

lemma example_valid:
  "\<exists>r. validation example_attempt example_options (newResult (xv_encoder example_attempt) example_options) = Inr (example_loaded, example_names, r)
     \<and> ve_Required (rs_Environment r) = False"
proof -
  have "endpointNameCollisions example_loaded example_names = False"
    by (simp add: endpointNameCollisions_def example_process del: map_map)
  moreover have "h_read example_host ''/srv/app/c.yaml'' = Some ''doc''" by (simp add: example_host_def)
  ultimately show ?thesis
    by (simp add: validation_def validate_selection_def Let_def example_options_def example_attempt_def example_load
        example_selected ValidateDuration_def newResult_def ArgvDigest_def example_process)
qed

lemma example_waited: "wt_outcome (wait_loop cfg example_names [] [] (example_states, EndTimedOut)) = StatusPassed"
  by (simp add: example_states_def snapshot_state_def startup_failed_def)

lemma example_monitored: "monitorRequired example_states [example_states] = []"
  by code_simp

lemma example_settled: "ShutdownResult stuck_runner = None" "Unresolved stuck_runner = []"
  by code_simp+

lemma example_query:
  "\<exists>page t1. Query example_codec example_look ''j'' (no_options\<lparr>lo_RunID := run, lo_Limit := 1, lo_MaxBytes := 1024\<rparr>) 0 = (Inr page, t1)"
proof -
  let ?o = "no_options\<lparr>lo_RunID := run, lo_Limit := 1, lo_MaxBytes := 1024\<rparr>"
  have d: "with_defaults ?o = ?o" by (simp add: with_defaults_def no_options_def)
  obtain t1 where s: "snapshotFiles example_look ''j'' 0 = (Inr [example_journal], t1)" using example_snapshot by (metis prod.exhaust_sel)
  have "\<exists>page. scan_journal example_codec ?o [example_journal] = Inr (page, True)"
    unfolding scan_journal_def example_records
    by (cases "run = []"; cases "run = ''r''")
      (simp_all add: scan_start_def first_page_def no_options_def scan_event_def matches_def Let_def example_event_def fit_def
        add_event_def example_codec_def)
  then show ?thesis using s unfolding Query_def Let_def d by (auto simp: no_options_def)
qed

lemma example_acquire:
  "Acquire True ''run1'' ''/run/s1'' example_loaded ''/srv/app/c.yaml'' ''abc'' ''dev'' [] example_world = (Inr example_plan, snd (acquire_example example_world))"
  using example_acquired by (simp add: acquire_example_def)

lemma example_started:
  fixes cfg :: Config and a :: attempt
  assumes "ve_Required (rs_Environment (at_result a)) = False" and "at_errs a = []" "\<not> at_interrupt a"
  defines "b \<equiv> startAndCheck example_attempt cfg example_names a"
  shows "at_errs b = [] \<and> \<not> at_interrupt b \<and> at_runner b \<and> ev_Journal (rs_Evidence (at_result b)) = ev_Journal (rs_Evidence (at_result a))"
proof -
  have x: "xv_polls example_attempt = []" "xv_last example_attempt = (example_states, EndTimedOut)" "xv_journal_ok example_attempt"
      "xv_report example_attempt = NoReport" "xv_baseline example_attempt = example_states" "xv_inspections example_attempt = [example_states]"
      "ck_Started (xv_check example_attempt)" "ck_ExitCode (xv_check example_attempt) = Some 0" "\<not> ck_HandedOff (xv_check example_attempt)"
      "\<not> xv_interrupted example_attempt" "\<not> xv_deadline example_attempt"
    by (simp_all add: example_attempt_def)
  let ?a = "set_phase PhaseWaiting (a\<lparr>at_runner := True\<rparr>)"
  obtain ok a1 where w: "waitReady example_attempt (clampGrace cfg) example_names ?a = (ok, a1)" by (rule prod.exhaust)
  have ok: "ok = True" using waitReady_outcome [of example_attempt "clampGrace cfg" example_names ?a] w unfolding x(1,2) example_waited by simp
  note t = waitReady_true [OF w [unfolded ok]] waitReady_frame [of example_attempt "clampGrace cfg" example_names ?a]
  have j: "ev_Journal (rs_Evidence (at_result (snd (waitReady env c ns a)))) = ev_Journal (rs_Evidence (at_result a))" for env c ns a
    by (simp add: waitReady_def recordGenerations_def Let_def failStartup_def attempt_simps)
  show ?thesis unfolding b_def
    using t j [of example_attempt "clampGrace cfg" example_names ?a] assms(1-3) w x
    by (simp add: startAndCheck_def ok Let_def example_monitored recordCheck_def check_errors_def recordEnvironment_def readEnvironmentReport_def
        environment_unknown_def set_phase_def attempt_simps recordGenerations_def)
qed

lemma example_work:
  fixes aid :: string and r :: Result
  assumes "ve_Required (rs_Environment r) = False"
  defines "a \<equiv> worked example_attempt example_plan example_names (first_state example_attempt aid example_plan example_names r)"
  shows "at_errs a = [] \<and> \<not> at_interrupt a"
proof -
  let ?b = "startAndCheck example_attempt (plan_config example_plan) example_names (first_state example_attempt aid example_plan example_names r)"
  have b: "at_errs ?b = []" "\<not> at_interrupt ?b" "at_runner ?b" "ev_Journal (rs_Evidence (at_result ?b)) = Some ''j''"
    using example_started [of "first_state example_attempt aid example_plan example_names r" "plan_config example_plan"] assms(1)
    by (simp_all add: first_state_def active_result_def example_attempt_def)
  have x: "xv_returned example_attempt" "xv_runner example_attempt = stuck_runner" "xv_teardown example_attempt = []"
      "xv_codec example_attempt = example_codec" "xv_journal example_attempt = example_look" "xv_time example_attempt = 0"
    by (simp_all add: example_attempt_def)
  obtain page t1 where q: "Query example_codec example_look ''j''
      (no_options\<lparr>lo_RunID := pj_RunID (pl_Project example_plan), lo_Limit := 1, lo_MaxBytes := 1024\<rparr>) 0 = (Inr page, t1)"
    using example_query by blast
  let ?c = "cleanup example_attempt example_names ?b"
  have "at_errs ?c = []" "\<not> at_interrupt ?c" "at_runner ?c" "ev_Journal (rs_Evidence (at_result ?c)) = Some ''j''"
    using b x by (simp_all add: cleanup_def Let_def set_cleanup_def recordTeardown_def example_settled attempt_simps)
  then show ?thesis unfolding a_def worked_def
    using q x by (simp add: collectEvidence_def Let_def attempt_simps split: prod.splits)
qed

lemma example_passes: "rs_Status (fst (Run_attempt example_attempt example_options example_machine)) = StatusPassed"
proof -
  obtain r0 where v: "validation example_attempt example_options (newResult (xv_encoder example_attempt) example_options) = Inr (example_loaded, example_names, r0)"
      "ve_Required (rs_Environment r0) = False" using example_valid by blast
  have acq: "Acquire (xv_mkdir example_attempt) (xv_runID example_attempt) (xv_sessionDir example_attempt) example_loaded
      (vo_ConfigPath example_options) (vo_Hash example_options) (vo_Session example_options) (vo_Selectors example_options)
      (vm_os example_machine) = (Inr example_plan, snd (acquire_example example_world))"
    using example_acquire by (simp add: example_attempt_def example_options_def example_machine_def)
  have crash: "ResolveCrashedRun (xv_alive example_attempt) (vm_pid example_machine) (vm_table example_machine) = (None, PidMissing, example_ptable)"
    by (simp add: ResolveCrashedRun_def assessCrashedRun_def example_machine_def)
  obtain aid where aid: "NewAttemptID (xv_clock example_attempt) (xv_random example_attempt) = Some aid"
    by (simp add: NewAttemptID_def example_attempt_def Let_def)
  have writes: "js_result (xv_encoder example_attempt) r = Some ''{}''" "xv_writable example_attempt = (True, True)" for r
    by (simp_all add: example_attempt_def)
  let ?r = "r0\<lparr>rs_Phase := PhaseAcquiring\<rparr>"
  let ?a = "worked example_attempt example_plan example_names (first_state example_attempt aid example_plan example_names ?r)"
  have clean: "at_errs ?a = [] \<and> \<not> at_interrupt ?a" using v(2) by (intro example_work) simp
  have passed: "rs_Status (at_result (terminal example_attempt ?a)) = StatusPassed"
    using terminal_facts(3) [OF worked_sound] clean by blast
  obtain d1 where "WriteReceipt (xv_encoder example_attempt) True (receipt_name aid) (at_result (first_state example_attempt aid example_plan example_names ?r))
      (vm_attempts example_machine) = (None, d1)"
    by (simp add: WriteReceipt_def writes)
  then show ?thesis using v acq crash aid passed
    by (simp add: Run_attempt_def Let_def attempt_run_def run_ports_def conclude_attempt_def persistTerminal_def Encode_def WriteReceipt_def writes
        split: prod.splits)
qed

lemma passed_attempt_has_all_evidence_witness:
  "all_ready example_attempt (SelectedNames example_loaded (vo_Selectors example_options)) \<and> check_succeeded example_attempt
    \<and> report_acceptable example_attempt False \<and> cleaned_up example_attempt
    \<and> rs_ExitCode (fst (Run_attempt example_attempt example_options example_machine)) = 0"
proof -
  have host: "xv_host example_attempt = example_host" "vo_ConfigPath example_options = ''/srv/app/c.yaml''" "vo_RequireEnvironment example_options = False"
    by (simp_all add: example_attempt_def example_options_def)
  from passed_attempt_has_all_evidence [OF prod.collapse [symmetric] example_passes] show ?thesis
    by (auto simp: host example_load)
qed

lemma leases_follow_the_authority_witness:
  "if cl_SignalingAuthority (rs_Cleanup (fst (Run_attempt example_attempt example_options example_machine))) \<in> {''none'', ''withdrawn''}
   then vm_os (snd (Run_attempt example_attempt example_options example_machine)) = example_world
   else \<not> xv_returned example_attempt"
proof -
  have host: "xv_host example_attempt = example_host" "vm_os example_machine = example_world" by (simp_all add: example_attempt_def example_machine_def)
  show ?thesis using leases_follow_the_authority [OF prod.collapse [symmetric], where env = example_attempt and opts = example_options and m = example_machine and wd = "''/srv''"]
      example_yaml_maps example_cwd by (auto simp: host split: if_splits)
qed

end
