(* ===== verification/Verify_Record.thy ===== *)
theory Verify_Record
  imports Verify_Correct
begin

text \<open>
  The receipts an attempt leaves, the sizes of what it emits, and the endpoints its check is told.
\<close>

section \<open>What identifies an attempt stays\<close>

definition identity :: "Result \<Rightarrow> int \<times> string \<times> string option \<times> string option" where
  "identity r = (rs_SchemaVersion r, rs_Kind r, rs_AttemptID r, rs_ReceiptPath r)"

lemma identity_recordGenerations: "identity (recordGenerations states r) = identity r"
  by (simp add: identity_def recordGenerations_def)

lemma identity_waitReady: "identity (at_result (snd (waitReady env cfg selected a))) = identity (at_result a)"
  by (simp add: identity_def waitReady_def Let_def failStartup_def recordGenerations_def attempt_simps)

lemma identity_recordCheck: "identity (at_result (recordCheck ck i d a)) = identity (at_result a)"
  by (simp add: identity_def recordCheck_def check_errors_def Let_def attempt_simps)

lemma identity_recordEnvironment: "identity (at_result (recordEnvironment rd f s a)) = identity (at_result a)"
  by (simp add: identity_def recordEnvironment_def environment_unknown_def Let_def attempt_simps split: sum.splits)

lemma identity_startAndCheck: "identity (at_result (startAndCheck env cfg selected a)) = identity (at_result a)"
proof -
  let ?a = "set_phase PhaseWaiting (a\<lparr>at_runner := True\<rparr>)"
  obtain ok a1 where w: "waitReady env (clampGrace cfg) selected ?a = (ok, a1)" by (rule prod.exhaust)
  have phase: "identity (at_result (set_phase p b)) = identity (at_result b)" for p b
    by (simp add: identity_def set_phase_def attempt_simps)
  have "identity (at_result a1) = identity (at_result a)"
    using identity_waitReady [of env "clampGrace cfg" selected ?a] w phase [of PhaseWaiting "a\<lparr>at_runner := True\<rparr>"] by simp
  moreover have "identity (at_result (failStartup c s a)) = identity (at_result a)" for c s
    by (simp add: identity_def failStartup_def attempt_simps)
  ultimately show ?thesis using w
    by (cases ok) (simp_all add: startAndCheck_def Let_def required_frame identity_recordGenerations identity_recordEnvironment
        identity_recordCheck phase attempt_simps)
qed

lemma identity_cleanup: "identity (at_result (cleanup env selected a)) = identity (at_result a)"
  by (simp add: identity_def cleanup_def Let_def unverified_cleanup_def set_cleanup_def recordTeardown_def attempt_simps)

lemma identity_collectEvidence: "identity (at_result (collectEvidence env runID a)) = identity (at_result a)"
  by (simp add: identity_def collectEvidence_def Let_def attempt_simps split: option.splits prod.splits sum.splits)

lemma identity_worked: "identity (at_result (worked env plan selected a)) = identity (at_result a)"
  by (simp add: worked_def identity_collectEvidence identity_cleanup identity_startAndCheck)

lemma identity_terminal: "identity (at_result (terminal env a)) = identity (at_result a)"
  by (simp add: identity_def terminal_def finishVerdict_def source_noted_def Let_def attempt_simps)

lemma identity_trimmed: "identity (trimmed r) = identity r"
  by (simp add: identity_def trimmed_def)

lemma identity_unpersisted: "identity (at_result (unpersisted r a)) = identity r"
  by (simp add: identity_def unpersisted_def finishVerdict_def Let_def attempt_simps)

section \<open>Receipts read back\<close>

text \<open>
  A result that a receipt can hold decodes from its text with the fields the contract looks at. This is what
  the program relies on \<^verbatim>\<open>encoding/json\<close> for.
\<close>

definition receiptable :: "Result \<Rightarrow> bool" where
  "receiptable r = (rs_SchemaVersion r = 1 \<and> rs_Kind r = KindReceipt
     \<and> (case rs_AttemptID r of Some aid \<Rightarrow> validAttemptID aid | None \<Rightarrow> False)
     \<and> recordedVerdict (rs_State r) (rs_Status r) (rs_ExitCode r))"

definition contract_fields :: "Result \<Rightarrow> int \<times> string \<times> string option \<times> string \<times> string \<times> int" where
  "contract_fields r = (rs_SchemaVersion r, rs_Kind r, rs_AttemptID r, rs_State r, rs_Status r, rs_ExitCode r)"

definition faithful :: "encoder \<Rightarrow> receipt_decoder \<Rightarrow> bool" where
  "faithful enc dec = (\<forall>r data. receiptable r \<longrightarrow> js_result enc r = Some data \<longrightarrow>
     map_option contract_fields (jd_result dec (newline_end data)) = Some (contract_fields r)
     \<and> jd_exit dec (newline_end data) = Some (Some (rs_ExitCode r)))"

lemma WriteReceipt_reads_back:
  assumes "faithful enc dec" and "receiptable r" and "rs_AttemptID r = Some aid"
    and "WriteReceipt enc writable (receipt_name aid) r d = (None, d1)"
  shows "\<exists>r'. ReadReceipt dec d1 (receipt_name aid) = Inr r' \<and> contract_fields r' = contract_fields r"
proof -
  have kind: "r\<lparr>rs_Kind := KindReceipt\<rparr> = r" using assms(2) by (simp add: receiptable_def)
  obtain data where data: "js_result enc r = Some data" "d1 = gput (receipt_name aid) (EntryFile (newline_end data)) d"
    using assms(4) by (auto simp: WriteReceipt_def kind split: option.splits if_splits)
  obtain r' where r': "jd_result dec (newline_end data) = Some r'" "contract_fields r' = contract_fields r"
      "jd_exit dec (newline_end data) = Some (Some (rs_ExitCode r))"
    using assms(1,2) data(1) unfolding faithful_def by blast
  then show ?thesis using assms(2,3) data(2)
    by (intro exI [of _ r']) (auto simp: ReadReceipt_def check_receipt_def receiptable_def contract_fields_def)
qed

lemma prune_loop_keeps: "gget (snd (prune_loop dec stuck keep names t d)) keep = gget d keep"
  by (induction dec stuck keep names t d rule: prune_loop.induct) (auto split: prod.splits)

lemma Prune_keeps: "ReadReceipt dec (snd (Prune dec stuck keep d)) keep = ReadReceipt dec d keep"
  unfolding Prune_def by (intro ReadReceipt_entry prune_loop_keeps)

lemma NewAttemptID_valid:
  assumes "NewAttemptID ms random = Some aid"
  shows "validAttemptID aid"
proof -
  obtain v where "aid = digits32 26 v" using assms by (auto simp: NewAttemptID_def Let_def base32_digits_eq split: option.splits)
  then show ?thesis by (simp add: digits32_valid)
qed

lemma terminal_receiptable:
  assumes "sound a" and "identity (at_result a) = (1, KindReceipt, Some aid, path)" and "validAttemptID aid"
  shows "receiptable (at_result (terminal env a))" "receiptable (trimmed (at_result (terminal env a)))"
proof -
  let ?t = "at_result (terminal env a)"
  have "identity ?t = (1, KindReceipt, Some aid, path)" using assms(2) by (simp add: identity_terminal)
  moreover have "rs_State ?t = StateCompleted" by (simp add: terminal_def finishVerdict_def Let_def attempt_simps)
  ultimately show t: "receiptable ?t"
    using terminal_facts(4) [OF assms(1), of env] assms(3) by (simp add: receiptable_def identity_def)
  have "receiptable (trimmed r) = receiptable r" for r by (simp add: receiptable_def trimmed_def)
  then show "receiptable (trimmed ?t)" using t by simp
qed

text \<open>What the receipt of a finished attempt says: its verdict, or that it is unfinished when the end was not written.\<close>

definition receipt_tells :: "Result \<Rightarrow> Result \<Rightarrow> bool" where
  "receipt_tells r rec =
     (if rs_ReceiptPersisted r then rs_State rec = StateCompleted \<and> rs_Status rec = rs_Status r \<and> rs_ExitCode rec = rs_ExitCode r
      else rs_State rec = StateActive)"

lemma conclude_receipt:
  assumes f: "faithful (xv_encoder env) (xv_decoder env)" and a: "sound a" "identity (at_result a) = (1, KindReceipt, Some aid, Some path)"
    and aid: "validAttemptID aid" and c: "conclude_attempt env aid plan a m = (r, m')"
    and active: "\<exists>rec. ReadReceipt (xv_decoder env) (vm_attempts m) (receipt_name aid) = Inr rec \<and> rs_State rec = StateActive"
  shows "rs_AttemptID r = Some aid \<and> rs_ReceiptPath r = Some path
    \<and> (\<exists>rec. ReadReceipt (xv_decoder env) (vm_attempts m') (receipt_name aid) = Inr rec \<and> receipt_tells r rec)"
proof -
  let ?t = "at_result (terminal env a)"
  obtain ok r1 d1 where p: "persistTerminal env (receipt_name aid) ?t (vm_attempts m) = (ok, r1, d1)" by (rule prod_cases3)
  have r1: "receiptable r1" "identity r1 = (1, KindReceipt, Some aid, Some path)" "rs_ReceiptPersisted r1" "rs_State r1 = StateCompleted"
    using persistTerminal_result [OF p] terminal_receiptable [OF a aid] a(2)
    by (auto simp: identity_trimmed identity_terminal) (simp_all add: trimmed_def terminal_def finishVerdict_def Let_def attempt_simps)
  show ?thesis
  proof (cases ok)
    case True
    then have w: "WriteReceipt (xv_encoder env) (snd (xv_writable env)) (receipt_name aid) r1 (vm_attempts m) = (None, d1)"
      using p by (auto simp: persistTerminal_def split: prod.splits encoded.splits option.splits)
    have "rs_AttemptID r1 = Some aid" using r1(2) by (simp add: identity_def)
    then obtain rec where rec: "ReadReceipt (xv_decoder env) d1 (receipt_name aid) = Inr rec" "contract_fields rec = contract_fields r1"
      using WriteReceipt_reads_back [OF f r1(1) _ w] by blast
    have "r = r1\<lparr>rs_Kind := KindResponse\<rparr>" and "vm_attempts m' = snd (Prune (xv_decoder env) (xv_stuck env) (receipt_name aid) d1)"
      using c p True by (auto simp: conclude_attempt_def Let_def close_plan_def)
    then show ?thesis using rec r1 by (simp add: Prune_keeps receipt_tells_def contract_fields_def identity_def)
  next
    case False
    then have "r = (at_result (unpersisted r1 (terminal env a)))\<lparr>rs_Kind := KindResponse\<rparr>" and "vm_attempts m' = vm_attempts m"
      using c p persistTerminal_failed [of env "receipt_name aid" ?t "vm_attempts m" r1 d1] by (auto simp: conclude_attempt_def Let_def close_plan_def)
    moreover have "identity (at_result (unpersisted r1 (terminal env a))) = (1, KindReceipt, Some aid, Some path)"
      "\<not> rs_ReceiptPersisted (at_result (unpersisted r1 (terminal env a)))"
      using r1(2) by (simp_all add: identity_unpersisted) (simp add: unpersisted_def finishVerdict_def Let_def attempt_simps)
    ultimately show ?thesis using active by (auto simp: receipt_tells_def identity_def)
  qed
qed

text \<open>
  C19. An attempt that names a receipt leaves one that \<^verbatim>\<open>ReadReceipt\<close> accepts under its identifier: the
  verdict it returned when the terminal receipt was written, the active state when it could not be. An attempt
  that names none has left the directory as it was.
\<close>

theorem every_attempt_leaves_its_receipt:
  assumes "faithful (xv_encoder env) (xv_decoder env)" and "Run_attempt env opts m = (r, m')"
  shows "case rs_ReceiptPath r of
      None \<Rightarrow> vm_attempts m' = vm_attempts m
    | Some path \<Rightarrow> (\<exists>aid rec. rs_AttemptID r = Some aid
        \<and> ReadReceipt (xv_decoder env) (vm_attempts m') (receipt_name aid) = Inr rec \<and> receipt_tells r rec)"
  using assms(2)
proof (cases rule: Run_cases)
  case (ran cfg selected r0 plan w f k aid d1 plan1 w1)
  let ?r = "active_result env aid plan selected r0" and ?start = "first_state env aid plan selected r0"
  have aid: "validAttemptID aid" using ran(7) by (rule NewAttemptID_valid)
  have r: "receiptable ?r" "rs_AttemptID ?r = Some aid" "rs_State ?r = StateActive"
      and ident: "identity ?r = (1, KindReceipt, Some aid, rs_ReceiptPath ?r)" "rs_ReceiptPath ?r \<noteq> None"
    using ran(3,10,11) aid by (simp_all add: receiptable_def identity_def active_result_def same_shape_def fresh_shape recordedVerdict_def)
  obtain path where path: "rs_ReceiptPath ?r = Some path" using ident(2) by blast
  have "identity (at_result (worked env plan selected ?start)) = (1, KindReceipt, Some aid, Some path)"
    using ident(1) path by (simp add: identity_worked) (simp add: first_state_def)
  moreover have "\<exists>rec. ReadReceipt (xv_decoder env) d1 (receipt_name aid) = Inr rec \<and> rs_State rec = StateActive"
    using WriteReceipt_reads_back [OF assms(1) r(1,2) ran(8)] r(3) by (auto simp: contract_fields_def)
  ultimately show ?thesis
    using conclude_receipt [OF assms(1) worked_sound _ aid ran(9)] by fastforce
qed (simp_all add: refusal_facts unrecorded_facts)

text \<open>A codec that keeps the identifier and one letter for state and verdict.\<close>

definition letter :: "Result \<Rightarrow> char" where
  "letter r = (if rs_State r = StateActive then (if rs_Status r = StatusNotRun then CHR ''n'' else CHR ''a'')
     else if rs_Status r = StatusPassed then CHR ''p'' else if rs_Status r = StatusFailed then CHR ''f'' else CHR ''i'')"

definition unletter :: "char \<Rightarrow> string \<times> string \<times> int" where
  "unletter c = (if c = CHR ''n'' then (StateActive, StatusNotRun, 0) else if c = CHR ''a'' then (StateActive, StatusFailed, 0)
     else if c = CHR ''p'' then (StateCompleted, StatusPassed, 0) else if c = CHR ''f'' then (StateCompleted, StatusFailed, 1)
     else (StateCompleted, StatusInterrupted, 130))"

definition small_encoder :: encoder where
  "small_encoder = (xv_encoder example_attempt)\<lparr>js_result := \<lambda>r. Some (the_default [] (rs_AttemptID r) @ [letter r])\<rparr>"

definition small_decoder :: receipt_decoder where
  "small_decoder = \<lparr>jd_result = \<lambda>data. (case unletter (data ! 26) of (state, status, code) \<Rightarrow>
       Some (example_receipt\<lparr>rs_AttemptID := Some (take 26 data), rs_State := state, rs_Status := status, rs_ExitCode := code\<rparr>)),
     jd_exit = \<lambda>data. Some (Some (snd (snd (unletter (data ! 26)))))\<rparr>"

lemma small_faithful: "faithful small_encoder small_decoder"
proof -
  have "map_option contract_fields (jd_result small_decoder (newline_end data)) = Some (contract_fields r)
      \<and> jd_exit small_decoder (newline_end data) = Some (Some (rs_ExitCode r))"
    if r: "receiptable r" and data: "js_result small_encoder r = Some data" for r data
  proof -
    obtain aid where aid: "rs_AttemptID r = Some aid" "length aid = 26" using r by (auto simp: receiptable_def validAttemptID_def split: option.splits)
    have d: "data = aid @ [letter r]" using data aid(1) by (simp add: small_encoder_def)
    have "take 26 (newline_end data) = aid" "newline_end data ! 26 = letter r" using aid(2) by (simp_all add: d newline_end_def nth_append)
    moreover have "unletter (letter r) = (rs_State r, rs_Status r, rs_ExitCode r)"
      using r by (auto simp: receiptable_def recordedVerdict_def letter_def unletter_def split: if_splits)
    ultimately show ?thesis using r aid(1) by (simp add: small_decoder_def contract_fields_def receiptable_def example_receipt_def)
  qed
  then show ?thesis by (simp add: faithful_def)
qed

lemma every_attempt_leaves_its_receipt_witness:
  "case rs_ReceiptPath (fst (Run_attempt (example_attempt\<lparr>xv_encoder := small_encoder, xv_decoder := small_decoder\<rparr>) example_options example_machine)) of
      None \<Rightarrow> vm_attempts (snd (Run_attempt (example_attempt\<lparr>xv_encoder := small_encoder, xv_decoder := small_decoder\<rparr>) example_options example_machine)) = []
    | Some path \<Rightarrow> (\<exists>aid rec. ReadReceipt small_decoder (vm_attempts (snd (Run_attempt (example_attempt\<lparr>xv_encoder := small_encoder,
        xv_decoder := small_decoder\<rparr>) example_options example_machine))) (receipt_name aid) = Inr rec)"
  using every_attempt_leaves_its_receipt [where env = "example_attempt\<lparr>xv_encoder := small_encoder, xv_decoder := small_decoder\<rparr>",
      OF _ prod.collapse [symmetric], of example_options example_machine] small_faithful
  by (auto simp: example_machine_def split: option.splits)

section \<open>Sizes\<close>

lemma errors_ok_gput: "errors_ok e \<Longrightarrow> 0 < n \<Longrightarrow> errors_ok (gput c n e)"
  using snd_gput [of c n e] by (fastforce simp: errors_ok_def simp del: set_map)

lemma errors_ok_count: "errors_ok e \<Longrightarrow> 0 \<le> the_default 0 (gget e c)"
  by (cases "gget e c") (auto simp: errors_ok_def dest!: map_of_SomeD intro: less_imp_le)

lemma errors_ok_add_records: "errors_ok e \<Longrightarrow> \<forall>r \<in> set rs. 0 < er_Count r \<Longrightarrow> errors_ok (add_records rs e)"
proof (induction rs arbitrary: e)
  case (Cons r rs)
  have "errors_ok (gput (er_Code r) (the_default 0 (gget e (er_Code r)) + er_Count r) e)"
    using Cons.prems errors_ok_count [of e "er_Code r"] by (intro errors_ok_gput) auto
  then show ?case using Cons by (simp add: add_records_def)
qed (simp add: add_records_def)

text \<open>
  C39. Whatever a result holds, what is emitted of it in full is at most the size limit, and says the same with
  at most the excerpts dropped. When even that is too long the compact form replaces it: it never says that the
  attempt passed, exits non-zero, lists the size limit among its errors and claims no terminal receipt.
\<close>

theorem emitted_results_are_bounded:
  assumes "verdict_ok r"
  shows "case fst (Encode enc r) of
      EncodedFull data \<Rightarrow> length data \<le> MaxResultBytes \<and> js_result enc (snd (Encode enc r)) = Some data
        \<and> snd (Encode enc r) \<in> {r, trimmed r}
    | EncodedCompact data \<Rightarrow> data = js_compact enc (Compact enc r) \<and> ce_Status (Compact enc r) \<noteq> StatusPassed
        \<and> ce_ExitCode (Compact enc r) \<noteq> 0 \<and> CodeResultSizeLimit \<in> set (map er_Code (ce_Errors (Compact enc r)))
        \<and> \<not> ce_TerminalReceiptPersisted (Compact enc r) \<and> snd (Encode enc r) = r
    | EncodeError \<Rightarrow> js_result enc r = None"
proof -
  have "errors_ok (add_records (rs_Errors r) [])" using assms by (intro errors_ok_add_records) (simp_all add: verdict_ok_def)
  then have "set (map er_Code (Records (AddError CodeResultSizeLimit (add_records (rs_Errors r) []))))
      = insert CodeResultSizeLimit (set (gokeys (add_records (rs_Errors r) [])))"
    by (simp only: Records_codes errors_ok_Add set_sort AddError_keys)
  then have "CodeResultSizeLimit \<in> set (map er_Code (ce_Errors (Compact enc r)))" by (simp only: Compact_def Let_def CompactError.select_convs insertI1)
  then show ?thesis by (auto simp: Encode_def Compact_def Let_def split: option.splits)
qed

lemma emitted_results_are_bounded_witness:
  "ce_ExitCode (Compact (small_encoder\<lparr>js_result := \<lambda>r. Some (replicate 65537 CHR ''x'')\<rparr>) (failPreAcquisition CodeUsage example_receipt)) \<noteq> 0"
  using emitted_results_are_bounded [OF failPreAcquisition_verdict,
      where enc = "small_encoder\<lparr>js_result := \<lambda>r. Some (replicate 65537 CHR ''x'')\<rparr>"]
  by (simp add: Encode_def)

section \<open>Endpoints in the environment of the check\<close>

lemma EnvName_kinds: "EnvName ''PORT'' p n \<noteq> EnvName ''URL'' q k"
  by (simp add: EnvName_def Let_def)

lemma gget_fold_gput:
  "gget (fold (\<lambda>(k, v). gput k v) kvs m) k = (case map_of (rev kvs) k of Some v \<Rightarrow> Some v | None \<Rightarrow> gget m k)"
  by (induction kvs arbitrary: m) (auto simp: map_add_Some_iff split: option.splits)

lemma name_collision_none:
  "\<not> name_collision seen es \<longleftrightarrow> distinct (map (\<lambda>(p, n). EnvName ''PORT'' p n) es) \<and> set seen \<inter> set (map (\<lambda>(p, n). EnvName ''PORT'' p n) es) = {}"
  by (induction seen es rule: name_collision.induct) (auto simp: Let_def)

definition port_endpoints :: "Project \<Rightarrow> ((string \<times> string) \<times> int) list" where
  "port_endpoints pj = concat (map (\<lambda>(p, ports). map (\<lambda>(n, port). ((p, n), port)) ports) (pj_Ports pj))"

lemma concat_nested: "concat (map f (concat (map g xs))) = concat (map (\<lambda>x. concat (map f (g x))) xs)"
  by (induction xs) simp_all

lemma endpoint_env_flat:
  "endpoint_env pj = concat (map (\<lambda>((p, n), port). [(EnvName ''PORT'' p n, Itoa port),
     (EnvName ''URL'' p n, the_default [] (gget (the_default [] (gget (pj_URLs pj) p)) n))]) (port_endpoints pj))"
  unfolding endpoint_env_def port_endpoints_def concat_nested by (simp add: comp_def case_prod_unfold)

lemma distinct_pairs:
  assumes "\<And>x y. F x \<noteq> G y" and "\<And>x y. F x = F y \<longleftrightarrow> G x = G y" and "distinct (map F xs)"
  shows "distinct (concat (map (\<lambda>x. [F x, G x]) xs))"
  using assms(3)
proof (induction xs)
  case (Cons x xs)
  have "F x \<notin> set (map F xs)" using Cons.prems by simp
  then have "F x \<notin> set (concat (map (\<lambda>x. [F x, G x]) xs))" "G x \<notin> set (concat (map (\<lambda>x. [F x, G x]) xs))"
    using assms(1,2) by (auto simp: image_iff) metis+
  then show ?case using Cons assms(1) by simp
qed simp

lemma endpoint_env_distinct:
  assumes "\<not> name_collision [] (map fst (port_endpoints pj))"
  shows "distinct (map fst (endpoint_env pj))"
proof -
  have "distinct (map (\<lambda>e. EnvName ''PORT'' (fst (fst e)) (snd (fst e))) (port_endpoints pj))"
    using assms by (simp add: name_collision_none comp_def case_prod_beta)
  then have "distinct (concat (map (\<lambda>e. [EnvName ''PORT'' (fst (fst e)) (snd (fst e)), EnvName ''URL'' (fst (fst e)) (snd (fst e))]) (port_endpoints pj)))"
    by (intro distinct_pairs EnvName_kinds) (simp_all add: EnvName_def Let_def)
  then show ?thesis by (simp add: endpoint_env_flat map_concat comp_def case_prod_beta)
qed

text \<open>
  When the endpoint names of a selection do not collide, the check finds every endpoint of the session in
  its environment under its own variables, with the port and the address the session assigned: no other
  endpoint, and nothing the caller adds, takes their place.
\<close>

theorem check_is_told_its_endpoints:
  assumes "\<not> name_collision [] (map fst (port_endpoints pj))" and "((process, name), port) \<in> set (port_endpoints pj)"
  shows "gget (checkEnv extra session aid pj) (EnvName ''PORT'' process name) = Some (Itoa port)
    \<and> gget (checkEnv extra session aid pj) (EnvName ''URL'' process name)
      = Some (the_default [] (gget (the_default [] (gget (pj_URLs pj) process)) name))"
proof -
  let ?url = "the_default [] (gget (the_default [] (gget (pj_URLs pj) process)) name)"
  have d: "distinct (map fst (rev (endpoint_env pj)))" using endpoint_env_distinct [OF assms(1)] by (simp add: rev_map [symmetric])
  have "(EnvName ''PORT'' process name, Itoa port) \<in> set (rev (endpoint_env pj))" "(EnvName ''URL'' process name, ?url) \<in> set (rev (endpoint_env pj))"
    using assms(2) by (force simp: endpoint_env_flat)+
  then have "map_of (rev (endpoint_env pj)) (EnvName ''PORT'' process name) = Some (Itoa port)"
    "map_of (rev (endpoint_env pj)) (EnvName ''URL'' process name) = Some ?url"
    using map_of_is_SomeI [OF d] by simp_all
  then show ?thesis unfolding checkEnv_def gget_fold_gput by (simp add: map_add_def)
qed

definition example_endpoints :: Project where
  "example_endpoints = \<lparr>pj_Session = [], pj_RunID = [], pj_ConfigPath = [], pj_Directory = [],
     pj_Ports = [(''web'', [(''http'', 3000)]), (''api'', [(''http'', 4000), (''admin-ui'', 4001)])],
     pj_URLs = [(''api'', [(''admin-ui'', ''u'')])], pj_Resources = [], pj_Teardown = []\<rparr>"

lemma check_is_told_its_endpoints_witness:
  "gget (checkEnv [(''PROC_COMPOSE_PORT_API_ADMIN_UI'', ''1'')] [] [] example_endpoints) ''PROC_COMPOSE_PORT_API_ADMIN_UI'' = Some (Itoa 4001)"
proof -
  have "\<not> name_collision [] (map fst (port_endpoints example_endpoints))" by code_simp
  moreover have "((''api'', ''admin-ui''), 4001) \<in> set (port_endpoints example_endpoints)" by (simp add: port_endpoints_def example_endpoints_def)
  moreover have "EnvName ''PORT'' ''api'' ''admin-ui'' = ''PROC_COMPOSE_PORT_API_ADMIN_UI''" by code_simp
  ultimately show ?thesis using check_is_told_its_endpoints [of example_endpoints "''api''" "''admin-ui''" 4001] by metis
qed

end
