(* ===== verification/Verify_Compare.thy ===== *)
theory Verify_Compare
  imports Verify_Operation "HOL-Library.Signed_Division"
begin

text \<open>
  Comparison of two environments (\<^verbatim>\<open>internal/verify/compare.go\<close>): the schedule of the attempts, the summary of each
  side, and the verdict. The attempts are those of \<open>Run_attempt\<close>; the n-th one has the n-th environment, and
  \<open>canceled n\<close> says that the caller's context has ended when it returns. Times of day are in nanoseconds.
\<close>

section \<open>Outcomes\<close>

abbreviation MaxCompareRepeat :: int where "MaxCompareRepeat \<equiv> 5"

record AttemptOutcome =
  ao_AttemptID :: "string option"
  ao_Status :: string
  ao_ExitCode :: int
  ao_StartupStatus :: string
  ao_CheckStatus :: string
  ao_CheckExitCode :: "int option"
  ao_StdoutSHA256 :: string
  ao_StderrSHA256 :: string
  ao_StdoutExcerpt :: string
  ao_OutputTruncated :: bool
  ao_CheckMs :: "int option"
  ao_CleanupStatus :: string
  ao_EnvironmentStatus :: string
  ao_ReceiptPath :: "string option"
  ao_ReceiptPersisted :: bool
  ao_Errors :: "ErrorRecord list"

record SideSummary =
  ss_ConfigPath :: string
  ss_Session :: string
  ss_Attempts :: "AttemptOutcome list"
  ss_MedianCheckMs :: "int option"
  ss_Consistent :: bool

datatype observed = OText string | OExit "int option"

record Difference =
  df_Field :: string
  df_Baseline :: observed
  df_Candidate :: observed

record Comparison =
  cp_SchemaVersion :: int
  cp_Kind :: string
  cp_Status :: string
  cp_ExitCode :: int
  cp_OutcomesEqual :: "bool option"
  cp_Differences :: "Difference list"
  cp_Sides :: "SideSummary gomap"
  cp_Order :: "string list"
  cp_Limitations :: "string list"
  cp_Errors :: "ErrorRecord list"

text \<open>\<^verbatim>\<open>Time.Sub\<close> saturates, and \<^verbatim>\<open>Duration.Milliseconds\<close> rounds to zero.\<close>

definition sub_time :: "int \<Rightarrow> int \<Rightarrow> int" where
  "sub_time later earlier = max (- (2 ^ 63)) (min (2 ^ 63 - 1) (later - earlier))"

definition Milliseconds :: "int \<Rightarrow> int" where
  "Milliseconds ns = ns sdiv 1000000"

definition verifyOutcomeOf :: "encoder \<Rightarrow> Result \<Rightarrow> AttemptOutcome" where
  "verifyOutcomeOf enc r =
     (let ck = rs_Check r
      in \<lparr>ao_AttemptID = rs_AttemptID r, ao_Status = rs_Status r, ao_ExitCode = rs_ExitCode r,
          ao_StartupStatus = su_Status (rs_Startup r), ao_CheckStatus = vk_Status ck, ao_CheckExitCode = vk_ExitCode ck,
          ao_StdoutSHA256 = digest enc (vk_Stdout ck), ao_StderrSHA256 = digest enc (vk_Stderr ck),
          ao_StdoutExcerpt = truncateUTF8 (vk_Stdout ck) 1024, ao_OutputTruncated = vk_OutputTruncated ck,
          ao_CheckMs = (case (vk_StartedAt ck, vk_FinishedAt ck) of
              (Some start, Some end) \<Rightarrow> Some (Milliseconds (sub_time end start)) | _ \<Rightarrow> None),
          ao_CleanupStatus = cl_Status (rs_Cleanup r), ao_EnvironmentStatus = ve_Status (rs_Environment r),
          ao_ReceiptPath = rs_ReceiptPath r, ao_ReceiptPersisted = rs_ReceiptPersisted r, ao_Errors = rs_Errors r\<rparr>)"

record outcomeKey =
  ok_Status :: string
  ok_CheckStatus :: string
  ok_Stdout :: string
  ok_Stderr :: string
  ok_CheckExit :: "int option"

definition key :: "AttemptOutcome \<Rightarrow> outcomeKey" where
  "key a = \<lparr>ok_Status = ao_Status a, ok_CheckStatus = ao_CheckStatus a, ok_Stdout = ao_StdoutSHA256 a,
     ok_Stderr = ao_StderrSHA256 a, ok_CheckExit = ao_CheckExitCode a\<rparr>"

definition key_equal :: "outcomeKey \<Rightarrow> outcomeKey \<Rightarrow> bool" where
  "key_equal k other =
     (ok_Status k = ok_Status other \<and> ok_CheckStatus k = ok_CheckStatus other \<and> ok_Stdout k = ok_Stdout other \<and>
      ok_Stderr k = ok_Stderr other \<and>
      ((ok_CheckExit k = None) = (ok_CheckExit other = None) \<and>
       (ok_CheckExit k = None \<or> the (ok_CheckExit k) = the (ok_CheckExit other))))"

definition exit_key :: "int option \<Rightarrow> outcomeKey" where
  "exit_key e = \<lparr>ok_Status = [], ok_CheckStatus = [], ok_Stdout = [], ok_Stderr = [], ok_CheckExit = e\<rparr>"

section \<open>Summaries\<close>

text \<open>\<open>int64\<close> is the wrap-around of the 64-bit sum. \<open>xs ! i\<close> is used on indices inside the list only.\<close>

definition medianCheckMs :: "int list \<Rightarrow> int" where
  "medianCheckMs xs =
     (let mid = length xs div 2
      in if length xs mod 2 = 1 then xs ! mid
         else (let sum = int64 (xs ! (mid - 1) + xs ! mid);
                   median = sum sdiv 2
               in if sum smod 2 \<noteq> 0 \<and> 0 < sum then int64 (median + 1) else median))"

definition side_consistent :: "AttemptOutcome list \<Rightarrow> bool" where
  "side_consistent attempts = (case attempts of [] \<Rightarrow> True | first # others \<Rightarrow> list_all (\<lambda>a. key_equal (key first) (key a)) others)"

definition summary :: "encoder \<Rightarrow> VerifyOptions \<Rightarrow> Result list \<Rightarrow> SideSummary" where
  "summary enc opts results =
     (let attempts = map (verifyOutcomeOf enc) results;
          durations = List.map_filter ao_CheckMs attempts
      in \<lparr>ss_ConfigPath = vo_ConfigPath opts, ss_Session = (if vo_Session opts = [] then ''default'' else vo_Session opts),
          ss_Attempts = attempts,
          ss_MedianCheckMs = (if durations = [] then None else Some (medianCheckMs (sort durations))),
          ss_Consistent = side_consistent attempts\<rparr>)"

abbreviation baseline :: string where "baseline \<equiv> ''baseline''"
abbreviation candidate :: string where "candidate \<equiv> ''candidate''"

definition summaries :: "encoder \<Rightarrow> VerifyOptions \<Rightarrow> VerifyOptions \<Rightarrow> (string \<Rightarrow> Result list) \<Rightarrow> SideSummary gomap" where
  "summaries enc b k results = [(baseline, summary enc b (results baseline)), (candidate, summary enc k (results candidate))]"

section \<open>The verdict\<close>

definition captureDiffers :: "string \<Rightarrow> string \<Rightarrow> bool \<Rightarrow> bool" where
  "captureDiffers x y truncated =
     (if \<not> truncated then x \<noteq> y else (let n = min (length x) (length y) in take n x \<noteq> take n y))"

definition either_truncated :: "Result \<Rightarrow> Result \<Rightarrow> bool" where
  "either_truncated b k = (vk_OutputTruncated (rs_Check b) \<or> vk_OutputTruncated (rs_Check k))"

definition compared_fields :: "(Result \<Rightarrow> Result \<Rightarrow> bool) list" where
  "compared_fields =
     [\<lambda>b k. rs_Status b \<noteq> rs_Status k,
      \<lambda>b k. vk_Status (rs_Check b) \<noteq> vk_Status (rs_Check k),
      \<lambda>b k. \<not> key_equal (exit_key (vk_ExitCode (rs_Check b))) (exit_key (vk_ExitCode (rs_Check k))),
      \<lambda>b k. captureDiffers (vk_Stdout (rs_Check b)) (vk_Stdout (rs_Check k)) (either_truncated b k),
      \<lambda>b k. captureDiffers (vk_Stderr (rs_Check b)) (vk_Stderr (rs_Check k)) (either_truncated b k)]"

definition provenDifference :: "Result list \<Rightarrow> Result list \<Rightarrow> bool" where
  "provenDifference bs ks =
     list_ex (\<lambda>differs. bs \<noteq> [] \<and> ks \<noteq> [] \<and> list_all (\<lambda>b. list_all (differs b) ks) bs) compared_fields"

definition add_difference :: "string \<Rightarrow> observed \<Rightarrow> observed \<Rightarrow> bool \<Rightarrow> Difference list \<Rightarrow> Difference list" where
  "add_difference field x y same ds =
     (if same \<or> list_ex (\<lambda>d. df_Field d = field) ds then ds
      else ds @ [\<lparr>df_Field = field, df_Baseline = x, df_Candidate = y\<rparr>])"

definition pair_differences :: "AttemptOutcome \<times> AttemptOutcome \<Rightarrow> Difference list \<Rightarrow> Difference list" where
  "pair_differences = (\<lambda>(b, k) ds.
     add_difference ''check.stderr_sha256'' (OText (ao_StderrSHA256 b)) (OText (ao_StderrSHA256 k)) (ao_StderrSHA256 b = ao_StderrSHA256 k)
       (add_difference ''check.stdout_sha256'' (OText (ao_StdoutSHA256 b)) (OText (ao_StdoutSHA256 k)) (ao_StdoutSHA256 b = ao_StdoutSHA256 k)
         (add_difference ''check.exit_code'' (OExit (ao_CheckExitCode b)) (OExit (ao_CheckExitCode k))
            (key_equal (exit_key (ok_CheckExit (key b))) (exit_key (ok_CheckExit (key k))))
           (add_difference ''check.status'' (OText (ao_CheckStatus b)) (OText (ao_CheckStatus k)) (ao_CheckStatus b = ao_CheckStatus k)
             (add_difference ''status'' (OText (ao_Status b)) (OText (ao_Status k)) (ao_Status b = ao_Status k) ds)))))"

definition side_attempts :: "Comparison \<Rightarrow> string \<Rightarrow> AttemptOutcome list" where
  "side_attempts c side = (case gget (cp_Sides c) side of Some s \<Rightarrow> ss_Attempts s | None \<Rightarrow> [])"

definition consistent_side :: "Comparison \<Rightarrow> string \<Rightarrow> bool" where
  "consistent_side c side = (case gget (cp_Sides c) side of Some s \<Rightarrow> ss_Consistent s | None \<Rightarrow> False)"

definition judge :: "Result list \<Rightarrow> Result list \<Rightarrow> Comparison \<Rightarrow> Comparison" where
  "judge bs ks c =
     (let differences = fold pair_differences (zip (side_attempts c baseline) (side_attempts c candidate)) (cp_Differences c);
          inconsistent = (\<not> consistent_side c baseline \<or> \<not> consistent_side c candidate);
          truncated = list_ex ao_OutputTruncated (side_attempts c baseline @ side_attempts c candidate)
      in c\<lparr>cp_Differences := differences,
           cp_Limitations := cp_Limitations c @ (if inconsistent then [''nondeterministic_within_side''] else [])
             @ (if truncated then [''output_truncated''] else []),
           cp_OutcomesEqual := (if provenDifference bs ks then Some False
             else if inconsistent \<or> truncated then None
             else Some (differences = []))\<rparr>)"

section \<open>The runs\<close>

definition schedule :: "int \<Rightarrow> (nat \<times> string) list" where
  "schedule repeat = concat (map (\<lambda>i. if i mod 2 = 1 then [(i, candidate), (i, baseline)] else [(i, baseline), (i, candidate)]) [0..<nat repeat])"

definition side_options :: "nat \<Rightarrow> string \<Rightarrow> VerifyOptions \<Rightarrow> VerifyOptions" where
  "side_options i side opts = opts\<lparr>vo_ExtraEnv :=
     gput ''PROC_COMPOSE_COMPARE_REPETITION'' (Itoa (int i + 1)) (gput ''PROC_COMPOSE_COMPARE_SIDE'' side (vo_ExtraEnv opts))\<rparr>"

text \<open>How the loop ended: after every run, at an interruption, or at a result that is a usage error.\<close>

datatype runs_end = RunsDone | RunsInterrupted | RunsUsage Result

text \<open>The results come out with their side, in the order of the runs.\<close>

fun run_sides :: "(nat \<Rightarrow> verify_env) \<Rightarrow> (nat \<Rightarrow> bool) \<Rightarrow> (string \<Rightarrow> VerifyOptions) \<Rightarrow> nat \<Rightarrow> (nat \<times> string) list \<Rightarrow> verify_machine \<Rightarrow>
    (string \<times> Result) list \<times> runs_end \<times> verify_machine" where
  "run_sides envs canceled sides n [] m = ([], RunsDone, m)"
| "run_sides envs canceled sides n ((i, side) # runs) m =
     (case Run_attempt (envs n) (side_options i side (sides side)) m of
        (r, m1) \<Rightarrow>
          if rs_Status r = StatusInterrupted \<or> canceled n then ([(side, r)], RunsInterrupted, m1)
          else if rs_ExitCode r = ExitUsage then ([(side, r)], RunsUsage r, m1)
          else (case run_sides envs canceled sides (Suc n) runs m1 of
              (rs, end, m2) \<Rightarrow> ((side, r) # rs, end, m2)))"

definition side_results :: "(string \<times> Result) list \<Rightarrow> string \<Rightarrow> Result list" where
  "side_results runs side = map snd (filter (\<lambda>(s, r). s = side) runs)"

definition environment_codes :: "string list" where
  "environment_codes = [CodeEnvironmentIneligible, CodeEnvironmentUnverified]"

definition counted_codes :: "string list" where
  "counted_codes = [CodeCleanupUnverified, CodeReceiptPersistence, CodeStartupFailed, CodeStartupTimeout, CodeCheckStartFailed]"

definition comparable_result :: "Result \<Rightarrow> bool" where
  "comparable_result r =
     (\<not> (su_Status (rs_Startup r) \<noteq> StatusPassed \<or> vk_Status (rs_Check r) = StatusNotRun \<or>
        cl_Status (rs_Cleanup r) \<noteq> StatusPassed \<or> \<not> rs_ReceiptPersisted r) \<and>
      \<not> list_ex (\<lambda>e. er_Code e \<in> set environment_codes) (rs_Errors r))"

definition counted_errors :: "Result list \<Rightarrow> Errors" where
  "counted_errors rs = add_records (filter (\<lambda>e. er_Code e \<in> set (environment_codes @ counted_codes)) (concat (map rs_Errors rs))) []"

definition new_comparison :: Comparison where
  "new_comparison = \<lparr>cp_SchemaVersion = 1, cp_Kind = ''verify.comparison'', cp_Status = [], cp_ExitCode = 0, cp_OutcomesEqual = None,
     cp_Differences = [], cp_Sides = [], cp_Order = [],
     cp_Limitations = [''data_isolation_caller_asserted'', ''differences_not_attributed_to_code_change'',
       ''dependencies_and_build_inputs_not_controlled''],
     cp_Errors = []\<rparr>"

definition conclude_comparison :: "encoder \<Rightarrow> VerifyOptions \<Rightarrow> VerifyOptions \<Rightarrow> (string \<times> Result) list \<Rightarrow> runs_end \<Rightarrow> Comparison \<Rightarrow> Comparison" where
  "conclude_comparison enc b k runs end c0 =
     (let results = side_results runs;
          c = c0\<lparr>cp_Order := map fst runs, cp_Sides := summaries enc b k results\<rparr>;
          errs = counted_errors (results baseline @ results candidate)
      in case end of
           RunsUsage r \<Rightarrow> c\<lparr>cp_Status := ''not_comparable'', cp_ExitCode := ExitUsage, cp_Errors := Records (add_records (rs_Errors r) [])\<rparr>
         | RunsInterrupted \<Rightarrow> c\<lparr>cp_Status := StatusInterrupted, cp_ExitCode := ExitInterrupted, cp_Errors := Records (AddError CodeInterrupted errs)\<rparr>
         | RunsDone \<Rightarrow>
             if \<not> list_all comparable_result (results baseline @ results candidate)
             then c\<lparr>cp_Status := ''not_comparable'', cp_ExitCode := ExitFailed, cp_Errors := Records errs\<rparr>
             else judge (results baseline) (results candidate)
               (c\<lparr>cp_Status := ''comparable'', cp_ExitCode := ExitPassed, cp_Errors := Records errs\<rparr>))"

definition Compare :: "encoder \<Rightarrow> (nat \<Rightarrow> verify_env) \<Rightarrow> (nat \<Rightarrow> bool) \<Rightarrow> VerifyOptions \<Rightarrow> VerifyOptions \<Rightarrow> int \<Rightarrow> verify_machine \<Rightarrow>
    Comparison \<times> verify_machine" where
  "Compare enc envs canceled b k repeat m =
     (if repeat < 1 \<or> repeat > MaxCompareRepeat
      then (new_comparison\<lparr>cp_Status := ''not_comparable'', cp_ExitCode := ExitUsage, cp_Errors := one_error CodeUsage\<rparr>, m)
      else (let c = (if repeat = 1 then new_comparison\<lparr>cp_Limitations := cp_Limitations new_comparison @ [''single_run_per_side'']\<rparr> else new_comparison)
            in case run_sides envs canceled (\<lambda>side. if side = baseline then b else k) 0 (schedule repeat) m of
                 (runs, end, m1) \<Rightarrow> (conclude_comparison enc b k runs end c, m1)))"

section \<open>What a verdict proves\<close>

text \<open>
  \<open>full\<close> is what the check of a result really wrote on its two streams. A capture that is not truncated holds all
  of it, a truncated one a prefix of it.
\<close>

definition captured :: "(Result \<Rightarrow> string \<times> string) \<Rightarrow> Result \<Rightarrow> bool" where
  "captured full r =
     (let ck = rs_Check r
      in if vk_OutputTruncated ck then prefix (vk_Stdout ck) (fst (full r)) \<and> prefix (vk_Stderr ck) (snd (full r))
         else vk_Stdout ck = fst (full r) \<and> vk_Stderr ck = snd (full r))"

definition sides_differ :: "(Result \<Rightarrow> 'a) \<Rightarrow> Result list \<Rightarrow> Result list \<Rightarrow> bool" where
  "sides_differ f bs ks = (bs \<noteq> [] \<and> ks \<noteq> [] \<and> (\<forall>b \<in> set bs. \<forall>k \<in> set ks. f b \<noteq> f k))"

lemma captureDiffers_full:
  assumes "prefix x fx" "prefix y fy" "\<not> truncated \<Longrightarrow> x = fx \<and> y = fy" "captureDiffers x y truncated"
  shows "fx \<noteq> fy"
proof
  assume eq: "fx = fy"
  show False
  proof (cases truncated)
    case True
    from assms(1,2) obtain u v where "fx = x @ u" "fy = y @ v" by (auto simp: prefix_def)
    then have "take (min (length x) (length y)) x = take (min (length x) (length y)) y"
      using eq by (metis append_eq_append_conv_if min.cobounded1 min.cobounded2 min.commute min_def take_all take_append
          diff_is_0_eq take0 append_Nil2)
    then show False using assms(4) True by (simp add: captureDiffers_def Let_def)
  next
    case False
    then show False using assms(3,4) eq by (simp add: captureDiffers_def)
  qed
qed

lemma captured_prefixes:
  "captured full r \<Longrightarrow> prefix (vk_Stdout (rs_Check r)) (fst (full r)) \<and> prefix (vk_Stderr (rs_Check r)) (snd (full r))"
  by (auto simp: captured_def Let_def split: if_splits)

lemma captured_whole:
  "captured full r \<Longrightarrow> \<not> vk_OutputTruncated (rs_Check r) \<Longrightarrow> vk_Stdout (rs_Check r) = fst (full r) \<and> vk_Stderr (rs_Check r) = snd (full r)"
  by (auto simp: captured_def Let_def)

lemma captures_differ:
  assumes "captured full b" "captured full k"
  shows "captureDiffers (vk_Stdout (rs_Check b)) (vk_Stdout (rs_Check k)) (either_truncated b k) \<Longrightarrow> fst (full b) \<noteq> fst (full k)"
    and "captureDiffers (vk_Stderr (rs_Check b)) (vk_Stderr (rs_Check k)) (either_truncated b k) \<Longrightarrow> snd (full b) \<noteq> snd (full k)"
proof -
  note facts = captured_prefixes [OF assms(1)] captured_prefixes [OF assms(2)] captured_whole [OF assms(1)] captured_whole [OF assms(2)]
  show "fst (full b) \<noteq> fst (full k)" if "captureDiffers (vk_Stdout (rs_Check b)) (vk_Stdout (rs_Check k)) (either_truncated b k)"
    by (rule captureDiffers_full [OF _ _ _ that]) (use facts in \<open>simp_all add: either_truncated_def\<close>)
  show "snd (full b) \<noteq> snd (full k)" if "captureDiffers (vk_Stderr (rs_Check b)) (vk_Stderr (rs_Check k)) (either_truncated b k)"
    by (rule captureDiffers_full [OF _ _ _ that]) (use facts in \<open>simp_all add: either_truncated_def\<close>)
qed

lemma key_equal_exit [simp]: "key_equal (exit_key x) (exit_key y) \<longleftrightarrow> x = y"
  by (cases x; cases y) (simp_all add: key_equal_def exit_key_def)

lemma exit_key_inject [simp]: "exit_key x = exit_key y \<longleftrightarrow> x = y"
  by (simp add: exit_key_def)

lemma key_equal_iff [simp]: "key_equal k other \<longleftrightarrow> k = other"
  by (cases k; cases other; cases "ok_CheckExit k"; cases "ok_CheckExit other") (auto simp: key_equal_def)

lemma provenDifference_iff:
  "provenDifference bs ks \<longleftrightarrow> bs \<noteq> [] \<and> ks \<noteq> [] \<and> (\<exists>differs \<in> set compared_fields. \<forall>b \<in> set bs. \<forall>k \<in> set ks. differs b k)"
  by (auto simp: provenDifference_def list_all_iff list_ex_iff)

lemma provenDifference_full:
  assumes "\<forall>b \<in> set bs. captured full b" "\<forall>k \<in> set ks. captured full k" "provenDifference bs ks"
  shows "sides_differ rs_Status bs ks \<or> sides_differ (\<lambda>r. vk_Status (rs_Check r)) bs ks \<or>
    sides_differ (\<lambda>r. vk_ExitCode (rs_Check r)) bs ks \<or> sides_differ (\<lambda>r. fst (full r)) bs ks \<or>
    sides_differ (\<lambda>r. snd (full r)) bs ks"
proof -
  obtain differs where d: "differs \<in> set compared_fields" "\<forall>b \<in> set bs. \<forall>k \<in> set ks. differs b k" and ne: "bs \<noteq> []" "ks \<noteq> []"
    using assms(3) by (auto simp: provenDifference_iff)
  have "\<forall>b \<in> set bs. \<forall>k \<in> set ks. captured full b \<and> captured full k" using assms(1,2) by blast
  with d show ?thesis
    unfolding compared_fields_def set_simps insert_iff empty_iff
    by (elim disjE) (simp_all add: sides_differ_def ne captures_differ)
qed

lemma add_difference_Nil: "add_difference field x y same ds = [] \<longleftrightarrow> ds = [] \<and> same"
  by (auto simp: add_difference_def)

lemma pair_differences_Nil: "pair_differences (b, k) ds = [] \<longleftrightarrow> ds = [] \<and> key b = key k"
  by (auto simp: pair_differences_def add_difference_Nil key_def)

lemma differences_Nil: "fold pair_differences ps ds = [] \<longleftrightarrow> ds = [] \<and> list_all (\<lambda>(b, k). key b = key k) ps"
proof (induction ps arbitrary: ds)
  case (Cons p ps)
  then show ?case by (cases p) (auto simp: pair_differences_Nil)
qed simp

lemma side_consistent_iff: "side_consistent as \<longleftrightarrow> (\<forall>a \<in> set as. \<forall>a' \<in> set as. key a = key a')"
proof (cases as)
  case (Cons a others)
  then have "side_consistent as \<longleftrightarrow> (\<forall>a' \<in> set others. key a' = key a)" by (auto simp: side_consistent_def list_all_iff)
  then show ?thesis using Cons by (metis list.set_intros set_ConsD)
qed (simp add: side_consistent_def)

lemma key_outcome_differs:
  assumes "key (verifyOutcomeOf enc b) \<noteq> key (verifyOutcomeOf enc k)"
  shows "rs_Status b \<noteq> rs_Status k \<or> vk_Status (rs_Check b) \<noteq> vk_Status (rs_Check k) \<or>
    vk_ExitCode (rs_Check b) \<noteq> vk_ExitCode (rs_Check k) \<or>
    digest enc (vk_Stdout (rs_Check b)) \<noteq> digest enc (vk_Stdout (rs_Check k)) \<or>
    digest enc (vk_Stderr (rs_Check b)) \<noteq> digest enc (vk_Stderr (rs_Check k))"
  using assms by (auto simp: key_def verifyOutcomeOf_def Let_def)

lemma judge_summaries:
  assumes "cp_Sides c = summaries enc ob ok results"
  shows "side_attempts c baseline = map (verifyOutcomeOf enc) (results baseline)"
    "side_attempts c candidate = map (verifyOutcomeOf enc) (results candidate)"
    "consistent_side c baseline = side_consistent (map (verifyOutcomeOf enc) (results baseline))"
    "consistent_side c candidate = side_consistent (map (verifyOutcomeOf enc) (results candidate))"
  by (simp_all add: assms side_attempts_def consistent_side_def summaries_def summary_def Let_def)

definition same_side :: "encoder \<Rightarrow> Result list \<Rightarrow> bool" where
  "same_side enc rs \<longleftrightarrow> (\<forall>r \<in> set rs. \<forall>r' \<in> set rs. key (verifyOutcomeOf enc r) = key (verifyOutcomeOf enc r'))"

lemma outcome_key_iff:
  "key (verifyOutcomeOf enc b) = key (verifyOutcomeOf enc k) \<longleftrightarrow>
    rs_Status b = rs_Status k \<and> vk_Status (rs_Check b) = vk_Status (rs_Check k) \<and>
    vk_ExitCode (rs_Check b) = vk_ExitCode (rs_Check k) \<and>
    digest enc (vk_Stdout (rs_Check b)) = digest enc (vk_Stdout (rs_Check k)) \<and>
    digest enc (vk_Stderr (rs_Check b)) = digest enc (vk_Stderr (rs_Check k))"
  by (auto simp: key_def verifyOutcomeOf_def Let_def)

lemma field_agrees:
  assumes same: "same_side enc bs" "same_side enc ks"
    and unproven: "\<not> provenDifference bs ks"
    and b0: "b0 \<in> set bs" and k0: "k0 \<in> set ks"
    and differs: "differs \<in> set compared_fields" "\<And>b k. b \<in> set bs \<Longrightarrow> k \<in> set ks \<Longrightarrow> f b \<noteq> f k \<Longrightarrow> differs b k"
    and key: "\<And>b b'. key (verifyOutcomeOf enc b) = key (verifyOutcomeOf enc b') \<Longrightarrow> f b = f b'"
  shows "f b0 = f k0"
proof (rule ccontr)
  assume ne: "f b0 \<noteq> f k0"
  have "differs b k" if "b \<in> set bs" "k \<in> set ks" for b k
  proof (rule differs(2) [OF that])
    have "f b = f b0" "f k = f k0" using same that b0 k0 by (auto simp: same_side_def intro!: key)
    then show "f b \<noteq> f k" using ne by simp
  qed
  then have "provenDifference bs ks" using differs(1) b0 k0 by (auto simp: provenDifference_iff)
  then show False using unproven by simp
qed

lemma unproven_agree:
  assumes same: "same_side enc bs" "same_side enc ks"
    and whole: "\<forall>r \<in> set bs \<union> set ks. \<not> vk_OutputTruncated (rs_Check r)"
    and unproven: "\<not> provenDifference bs ks"
    and b0: "b0 \<in> set bs" and k0: "k0 \<in> set ks"
  shows "key (verifyOutcomeOf enc b0) = key (verifyOutcomeOf enc k0)"
proof -
  note rule = field_agrees [OF same unproven b0 k0]
  have full: "captureDiffers x y (either_truncated b k) \<longleftrightarrow> x \<noteq> y" if "b \<in> set bs" "k \<in> set ks" for b k x y
    using whole that by (simp add: captureDiffers_def either_truncated_def)
  have "rs_Status b0 = rs_Status k0"
    by (rule rule [of "\<lambda>b k. rs_Status b \<noteq> rs_Status k"]) (simp_all add: compared_fields_def outcome_key_iff)
  moreover have "vk_Status (rs_Check b0) = vk_Status (rs_Check k0)"
    by (rule rule [of "\<lambda>b k. vk_Status (rs_Check b) \<noteq> vk_Status (rs_Check k)"]) (simp_all add: compared_fields_def outcome_key_iff)
  moreover have "vk_ExitCode (rs_Check b0) = vk_ExitCode (rs_Check k0)"
    by (rule rule [of "\<lambda>b k. \<not> key_equal (exit_key (vk_ExitCode (rs_Check b))) (exit_key (vk_ExitCode (rs_Check k)))"])
      (simp_all add: compared_fields_def outcome_key_iff)
  moreover have "digest enc (vk_Stdout (rs_Check b0)) = digest enc (vk_Stdout (rs_Check k0))"
    by (rule rule [of "\<lambda>b k. captureDiffers (vk_Stdout (rs_Check b)) (vk_Stdout (rs_Check k)) (either_truncated b k)"])
      (auto simp: compared_fields_def outcome_key_iff full)
  moreover have "digest enc (vk_Stderr (rs_Check b0)) = digest enc (vk_Stderr (rs_Check k0))"
    by (rule rule [of "\<lambda>b k. captureDiffers (vk_Stderr (rs_Check b)) (vk_Stderr (rs_Check k)) (either_truncated b k)"])
      (auto simp: compared_fields_def outcome_key_iff full)
  ultimately show ?thesis by (simp add: outcome_key_iff)
qed

lemma judge_outcome:
  assumes "cp_Sides c = summaries enc ob ok results" "cp_Differences c = []"
  shows "cp_OutcomesEqual (judge (results baseline) (results candidate) c) =
    (if provenDifference (results baseline) (results candidate) then Some False
     else if same_side enc (results baseline) \<and> same_side enc (results candidate) \<and>
       (\<forall>r \<in> set (results baseline) \<union> set (results candidate). \<not> vk_OutputTruncated (rs_Check r)) then Some True
     else None)"
proof -
  let ?b = "results baseline" and ?k = "results candidate"
  have consistent: "side_consistent (map (verifyOutcomeOf enc) rs) = same_side enc rs" for rs
    by (simp add: side_consistent_iff same_side_def)
  have truncated: "list_ex ao_OutputTruncated (map (verifyOutcomeOf enc) rs) \<longleftrightarrow> (\<exists>r \<in> set rs. vk_OutputTruncated (rs_Check r))" for rs
    by (auto simp: list_ex_iff verifyOutcomeOf_def Let_def)
  have "fold pair_differences (zip (map (verifyOutcomeOf enc) ?b) (map (verifyOutcomeOf enc) ?k)) [] = []"
    if "same_side enc ?b" "same_side enc ?k" "\<forall>r \<in> set ?b \<union> set ?k. \<not> vk_OutputTruncated (rs_Check r)" "\<not> provenDifference ?b ?k"
    using unproven_agree [OF that] by (auto simp: differences_Nil list_all_iff zip_map_map dest: set_zip_leftD set_zip_rightD)
  note agree = this
  have outcome: "cp_OutcomesEqual (judge ?b ?k c) =
    (if provenDifference ?b ?k then Some False
     else if (\<not> same_side enc ?b \<or> \<not> same_side enc ?k) \<or>
       (\<exists>r \<in> set ?b. vk_OutputTruncated (rs_Check r)) \<or> (\<exists>r \<in> set ?k. vk_OutputTruncated (rs_Check r)) then None
     else Some (fold pair_differences (zip (map (verifyOutcomeOf enc) ?b) (map (verifyOutcomeOf enc) ?k)) [] = []))"
    by (simp add: judge_def Let_def judge_summaries [OF assms(1)] consistent truncated assms(2))
  show ?thesis
  proof (cases "same_side enc ?b \<and> same_side enc ?k \<and> (\<forall>r \<in> set ?b \<union> set ?k. \<not> vk_OutputTruncated (rs_Check r)) \<and> \<not> provenDifference ?b ?k")
    case True
    then show ?thesis using agree unfolding outcome by (simp add: ball_Un)
  next
    case False
    then show ?thesis unfolding outcome
      by (cases "provenDifference ?b ?k"; cases "same_side enc ?b \<and> same_side enc ?k") (simp_all add: ball_Un)
  qed
qed

lemma concluded_outcome:
  assumes "cp_OutcomesEqual c = None" "cp_Differences c = []"
  shows "cp_OutcomesEqual (conclude_comparison enc b k runs end c) =
    (let bs = side_results runs baseline; ks = side_results runs candidate
     in if end \<noteq> RunsDone \<or> \<not> list_all comparable_result (bs @ ks) then None
        else if provenDifference bs ks then Some False
        else if same_side enc bs \<and> same_side enc ks \<and> (\<forall>r \<in> set bs \<union> set ks. \<not> vk_OutputTruncated (rs_Check r)) then Some True
        else None)"
proof (cases "end")
  case RunsDone
  show ?thesis
  proof (cases "list_all comparable_result (side_results runs baseline @ side_results runs candidate)")
    case True
    then show ?thesis
      using RunsDone assms judge_outcome [of "c\<lparr>cp_Order := map fst runs, cp_Sides := summaries enc b k (side_results runs),
          cp_Status := ''comparable'', cp_ExitCode := ExitPassed,
          cp_Errors := Records (counted_errors (side_results runs baseline @ side_results runs candidate))\<rparr>" enc b k "side_results runs"]
      by (simp add: conclude_comparison_def Let_def)
  next
    case False
    then show ?thesis using RunsDone assms by (simp add: conclude_comparison_def Let_def)
  qed
qed (simp_all add: conclude_comparison_def Let_def assms)

text \<open>A passed attempt with an output, and an encoder whose digest is the text.\<close>

definition printed :: "string \<Rightarrow> bool \<Rightarrow> Result" where
  "printed output short = example_receipt\<lparr>rs_Check := (rs_Check example_receipt)\<lparr>vk_Stdout := output, vk_OutputTruncated := short,
     vk_StartedAt := Some 0, vk_FinishedAt := Some 3000000\<rparr>\<rparr>"

definition plain_encoder :: encoder where
  "plain_encoder = \<lparr>js_result = \<lambda>r. None, js_compact = \<lambda>c. None, js_argv = concat, js_selection = \<lambda>ps es os. None, sha256 = \<lambda>d. d\<rparr>"

definition side_named :: "string \<Rightarrow> VerifyOptions" where
  "side_named name = \<lparr>vo_ConfigPath = name, vo_Session = name, vo_Hash = [], vo_Selectors = [], vo_Argv = [''true''], vo_Dir = [],
     vo_StartupTimeout = Second, vo_CheckTimeout = Second, vo_CleanupTimeout = 30 * Second, vo_ToolVersion = [], vo_ExtraEnv = [],
     vo_RequireEnvironment = False\<rparr>"

lemma printed_simps [simp]:
  "rs_Status (printed output short) = StatusPassed" "vk_Status (rs_Check (printed output short)) = StatusPassed"
  "vk_ExitCode (rs_Check (printed output short)) = Some 0" "vk_Stdout (rs_Check (printed output short)) = output"
  "vk_Stderr (rs_Check (printed output short)) = []" "vk_OutputTruncated (rs_Check (printed output short)) = short"
  "comparable_result (printed output short)"
  by (simp_all add: printed_def example_receipt_def comparable_result_def)

lemma side_results_simps [simp]:
  "side_results [] side = []" "side_results ((s, r) # runs) side = (if s = side then r # side_results runs side else side_results runs side)"
  by (simp_all add: side_results_def)

lemma new_comparison_simps [simp]: "cp_OutcomesEqual new_comparison = None" "cp_Differences new_comparison = []"
  by (simp_all add: new_comparison_def)

lemma example_different:
  "cp_OutcomesEqual (conclude_comparison enc b k [(baseline, printed ''ab'' False), (candidate, printed ''cde'' True)] RunsDone new_comparison) = Some False"
  by (simp add: concluded_outcome provenDifference_iff compared_fields_def captureDiffers_def)

lemma example_equal:
  "cp_OutcomesEqual (conclude_comparison enc b k [(baseline, printed ''ab'' False), (candidate, printed ''ab'' False)] RunsDone new_comparison) = Some True"
  by (simp add: concluded_outcome provenDifference_iff compared_fields_def captureDiffers_def same_side_def)

text \<open>
  C12. A verdict that the environments differ is proven: some status, exit code or stream was different in every
  attempt of the one side and in every attempt of the other. For a stream that is said of what the check wrote,
  not of what was kept of it: captures of which one is cut short, or emptied by the size limit, decide only by
  bytes that both hold.
\<close>

theorem different_only_if_proven:
  assumes "\<forall>r \<in> snd ` set runs. captured full r" "cp_OutcomesEqual c = None" "cp_Differences c = []"
    and "cp_OutcomesEqual (conclude_comparison enc b k runs end c) = Some False"
  shows "sides_differ rs_Status (side_results runs baseline) (side_results runs candidate) \<or>
    sides_differ (\<lambda>r. vk_Status (rs_Check r)) (side_results runs baseline) (side_results runs candidate) \<or>
    sides_differ (\<lambda>r. vk_ExitCode (rs_Check r)) (side_results runs baseline) (side_results runs candidate) \<or>
    sides_differ (\<lambda>r. fst (full r)) (side_results runs baseline) (side_results runs candidate) \<or>
    sides_differ (\<lambda>r. snd (full r)) (side_results runs baseline) (side_results runs candidate)"
proof (rule provenDifference_full)
  show "provenDifference (side_results runs baseline) (side_results runs candidate)"
    using assms(4) by (simp add: concluded_outcome [OF assms(2,3)] Let_def split: if_split_asm)
qed (use assms(1) in \<open>auto simp: side_results_def\<close>)

lemma different_only_if_proven_witness:
  "sides_differ (\<lambda>r. vk_Stdout (rs_Check r)) [printed ''ab'' False] [printed ''cde'' True]"
  using different_only_if_proven [OF _ _ _ example_different [of plain_encoder "side_named ''a''" "side_named ''b''"],
      of "\<lambda>r. (vk_Stdout (rs_Check r), [])"]
  by (simp add: captured_def Let_def sides_differ_def)

text \<open>
  C30. A verdict that the environments agree covers everything that was observed: no capture was cut short, and
  every attempt of the one side has the status, check status and exit code of every attempt of the other, and
  the digests of the two full streams.
\<close>

theorem equal_only_if_all_agree:
  assumes "\<forall>r \<in> snd ` set runs. captured full r" "cp_OutcomesEqual c = None" "cp_Differences c = []"
    and "cp_OutcomesEqual (conclude_comparison enc b k runs end c) = Some True"
    and "(baseline, r) \<in> set runs" "(candidate, r') \<in> set runs"
  shows "rs_Status r = rs_Status r' \<and> vk_Status (rs_Check r) = vk_Status (rs_Check r') \<and>
    vk_ExitCode (rs_Check r) = vk_ExitCode (rs_Check r') \<and>
    digest enc (fst (full r)) = digest enc (fst (full r')) \<and> digest enc (snd (full r)) = digest enc (snd (full r')) \<and>
    comparable_result r \<and> comparable_result r'"
proof -
  let ?b = "side_results runs baseline" and ?k = "side_results runs candidate"
  have known: "r \<in> set ?b" "r' \<in> set ?k" using assms(5,6) by (force simp: side_results_def)+
  have facts: "list_all comparable_result (?b @ ?k)" "same_side enc ?b" "same_side enc ?k" "\<not> provenDifference ?b ?k"
    "\<forall>r \<in> set ?b \<union> set ?k. \<not> vk_OutputTruncated (rs_Check r)"
    using assms(4) by (simp_all add: concluded_outcome [OF assms(2,3)] Let_def split: if_split_asm)
  have "key (verifyOutcomeOf enc r) = key (verifyOutcomeOf enc r')"
    by (rule unproven_agree [OF facts(2,3,5,4) known])
  moreover have "vk_Stdout (rs_Check x) = fst (full x) \<and> vk_Stderr (rs_Check x) = snd (full x)" if "x \<in> set ?b \<union> set ?k" for x
    using that assms(1) facts(5) by (intro captured_whole) (auto simp: side_results_def)
  ultimately show ?thesis
    using known facts(1) by (simp add: outcome_key_iff list_all_iff)
qed

lemma equal_only_if_all_agree_witness:
  "digest plain_encoder (vk_Stdout (rs_Check (printed ''ab'' False))) = digest plain_encoder ''ab'' \<and> comparable_result (printed ''ab'' False)"
  using equal_only_if_all_agree [OF _ _ _ example_equal [of plain_encoder "side_named ''a''" "side_named ''b''"],
      of "\<lambda>r. (vk_Stdout (rs_Check r), [])" "printed ''ab'' False" "printed ''ab'' False"]
  by (simp add: captured_def Let_def)

section \<open>The median\<close>

lemma int64_id: "int64_ok i \<Longrightarrow> int64 i = i"
  by (simp add: int64_def int64_ok_def)

lemma Milliseconds_bound: "\<bar>Milliseconds (sub_time later earlier)\<bar> \<le> 9223372036854"
proof -
  have sub: "\<bar>sub_time later earlier\<bar> \<le> 9223372036854775808" by (simp add: sub_time_def)
  have "\<bar>Milliseconds (sub_time later earlier)\<bar> \<le> \<bar>sub_time later earlier\<bar> div 1000000"
    by (simp add: Milliseconds_def signed_divide_int_def abs_mult abs_sgn_eq)
  also have "\<dots> \<le> 9223372036854775808 div 1000000" using sub by (rule zdiv_mono1) simp
  finally show ?thesis by simp
qed

lemma CheckMs_bound: "ao_CheckMs (verifyOutcomeOf enc r) = Some ms \<Longrightarrow> \<bar>ms\<bar> \<le> 9223372036854"
  using Milliseconds_bound by (auto simp: verifyOutcomeOf_def Let_def split: option.splits)

lemma rounded_half: "(if s smod 2 \<noteq> 0 \<and> 0 < s then s sdiv 2 + 1 else s sdiv 2) = (s + 1) div 2" for s :: int
proof (cases "0 < s")
  case True
  then show ?thesis by (simp add: signed_divide_int_def signed_modulo_int_def) presburger
next
  case False
  then have "s sdiv 2 = - ((- s) div 2)" by (cases "s = 0") (simp_all add: signed_divide_int_def)
  also have "\<dots> = (s + 1) div 2" by presburger
  finally show ?thesis using False by simp
qed

lemma half_sum_ok:
  assumes "\<bar>x\<bar> \<le> 9223372036854" "\<bar>y\<bar> \<le> 9223372036854"
  shows "int64_ok ((x + y) sdiv 2 + 1)"
proof -
  have "\<bar>(x + y) sdiv 2\<bar> = \<bar>x + y\<bar> div 2 \<or> (x + y) sdiv 2 = 0" by (simp add: signed_divide_int_def abs_mult abs_sgn_eq)
  moreover have "\<bar>x + y\<bar> div 2 \<le> 18446744073708 div 2" using assms by (intro zdiv_mono1) linarith+
  ultimately have "\<bar>(x + y) sdiv 2\<bar> \<le> 9223372036854" by auto
  then have "- 9223372036854 \<le> (x + y) sdiv 2" "(x + y) sdiv 2 \<le> 9223372036854" by linarith+
  then show ?thesis by (simp add: int64_ok_def)
qed

lemma rounded_mean:
  assumes "\<bar>x\<bar> \<le> 9223372036854" "\<bar>y\<bar> \<le> 9223372036854"
  shows "(if int64 (x + y) smod 2 \<noteq> 0 \<and> 0 < int64 (x + y) then int64 (int64 (x + y) sdiv 2 + 1) else int64 (x + y) sdiv 2) = (x + y + 1) div 2"
proof -
  have "int64_ok (x + y)" using assms by (auto simp: int64_ok_def)
  then have "int64 (x + y) = x + y" by (rule int64_id)
  moreover have "int64 ((x + y) sdiv 2 + 1) = (x + y) sdiv 2 + 1" by (rule int64_id) (rule half_sum_ok [OF assms])
  ultimately show ?thesis using rounded_half [of "x + y"] by (simp only:)
qed

lemma median_of_small:
  assumes "\<forall>d \<in> set ds. \<bar>d\<bar> \<le> 9223372036854" "ds \<noteq> []" "even (length ds)"
  shows "medianCheckMs ds = (ds ! (length ds div 2 - 1) + ds ! (length ds div 2) + 1) div 2"
proof -
  let ?x = "ds ! (length ds div 2 - 1)" and ?y = "ds ! (length ds div 2)"
  have "length ds div 2 < length ds" using assms(2) by (cases ds) auto
  then have "?x \<in> set ds" "?y \<in> set ds" by (intro nth_mem; simp)+
  then have "\<bar>?x\<bar> \<le> 9223372036854" "\<bar>?y\<bar> \<le> 9223372036854" using assms(1) by blast+
  from rounded_mean [OF this] show ?thesis
    using assms(3) unfolding medianCheckMs_def Let_def even_iff_mod_2_eq_zero by (simp only: zero_neq_one if_False)
qed

lemma durations_bound: "\<forall>d \<in> set (List.map_filter ao_CheckMs (map (verifyOutcomeOf enc) rs)). \<bar>d\<bar> \<le> 9223372036854"
  using CheckMs_bound by (auto simp: List.map_filter_def)

lemma sort_Nil: "sort xs = [] \<longleftrightarrow> xs = []" for xs :: "int list"
  by (metis set_empty set_sort)

text \<open>
  The median check duration of a side is the exact median of its measured durations: the middle one, or the
  mean of the two middle ones rounded half up. The sum of the two, taken in 64 bits, never wraps, since a
  duration in milliseconds comes from a saturated difference of nanoseconds.
\<close>

theorem median_is_exact:
  "ss_MedianCheckMs (summary enc opts rs) =
     (let ds = sort (List.map_filter ao_CheckMs (map (verifyOutcomeOf enc) rs)); n = length ds
      in if n = 0 then None
         else Some (if odd n then ds ! (n div 2) else (ds ! (n div 2 - 1) + ds ! (n div 2) + 1) div 2))"
proof -
  define xs where "xs = List.map_filter ao_CheckMs (map (verifyOutcomeOf enc) rs)"
  have bound: "\<forall>d \<in> set (sort xs). \<bar>d\<bar> \<le> 9223372036854" using durations_bound by (simp add: xs_def)
  have "medianCheckMs (sort xs) = (if odd (length xs) then sort xs ! (length xs div 2)
      else (sort xs ! (length xs div 2 - 1) + sort xs ! (length xs div 2) + 1) div 2)" if "xs \<noteq> []"
  proof (cases "odd (length xs)")
    case True
    then show ?thesis by (simp add: medianCheckMs_def odd_iff_mod_2_eq_one Let_def)
  next
    case False
    then show ?thesis using that bound median_of_small [of "sort xs"] by (simp add: sort_Nil)
  qed
  then show ?thesis
    by (cases "xs = []") (simp_all add: summary_def Let_def sort_Nil flip: xs_def)
qed

end
