(* ===== verification/Verify_Diagnose.thy ===== *)
theory Verify_Diagnose
  imports Verify_Operation
begin

text \<open>
  The diagnosis of one attempt (\<^verbatim>\<open>internal/verify/diagnose.go\<close>): the scan of the journal, page by page, the history of
  each process, and the report. The journal is read with \<open>Query\<close>; the looks of the scan and of the reader are
  numbered together, so a rotation may fall anywhere between them.
\<close>

section \<open>Data\<close>

abbreviation maxDiagnosisEvents :: nat where "maxDiagnosisEvents \<equiv> 20000"
abbreviation maxGroupsPerProcess :: nat where "maxGroupsPerProcess \<equiv> 20"
abbreviation maxTransitionsPerGen :: nat where "maxTransitionsPerGen \<equiv> 20"
abbreviation maxDiagnosisLine :: nat where "maxDiagnosisLine \<equiv> 512"

record Transition =
  tn_EventID :: string
  tn_Generation :: "64 word"
  tn_State :: run_state
  tn_Ready :: bool
  tn_LastError :: string
  tn_ExitCode :: "int option"
  tn_At :: int

record OutputGroup =
  og_Generation :: "64 word"
  og_Stream :: string
  og_Level :: string
  og_Code :: string
  og_Message :: string
  og_Count :: nat
  og_FirstID :: string
  og_LastID :: string

record ProcessHistory =
  ph_Name :: string
  ph_Generations :: "64 word list"
  ph_DependsOn :: "string list"
  ph_Transitions :: "Transition list"
  ph_Output :: "OutputGroup list"
  ph_Truncated :: bool

record Diagnosis =
  dg_SchemaVersion :: int
  dg_Kind :: string
  dg_AttemptID :: string
  dg_AttemptState :: string
  dg_Status :: string
  dg_RunID :: "string option"
  dg_Phases :: "string gomap"
  dg_Errors :: "ErrorRecord list"
  dg_Boundary :: string
  dg_Processes :: "ProcessHistory list"
  dg_Check :: VerifyCheck
  dg_Journal :: "string option"
  dg_EventsScanned :: nat
  dg_Gap :: bool
  dg_Truncated :: bool
  dg_HistoryMissing :: bool
  dg_Limitations :: "string list"

section \<open>Histories\<close>

definition new_history :: "string \<Rightarrow> ProcessHistory" where
  "new_history name = \<lparr>ph_Name = name, ph_Generations = [], ph_DependsOn = [], ph_Transitions = [], ph_Output = [], ph_Truncated = False\<rparr>"

definition note_generation :: "64 word \<Rightarrow> ProcessHistory \<Rightarrow> ProcessHistory" where
  "note_generation g h =
     (if g \<noteq> 0 \<and> (ph_Generations h = [] \<or> List.last (ph_Generations h) \<noteq> g)
      then h\<lparr>ph_Generations := ph_Generations h @ [g]\<rparr> else h)"

definition transition_of :: "LogEntry \<Rightarrow> ipcProcState \<Rightarrow> Transition" where
  "transition_of e s = \<lparr>tn_EventID = le_ID e, tn_Generation = ip_Generation s, tn_State = ip_State s, tn_Ready = ip_Ready s,
     tn_LastError = ip_LastError s, tn_ExitCode = ip_ExitCode s, tn_At = le_Time e\<rparr>"

definition add_transition :: "LogEntry \<Rightarrow> ipcProcState \<Rightarrow> ProcessHistory \<Rightarrow> ProcessHistory" where
  "add_transition e s h =
     (let h1 = h\<lparr>ph_DependsOn := (if ip_DependsOn s \<noteq> [] then ip_DependsOn s else ph_DependsOn h),
                 ph_Transitions := ph_Transitions h @ [transition_of e s]\<rparr>
      in if length (ph_Transitions h1) > maxTransitionsPerGen * max 1 (length (ph_Generations h1))
         then h1\<lparr>ph_Transitions := tl (ph_Transitions h1), ph_Truncated := True\<rparr> else h1)"

definition same_output :: "LogEntry \<Rightarrow> string \<Rightarrow> OutputGroup \<Rightarrow> bool" where
  "same_output e message g =
     (og_Generation g = le_Generation e \<and> og_Stream g = le_Stream e \<and> og_Message g = message \<and> og_Code g = le_Code e)"

definition add_output :: "LogEntry \<Rightarrow> ProcessHistory \<Rightarrow> ProcessHistory" where
  "add_output e h =
     (let message = truncateUTF8 (le_Line e) maxDiagnosisLine; out = ph_Output h
      in if out \<noteq> [] \<and> same_output e message (List.last out)
         then h\<lparr>ph_Output := butlast out @ [(List.last out)\<lparr>og_Count := og_Count (List.last out) + 1, og_LastID := le_ID e\<rparr>]\<rparr>
         else (let h1 = h\<lparr>ph_Output := out @ [\<lparr>og_Generation = le_Generation e, og_Stream = le_Stream e, og_Level = le_Level e,
                 og_Code = le_Code e, og_Message = message, og_Count = 1, og_FirstID = le_ID e, og_LastID = le_ID e\<rparr>]\<rparr>
               in if length (ph_Output h1) > maxGroupsPerProcess
                  then h1\<lparr>ph_Output := tl (ph_Output h1), ph_Truncated := True\<rparr> else h1))"

text \<open>The histories by name; a new name comes last, so the keys are the names in their first order.\<close>

definition note_event :: "LogEntry \<Rightarrow> ProcessHistory gomap \<Rightarrow> ProcessHistory gomap" where
  "note_event e hs =
     (if le_Process e = [] \<or> le_Process e = ''proc-compose'' then hs
      else (let h = note_generation (le_Generation e) (the_default (new_history (le_Process e)) (gget hs (le_Process e)))
            in case le_State e of
                 Some s \<Rightarrow> gput (le_Process e) (add_transition e s h) hs
               | None \<Rightarrow> gput (le_Process e) (if le_Level e = ''debug'' then h else add_output e h) hs))"

fun include_dep :: "nat \<Rightarrow> ProcessHistory gomap \<Rightarrow> string \<Rightarrow> string list \<Rightarrow> string list"
  and include_names :: "nat \<Rightarrow> ProcessHistory gomap \<Rightarrow> string list \<Rightarrow> string list \<Rightarrow> string list" where
  "include_dep 0 hs name inc = inc"
| "include_dep (Suc fuel) hs name inc =
     (if name \<in> set inc then inc
      else case gget hs name of
          Some h \<Rightarrow> include_names fuel hs (ph_DependsOn h) (name # inc)
        | None \<Rightarrow> name # inc)"
| "include_names fuel hs [] inc = inc"
| "include_names fuel hs (d # ds) inc = include_names fuel hs ds (include_dep fuel hs d inc)"

definition included :: "ProcessHistory gomap \<Rightarrow> string list \<Rightarrow> string list" where
  "included hs filt = include_names (length hs + 2) hs filt []"

definition histories :: "LogEntry list \<Rightarrow> string list \<Rightarrow> ProcessHistory list" where
  "histories events filt =
     (let hs = fold note_event events []
      in sort_key ph_Name (map snd (filter (\<lambda>(name, h). filt = [] \<or> name \<in> set (included hs filt)) hs)))"

section \<open>The scan\<close>

text \<open>
  The events, whether there is a gap, whether the limit cut them, and the error. The loop has no bound of its
  own; \<open>None\<close> is a scan that did not end within the fuel.
\<close>

type_synonym scan_outcome = "LogEntry list \<times> bool \<times> bool \<times> query_error option"

fun scan_pages :: "nat \<Rightarrow> codec \<Rightarrow> (nat \<Rightarrow> string \<Rightarrow> look) \<Rightarrow> string \<Rightarrow> LogOptions \<Rightarrow> LogEntry list \<Rightarrow> bool \<Rightarrow> nat \<Rightarrow> (scan_outcome \<times> nat) option" where
  "scan_pages 0 cd fs path opts out gap t = None"
| "scan_pages (Suc fuel) cd fs path opts out gap t =
     (case Query cd fs path opts t of
        (Inl e, t1) \<Rightarrow> Some ((out, gap, False, Some e), t1)
      | (Inr page, t1) \<Rightarrow>
          (let gap1 = gap \<or> pg_Gap page; out1 = out @ pg_Events page
           in if length out1 \<ge> maxDiagnosisEvents then Some ((take maxDiagnosisEvents out1, gap1, True, None), t1)
              else if \<not> pg_HasMore page \<or> pg_NextCursor page = [] \<or> pg_NextCursor page = lo_After opts
              then Some ((out1, gap1, False, None), t1)
              else scan_pages fuel cd fs path (opts\<lparr>lo_After := pg_NextCursor page\<rparr>) out1 gap1 t1))"

definition scan_options :: "LogOptions \<Rightarrow> LogOptions" where
  "scan_options opts = opts\<lparr>lo_Limit := 1000, lo_MaxBytes := 1048576, lo_After := ''start''\<rparr>"

text \<open>A failed \<^verbatim>\<open>Stat\<close> other than for absence is left to the reader.\<close>

definition scanAttempt :: "nat \<Rightarrow> codec \<Rightarrow> (nat \<Rightarrow> string \<Rightarrow> look) \<Rightarrow> string \<Rightarrow> LogOptions \<Rightarrow> nat \<Rightarrow> (scan_outcome \<times> nat) option" where
  "scanAttempt fuel cd fs path opts t =
     (if fs t path = LookAbsent then Some (([], False, False, Some JournalMissing), t + 1)
      else scan_pages fuel cd fs path (scan_options opts) [] False (t + 1))"

section \<open>The diagnosis\<close>

definition new_diagnosis :: "Result \<Rightarrow> string \<Rightarrow> Diagnosis" where
  "new_diagnosis r state =
     \<lparr>dg_SchemaVersion = 1, dg_Kind = ''verify.diagnosis'', dg_AttemptID = the_default [] (rs_AttemptID r), dg_AttemptState = state,
      dg_Status = rs_Status r, dg_RunID = rs_RunID r,
      dg_Phases = [(''validation'', su_Validation (rs_Startup r)), (''startup'', su_Status (rs_Startup r)),
        (''check'', vk_Status (rs_Check r)), (''cleanup'', cl_Status (rs_Cleanup r))]
        @ (if ve_Status (rs_Environment r) \<noteq> [] then [(''environment'', ve_Status (rs_Environment r))] else []),
      dg_Errors = rs_Errors r, dg_Boundary = ''unavailable'', dg_Processes = [], dg_Check = rs_Check r,
      dg_Journal = ev_Journal (rs_Evidence r), dg_EventsScanned = 0, dg_Gap = False, dg_Truncated = False, dg_HistoryMissing = False,
      dg_Limitations = ''temporal_association_not_causation'' # (if state \<noteq> StateCompleted then [''attempt_not_terminal''] else [])\<rparr>"

definition Journal :: "Result \<Rightarrow> string" where
  "Journal r = the_default [] (ev_Journal (rs_Evidence r))"

definition limit_note :: "string \<Rightarrow> Diagnosis \<Rightarrow> Diagnosis" where
  "limit_note l d = d\<lparr>dg_Limitations := dg_Limitations d @ [l]\<rparr>"

definition missing_history :: "string \<Rightarrow> Diagnosis \<Rightarrow> Diagnosis" where
  "missing_history l d = limit_note l (d\<lparr>dg_HistoryMissing := True\<rparr>)"

text \<open>The scan of the attempt with its boundary: of the run, when there is no attempt identifier or none of its events.\<close>

definition scan_boundary :: "nat \<Rightarrow> codec \<Rightarrow> (nat \<Rightarrow> string \<Rightarrow> look) \<Rightarrow> Result \<Rightarrow> string \<Rightarrow> nat \<Rightarrow> Diagnosis \<Rightarrow> (scan_outcome \<times> Diagnosis) option" where
  "scan_boundary fuel cd fs r runID t d =
     (if dg_AttemptID d = []
      then map_option (\<lambda>(s, t1). (s, limit_note ''attempt_boundary_unavailable'' (d\<lparr>dg_Boundary := ''run_id''\<rparr>)))
             (scanAttempt fuel cd fs (Journal r) (no_options\<lparr>lo_RunID := runID\<rparr>) t)
      else case scanAttempt fuel cd fs (Journal r) (no_options\<lparr>lo_AttemptID := dg_AttemptID d\<rparr>) t of
          None \<Rightarrow> None
        | Some ((events, gap, truncated, err), t1) \<Rightarrow>
            if err = None \<and> events = []
            then map_option (\<lambda>(s, t2). (s, limit_note ''attempt_boundary_inferred_from_run'' (d\<lparr>dg_Boundary := ''run_id''\<rparr>)))
                   (scanAttempt fuel cd fs (Journal r) (no_options\<lparr>lo_RunID := runID\<rparr>) t1)
            else Some ((events, gap, truncated, err), d\<lparr>dg_Boundary := ''attempt_id''\<rparr>))"

definition report_events :: "Result \<Rightarrow> string list \<Rightarrow> LogEntry list \<Rightarrow> bool \<Rightarrow> bool \<Rightarrow> Diagnosis \<Rightarrow> Diagnosis" where
  "report_events r processes events gap truncated d =
     (let g = (gap \<or> ev_Gap (rs_Evidence r));
          d1 = d\<lparr>dg_EventsScanned := length events, dg_Gap := g, dg_Truncated := truncated\<rparr>;
          d2 = (if g then limit_note ''journal_gap'' d1 else d1);
          d3 = (case ev_FirstCursor (rs_Evidence r) of
              Some first \<Rightarrow> if le_ID (hd events) \<noteq> first then missing_history ''earliest_events_rotated'' d2 else d2
            | None \<Rightarrow> d2);
          hs = histories events processes
      in d3\<lparr>dg_Processes := hs, dg_Truncated := dg_Truncated d3 \<or> list_ex ph_Truncated hs\<rparr>)"

definition Diagnose :: "nat \<Rightarrow> codec \<Rightarrow> (nat \<Rightarrow> string \<Rightarrow> look) \<Rightarrow> nat \<Rightarrow> Result \<Rightarrow> string \<Rightarrow> string list \<Rightarrow> Diagnosis option" where
  "Diagnose fuel cd fs t r state processes =
     (let d = new_diagnosis r state
      in if Journal r = [] \<or> rs_RunID r = None \<or> rs_RunID r = Some [] then Some (missing_history ''journal_unavailable'' d)
         else case scan_boundary fuel cd fs r (the (rs_RunID r)) t d of
             None \<Rightarrow> None
           | Some ((events, gap, truncated, err), d1) \<Rightarrow>
               if err \<noteq> None \<or> events = []
               then Some (missing_history ''history_rotated_or_removed'' (d1\<lparr>dg_Boundary := ''unavailable''\<rparr>))
               else Some (report_events r processes events gap truncated d1))"

section \<open>The processes a filter includes\<close>

definition depends_on :: "ProcessHistory gomap \<Rightarrow> string \<Rightarrow> string \<Rightarrow> bool" where
  "depends_on hs a b = (\<exists>h. gget hs a = Some h \<and> b \<in> set (ph_DependsOn h))"

definition unvisited :: "ProcessHistory gomap \<Rightarrow> string list \<Rightarrow> nat" where
  "unvisited hs inc = card (set (gokeys hs) - set inc)"

definition visited_well :: "ProcessHistory gomap \<Rightarrow> string set \<Rightarrow> string list \<Rightarrow> string list \<Rightarrow> bool" where
  "visited_well hs roots inc inc' =
     (set inc \<subseteq> set inc' \<and> roots \<subseteq> set inc' \<and>
      (\<forall>m \<in> set inc' - set inc. \<exists>r \<in> roots. (depends_on hs)\<^sup>*\<^sup>* r m) \<and>
      (\<forall>m \<in> set inc' - set inc. \<forall>d. depends_on hs m d \<longrightarrow> d \<in> set inc'))"

lemma unvisited_mono: "set inc \<subseteq> set inc' \<Longrightarrow> unvisited hs inc' \<le> unvisited hs inc"
  unfolding unvisited_def by (intro card_mono) auto

lemma unvisited_less: "gget hs name = Some h \<Longrightarrow> name \<notin> set inc \<Longrightarrow> unvisited hs (name # inc) < unvisited hs inc"
  unfolding unvisited_def using gget_in_keys [of hs name h] by (intro psubset_card_mono) (simp_all del: set_map, blast)

lemma visit_exact:
  "unvisited hs inc < fuel \<Longrightarrow> visited_well hs {name} inc (include_dep fuel hs name inc)"
  "unvisited hs inc < fuel \<Longrightarrow> visited_well hs (set ds) inc (include_names fuel hs ds inc)"
proof (induction fuel hs name inc and fuel hs ds inc rule: include_dep_include_names.induct)
  case (2 fuel hs name inc)
  show ?case
  proof (cases "name \<in> set inc \<or> gget hs name = None")
    case True
    then show ?thesis by (auto simp: visited_well_def depends_on_def)
  next
    case False
    then obtain h where h: "gget hs name = Some h" "name \<notin> set inc" by auto
    have "unvisited hs (name # inc) < fuel" using unvisited_less [OF h] "2.prems" by simp
    then have "visited_well hs (set (ph_DependsOn h)) (name # inc) (include_names fuel hs (ph_DependsOn h) (name # inc))"
      using "2.IH" h by simp
    moreover have "(depends_on hs)\<^sup>*\<^sup>* name d" if "d \<in> set (ph_DependsOn h)" for d
      using that h(1) by (auto simp: depends_on_def intro: r_into_rtranclp)
    moreover have "depends_on hs name d \<Longrightarrow> d \<in> set (ph_DependsOn h)" for d using h(1) by (auto simp: depends_on_def)
    ultimately show ?thesis using h unfolding visited_well_def
      by (simp, intro conjI) (blast intro: rtranclp_trans)+
  qed
next
  case (4 fuel hs d ds inc)
  let ?i1 = "include_dep fuel hs d inc" and ?i2 = "include_names fuel hs ds (include_dep fuel hs d inc)"
  have A: "visited_well hs {d} inc ?i1" using "4.IH"(1) [OF "4.prems"] .
  then have "unvisited hs ?i1 < fuel" using unvisited_mono [of inc ?i1 hs] "4.prems" by (simp add: visited_well_def)
  then have "visited_well hs (set ds) ?i1 ?i2" by (rule "4.IH"(2))
  with A show ?case unfolding visited_well_def by (simp, blast)
qed (auto simp: visited_well_def)

lemma included_exact: "set (included hs filt) = {m. \<exists>r \<in> set filt. (depends_on hs)\<^sup>*\<^sup>* r m}"
proof -
  have "unvisited hs [] \<le> length hs"
    unfolding unvisited_def by (metis Diff_empty card_length length_map list.set(1))
  then have w: "visited_well hs (set filt) [] (included hs filt)"
    unfolding included_def by (intro visit_exact(2)) simp
  have "m \<in> set (included hs filt)" if "(depends_on hs)\<^sup>*\<^sup>* r m" "r \<in> set filt" for r m
    using that
  proof (induction rule: rtranclp_induct)
    case base
    then show ?case using w by (auto simp: visited_well_def)
  next
    case (step y z)
    then show ?case using w by (auto simp: visited_well_def)
  qed
  then show ?thesis using w by (auto simp: visited_well_def)
qed

section \<open>What a history keeps\<close>

type_synonym output_line = "64 word \<times> string \<times> string \<times> string"

definition line_of :: "LogEntry \<Rightarrow> output_line" where
  "line_of e = (le_Generation e, le_Stream e, le_Code e, truncateUTF8 (le_Line e) maxDiagnosisLine)"

definition events_of :: "string \<Rightarrow> LogEntry list \<Rightarrow> LogEntry list" where
  "events_of name events = filter (\<lambda>e. le_Process e = name) events"

definition lines_of :: "string \<Rightarrow> LogEntry list \<Rightarrow> output_line list" where
  "lines_of name events = map line_of (filter (\<lambda>e. le_State e = None \<and> le_Level e \<noteq> ''debug'') (events_of name events))"

definition transitions_of :: "string \<Rightarrow> LogEntry list \<Rightarrow> Transition list" where
  "transitions_of name events = List.map_filter (\<lambda>e. map_option (transition_of e) (le_State e)) (events_of name events)"

definition generations_of :: "string \<Rightarrow> LogEntry list \<Rightarrow> 64 word list" where
  "generations_of name events = remdups_adj (filter (\<lambda>g. g \<noteq> 0) (map le_Generation (events_of name events)))"

definition group_line :: "OutputGroup \<Rightarrow> output_line" where
  "group_line g = (og_Generation g, og_Stream g, og_Code g, og_Message g)"

definition expand_groups :: "OutputGroup list \<Rightarrow> output_line list" where
  "expand_groups gs = concat (map (\<lambda>g. replicate (og_Count g) (group_line g)) gs)"

text \<open>A history after some events: it has their last lines and transitions, in order, within the bounds, and all of them unless it is marked.\<close>

definition process_history_ok :: "string \<Rightarrow> LogEntry list \<Rightarrow> ProcessHistory \<Rightarrow> bool" where
  "process_history_ok name events h =
     (ph_Name h = name \<and> ph_Generations h = generations_of name events \<and>
      suffix (expand_groups (ph_Output h)) (lines_of name events) \<and>
      suffix (ph_Transitions h) (transitions_of name events) \<and>
      (\<not> ph_Truncated h \<longrightarrow> expand_groups (ph_Output h) = lines_of name events \<and> ph_Transitions h = transitions_of name events) \<and>
      distinct_adj (map group_line (ph_Output h)) \<and>
      length (ph_Output h) \<le> maxGroupsPerProcess \<and>
      length (ph_Transitions h) \<le> maxTransitionsPerGen * max 1 (length (ph_Generations h)))"

lemma remdups_adj_snoc:
  "remdups_adj (xs @ [x]) = (if xs = [] \<or> List.last xs \<noteq> x then remdups_adj xs @ [x] else remdups_adj xs)"
  by (induction xs rule: remdups_adj.induct) auto

lemma last_remdups_adj: "List.last (remdups_adj xs) = List.last xs"
  by (induction xs rule: remdups_adj.induct) auto

lemma events_of_simps [simp]:
  "events_of name [] = []"
  "events_of name (events @ [e]) = events_of name events @ (if le_Process e = name then [e] else [])"
  by (simp_all add: events_of_def)

lemma lines_of_snoc [simp]:
  "lines_of name (events @ [e]) =
    lines_of name events @ (if le_Process e = name \<and> le_State e = None \<and> le_Level e \<noteq> ''debug'' then [line_of e] else [])"
  by (simp add: lines_of_def)

lemma transitions_of_snoc [simp]:
  "transitions_of name (events @ [e]) =
    transitions_of name events @ (case le_State e of Some s \<Rightarrow> if le_Process e = name then [transition_of e s] else [] | None \<Rightarrow> [])"
  by (simp add: transitions_of_def List.map_filter_def split: option.split)

lemma generations_of_snoc:
  "generations_of (le_Process e) (events @ [e]) =
    (if le_Generation e \<noteq> 0 \<and> (generations_of (le_Process e) events = [] \<or> List.last (generations_of (le_Process e) events) \<noteq> le_Generation e)
     then generations_of (le_Process e) events @ [le_Generation e] else generations_of (le_Process e) events)"
  by (simp add: generations_of_def remdups_adj_snoc last_remdups_adj)

lemma generations_of_other [simp]: "le_Process e \<noteq> name \<Longrightarrow> generations_of name (events @ [e]) = generations_of name events"
  by (simp add: generations_of_def)

lemma new_history_ok: "events_of name events = [] \<Longrightarrow> process_history_ok name events (new_history name)"
  by (simp add: process_history_ok_def new_history_def lines_of_def transitions_of_def generations_of_def expand_groups_def List.map_filter_def)

lemma history_other: "le_Process e \<noteq> name \<Longrightarrow> process_history_ok name (events @ [e]) h = process_history_ok name events h"
  by (simp add: process_history_ok_def split: option.split)

lemma suffix_snoc: "suffix xs ys \<Longrightarrow> suffix (xs @ [a]) (ys @ [a])"
  by (auto simp: suffix_def)

lemma suffix_tl_trans: "suffix xs ys \<Longrightarrow> suffix (tl xs) ys"
  by (meson suffix_order.trans suffix_tl)

lemma expand_groups_simps [simp]:
  "expand_groups [] = []" "expand_groups (gs @ [g]) = expand_groups gs @ replicate (og_Count g) (group_line g)"
  by (simp_all add: expand_groups_def)

lemma expand_tl: "suffix (expand_groups (tl gs)) (expand_groups gs)"
  by (cases gs) (auto simp: expand_groups_def suffix_def)

lemma distinct_adj_tl: "distinct_adj xs \<Longrightarrow> distinct_adj (tl xs)"
  by (cases xs; cases "tl xs") (auto)

lemma distinct_adj_snoc: "distinct_adj xs \<Longrightarrow> xs = [] \<or> List.last xs \<noteq> x \<Longrightarrow> distinct_adj (xs @ [x])"
  by (auto simp: distinct_adj_append_iff)

lemma note_generation_simps [simp]:
  "ph_Name (note_generation g h) = ph_Name h" "ph_DependsOn (note_generation g h) = ph_DependsOn h"
  "ph_Transitions (note_generation g h) = ph_Transitions h" "ph_Output (note_generation g h) = ph_Output h"
  "ph_Truncated (note_generation g h) = ph_Truncated h"
  by (simp_all add: note_generation_def)

lemma note_generation_ok:
  assumes "process_history_ok (le_Process e) events h"
  shows "ph_Generations (note_generation (le_Generation e) h) = generations_of (le_Process e) (events @ [e])"
    and "length (ph_Generations h) \<le> length (ph_Generations (note_generation (le_Generation e) h))"
  using assms by (auto simp: process_history_ok_def note_generation_def generations_of_snoc)

lemma transitions_room:
  fixes e :: LogEntry
  assumes "process_history_ok (le_Process e) events h"
  shows "length (ph_Transitions h) \<le> maxTransitionsPerGen * max 1 (length (ph_Generations (note_generation (le_Generation e) h)))"
proof -
  have "length (ph_Transitions h) \<le> maxTransitionsPerGen * max 1 (length (ph_Generations h))"
    using assms unfolding process_history_ok_def by blast
  also have "\<dots> \<le> maxTransitionsPerGen * max 1 (length (ph_Generations (note_generation (le_Generation e) h)))"
    using note_generation_ok(2) [OF assms] by simp
  finally show ?thesis .
qed

lemma add_transition_ok:
  assumes h: "process_history_ok (le_Process e) events h" and s: "le_State e = Some s"
  shows "process_history_ok (le_Process e) (events @ [e]) (add_transition e s (note_generation (le_Generation e) h))"
proof -
  let ?h = "note_generation (le_Generation e) h"
  note parts = h [unfolded process_history_ok_def]
  have "suffix (ph_Transitions h @ [transition_of e s]) (transitions_of (le_Process e) events @ [transition_of e s])"
    using parts by (intro suffix_snoc) blast
  moreover from this have "suffix (tl (ph_Transitions h @ [transition_of e s])) (transitions_of (le_Process e) events @ [transition_of e s])"
    by (rule suffix_tl_trans)
  moreover have "length (tl (ph_Transitions h @ [transition_of e s])) = length (ph_Transitions h)" by simp
  ultimately show ?thesis
    using parts s transitions_room [OF h] note_generation_ok(1) [OF h]
    by (simp add: process_history_ok_def add_transition_def Let_def del: tl_append2 length_tl split: if_split)
qed

lemma group_line_iff: "same_output e (truncateUTF8 (le_Line e) maxDiagnosisLine) g \<longleftrightarrow> group_line g = line_of e"
  by (auto simp: same_output_def group_line_def line_of_def)

definition first_line :: "LogEntry \<Rightarrow> OutputGroup" where
  "first_line e = \<lparr>og_Generation = le_Generation e, og_Stream = le_Stream e, og_Level = le_Level e, og_Code = le_Code e,
     og_Message = truncateUTF8 (le_Line e) maxDiagnosisLine, og_Count = 1, og_FirstID = le_ID e, og_LastID = le_ID e\<rparr>"

lemma first_line_simps [simp]: "group_line (first_line e) = line_of e" "og_Count (first_line e) = 1"
  by (simp_all add: first_line_def group_line_def line_of_def)

lemma add_output_cases:
  "add_output e h =
    (if ph_Output h \<noteq> [] \<and> group_line (List.last (ph_Output h)) = line_of e
     then h\<lparr>ph_Output := butlast (ph_Output h) @ [(List.last (ph_Output h))\<lparr>og_Count := og_Count (List.last (ph_Output h)) + 1, og_LastID := le_ID e\<rparr>]\<rparr>
     else if length (ph_Output h) \<ge> maxGroupsPerProcess
     then h\<lparr>ph_Output := tl (ph_Output h @ [first_line e]), ph_Truncated := True\<rparr>
     else h\<lparr>ph_Output := ph_Output h @ [first_line e]\<rparr>)"
  by (simp add: add_output_def Let_def group_line_iff first_line_def)

lemma add_output_ok:
  assumes h: "process_history_ok (le_Process e) events h" and s: "le_State e = None" "le_Level e \<noteq> ''debug''"
  shows "process_history_ok (le_Process e) (events @ [e]) (add_output e (note_generation (le_Generation e) h))"
proof -
  let ?h = "note_generation (le_Generation e) h" and ?n = "le_Process e"
  note parts = h [unfolded process_history_ok_def]
  have lines: "lines_of ?n (events @ [e]) = lines_of ?n events @ [line_of e]" "transitions_of ?n (events @ [e]) = transitions_of ?n events"
    using s by simp_all
  have keep: "process_history_ok ?n (events @ [e]) h'"
    if "ph_Name h' = ph_Name h" "ph_Generations h' = ph_Generations ?h" "ph_Transitions h' = ph_Transitions h"
      "suffix (expand_groups (ph_Output h')) (lines_of ?n events @ [line_of e])"
      "\<not> ph_Truncated h' \<longrightarrow> \<not> ph_Truncated h \<and> expand_groups (ph_Output h') = lines_of ?n events @ [line_of e]"
      "distinct_adj (map group_line (ph_Output h'))" "length (ph_Output h') \<le> maxGroupsPerProcess" for h'
    using that parts transitions_room [OF h] note_generation_ok(1) [OF h] unfolding process_history_ok_def lines by auto
  have sfx: "suffix (expand_groups (ph_Output h) @ [line_of e]) (lines_of ?n events @ [line_of e])"
    using parts by (intro suffix_snoc) blast
  show ?thesis
  proof (cases "ph_Output h \<noteq> [] \<and> group_line (List.last (ph_Output h)) = line_of e")
    case True
    then obtain gs g where g: "ph_Output h = gs @ [g]" by (metis append_butlast_last_id)
    have "expand_groups (gs @ [g\<lparr>og_Count := og_Count g + 1, og_LastID := le_ID e\<rparr>]) = expand_groups (ph_Output h) @ [line_of e]"
      using True g by (simp add: group_line_def replicate_append_same)
    moreover have "map group_line (gs @ [g\<lparr>og_Count := og_Count g + 1, og_LastID := le_ID e\<rparr>]) = map group_line (ph_Output h)"
      using g by (simp add: group_line_def)
    ultimately show ?thesis using True g parts sfx by (intro keep) (simp_all add: add_output_cases)
  next
    case False
    have new: "distinct_adj (map group_line (ph_Output h @ [first_line e]))"
      using parts False by (auto intro!: distinct_adj_snoc simp: last_map)
    have "suffix (expand_groups (tl (ph_Output h @ [first_line e]))) (lines_of ?n events @ [line_of e])"
      using expand_tl [of "ph_Output h @ [first_line e]"] sfx by (auto intro: suffix_order.trans)
    then have dropped: "process_history_ok ?n (events @ [e]) (?h\<lparr>ph_Output := tl (ph_Output h @ [first_line e]), ph_Truncated := True\<rparr>)"
      if "length (ph_Output h) \<le> maxGroupsPerProcess"
      using that distinct_adj_tl [OF new] by (intro keep) (simp_all add: map_tl del: tl_append2 suffix_snoc map_append)
    have added: "process_history_ok ?n (events @ [e]) (?h\<lparr>ph_Output := ph_Output h @ [first_line e]\<rparr>)"
      if "length (ph_Output h) < maxGroupsPerProcess"
      using that parts sfx new by (intro keep) simp_all
    have "add_output e ?h = (if length (ph_Output h) \<ge> maxGroupsPerProcess
        then ?h\<lparr>ph_Output := tl (ph_Output h @ [first_line e]), ph_Truncated := True\<rparr>
        else ?h\<lparr>ph_Output := ph_Output h @ [first_line e]\<rparr>)"
      unfolding add_output_cases note_generation_simps by (rule if_not_P [OF False])
    then show ?thesis using dropped added parts by (cases "length (ph_Output h) \<ge> maxGroupsPerProcess") simp_all
  qed
qed

lemma quiet_ok:
  assumes "process_history_ok (le_Process e) events h" "le_State e = None" "le_Level e = ''debug''"
  shows "process_history_ok (le_Process e) (events @ [e]) (note_generation (le_Generation e) h)"
  using assms transitions_room [OF assms(1)] note_generation_ok(1) [OF assms(1)] by (simp add: process_history_ok_def)

definition reported :: "string \<Rightarrow> LogEntry list \<Rightarrow> bool" where
  "reported name events = (name \<noteq> [] \<and> name \<noteq> ''proc-compose'' \<and> events_of name events \<noteq> [])"

definition histories_ok :: "LogEntry list \<Rightarrow> ProcessHistory gomap \<Rightarrow> bool" where
  "histories_ok events hs =
     (gomap_ok hs \<and> (\<forall>name. (case gget hs name of None \<Rightarrow> \<not> reported name events | Some h \<Rightarrow> reported name events \<and> process_history_ok name events h)))"

lemma histories_ok_get: "histories_ok events hs \<Longrightarrow> gget hs name = Some h \<Longrightarrow> reported name events \<and> process_history_ok name events h"
  unfolding histories_ok_def by (metis option.simps(5))

lemma histories_ok_none: "histories_ok events hs \<Longrightarrow> gget hs name = None \<Longrightarrow> \<not> reported name events"
  unfolding histories_ok_def by (metis option.simps(4))

lemma note_event_put:
  assumes hs: "histories_ok events hs" and e: "le_Process e \<noteq> []" "le_Process e \<noteq> ''proc-compose''"
    and h: "process_history_ok (le_Process e) (events @ [e]) h"
  shows "histories_ok (events @ [e]) (gput (le_Process e) h hs)"
  unfolding histories_ok_def
proof (intro conjI allI)
  show "gomap_ok (gput (le_Process e) h hs)" using hs by (simp add: histories_ok_def)
  fix name
  show "case gget (gput (le_Process e) h hs) name of None \<Rightarrow> \<not> reported name (events @ [e])
      | Some h \<Rightarrow> reported name (events @ [e]) \<and> process_history_ok name (events @ [e]) h"
  proof (cases "name = le_Process e")
    case True
    then show ?thesis using e h by (simp add: reported_def)
  next
    case False
    then have "reported name (events @ [e]) = reported name events" by (simp add: reported_def)
    then show ?thesis
      using False histories_ok_get [OF hs, of name] histories_ok_none [OF hs, of name] history_other [of e name events]
      by (cases "gget hs name") simp_all
  qed
qed

lemma note_event_ok:
  assumes hs: "histories_ok events hs"
  shows "histories_ok (events @ [e]) (note_event e hs)"
proof (cases "le_Process e = [] \<or> le_Process e = ''proc-compose''")
  case True
  have same: "reported name (events @ [e]) = reported name events" for name using True by (auto simp: reported_def)
  have kept: "reported name events \<Longrightarrow> process_history_ok name (events @ [e]) h = process_history_ok name events h" for name h
    using True by (intro history_other) (auto simp: reported_def)
  have "note_event e hs = hs" using True by (auto simp: note_event_def)
  moreover have "case gget hs name of None \<Rightarrow> \<not> reported name (events @ [e])
      | Some h \<Rightarrow> reported name (events @ [e]) \<and> process_history_ok name (events @ [e]) h" for name
    using histories_ok_get [OF hs, of name] histories_ok_none [OF hs, of name] by (cases "gget hs name") (simp_all add: same kept)
  ultimately show ?thesis using hs by (simp add: histories_ok_def)
next
  case False
  let ?h = "the_default (new_history (le_Process e)) (gget hs (le_Process e))"
  have h: "process_history_ok (le_Process e) events ?h"
  proof (cases "gget hs (le_Process e)")
    case None
    then have "events_of (le_Process e) events = []"
      using histories_ok_none [OF hs, of "le_Process e"] False by (auto simp: reported_def)
    then show ?thesis using None by (simp add: new_history_ok)
  next
    case (Some h)
    then show ?thesis using histories_ok_get [OF hs] by simp
  qed
  note put = note_event_put [OF hs, of e]
  show ?thesis
  proof (cases "le_State e")
    case (Some s)
    have "note_event e hs = gput (le_Process e) (add_transition e s (note_generation (le_Generation e) ?h)) hs"
      using False Some by (simp add: note_event_def Let_def)
    then show ?thesis using put [OF _ _ add_transition_ok [OF h Some]] False by simp
  next
    case None
    show ?thesis
    proof (cases "le_Level e = ''debug''")
      case True
      have "note_event e hs = gput (le_Process e) (note_generation (le_Generation e) ?h) hs"
        using False None True by (simp add: note_event_def Let_def)
      then show ?thesis using put [OF _ _ quiet_ok [OF h None True]] False by simp
    next
      case level: False
      have "note_event e hs = gput (le_Process e) (add_output e (note_generation (le_Generation e) ?h)) hs"
        using False None level by (simp add: note_event_def Let_def)
      then show ?thesis using put [OF _ _ add_output_ok [OF h None level]] False by simp
    qed
  qed
qed

lemma fold_note_event: "histories_ok events (fold note_event events [])"
proof (induction events rule: rev_induct)
  case Nil
  show ?case by (simp add: histories_ok_def reported_def gomap_ok_def)
next
  case (snoc e events)
  then show ?case by (simp add: note_event_ok)
qed

text \<open>\<open>needs events a b\<close>: the journal shows that \<open>a\<close> depends on \<open>b\<close>.\<close>

abbreviation needs :: "LogEntry list \<Rightarrow> string \<Rightarrow> string \<Rightarrow> bool" where
  "needs events \<equiv> depends_on (fold note_event events [])"

lemma histories_members:
  "h \<in> set (histories events filt) \<longleftrightarrow>
    gget (fold note_event events []) (ph_Name h) = Some h \<and> (filt = [] \<or> (\<exists>r \<in> set filt. (needs events)\<^sup>*\<^sup>* r (ph_Name h)))"
proof -
  let ?hs = "fold note_event events []"
  have ok: "distinct (gokeys ?hs)" using fold_note_event [of events] by (simp add: histories_ok_def gomap_ok_def)
  have name: "(name, h) \<in> set ?hs \<longleftrightarrow> name = ph_Name h \<and> gget ?hs name = Some h" for name
    using ok histories_ok_get [OF fold_note_event, of events name h] by (auto simp: process_history_ok_def)
  show ?thesis
    unfolding histories_def Let_def set_sort set_map set_filter by (auto simp: included_exact name image_iff)
qed

lemma sorted_distinct_names: "sorted (map ph_Name (histories events filt)) \<and> distinct (map ph_Name (histories events filt))"
proof -
  let ?hs = "fold note_event events []"
  define kept where "kept = filter (\<lambda>(name, h). filt = [] \<or> name \<in> set (included ?hs filt)) ?hs"
  have ok: "distinct (map fst kept)"
    using fold_note_event [of events] unfolding kept_def by (simp add: histories_ok_def gomap_ok_def distinct_map_filter)
  have "map ph_Name (map snd kept) = map fst kept"
    using fold_note_event [of events] unfolding kept_def
    by (auto simp: histories_ok_def gomap_ok_def process_history_ok_def split: option.splits dest!: map_of_is_SomeI)
  then have "distinct (map ph_Name (map snd kept))" using ok by (simp del: map_map)
  moreover have "mset (map ph_Name (histories events filt)) = mset (map ph_Name (map snd kept))"
    by (simp add: histories_def Let_def kept_def flip: image_mset.compositionality)
  ultimately have "distinct (map ph_Name (histories events filt))" by (metis mset_eq_imp_distinct_iff)
  then show ?thesis by (simp add: histories_def Let_def)
qed

text \<open>
  A diagnosis shows of every process the end of what the journal has of it: its output lines, repetitions
  collapsed without loss, and its transitions, in order and complete unless the history is marked truncated; at
  most 20 groups, adjacent ones different, at most 20 transitions per generation, and every generation.
\<close>

theorem history_is_a_suffix:
  assumes "h \<in> set (histories events filt)"
  shows "suffix (expand_groups (ph_Output h)) (lines_of (ph_Name h) events) \<and>
    suffix (ph_Transitions h) (transitions_of (ph_Name h) events) \<and>
    (\<not> ph_Truncated h \<longrightarrow> expand_groups (ph_Output h) = lines_of (ph_Name h) events \<and> ph_Transitions h = transitions_of (ph_Name h) events) \<and>
    distinct_adj (map group_line (ph_Output h)) \<and> length (ph_Output h) \<le> maxGroupsPerProcess \<and>
    length (ph_Transitions h) \<le> maxTransitionsPerGen * max 1 (length (ph_Generations h)) \<and>
    ph_Generations h = generations_of (ph_Name h) events"
  using histories_ok_get [OF fold_note_event [of events], of "ph_Name h" h] assms
  unfolding histories_members process_history_ok_def by blast

lemma history_is_a_suffix_witness:
  "suffix (expand_groups (ph_Output (add_output (example_event ''a'') (new_history ''p'')))) (lines_of ''p'' [example_event ''a''])"
proof -
  have "histories [example_event ''a''] [] = [add_output (example_event ''a'') (new_history ''p'')]"
    by (simp add: histories_def note_event_def example_event_def Let_def note_generation_def new_history_def)
  then show ?thesis
    using history_is_a_suffix [of "add_output (example_event ''a'') (new_history ''p'')" "[example_event ''a'']" "[]"]
    by (simp add: new_history_def add_output_def Let_def)
qed

text \<open>
  The processes of a diagnosis are, sorted and each once, exactly those the journal has events of other than
  the tool's own; with a filter, those of them that the filter names or that a named one depends on, over any
  number of steps, according to the dependencies the journal recorded.
\<close>

theorem diagnosed_processes_exact:
  "map ph_Name (histories events filt) =
     sorted_list_of_set {name. reported name events \<and> (filt = [] \<or> (\<exists>r \<in> set filt. (needs events)\<^sup>*\<^sup>* r name))}"
proof -
  have "set (map ph_Name (histories events filt)) =
      {name. reported name events \<and> (filt = [] \<or> (\<exists>r \<in> set filt. (needs events)\<^sup>*\<^sup>* r name))}" (is "?l = ?r")
  proof (intro set_eqI iffI)
    fix name assume "name \<in> ?l"
    then show "name \<in> ?r" using histories_ok_get [OF fold_note_event [of events]] by (auto simp: histories_members)
  next
    fix name assume r: "name \<in> ?r"
    then obtain h where h: "gget (fold note_event events []) name = Some h"
      using histories_ok_none [OF fold_note_event [of events], of name] by (cases "gget (fold note_event events []) name") auto
    then have "ph_Name h = name" using histories_ok_get [OF fold_note_event h] by (simp add: process_history_ok_def)
    then have "h \<in> set (histories events filt)" using r h by (simp add: histories_members)
    then show "name \<in> ?l" using \<open>ph_Name h = name\<close> by force
  qed
  then show ?thesis using sorted_distinct_names [of events filt] by (metis sorted_list_of_set.idem_if_sorted_distinct)
qed

section \<open>The scan ends and is complete\<close>

text \<open>A journal at rest: every reader pins the same bytes, which are well-formed records with distinct identifiers.\<close>

definition journal_at_rest :: "codec \<Rightarrow> (nat \<Rightarrow> string \<Rightarrow> look) \<Rightarrow> string \<Rightarrow> LogEntry list \<Rightarrow> bool" where
  "journal_at_rest cd fs path evs =
     (\<exists>contents. (\<forall>t. fst (snapshotFiles fs path t) = Inr contents) \<and> (\<forall>t. fs t path \<noteq> LookAbsent) \<and>
        read_files cd contents = map Inr evs \<and> fits_all cd evs \<and> distinct (map le_ID evs) \<and> (\<forall>e \<in> set evs. cursor_ok (le_ID e)))"

definition scan_shaped :: "LogOptions \<Rightarrow> bool" where
  "scan_shaped opts = (lo_Limit opts = 1000 \<and> lo_MaxBytes opts = 1048576 \<and> \<not> lo_Tail opts)"

lemma cursor_ok_proper: "cursor_ok c \<Longrightarrow> c \<noteq> [] \<and> c \<noteq> ''start''"
  by (auto simp: cursor_ok_def)

lemma matches_After [simp]: "matches cd (opts\<lparr>lo_After := c\<rparr>) = matches cd opts"
  by (rule ext) (simp add: matches_def)

lemma shortened_refl: "list_all2 shortened es es"
  by (simp add: list_all2_same shortened_def)

lemma Query_at_rest:
  assumes rest: "journal_at_rest cd fs path evs" and opts: "scan_shaped opts"
    and cur: "lo_After opts = ''start'' \<or> lo_After opts \<in> le_ID ` set evs"
  shows "\<exists>page t'. Query cd fs path opts t = (Inr page, t') \<and> page_of cd opts (events_after (lo_After opts) evs) page"
proof -
  obtain contents where c: "\<And>t. fst (snapshotFiles fs path t) = Inr contents" "read_files cd contents = map Inr evs"
      "fits_all cd evs" "\<forall>e \<in> set evs. cursor_ok (le_ID e)"
    using rest by (auto simp: journal_at_rest_def)
  have d: "with_defaults opts = opts" "limits_ok opts" using opts by (simp_all add: with_defaults_def scan_shaped_def limits_ok_def)
  obtain page where p: "scan_journal cd opts contents = Inr (page, True)" "page_of cd opts (events_after (lo_After opts) evs) page"
    using scan_journal_page [OF c(2,3) d(2)] opts cur by (auto simp: scan_shaped_def)
  obtain t' where "snapshotFiles fs path t = (Inr contents, t')" using c(1) [of t] by (metis prod.exhaust_sel)
  moreover have "lo_After opts = ''start'' \<or> cursor_ok (lo_After opts)" using cur c(4) by auto
  ultimately have "Query cd fs path opts t = (Inr page, t')"
    using p(1) opts unfolding Query_def Let_def d(1) by (auto simp: scan_shaped_def)
  then show ?thesis using p(2) by blast
qed

lemma scan_pages_complete:
  assumes rest: "journal_at_rest cd fs path evs" and "scan_shaped opts"
    and "evs = pre @ after" "after = events_after (lo_After opts) evs" "length after < fuel"
    and "lo_After opts = ''start'' \<or> lo_After opts \<in> le_ID ` set pre"
  shows "\<exists>events gap' t'. scan_pages fuel cd fs path opts out gap t =
      Some ((take maxDiagnosisEvents (out @ events), gap', maxDiagnosisEvents \<le> length (out @ events), None), t') \<and>
    list_all2 shortened (filter (matches cd opts) after) events"
  using assms(2-)
proof (induction fuel arbitrary: opts pre after out gap t)
  case (Suc fuel)
  have distinct: "distinct (map le_ID evs)" and ok: "\<forall>e \<in> set evs. cursor_ok (le_ID e)" using rest by (auto simp: journal_at_rest_def)
  have "lo_After opts = ''start'' \<or> lo_After opts \<in> le_ID ` set evs" using Suc.prems(2,5) by auto
  from Query_at_rest [OF rest Suc.prems(1) this, of t] obtain page t1
    where q: "Query cd fs path opts t = (Inr page, t1)" and p: "page_of cd opts after page" using Suc.prems(3) by auto
  let ?out = "out @ pg_Events page" and ?gap = "gap \<or> pg_Gap page"
  show ?case
  proof (cases "pg_HasMore page")
    case False
    then have "list_all2 shortened (filter (matches cd opts) after) (pg_Events page)" using p by (simp add: page_of_def)
    moreover have "scan_pages (Suc fuel) cd fs path opts out gap t =
        Some ((take maxDiagnosisEvents ?out, ?gap, maxDiagnosisEvents \<le> length ?out, None), t1)"
      using q False by (simp add: Let_def)
    ultimately show ?thesis by blast
  next
    case True
    then obtain evs1 e evs2 where e: "after = evs1 @ e # evs2" "pg_Events page \<noteq> []"
        "list_all2 shortened (filter (matches cd opts) evs1) (pg_Events page)" "pg_NextCursor page = le_ID (List.last evs1)"
      using p by (auto simp: page_of_def)
    let ?next = "opts\<lparr>lo_After := pg_NextCursor page\<rparr>"
    have "evs1 \<noteq> []" using e(2,3) by auto
    then have l: "evs1 = butlast evs1 @ [List.last evs1]" by simp
    then have split: "evs = (pre @ butlast evs1) @ List.last evs1 # (e # evs2)" using Suc.prems(2) e(1)
      by (metis append.assoc append_Cons append_Nil)
    have proper: "pg_NextCursor page \<noteq> []" "pg_NextCursor page \<noteq> ''start''"
      using ok split e(4) cursor_ok_proper [of "pg_NextCursor page"] by auto
    have moved: "pg_NextCursor page \<noteq> lo_After opts"
    proof
      assume "pg_NextCursor page = lo_After opts"
      then have "le_ID (List.last evs1) \<in> le_ID ` set pre" using Suc.prems(5) proper(2) e(4) by auto
      then show False using distinct split by auto
    qed
    have "le_ID (List.last evs1) \<notin> le_ID ` set (pre @ butlast evs1)" using distinct split by auto
    then have new: "\<forall>e' \<in> set (pre @ butlast evs1). le_ID e' \<noteq> pg_NextCursor page" using e(4) by (metis image_eqI)
    have "events_after (pg_NextCursor page) evs = e # evs2"
      by (subst split, rule events_after_split [OF e(4) new proper])
    then have IH: "\<exists>events gap' t'. scan_pages fuel cd fs path ?next ?out ?gap t1 =
        Some ((take maxDiagnosisEvents (?out @ events), gap', maxDiagnosisEvents \<le> length (?out @ events), None), t') \<and>
      list_all2 shortened (filter (matches cd ?next) (e # evs2)) events"
    proof (intro Suc.IH [of ?next "pre @ evs1"])
      show "scan_shaped ?next" using Suc.prems(1) by (simp add: scan_shaped_def)
      show "evs = (pre @ evs1) @ e # evs2" using Suc.prems(2) e(1) by simp
      show "length (e # evs2) < fuel" using Suc.prems(4) e(1) \<open>evs1 \<noteq> []\<close> by (cases evs1) simp_all
      show "lo_After ?next = ''start'' \<or> lo_After ?next \<in> le_ID ` set (pre @ evs1)" using e(4) \<open>evs1 \<noteq> []\<close> by simp
    qed simp
    show ?thesis
    proof (cases "maxDiagnosisEvents \<le> length ?out")
      case full: True
      have "scan_pages (Suc fuel) cd fs path opts out gap t = Some ((take maxDiagnosisEvents ?out, ?gap, True, None), t1)"
        using q full by (simp add: Let_def)
      moreover have "take maxDiagnosisEvents ?out = take maxDiagnosisEvents (out @ (pg_Events page @ filter (matches cd opts) (e # evs2)))"
        using full by simp
      moreover have "list_all2 shortened (filter (matches cd opts) after) (pg_Events page @ filter (matches cd opts) (e # evs2))"
        unfolding e(1) filter_append using e(3) shortened_refl by (rule list_all2_appendI)
      moreover have "maxDiagnosisEvents \<le> length (out @ (pg_Events page @ filter (matches cd opts) (e # evs2)))" using full by simp
      ultimately show ?thesis by metis
    next
      case more: False
      obtain events gap' t' where r: "scan_pages fuel cd fs path ?next ?out ?gap t1 =
          Some ((take maxDiagnosisEvents (?out @ events), gap', maxDiagnosisEvents \<le> length (?out @ events), None), t')"
          "list_all2 shortened (filter (matches cd opts) (e # evs2)) events" using IH by auto
      have "scan_pages (Suc fuel) cd fs path opts out gap t = scan_pages fuel cd fs path ?next ?out ?gap t1"
        using q more True proper(1) moved by (simp add: Let_def)
      moreover have "list_all2 shortened (filter (matches cd opts) after) (pg_Events page @ events)"
        unfolding e(1) filter_append using e(3) r(2) by (rule list_all2_appendI)
      ultimately show ?thesis using r(1) by (metis append.assoc)
    qed
  qed
qed simp



text \<open>
  While a rotation has the journal under its staging name the reader finds it there, but the scan, which looks
  at the live name first, reports its history as missing.
\<close>

lemma scan_misses_staged_journal:
  assumes "fs t path = LookAbsent"
  shows "scanAttempt fuel cd fs path opts t = Some (([], False, False, Some JournalMissing), t + 1)"
  using assms by (simp add: scanAttempt_def)

lemma reader_finds_staged_journal:
  "fst (snapshotFiles (\<lambda>_ name. if name = ''j.staging'' then LookFile 0 content else LookAbsent) ''j'' t) = Inr [content]"
proof -
  have "Itoa (int i) \<noteq> ''staging''" for i using Itoa_not_letter [of i] by auto
  then have names: "Itoa 1 \<noteq> ''staging''" "Itoa 2 \<noteq> ''staging''" "Itoa 3 \<noteq> ''staging''" by (metis of_nat_1, metis of_nat_numeral, metis of_nat_numeral)
  show ?thesis by (simp add: snapshotFiles_def numeral_eq_Suc family_name_def Let_def) (simp add: names)
qed

end
