(* ===== verification/Endpoint_Owner.thy ===== *)
theory Endpoint_Owner
  imports Crash_Recovery Log_Query
begin

text \<open>
  Who answered a probe (\<^verbatim>\<open>internal/runner/attest.go\<close> and, for Linux, \<^verbatim>\<open>internal/runner/attest_linux.go\<close>): the rows of the
  kernel's socket table, the sockets that can have answered a connection, the processes that hold them, and what
  that proves about the owner.
\<close>

section \<open>Addresses\<close>

definition Unmap :: "ip_addr \<Rightarrow> ip_addr" where
  "Unmap a = (case a of
     V6 bs zone \<Rightarrow> if take 12 bs = replicate 10 0 @ [0xff, 0xff] then V4 (drop 12 bs) else a
   | _ \<Rightarrow> a)"

definition IsUnspecified :: "ip_addr \<Rightarrow> bool" where
  "IsUnspecified a = (a = V4 (replicate 4 0) \<or> a = V6 (replicate 16 0) [])"

definition Is4 :: "ip_addr \<Rightarrow> bool" where
  "Is4 a = (case a of V4 _ \<Rightarrow> True | _ \<Rightarrow> False)"

definition Is6 :: "ip_addr \<Rightarrow> bool" where
  "Is6 a = (case a of V6 _ _ \<Rightarrow> True | _ \<Rightarrow> False)"

definition unmapAddrPort :: "addr_port \<Rightarrow> addr_port" where
  "unmapAddrPort ap = ap\<lparr>ap_Addr := Unmap (ap_Addr ap)\<rparr>"

record probeConn =
  pc_local :: addr_port
  pc_remote :: addr_port

text \<open>The zero value, which is what a connection that is not TCP leaves, is not valid.\<close>

definition no_conn :: probeConn where
  "no_conn = \<lparr>pc_local = \<lparr>ap_Addr = NoAddr, ap_Port = 0\<rparr>, pc_remote = \<lparr>ap_Addr = NoAddr, ap_Port = 0\<rparr>\<rparr>"

definition probeConnOf :: "(addr_port \<times> addr_port) option \<Rightarrow> probeConn option" where
  "probeConnOf conn = map_option (\<lambda>(l, r). \<lparr>pc_local = unmapAddrPort l, pc_remote = unmapAddrPort r\<rparr>) conn"

section \<open>Owners\<close>

abbreviation OwnerOwned :: string where "OwnerOwned \<equiv> ''owned''"
abbreviation OwnerUnattributable :: string where "OwnerUnattributable \<equiv> ''unattributable''"
abbreviation ScopeCrossSession :: string where "ScopeCrossSession \<equiv> ''cross_session''"
abbreviation ScopeOutsideSession :: string where "ScopeOutsideSession \<equiv> ''outside_session''"
abbreviation EvidenceHolder :: string where "EvidenceHolder \<equiv> ''holder''"
abbreviation EvidencePortLease :: string where "EvidencePortLease \<equiv> ''port_lease''"

definition found_owner :: "string \<Rightarrow> int \<Rightarrow> string \<Rightarrow> EndpointOwner" where
  "found_owner res pid command = \<lparr>eo_Result = res, eo_Address = None, eo_PID = pid, eo_Command = command, eo_Reason = [],
     eo_Scope = [], eo_Session = None\<rparr>"

definition unattributable :: "string \<Rightarrow> EndpointOwner" where
  "unattributable reason = (found_owner OwnerUnattributable 0 [])\<lparr>eo_Reason := reason\<rparr>"

section \<open>The socket table\<close>

record socketEntry =
  se_local :: addr_port
  se_remote :: addr_port
  se_state :: nat
  se_uid :: int
  se_inode :: nat

abbreviation tcpEstablished :: nat where "tcpEstablished \<equiv> 1"
abbreviation tcpSynRecv :: nat where "tcpSynRecv \<equiv> 3"
abbreviation tcpListen :: nat where "tcpListen \<equiv> 10"

text \<open>\<^verbatim>\<open>strings.Fields\<close>; \<open>cur\<close> is the current field, reversed.\<close>

function fields_from :: "string \<Rightarrow> string \<Rightarrow> string list" where
  "fields_from cur [] = (if cur = [] then [] else [rev cur])"
| "fields_from cur (c # cs) =
     (case find (\<lambda>p. p \<noteq> [] \<and> HasPrefix (c # cs) p) space_runes of
        None \<Rightarrow> fields_from (c # cur) cs
      | Some p \<Rightarrow> (if cur = [] then [] else [rev cur]) @ fields_from [] (drop (length p - 1) cs))"
  by pat_completeness auto
termination by (relation "measure (\<lambda>(cur, s). length s)") auto

definition Fields :: "string \<Rightarrow> string list" where
  "Fields s = fields_from [] s"

definition hex_val :: "char \<Rightarrow> nat option" where
  "hex_val c = (let n = of_char c :: nat
     in if 48 \<le> n \<and> n \<le> 57 then Some (n - 48)
        else if 97 \<le> n \<and> n \<le> 102 then Some (n - 87)
        else if 65 \<le> n \<and> n \<le> 70 then Some (n - 55) else None)"

fun hex_number :: "nat \<Rightarrow> string \<Rightarrow> nat option" where
  "hex_number acc [] = Some acc"
| "hex_number acc (c # cs) = (case hex_val c of None \<Rightarrow> None | Some d \<Rightarrow> hex_number (16 * acc + d) cs)"

text \<open>\<^verbatim>\<open>strconv.ParseUint(s, 16, bits)\<close>.\<close>

definition ParseHex :: "nat \<Rightarrow> string \<Rightarrow> nat option" where
  "ParseHex bits s = (if s = [] then None else case hex_number 0 s of
     Some n \<Rightarrow> if n < 2 ^ bits then Some n else None | None \<Rightarrow> None)"

fun DecodeString :: "string \<Rightarrow> 8 word list option" where
  "DecodeString [] = Some []"
| "DecodeString [c] = None"
| "DecodeString (c # d # cs) = (case (hex_val c, hex_val d, DecodeString cs) of
     (Some h, Some l, Some bs) \<Rightarrow> Some (of_nat (16 * h + l) # bs) | _ \<Rightarrow> None)"

text \<open>The words of four bytes in network order: as they are on a big-endian host, reversed on another.\<close>

fun network_order :: "bool \<Rightarrow> 8 word list \<Rightarrow> 8 word list" where
  "network_order big (a # b # c # d # bs) = (if big then [a, b, c, d] else [d, c, b, a]) @ network_order big bs"
| "network_order big bs = []"

definition AddrFromSlice :: "8 word list \<Rightarrow> ip_addr option" where
  "AddrFromSlice bs = (if length bs = 4 then Some (V4 bs) else if length bs = 16 then Some (V6 bs []) else None)"

definition parseSocketAddr :: "bool \<Rightarrow> string \<Rightarrow> addr_port option" where
  "parseSocketAddr big s =
     (case Cut1 (CHR '':'') s of (host, portHex, ok) \<Rightarrow>
        if \<not> ok then None
        else case ParseHex 16 portHex of
            None \<Rightarrow> None
          | Some port \<Rightarrow> (case DecodeString host of
                None \<Rightarrow> None
              | Some raw \<Rightarrow>
                  if length raw \<noteq> 4 \<and> length raw \<noteq> 16 then None
                  else map_option (\<lambda>addr. \<lparr>ap_Addr = Unmap addr, ap_Port = port\<rparr>) (AddrFromSlice (network_order big raw))))"

definition parseSocketLine :: "bool \<Rightarrow> string \<Rightarrow> socketEntry option" where
  "parseSocketLine big line =
     (let f = Fields line
      in if length f < 10 then None
         else case (parseSocketAddr big (f ! 1), parseSocketAddr big (f ! 2), ParseHex 8 (f ! 3), Atoi (f ! 7), ParseUint (f ! 9)) of
             (Some l, Some r, Some state, Some uid, Some inode) \<Rightarrow>
               Some \<lparr>se_local = l, se_remote = r, se_state = state, se_uid = uid, se_inode = nat inode\<rparr>
           | _ \<Rightarrow> None)"

text \<open>What reading a table file answers: its lines with the header, or an error.\<close>

datatype table_file = TableLines "string list" | TableMissing | TableUnreadable string

definition readSocketTable :: "bool \<Rightarrow> table_file \<Rightarrow> string option \<times> socketEntry list" where
  "readSocketTable big f = (case f of
     TableLines ls \<Rightarrow> (None, List.map_filter (parseSocketLine big) (tl ls))
   | TableMissing \<Rightarrow> (None, [])
   | TableUnreadable e \<Rightarrow> (Some e, []))"

section \<open>The sockets that answered\<close>

definition listener_rank :: "addr_port \<Rightarrow> addr_port \<Rightarrow> nat" where
  "listener_rank remote l =
     (let addr = ap_Addr l
      in if addr = ap_Addr remote then 0
         else if IsUnspecified addr \<and> Is4 addr = Is4 (ap_Addr remote) then 1
         else if IsUnspecified addr \<and> Is6 addr \<and> Is4 (ap_Addr remote) then 2
         else 3)"

definition listens :: "probeConn \<Rightarrow> socketEntry \<Rightarrow> bool" where
  "listens c e = (\<not> (se_state e \<noteq> tcpListen \<or> se_inode e = 0 \<or> ap_Port (se_local e) \<noteq> ap_Port (pc_remote c)))"

definition listener_step :: "probeConn \<Rightarrow> socketEntry \<Rightarrow> nat \<times> nat list \<times> int \<Rightarrow> nat \<times> nat list \<times> int" where
  "listener_step c e = (\<lambda>(best, inodes, uid).
     if \<not> listens c e then (best, inodes, uid)
     else let rank = listener_rank (pc_remote c) (se_local e)
          in if rank < best then (rank, [se_inode e], se_uid e)
             else if rank = best \<and> rank < 3 then (best, inodes @ [se_inode e], uid)
             else (best, inodes, uid))"

definition listenerSockets :: "socketEntry list \<Rightarrow> probeConn \<Rightarrow> nat list \<times> int" where
  "listenerSockets table c = snd (fold (listener_step c) table (3, [], 0))"

text \<open>The texts of the reasons name the server address; \<open>prt\<close> is how it prints.\<close>

definition server_row :: "probeConn \<Rightarrow> socketEntry \<Rightarrow> bool" where
  "server_row c e = (\<not> (se_local e \<noteq> pc_remote c \<or> se_remote e \<noteq> pc_local c \<or> se_state e = tcpListen))"

definition answeringSockets :: "(addr_port \<Rightarrow> string) \<Rightarrow> socketEntry list \<Rightarrow> probeConn \<Rightarrow> nat list \<times> int \<times> string" where
  "answeringSockets prt table c =
     (case find (server_row c) table of
        None \<Rightarrow> ([], 0, ''the connection to '' @ prt (pc_remote c) @ '' does not end in this network namespace'')
      | Some e \<Rightarrow>
          if se_inode e \<noteq> 0 then ([se_inode e], se_uid e, [])
          else if se_state e = tcpEstablished \<or> se_state e = tcpSynRecv
          then (case listenerSockets table c of (inodes, uid) \<Rightarrow>
                  if inodes \<noteq> [] then (inodes, uid, [])
                  else ([], 0, ''no listener holds the queue of the connection to '' @ prt (pc_remote c)))
          else ([], 0, ''the server side of the connection to '' @ prt (pc_remote c) @ '' was already closed''))"

section \<open>The holders\<close>

record socketHolder =
  sh_pid :: int
  sh_command :: string
  sh_member :: bool
  sh_sameUser :: bool

text \<open>The holders found, each with the inode it holds, in the order they were found.\<close>

type_synonym holders = "(nat \<times> socketHolder) list"

definition holders_of :: "holders \<Rightarrow> nat \<Rightarrow> socketHolder list" where
  "holders_of hs inode = map snd (filter (\<lambda>(i, h). i = inode) hs)"

datatype holding_side = SideOurs socketHolder | SideTheirs socketHolder | SideAlien | SideUnseen

definition socket_side :: "socketHolder list \<Rightarrow> holding_side" where
  "socket_side hs =
     (case find sh_member hs of
        Some m \<Rightarrow> SideOurs m
      | None \<Rightarrow> (case find (\<lambda>h. \<not> sh_member h \<and> sh_sameUser h) hs of
          Some h \<Rightarrow> SideTheirs h
        | None \<Rightarrow> if list_ex (\<lambda>h. \<not> sh_member h \<and> \<not> sh_sameUser h) hs then SideAlien else SideUnseen))"

definition ours :: "holding_side list \<Rightarrow> socketHolder list" where
  "ours sides = List.map_filter (\<lambda>s. case s of SideOurs h \<Rightarrow> Some h | _ \<Rightarrow> None) sides"

definition theirs :: "holding_side list \<Rightarrow> socketHolder list" where
  "theirs sides = List.map_filter (\<lambda>s. case s of SideTheirs h \<Rightarrow> Some h | _ \<Rightarrow> None) sides"

definition classifyHolders :: "nat list \<Rightarrow> holders \<Rightarrow> string \<Rightarrow> EndpointOwner" where
  "classifyHolders inodes hs unseen =
     (if inodes = [] then unattributable ''no socket answered''
      else let sides = map (\<lambda>i. socket_side (holders_of hs i)) inodes
           in if length (ours sides) = length inodes
              then found_owner OwnerOwned (sh_pid (hd (ours sides))) (sh_command (hd (ours sides)))
              else if length (theirs sides) = length inodes
              then found_owner OwnerForeign (sh_pid (hd (theirs sides))) (sh_command (hd (theirs sides)))
              else if length (ours sides) + length (theirs sides) > 0
              then unattributable (Itoa (int (length inodes)) @ '' listeners share the port and not all of their holders are known to be on one side'')
              else if SideAlien \<in> set sides
              then unattributable ''the socket is held by another user's process, which is not named''
              else unattributable unseen)"

section \<open>The walk of procfs\<close>

text \<open>
  What each read answered. A path is read once at most, so the answers may be from different moments.
  \<open>pf_fds\<close> are the links of the descriptors, a link that could not be read being \<open>None\<close>.
\<close>

record procfs =
  pf_own :: bool
  pf_bigEndian :: bool
  pf_tcp :: table_file
  pf_tcp6 :: table_file
  pf_members :: "int list option"
  pf_dir :: "string list option"
  pf_fds :: "int \<Rightarrow> string option list option"
  pf_status :: "int \<Rightarrow> string option"
  pf_comm :: "int \<Rightarrow> string option"
  pf_geteuid :: int

fun euid_of_lines :: "string list \<Rightarrow> int" where
  "euid_of_lines [] = -1"
| "euid_of_lines (line # ls) =
     (if HasPrefix line ''Uid:'' then
        (let f = Fields (drop 4 line)
         in case (if length f \<ge> 2 then Atoi (f ! 1) else None) of Some euid \<Rightarrow> euid | None \<Rightarrow> euid_of_lines ls)
      else euid_of_lines ls)"

definition processEUID :: "procfs \<Rightarrow> int \<Rightarrow> int" where
  "processEUID fs pid = (case pf_status fs pid of None \<Rightarrow> -1 | Some b \<Rightarrow> euid_of_lines (split_sep (CHR 0x0A) b))"

definition processName :: "procfs \<Rightarrow> int \<Rightarrow> string" where
  "processName fs pid = (case pf_comm fs pid of None \<Rightarrow> [] | Some b \<Rightarrow> TrimSpace b)"

definition socket_link :: "string option \<Rightarrow> nat option" where
  "socket_link link = (case link of
     None \<Rightarrow> None
   | Some l \<Rightarrow>
       if \<not> HasPrefix l ''socket:['' then None
       else (let s = drop 8 l; n = (if HasSuffix s '']'' then butlast s else s)
             in map_option nat (ParseUint n)))"

definition held_sockets :: "procfs \<Rightarrow> int \<Rightarrow> nat list" where
  "held_sockets fs pid = (case pf_fds fs pid of None \<Rightarrow> [] | Some links \<Rightarrow> List.map_filter socket_link links)"

definition collectHolders :: "procfs \<Rightarrow> bool \<Rightarrow> nat list \<Rightarrow> int \<Rightarrow> holders \<Rightarrow> holders" where
  "collectHolders fs member want pid hs =
     (let wanted = filter (\<lambda>i. i \<in> set want) (held_sockets fs pid);
          sameUser = (member \<or> processEUID fs pid = pf_geteuid fs);
          h = \<lparr>sh_pid = pid, sh_command = (if sameUser then processName fs pid else []), sh_member = member, sh_sameUser = sameUser\<rparr>
      in hs @ map (\<lambda>i. (i, h)) wanted)"

definition findHolders :: "procfs \<Rightarrow> nat list \<Rightarrow> holders option" where
  "findHolders fs inodes =
     (case pf_members fs of
        None \<Rightarrow> None
      | Some members \<Rightarrow>
          (let hs = fold (collectHolders fs True inodes) members []
           in if card (set (map fst hs)) = length inodes then Some hs
              else case pf_dir fs of
                  None \<Rightarrow> Some hs
                | Some names \<Rightarrow> Some (fold (collectHolders fs False inodes)
                    (filter (\<lambda>pid. 0 < pid \<and> pid \<notin> set members) (List.map_filter Atoi names)) hs)))"

abbreviation reasonGroupNotInspectable :: string where
  "reasonGroupNotInspectable \<equiv> ''the process group cannot be inspected''"

definition hiddenOwner :: "int \<Rightarrow> string" where
  "hiddenOwner uid = ''no visible process holds the socket (owner uid '' @ Itoa uid @ '')''"

definition unknownMembership :: EndpointOwner where
  "unknownMembership = unattributable ''process group membership could not be enumerated''"

text \<open>The table, or what an unreadable file leaves to say.\<close>

definition socket_table :: "procfs \<Rightarrow> string + socketEntry list" where
  "socket_table fs =
     (case readSocketTable (pf_bigEndian fs) (pf_tcp fs) of
        (Some e, _) \<Rightarrow> Inl e
      | (None, es) \<Rightarrow> (case readSocketTable (pf_bigEndian fs) (pf_tcp6 fs) of
          (Some e, _) \<Rightarrow> Inl e
        | (None, es6) \<Rightarrow> Inr (es @ es6)))"

definition attributePGID :: "(addr_port \<Rightarrow> string) \<Rightarrow> procfs \<Rightarrow> probeConn \<Rightarrow> EndpointOwner" where
  "attributePGID prt fs c =
     (if \<not> pf_own fs then unattributable ''/proc belongs to another pid namespace''
      else case socket_table fs of
          Inl e \<Rightarrow> unattributable (''socket table unreadable: '' @ e)
        | Inr table \<Rightarrow> (case answeringSockets prt table c of (inodes, uid, reason) \<Rightarrow>
            if inodes = [] then unattributable reason
            else case findHolders fs inodes of
                None \<Rightarrow> unknownMembership
              | Some hs \<Rightarrow> classifyHolders inodes hs (hiddenOwner uid)))"

text \<open>The group is a Unix one with its id, or \<open>None\<close>; \<open>fs\<close> has the members of that group.\<close>

definition attributeSocket :: "(addr_port \<Rightarrow> string) \<Rightarrow> (int \<Rightarrow> procfs) \<Rightarrow> probeConn \<Rightarrow> int option \<Rightarrow> EndpointOwner" where
  "attributeSocket prt fs c pg = (case pg of
     None \<Rightarrow> unattributable reasonGroupNotInspectable
   | Some pgid \<Rightarrow> if pgid \<le> 1 then unattributable reasonGroupNotInspectable else attributePGID prt (fs pgid) c)"

definition attributeProbe :: "(addr_port \<Rightarrow> string) \<Rightarrow> (int \<Rightarrow> procfs) \<Rightarrow> probeConn \<Rightarrow> int option \<Rightarrow> EndpointOwner" where
  "attributeProbe prt fs c pg =
     (if ap_Addr (pc_remote c) = NoAddr then unattributable ''the probe connection was not recorded''
      else (attributeSocket prt fs c pg)\<lparr>eo_Address := Some (pc_remote c)\<rparr>)"

section \<open>Rows of the table\<close>

text \<open>How the kernel prints an address: the bytes of its words in hexadecimal, then the port.\<close>

definition upper_hex :: "nat \<Rightarrow> char" where
  "upper_hex n = char_of (if n < 10 then 48 + n else 55 + n)"

definition hex_byte :: "8 word \<Rightarrow> string" where
  "hex_byte b = [upper_hex (unat b div 16), upper_hex (unat b mod 16)]"

definition hex_port :: "nat \<Rightarrow> string" where
  "hex_port p = map upper_hex [p div 4096, p div 256 mod 16, p div 16 mod 16, p mod 16]"

definition kernel_addr :: "bool \<Rightarrow> 8 word list \<Rightarrow> nat \<Rightarrow> string" where
  "kernel_addr big bs port = concat (map hex_byte (network_order big bs)) @ '':'' @ hex_port port"

lemma hex_val_digit [simp]: "n < 16 \<Longrightarrow> hex_val (upper_hex n) = Some n"
  by (simp add: hex_val_def upper_hex_def of_char_of Let_def)

lemma upper_hex_colon: "n < 16 \<Longrightarrow> upper_hex n \<noteq> CHR '':''"
  using hex_val_digit [of n] by (auto simp: hex_val_def)

lemma unat_byte: "unat (b :: 8 word) < 256"
  using unsigned_less [of b] by simp

lemma DecodeString_hex [simp]: "DecodeString (concat (map hex_byte bs)) = Some bs"
proof (induction bs)
  case (Cons b bs)
  have "unat b div 16 < 16" using unat_byte [of b] by simp
  moreover have "16 * (unat b div 16) + unat b mod 16 = unat b" by simp
  ultimately show ?case using Cons by (simp add: hex_byte_def)
qed simp

lemma hex_port_parses:
  assumes "p < 65536"
  shows "ParseHex 16 (hex_port p) = Some p"
proof -
  have d: "p div 256 = p div 16 div 16" "p div 4096 = p div 16 div 16 div 16" by (simp_all add: div_mult2_eq)
  have "p div 16 < 4096" using assms by (simp add: less_mult_imp_div_less)
  then have "p div 16 div 16 < 256" by (simp add: less_mult_imp_div_less)
  then have small: "p div 16 div 16 div 16 < 16" by (simp add: less_mult_imp_div_less)
  have "16 * (p div 16 div 16 div 16) + p div 16 div 16 mod 16 = p div 16 div 16" by (rule mult_div_mod_eq)
  moreover have "16 * (p div 16 div 16) + p div 16 mod 16 = p div 16" by (rule mult_div_mod_eq)
  moreover have "16 * (p div 16) + p mod 16 = p" by (rule mult_div_mod_eq)
  ultimately have "hex_number 0 (hex_port p) = Some p"
    using small unfolding hex_port_def d list.map hex_number.simps by (simp del: mult_div_mod_eq)
  then show ?thesis using assms by (simp add: ParseHex_def hex_port_def)
qed

lemma hex_bytes_no_colon: "CHR '':'' \<notin> set (concat (map hex_byte bs))"
proof
  assume "CHR '':'' \<in> set (concat (map hex_byte bs))"
  then obtain b where "CHR '':'' \<in> set (hex_byte b)" by auto
  then have "CHR '':'' = upper_hex (unat b div 16) \<or> CHR '':'' = upper_hex (unat b mod 16)" by (simp add: hex_byte_def)
  moreover have "unat b div 16 < 16" using unat_byte [of b] by simp
  ultimately show False using upper_hex_colon [of "unat b div 16"] upper_hex_colon [of "unat b mod 16"] by auto
qed

lemma network_order_length: "length bs mod 4 = 0 \<Longrightarrow> length (network_order big bs) = length bs"
  by (induction big bs rule: network_order.induct) (auto simp: mod_Suc split: if_splits)

lemma network_order_twice: "length bs mod 4 = 0 \<Longrightarrow> network_order big (network_order big bs) = bs"
  by (induction big bs rule: network_order.induct) (auto simp: mod_Suc split: if_splits)

text \<open>
  A row of the socket table is read back as the address and port the kernel printed, on a host of either byte
  order, and an IPv4 address that the kernel prints in its IPv6 form is the IPv4 address.
\<close>

theorem socket_addr_roundtrip:
  assumes "length bs = 4 \<or> length bs = 16" and "port < 65536"
  shows "parseSocketAddr big (kernel_addr big bs port) =
    Some \<lparr>ap_Addr = Unmap (if length bs = 4 then V4 bs else V6 bs []), ap_Port = port\<rparr>"
proof -
  have four: "length bs mod 4 = 0" using assms(1) by auto
  have cut: "Cut1 (CHR '':'') (kernel_addr big bs port) = (concat (map hex_byte (network_order big bs)), hex_port port, True)"
    using Cut1_found [OF hex_bytes_no_colon] by (simp add: kernel_addr_def)
  have "length (network_order big bs) = length bs" by (rule network_order_length [OF four])
  then show ?thesis
    using assms network_order_twice [OF four, of big]
    by (auto simp: parseSocketAddr_def cut hex_port_parses AddrFromSlice_def)
qed

lemma socket_addr_roundtrip_witness:
  "parseSocketAddr False (kernel_addr False [127, 0, 0, 1] 8080) = Some \<lparr>ap_Addr = V4 [127, 0, 0, 1], ap_Port = 8080\<rparr>"
  by (subst socket_addr_roundtrip) (simp_all add: Unmap_def)

section \<open>What an attribution proves\<close>

text \<open>The listeners on the port that the kernel prefers.\<close>

definition most_specific :: "socketEntry list \<Rightarrow> probeConn \<Rightarrow> socketEntry list" where
  "most_specific table c =
     filter (\<lambda>e. listens c e \<and> listener_rank (pc_remote c) (se_local e) < 3 \<and>
       list_all (\<lambda>e'. listens c e' \<longrightarrow> listener_rank (pc_remote c) (se_local e) \<le> listener_rank (pc_remote c) (se_local e')) table) table"

definition best_rank :: "probeConn \<Rightarrow> socketEntry list \<Rightarrow> nat" where
  "best_rank c table = fold (\<lambda>e b. if listens c e then min b (listener_rank (pc_remote c) (se_local e)) else b) table 3"

lemma best_rank_snoc:
  "best_rank c (table @ [e]) = (if listens c e then min (best_rank c table) (listener_rank (pc_remote c) (se_local e)) else best_rank c table)"
  by (simp add: best_rank_def)

lemma best_rank_min:
  "best_rank c table \<le> 3 \<and> (\<forall>e \<in> set table. listens c e \<longrightarrow> best_rank c table \<le> listener_rank (pc_remote c) (se_local e)) \<and>
   (best_rank c table < 3 \<longrightarrow> (\<exists>e \<in> set table. listens c e \<and> listener_rank (pc_remote c) (se_local e) = best_rank c table))"
proof (induction table rule: rev_induct)
  case Nil
  show ?case by (simp add: best_rank_def)
next
  case (snoc e table)
  then show ?case
    by (cases "listens c e"; cases "best_rank c table \<le> listener_rank (pc_remote c) (se_local e)")
      (auto simp: best_rank_snoc min_def)
qed

lemma listener_step_simp:
  "listener_step c e (best, inodes, uid) =
    (if \<not> listens c e then (best, inodes, uid)
     else if listener_rank (pc_remote c) (se_local e) < best then (listener_rank (pc_remote c) (se_local e), [se_inode e], se_uid e)
     else if listener_rank (pc_remote c) (se_local e) = best \<and> best < 3 then (best, inodes @ [se_inode e], uid)
     else (best, inodes, uid))"
  by (auto simp: listener_step_def Let_def)

definition best_listeners :: "probeConn \<Rightarrow> nat \<Rightarrow> socketEntry list \<Rightarrow> socketEntry list" where
  "best_listeners c b table = filter (\<lambda>e. listens c e \<and> listener_rank (pc_remote c) (se_local e) = b \<and> b < 3) table"

lemma listener_fold: "\<exists>uid. fold (listener_step c) table (3, [], 0) = (best_rank c table, map se_inode (best_listeners c (best_rank c table) table), uid)"
proof (induction table rule: rev_induct)
  case Nil
  show ?case by (simp add: best_rank_def best_listeners_def)
next
  case (snoc e table)
  let ?r = "listener_rank (pc_remote c) (se_local e)" and ?b = "best_rank c table"
  from snoc obtain uid where f: "fold (listener_step c) table (3, [], 0) = (?b, map se_inode (best_listeners c ?b table), uid)" by blast
  have last: "best_listeners c b (table @ [e]) = best_listeners c b table @ (if listens c e \<and> ?r = b \<and> b < 3 then [e] else [])" for b
    by (simp add: best_listeners_def)
  consider "\<not> listens c e" | "listens c e" "?r < ?b" | "listens c e" "?r = ?b" | "listens c e" "?b < ?r" by linarith
  then show ?case
  proof cases
    case 1
    then show ?thesis by (simp add: f listener_step_simp best_rank_snoc last)
  next
    case 2
    then have "best_listeners c ?r table = []"
      using best_rank_min [of c table] by (auto simp: best_listeners_def filter_empty_conv)
    moreover have "?r < 3" using 2(2) best_rank_min [of c table] by simp
    ultimately show ?thesis using 2 by (simp add: f listener_step_simp best_rank_snoc last)
  next
    case 3
    then show ?thesis by (simp add: f listener_step_simp best_rank_snoc last)
  next
    case 4
    then show ?thesis by (simp add: f listener_step_simp best_rank_snoc last)
  qed
qed

lemma best_is_most_specific: "best_listeners c (best_rank c table) table = most_specific table c"
  unfolding best_listeners_def most_specific_def
proof (rule filter_cong [OF refl])
  fix e assume e: "e \<in> set table"
  let ?r = "\<lambda>e. listener_rank (pc_remote c) (se_local e)" and ?b = "best_rank c table"
  note min = best_rank_min [of c table]
  show "listens c e \<and> ?r e = ?b \<and> ?b < 3 \<longleftrightarrow> listens c e \<and> ?r e < 3 \<and> list_all (\<lambda>e'. listens c e' \<longrightarrow> ?r e \<le> ?r e') table"
  proof
    assume "listens c e \<and> ?r e < 3 \<and> list_all (\<lambda>e'. listens c e' \<longrightarrow> ?r e \<le> ?r e') table"
    moreover from this have "?b < 3" using min e by (meson le_less_trans)
    ultimately show "listens c e \<and> ?r e = ?b \<and> ?b < 3" using min e by (metis le_antisym list_all_iff)
  qed (use min in \<open>auto simp: list_all_iff\<close>)
qed

lemma listenerSockets_exact: "fst (listenerSockets table c) = map se_inode (most_specific table c)"
  using listener_fold [of c table] by (auto simp: listenerSockets_def best_is_most_specific)

text \<open>
  The sockets that answered a connection: its own row when that has an identity, else, while it is queued, the
  preferred listeners.
\<close>

definition answers :: "socketEntry list \<Rightarrow> probeConn \<Rightarrow> nat list \<Rightarrow> bool" where
  "answers table c inodes =
     (inodes \<noteq> [] \<and> (case find (server_row c) table of
        None \<Rightarrow> False
      | Some e \<Rightarrow> inodes = (if se_inode e \<noteq> 0 then [se_inode e]
          else if se_state e = tcpEstablished \<or> se_state e = tcpSynRecv then map se_inode (most_specific table c) else [])))"

lemma answeringSockets_exact: "answers table c inodes \<longleftrightarrow> inodes \<noteq> [] \<and> fst (answeringSockets prt table c) = inodes"
proof -
  obtain ids uid where l: "listenerSockets table c = (ids, uid)" by (rule prod.exhaust)
  then have "ids = map se_inode (most_specific table c)" using listenerSockets_exact [of table c] by simp
  with l show ?thesis by (auto simp: answers_def answeringSockets_def split: option.splits)
qed

definition held_by :: "procfs \<Rightarrow> int list \<Rightarrow> nat \<Rightarrow> bool" where
  "held_by fs pids i = list_ex (\<lambda>pid. i \<in> set (held_sockets fs pid)) pids"

definition outsiders :: "procfs \<Rightarrow> int list \<Rightarrow> int list" where
  "outsiders fs members = (case pf_dir fs of
     None \<Rightarrow> [] | Some names \<Rightarrow> filter (\<lambda>pid. 0 < pid \<and> pid \<notin> set members) (List.map_filter Atoi names))"

definition same_user :: "procfs \<Rightarrow> int list \<Rightarrow> int list" where
  "same_user fs pids = filter (\<lambda>pid. processEUID fs pid = pf_geteuid fs) pids"

definition holder_record :: "procfs \<Rightarrow> bool \<Rightarrow> int \<Rightarrow> socketHolder" where
  "holder_record fs member pid =
     (let sameUser = (member \<or> processEUID fs pid = pf_geteuid fs)
      in \<lparr>sh_pid = pid, sh_command = (if sameUser then processName fs pid else []), sh_member = member, sh_sameUser = sameUser\<rparr>)"

lemma holder_record_simps [simp]:
  "sh_pid (holder_record fs member pid) = pid" "sh_member (holder_record fs member pid) = member"
  "sh_sameUser (holder_record fs member pid) = (member \<or> processEUID fs pid = pf_geteuid fs)"
  by (simp_all add: holder_record_def Let_def)

lemma collect_set:
  "set (fold (collectHolders fs member want) pids hs) =
    set hs \<union> {(i, holder_record fs member pid) | i pid. pid \<in> set pids \<and> i \<in> set want \<and> i \<in> set (held_sockets fs pid)}"
proof (induction pids arbitrary: hs)
  case (Cons pid pids)
  then show ?case by (auto simp: collectHolders_def holder_record_def Let_def)
qed simp

text \<open>What was found, and for whom: every socket a member holds, and, unless members hold them all, every one an outsider holds.\<close>

lemma findHolders_spec:
  assumes "findHolders fs inodes = Some hs" "pf_members fs = Some members"
  shows "(i, h) \<in> set hs \<and> sh_member h \<longleftrightarrow> (\<exists>pid \<in> set members. h = holder_record fs True pid \<and> i \<in> set inodes \<and> i \<in> set (held_sockets fs pid))"
    and "(i, h) \<in> set hs \<and> \<not> sh_member h \<Longrightarrow>
      \<exists>pid \<in> set (outsiders fs members). h = holder_record fs False pid \<and> i \<in> set inodes \<and> i \<in> set (held_sockets fs pid)"
    and "list_all (held_by fs members) inodes \<or>
      (\<forall>pid \<in> set (outsiders fs members). \<forall>i \<in> set inodes. i \<in> set (held_sockets fs pid) \<longrightarrow> (i, holder_record fs False pid) \<in> set hs)"
proof -
  define ms where "ms = fold (collectHolders fs True inodes) members []"
  have ms: "set ms = {(i, holder_record fs True pid) | i pid. pid \<in> set members \<and> i \<in> set inodes \<and> i \<in> set (held_sockets fs pid)}"
    unfolding ms_def collect_set by simp
  have cases: "hs = ms \<and> card (set (map fst ms)) = length inodes \<or> hs = ms \<and> outsiders fs members = [] \<or>
      hs = fold (collectHolders fs False inodes) (outsiders fs members) ms"
    using assms by (auto simp: findHolders_def Let_def ms_def outsiders_def split: if_splits option.splits)
  then have hs: "set hs = set ms \<or> set hs = set ms \<union>
      {(i, holder_record fs False pid) | i pid. pid \<in> set (outsiders fs members) \<and> i \<in> set inodes \<and> i \<in> set (held_sockets fs pid)}"
    by (elim disjE conjE) (simp_all only: collect_set; blast)+
  show "(i, h) \<in> set hs \<and> sh_member h \<longleftrightarrow> (\<exists>pid \<in> set members. h = holder_record fs True pid \<and> i \<in> set inodes \<and> i \<in> set (held_sockets fs pid))"
    using hs unfolding ms by auto
  show "\<exists>pid \<in> set (outsiders fs members). h = holder_record fs False pid \<and> i \<in> set inodes \<and> i \<in> set (held_sockets fs pid)"
    if "(i, h) \<in> set hs \<and> \<not> sh_member h"
    using that hs unfolding ms by auto
  show "list_all (held_by fs members) inodes \<or>
      (\<forall>pid \<in> set (outsiders fs members). \<forall>i \<in> set inodes. i \<in> set (held_sockets fs pid) \<longrightarrow> (i, holder_record fs False pid) \<in> set hs)"
    using cases
  proof (elim disjE conjE)
    assume card: "card (set (map fst ms)) = length inodes"
    have "set (map fst ms) \<subseteq> set inodes" using ms by auto
    moreover have "card (set inodes) \<le> card (set (map fst ms))" using card card_length [of inodes] by simp
    ultimately have "set (map fst ms) = set inodes" by (intro card_seteq) simp_all
    then have "held_by fs members i" if "i \<in> set inodes" for i
      using that ms by (force simp: held_by_def list_ex_iff)
    then show ?thesis by (simp add: list_all_iff)
  next
    assume "hs = fold (collectHolders fs False inodes) (outsiders fs members) ms"
    then show ?thesis by (auto simp: collect_set)
  qed simp
qed

lemma length_map_filter_full: "length (List.map_filter f xs) = length xs \<longleftrightarrow> (\<forall>x \<in> set xs. f x \<noteq> None)"
proof (induction xs)
  case (Cons x xs)
  have "length (List.map_filter f xs) \<le> length xs" by (simp add: List.map_filter_def)
  with Cons show ?case by (cases "f x") (auto simp: List.map_filter_simps)
qed (simp add: List.map_filter_def)

lemma holders_of_iff: "h \<in> set (holders_of hs i) \<longleftrightarrow> (i, h) \<in> set hs"
  by (force simp: holders_of_def)

definition side_ours :: "holders \<Rightarrow> nat \<Rightarrow> bool" where
  "side_ours hs i = (\<exists>h. (i, h) \<in> set hs \<and> sh_member h)"

definition side_theirs :: "holders \<Rightarrow> nat \<Rightarrow> bool" where
  "side_theirs hs i = (\<not> side_ours hs i \<and> (\<exists>h. (i, h) \<in> set hs \<and> \<not> sh_member h \<and> sh_sameUser h))"

lemma find_exists: "(\<exists>x. find P xs = Some x) \<longleftrightarrow> (\<exists>x \<in> set xs. P x)"
  by (metis find_None_iff find_Some_iff not_Some_eq nth_mem)

lemma socket_side_ours: "(\<exists>h. socket_side (holders_of hs i) = SideOurs h) \<longleftrightarrow> side_ours hs i"
  using find_exists [of sh_member "holders_of hs i"]
  by (auto simp: socket_side_def side_ours_def holders_of_iff split: option.splits)

lemma socket_side_theirs: "(\<exists>h. socket_side (holders_of hs i) = SideTheirs h) \<longleftrightarrow> side_theirs hs i"
  using find_exists [of sh_member "holders_of hs i"] find_exists [of "\<lambda>h. \<not> sh_member h \<and> sh_sameUser h" "holders_of hs i"]
  by (auto simp: socket_side_def side_theirs_def side_ours_def holders_of_iff split: option.splits)

lemma side_is_ours: "(\<exists>y. (case s of SideOurs h \<Rightarrow> Some h | _ \<Rightarrow> None) = Some y) \<longleftrightarrow> (\<exists>h. s = SideOurs h)"
  by (cases s) auto

lemma side_is_theirs: "(\<exists>y. (case s of SideTheirs h \<Rightarrow> Some h | _ \<Rightarrow> None) = Some y) \<longleftrightarrow> (\<exists>h. s = SideTheirs h)"
  by (cases s) auto

lemma classify_result:
  assumes "inodes \<noteq> []"
  shows "eo_Result (classifyHolders inodes hs unseen) =
    (if list_all (side_ours hs) inodes then OwnerOwned else if list_all (side_theirs hs) inodes then OwnerForeign else OwnerUnattributable)"
proof -
  have "length (ours (map (\<lambda>i. socket_side (holders_of hs i)) inodes)) = length inodes \<longleftrightarrow> list_all (side_ours hs) inodes"
    using length_map_filter_full [of "\<lambda>s. case s of SideOurs h \<Rightarrow> Some h | _ \<Rightarrow> None" "map (\<lambda>i. socket_side (holders_of hs i)) inodes"]
    by (simp add: ours_def list_all_iff side_is_ours socket_side_ours)
  moreover have "length (theirs (map (\<lambda>i. socket_side (holders_of hs i)) inodes)) = length inodes \<longleftrightarrow> list_all (side_theirs hs) inodes"
    using length_map_filter_full [of "\<lambda>s. case s of SideTheirs h \<Rightarrow> Some h | _ \<Rightarrow> None" "map (\<lambda>i. socket_side (holders_of hs i)) inodes"]
    by (simp add: theirs_def list_all_iff side_is_theirs socket_side_theirs)
  ultimately show ?thesis
    using assms by (simp add: classifyHolders_def Let_def found_owner_def unattributable_def)
qed

lemma sides_of_holders:
  assumes "findHolders fs inodes = Some hs" "pf_members fs = Some members"
  shows "list_all (side_ours hs) inodes \<longleftrightarrow> list_all (held_by fs members) inodes"
    and "inodes \<noteq> [] \<Longrightarrow> list_all (side_theirs hs) inodes \<longleftrightarrow>
      list_all (\<lambda>i. \<not> held_by fs members i \<and> held_by fs (same_user fs (outsiders fs members)) i) inodes"
proof -
  note spec = findHolders_spec [OF assms]
  have ours: "side_ours hs i \<longleftrightarrow> held_by fs members i" if "i \<in> set inodes" for i
    using spec(1) [of i] that unfolding side_ours_def held_by_def list_ex_iff by blast
  then show "list_all (side_ours hs) inodes \<longleftrightarrow> list_all (held_by fs members) inodes" by (simp add: list_all_iff)
  assume ne: "inodes \<noteq> []"
  show "list_all (side_theirs hs) inodes \<longleftrightarrow>
      list_all (\<lambda>i. \<not> held_by fs members i \<and> held_by fs (same_user fs (outsiders fs members)) i) inodes"
  proof
    assume theirs: "list_all (side_theirs hs) inodes"
    show "list_all (\<lambda>i. \<not> held_by fs members i \<and> held_by fs (same_user fs (outsiders fs members)) i) inodes"
      unfolding list_all_iff
    proof
      fix i assume i: "i \<in> set inodes"
      with theirs obtain h where h: "\<not> side_ours hs i" "(i, h) \<in> set hs \<and> \<not> sh_member h" "sh_sameUser h"
        by (auto simp: list_all_iff side_theirs_def)
      from spec(2) [OF h(2)] h(3) show "\<not> held_by fs members i \<and> held_by fs (same_user fs (outsiders fs members)) i"
        using ours [OF i] h(1) by (auto simp: held_by_def list_ex_iff same_user_def)
    qed
  next
    assume right: "list_all (\<lambda>i. \<not> held_by fs members i \<and> held_by fs (same_user fs (outsiders fs members)) i) inodes"
    then have "\<not> list_all (held_by fs members) inodes" using ne by (cases inodes) auto
    then have found: "\<forall>pid \<in> set (outsiders fs members). \<forall>i \<in> set inodes. i \<in> set (held_sockets fs pid) \<longrightarrow> (i, holder_record fs False pid) \<in> set hs"
      using spec(3) by blast
    show "list_all (side_theirs hs) inodes"
      unfolding list_all_iff
    proof
      fix i assume i: "i \<in> set inodes"
      then obtain pid where "pid \<in> set (outsiders fs members)" "processEUID fs pid = pf_geteuid fs" "i \<in> set (held_sockets fs pid)"
        using right by (auto simp: list_all_iff held_by_def list_ex_iff same_user_def)
      then have "(i, holder_record fs False pid) \<in> set hs" "sh_sameUser (holder_record fs False pid)" "\<not> sh_member (holder_record fs False pid)"
        using found i by auto
      then show "side_theirs hs i" using ours [OF i] right i unfolding side_theirs_def list_all_iff by blast
    qed
  qed
qed

text \<open>\<open>identified\<close>: the table and the members could be read, and these sockets answered.\<close>

definition identified :: "procfs \<Rightarrow> probeConn \<Rightarrow> int list \<Rightarrow> nat list \<Rightarrow> bool" where
  "identified fs c members inodes =
     (pf_own fs \<and> pf_members fs = Some members \<and> (case socket_table fs of Inl _ \<Rightarrow> False | Inr table \<Rightarrow> answers table c inodes))"

lemma attribute_cases:
  "eo_Result (attributePGID prt fs c) = OwnerUnattributable \<and> (\<nexists>members inodes. identified fs c members inodes) \<or>
   (\<exists>members inodes uid hs. identified fs c members inodes \<and> inodes \<noteq> [] \<and> findHolders fs inodes = Some hs \<and> pf_members fs = Some members \<and>
      (\<forall>members' inodes'. identified fs c members' inodes' \<longrightarrow> members' = members \<and> inodes' = inodes) \<and>
      attributePGID prt fs c = classifyHolders inodes hs (hiddenOwner uid))"
proof (cases "pf_own fs \<and> (\<exists>table members inodes. socket_table fs = Inr table \<and> pf_members fs = Some members \<and> answers table c inodes)")
  case True
  then obtain table members inodes where t: "pf_own fs" "socket_table fs = Inr table" "pf_members fs = Some members" "answers table c inodes" by blast
  obtain uid reason where a: "answeringSockets prt table c = (inodes, uid, reason)" "inodes \<noteq> []"
    using t(4) answeringSockets_exact [of table c inodes prt] by (metis prod.collapse)
  have "\<exists>hs. findHolders fs inodes = Some hs" using t(3) by (auto simp: findHolders_def Let_def split: option.splits)
  then obtain hs where hs: "findHolders fs inodes = Some hs" by blast
  have "attributePGID prt fs c = classifyHolders inodes hs (hiddenOwner uid)"
    using t a hs by (simp add: attributePGID_def)
  moreover have "members' = members \<and> inodes' = inodes" if "identified fs c members' inodes'" for members' inodes'
    using that t answeringSockets_exact [of table c _ prt] by (auto simp: identified_def)
  moreover have "identified fs c members inodes" using t by (simp add: identified_def)
  ultimately show ?thesis using hs a(2) t(3) by blast
next
  case False
  then have none: "\<nexists>members inodes. identified fs c members inodes" by (auto simp: identified_def split: sum.splits)
  have "eo_Result (attributePGID prt fs c) = OwnerUnattributable"
  proof (cases "\<not> pf_own fs \<or> (\<exists>e. socket_table fs = Inl e)")
    case True
    then show ?thesis by (auto simp: attributePGID_def unattributable_def found_owner_def)
  next
    case readable: False
    then obtain table where t: "socket_table fs = Inr table" "pf_own fs" by (cases "socket_table fs") auto
    obtain inodes uid reason where a: "answeringSockets prt table c = (inodes, uid, reason)" by (rule prod_cases3)
    have "inodes = [] \<or> pf_members fs = None"
      using False t a answeringSockets_exact [of table c inodes prt] by (cases "pf_members fs") auto
    then show ?thesis
      using t a by (auto simp: attributePGID_def unattributable_def found_owner_def unknownMembership_def findHolders_def)
  qed
  then show ?thesis using none by blast
qed

text \<open>
  C15. An owner is claimed on positive identification only, and always then: an answer is owned exactly when every
  socket that can have answered the connection is held by a member of the process group, and foreign exactly when
  no member holds any of them and each is held by another process of the same user. Without the row of this very
  connection in the kernel's table, or without the members of the group, nothing is claimed.
\<close>

theorem attribution_exact:
  "(eo_Result (attributePGID prt fs c) = OwnerOwned \<longleftrightarrow>
     (\<exists>members inodes. identified fs c members inodes \<and> list_all (held_by fs members) inodes)) \<and>
   (eo_Result (attributePGID prt fs c) = OwnerForeign \<longleftrightarrow>
     (\<exists>members inodes. identified fs c members inodes \<and>
        list_all (\<lambda>i. \<not> held_by fs members i \<and> held_by fs (same_user fs (outsiders fs members)) i) inodes))"
  using attribute_cases [of prt fs c]
proof (elim disjE exE conjE)
  assume "eo_Result (attributePGID prt fs c) = OwnerUnattributable" "\<nexists>members inodes. identified fs c members inodes"
  then show ?thesis by auto
next
  fix members inodes uid hs
  assume i: "identified fs c members inodes" "inodes \<noteq> []" "findHolders fs inodes = Some hs" "pf_members fs = Some members"
    "\<forall>members' inodes'. identified fs c members' inodes' \<longrightarrow> members' = members \<and> inodes' = inodes"
    "attributePGID prt fs c = classifyHolders inodes hs (hiddenOwner uid)"
  have unique: "(\<exists>members' inodes'. identified fs c members' inodes' \<and> P members' inodes') \<longleftrightarrow> P members inodes" for P
    using i(1,5) by blast
  have "\<not> (list_all (held_by fs members) inodes \<and> list_all (side_theirs hs) inodes)"
    using i(2) unfolding sides_of_holders(2) [OF i(3,4,2)] by (cases inodes) auto
  then show ?thesis
    unfolding unique i(6) classify_result [OF i(2)] sides_of_holders(1) [OF i(3,4)] sides_of_holders(2) [OF i(3,4,2), symmetric]
    by auto
qed

end
