(* ===== verification/Session_Registry.thy ===== *)
theory Session_Registry
  imports Endpoint_Owner Session_Lease Runner_Teardown Crash_Correct
begin

text \<open>
  The sessions of this user (\<^verbatim>\<open>internal/registry/registry.go\<close>), whether their supervisors still run
  (\<^verbatim>\<open>internal/daemon\<close>, Linux), and the session a foreign answer belongs to (\<open>placeAnswer\<close> in
  \<^verbatim>\<open>internal/runner/attest.go\<close>), with the policies that refuse such an answer. \<open>denied t pid\<close>: at instant \<open>t\<close> this
  process may not signal \<open>pid\<close>.
\<close>

section \<open>The stat file of a process\<close>

text \<open>The text of \<^verbatim>\<open>/proc/<pid>/stat\<close>; the command name may hold anything, so its last parenthesis ends it.\<close>

definition parse_stat :: "string \<Rightarrow> ProcInfo option" where
  "parse_stat data =
     (case cut_last (CHR '')'') data of
        None \<Rightarrow> None
      | Some (before_name, after) \<Rightarrow>
          if after = [] then None
          else (let rest = Fields (tl after)
                in if length rest < 20 \<or> rest ! 0 = [] then None
                   else case (Atoi (rest ! 2), ParseUint (rest ! 19)) of
                       (Some pgid, Some start) \<Rightarrow> Some \<lparr>in_State = hd (rest ! 0), in_PGID = pgid, in_StartTime = start\<rparr>
                     | _ \<Rightarrow> None))"

section \<open>Liveness\<close>

record DaemonRecord = Record +
  dr_Addr :: string
  dr_StartedAt :: int

definition IsAlive :: "(nat \<Rightarrow> int \<Rightarrow> bool) \<Rightarrow> int \<Rightarrow> ptable \<Rightarrow> bool \<times> ptable" where
  "IsAlive denied pid k = (holder k (pt_now k) pid \<noteq> None \<and> \<not> denied (pt_now k) pid, wait_tick k)"

definition IsRunning :: "(nat \<Rightarrow> int \<Rightarrow> bool) \<Rightarrow> int \<Rightarrow> ptable \<Rightarrow> bool \<times> ptable" where
  "IsRunning denied pid k = (case IsAlive denied pid k of
     (False, k1) \<Rightarrow> (False, k1)
   | (True, k1) \<Rightarrow> (case ProcStat pid k1 of
       (Inl _, k2) \<Rightarrow> (True, k2)
     | (Inr info, k2) \<Rightarrow> (\<not> ExitedState (in_State info), k2)))"

definition procStartTime :: "int \<Rightarrow> ptable \<Rightarrow> (stat_error + int) \<times> ptable" where
  "procStartTime pid k = (case ProcStat pid k of
     (Inl e, k1) \<Rightarrow> (Inl e, k1) | (Inr info, k1) \<Rightarrow> (Inr (in_StartTime info), k1))"

definition procRunningStart :: "int \<Rightarrow> ptable \<Rightarrow> (stat_error + int \<times> bool) \<times> ptable" where
  "procRunningStart pid k = (case ProcStat pid k of
     (Inl e, k1) \<Rightarrow> (Inl e, k1) | (Inr info, k1) \<Rightarrow> (Inr (in_StartTime info, \<not> ExitedState (in_State info)), k1))"

text \<open>The PID file as it was read, \<open>None\<close> when it could not be.\<close>

definition IsAliveFromPIDFile :: "(nat \<Rightarrow> int \<Rightarrow> bool) \<Rightarrow> DaemonRecord option \<Rightarrow> ptable \<Rightarrow> (bool \<times> int) \<times> ptable" where
  "IsAliveFromPIDFile denied f k =
     (case f of
        None \<Rightarrow> ((False, 0), k)
      | Some rec \<Rightarrow>
          if rd_PID rec \<le> 0 then ((False, 0), k)
          else case IsAlive denied (rd_PID rec) k of
              (False, k1) \<Rightarrow> ((False, rd_PID rec), k1)
            | (True, k1) \<Rightarrow>
                if dr_StartedAt rec = 0 then ((True, rd_PID rec), k1)
                else case procStartTime (rd_PID rec) k1 of
                    (Inl _, k2) \<Rightarrow> ((True, rd_PID rec), k2)
                  | (Inr cur, k2) \<Rightarrow> ((cur = 0 \<or> cur = dr_StartedAt rec, rd_PID rec), k2))"

definition StartProven :: "(nat \<Rightarrow> int \<Rightarrow> bool) \<Rightarrow> DaemonRecord \<Rightarrow> ptable \<Rightarrow> bool \<times> ptable" where
  "StartProven denied rec k =
     (if rd_PID rec \<le> 0 \<or> dr_StartedAt rec = 0 then (False, k)
      else case IsAlive denied (rd_PID rec) k of
          (False, k1) \<Rightarrow> (False, k1)
        | (True, k1) \<Rightarrow> (case procRunningStart (rd_PID rec) k1 of
            (Inl _, k2) \<Rightarrow> (False, k2)
          | (Inr (cur, running), k2) \<Rightarrow> (running \<and> cur = dr_StartedAt rec, k2)))"

section \<open>The registry\<close>

text \<open>\<open>sn_Worktree\<close> is the worktree of the project's owner, empty without one.\<close>

record Session =
  sn_Hash :: string
  sn_Project :: Project
  sn_Worktree :: string
  sn_Live :: bool
  sn_PID :: int
  sn_Record :: "DaemonRecord option"

definition session_name :: "Session \<Rightarrow> string" where
  "session_name s = (if pj_Session (sn_Project s) = [] then ''default'' else pj_Session (sn_Project s))"

text \<open>A metadata file: its name, what reading it gives, and what the two reads of the PID file beside it give.\<close>

record meta_file =
  mf_Base :: string
  mf_Project :: "(Project \<times> string) option"
  mf_First :: "DaemonRecord option"
  mf_Second :: "DaemonRecord option"

definition meta_hash :: "string \<Rightarrow> string" where
  "meta_hash base =
     (let s = TrimPrefix base ''pc-'' in if HasSuffix s ''.meta.json'' then take (length s - 10) s else s)"

fun discover_each :: "(nat \<Rightarrow> int \<Rightarrow> bool) \<Rightarrow> meta_file list \<Rightarrow> ptable \<Rightarrow> Session list \<times> ptable" where
  "discover_each denied [] k = ([], k)"
| "discover_each denied (m # ms) k =
     (case mf_Project m of
        None \<Rightarrow> discover_each denied ms k
      | Some (project, worktree) \<Rightarrow> (case IsAliveFromPIDFile denied (mf_First m) k of
          ((alive, pid), k1) \<Rightarrow> (case discover_each denied ms k1 of
            (ss, k2) \<Rightarrow> (\<lparr>sn_Hash = meta_hash (mf_Base m), sn_Project = project, sn_Worktree = worktree, sn_Live = alive,
               sn_PID = (if alive then pid else 0), sn_Record = mf_Second m\<rparr> # ss, k2))))"

definition Discover :: "(nat \<Rightarrow> int \<Rightarrow> bool) \<Rightarrow> meta_file list \<Rightarrow> ptable \<Rightarrow> Session list \<times> ptable" where
  "Discover denied metas k = (case discover_each denied metas k of
     (ss, k1) \<Rightarrow> (sort_key (\<lambda>s. (pj_ConfigPath (sn_Project s), session_name s)) ss, k1))"

definition PortAssignment :: "Session \<Rightarrow> int \<Rightarrow> (string \<times> string) option" where
  "PortAssignment s port =
     (if port \<le> 0 then None
      else find (\<lambda>(process, name). gget (the_default [] (gget (pj_Ports (sn_Project s)) process)) name = Some port)
             (concat (map (\<lambda>process. map (Pair process) (sort (gokeys (the_default [] (gget (pj_Ports (sn_Project s)) process)))))
                (sort (gokeys (pj_Ports (sn_Project s)))))))"

section \<open>Placing a foreign answer\<close>

definition ownerSession :: "Session \<Rightarrow> string \<Rightarrow> string \<Rightarrow> string \<Rightarrow> OwnerSession" where
  "ownerSession s process port ev =
     \<lparr>on_Name = session_name s, on_RunID = pj_RunID (sn_Project s), on_ConfigPath = pj_ConfigPath (sn_Project s),
      on_Worktree = sn_Worktree s, on_Process = process, on_Port = port, on_Evidence = ev\<rparr>"

definition own_session :: "string \<Rightarrow> int \<Rightarrow> Session \<Rightarrow> bool" where
  "own_session runID self s =
     (runID \<noteq> [] \<and> pj_RunID (sn_Project s) = runID \<or> (case sn_Record s of None \<Rightarrow> False | Some rec \<Rightarrow> rd_PID rec = self))"

definition counts :: "(nat \<Rightarrow> int \<Rightarrow> bool) \<Rightarrow> string \<Rightarrow> int \<Rightarrow> Session \<Rightarrow> ptable \<Rightarrow> bool \<times> ptable" where
  "counts denied runID self s k =
     (if own_session runID self s then (True, k)
      else case sn_Record s of None \<Rightarrow> (False, k) | Some rec \<Rightarrow> StartProven denied rec k)"

definition group_of_holder :: "int \<Rightarrow> Session \<Rightarrow> ptable \<Rightarrow> Group option \<times> ptable" where
  "group_of_holder pid s k =
     (case sn_Record s of
        None \<Rightarrow> (None, k)
      | Some rec \<Rightarrow> (case rd_Groups rec of
          None \<Rightarrow> (None, k)
        | Some groups \<Rightarrow> recordedGroupOf pid groups (rd_Host rec) k))"

text \<open>\<open>found\<close> is the first session that leases the port, and whether it is this run's own.\<close>

fun place_each :: "(nat \<Rightarrow> int \<Rightarrow> bool) \<Rightarrow> string \<Rightarrow> int \<Rightarrow> int \<Rightarrow> int \<Rightarrow> Session list \<Rightarrow> (OwnerSession \<times> bool) option \<Rightarrow> ptable \<Rightarrow>
    (string \<times> OwnerSession option) \<times> ptable" where
  "place_each denied runID self pid port [] found k =
     ((case found of
         None \<Rightarrow> (ScopeOutsideSession, None)
       | Some (other, own) \<Rightarrow> if own then ([], None) else (ScopeCrossSession, Some other)), k)"
| "place_each denied runID self pid port (s # ss) found k =
     (case counts denied runID self s k of
        (False, k1) \<Rightarrow> place_each denied runID self pid port ss found k1
      | (True, k1) \<Rightarrow>
          (let own = own_session runID self s; leased = PortAssignment s port
           in case group_of_holder pid s k1 of
                (Some g, k2) \<Rightarrow>
                  ((if own then ([], None)
                    else (ScopeCrossSession, Some (ownerSession s (g_Name g)
                      (case leased of Some (process, name) \<Rightarrow> if process \<noteq> g_Name g then [] else name | None \<Rightarrow> []) EvidenceHolder))), k2)
              | (None, k2) \<Rightarrow>
                  place_each denied runID self pid port ss
                    (case (leased, found) of
                       (Some (process, name), None) \<Rightarrow> Some (ownerSession s process name EvidencePortLease, own)
                     | _ \<Rightarrow> found) k2))"

definition placeAnswer :: "(nat \<Rightarrow> int \<Rightarrow> bool) \<Rightarrow> Session list \<Rightarrow> string \<Rightarrow> int \<Rightarrow> int \<Rightarrow> addr_port option \<Rightarrow> ptable \<Rightarrow>
    (string \<times> OwnerSession option) \<times> ptable" where
  "placeAnswer denied sessions runID self pid address k =
     place_each denied runID self pid (case address of Some a \<Rightarrow> int (ap_Port a) | None \<Rightarrow> 0) sessions None k"

text \<open>\<open>None\<close> for the metadata files: listing them failed.\<close>

definition placeForeign :: "(nat \<Rightarrow> int \<Rightarrow> bool) \<Rightarrow> meta_file list option \<Rightarrow> string \<Rightarrow> int \<Rightarrow> EndpointOwner \<Rightarrow> ptable \<Rightarrow> EndpointOwner \<times> ptable" where
  "placeForeign denied metas runID self owner k =
     (if eo_Result owner \<noteq> OwnerForeign then (owner, k)
      else case metas of
          None \<Rightarrow> (owner, k)
        | Some ms \<Rightarrow> (case Discover denied ms k of
            (sessions, k1) \<Rightarrow> (case placeAnswer denied sessions runID self (eo_PID owner) (eo_Address owner) k1 of
              ((scope, other), k2) \<Rightarrow> (owner\<lparr>eo_Scope := scope, eo_Session := other\<rparr>, k2))))"

text \<open>\<open>group\<close> is the process group registered for the process; outer \<open>None\<close> when there is none.\<close>

definition attribute_answer :: "(addr_port \<Rightarrow> string) \<Rightarrow> (int \<Rightarrow> procfs) \<Rightarrow> (nat \<Rightarrow> int \<Rightarrow> bool) \<Rightarrow> meta_file list option \<Rightarrow> string \<Rightarrow> int \<Rightarrow>
    int option option \<Rightarrow> probeConn \<Rightarrow> ptable \<Rightarrow> EndpointOwner \<times> ptable" where
  "attribute_answer prt fs denied metas runID self pg conn k =
     (case pg of
        None \<Rightarrow> (unattributable ''the process has no group'', k)
      | Some g \<Rightarrow> placeForeign denied metas runID self (attributeProbe prt fs conn g) k)"

section \<open>Refusal\<close>

abbreviation refusedByReject :: string where "refusedByReject \<equiv> ''foreign_listener: reject''"
abbreviation refusedAsCrossSession :: string where "refusedAsCrossSession \<equiv> ''cross_session''"

definition refusalOf :: "EndpointOwner option \<Rightarrow> bool \<Rightarrow> bool \<Rightarrow> string" where
  "refusalOf owner reject refuseCross =
     (case owner of
        None \<Rightarrow> []
      | Some a \<Rightarrow>
          if eo_Result a \<noteq> OwnerForeign then []
          else if reject then refusedByReject
          else if refuseCross \<and> eo_Scope a = ScopeCrossSession then refusedAsCrossSession
          else [])"

definition Describe :: "OwnerSession \<Rightarrow> string" where
  "Describe s =
     (let what = on_Process s @ (if on_Port s \<noteq> [] then ''.'' @ on_Port s else []);
          detail = (if what \<noteq> [] then [what] else []) @ (if on_Worktree s \<noteq> [] then [''in '' @ on_Worktree s] else []);
          desc = ''session '' @ Quote (on_Name s) @ (if detail \<noteq> [] then '' ('' @ Join detail '', '' @ '')'' else [])
      in if on_Evidence s = EvidenceHolder then ''of '' @ desc else ''on a port leased by '' @ desc)"

definition describeOwner :: "EndpointOwner \<Rightarrow> string" where
  "describeOwner a =
     ''PID '' @ Itoa (eo_PID a) @ (if eo_Command a \<noteq> [] then '' ('' @ eo_Command a @ '')'' else []) @
     (case eo_Session a of Some s \<Rightarrow> if eo_Scope a = ScopeCrossSession then '' '' @ Describe s else [] | None \<Rightarrow> [])"

definition address_text :: "(addr_port \<Rightarrow> string) \<Rightarrow> EndpointOwner \<Rightarrow> string" where
  "address_text prt a = (case eo_Address a of Some ap \<Rightarrow> prt ap | None \<Rightarrow> [])"

definition foreignListenerMessage :: "(addr_port \<Rightarrow> string) \<Rightarrow> string \<Rightarrow> string \<Rightarrow> EndpointOwner \<Rightarrow> string \<Rightarrow> string" where
  "foreignListenerMessage prt name probe a refusal =
     probe @ '' was answered at '' @ address_text prt a @ '' by '' @ describeOwner a @ '', which is not part of '' @ name @
     [CHR 0x27] @ ''s process tree; another server holds this address'' @
     (if refusal = refusedByReject then ''; foreign_listener: reject does not count that answer''
      else if refusal = refusedAsCrossSession
      then ''; verify does not count another live session's answer (verify --allow-cross-session counts it)''
      else '', so the probe does not show that '' @ name @ '' is serving'')"

definition foreignListenerError :: "(addr_port \<Rightarrow> string) \<Rightarrow> string \<Rightarrow> EndpointOwner \<Rightarrow> string" where
  "foreignListenerError prt name a =
     ''answered at '' @ address_text prt a @ '' by '' @ describeOwner a @ '', outside '' @ name @ [CHR 0x27] @ ''s process tree''"

section \<open>What a placement proves\<close>

text \<open>
  Between two instants the process with this pid and start time was not reaped and had not exited; and a process
  with this pid was in a group of this number, whose leader, then in it, had this start time.
\<close>

definition ran_between :: "ptable \<Rightarrow> ptable \<Rightarrow> int \<Rightarrow> int \<Rightarrow> bool" where
  "ran_between k k' pid start =
     (\<exists>t x. pt_now k \<le> t \<and> t < pt_now k' \<and> x \<in> set (pt_procs k t) \<and> pt_pid k x = pid \<and> pt_start k x = start \<and> \<not> ExitedState (pt_state k t x))"

definition member_between :: "ptable \<Rightarrow> ptable \<Rightarrow> int \<Rightarrow> Group \<Rightarrow> bool" where
  "member_between k k' pid g =
     (\<exists>t t' x y. pt_now k \<le> t \<and> t < t' \<and> t' < pt_now k' \<and> holder k t pid = Some x \<and> pt_pid k (pt_group k t x) = g_PGID g \<and>
        holder k t' (g_PGID g) = Some y \<and> pt_start k y = g_LeaderStart g)"

lemma quiet_state: "quiet k k' \<Longrightarrow> pt_state k' = pt_state k"
  unfolding quiet_def evolves_def by (metis ptable.select_convs(5) ptable.simps(20) ptable.surjective ptable.update_convs(16,17,18))

lemmas quiet_fields = evolves_fields [OF quiet_evolves]

lemma ran_between_mono:
  assumes "quiet k0 k" "quiet k' k1" "ran_between k k' pid start"
  shows "ran_between k0 k1 pid start"
proof -
  obtain t x where "pt_now k \<le> t" "t < pt_now k'" "x \<in> set (pt_procs k t)" "pt_pid k x = pid" "pt_start k x = start" "\<not> ExitedState (pt_state k t x)"
    using assms(3) by (auto simp: ran_between_def)
  then show ?thesis
    unfolding ran_between_def using quiet_fields [OF assms(1)] quiet_state [OF assms(1)] quiet_fields(10) [OF assms(2)]
    by (intro exI [of _ t] exI [of _ x]) auto
qed

lemma member_between_mono:
  assumes "quiet k0 k" "quiet k' k1" "member_between k k' pid g"
  shows "member_between k0 k1 pid g"
proof -
  obtain t t' x y where "pt_now k \<le> t" "t < t'" "t' < pt_now k'" "holder k t pid = Some x" "pt_pid k (pt_group k t x) = g_PGID g"
      "holder k t' (g_PGID g) = Some y" "pt_start k y = g_LeaderStart g"
    using assms(3) by (auto simp: member_between_def)
  then show ?thesis
    unfolding member_between_def using quiet_fields [OF assms(1)] quiet_fields(10) [OF assms(2)]
    by (intro exI [of _ t] exI [of _ t'] exI [of _ x] exI [of _ y]) auto
qed

lemma StartProven_cases:
  assumes "StartProven denied rec k = (b, k')"
  shows "\<not> b \<and> (k' = k \<or> k' = wait_tick k) \<or>
    (\<exists>st. ProcStat (rd_PID rec) (wait_tick k) = (st, k') \<and>
       (b \<longrightarrow> (\<exists>info. st = Inr info \<and> \<not> ExitedState (in_State info) \<and> in_StartTime info = dr_StartedAt rec)))"
proof (cases "rd_PID rec \<le> 0 \<or> dr_StartedAt rec = 0")
  case True
  then have "StartProven denied rec k = (False, k)" by (simp add: StartProven_def)
  then show ?thesis using assms by simp
next
  case False
  show ?thesis
  proof (cases "fst (IsAlive denied (rd_PID rec) k)")
    case True
    obtain st k2 where s: "ProcStat (rd_PID rec) (wait_tick k) = (st, k2)" by (rule prod.exhaust)
    have "IsAlive denied (rd_PID rec) k = (True, wait_tick k)" using True by (simp add: IsAlive_def)
    then show ?thesis using assms False s by (cases st) (simp_all add: StartProven_def procRunningStart_def)
  next
    case dead: False
    then have "IsAlive denied (rd_PID rec) k = (False, wait_tick k)" unfolding IsAlive_def fst_conv by simp
    then have "StartProven denied rec k = (False, wait_tick k)" using False by (simp add: StartProven_def)
    then show ?thesis using assms by simp
  qed
qed

lemma stat_facts:
  assumes "ProcStat pid k = (Inr info, k')"
  shows "\<exists>x. holder k (pt_now k) pid = Some x \<and> in_State info = pt_state k (pt_now k) x \<and> in_StartTime info = pt_start k x"
  using assms by (auto simp: ProcStat_def Let_def split: option.splits)

lemma StartProven_true:
  assumes "StartProven denied rec k = (b, k')"
  shows "quiet k k'" and "b \<Longrightarrow> ran_between k k' (rd_PID rec) (dr_StartedAt rec)"
proof -
  have "k' = k \<or> k' = wait_tick k \<or> (\<exists>st. ProcStat (rd_PID rec) (wait_tick k) = (st, k'))" using StartProven_cases [OF assms] by blast
  then show "quiet k k'"
    using quiet_refl [of k] quiet_tick [of k] quiet_trans [OF quiet_tick quiet_ProcStat, of "rd_PID rec" k _ k'] by fast
  let ?k = "wait_tick k"
  assume b
  then obtain info where p: "ProcStat (rd_PID rec) ?k = (Inr info, k')" "\<not> ExitedState (in_State info)" "in_StartTime info = dr_StartedAt rec"
    using StartProven_cases [OF assms] by blast
  from stat_facts [OF p(1)] obtain x where x: "holder ?k (pt_now ?k) (rd_PID rec) = Some x" "in_State info = pt_state ?k (pt_now ?k) x"
      "in_StartTime info = pt_start ?k x" by blast
  have "ran_between ?k k' (rd_PID rec) (dr_StartedAt rec)"
    unfolding ran_between_def using x p(2,3) holder_Some [OF x(1)] stat_time [OF p(1)] by (intro exI [of _ "pt_now ?k"] exI [of _ x]) auto
  then show "ran_between k k' (rd_PID rec) (dr_StartedAt rec)" by (rule ran_between_mono [OF quiet_tick quiet_refl])
qed

abbreviation match_group :: "int \<Rightarrow> Group \<Rightarrow> Group option \<times> ptable \<Rightarrow> Group option \<times> ptable" where
  "match_group pgid \<equiv> \<lambda>g (found, k). case found of
     Some _ \<Rightarrow> (found, k)
   | None \<Rightarrow>
       if g_PGID g \<noteq> pgid \<or> g_LeaderStart g = 0 then (None, k)
       else case leaderIdentity (new_recovery g) k of (reason, k') \<Rightarrow> (if reason = [] then Some g else None, k')"

lemma match_found: "fold (match_group pgid) groups (Some g, k) = (Some g, k)"
  by (induction groups) auto

lemma match_groups:
  "fold (match_group pgid) groups (None, k) = (res, k') \<Longrightarrow> quiet k k' \<and>
    (\<forall>g. res = Some g \<longrightarrow> g \<in> set groups \<and> g_PGID g = pgid \<and>
      (\<exists>t y. pt_now k \<le> t \<and> t < pt_now k' \<and> holder k t pgid = Some y \<and> pt_start k y = g_LeaderStart g))"
proof (induction groups arbitrary: k)
  case (Cons g groups)
  show ?case
  proof (cases "g_PGID g \<noteq> pgid \<or> g_LeaderStart g = 0")
    case True
    then show ?thesis using Cons.IH [of k] Cons.prems by auto
  next
    case False
    obtain reason k1 where l: "leaderIdentity (new_recovery g) k = (reason, k1)" by (rule prod.exhaust)
    note id = identity_cases(1-3) [OF l]
    show ?thesis
    proof (cases "reason = []")
      case True
      then have r: "res = Some g" "k' = k1" using Cons.prems False l by (simp_all add: match_found)
      obtain y where "holder k (pt_now k) pgid = Some y" "pt_start k y = g_LeaderStart g"
        using id(3) [OF True] False by (auto simp: new_recovery_def)
      then have "\<exists>t y. pt_now k \<le> t \<and> t < pt_now k' \<and> holder k t pgid = Some y \<and> pt_start k y = g_LeaderStart g"
        using r(2) id(2) by (intro exI [of _ "pt_now k"] exI [of _ y]) simp
      then show ?thesis using r id(1) False by auto
    next
      case no: False
      then have f: "fold (match_group pgid) groups (None, k1) = (res, k')" using Cons.prems False l by simp
      note IH = Cons.IH [OF f]
      show ?thesis
      proof (intro conjI allI impI)
        show "quiet k k'" using id(1) IH by (blast intro: quiet_trans)
        fix g' assume "res = Some g'"
        then obtain t y where t: "g' \<in> set groups" "g_PGID g' = pgid" "pt_now k1 \<le> t" "t < pt_now k'" "holder k1 t pgid = Some y" "pt_start k1 y = g_LeaderStart g'"
          using IH by blast
        then show "g' \<in> set (g # groups)" "g_PGID g' = pgid" by simp_all
        show "\<exists>t y. pt_now k \<le> t \<and> t < pt_now k' \<and> holder k t pgid = Some y \<and> pt_start k y = g_LeaderStart g'"
          using t quiet_fields [OF id(1)] by (intro exI [of _ t] exI [of _ y]) auto
      qed
    qed
  qed
qed auto

lemma recordedGroupOf_proven:
  assumes "recordedGroupOf pid groups host k = (res, k')"
  shows "quiet k k'" and "res = Some g \<Longrightarrow> g \<in> set groups \<and> hostVerdict host k = None \<and> member_between k k' pid g"
proof -
  obtain s k1 where s: "ProcStat pid k = (s, k1)" by (rule prod.exhaust)
  note q = quiet_ProcStat [OF s]
  have "quiet k k' \<and> (res = Some g \<longrightarrow> g \<in> set groups \<and> hostVerdict host k = None \<and> member_between k k' pid g)"
  proof (cases "pid \<le> 0 \<or> groups = [] \<or> hostVerdict host k \<noteq> None \<or> (\<exists>e. s = Inl e) \<or> (\<exists>info. s = Inr info \<and> in_PGID info \<le> 1)")
    case True
    then show ?thesis using assms s q by (auto simp: recordedGroupOf_def split: if_splits)
  next
    case False
    then obtain info where i: "s = Inr info" "\<not> in_PGID info \<le> 1" "hostVerdict host k = None" "\<not> pid \<le> 0" "groups \<noteq> []"
      by (cases s; cases "hostVerdict host k") auto
    then have f: "fold (match_group (in_PGID info)) groups (None, k1) = (res, k')"
      using assms s by (simp add: recordedGroupOf_def)
    note m = match_groups [OF f]
    obtain x where x: "holder k (pt_now k) pid = Some x" "in_PGID info = pt_pid k (pt_group k (pt_now k) x)"
      using s i(1) stat_found by metis
    have "member_between k k' pid g" if "res = Some g"
    proof -
      from m that obtain t y where "pt_now k1 \<le> t" "t < pt_now k'" "holder k1 t (in_PGID info) = Some y" "pt_start k1 y = g_LeaderStart g"
          "g_PGID g = in_PGID info" by blast
      then show ?thesis
        unfolding member_between_def using x stat_time [OF s] quiet_fields [OF q]
        by (intro exI [of _ "pt_now k"] exI [of _ t] exI [of _ x] exI [of _ y]) auto
    qed
    then show ?thesis using m i(3) q by (auto intro: quiet_trans)
  qed
  then show "quiet k k'" and "res = Some g \<Longrightarrow> g \<in> set groups \<and> hostVerdict host k = None \<and> member_between k k' pid g" by blast+
qed

text \<open>
  What shows that an answer is the session's: it is another session, whose supervisor ran while the answer was
  judged; and the holder was then in a group that it recorded on this host, or the port is one it was assigned.
\<close>

definition belongs :: "string \<Rightarrow> int \<Rightarrow> int \<Rightarrow> int \<Rightarrow> ptable \<Rightarrow> ptable \<Rightarrow> Session \<Rightarrow> OwnerSession \<Rightarrow> bool" where
  "belongs runID self pid port k k' s other =
     (\<exists>rec. sn_Record s = Some rec \<and> \<not> own_session runID self s \<and> ran_between k k' (rd_PID rec) (dr_StartedAt rec) \<and>
        on_Name other = session_name s \<and> on_RunID other = pj_RunID (sn_Project s) \<and> on_ConfigPath other = pj_ConfigPath (sn_Project s) \<and>
        (on_Evidence other = EvidenceHolder \<and>
           (\<exists>gs g. rd_Groups rec = Some gs \<and> g \<in> set gs \<and> hostVerdict (rd_Host rec) k = None \<and> on_Process other = g_Name g \<and>
              member_between k k' pid g) \<or>
         on_Evidence other = EvidencePortLease \<and> PortAssignment s port = Some (on_Process other, on_Port other)))"

lemma hostVerdict_quiet: "quiet k k' \<Longrightarrow> hostVerdict host k' = hostVerdict host k"
  by (simp add: hostVerdict_def Let_def quiet_fields(7,8) [of k k'])

lemma belongs_mono:
  assumes "quiet k0 k" "quiet k' k1" "belongs runID self pid port k k' s other"
  shows "belongs runID self pid port k0 k1 s other"
  using assms(3) ran_between_mono [OF assms(1,2)] member_between_mono [OF assms(1,2)] hostVerdict_quiet [OF assms(1)]
  unfolding belongs_def by metis

lemma counts_true:
  assumes "counts denied runID self s k = (b, k')"
  shows "quiet k k'"
    and "b \<Longrightarrow> \<not> own_session runID self s \<Longrightarrow> \<exists>rec. sn_Record s = Some rec \<and> ran_between k k' (rd_PID rec) (dr_StartedAt rec)"
  using assms StartProven_true [of denied _ k b k'] by (auto simp: counts_def split: if_splits option.splits)

lemma group_of_holder_proven:
  assumes "group_of_holder pid s k = (res, k')"
  shows "quiet k k'"
    and "res = Some g \<Longrightarrow> \<exists>rec gs. sn_Record s = Some rec \<and> rd_Groups rec = Some gs \<and> g \<in> set gs \<and> hostVerdict (rd_Host rec) k = None \<and>
      member_between k k' pid g"
  using assms recordedGroupOf_proven [of pid _ _ k res k'] by (auto simp: group_of_holder_def split: option.splits)

lemma place_each_proven:
  assumes "place_each denied runID self pid port ss found k = ((scope, placed), k')"
  shows "quiet k k' \<and> (\<forall>other. placed = Some other \<longrightarrow>
    scope = ScopeCrossSession \<and> ((\<exists>s \<in> set ss. belongs runID self pid port k k' s other) \<or> found = Some (other, False)))"
  using assms
proof (induction ss arbitrary: found k)
  case Nil
  then show ?case by (auto split: option.splits if_splits)
next
  case (Cons s ss)
  obtain b k1 where c: "counts denied runID self s k = (b, k1)" by (rule prod.exhaust)
  note live = counts_true [OF c]
  show ?case
  proof (cases b)
    case False
    then have "place_each denied runID self pid port ss found k1 = ((scope, placed), k')" using Cons.prems c by simp
    note IH = Cons.IH [OF this]
    then have "quiet k k'" using live(1) by (blast intro: quiet_trans)
    then show ?thesis using IH belongs_mono [OF live(1) quiet_refl] unfolding list.set by blast
  next
    case True
    obtain res k2 where g: "group_of_holder pid s k1 = (res, k2)" by (rule prod.exhaust)
    note member = group_of_holder_proven [OF g]
    have q: "quiet k k2" using live(1) member(1) by (rule quiet_trans)
    show ?thesis
    proof (cases res)
      case (Some grp)
      then have r: "k' = k2" "placed = (if own_session runID self s then None else Some (ownerSession s (g_Name grp)
          (case PortAssignment s port of Some (process, name) \<Rightarrow> if process \<noteq> g_Name grp then [] else name | None \<Rightarrow> []) EvidenceHolder))"
          "\<not> own_session runID self s \<Longrightarrow> scope = ScopeCrossSession"
        using Cons.prems c True g by (auto simp: Let_def)
      have "belongs runID self pid port k k' s other" if "placed = Some other" for other
      proof -
        have foreign: "\<not> own_session runID self s" using that r(2) by (auto split: if_splits)
        obtain rec where rec: "sn_Record s = Some rec" "ran_between k k1 (rd_PID rec) (dr_StartedAt rec)" using live(2) True foreign by blast
        obtain gs where gs: "rd_Groups rec = Some gs" "grp \<in> set gs" "hostVerdict (rd_Host rec) k1 = None" "member_between k1 k2 pid grp"
          using member(2) Some rec(1) by auto
        have "ran_between k k' (rd_PID rec) (dr_StartedAt rec)" using ran_between_mono [OF quiet_refl member(1) rec(2)] r(1) by simp
        moreover have "member_between k k' pid grp" using member_between_mono [OF live(1) quiet_refl gs(4)] r(1) by simp
        moreover have "hostVerdict (rd_Host rec) k = None" using gs(3) hostVerdict_quiet [OF live(1)] by simp
        moreover have "on_Evidence other = EvidenceHolder \<and> on_Process other = g_Name grp \<and> on_Name other = session_name s \<and>
            on_RunID other = pj_RunID (sn_Project s) \<and> on_ConfigPath other = pj_ConfigPath (sn_Project s)"
          using that r(2) foreign by (auto simp: ownerSession_def)
        ultimately show ?thesis unfolding belongs_def using rec(1) gs(1,2) foreign by blast
      qed
      moreover have "placed = Some other \<longrightarrow> scope = ScopeCrossSession" for other using r(2,3) by (auto split: if_splits)
      ultimately show ?thesis using q r(1) by auto
    next
      case None
      let ?own = "own_session runID self s"
      define found' where "found' = (case (PortAssignment s port, found) of
          (Some (process, name), None) \<Rightarrow> Some (ownerSession s process name EvidencePortLease, ?own) | _ \<Rightarrow> found)"
      have p: "place_each denied runID self pid port ss found' k2 = ((scope, placed), k')"
        using Cons.prems c True g None by (simp add: Let_def found'_def)
      note IH = Cons.IH [OF p]
      have "(\<exists>s' \<in> set (s # ss). belongs runID self pid port k k' s' other) \<or> found = Some (other, False)" if "placed = Some other" for other
      proof -
        from IH that consider (later) s' where "s' \<in> set ss" "belongs runID self pid port k2 k' s' other" | (here) "found' = Some (other, False)" by blast
        then show ?thesis
        proof cases
          case later
          then have "belongs runID self pid port k k' s' other" by (intro belongs_mono [OF q quiet_refl])
          then show ?thesis using later(1) by auto
        next
          case here
          show ?thesis
          proof (cases "found' = found")
            case False
            then obtain process name where l: "PortAssignment s port = Some (process, name)" "other = ownerSession s process name EvidencePortLease" "\<not> ?own"
              using here by (auto simp: found'_def split: option.splits)
            obtain rec where rec: "sn_Record s = Some rec" "ran_between k k1 (rd_PID rec) (dr_StartedAt rec)" using live(2) True l(3) by blast
            have "quiet k1 k'" using member(1) IH by (blast intro: quiet_trans)
            then have "ran_between k k' (rd_PID rec) (dr_StartedAt rec)" using ran_between_mono [OF quiet_refl _ rec(2)] by blast
            then have "belongs runID self pid port k k' s other" unfolding belongs_def using rec(1) l by (auto simp: ownerSession_def)
            then show ?thesis by simp
          qed (use here in simp)
        qed
      qed
      then show ?thesis using IH q by (auto intro: quiet_trans)
    qed
  qed
qed

text \<open>
  C13. An answer is another session's on evidence only: when it is placed in a session, the scope says so, that session
  is in the registry and is not this run's own, its supervisor was running, as the process that wrote the PID file,
  while the answer was judged, and either the holder was in a process group which that session recorded on this
  host, named after a leader with the recorded start time, or the port is the one that session was assigned.
\<close>

theorem cross_session_is_proven:
  assumes "placeAnswer denied sessions runID self pid address k = ((scope, Some other), k')"
  shows "scope = ScopeCrossSession \<and>
    (\<exists>s \<in> set sessions. belongs runID self pid (case address of Some a \<Rightarrow> int (ap_Port a) | None \<Rightarrow> 0) k k' s other)"
  using place_each_proven [OF assms [unfolded placeAnswer_def]] by auto

definition example_sessions :: "Session list" where
  "example_sessions =
     [\<lparr>sn_Hash = ''h'', sn_Project = \<lparr>pj_Session = ''x'', pj_RunID = ''r'', pj_ConfigPath = ''/c'', pj_Directory = ''/'',
         pj_Ports = [(''api'', [(''http'', 8080)])], pj_URLs = [], pj_Resources = [], pj_Teardown = []\<rparr>,
       sn_Worktree = [], sn_Live = True, sn_PID = 7,
       sn_Record = Some \<lparr>rd_PID = 7, rd_Host = \<lparr>ho_BootID = [], ho_PIDNS = [], ho_TimeNS = []\<rparr>, rd_Groups = None, dr_Addr = [], dr_StartedAt = 5\<rparr>\<rparr>]"

definition example_running :: ptable where
  "example_running = \<lparr>pt_procs = \<lambda>_. [0], pt_pid = \<lambda>_. 7, pt_start = \<lambda>_. 5, pt_group = \<lambda>_ _. 0, pt_state = \<lambda>_ _. CHR ''S'',
     pt_tasks = \<lambda>_ _. None, pt_readdir = \<lambda>_. Some [], pt_statErr = \<lambda>_ _. None, pt_openErr = \<lambda>_ _. False, pt_sendErr = \<lambda>_ _. False,
     pt_denied = \<lambda>_ _. False, pt_self = 1, pt_pgrp = 1, pt_host = \<lparr>ho_BootID = [], ho_PIDNS = [], ho_TimeNS = []\<rparr>, pt_procOwn = True,
     pt_now = 0, pt_sent = [], pt_open = 0\<rparr>"

lemma example_placed:
  "\<exists>k'. placeAnswer (\<lambda>_ _. False) example_sessions [] 1 9 (Some \<lparr>ap_Addr = V4 [127, 0, 0, 1], ap_Port = 8080\<rparr>) example_running =
    ((ScopeCrossSession, Some (ownerSession (hd example_sessions) ''api'' ''http'' EvidencePortLease)), k')"
  by (simp add: placeAnswer_def example_sessions_def counts_def own_session_def StartProven_def IsAlive_def procRunningStart_def
      holder_def wait_tick_def ProcStat_def Let_def example_running_def ExitedState_def PortAssignment_def group_of_holder_def)

lemma cross_session_is_proven_witness:
  "\<exists>k'. ran_between example_running k' 7 5"
proof -
  obtain k' where p: "placeAnswer (\<lambda>_ _. False) example_sessions [] 1 9 (Some \<lparr>ap_Addr = V4 [127, 0, 0, 1], ap_Port = 8080\<rparr>) example_running =
    ((ScopeCrossSession, Some (ownerSession (hd example_sessions) ''api'' ''http'' EvidencePortLease)), k')" using example_placed by blast
  from cross_session_is_proven [OF p] have "ran_between example_running k' 7 5"
    by (auto simp: belongs_def example_sessions_def)
  then show ?thesis by blast
qed

text \<open>
  What refuses a foreign answer is exact: \<open>reject\<close> refuses every one and nothing else, and without it the
  policy on other sessions refuses those of another live session and nothing else.
\<close>

theorem refusal_exact:
  "(refusalOf owner reject refuseCross = [] \<longleftrightarrow>
     \<not> (\<exists>a. owner = Some a \<and> eo_Result a = OwnerForeign \<and> (reject \<or> refuseCross \<and> eo_Scope a = ScopeCrossSession)))"
  by (auto simp: refusalOf_def split: option.splits)

section \<open>The stat file cannot be forged by a name\<close>

text \<open>A printable ASCII word without a closing parenthesis, as the kernel prints numbers and states.\<close>

definition plain_word :: "string \<Rightarrow> bool" where
  "plain_word w = (w \<noteq> [] \<and> (\<forall>c \<in> set w. 33 \<le> (of_char c :: nat) \<and> (of_char c :: nat) < 127 \<and> c \<noteq> CHR '')''))"

lemma no_space_rune: "33 \<le> (of_char c :: nat) \<Longrightarrow> (of_char c :: nat) < 127 \<Longrightarrow> find (\<lambda>p. p \<noteq> [] \<and> HasPrefix (c # cs) p) space_runes = None"
  unfolding find_None_iff by (auto simp: space_runes_def)

lemma fields_word: "\<forall>c \<in> set w. 33 \<le> (of_char c :: nat) \<and> (of_char c :: nat) < 127 \<Longrightarrow> fields_from cur (w @ s) = fields_from (rev w @ cur) s"
  by (induction w arbitrary: cur) (auto simp: no_space_rune)

lemma fields_space: "fields_from cur ('' '' @ s) = (if cur = [] then [] else [rev cur]) @ fields_from [] s"
  by (simp add: space_runes_def)

lemma Fields_Join: "\<forall>w \<in> set ws. plain_word w \<Longrightarrow> Fields (Join ws '' '') = ws"
  unfolding Fields_def
proof (induction ws rule: induct_list012)
  case (2 w)
  then show ?case using fields_word [of w "[]" "[]"] by (simp add: plain_word_def)
next
  case (3 w v ws)
  then have "fields_from [] (w @ '' '' @ Join (v # ws) '' '') = fields_from (rev w) ('' '' @ Join (v # ws) '' '')"
    using fields_word [of w "[]" "'' '' @ Join (v # ws) '' ''"] by (simp add: plain_word_def)
  also have "\<dots> = w # (v # ws)" unfolding fields_space using 3 by (simp add: plain_word_def)
  finally show ?case by simp
qed simp

lemma Join_no_paren: "\<forall>w \<in> set ws. plain_word w \<Longrightarrow> CHR '')'' \<notin> set (Join ws '' '')"
  by (induction ws rule: induct_list012) (auto simp: plain_word_def)

text \<open>
  What is read of a process from its stat file does not depend on its name, which may hold spaces, parentheses
  and line breaks and even imitate the fields behind it: the state, the process group and the start time are
  those the kernel printed.
\<close>

theorem stat_ignores_the_name:
  assumes "\<forall>w \<in> set ws. plain_word w" and "20 \<le> length ws"
    and "ws ! 0 = [state]" and "ws ! 2 = Itoa pgid" and "ws ! 19 = Itoa start" and "int64_ok pgid" and "0 \<le> start" and "start < 2 ^ 64"
  shows "parse_stat (Itoa pid @ '' ('' @ name @ '') '' @ Join ws '' '') = Some \<lparr>in_State = state, in_PGID = pgid, in_StartTime = start\<rparr>"
proof -
  have "cut_last (CHR '')'') ((Itoa pid @ '' ('' @ name) @ CHR '')'' # ('' '' @ Join ws '' '')) = Some (Itoa pid @ '' ('' @ name, '' '' @ Join ws '' '')"
    by (rule cut_last_found) (simp add: Join_no_paren [OF assms(1)])
  moreover have "ParseUint (Itoa start) = Some start"
    using assms(7,8) by (simp add: ParseUint_def Itoa_def)
  ultimately show ?thesis
    using assms by (simp add: parse_stat_def Fields_Join Atoi_Itoa Let_def)
qed

lemma stat_ignores_the_name_witness:
  "parse_stat (''12 (a) R 1 1) '' @ Join (''S'' # replicate 19 ''7'') '' '') = Some \<lparr>in_State = CHR ''S'', in_PGID = 7, in_StartTime = 7\<rparr>"
proof -
  have n: "Itoa 7 = ''7''" "Itoa 12 = ''12''" by code_simp+
  have "parse_stat (Itoa 12 @ '' ('' @ ''a) R 1 1'' @ '') '' @ Join (''S'' # replicate 19 ''7'') '' '') =
      Some \<lparr>in_State = CHR ''S'', in_PGID = 7, in_StartTime = 7\<rparr>"
    by (rule stat_ignores_the_name) (auto simp: plain_word_def n int64_ok_def numeral_eq_Suc)
  then show ?thesis by (simp add: n numeral_eq_Suc)
qed

end
