(* ===== verification/Probe_Run.thy ===== *)
theory Probe_Run
  imports Session_Registry Lifecycle Runner_Teardown
begin

text \<open>
  Readiness probes and health checks (\<^verbatim>\<open>internal/runner/probe.go\<close>, \<open>ownerCheck\<close> in \<^verbatim>\<open>internal/runner/attest.go\<close> and
  \<open>buildReadinessCallbacks\<close> in \<^verbatim>\<open>internal/runner/lifecycle.go\<close>). The network, the clock and the ready channels of the
  selects are arguments, numbered by attempt; what other goroutines do to the state of the process during an
  attempt is a list of \<open>side_op\<close>. Progress messages are left out.
\<close>

section \<open>One attempt\<close>

datatype once_result = OnceBadURL string | OnceErr string | OnceOk "EndpointOwner option"

text \<open>A nil attributor attributes nothing. The connections are those the transport handed out, in order.\<close>

type_synonym attributor = "(probeConn \<Rightarrow> EndpointOwner) option"
type_synonym net_conn = "(addr_port \<times> addr_port) option"

definition connOwner :: "attributor \<Rightarrow> net_conn \<Rightarrow> EndpointOwner option" where
  "connOwner attribute conn =
     (case (attribute, probeConnOf conn) of (Some f, Some c) \<Rightarrow> Some (f c) | _ \<Rightarrow> None)"

datatype http_reply = HttpBadURL string | HttpFailed string | HttpStatus int

definition httpOnce :: "attributor \<Rightarrow> http_reply \<times> net_conn list \<Rightarrow> once_result" where
  "httpOnce attribute = (\<lambda>(reply, conns). case reply of
     HttpBadURL m \<Rightarrow> OnceBadURL (''bad URL: '' @ m)
   | HttpFailed m \<Rightarrow> OnceErr m
   | HttpStatus s \<Rightarrow>
       if 200 \<le> s \<and> s < 300 then OnceOk (if conns = [] then None else connOwner attribute (List.last conns))
       else OnceErr (''status '' @ Itoa s))"

text \<open>The dial, and the error of the close that follows.\<close>

datatype tcp_dial = TcpFailed string | TcpOpened net_conn "string option"

definition tcpOnce :: "attributor \<Rightarrow> tcp_dial \<Rightarrow> once_result" where
  "tcpOnce attribute dial = (case dial of
     TcpFailed m \<Rightarrow> OnceErr m
   | TcpOpened conn err \<Rightarrow> (case err of Some m \<Rightarrow> OnceErr m | None \<Rightarrow> OnceOk (connOwner attribute conn)))"

section \<open>Who may answer\<close>

type_synonym log_line = "string \<times> string \<times> string"

record ownerCheck =
  oc_name :: string
  oc_gen :: "64 word"
  oc_probe :: string
  oc_reject :: bool
  oc_refuseCross :: bool
  oc_warned :: bool
  oc_owner :: "EndpointOwner option"

definition newOwnerCheck :: "bool \<Rightarrow> procInfo \<Rightarrow> 64 word \<Rightarrow> string \<Rightarrow> ownerCheck" where
  "newOwnerCheck refuseCross p gen kind =
     \<lparr>oc_name = pi_name p, oc_gen = gen, oc_probe = ''readiness probe ('' @ kind @ '')'',
      oc_reject = (EffectiveForeignListener (pi_proc p) = ForeignListenerReject), oc_refuseCross = refuseCross,
      oc_warned = False, oc_owner = None\<rparr>"

definition answered_by :: "EndpointOwner option \<Rightarrow> EndpointOwner" where
  "answered_by owner = the_default (unattributable ''the probe connection was not recorded'') owner"

definition accept :: "(addr_port \<Rightarrow> string) \<Rightarrow> EndpointOwner option \<Rightarrow> ownerCheck \<times> procState \<Rightarrow>
    string option \<times> (ownerCheck \<times> procState) \<times> log_line list" where
  "accept prt owner = (\<lambda>(c, st).
     let a = answered_by owner; refusal = refusalOf (Some a) (oc_reject c) (oc_refuseCross c)
     in if refusal = [] then (None, (c\<lparr>oc_owner := Some a\<rparr>, st), [])
        else case recordRefusedOwner (oc_gen c) (Some a) st of
            (recorded, st1) \<Rightarrow>
              (let first = (recorded \<and> \<not> oc_warned c)
               in (Some (foreignListenerError prt (oc_name c) a),
                   ((if first then c\<lparr>oc_warned := True\<rparr> else c), st1),
                   (if first then [(''warn'', ''readiness.foreign_listener'', foreignListenerMessage prt (oc_name c) (oc_probe c) a refusal)]
                    else []))))"

section \<open>Polling\<close>

definition deadlineFor :: "int \<Rightarrow> int \<Rightarrow> int option" where
  "deadlineFor timeout now = (if timeout \<le> 0 then None else Some (now + timeout))"

text \<open>Which channel the select after a failed attempt takes: the context, or one of the timers.\<close>

datatype poll_wake = PollDone | PollAgain

record poll_env =
  pe_during :: "nat \<Rightarrow> side_op list"
  pe_now :: "nat \<Rightarrow> int"
  pe_wake :: "nat \<Rightarrow> poll_wake"

definition passed_deadline :: "int option \<Rightarrow> int \<Rightarrow> bool" where
  "passed_deadline deadline now = (case deadline of None \<Rightarrow> False | Some d \<Rightarrow> now > d)"

abbreviation progress :: "string \<Rightarrow> log_line" where "progress m \<equiv> (''debug'', ''readiness.progress'', m)"

type_synonym poll_state = "(ownerCheck \<times> procState) \<times> log_line list"

text \<open>
  \<open>what\<close> is the probe with its target, \<open>limit\<close> the timeout as it is printed. The loop has no bound of its own:
  \<open>None\<close> is a poll that is still running when the fuel ends. The attempts before attempt \<open>i\<close> all failed.
\<close>

fun probe_poll :: "nat \<Rightarrow> (addr_port \<Rightarrow> string) \<Rightarrow> string \<Rightarrow> string \<Rightarrow> int option \<Rightarrow> poll_env \<Rightarrow> (nat \<Rightarrow> once_result) \<Rightarrow> nat \<Rightarrow>
    poll_state \<Rightarrow> ((bool \<times> string) \<times> poll_state) option" where
  "probe_poll 0 prt what limit deadline pe attempts i s = None"
| "probe_poll (Suc fuel) prt what limit deadline pe attempts i ((c, st), log) =
     (let st1 = fold apply_side (pe_during pe i) st;
          failed = (\<lambda>m rejected cs l.
            let l1 = (if i + 1 > 5 then l @ [progress (what @ '': '' @ m)] else l)
            in if passed_deadline deadline (pe_now pe i)
               then Some ((False, rejected), cs, l1 @ [progress (what @ '': timed out after '' @ limit)])
               else (case pe_wake pe i of
                   PollDone \<Rightarrow> Some ((False, []), cs, l1)
                 | PollAgain \<Rightarrow> probe_poll fuel prt what limit deadline pe attempts (i + 1) (cs, l1)))
      in case attempts i of
           OnceBadURL m \<Rightarrow> Some ((False, []), (c, st1), log @ [progress (what @ '': '' @ m)])
         | OnceErr m \<Rightarrow> failed m [] (c, st1) log
         | OnceOk owner \<Rightarrow> (case accept prt owner (c, st1) of
             (None, cs, l) \<Rightarrow> Some ((True, []), cs, log @ l)
           | (Some m, cs, l) \<Rightarrow> failed m m cs (log @ l)))"

definition probeHTTP :: "nat \<Rightarrow> (addr_port \<Rightarrow> string) \<Rightarrow> string \<Rightarrow> string \<Rightarrow> int \<Rightarrow> int \<Rightarrow> poll_env \<Rightarrow>
    (nat \<Rightarrow> attributor \<times> http_reply \<times> net_conn list) \<Rightarrow> ownerCheck \<times> procState \<Rightarrow> ((bool \<times> string) \<times> poll_state) option" where
  "probeHTTP fuel prt url limit timeout now pe attempts cs =
     probe_poll fuel prt (''probe http '' @ url) limit (deadlineFor timeout now) pe
       (\<lambda>i. httpOnce (fst (attempts i)) (snd (attempts i))) 0 (cs, [])"

definition probeTCP :: "nat \<Rightarrow> (addr_port \<Rightarrow> string) \<Rightarrow> string \<Rightarrow> string \<Rightarrow> int \<Rightarrow> int \<Rightarrow> poll_env \<Rightarrow>
    (nat \<Rightarrow> attributor \<times> tcp_dial) \<Rightarrow> ownerCheck \<times> procState \<Rightarrow> ((bool \<times> string) \<times> poll_state) option" where
  "probeTCP fuel prt addr limit timeout now pe attempts cs =
     probe_poll fuel prt (''probe tcp '' @ addr) limit (deadlineFor timeout now) pe
       (\<lambda>i. tcpOnce (fst (attempts i)) (snd (attempts i))) 0 (cs, [])"

section \<open>The cmd probe\<close>

abbreviation cmdProbeAttemptTimeout :: int where "cmdProbeAttemptTimeout \<equiv> 10 * Second"
abbreviation cmdProbeRetryDelay :: int where "cmdProbeRetryDelay \<equiv> Second"

definition cmdProbeInfo :: "procInfo \<Rightarrow> string \<Rightarrow> procInfo" where
  "cmdProbeInfo p command = \<lparr>pi_name = pi_name p @ '':probe'',
     pi_proc = zero_Process\<lparr>p_Cmd := command, p_Dir := p_Dir (pi_proc p), p_Env := p_Env (pi_proc p), p_Mode := ProcessModeTask\<rparr>,
     pi_colorIndex = 0, pi_teardown = False\<rparr>"

text \<open>
  What one attempt meets: the clock when it starts and after it, its execution and output, whether its context had
  ended at each of the two reads, whether the context of the incarnation had, and the channel of the last select.
\<close>

record cmd_attempt =
  ca_start :: int
  ca_exec :: exec_env
  ca_handle :: nat
  ca_lines :: "string list \<times> string list"
  ca_ended :: bool
  ca_late :: bool
  ca_cancelled :: bool
  ca_now :: int
  ca_wake :: poll_wake
  ca_between :: "runner \<Rightarrow> runner"

definition attempt_deadline :: "int option \<Rightarrow> int \<Rightarrow> int" where
  "attempt_deadline deadline now = (case deadline of
     None \<Rightarrow> now + cmdProbeAttemptTimeout | Some d \<Rightarrow> min d (now + cmdProbeAttemptTimeout))"

definition run_probe_cmd :: "procInfo \<Rightarrow> string \<Rightarrow> cmd_attempt \<Rightarrow> runner \<Rightarrow> CheckResult \<times> runner" where
  "run_probe_cmd p command a r =
     (case runOwned (cmdProbeInfo p command) (ca_exec a) (ca_handle a) cmdProbeOutputLimit (ca_lines a) (r, owned_state) of
        (ck, r1, _) \<Rightarrow> (ck, r1))"

fun cmd_poll :: "nat \<Rightarrow> procInfo \<Rightarrow> string \<Rightarrow> int option \<Rightarrow> (nat \<Rightarrow> cmd_attempt) \<Rightarrow> nat \<Rightarrow> string \<Rightarrow> runner \<times> log_line list \<Rightarrow>
    ((bool \<times> string) \<times> runner \<times> log_line list) option" where
  "cmd_poll 0 p command deadline attempts i prev s = None"
| "cmd_poll (Suc fuel) p command deadline attempts i prev (r, log) =
     (let a = attempts i
      in case run_probe_cmd p command a (ca_between a r) of
        (ck, r1) \<Rightarrow>
          (let cut_short = (ca_ended a \<and> deadline = Some (attempt_deadline deadline (ca_start a)));
               (passed, ck1) = exitedZeroInTime (ca_late a) ck;
               m = cmdProbeFailure ck1;
               l = (if i + 1 > 5 then log @ [progress (''probe cmd: '' @ m)] else log);
               again = (case ca_wake a of
                   PollDone \<Rightarrow> Some ((False, []), r1, l)
                 | PollAgain \<Rightarrow> cmd_poll fuel p command deadline attempts (i + 1) m (r1, l))
           in if passed then Some ((True, []), r1, log)
              else if ck_HandedOff ck1 \<or> ca_cancelled a then Some ((False, []), r1, log)
              else if ck_AdmissionRefused ck1 \<and> rn_stopping r1 then Some ((False, []), r1, log)
              else if cut_short \<and> prev \<noteq> [] then Some ((False, prev), r1, log)
              else case deadline of
                  None \<Rightarrow> again
                | Some d \<Rightarrow>
                    if d - ca_now a \<le> cmdProbeRetryDelay
                    then Some ((False, case ca_wake a of PollDone \<Rightarrow> [] | PollAgain \<Rightarrow> m), r1, log)
                    else again))"

definition probeCmd :: "nat \<Rightarrow> procInfo \<Rightarrow> string \<Rightarrow> int \<Rightarrow> int \<Rightarrow> (nat \<Rightarrow> cmd_attempt) \<Rightarrow> runner \<Rightarrow>
    ((bool \<times> string) \<times> runner \<times> log_line list) option" where
  "probeCmd fuel p command timeout now attempts r = cmd_poll fuel p command (deadlineFor timeout now) attempts 0 [] (r, [])"

section \<open>Readiness of an incarnation\<close>

text \<open>
  What the probe of an incarnation meets. \<open>re_during\<close> is what happens to the state while a cmd probe runs, and
  \<open>re_live\<close> says that the context of the incarnation was live when the verdict was taken.
\<close>

record readiness_env =
  re_limit :: string
  re_start :: int
  re_poll :: poll_env
  re_http :: "nat \<Rightarrow> attributor \<times> http_reply \<times> net_conn list"
  re_tcp :: "nat \<Rightarrow> attributor \<times> tcp_dial"
  re_cmd :: "nat \<Rightarrow> cmd_attempt"
  re_during :: "side_op list"
  re_live :: bool

text \<open>The verdict on an http or tcp probe, with the answer its check took.\<close>

definition socket_verdict :: "string \<Rightarrow> bool \<Rightarrow> (bool \<times> string) \<times> poll_state \<Rightarrow> bool \<times> procState" where
  "socket_verdict kind live = (\<lambda>((ok, rejected), (c, st), log).
     handleProbeResult live (oc_gen c) kind ok rejected (oc_owner c) st)"

text \<open>
  What starting the command does for readiness: the state it leaves and whether it cancels the incarnation. A log
  probe does nothing here.
\<close>

definition readiness_on_start :: "nat \<Rightarrow> (addr_port \<Rightarrow> string) \<Rightarrow> bool \<Rightarrow> readiness_env \<Rightarrow> procInfo \<Rightarrow> 64 word \<Rightarrow> runner \<times> procState \<Rightarrow>
    (bool \<times> runner \<times> procState) option" where
  "readiness_on_start fuel prt refuseCross re p gen = (\<lambda>(r, st).
     let timeout = resolveReadyTimeout (p_ReadyTimeout (pi_proc p))
     in case p_ReadyWhen (pi_proc p) of
          None \<Rightarrow> Some (False, r, snd (markReadyFor (re_live re) gen True None st))
        | Some rw \<Rightarrow>
            if rw_HTTP rw \<noteq> []
            then map_option (\<lambda>res. case socket_verdict ''http'' (re_live re) res of (b, st') \<Rightarrow> (b, r, st'))
                   (probeHTTP fuel prt (rw_HTTP rw) (re_limit re) timeout (re_start re) (re_poll re) (re_http re)
                      (newOwnerCheck refuseCross p gen ''http'', st))
            else if rw_TCP rw \<noteq> []
            then map_option (\<lambda>res. case socket_verdict ''tcp'' (re_live re) res of (b, st') \<Rightarrow> (b, r, st'))
                   (probeTCP fuel prt (rw_TCP rw) (re_limit re) timeout (re_start re) (re_poll re) (re_tcp re)
                      (newOwnerCheck refuseCross p gen ''tcp'', st))
            else if rw_Cmd rw \<noteq> []
            then map_option (\<lambda>((ok, detail), r', log).
                   case handleProbeResult (re_live re) gen ''cmd'' ok detail None (fold apply_side (re_during re) st) of
                     (b, st') \<Rightarrow> (b, r', st'))
                   (probeCmd fuel p (rw_Cmd rw) timeout (re_start re) (re_cmd re) r)
            else Some (False, r, st))"

text \<open>The log probe: a line of output, and the end of its timeout.\<close>

definition readiness_line :: "(string \<Rightarrow> bool) \<Rightarrow> string \<Rightarrow> bool \<Rightarrow> 64 word \<Rightarrow> procState \<Rightarrow> procState" where
  "readiness_line matched line live gen st = (if matched line then snd (markReadyFor live gen True None st) else st)"

definition readiness_log_timeout :: "string \<Rightarrow> bool \<Rightarrow> 64 word \<Rightarrow> procState \<Rightarrow> bool \<times> procState" where
  "readiness_log_timeout limit live gen st = failReadinessFor live gen (''readiness probe (log) timed out after '' @ limit) st"

section \<open>Health checks\<close>

text \<open>What one check meets; only the input of the configured kind is read.\<close>

record check_env =
  ce_attribute :: attributor
  ce_http :: "http_reply \<times> net_conn list"
  ce_tcp :: tcp_dial
  ce_cmd :: cmd_attempt

record check_outcome =
  co_ok :: bool
  co_detail :: string
  co_skipped :: bool
  co_owner :: "EndpointOwner option"

definition socket_outcome :: "string \<Rightarrow> once_result \<Rightarrow> check_outcome" where
  "socket_outcome kind res = (case res of
     OnceOk owner \<Rightarrow> \<lparr>co_ok = True, co_detail = [], co_skipped = False, co_owner = owner\<rparr>
   | OnceErr m \<Rightarrow> \<lparr>co_ok = False, co_detail = kind @ '': '' @ m, co_skipped = False, co_owner = None\<rparr>
   | OnceBadURL m \<Rightarrow> \<lparr>co_ok = False, co_detail = kind @ '': '' @ m, co_skipped = False, co_owner = None\<rparr>)"

definition healthCheck :: "procInfo \<Rightarrow> ReadyWhen \<Rightarrow> check_env \<Rightarrow> runner \<Rightarrow> check_outcome \<times> runner" where
  "healthCheck p hw ce r =
     (if rw_HTTP hw \<noteq> [] then (socket_outcome ''http'' (httpOnce (ce_attribute ce) (ce_http ce)), r)
      else if rw_TCP hw \<noteq> [] then (socket_outcome ''tcp'' (tcpOnce (ce_attribute ce) (ce_tcp ce)), r)
      else if rw_Cmd hw \<noteq> []
      then (let a = ce_cmd ce
            in case run_probe_cmd p (rw_Cmd hw) a (ca_between a r) of
              (ck, r1) \<Rightarrow>
                ((case exitedZeroInTime (ca_late a) ck of
                    (True, _) \<Rightarrow> \<lparr>co_ok = True, co_detail = [], co_skipped = False, co_owner = None\<rparr>
                  | (False, ck1) \<Rightarrow>
                      if ck_HandedOff ck1 \<or> ck_AdmissionRefused ck1 \<or> ca_cancelled a
                      then \<lparr>co_ok = False, co_detail = [], co_skipped = True, co_owner = None\<rparr>
                      else case (ck_Started ck1, ck_Err ck1) of
                          (False, Some m) \<Rightarrow>
                            \<lparr>co_ok = False, co_detail = ''health check not run: '' @ m, co_skipped = True, co_owner = None\<rparr>
                        | _ \<Rightarrow> \<lparr>co_ok = False, co_detail = cmdProbeFailure ck1, co_skipped = False, co_owner = None\<rparr>), r1))
      else (\<lparr>co_ok = False, co_detail = [], co_skipped = True, co_owner = None\<rparr>, r))"

text \<open>One round of the monitor: whether its timer won, what happens meanwhile, and whether the context is live at each use.\<close>

record health_round =
  hr_timer :: bool
  hr_during :: "side_op list"
  hr_check :: check_env
  hr_live :: bool
  hr_liveOwner :: bool
  hr_liveSkip :: bool
  hr_liveRecord :: bool

record health_monitor =
  hm_proc :: procInfo
  hm_gen :: "64 word"
  hm_when :: ReadyWhen
  hm_refuseCross :: bool
  hm_restart :: bool

text \<open>A foreign answer that a policy refuses is a failed check.\<close>

definition judge_owner :: "(addr_port \<Rightarrow> string) \<Rightarrow> health_monitor \<Rightarrow> bool \<Rightarrow> check_outcome \<Rightarrow> procState \<Rightarrow>
    (bool \<times> string) \<times> procState \<times> log_line list" where
  "judge_owner prt hm live co st =
     (case co_owner co of
        Some a \<Rightarrow>
          if \<not> co_ok co then ((co_ok co, co_detail co), st, [])
          else (let p = hm_proc hm;
                    refusal = refusalOf (Some a) (EffectiveForeignListener (pi_proc p) = ForeignListenerReject) (hm_refuseCross hm)
                in case recordHealthOwner live (hm_gen hm) (Some a) st of
                  (news, st1) \<Rightarrow>
                    ((if refusal \<noteq> []
                      then (False, (if rw_HTTP (hm_when hm) \<noteq> [] then ''http'' else ''tcp'') @ '': '' @ foreignListenerError prt (pi_name p) a)
                      else (co_ok co, co_detail co)), st1,
                     (if news then [(''warn'', ''health.foreign_listener'', foreignListenerMessage prt (pi_name p) ''health check'' a refusal)]
                      else [])))
      | None \<Rightarrow> ((co_ok co, co_detail co), st, []))"

definition transition_log :: "healthTransition \<Rightarrow> bool \<Rightarrow> string \<Rightarrow> log_line list" where
  "transition_log tr restart detail =
     (if tr = healthCheckFailed \<or> tr = healthBecameUnhealthy
      then [(''debug'', ''health.check_failed'', ''health check failed: '' @ detail)] else []) @
     (if tr = healthRecovered then [(''info'', ''health.recovered'', ''healthy again'')]
      else if tr = healthBecameUnhealthy
      then [(''error'', ''health.unhealthy'', ''unhealthy: 3 consecutive health checks failed (last: '' @ detail @ '')'' @
              (if restart then ''; restarting through the restart policy'' else []))]
      else [])"

datatype monitor_end = MonitorLeft | MonitorRestarts | MonitorRuns

type_synonym monitor_state = "procState \<times> runner \<times> log_line list"

text \<open>A counted check; the flag says that the monitor cancels the incarnation.\<close>

definition count_check :: "health_monitor \<Rightarrow> bool \<Rightarrow> bool \<times> string \<Rightarrow> monitor_state \<Rightarrow> bool \<times> monitor_state" where
  "count_check hm live = (\<lambda>(ok, detail) (st, r, log).
     case recordHealth live (hm_gen hm) ok detail (hm_restart hm) st of
       (tr, st1) \<Rightarrow> (tr = healthBecameUnhealthy \<and> hm_restart hm, st1, r, log @ transition_log tr (hm_restart hm) detail))"

text \<open>One round: how the monitor ended, if it did, and whether checks are being refused.\<close>

definition monitor_round :: "(addr_port \<Rightarrow> string) \<Rightarrow> health_monitor \<Rightarrow> health_round \<Rightarrow> bool \<Rightarrow> monitor_state \<Rightarrow>
    monitor_end option \<times> bool \<times> monitor_state" where
  "monitor_round prt hm h refusing = (\<lambda>(st, r, log).
     if \<not> hr_timer h then (Some MonitorLeft, refusing, st, r, log)
     else case healthCheck (hm_proc hm) (hm_when hm) (hr_check h) r of
       (co, r1) \<Rightarrow>
         (let st1 = fold apply_side (hr_during h) st
          in if \<not> hr_live h then (Some MonitorLeft, refusing, st1, r1, log)
             else case judge_owner prt hm (hr_liveOwner h) co st1 of
               (judged, st2, l) \<Rightarrow>
                 if co_skipped co
                 then (let refused = (co_detail co \<noteq> []); news = (refused \<and> \<not> refusing)
                       in (None, refused,
                           (if news then snd (recordHealthSkipped (hr_liveSkip h) (hm_gen hm) (co_detail co) st2) else st2), r1,
                           log @ l @ (if news then [(''warn'', ''health.check_skipped'', co_detail co)] else [])))
                 else (case count_check hm (hr_liveRecord h) judged (st2, r1, log @ l) of
                     (restarts, s) \<Rightarrow> (if restarts then Some MonitorRestarts else None, False, s))))"

fun monitor_rounds :: "(addr_port \<Rightarrow> string) \<Rightarrow> health_monitor \<Rightarrow> health_round list \<Rightarrow> bool \<Rightarrow> monitor_state \<Rightarrow> monitor_end \<times> monitor_state" where
  "monitor_rounds prt hm [] refusing s = (MonitorRuns, s)"
| "monitor_rounds prt hm (h # hs) refusing s =
     (case monitor_round prt hm h refusing s of
        (Some e, _, s1) \<Rightarrow> (e, s1)
      | (None, refusing1, s1) \<Rightarrow> monitor_rounds prt hm hs refusing1 s1)"

definition new_monitor :: "bool \<Rightarrow> procInfo \<Rightarrow> 64 word \<Rightarrow> ReadyWhen \<Rightarrow> health_monitor" where
  "new_monitor refuseCross p gen hw = \<lparr>hm_proc = p, hm_gen = gen, hm_when = hw, hm_refuseCross = refuseCross,
     hm_restart = (EffectiveHealthAction (pi_proc p) = HealthActionRestart)\<rparr>"

text \<open>The wait for readiness: whether the cycle closed before the context ended, and what happened meanwhile.\<close>

definition monitorHealth :: "(addr_port \<Rightarrow> string) \<Rightarrow> bool \<Rightarrow> procInfo \<Rightarrow> 64 word \<Rightarrow> bool \<times> side_op list \<Rightarrow> health_round list \<Rightarrow>
    runner \<times> procState \<Rightarrow> monitor_end \<times> monitor_state" where
  "monitorHealth prt refuseCross p gen ready_wait rounds = (\<lambda>(r, st).
     let cycle = currentReadyCycle st; (closed, during) = ready_wait; st1 = fold apply_side during st
     in if \<not> closed \<or> \<not> (outcomeOf st1 cycle = readySatisfied \<and> ps_generation st1 = gen)
        then (MonitorLeft, st1, r, [])
        else case p_HealthWhen (pi_proc p) of
            None \<Rightarrow> (MonitorLeft, st1, r, [])
          | Some hw \<Rightarrow> monitor_rounds prt (new_monitor refuseCross p gen hw) rounds False (st1, r, []))"

section \<open>When a probe passes\<close>

definition answer_counts :: "bool \<Rightarrow> bool \<Rightarrow> once_result \<Rightarrow> bool" where
  "answer_counts reject refuseCross res =
     (case res of OnceOk owner \<Rightarrow> refusalOf (Some (answered_by owner)) reject refuseCross = [] | _ \<Rightarrow> False)"

definition bad_url :: "once_result \<Rightarrow> bool" where
  "bad_url res = (case res of OnceBadURL _ \<Rightarrow> True | _ \<Rightarrow> False)"

text \<open>The poll goes on after this attempt: it did not count, and neither the deadline nor the context ended it.\<close>

definition goes_on :: "bool \<Rightarrow> bool \<Rightarrow> int option \<Rightarrow> poll_env \<Rightarrow> (nat \<Rightarrow> once_result) \<Rightarrow> nat \<Rightarrow> bool" where
  "goes_on reject refuseCross deadline pe attempts i =
     (\<not> answer_counts reject refuseCross (attempts i) \<and> \<not> bad_url (attempts i) \<and>
      \<not> passed_deadline deadline (pe_now pe i) \<and> pe_wake pe i = PollAgain)"

lemma accept_check:
  assumes "accept prt owner (c, st) = (m, (c', st'), l)"
  shows "oc_reject c' = oc_reject c \<and> oc_refuseCross c' = oc_refuseCross c \<and> oc_gen c' = oc_gen c"
    and "m = None \<longleftrightarrow> refusalOf (Some (answered_by owner)) (oc_reject c) (oc_refuseCross c) = []"
    and "m = None \<Longrightarrow> oc_owner c' = Some (answered_by owner) \<and> st' = st"
    and "ps_cycles st' = ps_cycles st \<and> ps_cycle st' = ps_cycle st"
proof -
  let ?r = "refusalOf (Some (answered_by owner)) (oc_reject c) (oc_refuseCross c)"
  obtain b st1 where r: "recordRefusedOwner (oc_gen c) (Some (answered_by owner)) st = (b, st1)" by (rule prod.exhaust)
  then have st1: "ps_cycles st1 = ps_cycles st" "ps_cycle st1 = ps_cycle st"
    unfolding recordRefusedOwner_def by (simp_all split: if_splits) auto
  have e: "(m, (c', st'), l) =
      (if ?r = [] then (None, (c\<lparr>oc_owner := Some (answered_by owner)\<rparr>, st), [])
       else (Some (foreignListenerError prt (oc_name c) (answered_by owner)),
             ((if b \<and> \<not> oc_warned c then c\<lparr>oc_warned := True\<rparr> else c), st1), l))"
    using assms unfolding accept_def by (cases "?r = []"; cases "b \<and> \<not> oc_warned c") (auto simp add: Let_def r)
  show "oc_reject c' = oc_reject c \<and> oc_refuseCross c' = oc_refuseCross c \<and> oc_gen c' = oc_gen c" using e by (simp split: if_splits)
  show "m = None \<longleftrightarrow> ?r = []" using e by (simp split: if_splits)
  show "m = None \<Longrightarrow> oc_owner c' = Some (answered_by owner) \<and> st' = st" using e by (simp split: if_splits)
  show "ps_cycles st' = ps_cycles st \<and> ps_cycle st' = ps_cycle st" using e st1 by (simp split: if_splits)
qed

lemma probe_poll_passes:
  "(\<exists>s. probe_poll fuel prt what limit deadline pe attempts i ((c, st), log) = Some ((True, []), s)) \<longleftrightarrow>
   (\<exists>n < fuel. answer_counts (oc_reject c) (oc_refuseCross c) (attempts (i + n)) \<and>
     list_all (\<lambda>j. goes_on (oc_reject c) (oc_refuseCross c) deadline pe attempts (i + j)) [0..<n])"
proof (induction fuel arbitrary: i c st log)
  case 0
  then show ?case by simp
next
  case (Suc fuel)
  let ?counts = "answer_counts (oc_reject c) (oc_refuseCross c)"
  let ?on = "goes_on (oc_reject c) (oc_refuseCross c) deadline pe attempts"
  let ?rest = "\<lambda>n. ?counts (attempts (Suc i + n)) \<and> list_all (\<lambda>j. ?on (Suc i + j)) [0..<n]"
  have upt: "[0..<Suc n] = 0 # map Suc [0..<n]" for n by (simp only: upt_conv_Cons zero_less_Suc map_Suc_upt)
  have all: "list_all (\<lambda>j. ?on (i + j)) [0..<Suc n] \<longleftrightarrow> ?on i \<and> list_all (\<lambda>j. ?on (Suc i + j)) [0..<n]" for n
    unfolding upt by (simp add: list.pred_map comp_def)
  have shift: "(\<exists>n < Suc fuel. ?counts (attempts (i + n)) \<and> list_all (\<lambda>j. ?on (i + j)) [0..<n]) \<longleftrightarrow>
      ?counts (attempts i) \<or> ?on i \<and> (\<exists>n < fuel. ?rest n)"
  proof -
    have "(\<exists>n < Suc fuel. ?counts (attempts (i + n)) \<and> list_all (\<lambda>j. ?on (i + j)) [0..<n]) \<longleftrightarrow>
        ?counts (attempts i) \<or> (\<exists>n < fuel. ?counts (attempts (i + Suc n)) \<and> list_all (\<lambda>j. ?on (i + j)) [0..<Suc n])"
      unfolding Ex_less_Suc2 by simp
    also have "\<dots> \<longleftrightarrow> ?counts (attempts i) \<or> ?on i \<and> (\<exists>n < fuel. ?rest n)"
      unfolding all by auto
    finally show ?thesis .
  qed
  show ?case
  proof (cases "attempts i")
    case (OnceBadURL m)
    then show ?thesis unfolding shift by (simp add: answer_counts_def goes_on_def bad_url_def Let_def)
  next
    case (OnceErr m)
    have "\<not> ?counts (attempts i)" "\<not> bad_url (attempts i)" using OnceErr by (simp_all add: answer_counts_def bad_url_def)
    then show ?thesis
      unfolding shift using OnceErr Suc.IH [of "Suc i" c]
      by (cases "pe_wake pe i") (simp_all add: goes_on_def Let_def)
  next
    case (OnceOk owner)
    let ?st = "fold apply_side (pe_during pe i) st"
    obtain m c' st' l where a: "accept prt owner (c, ?st) = (m, (c', st'), l)" by (metis prod.exhaust)
    have keep: "oc_reject c' = oc_reject c" "oc_refuseCross c' = oc_refuseCross c" using accept_check(1) [OF a] by auto
    have m: "m = None \<longleftrightarrow> ?counts (attempts i)" using accept_check(2) [OF a] OnceOk by (simp add: answer_counts_def)
    have b: "\<not> bad_url (attempts i)" using OnceOk by (simp add: bad_url_def)
    show ?thesis
    proof (cases m)
      case None
      then show ?thesis unfolding shift using OnceOk a m by (simp add: Let_def)
    next
      case (Some x)
      then show ?thesis
        unfolding shift using OnceOk a m b Suc.IH [of "Suc i" c'] keep
        by (cases "pe_wake pe i") (simp_all add: goes_on_def Let_def)
    qed
  qed
qed

text \<open>
  A readiness probe over http passes exactly when some attempt got an answer that counts, a 2xx status on a
  connection whose holder no policy refuses, and every attempt before it failed with time left.
\<close>

theorem http_probe_passes_exactly:
  "(\<exists>s. probeHTTP fuel prt url limit timeout now pe attempts (newOwnerCheck refuseCross p gen ''http'', st) = Some ((True, []), s)) \<longleftrightarrow>
   (\<exists>n < fuel.
      answer_counts (EffectiveForeignListener (pi_proc p) = ForeignListenerReject) refuseCross (httpOnce (fst (attempts n)) (snd (attempts n))) \<and>
      list_all (goes_on (EffectiveForeignListener (pi_proc p) = ForeignListenerReject) refuseCross (deadlineFor timeout now) pe
        (\<lambda>i. httpOnce (fst (attempts i)) (snd (attempts i)))) [0..<n])"
  unfolding probeHTTP_def probe_poll_passes by (simp add: newOwnerCheck_def)

text \<open>
  A probe with a limit ends: when the clock has passed the deadline after some attempt, the poll has returned by
  then, whatever the attempts met.
\<close>

theorem tcp_probe_ends:
  assumes "0 < timeout" and "now + timeout < pe_now pe n" and "n < fuel"
  shows "\<exists>res. probeTCP fuel prt addr limit timeout now pe attempts (c, st) = Some res"
proof -
  have "probe_poll f prt w limit deadline pe att i s \<noteq> None"
    if "passed_deadline deadline (pe_now pe (i + m))" "m < f" for f w deadline att i s m
    using that
  proof (induction f arbitrary: i m s)
    case (Suc f)
    obtain c st log where s: "s = ((c, st), log)" by (metis prod.exhaust)
    let ?st = "fold apply_side (pe_during pe i) st"
    have rest: "passed_deadline deadline (pe_now pe i) \<or> pe_wake pe i = PollDone \<or> (\<forall>s. probe_poll f prt w limit deadline pe att (i + 1) s \<noteq> None)"
    proof (cases m)
      case 0
      then show ?thesis using Suc.prems by simp
    next
      case (Suc k)
      then have "passed_deadline deadline (pe_now pe (i + 1 + k))" "k < f" using Suc.prems by simp_all
      then show ?thesis using Suc.IH by blast
    qed
    show ?case
    proof (cases "att i")
      case (OnceOk owner)
      obtain x c1 s1 l where "accept prt owner (c, ?st) = (x, (c1, s1), l)" by (metis prod.exhaust)
      then show ?thesis using s OnceOk rest by (cases x; cases "pe_wake pe i") (auto simp: Let_def)
    qed (use s rest in \<open>cases "pe_wake pe i"; auto simp: Let_def\<close>)+
  qed simp
  from this [of "deadlineFor timeout now" 0 n fuel] show ?thesis
    unfolding probeTCP_def using assms by (simp add: deadlineFor_def passed_deadline_def)
qed

definition silent_env :: poll_env where
  "silent_env = \<lparr>pe_during = (\<lambda>i. []), pe_now = int, pe_wake = (\<lambda>i. PollAgain)\<rparr>"

lemma tcp_probe_ends_witness:
  "\<exists>res. probeTCP 5 (\<lambda>a. []) ''127.0.0.1:80'' ''3s'' 3 0 silent_env (\<lambda>i. (None, TcpFailed ''connection refused''))
     (newOwnerCheck False \<lparr>pi_name = ''web'', pi_proc = zero_Process, pi_colorIndex = 0, pi_teardown = False\<rparr> 1 ''tcp'', newProcState 0) = Some res"
  by (rule tcp_probe_ends [of 3 0 silent_env 4]) (simp_all add: silent_env_def)

section \<open>Who makes a process ready\<close>

definition readies :: "side_op \<Rightarrow> bool" where
  "readies s = (case s of SideReady _ _ _ \<Rightarrow> True | _ \<Rightarrow> False)"

lemma side_cycles:
  "\<not> readies s \<Longrightarrow> ps_cycles (apply_side s st) = ps_cycles st \<and> ps_cycle (apply_side s st) = ps_cycle st"
  by (cases s) (auto simp: readies_def setRunning_def setExitCode_def recordRefusedOwner_def failReadinessFor_def recordHealth_def
      recordHealthSkipped_def recordHealthOwner_def requestRestart_def takeRestart_def Let_def split: option.splits)

lemma sides_cycles:
  "list_all (\<lambda>s. \<not> readies s) ss \<Longrightarrow>
     ps_cycles (fold apply_side ss st) = ps_cycles st \<and> ps_cycle (fold apply_side ss st) = ps_cycle st"
  by (induction ss arbitrary: st) (simp_all add: side_cycles)

lemma settled_of_cycles: "ps_cycles s = ps_cycles t \<Longrightarrow> ps_cycle s = ps_cycle t \<Longrightarrow> readySettled s = readySettled t"
  by (cases "ps_cycle t") (simp_all add: readySettled_def cycle_at_def)

lemma probe_poll_state:
  assumes "\<And>i. list_all (\<lambda>s. \<not> readies s) (pe_during pe i)"
    and "probe_poll fuel prt what limit deadline pe attempts i ((c, st), log) = Some ((ok, rejected), (c', st'), log')"
  shows "ps_cycles st' = ps_cycles st \<and> ps_cycle st' = ps_cycle st \<and> oc_gen c' = oc_gen c \<and>
    (ok \<longrightarrow> (\<exists>k owner. attempts k = OnceOk owner \<and> oc_owner c' = Some (answered_by owner) \<and>
       refusalOf (Some (answered_by owner)) (oc_reject c) (oc_refuseCross c) = []))"
  using assms(2)
proof (induction fuel arbitrary: i c st log)
  case (Suc fuel)
  let ?st = "fold apply_side (pe_during pe i) st"
  have st: "ps_cycles ?st = ps_cycles st" "ps_cycle ?st = ps_cycle st" using sides_cycles [OF assms(1)] by blast+
  show ?case
  proof (cases "attempts i")
    case (OnceBadURL m)
    then show ?thesis using Suc.prems st by (auto simp: Let_def)
  next
    case (OnceErr m)
    then show ?thesis using Suc.prems st Suc.IH [of "i + 1" c ?st]
      by (cases "pe_wake pe i") (auto simp: Let_def split: if_splits)
  next
    case (OnceOk owner)
    obtain m c1 st1 l where a: "accept prt owner (c, ?st) = (m, (c1, st1), l)" by (metis prod.exhaust)
    note f = accept_check [OF a]
    show ?thesis
    proof (cases m)
      case None
      then show ?thesis using Suc.prems OnceOk a st f by (auto simp: Let_def)
    next
      case (Some x)
      then show ?thesis using Suc.prems OnceOk a st f(1,4) Suc.IH [of "i + 1" c1 st1]
        by (cases "pe_wake pe i") (auto simp: Let_def split: if_splits)
    qed
  qed
qed simp

lemma socket_verdict_settles:
  assumes "socket_verdict kind live ((ok, rejected), (c, st), log) = (b, st')" "\<not> readySettled st" "readySettled st'"
  shows "ok \<and> ps_readinessOwner st' = oc_owner c"
proof -
  have ok
  proof (rule ccontr)
    assume "\<not> ok"
    then obtain m where "failReadinessFor live (oc_gen c) m st = (b, st')"
      using assms(1) unfolding socket_verdict_def handleProbeResult_def by (auto simp: Let_def)
    then have "ps_cycles st' = ps_cycles st" "ps_cycle st' = ps_cycle st" by (auto simp: failReadinessFor_def split: if_splits)
    then show False using settled_of_cycles [of st' st] assms(2,3) by simp
  qed
  moreover have "ps_readinessOwner (snd (markReadyFor live g True ow st)) = ow"
    if "readySettled (snd (markReadyFor live g True ow st))" for g ow
    using that assms(2) unfolding markReadyFor_def latchReady_def
    by (auto simp: settle_cycle_def split: if_splits option.splits)
  ultimately show ?thesis
    using assms(1,3) unfolding socket_verdict_def handleProbeResult_def by auto
qed

text \<open>The attempts of the readiness probe of a process: over HTTP when it has a URL, otherwise over TCP.\<close>

definition socket_attempt :: "ReadyWhen \<Rightarrow> readiness_env \<Rightarrow> nat \<Rightarrow> once_result" where
  "socket_attempt rw re k =
     (if rw_HTTP rw \<noteq> [] then httpOnce (fst (re_http re k)) (snd (re_http re k)) else tcpOnce (fst (re_tcp re k)) (snd (re_tcp re k)))"

text \<open>
  C11. An answer that is refused never makes a process ready. When the probe of a process with an http or tcp readiness
  check makes it ready (no other goroutine settles that cycle), the readiness owner it records, with the scope it was
  given, is the answer to an attempt that passed, and one that counts: under \<open>foreign_listener: reject\<close> it is not a
  foreign process, and when answers of other sessions are refused it is not one of theirs.
\<close>

theorem refused_answer_never_makes_ready:
  assumes "p_ReadyWhen (pi_proc p) = Some rw" and "rw_HTTP rw \<noteq> [] \<or> rw_TCP rw \<noteq> []"
    and "\<And>i. list_all (\<lambda>s. \<not> readies s) (pe_during (re_poll re) i)"
    and "\<not> readySettled st"
    and "readiness_on_start fuel prt refuseCross re p gen (r, st) = Some (b, r', st')"
    and "readySettled st'"
  shows "\<exists>k owner a. socket_attempt rw re k = OnceOk owner \<and> a = answered_by owner \<and> ps_readinessOwner st' = Some a \<and>
    \<not> (eo_Result a = OwnerForeign \<and>
        (EffectiveForeignListener (pi_proc p) = ForeignListenerReject \<or> refuseCross \<and> eo_Scope a = ScopeCrossSession))"
proof -
  have result: "\<exists>k owner a. att k = OnceOk owner \<and> a = answered_by owner \<and> ps_readinessOwner s' = Some a \<and>
      \<not> (eo_Result a = OwnerForeign \<and> (EffectiveForeignListener (pi_proc p) = ForeignListenerReject \<or> refuseCross \<and> eo_Scope a = ScopeCrossSession))"
    if "probe_poll fuel prt w l d (re_poll re) att 0 ((newOwnerCheck refuseCross p gen kind, st), []) = Some res"
      "socket_verdict kind (re_live re) res = (b', s')" "readySettled s'" for w l d att kind res b' s'
  proof -
    obtain ok rejected c1 st1 log1 where res: "res = ((ok, rejected), (c1, st1), log1)" by (metis prod.exhaust)
    note poll = probe_poll_state [OF assms(3) that(1) [unfolded res]]
    have "\<not> readySettled st1" using poll settled_of_cycles [of st1 st] assms(4) by simp
    from socket_verdict_settles [OF that(2) [unfolded res] this that(3)] have "ok" "ps_readinessOwner s' = oc_owner c1" by simp_all
    with poll obtain k owner where k: "att k = OnceOk owner" "ps_readinessOwner s' = Some (answered_by owner)"
      "refusalOf (Some (answered_by owner)) (EffectiveForeignListener (pi_proc p) = ForeignListenerReject) refuseCross = []"
      by (auto simp: newOwnerCheck_def)
    from k(3) have "\<not> (eo_Result (answered_by owner) = OwnerForeign \<and>
        (EffectiveForeignListener (pi_proc p) = ForeignListenerReject \<or> refuseCross \<and> eo_Scope (answered_by owner) = ScopeCrossSession))"
      by (auto simp: refusalOf_def split: if_splits)
    with k(1,2) show ?thesis by blast
  qed
  let ?t = "resolveReadyTimeout (p_ReadyTimeout (pi_proc p))"
  show ?thesis
  proof (cases "rw_HTTP rw = []")
    case False
    then obtain res where "probeHTTP fuel prt (rw_HTTP rw) (re_limit re) ?t (re_start re) (re_poll re) (re_http re)
        (newOwnerCheck refuseCross p gen ''http'', st) = Some res" "socket_verdict ''http'' (re_live re) res = (b, st')"
      using assms(1,5) by (auto simp: readiness_on_start_def Let_def case_prod_unfold prod_eq_iff)
    then show ?thesis using result [OF _ _ assms(6)] False unfolding probeHTTP_def socket_attempt_def by simp
  next
    case True
    then obtain res where "probeTCP fuel prt (rw_TCP rw) (re_limit re) ?t (re_start re) (re_poll re) (re_tcp re)
        (newOwnerCheck refuseCross p gen ''tcp'', st) = Some res" "socket_verdict ''tcp'' (re_live re) res = (b, st')"
      using assms(1,2,5) by (auto simp: readiness_on_start_def Let_def case_prod_unfold prod_eq_iff)
    then show ?thesis using result [OF _ _ assms(6)] True unfolding probeTCP_def socket_attempt_def by simp
  qed
qed

text \<open>An example: a process of another session answers the first attempt, the process itself the second.\<close>

definition example_probe :: procInfo where
  "example_probe = \<lparr>pi_name = ''web'', pi_proc = zero_Process\<lparr>p_ReadyWhen := Some \<lparr>rw_HTTP = [], rw_TCP = ''127.0.0.1:80'', rw_Cmd = [],
     rw_Log = []\<rparr>, p_ForeignListener := ''allow''\<rparr>, pi_colorIndex = 0, pi_teardown = False\<rparr>"

definition example_answers :: readiness_env where
  "example_answers = \<lparr>re_limit = ''1m0s'', re_start = 0, re_poll = silent_env, re_http = (\<lambda>i. (None, HttpFailed [], [])),
     re_tcp = (\<lambda>i. (Some (\<lambda>c. if i = 0 then (found_owner OwnerForeign 7 ''srv'')\<lparr>eo_Scope := ScopeCrossSession\<rparr> else found_owner OwnerOwned 8 ''srv''),
        TcpOpened (Some (pc_local no_conn, pc_remote no_conn)) None)),
     re_cmd = (\<lambda>i. undefined), re_during = [], re_live = True\<rparr>"

definition example_state :: procState where
  "example_state = setRunning 7 (beginIncarnation 0 False (newProcState 0))"

lemma example_becomes_ready:
  "readiness_on_start 3 (\<lambda>a. []) True example_answers example_probe 1 (r, example_state) =
     Some (False, r, (settle_cycle readySatisfied (example_state\<lparr>ps_readinessOwner := Some (found_owner OwnerOwned 8 ''srv'')\<rparr>)))"
  by (simp add: readiness_on_start_def example_probe_def example_answers_def probeTCP_def silent_env_def example_state_def setRunning_def
      beginIncarnation_def newProcState_def numeral_3_eq_3 tcpOnce_def connOwner_def probeConnOf_def no_conn_def accept_def answered_by_def
      newOwnerCheck_def EffectiveForeignListener_def zero_Process_def refusalOf_def found_owner_def recordRefusedOwner_def readySettled_def
      cycle_at_def newReadyCycle_def Let_def passed_deadline_def deadlineFor_def resolveReadyTimeout_def
      socket_verdict_def handleProbeResult_def markReadyFor_def latchReady_def unsettled_def)

definition example_when :: ReadyWhen where
  "example_when = \<lparr>rw_HTTP = [], rw_TCP = ''127.0.0.1:80'', rw_Cmd = [], rw_Log = []\<rparr>"

lemma refused_answer_never_makes_ready_witness:
  "\<exists>k owner a. socket_attempt example_when example_answers k = OnceOk owner \<and> a = answered_by owner \<and>
     ps_readinessOwner (settle_cycle readySatisfied (example_state\<lparr>ps_readinessOwner := Some (found_owner OwnerOwned 8 ''srv'')\<rparr>)) = Some a \<and>
     \<not> (eo_Result a = OwnerForeign \<and> eo_Scope a = ScopeCrossSession)"
proof -
  let ?st = "settle_cycle readySatisfied (example_state\<lparr>ps_readinessOwner := Some (found_owner OwnerOwned 8 ''srv'')\<rparr>)"
  have "p_ReadyWhen (pi_proc example_probe) = Some example_when" "rw_HTTP example_when \<noteq> [] \<or> rw_TCP example_when \<noteq> []"
    by (simp_all add: example_probe_def example_when_def)
  moreover have "list_all (\<lambda>s. \<not> readies s) (pe_during (re_poll example_answers) i)" for i by (simp add: example_answers_def silent_env_def)
  moreover have "\<not> readySettled example_state" "readySettled ?st"
    by (simp_all add: example_state_def setRunning_def beginIncarnation_def newProcState_def readySettled_def cycle_at_def newReadyCycle_def settle_cycle_def)
  ultimately have "\<exists>k owner a. socket_attempt example_when example_answers k = OnceOk owner \<and> a = answered_by owner \<and> ps_readinessOwner ?st = Some a \<and>
      \<not> (eo_Result a = OwnerForeign \<and>
        (EffectiveForeignListener (pi_proc example_probe) = ForeignListenerReject \<or> True \<and> eo_Scope a = ScopeCrossSession))"
    by (intro refused_answer_never_makes_ready [OF _ _ _ _ example_becomes_ready])
  then show ?thesis by blast
qed

section \<open>When the monitor restarts a process\<close>

text \<open>The verdict a round records, and the verdicts of all rounds until the monitor ends.\<close>

definition round_verdict :: "(addr_port \<Rightarrow> string) \<Rightarrow> health_monitor \<Rightarrow> health_round \<Rightarrow> monitor_state \<Rightarrow> bool option" where
  "round_verdict prt hm h = (\<lambda>(st, r, log).
     if \<not> hr_timer h \<or> \<not> hr_live h then None
     else let co = fst (healthCheck (hm_proc hm) (hm_when hm) (hr_check h) r)
          in case judge_owner prt hm (hr_liveOwner h) co (fold apply_side (hr_during h) st) of
            ((ok, _), st2, _) \<Rightarrow> if co_skipped co \<or> \<not> health_current (hr_liveRecord h) (hm_gen hm) st2 then None else Some ok)"

fun recorded_verdicts :: "(addr_port \<Rightarrow> string) \<Rightarrow> health_monitor \<Rightarrow> health_round list \<Rightarrow> bool \<Rightarrow> monitor_state \<Rightarrow> bool list" where
  "recorded_verdicts prt hm [] refusing s = []"
| "recorded_verdicts prt hm (h # hs) refusing s =
     (case round_verdict prt hm h s of None \<Rightarrow> [] | Some ok \<Rightarrow> [ok]) @
     (case monitor_round prt hm h refusing s of
        (Some _, _, _) \<Rightarrow> []
      | (None, refusing1, s1) \<Rightarrow> recorded_verdicts prt hm hs refusing1 s1)"

definition three_failures :: "bool list \<Rightarrow> bool" where
  "three_failures vs = (take 3 (rev vs) = [False, False, False])"

text \<open>Only the monitor records checks of its incarnation.\<close>

definition checks :: "side_op \<Rightarrow> bool" where
  "checks s = (case s of SideHealth _ _ _ _ _ \<Rightarrow> True | SideHealthSkipped _ _ _ \<Rightarrow> True | _ \<Rightarrow> False)"

lemma side_health:
  "\<not> checks s \<Longrightarrow> ps_health (apply_side s st) = ps_health st \<and> ps_healthFailures (apply_side s st) = ps_healthFailures st"
  by (cases s) (auto simp: checks_def setRunning_def setExitCode_def recordRefusedOwner_def failReadinessFor_def recordHealthOwner_def
      requestRestart_def takeRestart_def markReadyFor_def latchReady_def settle_cycle_def Let_def split: option.splits)

lemma sides_health:
  "list_all (\<lambda>s. \<not> checks s) ss \<Longrightarrow>
     ps_health (fold apply_side ss st) = ps_health st \<and> ps_healthFailures (fold apply_side ss st) = ps_healthFailures st"
  by (induction ss arbitrary: st) (simp_all add: side_health)

lemma judge_health:
  assumes "judge_owner prt hm live co st = (judged, st1, l)"
  shows "ps_health st1 = ps_health st \<and> ps_healthFailures st1 = ps_healthFailures st"
proof -
  have "ps_health s = ps_health st \<and> ps_healthFailures s = ps_healthFailures st" if "recordHealthOwner live g ow st = (b, s)" for g ow b s
    using that by (auto simp: recordHealthOwner_def Let_def split: option.splits if_splits)
  then show ?thesis using assms by (auto simp: judge_owner_def Let_def split: option.splits if_splits prod.splits)
qed

text \<open>What a round does to the count of failures; \<open>n\<close> is the count before it, below three.\<close>

lemma monitor_round_counts:
  assumes "list_all (\<lambda>s. \<not> checks s) (hr_during h)" and "hm_restart hm"
    and "n < 3" and "ps_healthFailures st = int n" and "ps_health st \<noteq> healthUnhealthy"
    and "monitor_round prt hm h refusing (st, r, log) = (e, refusing1, st1, r1, log1)"
  shows "case round_verdict prt hm h (st, r, log) of
      None \<Rightarrow> e \<noteq> Some MonitorRestarts \<and> (e = None \<longrightarrow> ps_healthFailures st1 = int n \<and> ps_health st1 \<noteq> healthUnhealthy)
    | Some True \<Rightarrow> e = None \<and> ps_healthFailures st1 = 0 \<and> ps_health st1 \<noteq> healthUnhealthy
    | Some False \<Rightarrow> if n < 2 then e = None \<and> ps_healthFailures st1 = int (n + 1) \<and> ps_health st1 \<noteq> healthUnhealthy else e = Some MonitorRestarts"
proof (cases "hr_timer h \<and> hr_live h")
  case False
  then show ?thesis using assms(6) by (auto simp: monitor_round_def round_verdict_def Let_def split: if_splits prod.splits)
next
  case live: True
  obtain co r2 where co: "healthCheck (hm_proc hm) (hm_when hm) (hr_check h) r = (co, r2)" by (rule prod.exhaust)
  let ?st = "fold apply_side (hr_during h) st"
  obtain ok detail st2 l where j: "judge_owner prt hm (hr_liveOwner h) co ?st = ((ok, detail), st2, l)" by (metis prod.exhaust)
  have st2: "ps_health st2 = ps_health st" "ps_healthFailures st2 = int n"
    using sides_health [OF assms(1)] judge_health [OF j] assms(4) by simp_all
  show ?thesis
  proof (cases "co_skipped co")
    case True
    have "ps_health (snd (recordHealthSkipped lv g m st2)) \<noteq> healthUnhealthy \<and> ps_healthFailures (snd (recordHealthSkipped lv g m st2)) = int n"
      for lv g m using st2 assms(5) by (auto simp: recordHealthSkipped_def)
    then show ?thesis
      using assms(6) live co j True st2 assms(5) by (auto simp: monitor_round_def round_verdict_def Let_def split: if_splits)
  next
    case False
    obtain tr st3 where tr: "recordHealth (hr_liveRecord h) (hm_gen hm) ok detail (hm_restart hm) st2 = (tr, st3)" by (rule prod.exhaust)
    have res: "e = (if tr = healthBecameUnhealthy then Some MonitorRestarts else None)" "st1 = st3"
      using assms(2,6) live co j False tr by (auto simp: monitor_round_def count_check_def Let_def)
    have v: "round_verdict prt hm h (st, r, log) = (if health_current (hr_liveRecord h) (hm_gen hm) st2 then Some ok else None)"
      using live co j False by (simp add: round_verdict_def)
    show ?thesis
      unfolding v using tr res st2 assms(2,3,5)
      by (cases ok; cases "health_current (hr_liveRecord h) (hm_gen hm) st2"; cases "n < 2")
        (auto simp: recordHealth_def Let_def split: health_verdict.splits if_splits)
  qed
qed

lemma three_after_pass: "three_failures (xs @ True # vs) = three_failures vs"
proof -
  consider "rev vs = []" | a where "rev vs = [a]" | a b where "rev vs = [a, b]" | a b c ws where "rev vs = a # b # c # ws"
    by (metis list.exhaust)
  then show ?thesis by cases (auto simp: three_failures_def numeral_3_eq_3)
qed

lemma too_few: "n < 3 \<Longrightarrow> \<not> three_failures (replicate n False)"
proof -
  have "length (take 3 (rev vs)) = 3" if "three_failures vs" for vs using that by (simp add: three_failures_def)
  then show "n < 3 \<Longrightarrow> \<not> three_failures (replicate n False)" by fastforce
qed

lemma monitor_rounds_exact:
  assumes "list_all (\<lambda>h. list_all (\<lambda>s. \<not> checks s) (hr_during h)) hs" and "hm_restart hm"
    and "n < 3" and "ps_healthFailures st = int n" and "ps_health st \<noteq> healthUnhealthy"
  shows "fst (monitor_rounds prt hm hs refusing (st, r, log)) = MonitorRestarts \<longleftrightarrow>
    three_failures (replicate n False @ recorded_verdicts prt hm hs refusing (st, r, log))"
  using assms
proof (induction hs arbitrary: n refusing st r log)
  case Nil
  then show ?case using too_few by simp
next
  case (Cons h hs)
  obtain e refusing1 st1 r1 log1 where m: "monitor_round prt hm h refusing (st, r, log) = (e, refusing1, st1, r1, log1)" by (metis prod.exhaust)
  have h: "list_all (\<lambda>s. \<not> checks s) (hr_during h)" and hs: "list_all (\<lambda>h. list_all (\<lambda>s. \<not> checks s) (hr_during h)) hs"
    using Cons.prems(1) by simp_all
  note c = monitor_round_counts [OF h Cons.prems(2-5) m]
  note IH = Cons.IH [OF hs Cons.prems(2)]
  show ?case
  proof (cases "round_verdict prt hm h (st, r, log)")
    case None
    show ?thesis
    proof (cases e)
      case n: None
      then show ?thesis using None c m IH [OF Cons.prems(3), of st1 refusing1 r1 log1] by simp
    next
      case (Some x)
      then show ?thesis using None c m too_few [OF Cons.prems(3)] by simp
    qed
  next
    case (Some ok)
    show ?thesis
    proof (cases ok)
      case True
      then show ?thesis using Some c m IH [of 0 st1 refusing1 r1 log1] three_after_pass by simp
    next
      case False
      show ?thesis
      proof (cases "n < 2")
        case True
        have move: "replicate n False @ False # vs = False # replicate n False @ vs" for vs by (simp add: replicate_app_Cons_same)
        show ?thesis using Some False True c m IH [of "n + 1" st1 refusing1 r1 log1] by (simp add: move)
      next
        case two: False
        then have "n = 2" using Cons.prems(3) by simp
        then show ?thesis using Some False two c m by (simp add: three_failures_def numeral_2_eq_2 numeral_3_eq_3)
      qed
    qed
  qed
qed

lemma reporting_monitor_goes_on: "\<not> hm_restart hm \<Longrightarrow> fst (monitor_rounds prt hm hs refusing s) \<noteq> MonitorRestarts"
proof (induction hs arbitrary: refusing s)
  case (Cons h hs)
  obtain st r log where s: "s = (st, r, log)" by (metis prod.exhaust)
  obtain e refusing1 s1 where m: "monitor_round prt hm h refusing s = (e, refusing1, s1)" by (metis prod.exhaust)
  have "e \<noteq> Some MonitorRestarts"
    using m Cons.prems unfolding s by (auto simp: monitor_round_def count_check_def Let_def split: if_splits prod.splits)
  then show ?case using m Cons.IH [OF Cons.prems] by (cases e) auto
qed simp

text \<open>
  C14. The health monitor restarts a process exactly when it should: \<open>health_action\<close> is \<open>restart\<close>, the incarnation became
  ready, and the last three checks that were recorded all failed. A check that passes starts the count again; one
  that shutdown refused, or that could not be launched, is not counted.
\<close>

theorem monitor_restarts_exactly:
  assumes "p_HealthWhen (pi_proc p) = Some hw"
    and "list_all (\<lambda>s. \<not> checks s) during" and "list_all (\<lambda>h. list_all (\<lambda>s. \<not> checks s) (hr_during h)) rounds"
    and "ps_healthFailures st = 0" and "ps_health st = healthUnknown"
  shows "fst (monitorHealth prt refuseCross p gen (closed, during) rounds (r, st)) = MonitorRestarts \<longleftrightarrow>
    EffectiveHealthAction (pi_proc p) = HealthActionRestart \<and> closed \<and>
    outcomeOf (fold apply_side during st) (ps_cycle st) = readySatisfied \<and> ps_generation (fold apply_side during st) = gen \<and>
    three_failures (recorded_verdicts prt (new_monitor refuseCross p gen hw) rounds False (fold apply_side during st, r, []))"
proof -
  let ?st = "fold apply_side during st"
  have st: "ps_healthFailures ?st = int 0" "ps_health ?st \<noteq> healthUnhealthy" using sides_health [OF assms(2), of st] assms(4,5) by simp_all
  let ?hm = "new_monitor refuseCross p gen hw"
  have r: "hm_restart ?hm \<longleftrightarrow> EffectiveHealthAction (pi_proc p) = HealthActionRestart" by (simp add: new_monitor_def)
  have "fst (monitor_rounds prt ?hm rounds False (?st, r, [])) = MonitorRestarts \<longleftrightarrow>
      hm_restart ?hm \<and> three_failures (recorded_verdicts prt ?hm rounds False (?st, r, []))"
    using monitor_rounds_exact [OF assms(3) _ _ st, of ?hm prt False r "[]"] reporting_monitor_goes_on [of ?hm prt rounds False "(?st, r, [])"]
    by (cases "hm_restart ?hm") simp_all
  then show ?thesis
    unfolding r using assms(1) by (auto simp: monitorHealth_def currentReadyCycle_def Let_def)
qed

text \<open>An example: a service whose check is refused a connection three times.\<close>

definition failing_round :: health_round where
  "failing_round = \<lparr>hr_timer = True, hr_during = [], hr_check = \<lparr>ce_attribute = None, ce_http = (HttpFailed [], []),
     ce_tcp = TcpFailed ''connection refused'', ce_cmd = undefined\<rparr>, hr_live = True, hr_liveOwner = True, hr_liveSkip = True, hr_liveRecord = True\<rparr>"

definition watched :: procInfo where
  "watched = \<lparr>pi_name = ''web'', pi_proc = zero_Process\<lparr>p_HealthWhen := Some \<lparr>rw_HTTP = [], rw_TCP = ''127.0.0.1:80'', rw_Cmd = [], rw_Log = []\<rparr>,
     p_HealthAction := ''restart''\<rparr>, pi_colorIndex = 0, pi_teardown = False\<rparr>"

lemma monitor_restarts_exactly_witness:
  "fst (monitorHealth (\<lambda>a. []) False watched 1 (True, [SideReady True 1 None]) (replicate 3 failing_round)
     (stuck_runner, setRunning 7 (beginIncarnation 0 True (newProcState 0)))) = MonitorRestarts"
  by (subst monitor_restarts_exactly [of watched "\<lparr>rw_HTTP = [], rw_TCP = ''127.0.0.1:80'', rw_Cmd = [], rw_Log = []\<rparr>"])
    (simp_all add: watched_def failing_round_def zero_Process_def checks_def setRunning_def beginIncarnation_def newProcState_def
      EffectiveHealthAction_def outcomeOf_def markReadyFor_def latchReady_def unsettled_def cycle_at_def newReadyCycle_def settle_cycle_def
      numeral_3_eq_3 round_verdict_def monitor_round_def healthCheck_def tcpOnce_def socket_outcome_def judge_owner_def count_check_def
      recordHealth_def health_current_def new_monitor_def three_failures_def Let_def)

end
