(* ===== verification/Ipc_Frames.thy ===== *)
theory Ipc_Frames
  imports Runner_Reload
begin

text \<open>
  Commands that arrive at the daemon (\<^verbatim>\<open>readCommands\<close>, \<^verbatim>\<open>handleCommand\<close> and \<^verbatim>\<open>writeAck\<close> in
  \<^verbatim>\<open>internal/ipc/server.go\<close>, \<^verbatim>\<open>WaitFlushed\<close> in \<^verbatim>\<open>internal/ipc/ipc.go\<close>). A connection is the text the client sends on
  it until it ends; \<open>decode\<close> gives the command of a frame that holds one.
\<close>

section \<open>Reading up to a newline\<close>

abbreviation nl :: char where "nl \<equiv> CHR 0x0A"

text \<open>How \<^verbatim>\<open>ReadSlice\<close> of a buffered reader ends: with the newline, with a full buffer, or with the stream.\<close>

datatype slice_end = SliceLine | SliceFull | SliceEnd

definition ReadSlice :: "nat \<Rightarrow> string \<Rightarrow> string \<times> slice_end \<times> string" where
  "ReadSlice capacity s =
     (let w = takeWhile (\<lambda>c. c \<noteq> nl) s
      in if length w < length s \<and> length w < capacity then (w @ [nl], SliceLine, drop (length w + 1) s)
         else if length s < capacity then (s, SliceEnd, [])
         else (take capacity s, SliceFull, drop capacity s))"

abbreviation maxCommandFrameBytes :: nat where "maxCommandFrameBytes \<equiv> 65536"

lemma ReadSlice_shorter:
  "ReadSlice capacity s = (f, e, rest) \<Longrightarrow> e \<noteq> SliceEnd \<Longrightarrow> 0 < capacity \<Longrightarrow> length rest < length s"
  by (auto simp: ReadSlice_def Let_def split: if_splits)

text \<open>The rest after the next newline, and whether the stream ended before one.\<close>

function discardLine :: "string \<Rightarrow> bool \<times> string" where
  "discardLine s = (case ReadSlice maxCommandFrameBytes s of
     (_, SliceFull, rest) \<Rightarrow> discardLine rest
   | (_, SliceLine, rest) \<Rightarrow> (False, rest)
   | (_, SliceEnd, rest) \<Rightarrow> (True, rest))"
  by pat_completeness auto
termination by (relation "measure length") (auto dest: ReadSlice_shorter [OF sym])

declare discardLine.simps [simp del]

lemma discardLine_shorter: "length (snd (discardLine s)) \<le> length s"
proof (induction s rule: discardLine.induct)
  case (1 s)
  obtain f e rest where r: "ReadSlice maxCommandFrameBytes s = (f, e, rest)" by (metis prod.exhaust)
  have "length rest \<le> length s" using r by (auto simp: ReadSlice_def Let_def split: if_splits)
  then show ?case using 1 r by (cases e) (auto simp: discardLine.simps [of s] intro: order_trans)
qed

section \<open>Command frames\<close>

text \<open>The next frame, \<open>None\<close> when it was too long, whether the stream ended with it, and what follows.\<close>

definition next_frame :: "string \<Rightarrow> string option \<times> bool \<times> string" where
  "next_frame s = (case ReadSlice maxCommandFrameBytes s of
     (_, SliceFull, rest) \<Rightarrow> (None, discardLine rest)
   | (frame, e, rest) \<Rightarrow> (Some frame, e = SliceEnd, rest))"

lemma next_frame_shorter: "next_frame s = (frame, over, rest) \<Longrightarrow> \<not> over \<Longrightarrow> length rest < length s"
proof -
  obtain f e r where r: "ReadSlice maxCommandFrameBytes s = (f, e, r)" by (metis prod.exhaust)
  have "length (snd (discardLine r)) \<le> length r" by (rule discardLine_shorter)
  then show "next_frame s = (frame, over, rest) \<Longrightarrow> \<not> over \<Longrightarrow> length rest < length s"
    using r ReadSlice_shorter [OF r] by (cases e) (auto simp: next_frame_def)
qed

text \<open>What the server does for a frame: it rejects one that is too long, or hands a command on.\<close>

datatype frame_act = ActReject | ActCommand Command

definition frame_acts :: "(string \<Rightarrow> Command option) \<Rightarrow> string option \<Rightarrow> frame_act list" where
  "frame_acts decode frame = (case frame of
     None \<Rightarrow> [ActReject]
   | Some f \<Rightarrow> if f = [] then [] else case decode f of None \<Rightarrow> [] | Some c \<Rightarrow> [ActCommand c])"

text \<open>\<open>framed\<close>: the snapshot went out, so commands are acted on; otherwise the reader leaves at the first one.\<close>

function readCommands :: "(string \<Rightarrow> Command option) \<Rightarrow> bool \<Rightarrow> string \<Rightarrow> frame_act list" where
  "readCommands decode framed s = (case next_frame s of
     (frame, over, rest) \<Rightarrow>
       if frame_acts decode frame \<noteq> [] \<and> \<not> framed then []
       else frame_acts decode frame @ (if over then [] else readCommands decode framed rest))"
  by pat_completeness auto
termination by (relation "measure (\<lambda>(d, f, s). length s)") (auto dest: next_frame_shorter [OF sym])

declare readCommands.simps [simp del]

section \<open>Acknowledgments\<close>

record Ack =
  ak_Ack :: string
  ak_Detail :: string
  ak_Generation :: "64 word"

definition rejectOversizedFrame :: Ack where
  "rejectOversizedFrame = \<lparr>ak_Ack = ''error'', ak_Detail =
     ''command frame too long: the daemon accepts command frames of at most 65536 bytes; the frame was discarded'', ak_Generation = 0\<rparr>"

text \<open>A write of an acknowledgment: what \<^verbatim>\<open>Write\<close> returned.\<close>

definition writeAck :: "string option \<Rightarrow> string option" where
  "writeAck wr = map_option (\<lambda>m. ''write acknowledgment: '' @ m) wr"

text \<open>
  What a command meets: whether the queue to the runner had room, the verdict that arrived in time, and the write of
  its acknowledgment. \<open>limit\<close> is the reply timeout as it is printed.
\<close>

record command_env =
  cn_queued :: bool
  cn_reply :: "CommandResult option"
  cn_write :: "string option"

text \<open>The acknowledgment, and what the waiting handler learns: why the verdict was not delivered, if it was not.\<close>

definition ipc_handleCommand :: "string \<Rightarrow> command_env \<Rightarrow> Ack \<times> string option" where
  "ipc_handleCommand limit ce =
     (let (ack, undelivered) =
        (if \<not> cn_queued ce then (\<lparr>ak_Ack = ''busy'', ak_Detail = [], ak_Generation = 0\<rparr>, None)
         else case cn_reply ce of
             Some res \<Rightarrow> (\<lparr>ak_Ack = cr_Status res, ak_Detail = cr_Message res, ak_Generation = cr_Generation res\<rparr>, None)
           | None \<Rightarrow> (\<lparr>ak_Ack = ''error'', ak_Detail = ''timed out waiting for runner reply'', ak_Generation = 0\<rparr>,
               Some (''the client was answered with a timeout after '' @ limit @ '', before the runner's verdict arrived'')))
      in (ack, (if undelivered = None then writeAck (cn_write ce) else undelivered)))"

text \<open>
  \<open>WaitFlushed\<close> of a command: \<open>None\<close> for one that came from no server; otherwise what the delivery reported, if it
  finished before the wait ended.
\<close>

definition WaitFlushed :: "string \<Rightarrow> string option option option \<Rightarrow> string option" where
  "WaitFlushed limit flushed = (case flushed of
     None \<Rightarrow> None
   | Some None \<Rightarrow> Some (''the acknowledgment was not written within '' @ limit)
   | Some (Some err) \<Rightarrow> err)"

section \<open>Reading is frame by frame\<close>

lemma take_line: "n \<le> length (takeWhile P s) \<Longrightarrow> c \<in> set (take n s) \<Longrightarrow> P c"
proof (induction s arbitrary: n)
  case (Cons x s)
  then show ?case by (cases n) (auto split: if_splits)
qed simp

text \<open>The frames of a stream: its lines with their newlines, and what follows the last one.\<close>

function stream_frames :: "string \<Rightarrow> string list" where
  "stream_frames s =
     (let w = takeWhile (\<lambda>c. c \<noteq> nl) s
      in if length w < length s then (w @ [nl]) # stream_frames (drop (length w + 1) s)
         else if s = [] then [] else [s])"
  by pat_completeness auto
termination by (relation "measure length") auto

declare stream_frames.simps [simp del]

definition too_long :: "string \<Rightarrow> bool" where
  "too_long f = (length f > maxCommandFrameBytes \<or> length f = maxCommandFrameBytes \<and> List.last f \<noteq> nl)"

lemma discardLine_line:
  "discardLine s = (let w = takeWhile (\<lambda>c. c \<noteq> nl) s
     in if length w < length s then (False, drop (length w + 1) s) else (True, []))"
proof (induction s rule: discardLine.induct)
  case (1 s)
  let ?w = "takeWhile (\<lambda>c. c \<noteq> nl) s"
  show ?case
  proof (cases "length s < maxCommandFrameBytes \<or> length ?w < length s \<and> length ?w < maxCommandFrameBytes")
    case True
    then show ?thesis by (auto simp: discardLine.simps [of s] ReadSlice_def Let_def)
  next
    case False
    then have r: "ReadSlice maxCommandFrameBytes s = (take maxCommandFrameBytes s, SliceFull, drop maxCommandFrameBytes s)"
      by (auto simp: ReadSlice_def Let_def)
    have le: "maxCommandFrameBytes \<le> length ?w" using False length_takeWhile_le [of "\<lambda>c. c \<noteq> nl" s] by linarith
    have s: "s = take maxCommandFrameBytes s @ drop maxCommandFrameBytes s" by simp
    have all: "\<forall>c \<in> set (take maxCommandFrameBytes s). c \<noteq> nl" using take_line [OF le] by blast
    have w: "?w = take maxCommandFrameBytes s @ takeWhile (\<lambda>c. c \<noteq> nl) (drop maxCommandFrameBytes s)"
      using all by (subst s, subst takeWhile_append2) auto
    have len: "length (take maxCommandFrameBytes s) = maxCommandFrameBytes" using False by auto
    show ?thesis
      unfolding discardLine.simps [of s] r using 1 [OF r [symmetric] refl refl] False
      by (simp add: Let_def w len add.commute) linarith
  qed
qed

lemma next_frame_stream:
  "next_frame s = (let w = takeWhile (\<lambda>c. c \<noteq> nl) s
     in if length w < length s
        then (if too_long (w @ [nl]) then None else Some (w @ [nl]), False, drop (length w + 1) s)
        else (if too_long s then None else Some s, True, []))"
proof -
  let ?w = "takeWhile (\<lambda>c. c \<noteq> nl) s" and ?m = maxCommandFrameBytes
  have le: "length ?w \<le> length s" by (rule length_takeWhile_le)
  consider (line) "length ?w < length s" "length ?w < ?m" | (short) "length ?w = length s" "length s < ?m" | (full) "?m \<le> length ?w"
    using le by linarith
  then show ?thesis
  proof cases
    case line
    then show ?thesis by (simp add: next_frame_def ReadSlice_def Let_def too_long_def)
  next
    case short
    then show ?thesis by (simp add: next_frame_def ReadSlice_def Let_def too_long_def)
  next
    case full
    have all: "\<forall>c \<in> set (take ?m s). c \<noteq> nl" using take_line [OF full] by blast
    have w: "?w = take ?m s @ takeWhile (\<lambda>c. c \<noteq> nl) (drop ?m s)"
      by (subst append_take_drop_id [of ?m s, symmetric], subst takeWhile_append2) (use all in auto)
    have "?m \<le> length s" using full le by (rule order_trans)
    then have len: "length (take ?m s) = ?m" unfolding length_take by (rule min.absorb2)
    have r: "ReadSlice ?m s = (take ?m s, SliceFull, drop ?m s)" using full le by (simp add: ReadSlice_def Let_def)
    have wl: "length ?w = ?m + length (takeWhile (\<lambda>c. c \<noteq> nl) (drop ?m s))" by (subst w) (simp only: length_append len)
    have tail: "too_long s" if "length ?w = length s"
    proof -
      have "takeWhile (\<lambda>c. c \<noteq> nl) s = s" using that by (metis takeWhile_eq_take take_all order_refl)
      then have "\<forall>c \<in> set s. c \<noteq> nl" by (metis set_takeWhileD)
      moreover have "s \<noteq> []" using full le by auto
      ultimately have "List.last s \<noteq> nl" by simp
      then show ?thesis using full le by (auto simp: too_long_def)
    qed
    have "too_long (?w @ [nl])" using full by (simp add: too_long_def)
    then show ?thesis
      unfolding next_frame_def r using tail le by (auto simp: discardLine_line Let_def wl add.commute)
  qed
qed

text \<open>
  C26. The commands of a connection are read frame by frame: each frame is acted on by itself, whatever surrounds it. One
  of more than 64 KiB is answered with an error, whatever it holds, and the frames behind it are still read.
\<close>

theorem frames_are_independent:
  "readCommands decode True s =
     concat (map (\<lambda>f. frame_acts decode (if too_long f then None else Some f)) (stream_frames s))"
proof (induction s rule: stream_frames.induct)
  case (1 s)
  let ?w = "takeWhile (\<lambda>c. c \<noteq> nl) s"
  show ?case
  proof (cases "length ?w < length s")
    case True
    then show ?thesis
      using 1 [OF refl True] by (simp add: readCommands.simps [of decode True s] stream_frames.simps [of s] next_frame_stream Let_def)
  next
    case False
    then show ?thesis
      by (simp add: readCommands.simps [of decode True s] stream_frames.simps [of s] next_frame_stream Let_def frame_acts_def too_long_def)
  qed
qed

lemma unframed_acts_on_nothing: "readCommands decode False s = []"
proof (induction "length s" arbitrary: s rule: less_induct)
  case less
  obtain f over rest where n: "next_frame s = (f, over, rest)" by (metis prod.exhaust)
  show ?case using less next_frame_shorter [OF n] n by (cases over) (auto simp: readCommands.simps [of decode False s])
qed

text \<open>
  A handler learns that the verdict on a queued command was delivered exactly when the verdict came in time and
  the acknowledgment was written, and then the client was sent that verdict and nothing else.
\<close>

theorem delivery_is_exact:
  "cn_queued ce \<and> snd (ipc_handleCommand limit ce) = None \<longleftrightarrow>
   cn_queued ce \<and> cn_write ce = None \<and>
   (\<exists>res. cn_reply ce = Some res \<and>
      fst (ipc_handleCommand limit ce) = \<lparr>ak_Ack = cr_Status res, ak_Detail = cr_Message res, ak_Generation = cr_Generation res\<rparr>)"
  by (auto simp: ipc_handleCommand_def writeAck_def Let_def split: option.splits)

end
