(* ===== verification/Ipc_Server.thy ===== *)
theory Ipc_Server
  imports Ipc_Frames Session_Lease Log_Query Log_Ring "HOL-Library.Multiset"
begin

text \<open>
  The server that shows a running stack to its monitors (\<^verbatim>\<open>internal/ipc/server.go\<close>). What it shows, its \<open>view\<close>, and
  its clients change under one mutex; an event is fanned out after the mutex is given up, one client at a time, so
  two broadcasts may reach a client in either order. One critical section or one send is a step of \<open>server_op\<close>.
\<close>

section \<open>State\<close>

datatype event = EvLog LogEntry | EvState ipcProcState | EvTunnel string

record view =
  vw_history :: "LogEntry logRing"
  vw_states :: "ipcProcState gomap"
  vw_tunnelURL :: string
  vw_project :: "Project option"

record snap =
  sp_Processes :: "ipcProcState list"
  sp_RecentLogs :: "LogEntry option list"
  sp_TunnelURL :: string
  sp_Project :: "Project option"

text \<open>What the writer of a client is doing: its snapshot, then events, until it leaves.\<close>

datatype writing = WriteSnapshot | WriteEvents | WriteGone

text \<open>How the write of a snapshot went: in full, not at all, or in part, which drops the connection.\<close>

datatype snap_write = SnapWritten | SnapNone | SnapPart

datatype frame = FrSnapshot snap | FrEvent event

text \<open>
  \<open>sc_snapshot\<close> is the snapshot taken when the client was registered, \<open>sc_opening\<close> how its write ended, once it has,
  \<open>sc_wire\<close> the frames written in full, and \<open>sc_framed\<close> whether commands of the client are acted on.
\<close>

record serverClient =
  sc_send :: "event list"
  sc_closed :: bool
  sc_snapshot :: snap
  sc_writing :: writing
  sc_opening :: "snap_write option"
  sc_framed :: bool
  sc_wire :: "frame list"

record Server =
  sv_view :: view
  sv_clients :: "nat list"
  sv_conn :: "nat \<Rightarrow> serverClient"

abbreviation maxHistory :: nat where "maxHistory \<equiv> 500"
abbreviation sendBuffer :: nat where "sendBuffer \<equiv> 64"

section \<open>Operations\<close>

definition new_view :: view where
  "new_view = \<lparr>vw_history = newLogRing maxHistory, vw_states = [], vw_tunnelURL = [], vw_project = None\<rparr>"

definition SetState :: "ipcProcState \<Rightarrow> view \<Rightarrow> view" where
  "SetState st v = v\<lparr>vw_states := gput (ip_Name st) st (vw_states v)\<rparr>"

definition SetProject :: "Project option \<Rightarrow> view \<Rightarrow> view" where
  "SetProject p v = v\<lparr>vw_project := p\<rparr>"

text \<open>What a broadcast records; the number is the length of the encoded event.\<close>

definition record_event :: "event \<times> int \<Rightarrow> view \<Rightarrow> view" where
  "record_event x v = (case x of
     (EvLog e, sz) \<Rightarrow> v\<lparr>vw_history := push e sz (vw_history v)\<rparr>
   | (EvState st, _) \<Rightarrow> v\<lparr>vw_states := gput (ip_Name st) st (vw_states v)\<rparr>
   | (EvTunnel url, _) \<Rightarrow> v\<lparr>vw_tunnelURL := url\<rparr>)"

definition server_snapshot :: "view \<Rightarrow> snap" where
  "server_snapshot v = \<lparr>sp_Processes = map snd (vw_states v), sp_RecentLogs = snapshot (vw_history v),
     sp_TunnelURL = vw_tunnelURL v, sp_Project = vw_project v\<rparr>"

definition new_client :: "snap \<Rightarrow> serverClient" where
  "new_client sn = \<lparr>sc_send = [], sc_closed = False, sc_snapshot = sn, sc_writing = WriteSnapshot, sc_opening = None,
     sc_framed = False, sc_wire = []\<rparr>"

definition shutdown_client :: "serverClient \<Rightarrow> serverClient" where
  "shutdown_client c = c\<lparr>sc_closed := True\<rparr>"

definition trySend :: "event \<Rightarrow> serverClient \<Rightarrow> bool \<times> serverClient" where
  "trySend ev c =
     (if sc_closed c \<or> sendBuffer \<le> length (sc_send c) then (False, c) else (True, c\<lparr>sc_send := sc_send c @ [ev]\<rparr>))"

text \<open>One turn of the loop of \<^verbatim>\<open>fanOut\<close>: a client that does not keep up is shut down.\<close>

definition send_or_close :: "event \<Rightarrow> serverClient \<Rightarrow> serverClient" where
  "send_or_close ev c = (case trySend ev c of (sent, c1) \<Rightarrow> if sent then c1 else shutdown_client c1)"

definition at_client :: "nat \<Rightarrow> (serverClient \<Rightarrow> serverClient) \<Rightarrow> Server \<Rightarrow> Server" where
  "at_client i f s = s\<lparr>sv_conn := (sv_conn s)(i := f (sv_conn s i))\<rparr>"

definition fanOut :: "nat list \<Rightarrow> event \<Rightarrow> Server \<Rightarrow> Server" where
  "fanOut ids ev s = fold (\<lambda>i. at_client i (send_or_close ev)) ids s"

definition connect :: "nat \<Rightarrow> Server \<Rightarrow> Server" where
  "connect i s = s\<lparr>sv_clients := i # sv_clients s, sv_conn := (sv_conn s)(i := new_client (server_snapshot (sv_view s)))\<rparr>"

definition drop_client :: "nat \<Rightarrow> Server \<Rightarrow> Server" where
  "drop_client i s = at_client i shutdown_client (s\<lparr>sv_clients := removeAll i (sv_clients s)\<rparr>)"

definition serveSnapshot :: "nat \<Rightarrow> snap_write \<Rightarrow> Server \<Rightarrow> Server" where
  "serveSnapshot i w s =
     (if w = SnapPart then at_client i (\<lambda>c. c\<lparr>sc_framed := False, sc_opening := Some w, sc_writing := WriteGone\<rparr>) (drop_client i s)
      else at_client i (\<lambda>c. c\<lparr>sc_framed := True, sc_opening := Some w, sc_writing := WriteEvents,
             sc_wire := sc_wire c @ (if w = SnapWritten then [FrSnapshot (sc_snapshot c)] else [])\<rparr>) s)"

text \<open>One turn of the write loop; a failed write shuts the client down and drains what was queued.\<close>

definition write_turn :: "bool \<Rightarrow> serverClient \<Rightarrow> serverClient" where
  "write_turn ok c =
     (if sc_writing c \<noteq> WriteEvents then c
      else case sc_send c of
          [] \<Rightarrow> if sc_closed c then c\<lparr>sc_writing := WriteGone\<rparr> else c
        | ev # rest \<Rightarrow>
            if ok then c\<lparr>sc_send := rest, sc_wire := sc_wire c @ [FrEvent ev]\<rparr>
            else shutdown_client (c\<lparr>sc_send := [], sc_writing := WriteGone\<rparr>))"

definition shutdown_all :: "Server \<Rightarrow> Server" where
  "shutdown_all s = fold (\<lambda>i. at_client i shutdown_client) (sv_clients s) s"

section \<open>Steps\<close>

text \<open>
  The server with the broadcasts under way, each with the clients it has yet to reach. \<open>bs_log\<close> is every event
  recorded so far, \<open>bs_start\<close> how many there were when a client was registered, and \<open>bs_ids\<close> the clients so far.
\<close>

record broadcasting =
  bs_server :: Server
  bs_pending :: "(event \<times> nat list) list"
  bs_log :: "(event \<times> int) list"
  bs_start :: "nat \<Rightarrow> nat"
  bs_ids :: "nat list"

definition broadcast :: "event \<times> int \<Rightarrow> broadcasting \<Rightarrow> broadcasting" where
  "broadcast x b =
     (let s = bs_server b
      in b\<lparr>bs_server := s\<lparr>sv_view := record_event x (sv_view s)\<rparr>, bs_pending := bs_pending b @ [(fst x, sv_clients s)],
           bs_log := bs_log b @ [x]\<rparr>)"

definition accept_client :: "nat \<Rightarrow> broadcasting \<Rightarrow> broadcasting" where
  "accept_client i b = b\<lparr>bs_server := connect i (bs_server b), bs_start := (bs_start b)(i := length (bs_log b)), bs_ids := i # bs_ids b\<rparr>"

definition on_server :: "(Server \<Rightarrow> Server) \<Rightarrow> broadcasting \<Rightarrow> broadcasting" where
  "on_server f b = b\<lparr>bs_server := f (bs_server b)\<rparr>"

definition deliver_event :: "(event \<times> nat list) list \<Rightarrow> event \<Rightarrow> nat \<Rightarrow> nat list \<Rightarrow> (event \<times> nat list) list \<Rightarrow> broadcasting \<Rightarrow> broadcasting" where
  "deliver_event xs ev i ids ys b = on_server (at_client i (send_or_close ev)) (b\<lparr>bs_pending := xs @ (ev, ids) # ys\<rparr>)"

inductive server_op :: "broadcasting \<Rightarrow> broadcasting \<Rightarrow> bool" where
  op_broadcast: "server_op b (broadcast x b)"
| op_deliver: "bs_pending b = xs @ (ev, i # ids) # ys \<Longrightarrow> server_op b (deliver_event xs ev i ids ys b)"
| op_connect: "i \<notin> set (bs_ids b) \<Longrightarrow> server_op b (accept_client i b)"
| op_snapshot: "sc_writing (sv_conn (bs_server b) i) = WriteSnapshot \<Longrightarrow> server_op b (on_server (serveSnapshot i w) b)"
| op_write: "server_op b (on_server (at_client i (write_turn ok)) b)"
| op_drop: "server_op b (on_server (drop_client i) b)"
| op_shutdown: "server_op b (on_server shutdown_all b)"

definition start_server :: "view \<Rightarrow> broadcasting" where
  "start_server v = \<lparr>bs_server = \<lparr>sv_view = v, sv_clients = [], sv_conn = (\<lambda>i. new_client (server_snapshot v))\<rparr>, bs_pending = [],
     bs_log = [], bs_start = (\<lambda>i. 0), bs_ids = []\<rparr>"

section \<open>A client misses nothing\<close>

definition pending_for :: "nat \<Rightarrow> (event \<times> nat list) list \<Rightarrow> event multiset" where
  "pending_for i ps = sum_list (map (\<lambda>(ev, ids). replicate_mset (count_list ids i) ev) ps)"

definition frame_events :: "frame list \<Rightarrow> event list" where
  "frame_events fs = concat (map (\<lambda>f. case f of FrSnapshot sn \<Rightarrow> [] | FrEvent ev \<Rightarrow> [ev]) fs)"

definition received :: "serverClient \<Rightarrow> event list" where
  "received c = frame_events (sc_wire c) @ sc_send c"

text \<open>What a client was sent: its snapshot first, when its write succeeded, and only events after it.\<close>

definition well_framed :: "snap_write option \<Rightarrow> writing \<Rightarrow> snap \<Rightarrow> bool \<Rightarrow> frame list \<Rightarrow> bool" where
  "well_framed opening writing sn shut fs =
     (fs = (if opening = Some SnapWritten then [FrSnapshot sn] else []) @ map FrEvent (frame_events fs) \<and>
      (opening = None \<longleftrightarrow> writing = WriteSnapshot) \<and> (opening = None \<longrightarrow> fs = []) \<and> (opening = Some SnapPart \<longrightarrow> shut))"

abbreviation framed_ok :: "serverClient \<Rightarrow> bool" where
  "framed_ok c \<equiv> well_framed (sc_opening c) (sc_writing c) (sc_snapshot c) (sc_closed c) (sc_wire c)"

definition served_ok :: "view \<Rightarrow> broadcasting \<Rightarrow> nat \<Rightarrow> bool" where
  "served_ok v b i =
     (let c = sv_conn (bs_server b) i; n = bs_start b i
      in n \<le> length (bs_log b) \<and>
         sc_snapshot c = server_snapshot (fold record_event (take n (bs_log b)) v) \<and>
         framed_ok c \<and>
         (sc_closed c \<or> i \<in> set (sv_clients (bs_server b)) \<and>
            mset (received c) + pending_for i (bs_pending b) = mset (map fst (drop n (bs_log b)))))"

definition server_ok :: "view \<Rightarrow> broadcasting \<Rightarrow> bool" where
  "server_ok v b =
     (sv_view (bs_server b) = fold record_event (bs_log b) v \<and>
      distinct (sv_clients (bs_server b)) \<and> set (sv_clients (bs_server b)) \<subseteq> set (bs_ids b) \<and>
      list_all (\<lambda>(ev, ids). set ids \<subseteq> set (bs_ids b)) (bs_pending b) \<and>
      list_all (served_ok v b) (bs_ids b))"

lemma count_distinct: "distinct xs \<Longrightarrow> count_list xs i = (if i \<in> set xs then 1 else 0)"
  by (induction xs) auto

lemma pending_for_simps [simp]:
  "pending_for i [] = {#}"
  "pending_for i ((ev, ids) # ps) = replicate_mset (count_list ids i) ev + pending_for i ps"
  "pending_for i (ps @ qs) = pending_for i ps + pending_for i qs"
  by (simp_all add: pending_for_def)

lemma pending_for_stranger: "list_all (\<lambda>(ev, ids). set ids \<subseteq> A) ps \<Longrightarrow> i \<notin> A \<Longrightarrow> pending_for i ps = {#}"
  by (induction ps) (auto simp: pending_for_def count_list_0_iff)

lemma frame_events_simps [simp]:
  "frame_events [] = []" "frame_events (FrSnapshot sn # fs) = frame_events fs" "frame_events (FrEvent ev # fs) = ev # frame_events fs"
  "frame_events (fs @ gs) = frame_events fs @ frame_events gs" "frame_events (map FrEvent evs) = evs"
  by (simp_all add: frame_events_def comp_def)

lemma well_framed_start [simp]: "well_framed None WriteSnapshot sn shut []"
  by (simp add: well_framed_def)

lemma well_framed_closed [simp]: "well_framed op wr sn shut fs \<Longrightarrow> well_framed op wr sn True fs"
  unfolding well_framed_def by blast

lemma well_framed_write:
  assumes "well_framed op WriteEvents sn shut fs"
  shows "well_framed op WriteEvents sn shut (fs @ [FrEvent ev])" and "well_framed op WriteGone sn shut fs"
proof -
  from assms have "fs = (if op = Some SnapWritten then [FrSnapshot sn] else []) @ map FrEvent (frame_events fs)"
    unfolding well_framed_def by blast
  then have "fs @ [FrEvent ev] =
      (if op = Some SnapWritten then [FrSnapshot sn] else []) @ map FrEvent (frame_events fs @ [ev])" by (metis append_assoc list.map map_append)
  then show "well_framed op WriteEvents sn shut (fs @ [FrEvent ev])" using assms unfolding well_framed_def by simp
  show "well_framed op WriteGone sn shut fs" using assms unfolding well_framed_def by blast
qed

lemma well_framed_serve:
  assumes "well_framed op WriteSnapshot sn shut fs"
  shows "well_framed (Some SnapPart) WriteGone sn True fs"
    and "well_framed (Some SnapWritten) WriteEvents sn shut (fs @ [FrSnapshot sn])"
    and "w \<noteq> SnapPart \<Longrightarrow> w \<noteq> SnapWritten \<Longrightarrow> well_framed (Some w) WriteEvents sn shut fs"
    and "frame_events fs = []"
proof -
  have "op = None" "fs = []" using assms unfolding well_framed_def by auto
  then show "well_framed (Some SnapPart) WriteGone sn True fs" "frame_events fs = []"
      "well_framed (Some SnapWritten) WriteEvents sn shut (fs @ [FrSnapshot sn])"
      "w \<noteq> SnapPart \<Longrightarrow> w \<noteq> SnapWritten \<Longrightarrow> well_framed (Some w) WriteEvents sn shut fs"
    by (auto simp: well_framed_def)
qed

lemma framed_ok_write:
  assumes "framed_ok c"
  shows "framed_ok (write_turn ok c)"
  using assms well_framed_write [of "sc_opening c" "sc_snapshot c" "sc_closed c" "sc_wire c"]
  by (auto simp: write_turn_def shutdown_client_def split: list.splits)

lemma write_turn_keeps:
  "sc_snapshot (write_turn ok c) = sc_snapshot c"
  "sc_closed (write_turn ok c) \<or> \<not> sc_closed c \<and> received (write_turn ok c) = received c"
  by (cases "sc_send c"; auto simp: write_turn_def shutdown_client_def received_def)+

text \<open>A step that leaves the client and its queue alone, or shuts it down, keeps it served.\<close>

lemma served_frame:
  assumes "served_ok v b i" and "bs_log b' = bs_log b" and "bs_start b' i = bs_start b i"
    and "pending_for i (bs_pending b') = pending_for i (bs_pending b)"
    and "sc_snapshot (sv_conn (bs_server b') i) = sc_snapshot (sv_conn (bs_server b) i)"
    and "framed_ok (sv_conn (bs_server b) i) \<Longrightarrow> framed_ok (sv_conn (bs_server b') i)"
    and "sc_closed (sv_conn (bs_server b') i) \<or>
      \<not> sc_closed (sv_conn (bs_server b) i) \<and> received (sv_conn (bs_server b') i) = received (sv_conn (bs_server b) i) \<and>
      (i \<in> set (sv_clients (bs_server b)) \<longrightarrow> i \<in> set (sv_clients (bs_server b')))"
  shows "served_ok v b' i"
  using assms by (auto simp: served_ok_def Let_def)

lemma at_client_conn: "sv_conn (at_client i f s) j = (if j = i then f (sv_conn s i) else sv_conn s j)"
  by (simp add: at_client_def)

lemma at_client_fields [simp]: "sv_clients (at_client i f s) = sv_clients s" "sv_view (at_client i f s) = sv_view s"
  by (simp_all add: at_client_def)

lemma shutdown_fold:
  "sv_clients (fold (\<lambda>i. at_client i shutdown_client) ids s) = sv_clients s \<and> sv_view (fold (\<lambda>i. at_client i shutdown_client) ids s) = sv_view s \<and>
   sv_conn (fold (\<lambda>i. at_client i shutdown_client) ids s) j = (if j \<in> set ids then shutdown_client (sv_conn s j) else sv_conn s j)"
  by (induction ids arbitrary: s) (auto simp: at_client_conn shutdown_client_def)

lemma on_server_fields [simp]:
  "bs_server (on_server f b) = f (bs_server b)" "bs_pending (on_server f b) = bs_pending b" "bs_log (on_server f b) = bs_log b"
  "bs_start (on_server f b) = bs_start b" "bs_ids (on_server f b) = bs_ids b"
  by (simp_all add: on_server_def)

text \<open>A change of the server that keeps its view, keeps or shuts down its clients, and forgets only those it shut down.\<close>

lemma on_server_ok:
  assumes "server_ok v b" and "sv_view (f (bs_server b)) = sv_view (bs_server b)"
    and "\<And>xs. sv_clients (f (bs_server b)) = xs \<Longrightarrow> distinct xs \<and> set xs \<subseteq> set (sv_clients (bs_server b))"
    and "\<And>i. sc_snapshot (sv_conn (f (bs_server b)) i) = sc_snapshot (sv_conn (bs_server b) i)"
    and "\<And>i. framed_ok (sv_conn (bs_server b) i) \<Longrightarrow> framed_ok (sv_conn (f (bs_server b)) i)"
    and "\<And>i. sc_closed (sv_conn (f (bs_server b)) i) \<or>
      \<not> sc_closed (sv_conn (bs_server b) i) \<and> received (sv_conn (f (bs_server b)) i) = received (sv_conn (bs_server b) i) \<and>
      (i \<in> set (sv_clients (bs_server b)) \<longrightarrow> i \<in> set (sv_clients (f (bs_server b))))"
  shows "server_ok v (on_server f b)"
proof -
  have "served_ok v (on_server f b) i" if "i \<in> set (bs_ids b)" for i
    by (rule served_frame [of v b]) (use assms that in \<open>auto simp: server_ok_def list_all_iff\<close>)
  then show ?thesis using assms(1,2) assms(3) [OF refl] by (auto simp: server_ok_def list_all_iff)
qed

lemma broadcast_ok:
  assumes "server_ok v b"
  shows "server_ok v (broadcast x b)"
proof -
  have "served_ok v (broadcast x b) i" if i: "i \<in> set (bs_ids b)" for i
  proof -
    have s: "served_ok v b i" using assms i by (simp add: server_ok_def list_all_iff)
    then have n: "bs_start b i \<le> length (bs_log b)" by (simp add: served_ok_def Let_def)
    have d: "distinct (sv_clients (bs_server b))" using assms by (simp add: server_ok_def)
    show ?thesis using s n by (auto simp: served_ok_def broadcast_def Let_def count_distinct [OF d])
  qed
  then show ?thesis using assms by (auto simp: server_ok_def broadcast_def Let_def list_all_iff)
qed

lemma deliver_event_ok:
  assumes "server_ok v b" and "bs_pending b = xs @ (ev, i # ids) # ys"
  shows "server_ok v (deliver_event xs ev i ids ys b)"
proof -
  let ?b = "deliver_event xs ev i ids ys b" and ?c = "sv_conn (bs_server b) i"
  have conn: "sv_conn (bs_server ?b) j = (if j = i then send_or_close ev ?c else sv_conn (bs_server b) j)" for j
    by (simp add: deliver_event_def at_client_conn)
  have rest: "bs_log ?b = bs_log b" "bs_start ?b = bs_start b" "bs_ids ?b = bs_ids b" "bs_pending ?b = xs @ (ev, ids) # ys"
      "sv_clients (bs_server ?b) = sv_clients (bs_server b)" "sv_view (bs_server ?b) = sv_view (bs_server b)"
    by (simp_all add: deliver_event_def)
  have "served_ok v ?b j" if j: "j \<in> set (bs_ids b)" for j
  proof (cases "j = i")
    case False
    have "served_ok v b j" using assms j by (simp add: server_ok_def list_all_iff)
    moreover have "pending_for j (bs_pending ?b) = pending_for j (bs_pending b)" using assms(2) False by (simp add: rest)
    moreover have "sv_conn (bs_server ?b) j = sv_conn (bs_server b) j" using False by (simp add: conn)
    ultimately show ?thesis unfolding served_ok_def by (simp add: rest)
  next
    case True
    have "served_ok v b i" using assms j True by (simp add: server_ok_def list_all_iff)
    then show ?thesis
      using True assms(2) by (auto simp: served_ok_def Let_def conn rest send_or_close_def trySend_def shutdown_client_def received_def)
  qed
  then show ?thesis using assms by (auto simp: server_ok_def rest list_all_iff)
qed

lemma connect_ok:
  assumes "server_ok v b" and "i \<notin> set (bs_ids b)"
  shows "server_ok v (accept_client i b)"
proof -
  have new: "served_ok v (accept_client i b) i"
    using assms pending_for_stranger [of "set (bs_ids b)" "bs_pending b" i]
    by (auto simp: served_ok_def accept_client_def connect_def new_client_def received_def server_ok_def Let_def)
  have old: "served_ok v (accept_client i b) j" if "j \<in> set (bs_ids b)" for j
  proof -
    have "j \<noteq> i" using that assms(2) by blast
    moreover have "served_ok v b j" using assms(1) that by (simp add: server_ok_def list_all_iff)
    ultimately show ?thesis by (auto simp: served_ok_def accept_client_def connect_def Let_def)
  qed
  show ?thesis using assms new old by (auto simp: server_ok_def accept_client_def connect_def list_all_iff)
qed

lemma server_op_ok:
  assumes "server_ok v b" and "server_op b b'"
  shows "server_ok v b'"
  using assms(2)
proof cases
  case (op_broadcast x)
  then show ?thesis using broadcast_ok [OF assms(1)] by simp
next
  case (op_deliver xs ev i ids ys)
  then show ?thesis using deliver_event_ok [OF assms(1)] by simp
next
  case (op_connect i)
  then show ?thesis using connect_ok [OF assms(1)] by simp
next
  case (op_snapshot i w)
  have "distinct (sv_clients (bs_server b))" using assms(1) by (simp add: server_ok_def)
  then show ?thesis
    unfolding op_snapshot(1)
    by (intro on_server_ok [OF assms(1)]; cases "w = SnapPart")
      (use well_framed_serve [of "sc_opening (sv_conn (bs_server b) i)"] op_snapshot(2) in
        \<open>auto simp: serveSnapshot_def drop_client_def at_client_conn shutdown_client_def received_def distinct_removeAll\<close>)
next
  case (op_write i ok)
  have "distinct (sv_clients (bs_server b))" using assms(1) by (simp add: server_ok_def)
  then show ?thesis
    unfolding op_write(1)
    by (intro on_server_ok [OF assms(1)]) (use write_turn_keeps in \<open>auto simp: at_client_conn framed_ok_write [unfolded write_turn_keeps(1)]\<close>)
next
  case (op_drop i)
  have "distinct (sv_clients (bs_server b))" using assms(1) by (simp add: server_ok_def)
  then show ?thesis
    unfolding op_drop(1)
    by (intro on_server_ok [OF assms(1)]) (auto simp: drop_client_def at_client_conn shutdown_client_def received_def distinct_removeAll)
next
  case op_shutdown
  have "distinct (sv_clients (bs_server b))" using assms(1) by (simp add: server_ok_def)
  then show ?thesis
    unfolding op_shutdown(1)
    by (intro on_server_ok [OF assms(1)]) (auto simp: shutdown_all_def shutdown_fold shutdown_client_def received_def)
qed

interpretation sv: transition_invariant server_op "server_ok v" "\<lambda>_ _. True" for v
  by unfold_locales (auto intro: server_op_ok)

lemma server_starts_ok: "server_ok v (start_server v)"
  by (simp add: server_ok_def start_server_def)

text \<open>
  C16. A monitor misses nothing. Whatever broadcasts, connections and writes overlap, there is one point of the recorded
  events such that a client still served is sent first the snapshot of the stack at that point, and nothing before it,
  and after it only events: those it was sent, or that are on their way to it, are exactly those recorded after that
  point, none lost and none twice. The snapshot is left out just when its write ended without a byte on the wire, as
  the server then goes on without it; a client of whose snapshot only a part was written is never served.
\<close>

theorem served_client_misses_nothing:
  assumes "server_op\<^sup>*\<^sup>* (start_server v) b" and "i \<in> set (bs_ids b)" and "\<not> sc_closed (sv_conn (bs_server b) i)"
  shows "\<exists>n \<le> length (bs_log b). \<exists>sent.
    sc_wire (sv_conn (bs_server b) i) =
      (if sc_opening (sv_conn (bs_server b) i) = Some SnapWritten
       then [FrSnapshot (server_snapshot (fold record_event (take n (bs_log b)) v))] else []) @ map FrEvent sent \<and>
    (sc_opening (sv_conn (bs_server b) i) = None \<longrightarrow> sent = []) \<and>
    sc_opening (sv_conn (bs_server b) i) \<noteq> Some SnapPart \<and>
    mset (sent @ sc_send (sv_conn (bs_server b) i)) + pending_for i (bs_pending b) = mset (map fst (drop n (bs_log b)))"
proof -
  let ?c = "sv_conn (bs_server b) i" and ?n = "bs_start b i"
  have "server_ok v b" using sv.steps_inv [OF assms(1)] server_starts_ok by blast
  then have "served_ok v b i" using assms(2) by (simp add: server_ok_def list_all_iff)
  then have n: "?n \<le> length (bs_log b)" "sc_snapshot ?c = server_snapshot (fold record_event (take ?n (bs_log b)) v)"
      "framed_ok ?c" "mset (received ?c) + pending_for i (bs_pending b) = mset (map fst (drop ?n (bs_log b)))"
    using assms(3) by (auto simp: served_ok_def Let_def)
  from n(3) have w: "sc_wire ?c = (if sc_opening ?c = Some SnapWritten then [FrSnapshot (sc_snapshot ?c)] else []) @ map FrEvent (frame_events (sc_wire ?c))"
      "sc_opening ?c = None \<longrightarrow> frame_events (sc_wire ?c) = []" "sc_opening ?c \<noteq> Some SnapPart"
    using assms(3) unfolding well_framed_def by auto
  show ?thesis
    using n(1) w(1) [unfolded n(2)] w(2,3) n(4) [unfolded received_def]
    by (intro exI [of _ ?n] exI [of _ "frame_events (sc_wire ?c)"] conjI)
qed

section \<open>Two broadcasts that overtake each other\<close>

text \<open>
  Two states of one process are broadcast while a monitor is connected, and the second reaches it first. Nothing is
  under way any more, the server shows the second state, and the monitor was last told the first.
\<close>

definition web_up :: ipcProcState where
  "web_up = ipcStateLocked ''web'' zero_Process (setRunning 7 (newProcState 0))"

definition web_down :: ipcProcState where
  "web_down = ipcStateLocked ''web'' zero_Process (failProcess ''exit 1'' (setRunning 7 (newProcState 0)))"

definition monitored :: broadcasting where
  "monitored = accept_client 0 (start_server new_view)"

definition announced :: broadcasting where
  "announced = broadcast (EvState web_down, 200) (broadcast (EvState web_up, 200) monitored)"

definition raced :: broadcasting where
  "raced = deliver_event [] (EvState web_up) 0 [] [(EvState web_down, [])] (deliver_event [(EvState web_up, [0])] (EvState web_down) 0 [] [] announced)"

lemma announced_pending: "bs_pending announced = [(EvState web_up, [0]), (EvState web_down, [0])]"
  by (simp add: announced_def monitored_def broadcast_def accept_client_def connect_def start_server_def Let_def)

lemma raced_reachable: "server_op\<^sup>*\<^sup>* (start_server new_view) raced"
proof -
  let ?d = "deliver_event [(EvState web_up, [0])] (EvState web_down) 0 [] [] announced"
  have "server_op (start_server new_view) monitored" unfolding monitored_def by (rule op_connect) (simp add: start_server_def)
  moreover have "server_op monitored (broadcast (EvState web_up, 200) monitored)" by (rule op_broadcast)
  moreover have "server_op (broadcast (EvState web_up, 200) monitored) announced" unfolding announced_def by (rule op_broadcast)
  moreover have "server_op announced ?d" by (rule op_deliver) (simp add: announced_pending)
  moreover have "server_op ?d raced" unfolding raced_def by (rule op_deliver) (simp add: deliver_event_def)
  ultimately show ?thesis by (meson converse_rtranclp_into_rtranclp rtranclp.rtrancl_refl)
qed

lemma raced_client:
  "received (sv_conn (bs_server raced) 0) = [EvState web_down, EvState web_up] \<and> \<not> sc_closed (sv_conn (bs_server raced) 0)"
  by (simp add: raced_def deliver_event_def announced_def monitored_def broadcast_def accept_client_def connect_def start_server_def on_server_def
      at_client_def send_or_close_def trySend_def new_client_def received_def Let_def)

lemma monitor_left_behind:
  "pending_for 0 (bs_pending raced) = {#} \<and> \<not> sc_closed (sv_conn (bs_server raced) 0) \<and>
   vw_states (sv_view (bs_server raced)) = [(''web'', web_down)] \<and> List.last (received (sv_conn (bs_server raced) 0)) = EvState web_up \<and>
   ip_State web_up = Running \<and> ip_State web_down = Failed"
proof -
  have "sv_view (bs_server raced) = new_view\<lparr>vw_states := [(''web'', web_down)]\<rparr>"
    by (simp add: raced_def deliver_event_def announced_def monitored_def broadcast_def accept_client_def connect_def start_server_def
        record_event_def new_view_def web_up_def web_down_def ipcStateLocked_def Let_def)
  then show ?thesis
    using raced_client
    by (simp add: raced_def deliver_event_def web_up_def web_down_def ipcStateLocked_def setRunning_def failProcess_def settleLocked_def
        settle_cycle_def newProcState_def unsettled_def cycle_at_def newReadyCycle_def)
qed

definition shown :: broadcasting where
  "shown = on_server (at_client 0 (write_turn True)) (on_server (serveSnapshot 0 SnapWritten) raced)"

lemma shown_reachable: "server_op\<^sup>*\<^sup>* (start_server new_view) shown"
proof -
  let ?b = "on_server (serveSnapshot 0 SnapWritten) raced"
  have "sc_writing (sv_conn (bs_server raced) 0) = WriteSnapshot"
    by (simp add: raced_def deliver_event_def announced_def monitored_def broadcast_def accept_client_def connect_def start_server_def on_server_def
        at_client_def send_or_close_def trySend_def new_client_def Let_def)
  then have "server_op raced ?b" by (rule op_snapshot)
  moreover have "server_op ?b shown" unfolding shown_def by (rule op_write)
  ultimately show ?thesis using raced_reachable by (meson rtranclp.rtrancl_into_rtrancl)
qed

lemma shown_client:
  "0 \<in> set (bs_ids shown)" "\<not> sc_closed (sv_conn (bs_server shown) 0)" "sc_opening (sv_conn (bs_server shown) 0) = Some SnapWritten"
  "bs_log shown = [(EvState web_up, 200), (EvState web_down, 200)]" "sc_send (sv_conn (bs_server shown) 0) = [EvState web_up]"
  by (simp_all add: shown_def raced_def deliver_event_def announced_def monitored_def broadcast_def accept_client_def connect_def start_server_def
      on_server_def serveSnapshot_def write_turn_def at_client_def send_or_close_def trySend_def new_client_def Let_def)

lemma served_client_misses_nothing_witness:
  "\<exists>n sent. n \<le> 2 \<and> sc_wire (sv_conn (bs_server shown) 0) =
       FrSnapshot (server_snapshot (fold record_event (take n (bs_log shown)) new_view)) # map FrEvent sent \<and>
     mset (sent @ [EvState web_up]) + pending_for 0 (bs_pending shown) =
       mset (map fst (drop n [(EvState web_up, 200 :: int), (EvState web_down, 200)]))"
proof -
  from served_client_misses_nothing [OF shown_reachable shown_client(1,2)] obtain n sent where
    n: "n \<le> length (bs_log shown)" and w: "sc_wire (sv_conn (bs_server shown) 0) =
      (if sc_opening (sv_conn (bs_server shown) 0) = Some SnapWritten
       then [FrSnapshot (server_snapshot (fold record_event (take n (bs_log shown)) new_view))] else []) @ map FrEvent sent"
    and m: "mset (sent @ sc_send (sv_conn (bs_server shown) 0)) + pending_for 0 (bs_pending shown) = mset (map fst (drop n (bs_log shown)))"
    by blast
  have "n \<le> 2" using n unfolding shown_client(4) by simp
  moreover have "sc_wire (sv_conn (bs_server shown) 0) =
      FrSnapshot (server_snapshot (fold record_event (take n (bs_log shown)) new_view)) # map FrEvent sent"
    using w unfolding shown_client(3) by (simp only: if_True append_Cons append_Nil simp_thms)
  ultimately show ?thesis using m unfolding shown_client(4,5) by blast
qed

end
