(* ===== verification/Event_Emit.thy ===== *)
theory Event_Emit
  imports Ipc_Server
begin

text \<open>
  The output of commands and the events of a run (\<^verbatim>\<open>internal/runner/broadcast.go\<close>): lines of any length read through a
  buffer of 64 KiB, and \<^verbatim>\<open>emit\<close>, the one place that numbers events and hands them to the journal, the terminal and
  the monitors. The text a terminal line is formatted to and the tunnel announcements are left out.
\<close>

section \<open>Reading the output of a command\<close>

abbreviation maxLine :: nat where "maxLine \<equiv> 1048576"
abbreviation outputBuffer :: nat where "outputBuffer \<equiv> 65536"
abbreviation cr :: char where "cr \<equiv> CHR 0x0D"

definition TrimSuffix1 :: "char \<Rightarrow> string \<Rightarrow> string" where
  "TrimSuffix1 c s = (if s \<noteq> [] \<and> List.last s = c then butlast s else s)"

text \<open>
  The lines that are emitted, each with the length it had: \<open>sofar\<close> and \<open>n\<close> are what was kept and read of the current one.
\<close>

function readOutput :: "string \<Rightarrow> string \<Rightarrow> nat \<Rightarrow> (string \<times> nat) list" where
  "readOutput s sofar n = (case ReadSlice outputBuffer s of
     (fragment, e, rest) \<Rightarrow>
       (let complete = (e \<noteq> SliceFull);
            hasLine = (fragment \<noteq> [] \<or> n > 0);
            f = (if complete then TrimSuffix1 cr (TrimSuffix1 nl fragment) else fragment);
            n1 = n + length f;
            sofar1 = sofar @ take (maxLine - length sofar) f
        in if e = SliceFull then readOutput rest sofar1 n1
           else (if hasLine then [(sofar1, n1)] else []) @ (if e = SliceEnd then [] else readOutput rest [] 0)))"
  by pat_completeness auto
termination by (relation "measure (\<lambda>(s, r, t). length s)") (auto dest: ReadSlice_shorter [OF sym])

declare readOutput.simps [simp del]

text \<open>The level of a line that is a JSON object: its level, or else its severity, when it is a known one.\<close>

definition output_level :: "(string \<Rightarrow> (string \<times> string) option) \<Rightarrow> (string \<Rightarrow> string) \<Rightarrow> string \<Rightarrow> string" where
  "output_level fields_of lower raw =
     (case fields_of raw of
        None \<Rightarrow> ''info''
      | Some (level, severity) \<Rightarrow>
          (let c = (if lower level = [] then lower severity else lower level)
           in if c \<in> set [''debug'', ''info'', ''warn'', ''error'', ''fatal''] then c else ''info''))"

definition blank_entry :: LogEntry where
  "blank_entry = \<lparr>le_Version = 0, le_ID = [], le_RunID = [], le_AttemptID = [], le_Sequence = 0, le_Session = [], le_Time = 0,
     le_Process = [], le_Line = [], le_Kind = [], le_Level = [], le_Code = [], le_Stream = [], le_PID = 0, le_Generation = 0,
     le_State = None, le_Truncated = False, le_OriginalBytes = 0, le_IsEvent = False, le_IsError = False\<rparr>"

definition output_entry :: "(string \<Rightarrow> (string \<times> string) option) \<Rightarrow> (string \<Rightarrow> string) \<Rightarrow> string \<Rightarrow> string \<times> nat \<Rightarrow> LogEntry" where
  "output_entry fields_of lower stream = (\<lambda>(raw, n).
     let level = output_level fields_of lower raw
     in blank_entry\<lparr>le_Kind := ''output'', le_Level := level, le_Code := ''process.output'', le_Stream := stream, le_Line := raw,
          le_IsError := (level = ''error'' \<or> level = ''fatal''), le_Truncated := (n > maxLine),
          le_OriginalBytes := (if n > maxLine then int n else 0)\<rparr>)"

section \<open>Events\<close>

text \<open>
  The part of the runner that events go through: what is under \<^verbatim>\<open>logMu\<close>, and the sinks. \<open>lg_ipc\<close> and \<open>lg_hasJournal\<close>
  say which sinks there are, and the journal, the terminal and the monitors are the entries they were given.
\<close>

record event_log =
  lg_sequence :: "64 word"
  lg_project :: "Project option"
  lg_AttemptID :: string
  lg_verbose :: bool
  lg_ipc :: bool
  lg_hasJournal :: bool
  lg_journal :: "LogEntry list"
  lg_printed :: "LogEntry list"
  lg_published :: "LogEntry list"
  lg_err :: "string option"
  lg_lastStates :: "ipcProcState gomap"

text \<open>What one event meets: the clock, the error of encoding it, and of writing it to the journal.\<close>

record emit_env =
  em_now :: int
  em_marshal :: "string option"
  em_write :: "string option"

definition stamped :: "string \<Rightarrow> procState option \<Rightarrow> emit_env \<Rightarrow> event_log \<Rightarrow> LogEntry \<Rightarrow> LogEntry" where
  "stamped name st em lg e =
     (let e1 = (case st of None \<Rightarrow> e | Some s \<Rightarrow> e\<lparr>le_PID := ps_pid s, le_Generation := ps_generation s\<rparr>);
          e2 = (case le_State e of None \<Rightarrow> e1 | Some s \<Rightarrow> e1\<lparr>le_PID := ip_PID s, le_Generation := ip_Generation s\<rparr>);
          run = (case lg_project lg of None \<Rightarrow> le_RunID e | Some p \<Rightarrow> pj_RunID p);
          session = (case lg_project lg of None \<Rightarrow> le_Session e | Some p \<Rightarrow> pj_Session p);
          sq = lg_sequence lg + 1
      in e2\<lparr>le_Process := name, le_Version := 1, le_Sequence := sq, le_Time := em_now em, le_RunID := run, le_Session := session,
           le_AttemptID := lg_AttemptID lg, le_ID := run @ '':'' @ Itoa (uint sq)\<rparr>)"

definition emit :: "bool \<Rightarrow> string \<Rightarrow> procState option \<Rightarrow> emit_env \<Rightarrow> LogEntry \<Rightarrow> event_log \<Rightarrow> event_log" where
  "emit quiet name st em e lg =
     (if quiet then lg
      else let x = stamped name st em lg e; lg1 = lg\<lparr>lg_sequence := lg_sequence lg + 1\<rparr>
           in if em_marshal em \<noteq> None then lg1\<lparr>lg_err := em_marshal em\<rparr>
              else let lg2 = (if \<not> lg_hasJournal lg1 then lg1
                              else if em_write em \<noteq> None then lg1\<lparr>lg_err := em_write em\<rparr>
                              else lg1\<lparr>lg_journal := lg_journal lg1 @ [x]\<rparr>);
                       lg3 = (if le_Level x \<noteq> ''debug'' \<or> lg_verbose lg then lg2\<lparr>lg_printed := lg_printed lg2 @ [x]\<rparr> else lg2)
                   in if lg_ipc lg then lg3\<lparr>lg_published := lg_published lg3 @ [x]\<rparr> else lg3)"

definition processLog :: "string \<Rightarrow> string \<Rightarrow> string \<Rightarrow> LogEntry" where
  "processLog level code message =
     blank_entry\<lparr>le_Kind := (if HasPrefix code ''readiness.'' \<or> HasPrefix code ''health.'' then ''probe'' else ''lifecycle''),
       le_Level := level, le_Code := code, le_Stream := ''supervisor'', le_Line := message, le_IsEvent := True,
       le_IsError := (level = ''error'')\<rparr>"

definition systemLog :: "string \<Rightarrow> string \<Rightarrow> string \<Rightarrow> LogEntry" where
  "systemLog level code message =
     blank_entry\<lparr>le_Kind := ''session'', le_Level := level, le_Code := code, le_Stream := ''supervisor'', le_Line := message,
       le_IsEvent := True, le_IsError := (level = ''error'')\<rparr>"

definition state_text :: "run_state \<Rightarrow> string" where
  "state_text s = (case s of Starting \<Rightarrow> ''starting'' | Running \<Rightarrow> ''running'' | Restarting \<Rightarrow> ''restarting'' | Exited \<Rightarrow> ''exited''
     | Completed \<Rightarrow> ''completed'' | Failed \<Rightarrow> ''failed'')"

definition state_changed :: "ipcProcState option \<Rightarrow> ipcProcState \<Rightarrow> bool" where
  "state_changed prev sn = (case prev of
     None \<Rightarrow> True
   | Some p \<Rightarrow> ip_State p \<noteq> ip_State sn \<or> ip_Generation p \<noteq> ip_Generation sn \<or> ip_PID p \<noteq> ip_PID sn \<or> ip_Ready p \<noteq> ip_Ready sn \<or>
       ip_LastError p \<noteq> ip_LastError sn \<or> ip_Health p \<noteq> ip_Health sn)"

text \<open>
  \<open>sn\<close> is the state as it was captured, under the mutex of the process, and \<open>st\<close> that of the process when the event is
  emitted. The state to show to the monitors comes first.
\<close>

definition broadcastState :: "bool \<Rightarrow> ipcProcState \<Rightarrow> procState option \<Rightarrow> emit_env \<Rightarrow> event_log \<Rightarrow> ipcProcState option \<times> event_log" where
  "broadcastState quiet sn st em lg =
     (if quiet then (None, lg)
      else let lg1 = lg\<lparr>lg_lastStates := gput (ip_Name sn) sn (lg_lastStates lg)\<rparr>
           in (if lg_ipc lg then Some sn else None,
               if state_changed (gget (lg_lastStates lg) (ip_Name sn)) sn
               then emit quiet (ip_Name sn) st em (blank_entry\<lparr>le_Kind := ''state'', le_Level := ''debug'', le_Code := ''process.state'',
                      le_Line := state_text (ip_State sn), le_State := Some sn, le_IsEvent := True\<rparr>) lg1
               else lg1))"

section \<open>Every line of output is kept, up to its limit\<close>

text \<open>
  What is emitted for a frame of the stream. A carriage return is dropped only from the fragment that ends the
  line, so not when that fragment is the newline alone.
\<close>

definition line_content :: "string \<Rightarrow> string" where
  "line_content f =
     (let k = (if List.last f = nl then (length f - 1) div outputBuffer * outputBuffer else length f div outputBuffer * outputBuffer)
      in take k f @ TrimSuffix1 cr (TrimSuffix1 nl (drop k f)))"

definition kept_line :: "string \<Rightarrow> string \<times> nat" where
  "kept_line f = (let c = line_content f in (take maxLine c, length c))"

lemma retain: "take m p @ take (m - length (take m p)) f = take m (p @ f)"
  by (cases "length p \<le> m") simp_all

lemma retain_min: "take (m - min (length p) m) f = take (m - length p) f"
  by (cases "length p \<le> m") simp_all

lemma div_below:
  fixes b :: nat
  assumes "b dvd m" and "n < b"
  shows "(m + n) div b * b = m"
proof -
  obtain k where "m = b * k" using assms(1) by (rule dvdE)
  then show ?thesis using assms(2) by simp
qed

lemma line_content_line:
  assumes "outputBuffer dvd length p" and "length w < outputBuffer"
  shows "line_content (p @ w @ [nl]) = p @ TrimSuffix1 cr w"
proof -
  have "(length (p @ w @ [nl]) - 1) div outputBuffer * outputBuffer = length p" using div_below [OF assms] by simp
  then show ?thesis unfolding line_content_def Let_def by (simp add: TrimSuffix1_def)
qed

lemma line_content_tail:
  assumes "outputBuffer dvd length p" and "length w < outputBuffer" and "nl \<notin> set (p @ w)" and "p @ w \<noteq> []"
  shows "line_content (p @ w) = p @ TrimSuffix1 cr (TrimSuffix1 nl w)"
proof -
  have "List.last (p @ w) \<noteq> nl" using assms(3,4) last_in_set by metis
  moreover have "length (p @ w) div outputBuffer * outputBuffer = length p" using div_below [OF assms(1,2)] by simp
  ultimately show ?thesis unfolding line_content_def Let_def by simp
qed

lemma frames_prefix:
  assumes "nl \<notin> set p"
  shows "stream_frames (p @ s) =
    (let w = takeWhile (\<lambda>c. c \<noteq> nl) s
     in if length w < length s then (p @ w @ [nl]) # stream_frames (drop (length w + 1) s) else if p @ s = [] then [] else [p @ s])"
proof -
  have "takeWhile (\<lambda>c. c \<noteq> nl) (p @ s) = p @ takeWhile (\<lambda>c. c \<noteq> nl) s" using assms by (intro takeWhile_append2) auto
  then show ?thesis by (subst stream_frames.simps) (simp add: Let_def)
qed

lemma readOutput_frames:
  assumes "nl \<notin> set p" and "outputBuffer dvd length p"
  shows "readOutput s (take maxLine p) (length p) = map kept_line (stream_frames (p @ s))"
  using assms
proof (induction "length s" arbitrary: s p rule: less_induct)
  case less
  let ?w = "takeWhile (\<lambda>c. c \<noteq> nl) s"
  have le: "length ?w \<le> length s" by (rule length_takeWhile_le)
  consider (line) "length ?w < length s" "length ?w < outputBuffer" | (tail) "length ?w = length s" "length s < outputBuffer" | (full) "outputBuffer \<le> length ?w"
    using le by linarith
  then show ?case
  proof cases
    case line
    have r: "ReadSlice outputBuffer s = (?w @ [nl], SliceLine, drop (length ?w + 1) s)" using line by (simp add: ReadSlice_def Let_def)
    have rest: "readOutput (drop (length ?w + 1) s) [] 0 = map kept_line (stream_frames (drop (length ?w + 1) s))"
      using less.hyps [of "drop (length ?w + 1) s" "[]"] line(1) by simp
    have t: "TrimSuffix1 nl (?w @ [nl]) = ?w" by (simp add: TrimSuffix1_def)
    show ?thesis
      unfolding readOutput.simps [of s] r frames_prefix [OF less.prems(1)]
      using line(1) rest line_content_line [OF less.prems(2) line(2)]
      by (simp add: t kept_line_def Let_def retain_min)
  next
    case tail
    have s: "?w = s" using tail(1) by (metis takeWhile_eq_take take_all order_refl)
    have n: "nl \<notin> set s" using s by (metis set_takeWhileD)
    have r: "ReadSlice outputBuffer s = (s, SliceEnd, [])" using tail by (simp add: ReadSlice_def Let_def)
    show ?thesis
    proof (cases "p @ s = []")
      case True
      then show ?thesis unfolding readOutput.simps [of s] r using frames_prefix [OF less.prems(1), of s] by (simp add: Let_def)
    next
      case False
      then have "line_content (p @ s) = p @ TrimSuffix1 cr (TrimSuffix1 nl s)"
        using line_content_tail [OF less.prems(2) tail(2)] less.prems(1) n by auto
      then show ?thesis
        unfolding readOutput.simps [of s] r frames_prefix [OF less.prems(1)]
        using False tail(1) by (auto simp: kept_line_def Let_def retain_min)
    qed
  next
    case full
    let ?a = "take outputBuffer s" and ?d = "drop outputBuffer s"
    have a: "nl \<notin> set ?a" using take_line [OF full] by blast
    have sl: "outputBuffer \<le> length s" using full le by (rule order_trans)
    have al: "length ?a = outputBuffer" using sl unfolding length_take by (rule min.absorb2)
    have r: "ReadSlice outputBuffer s = (?a, SliceFull, ?d)" using full le by (simp add: ReadSlice_def Let_def)
    have IH: "readOutput ?d (take maxLine (p @ ?a)) (length (p @ ?a)) = map kept_line (stream_frames ((p @ ?a) @ ?d))"
    proof (rule less.hyps)
      show "length ?d < length s" using sl by simp
      show "nl \<notin> set (p @ ?a)" using a less.prems(1) by simp
      show "outputBuffer dvd length (p @ ?a)" unfolding length_append al using less.prems(2) by (rule dvd_add) simp
    qed
    have "readOutput s (take maxLine p) (length p) = readOutput ?d (take maxLine (p @ ?a)) (length (p @ ?a))"
      unfolding readOutput.simps [of s] r by (simp only: prod.case Let_def retain length_append) simp
    also have "\<dots> = map kept_line (stream_frames (p @ s))" unfolding IH by simp
    finally show ?thesis .
  qed
qed

text \<open>
  C34. The output of a command is emitted line by line: for each line of the stream, and for what follows the last
  newline, one event holds its first MiB and says how long it was. No line is lost, however long, and none is split.
\<close>

theorem output_lines_exact:
  "readOutput s [] 0 = map kept_line (stream_frames s)"
  using readOutput_frames [of "[]" s] by simp

section \<open>Events are numbered in order\<close>

type_synonym emission = "bool \<times> string \<times> procState option \<times> emit_env \<times> LogEntry"

definition emits :: "emission list \<Rightarrow> event_log \<Rightarrow> event_log" where
  "emits es lg = fold (\<lambda>(quiet, name, st, em, e). emit quiet name st em e) es lg"

definition numbered :: "Project \<Rightarrow> 64 word \<Rightarrow> LogEntry list \<Rightarrow> bool" where
  "numbered p n xs =
     (sorted_wrt (\<lambda>a b. le_Sequence a < le_Sequence b) xs \<and>
      list_all (\<lambda>x. le_Sequence x \<le> n \<and> le_ID x = pj_RunID p @ '':'' @ Itoa (uint (le_Sequence x))) xs)"

definition log_ok :: "Project \<Rightarrow> event_log \<Rightarrow> bool" where
  "log_ok p lg = (lg_project lg = Some p \<and> numbered p (lg_sequence lg) (lg_journal lg) \<and> numbered p (lg_sequence lg) (lg_published lg))"

lemma numbered_ids: "numbered p n xs \<Longrightarrow> distinct (map le_ID xs)"
proof (induction xs)
  case (Cons x xs)
  have "le_ID x \<noteq> le_ID y" if "y \<in> set xs" for y
  proof -
    have "le_Sequence x < le_Sequence y" using Cons.prems that by (simp add: numbered_def)
    then have "uint (le_Sequence x) \<noteq> uint (le_Sequence y)" by (simp add: word_less_def)
    moreover have "le_ID x = pj_RunID p @ '':'' @ Itoa (uint (le_Sequence x))" "le_ID y = pj_RunID p @ '':'' @ Itoa (uint (le_Sequence y))"
      using Cons.prems that by (simp_all add: numbered_def list_all_iff)
    ultimately show ?thesis by (simp add: Itoa_inject)
  qed
  then show ?case using Cons by (auto simp: numbered_def)
qed simp

lemma numbered_later: "numbered p n xs \<Longrightarrow> n \<le> n' \<Longrightarrow> numbered p n' xs"
  by (auto simp: numbered_def list_all_iff)

lemma numbered_snoc:
  assumes "numbered p n xs" and "n < le_Sequence x" and "le_ID x = pj_RunID p @ '':'' @ Itoa (uint (le_Sequence x))"
  shows "numbered p (le_Sequence x) (xs @ [x])"
  using assms by (auto simp: numbered_def list_all_iff sorted_wrt_append)

lemma emit_fields:
  "lg_project (emit quiet name st em e lg) = lg_project lg \<and>
   lg_sequence (emit quiet name st em e lg) = (if quiet then lg_sequence lg else lg_sequence lg + 1) \<and>
   lg_journal (emit quiet name st em e lg) \<in> {lg_journal lg, lg_journal lg @ (if quiet then [] else [stamped name st em lg e])} \<and>
   lg_published (emit quiet name st em e lg) \<in> {lg_published lg, lg_published lg @ (if quiet then [] else [stamped name st em lg e])}"
  by (cases "em_marshal em"; cases "em_write em") (simp_all add: emit_def Let_def)

lemma emit_ok:
  assumes "log_ok p lg" and "unat (lg_sequence lg) < 2 ^ 64 - 1"
  shows "log_ok p (emit quiet name st em e lg)" and "unat (lg_sequence (emit quiet name st em e lg)) \<le> unat (lg_sequence lg) + 1"
proof -
  let ?x = "stamped name st em lg e" and ?n = "lg_sequence lg"
  note f = emit_fields [of quiet name st em e lg]
  have suc: "unat (?n + 1) = unat ?n + 1" using assms(2) by (simp add: unat_add_lem [THEN iffD1] unat_word_ariths)
  then have less: "?n < ?n + 1" by (simp add: word_less_nat_alt)
  have sq: "le_Sequence ?x = ?n + 1" and id: "le_ID ?x = pj_RunID p @ '':'' @ Itoa (uint (?n + 1))"
    using assms(1) by (simp_all add: stamped_def Let_def log_ok_def split: option.splits)
  have keep: "numbered p (?n + 1) xs" and add: "numbered p (?n + 1) (xs @ [?x])" if "numbered p ?n xs" for xs
    using numbered_later [OF that, of "?n + 1"] numbered_snoc [OF that, of ?x] less sq id by auto
  show "unat (lg_sequence (emit quiet name st em e lg)) \<le> unat ?n + 1" using f suc by simp
  show "log_ok p (emit quiet name st em e lg)"
    using f assms(1) keep add unfolding log_ok_def by (cases quiet) auto
qed

text \<open>
  C35. The events of a run are numbered in the order in which they are written: in the journal and in what the monitors are
  sent, the sequence numbers strictly increase and no two events share an identifier, whatever writes fail.
\<close>

theorem events_are_numbered:
  assumes "lg_project lg = Some p" and "lg_sequence lg = 0" and "lg_journal lg = []" and "lg_published lg = []"
    and "length es < 2 ^ 64"
  shows "sorted_wrt (\<lambda>a b. le_Sequence a < le_Sequence b) (lg_journal (emits es lg)) \<and> distinct (map le_ID (lg_journal (emits es lg))) \<and>
    sorted_wrt (\<lambda>a b. le_Sequence a < le_Sequence b) (lg_published (emits es lg)) \<and> distinct (map le_ID (lg_published (emits es lg)))"
proof -
  have "log_ok p (emits es lg) \<and> unat (lg_sequence (emits es lg)) \<le> length es"
    using assms(5)
  proof (induction es rule: rev_induct)
    case Nil
    then show ?case using assms by (simp add: emits_def log_ok_def numbered_def)
  next
    case (snoc x es)
    obtain quiet name st em e where x: "x = (quiet, name, st, em, e)" by (metis prod.exhaust)
    have s: "emits (es @ [x]) lg = emit quiet name st em e (emits es lg)" by (simp add: emits_def x)
    have IH: "log_ok p (emits es lg)" "unat (lg_sequence (emits es lg)) \<le> length es" using snoc by simp_all
    have "length es < 2 ^ 64 - 1" using snoc.prems by simp
    then have "unat (lg_sequence (emits es lg)) < 2 ^ 64 - 1" using IH(2) by linarith
    from emit_ok [OF IH(1) this, of quiet name st em e] IH(2) show ?case unfolding s by simp
  qed
  then have n: "numbered p (lg_sequence (emits es lg)) (lg_journal (emits es lg))" "numbered p (lg_sequence (emits es lg)) (lg_published (emits es lg))"
    by (simp_all add: log_ok_def)
  show ?thesis using n numbered_ids [OF n(1)] numbered_ids [OF n(2)] by (simp add: numbered_def)
qed

definition example_log :: event_log where
  "example_log = \<lparr>lg_sequence = 0, lg_project = Some \<lparr>pj_Session = [], pj_RunID = ''7-1'', pj_ConfigPath = [], pj_Directory = [],
     pj_Ports = [], pj_URLs = [], pj_Resources = [], pj_Teardown = []\<rparr>, lg_AttemptID = [], lg_verbose = False, lg_ipc = True,
     lg_hasJournal = True, lg_journal = [], lg_printed = [], lg_published = [], lg_err = None, lg_lastStates = []\<rparr>"

lemma events_are_numbered_witness:
  "distinct (map le_ID (lg_journal (emits (replicate 3 (False, ''web'', None, \<lparr>em_now = 0, em_marshal = None, em_write = None\<rparr>,
     processLog ''info'' ''process.ready'' ''ready'')) example_log)))"
  using events_are_numbered [of example_log "the (lg_project example_log)" "replicate 3 (False, ''web'', None,
    \<lparr>em_now = 0, em_marshal = None, em_write = None\<rparr>, processLog ''info'' ''process.ready'' ''ready'')"]
  by (simp add: example_log_def)

end
