(* ===== verification/Doctor_Scan.thy ===== *)
theory Doctor_Scan
  imports Config_Load Endpoint_Owner
begin

text \<open>
  What \<^verbatim>\<open>proc-compose doctor\<close> finds in a project (\<^verbatim>\<open>internal/doctor/scan.go\<close>): its Node, Go and Python services, each with
  a name, a command, a directory and a guess of its port. The project is an argument: the files and directories of
  the \<open>host\<close>, the JSON decoder and \<^verbatim>\<open>strings.ToLower\<close>. A walk visits the directories of a tree; one that cannot be read
  has no children.
\<close>

section \<open>The report\<close>

datatype Confidence = ConfidenceLow | ConfidenceMedium | ConfidenceHigh

record Service =
  ds_Name :: string
  ds_Command :: string
  ds_Dir :: string
  ds_Port :: int
  ds_Kind :: string
  ds_Confidence :: Confidence
  ds_Manifest :: string

record packageJSON =
  pk_Scripts :: "string gomap"
  pk_Dependencies :: "string gomap"
  pk_DevDeps :: "string gomap"
  pk_PackageManager :: string
  pk_Workspaces :: string

text \<open>\<open>pr_entries\<close> are the entries of a directory, each with whether it is a regular file.\<close>

record project =
  pr_host :: host
  pr_entries :: "string \<Rightarrow> (string \<times> bool) list"
  pr_package :: "string \<Rightarrow> packageJSON option"
  pr_lower :: "string \<Rightarrow> string"

abbreviation stat :: "project \<Rightarrow> string \<Rightarrow> bool" where "stat pr \<equiv> h_stat (pr_host pr)"
abbreviation ReadFile :: "project \<Rightarrow> string \<Rightarrow> string option" where "ReadFile pr \<equiv> h_read (pr_host pr)"

section \<open>Strings and paths\<close>

definition TrimPrefix :: "string \<Rightarrow> string \<Rightarrow> string" where
  "TrimPrefix s p = (if HasPrefix s p then drop (length p) s else s)"

definition TrimSet :: "string \<Rightarrow> string \<Rightarrow> string" where
  "TrimSet s cutset = rev (dropWhile (\<lambda>c. c \<in> set cutset) (rev (dropWhile (\<lambda>c. c \<in> set cutset) s)))"

abbreviation quotes :: string where "quotes \<equiv> [CHR 0x22, CHR 0x27]"

definition filepath_Base :: "string \<Rightarrow> string" where
  "filepath_Base p =
     (if p = [] then ''.''
      else let q = rev (dropWhile (\<lambda>c. c = slash) (rev p))
           in if q = [] then [slash] else case cut_last slash q of None \<Rightarrow> q | Some (_, b) \<Rightarrow> b)"

text \<open>\<^verbatim>\<open>filepath.Rel\<close> for a path that a walk below \<open>root\<close> produced.\<close>

definition rel_path :: "string \<Rightarrow> string \<Rightarrow> string" where
  "rel_path root path = (if path = root then ''.'' else drop (length root + (if root = [slash] then 0 else 1)) path)"

fun node_name :: "fs_node \<Rightarrow> string" where
  "node_name (FDir name subs) = name"
| "node_name (FFile name ls) = name"

text \<open>The directories \<^verbatim>\<open>filepath.WalkDir\<close> visits, in order; \<open>skip\<close> is when the callback answers \<^verbatim>\<open>SkipDir\<close>.\<close>

fun walk_dirs :: "(string \<Rightarrow> string \<Rightarrow> bool) \<Rightarrow> string \<Rightarrow> fs_node \<Rightarrow> string list" where
  "walk_dirs skip path (FFile name ls) = []"
| "walk_dirs skip path (FDir name subs) =
     (if skip path name then []
      else path # concat (map (\<lambda>s. walk_dirs skip (filepath_Join path (node_name s)) s) subs))"

section \<open>Names\<close>

definition safeProcessNameRe :: "string \<Rightarrow> bool" where
  "safeProcessNameRe s = name_matches ''-._'' s"

text \<open>A run of other characters becomes one dash; \<open>lastDash\<close> is whether one was just written.\<close>

fun dash_others :: "bool \<Rightarrow> string \<Rightarrow> string" where
  "dash_others lastDash [] = []"
| "dash_others lastDash (c # cs) =
     (if is_alnum c \<or> c = CHR ''.'' \<or> c = CHR ''_'' then c # dash_others False cs
      else if lastDash then dash_others True cs
      else CHR ''-'' # dash_others True cs)"

definition sanitizeProcessName :: "string \<Rightarrow> string" where
  "sanitizeProcessName name0 =
     (let name = TrimSpace name0
      in if safeProcessNameRe name then name
         else let cleaned = TrimSet (dash_others False name) ''-._''
              in if cleaned = [] then ''service''
                 else if \<not> safeProcessNameRe cleaned then ''service''
                 else cleaned)"

definition shouldSkipProjectDir :: "string \<Rightarrow> string \<Rightarrow> bool" where
  "shouldSkipProjectDir path name =
     (if name = ''.'' \<or> name = [] then False
      else if HasPrefix name ''.'' \<and> name \<noteq> ''.'' then True
      else name \<in> set [''node_modules'', ''vendor'', ''dist'', ''build'', ''coverage'', ''__pycache__'', ''.cache'', ''.turbo'',
             ''.worktrees'', ''archive'', ''venv'', ''.venv'', ''tmp'', ''temp'']
           \<or> Contains path ''/node_modules/'')"

section \<open>Ports\<close>

definition positive_port :: "string \<Rightarrow> int option" where
  "positive_port s = (case Atoi s of None \<Rightarrow> None | Some p \<Rightarrow> if p > 0 then Some p else None)"

definition env_port_line :: "string \<Rightarrow> int option" where
  "env_port_line line0 =
     (let line = TrimPrefix (TrimSpace line0) ''export ''
      in if \<not> HasPrefix line ''PORT'' then None
         else case Cut1 (CHR ''='') line of (key, val, found) \<Rightarrow>
           if \<not> found \<or> TrimSpace key \<noteq> ''PORT'' then None else positive_port (TrimSet (TrimSpace val) quotes))"

definition env_files_of :: "project \<Rightarrow> string \<Rightarrow> string list" where
  "env_files_of pr dir = [''.env.example'', ''.env''] @
     sort (map fst (filter (\<lambda>(name, regular). regular \<and> HasPrefix name ''.env.'' \<and> name \<noteq> ''.env.example'') (pr_entries pr dir)))"

definition detectEnvPort :: "project \<Rightarrow> string \<Rightarrow> int" where
  "detectEnvPort pr dir = the_default 0 (first_some (concat (map (\<lambda>name.
     case ReadFile pr (filepath_Join dir name) of
       None \<Rightarrow> []
     | Some content \<Rightarrow> map env_port_line (split_sep (CHR 0x0A) content)) (env_files_of pr dir))))"

definition prefixed_port :: "string \<Rightarrow> int option" where
  "prefixed_port field = first_some (map (\<lambda>prefix.
     if HasPrefix field prefix then positive_port (TrimSet (TrimPrefix field prefix) quotes) else None) [''--port='', ''-p=''])"

fun port_arg :: "string list \<Rightarrow> int" where
  "port_arg [] = 0"
| "port_arg (field # rest) =
     (case (if field = ''--port'' \<or> field = ''-p''
            then (case rest of [] \<Rightarrow> None | arg # _ \<Rightarrow> positive_port (TrimSet arg quotes))
            else prefixed_port field) of
        Some port \<Rightarrow> port
      | None \<Rightarrow> port_arg rest)"

definition detectPortArg :: "string \<Rightarrow> int" where
  "detectPortArg command = port_arg (Fields command)"

section \<open>Node services\<close>

abbreviation script :: "packageJSON \<Rightarrow> string \<Rightarrow> string" where
  "script pkg name \<equiv> the_default [] (gget (pk_Scripts pkg) name)"

definition isAggregateNodePackage :: "packageJSON \<Rightarrow> bool" where
  "isAggregateNodePackage pkg =
     (pk_Workspaces pkg \<noteq> [] \<and> pk_Workspaces pkg \<noteq> ''null'' \<or> Contains (script pkg ''dev'') ''concurrently'')"

definition hasDirectNodeDevServer :: "packageJSON \<Rightarrow> bool" where
  "hasDirectNodeDevServer pkg =
     list_ex (\<lambda>command. list_ex (\<lambda>f. f \<in> set [''vite'', ''next'', ''astro'', ''svelte-kit'']) (Fields command))
       [script pkg ''dev'', script pkg ''start'']"

definition lockfiles :: "(string \<times> string) list" where
  "lockfiles = [(''pnpm-lock.yaml'', ''pnpm''), (''yarn.lock'', ''yarn''), (''bun.lockb'', ''bun''), (''bun.lock'', ''bun''),
     (''package-lock.json'', ''npm'')]"

subsection \<open>The directory above\<close>

definition weight :: "string list \<Rightarrow> nat" where
  "weight segs = sum_list (map (\<lambda>s. length s + 1) segs)"

lemma weight_simps [simp]:
  "weight [] = 0" "weight (s # segs) = length s + 1 + weight segs" "weight (xs @ ys) = weight xs + weight ys"
  by (simp_all add: weight_def)

lemma weight_split: "weight (split_sep c p) = length p + 1"
  by (induction p) (auto split: list.splits)

lemma weight_butlast: "weight (butlast xs) \<le> weight xs"
  by (cases xs rule: rev_cases) simp_all

lemma weight_step: "weight (clean_step r xs s) \<le> weight xs + (if s = [] then 0 else length s + 1)"
  using weight_butlast [of xs] by (auto simp: clean_step_def intro: le_trans)

lemma weight_segs:
  "weight (foldl (clean_step r) xs segs) \<le> weight xs + sum_list (map (\<lambda>s. if s = [] then 0 else length s + 1) segs)"
proof (induction segs arbitrary: xs)
  case (Cons s segs)
  then show ?case using weight_step [of r xs s] Cons.IH [of "clean_step r xs s"] unfolding foldl.simps list.map sum_list.Cons by linarith
qed simp

lemma weight_nonempty: "sum_list (map (\<lambda>s. if s = [] then 0 else length s + 1) segs) + length (filter (\<lambda>s. s = []) segs) = weight segs"
  by (induction segs) auto

lemma length_Join: "segs \<noteq> [] \<Longrightarrow> length (Join segs [c]) + 1 = weight segs"
  by (induction segs "[c]" rule: Join.induct) auto

lemma weight_clean: "weight (clean_segs r (split_sep slash p)) + length (filter (\<lambda>s. s = []) (split_sep slash p)) \<le> length p + 1"
  using weight_segs [of r "[]" "split_sep slash p"] weight_nonempty [of "split_sep slash p"] weight_split [of slash p]
  unfolding clean_segs_def by simp

lemma split_sep_last: "split_sep c (p @ [c]) = split_sep c p @ [[]]"
  by (induction p) (auto split: list.splits)

lemma Clean_length:
  assumes "p \<noteq> []"
  shows "length (Clean p) \<le> length p"
proof -
  let ?out = "clean_segs (IsAbs p) (split_sep slash p)"
  have abs: "filter (\<lambda>s. s = []) (split_sep slash p) \<noteq> []" if "IsAbs p"
    using that assms by (cases p) (auto simp: IsAbs_def filter_empty_conv)
  have "length p \<ge> 1" using assms by (cases p) auto
  then show ?thesis using assms weight_clean [of "IsAbs p" p] abs length_Join [of ?out slash]
    by (cases "?out = []"; cases "filter (\<lambda>s. s = []) (split_sep slash p)") (auto simp: Clean_def Let_def)
qed

lemma Clean_slash_shorter:
  assumes "Clean (a @ [slash]) \<noteq> a @ [slash]"
  shows "length (Clean (a @ [slash])) < length (a @ [slash])"
proof -
  let ?p = "a @ [slash]"
  let ?out = "clean_segs (IsAbs ?p) (split_sep slash ?p)" and ?e = "filter (\<lambda>s. s = []) (split_sep slash ?p)"
  have e: "length ?e \<ge> 1" by (simp add: split_sep_last)
  have abs: "length ?e \<ge> 2" if "IsAbs ?p" "a \<noteq> []"
    using that by (cases a) (auto simp: IsAbs_def split_sep_last)
  show ?thesis
  proof (cases "?out = []")
    case True
    then show ?thesis using assms by (cases a) (auto simp: Clean_def Let_def IsAbs_def)
  next
    case False
    then have "a \<noteq> []" by (auto simp: IsAbs_def clean_segs_def clean_step_def)
    then show ?thesis using False weight_clean [of "IsAbs ?p" ?p] e abs length_Join [OF False, of slash]
      by (cases "IsAbs ?p") (auto simp: Clean_def Let_def)
  qed
qed

lemma Dir_shorter:
  assumes "filepath_Dir p \<noteq> p" and "p \<noteq> []" and "filepath_Dir p \<noteq> ''.''"
  shows "length (filepath_Dir p) < length p"
proof (cases "cut_last slash p")
  case None
  then show ?thesis using assms by (simp add: filepath_Dir_def Clean_def)
next
  case (Some ab)
  obtain a b where ab: "ab = (a, b)" by (cases ab)
  have p: "p = a @ slash # b" using cut_last_SomeD [OF Some [unfolded ab]] by simp
  have d: "filepath_Dir p = Clean (a @ [slash])" by (simp add: filepath_Dir_def Some ab)
  show ?thesis
  proof (cases b)
    case Nil
    then show ?thesis using Clean_slash_shorter [of a] assms(1) d p by simp
  next
    case (Cons x xs)
    then show ?thesis using Clean_length [of "a @ [slash]"] p unfolding d by simp
  qed
qed

text \<open>Up from a directory to the root of the project, or of the file system.\<close>

function lock_manager :: "project \<Rightarrow> string \<Rightarrow> string \<Rightarrow> string" where
  "lock_manager pr root current =
     (case find (\<lambda>(file, manager). stat pr (filepath_Join current file)) lockfiles of
        Some (file, manager) \<Rightarrow> manager
      | None \<Rightarrow> if current = root \<or> current = filepath_Dir current then ''npm'' else lock_manager pr root (filepath_Dir current))"
  by pat_completeness auto
termination
proof (relation "measure (\<lambda>(pr, root, p). if p = ''.'' then 0 else if p = [] then 1 else length p + 1)")
  fix pr root p
  assume "\<not> (p = root \<or> p = filepath_Dir p)"
  then show "((pr, root, filepath_Dir p), (pr, root, p)) \<in> measure (\<lambda>(pr, root, p). if p = ''.'' then 0 else if p = [] then 1 else length p + 1)"
    using Dir_shorter [of p] by (auto simp: filepath_Dir_def Clean_def)
qed simp

declare lock_manager.simps [simp del]

definition detectNodePackageManager :: "project \<Rightarrow> string \<Rightarrow> string \<Rightarrow> packageJSON \<Rightarrow> string" where
  "detectNodePackageManager pr root dir pkg =
     (let name = fst (Cut1 (CHR ''@'') (pk_PackageManager pkg))
      in if pk_PackageManager pkg \<noteq> [] \<and> name \<in> set [''npm'', ''pnpm'', ''yarn'', ''bun''] then name
         else lock_manager pr (Clean root) (Clean dir))"

definition command_has :: "packageJSON \<Rightarrow> string \<Rightarrow> bool" where
  "command_has pkg tool = list_ex (\<lambda>name. tool \<in> set (Fields (script pkg name))) [''dev'', ''start'']"

definition package_has :: "packageJSON \<Rightarrow> string \<Rightarrow> bool" where
  "package_has pkg dep = (ghas (pk_Dependencies pkg) dep \<or> ghas (pk_DevDeps pkg) dep)"

definition detectNodePort :: "project \<Rightarrow> string \<Rightarrow> packageJSON \<Rightarrow> int" where
  "detectNodePort pr dir pkg =
     (if detectEnvPort pr dir > 0 then detectEnvPort pr dir
      else if detectPortArg (script pkg ''dev'') > 0 then detectPortArg (script pkg ''dev'')
      else if detectPortArg (script pkg ''start'') > 0 then detectPortArg (script pkg ''start'')
      else let hasVite = command_has pkg ''vite'' \<or> package_has pkg ''vite'';
               hasNext = command_has pkg ''next'' \<or> package_has pkg ''next'';
               hasSvelteKit = command_has pkg ''svelte-kit'' \<or> package_has pkg ''@sveltejs/kit'';
               hasAstro = command_has pkg ''astro'' \<or> package_has pkg ''astro''
           in if hasAstro then 4321 else if hasVite then 5173 else if hasSvelteKit then 5173 else if hasNext then 3000 else 0)"

definition detectNodeCommand :: "project \<Rightarrow> string \<Rightarrow> string \<Rightarrow> packageJSON \<Rightarrow> string" where
  "detectNodeCommand pr root dir pkg =
     (let manager = detectNodePackageManager pr root dir pkg
      in case find (ghas (pk_Scripts pkg)) [''dev'', ''start''] of
           None \<Rightarrow> []
         | Some scriptName \<Rightarrow>
             if manager \<in> set [''yarn'', ''pnpm'', ''bun''] then manager @ '' '' @ scriptName else ''npm run '' @ scriptName)"

definition node_service :: "project \<Rightarrow> string \<Rightarrow> string \<Rightarrow> Service list" where
  "node_service pr root path =
     (if \<not> stat pr (filepath_Join path ''package.json'') then []
      else case Option.bind (ReadFile pr (filepath_Join path ''package.json'')) (pr_package pr) of
        None \<Rightarrow> []
      | Some pkg \<Rightarrow>
          if isAggregateNodePackage pkg \<and> \<not> hasDirectNodeDevServer pkg then []
          else let cmd = detectNodeCommand pr root path pkg; rel = rel_path root path
               in if cmd = [] then []
                  else [\<lparr>ds_Name = sanitizeProcessName (filepath_Base path), ds_Command = cmd,
                         ds_Dir = (if rel \<noteq> ''.'' then ''./'' @ rel else ''.''), ds_Port = detectNodePort pr path pkg, ds_Kind = ''node'',
                         ds_Confidence = ConfidenceHigh,
                         ds_Manifest = (if rel \<noteq> ''.'' then ''./'' @ rel @ ''/package.json'' else ''package.json'')\<rparr>])"

definition scanNodeServices :: "project \<Rightarrow> string \<Rightarrow> Service list" where
  "scanNodeServices pr root =
     concat (map (node_service pr root)
       (walk_dirs (\<lambda>path name. path \<noteq> root \<and> shouldSkipProjectDir path name) root (h_tree (pr_host pr) root)))"

section \<open>Go services\<close>

definition isGoMain :: "project \<Rightarrow> string \<Rightarrow> bool" where
  "isGoMain pr path = (case ReadFile pr path of None \<Rightarrow> False | Some data \<Rightarrow> Contains data ''package main'')"

definition safeRelativeCommandPath :: "string \<Rightarrow> bool" where
  "safeRelativeCommandPath path = list_all safeProcessNameRe (split_sep slash path)"

definition addRootGoService :: "project \<Rightarrow> string \<Rightarrow> Service list" where
  "addRootGoService pr root =
     (if \<not> isGoMain pr (filepath_Join root ''main.go'') then []
      else [\<lparr>ds_Name = sanitizeProcessName (filepath_Base root), ds_Command = ''go run .'', ds_Dir = ''.'', ds_Port = detectEnvPort pr root,
             ds_Kind = ''go'', ds_Confidence = ConfidenceMedium, ds_Manifest = ''go.mod''\<rparr>])"

definition go_service :: "project \<Rightarrow> string \<Rightarrow> string \<Rightarrow> Service list" where
  "go_service pr root path =
     (let name = filepath_Base path; rel = rel_path root path;
          port = (if detectEnvPort pr path = 0 then detectEnvPort pr root else detectEnvPort pr path)
      in if \<not> isGoMain pr (filepath_Join path ''main.go'') \<or> \<not> safeProcessNameRe name \<or> \<not> safeRelativeCommandPath rel then []
         else [\<lparr>ds_Name = sanitizeProcessName name, ds_Command = ''go run ./'' @ rel, ds_Dir = ''.'', ds_Port = port, ds_Kind = ''go'',
                ds_Confidence = ConfidenceMedium, ds_Manifest = ''go.mod''\<rparr>])"

definition scanGoServices :: "project \<Rightarrow> string \<Rightarrow> Service list" where
  "scanGoServices pr root =
     (let cmdDir = filepath_Join root ''cmd''
      in if \<not> stat pr (filepath_Join root ''go.mod'') then []
         else if \<not> stat pr cmdDir then addRootGoService pr root
         else let found = concat (map (go_service pr root)
                    (walk_dirs (\<lambda>path name. path \<noteq> cmdDir \<and> shouldSkipProjectDir path name) cmdDir (h_tree (pr_host pr) cmdDir)))
              in if found = [] then addRootGoService pr root else found)"

section \<open>Python services\<close>

abbreviation python_manifests :: "string list" where
  "python_manifests \<equiv> [''pyproject.toml'', ''requirements.txt'', ''Pipfile'', ''poetry.lock'']"

definition pythonRunner :: "project \<Rightarrow> string \<Rightarrow> string" where
  "pythonRunner pr dir =
     (if stat pr (filepath_Join dir ''poetry.lock'') then ''poetry run ''
      else if stat pr (filepath_Join dir ''Pipfile'') then ''pipenv run ''
      else [])"

definition pythonManifestText :: "project \<Rightarrow> string \<Rightarrow> string" where
  "pythonManifestText pr dir =
     Join (map (pr_lower pr) (List.map_filter (\<lambda>name. ReadFile pr (filepath_Join dir name)) python_manifests)) [CHR 0x0A]"

definition pythonFileContains :: "project \<Rightarrow> string \<Rightarrow> string \<Rightarrow> bool" where
  "pythonFileContains pr path needle = (case ReadFile pr path of None \<Rightarrow> False | Some data \<Rightarrow> Contains data needle)"

definition hasPythonManifest :: "project \<Rightarrow> string \<Rightarrow> bool" where
  "hasPythonManifest pr dir = list_ex (\<lambda>name. stat pr (filepath_Join dir name)) python_manifests"

definition detectPythonCommand :: "project \<Rightarrow> string \<Rightarrow> string \<times> string \<times> int \<times> Confidence" where
  "detectPythonCommand pr dir =
     (let port = detectEnvPort pr dir;
          port_or = (\<lambda>d. if port = 0 then d else port);
          text_has = Contains (pythonManifestText pr dir);
          runner = pythonRunner pr dir;
          has = (\<lambda>name. stat pr (filepath_Join dir name))
      in if has ''manage.py'' then
           (''python manage.py runserver 0.0.0.0:'' @ Itoa (port_or 8000), ''manage.py'', port_or 8000, ConfidenceHigh)
         else if has ''app.py'' \<and> hasPythonManifest pr dir then
           (if text_has ''flask'' then
              (runner @ ''python -m flask --app app run --host 0.0.0.0 --port '' @ Itoa (port_or 5000), ''app.py'', port_or 5000, ConfidenceHigh)
            else (runner @ ''python app.py'', ''app.py'', port, ConfidenceMedium))
         else if has ''main.py'' \<and> hasPythonManifest pr dir then
           (if text_has ''uvicorn'' \<or> text_has ''fastapi'' \<or> pythonFileContains pr (filepath_Join dir ''main.py'') ''FastAPI'' then
              (runner @ ''python -m uvicorn main:app --host 0.0.0.0 --port '' @ Itoa (port_or 8000) @ '' --reload'', ''main.py'', port_or 8000,
               ConfidenceHigh)
            else if text_has ''hypercorn'' then
              (runner @ ''python -m hypercorn main:app --bind 0.0.0.0:'' @ Itoa (port_or 8000) @ '' --reload'', ''main.py'', port_or 8000,
               ConfidenceHigh)
            else if text_has ''flask'' then
              (runner @ ''python -m flask --app main run --host 0.0.0.0 --port '' @ Itoa (port_or 5000), ''main.py'', port_or 5000, ConfidenceHigh)
            else (runner @ ''python main.py'', ''main.py'', port, ConfidenceMedium))
         else ([], [], 0, ConfidenceLow))"

definition python_service :: "project \<Rightarrow> string \<Rightarrow> string \<Rightarrow> Service list" where
  "python_service pr root path =
     (case detectPythonCommand pr path of (command, manifest, port, confidence) \<Rightarrow>
        let rel = rel_path root path;
            name = (if rel = ''.'' then filepath_Base root else filepath_Base path)
        in if command = [] then []
           else [\<lparr>ds_Name = sanitizeProcessName name, ds_Command = command, ds_Dir = (if rel \<noteq> ''.'' then ''./'' @ rel else ''.''),
                  ds_Port = port, ds_Kind = ''python'', ds_Confidence = confidence,
                  ds_Manifest = (if rel \<noteq> ''.'' then ''./'' @ rel @ ''/'' @ manifest else manifest)\<rparr>])"

text \<open>Unlike the other walks, this one may skip the root itself.\<close>

definition scanPythonServices :: "project \<Rightarrow> string \<Rightarrow> Service list" where
  "scanPythonServices pr root =
     concat (map (python_service pr root) (walk_dirs shouldSkipProjectDir root (h_tree (pr_host pr) root)))"

section \<open>Unique names\<close>

text \<open>\<open>used\<close> counts how often a name was wanted; the search goes on while the candidate is taken.\<close>

abbreviation uses :: "nat gomap \<Rightarrow> string \<Rightarrow> nat" where
  "uses used name \<equiv> the_default 0 (gget used name)"

definition numbered_name :: "string \<Rightarrow> nat \<Rightarrow> string" where
  "numbered_name base n = base @ ''-'' @ utoa n"

lemma numbered_name_inject [simp]: "numbered_name base m = numbered_name base n \<longleftrightarrow> m = n"
  by (simp add: numbered_name_def utoa_inject)

text \<open>The numbers the search may still run into.\<close>

definition ahead :: "string \<Rightarrow> string \<Rightarrow> nat gomap \<Rightarrow> nat set" where
  "ahead name base used = {n. uses used name < n \<and> numbered_name base n \<in> insert name (set (gokeys used))}"

lemma finite_ahead: "finite (ahead name base used)"
proof (rule finite_imageD)
  show "finite (numbered_name base ` ahead name base used)"
    by (rule finite_subset [of _ "insert name (set (gokeys used))"]) (auto simp: ahead_def simp del: set_map)
qed (simp add: inj_on_def)

lemma taken_is_key: "uses used n > 0 \<Longrightarrow> n \<in> set (gokeys used)"
  by (cases "gget used n") (auto dest: gget_in_keys simp del: set_map)

lemma ahead_less:
  assumes "uses (gput name (uses used name + 1) used) (numbered_name base (uses used name + 1)) > 0"
  shows "ahead name base (gput name (uses used name + 1) used) \<subset> ahead name base used"
proof -
  let ?n = "uses used name + 1" and ?u = "gput name (uses used name + 1) used"
  have keys: "set (gokeys ?u) = insert name (set (gokeys used))" by (rule gokeys_gput)
  have now: "uses ?u name = ?n" by simp
  have "?n \<in> ahead name base used"
    using taken_is_key [OF assms] unfolding keys ahead_def by simp
  moreover have "?n \<notin> ahead name base ?u" unfolding ahead_def now by simp
  moreover have "ahead name base ?u \<subseteq> ahead name base used" unfolding ahead_def keys now by auto
  ultimately show ?thesis by blast
qed

function free_name :: "string \<Rightarrow> string \<Rightarrow> nat gomap \<Rightarrow> string \<times> nat gomap" where
  "free_name name base used =
     (let used1 = gput name (uses used name + 1) used;
          candidate = numbered_name base (uses used1 name)
      in if uses used1 candidate > 0 then free_name name base used1 else (candidate, used1))"
  by pat_completeness auto
termination
proof (relation "measure (\<lambda>(name, base, used). card (ahead name base used))")
  fix name base :: string and used used1 :: "nat gomap" and candidate :: string
  assume u: "used1 = gput name (uses used name + 1) used" and c: "candidate = numbered_name base (uses used1 name)"
    and taken: "uses used1 candidate > 0"
  have "uses used1 name = uses used name + 1" by (simp add: u)
  then have "ahead name base used1 \<subset> ahead name base used"
    using ahead_less [of name used base] taken c unfolding u by simp
  then show "((name, base, used1), (name, base, used)) \<in> measure (\<lambda>(name, base, used). card (ahead name base used))"
    by (simp add: psubset_card_mono finite_ahead)
qed simp

declare free_name.simps [simp del]

text \<open>The name of one service, given the names in use before it.\<close>

definition unique_name :: "Service \<Rightarrow> nat gomap \<Rightarrow> string \<times> nat gomap" where
  "unique_name service used =
     (let name = sanitizeProcessName (ds_Name service)
      in if uses used name = 0 then (name, gput name 1 used)
         else let base0 = (if ds_Dir service \<noteq> [] \<and> ds_Dir service \<noteq> ''.'' then sanitizeProcessName (TrimPrefix (ds_Dir service) ''./'') else name);
                  base = (if base0 = name then numbered_name name (uses used name + 1) else base0)
              in case (if uses used base > 0 then free_name name base used else (base, used)) of (candidate, used1) \<Rightarrow>
                   let used2 = gput candidate 1 used1 in (candidate, gput name (uses used2 name + 1) used2))"

fun unique_names :: "nat gomap \<Rightarrow> Service list \<Rightarrow> string list" where
  "unique_names used [] = []"
| "unique_names used (service # rest) =
     (case unique_name service used of (name, used1) \<Rightarrow> name # unique_names used1 rest)"

definition uniqueProcessNames :: "Service list \<Rightarrow> string list" where
  "uniqueProcessNames services = unique_names [] services"

definition withUniqueServiceNames :: "Service list \<Rightarrow> Service list" where
  "withUniqueServiceNames services =
     map (\<lambda>(service, name). service\<lparr>ds_Name := name\<rparr>) (zip services (uniqueProcessNames services))"

section \<open>Every name is a process name, and no two are equal\<close>

lemma dash_others_chars: "c \<in> set (dash_others b s) \<Longrightarrow> is_alnum c \<or> c \<in> set ''-._''"
  by (induction b s rule: dash_others.induct) (auto split: if_splits)

lemma dropWhile_hd: "dropWhile P xs \<noteq> [] \<Longrightarrow> \<not> P (hd (dropWhile P xs))"
  by (induction xs) auto

lemma TrimSet_ends:
  assumes "TrimSet s cs \<noteq> []"
  shows "hd (TrimSet s cs) \<notin> set cs \<and> List.last (TrimSet s cs) \<notin> set cs"
proof -
  let ?P = "\<lambda>c. c \<in> set cs" and ?l = "dropWhile (\<lambda>c. c \<in> set cs) s"
  have r: "TrimSet s cs = rev (dropWhile ?P (rev ?l))" by (simp add: TrimSet_def)
  have ne: "dropWhile ?P (rev ?l) \<noteq> []" using assms by (simp add: r)
  then have l: "List.last (TrimSet s cs) \<notin> set cs" using dropWhile_hd [of ?P "rev ?l"] by (simp add: r last_rev)
  obtain t where t: "?l = TrimSet s cs @ t"
    using takeWhile_dropWhile_id [of ?P "rev ?l"] unfolding r by (metis rev_append rev_rev_ident)
  then have "hd (TrimSet s cs) = hd ?l" "?l \<noteq> []" using assms by auto
  with dropWhile_hd [of ?P s] l show ?thesis by auto
qed

lemma TrimSet_set: "set (TrimSet s cs) \<subseteq> set s"
  unfolding TrimSet_def by (auto dest!: set_dropWhileD)

lemma sanitize_safe: "safeProcessNameRe (sanitizeProcessName name)"
proof -
  let ?c = "TrimSet (dash_others False (TrimSpace name)) ''-._''"
  have "safeProcessNameRe ?c" if "?c \<noteq> []"
  proof -
    have all: "is_alnum c \<or> c \<in> set ''-._''" if "c \<in> set ?c" for c
      using that TrimSet_set [of "dash_others False (TrimSpace name)" "''-._''"] dash_others_chars by blast
    then have "is_alnum (hd ?c)" "is_alnum (List.last ?c)"
      using TrimSet_ends [OF that] that by (meson hd_in_set last_in_set)+
    then show ?thesis using that all unfolding safeProcessNameRe_def name_matches_def list_all_iff by blast
  qed
  moreover have "safeProcessNameRe ''service''" by code_simp
  ultimately show ?thesis by (simp add: sanitizeProcessName_def Let_def)
qed

lemma sanitize_id: "safeProcessNameRe n \<Longrightarrow> TrimSpace n = n \<Longrightarrow> sanitizeProcessName n = n"
  by (simp add: sanitizeProcessName_def)

lemma alnum_digit: "c \<in> set (utoa n) \<Longrightarrow> is_alnum c"
  using utoa_digits [of c n] by (auto simp: is_alnum_def Let_def of_char_digit_char)

lemma numbered_safe:
  assumes "safeProcessNameRe base"
  shows "safeProcessNameRe (numbered_name base n)"
proof -
  have "is_alnum (List.last (utoa n))" by (rule alnum_digit [of _ n]) simp
  then show ?thesis
    using assms alnum_digit [of _ n] unfolding safeProcessNameRe_def name_matches_def numbered_name_def
    by (auto simp: list_all_iff)
qed

lemma uses_gput: "uses (gput k n used) m = (if m = k then n else uses used m)"
  by simp

lemma free_name_free:
  "free_name name base used = (c, used1) \<Longrightarrow>
     uses used1 c = 0 \<and> (\<exists>n. c = numbered_name base n) \<and> (\<forall>m. uses used m > 0 \<longrightarrow> uses used1 m > 0)"
proof (induction name base used arbitrary: c used1 rule: free_name.induct)
  case (1 name base used)
  let ?u = "gput name (uses used name + 1) used" and ?c = "numbered_name base (uses used name + 1)"
  show ?case
  proof (cases "uses ?u ?c > 0")
    case True
    then show ?thesis
      using "1.IH" [OF refl refl, of c used1] "1.prems" by (auto simp: free_name.simps [of name base used] Let_def uses_gput split: if_splits)
  next
    case False
    then show ?thesis using "1.prems" by (auto simp: free_name.simps [of name base used] Let_def uses_gput split: if_splits)
  qed
qed

lemma unique_name_fresh:
  assumes "unique_name service used = (c, used1)"
  shows "uses used c = 0 \<and> safeProcessNameRe c \<and> (\<forall>m. uses used m > 0 \<or> m = c \<longrightarrow> uses used1 m > 0)"
proof -
  let ?name = "sanitizeProcessName (ds_Name service)"
  let ?base0 = "if ds_Dir service \<noteq> [] \<and> ds_Dir service \<noteq> ''.'' then sanitizeProcessName (TrimPrefix (ds_Dir service) ''./'') else ?name"
  let ?base = "if ?base0 = ?name then numbered_name ?name (uses used ?name + 1) else ?base0"
  show ?thesis
  proof (cases "uses used ?name = 0")
    case True
    then show ?thesis using assms sanitize_safe by (auto simp: unique_name_def Let_def)
  next
    case False
    have base: "safeProcessNameRe ?base" using sanitize_safe numbered_safe by auto
    obtain u where f: "(if uses used ?base > 0 then free_name ?name ?base used else (?base, used)) = (c, u)"
      and u1: "used1 = gput ?name (uses (gput c 1 u) ?name + 1) (gput c 1 u)"
      using assms False unfolding unique_name_def Let_def by (auto split: prod.splits)
    have h: "uses u c = 0 \<and> safeProcessNameRe c \<and> (\<forall>m. uses used m > 0 \<longrightarrow> uses u m > 0)"
    proof (cases "uses used ?base > 0")
      case True
      then have "free_name ?name ?base used = (c, u)" using f by simp
      from free_name_free [OF this] numbered_safe [OF base] show ?thesis by auto
    next
      case False
      then show ?thesis using f base by auto
    qed
    then have "uses used c = 0" by (metis not_gr_zero)
    moreover have "uses used1 m > 0" if "uses used m > 0 \<or> m = c" for m
      using h that unfolding u1 uses_gput by auto
    ultimately show ?thesis using h by blast
  qed
qed

lemma unique_names_fresh:
  "distinct (unique_names used ss) \<and> list_all (\<lambda>n. safeProcessNameRe n \<and> uses used n = 0) (unique_names used ss) \<and>
   length (unique_names used ss) = length ss"
proof (induction ss arbitrary: used)
  case (Cons s ss)
  obtain c used1 where u: "unique_name s used = (c, used1)" by (metis prod.exhaust)
  from unique_name_fresh [OF u] Cons.IH [of used1] show ?case
    by (simp add: u list_all_iff) (metis gr_zeroI not_gr_zero)
qed simp

lemma uniqueProcessNames_ok:
  "distinct (uniqueProcessNames ss)" "list_all safeProcessNameRe (uniqueProcessNames ss)"
  "length (uniqueProcessNames ss) = length ss"
  using unique_names_fresh [of "[]" ss] by (auto simp: uniqueProcessNames_def list_all_iff)

end
