(* ===== verification/Doctor_Check.thy ===== *)
theory Doctor_Check
  imports Doctor_Scan Config_Correct
begin

text \<open>
  What \<^verbatim>\<open>proc-compose doctor\<close> makes of the services it found (\<^verbatim>\<open>internal/doctor/render.go\<close>, \<^verbatim>\<open>check.go\<close> and \<^verbatim>\<open>Run\<close> of
  \<^verbatim>\<open>scan.go\<close>): the configuration it suggests, and its findings on the one that exists. The YAML encoder, the lenient
  decoder of env files, the \<^verbatim>\<open>PATH\<close> and the write of the suggestion are arguments; the hints that go with a finding and
  the printed report are left out.
\<close>

section \<open>The report\<close>

datatype Severity = SeverityInfo | SeverityWarning | SeverityError

datatype finding_code = NoServices | CodeInvalidConfig | CodeMissingDir | CodeMissingEnvFile | CodeDuplicatePort
  | CodeDependencyWithoutReadiness | CodeMissingMergePort | CodeUncappedAlwaysRestart | CodeMissingTunnel

datatype finding_detail = DetailText string | DetailLoad load_error

record Finding =
  fd_Severity :: Severity
  fd_Code :: finding_code
  fd_Message :: string
  fd_Detail :: finding_detail

record Report =
  rp_ConfigPath :: string
  rp_ConfigExists :: bool
  rp_Services :: "Service list"
  rp_Findings :: "Finding list"
  rp_SuggestedYAML :: string
  rp_GeneratedPath :: string

record doctor_options =
  do_Root :: string
  do_ConfigFile :: string
  do_Write :: bool

record doctor =
  dr_project :: project
  dr_encode :: "Config \<Rightarrow> string option"
  dr_envFiles :: "string \<Rightarrow> string gomap option"
  dr_mergePort :: bool
  dr_tunnel :: bool
  dr_write :: "string option"

abbreviation dr_host :: "doctor \<Rightarrow> host" where "dr_host dk \<equiv> pr_host (dr_project dk)"

definition finding :: "Severity \<Rightarrow> finding_code \<Rightarrow> string \<Rightarrow> string \<Rightarrow> Finding" where
  "finding severity c message detail =
     \<lparr>fd_Severity = severity, fd_Code = c, fd_Message = message, fd_Detail = DetailText detail\<rparr>"

section \<open>The suggestion\<close>

definition isFrontend :: "(string \<Rightarrow> string) \<Rightarrow> Service \<Rightarrow> bool" where
  "isFrontend lower s =
     (list_ex (Contains (lower (ds_Name s))) [''front'', ''web'', ''client'', ''ui'', ''app''] \<or> ds_Port s = 5173)"

definition isBackend :: "(string \<Rightarrow> string) \<Rightarrow> Service \<Rightarrow> bool" where
  "isBackend lower s = (list_ex (Contains (lower (ds_Name s))) [''api'', ''back'', ''server''] \<or> ds_Kind s = ''go'')"

definition suggested_process :: "Service \<Rightarrow> Process" where
  "suggested_process s = zero_Process\<lparr>p_Cmd := ds_Command s, p_Dir := (if ds_Dir s \<noteq> ''.'' then ds_Dir s else []),
     p_Env := (if ds_Port s > 0 then [(''PORT'', Itoa (ds_Port s))] else []),
     p_ReadyWhen := (if ds_Port s > 0 then Some (tcp_probe (ds_Port s)) else None)\<rparr>"

definition suggested_merge :: "(string \<Rightarrow> string) \<Rightarrow> Service list \<Rightarrow> Merge option" where
  "suggested_merge lower services =
     (case (filter (\<lambda>s. isFrontend lower s \<and> ds_Port s > 0) services, filter (\<lambda>s. isBackend lower s \<and> ds_Port s > 0) services) of
        ([front], [back_]) \<Rightarrow>
          if ds_Port front \<noteq> ds_Port back_
          then Some \<lparr>m_Client = ds_Port front, m_Server = ds_Port back_, m_Port = 0, m_ApiPrefixes = [], m_Routes = [], m_ClientProcess = []\<rparr>
          else None
      | _ \<Rightarrow> None)"

text \<open>\<open>None\<close> stands for a document without processes.\<close>

definition suggested_config :: "(string \<Rightarrow> string) \<Rightarrow> Service list \<Rightarrow> Config option" where
  "suggested_config lower services =
     (let sure = filter (\<lambda>s. ds_Confidence s \<noteq> ConfidenceLow) services
      in if sure = [] then None
         else Some \<lparr>c_Merge = suggested_merge lower sure,
                    c_Processes = fold (\<lambda>(name, s). gput name (suggested_process s)) (zip (uniqueProcessNames sure) sure) [],
                    c_Resources = []\<rparr>)"

definition no_processes_yaml :: string where
  "no_processes_yaml = ''processes: {}'' @ [CHR 0x0A]"

definition renderSuggestedYAML :: "doctor \<Rightarrow> Service list \<Rightarrow> string" where
  "renderSuggestedYAML dk services =
     the_default no_processes_yaml (Option.bind (suggested_config (pr_lower (dr_project dk)) services) (dr_encode dk))"

section \<open>The checks of an existing configuration\<close>

definition resolveConfigPath :: "string \<Rightarrow> string \<Rightarrow> string" where
  "resolveConfigPath configDir path = (if IsAbs path then path else filepath_Join configDir path)"

definition parseConfigShape :: "doctor \<Rightarrow> string \<Rightarrow> Config option" where
  "parseConfigShape dk data = (case h_yaml (dr_host dk) data of Inl _ \<Rightarrow> None | Inr cfg \<Rightarrow> Some cfg)"

definition loadConfigShape :: "doctor \<Rightarrow> string \<Rightarrow> Config option" where
  "loadConfigShape dk path = Option.bind (h_read (dr_host dk) path) (parseConfigShape dk)"

definition missing_env_file :: "string \<Rightarrow> string \<Rightarrow> Finding" where
  "missing_env_file name f = finding SeverityError CodeMissingEnvFile (''process '' @ Quote name @ '' env_file does not exist'') f"

definition precheckEnvFiles :: "doctor \<Rightarrow> string \<Rightarrow> Finding list" where
  "precheckEnvFiles dk path =
     (case Option.bind (h_read (dr_host dk) path) (dr_envFiles dk) of
        None \<Rightarrow> []
      | Some files_of \<Rightarrow> concat (map (\<lambda>name.
          let f = the_default [] (gget files_of name)
          in if f \<noteq> [] \<and> \<not> h_stat (dr_host dk) (resolveConfigPath (filepath_Dir path) f) then [missing_env_file name f] else [])
          (SortedProcessNames files_of)))"

definition hasFindingWithDetail :: "Finding list \<Rightarrow> finding_code \<Rightarrow> string \<Rightarrow> bool" where
  "hasFindingWithDetail fs c detail = list_ex (\<lambda>f. fd_Code f = c \<and> fd_Detail f = DetailText detail) fs"

definition check_files :: "doctor \<Rightarrow> string \<Rightarrow> Process gomap \<Rightarrow> string \<Rightarrow> Finding list \<Rightarrow> Finding list" where
  "check_files dk configDir procs name fs =
     (let p = proc_at procs name; exists = (\<lambda>f. h_stat (dr_host dk) (resolveConfigPath configDir f));
          fs1 = (if p_Dir p \<noteq> [] \<and> \<not> HasRuntimeTemplate (p_Dir p) \<and> \<not> exists (p_Dir p)
                 then fs @ [finding SeverityError CodeMissingDir (''process '' @ Quote name @ '' dir does not exist'') (p_Dir p)] else fs)
      in if p_EnvFile p \<noteq> [] \<and> \<not> exists (p_EnvFile p) \<and> \<not> hasFindingWithDetail fs1 CodeMissingEnvFile (p_EnvFile p)
         then fs1 @ [missing_env_file name (p_EnvFile p)] else fs1)"

definition probe_port :: "Process \<Rightarrow> int \<times> string list" where
  "probe_port p =
     (case p_ReadyWhen p of
        None \<Rightarrow> (0, [])
      | Some rw \<Rightarrow>
          if rw_TCP rw = [] then (0, [])
          else (the_default 0 (Atoi (List.last (split_sep (CHR '':'') (rw_TCP rw)))), []))"

definition processPort :: "ServedPort gomap \<Rightarrow> string \<Rightarrow> Process \<Rightarrow> int \<times> string list" where
  "processPort served name p =
     (case gget served name of
        Some s \<Rightarrow> if sp_Port s > 0 then (sp_Port s, sp_Named s) else probe_port p
      | None \<Rightarrow> probe_port p)"

definition same_named :: "string list \<Rightarrow> string list \<Rightarrow> bool" where
  "same_named other named = list_ex (\<lambda>n. n \<in> set other) named"

definition check_port :: "ServedPort gomap \<Rightarrow> Process gomap \<Rightarrow> string \<Rightarrow> (int \<times> string \<times> string list) list \<times> Finding list
    \<Rightarrow> (int \<times> string \<times> string list) list \<times> Finding list" where
  "check_port served procs name = (\<lambda>(ports, fs).
     let p = proc_at procs name
     in case processPort served name p of (port, named) \<Rightarrow>
          if port = 0 \<or> p_Mode p = ProcessModeTeardown then (ports, fs)
          else case map_of ports port of
              None \<Rightarrow> ((port, name, named) # ports, fs)
            | Some (other, other_named) \<Rightarrow>
                if other_named \<noteq> [] \<and> named \<noteq> [] \<and> \<not> same_named other_named named then (ports, fs)
                else (ports, fs @ [finding SeverityWarning CodeDuplicatePort
                       (''processes '' @ Quote other @ '' and '' @ Quote name @ '' both use port '' @ Itoa port) []]))"

definition restart_findings :: "string \<Rightarrow> Process \<Rightarrow> Finding list" where
  "restart_findings name p =
     (if p_Restart p = ''always'' \<and> p_MaxRestarts p = 0
      then [finding SeverityInfo CodeUncappedAlwaysRestart (''process '' @ Quote name @ '' uses restart: always without max_restarts'') []]
      else [])"

definition dependency_findings :: "Process gomap \<Rightarrow> string \<Rightarrow> Process \<Rightarrow> Finding list" where
  "dependency_findings procs name p =
     concat (map (\<lambda>dep. case gget procs dep of
         None \<Rightarrow> []
       | Some d \<Rightarrow> if p_ReadyWhen d = None \<and> EffectiveMode d \<noteq> ProcessModeTask
           then [finding SeverityInfo CodeDependencyWithoutReadiness
                   (''process '' @ Quote name @ '' depends on '' @ Quote dep @ '', but dependency has no ready_when'') []]
           else []) (p_DependsOn p))"

definition usesTunnel :: "Config \<Rightarrow> bool" where
  "usesTunnel cfg = list_ex (\<lambda>(name, p).
     let cmd = TrimSpace (p_Cmd p)
     in name = ''tunnel'' \<or> HasPrefix name ''tunnel-'' \<or> HasSuffix name ''-tunnel'' \<or>
        cmd = ''tunnel'' \<or> HasPrefix cmd ''tunnel '' \<or> Contains cmd '' tunnel '') (c_Processes cfg)"

definition tool_findings :: "doctor \<Rightarrow> Config \<Rightarrow> Finding list" where
  "tool_findings dk cfg =
     (if c_Merge cfg \<noteq> None \<and> \<not> dr_mergePort dk
      then [finding SeverityWarning CodeMissingMergePort ''merge: section requires merge-port but it is not on PATH'' []] else []) @
     (if usesTunnel cfg \<and> \<not> dr_tunnel dk
      then [finding SeverityWarning CodeMissingTunnel ''a tunnel process is configured but tunnel is not on PATH'' []] else [])"

definition config_findings :: "doctor \<Rightarrow> string \<Rightarrow> Config \<Rightarrow> Finding list \<Rightarrow> Finding list" where
  "config_findings dk configDir cfg fs =
     (let procs = c_Processes cfg; names = SortedProcessNames procs;
          fs1 = fold (check_files dk configDir procs) names fs;
          fs2 = snd (fold (check_port (ServedPorts procs) procs) names ([], fs1))
      in fs2 @ concat (map (\<lambda>name. restart_findings name (proc_at procs name) @ dependency_findings procs name (proc_at procs name)) names)
         @ tool_findings dk cfg)"

definition checkExistingConfig :: "doctor \<Rightarrow> string \<Rightarrow> Finding list \<Rightarrow> Finding list" where
  "checkExistingConfig dk path fs =
     (let fs1 = fs @ precheckEnvFiles dk path;
          fs2 = (case Load (dr_host dk) path of
                   Inl e \<Rightarrow> fs1 @ [\<lparr>fd_Severity = SeverityError, fd_Code = CodeInvalidConfig,
                                    fd_Message = ''config does not parse cleanly'', fd_Detail = DetailLoad e\<rparr>]
                 | Inr _ \<Rightarrow> fs1)
      in case loadConfigShape dk path of
           None \<Rightarrow> fs2
         | Some shape \<Rightarrow>
             config_findings dk (filepath_Dir path) (case Load (dr_host dk) path of Inl _ \<Rightarrow> shape | Inr cfg \<Rightarrow> cfg) fs2)"

definition checkSuggestedConfig :: "doctor \<Rightarrow> string \<Rightarrow> Finding list" where
  "checkSuggestedConfig dk yaml =
     (if TrimSpace yaml = [] then []
      else case parseConfigShape dk yaml of
        None \<Rightarrow> []
      | Some cfg \<Rightarrow>
          if c_Merge cfg = None \<or> dr_mergePort dk then []
          else [finding SeverityWarning CodeMissingMergePort
                 ''the suggested config's merge: section requires merge-port but it is not on PATH'' ''suggested config''])"

section \<open>A diagnosis\<close>

definition config_path :: "doctor \<Rightarrow> string \<Rightarrow> string \<Rightarrow> string \<times> bool" where
  "config_path dk root file =
     (if file \<noteq> [] then let p = resolveConfigPath root file in (p, h_stat (dr_host dk) p)
      else case find (\<lambda>name. h_stat (dr_host dk) (filepath_Join root name)) [''proc-compose.yml'', ''proc-compose.yaml''] of
        Some name \<Rightarrow> (filepath_Join root name, True)
      | None \<Rightarrow> (filepath_Join root ''proc-compose.yml'', False))"

text \<open>Services with the same directory and name, which the source may put in either order, keep theirs.\<close>

definition found_services :: "project \<Rightarrow> string \<Rightarrow> Service list" where
  "found_services pr root = withUniqueServiceNames (sort_key ds_Dir (sort_key ds_Name
     (scanNodeServices pr root @ scanGoServices pr root @ scanPythonServices pr root)))"

definition diagnose_project :: "doctor \<Rightarrow> string \<Rightarrow> string \<Rightarrow> Report" where
  "diagnose_project dk root file =
     (case config_path dk root file of (path, exists) \<Rightarrow>
        let services = found_services (dr_project dk) root;
            none = (if services = [] \<and> \<not> exists
                    then [finding SeverityWarning NoServices ''No services detected and no proc-compose.yml found'' []] else []);
            yaml = (if services \<noteq> [] then renderSuggestedYAML dk services else []);
            fs = (if exists then checkExistingConfig dk path none else none)
        in \<lparr>rp_ConfigPath = path, rp_ConfigExists = exists, rp_Services = services,
             rp_Findings = fs @ checkSuggestedConfig dk yaml, rp_SuggestedYAML = yaml, rp_GeneratedPath = []\<rparr>)"

definition write_suggestion :: "doctor \<Rightarrow> Report \<Rightarrow> Report \<times> string option" where
  "write_suggestion dk rp =
     (if rp_ConfigExists rp then (rp, Some (rp_ConfigPath rp @ '' already exists''))
      else if TrimSpace (rp_SuggestedYAML rp) = [] then (rp, Some ''no services detected; refusing to write empty proc-compose.yml'')
      else case dr_write dk of
          Some e \<Rightarrow> (rp, Some e)
        | None \<Rightarrow> (rp\<lparr>rp_GeneratedPath := rp_ConfigPath rp\<rparr>, None))"

text \<open>The root is absolute and clean; only an unknown working directory is an error without a report.\<close>

definition doctor_Run :: "doctor \<Rightarrow> doctor_options \<Rightarrow> Report option \<times> string option" where
  "doctor_Run dk opts =
     (let root = (if do_Root opts = [] then the_default [] (h_cwd (dr_host dk)) else do_Root opts)
      in if \<not> IsAbs root \<and> h_cwd (dr_host dk) = None then (None, Some ''getwd'')
         else let rp = diagnose_project dk (absDir (dr_host dk) root) (do_ConfigFile opts)
              in if do_Write opts then (case write_suggestion dk rp of (rp', err) \<Rightarrow> (Some rp', err)) else (Some rp, None))"

section \<open>A suggestion loads\<close>

subsection \<open>Every service found has a command and is certain enough\<close>

definition service_ok :: "Service \<Rightarrow> bool" where
  "service_ok s = (ds_Command s \<noteq> [] \<and> ds_Confidence s \<noteq> ConfidenceLow)"

lemma node_service_ok: "s \<in> set (node_service pr root path) \<Longrightarrow> service_ok s"
  by (auto simp: node_service_def Let_def service_ok_def split: if_splits option.splits)

lemma go_service_ok: "s \<in> set (go_service pr root path) \<union> set (addRootGoService pr root) \<Longrightarrow> service_ok s"
  by (auto simp: go_service_def addRootGoService_def Let_def service_ok_def split: if_splits)

lemma scanGoServices_ok: "s \<in> set (scanGoServices pr root) \<Longrightarrow> service_ok s"
  using go_service_ok by (auto simp: scanGoServices_def Let_def split: if_splits)

lemma python_confidence:
  "detectPythonCommand pr path = (command, manifest, port, confidence) \<Longrightarrow> command = [] \<or> confidence \<noteq> ConfidenceLow"
  unfolding detectPythonCommand_def Let_def by (simp split: if_splits) 

lemma python_service_ok: "s \<in> set (python_service pr root path) \<Longrightarrow> service_ok s"
  using python_confidence [of pr path]
  by (cases "detectPythonCommand pr path") (auto simp: python_service_def Let_def service_ok_def split: if_splits)

lemma found_services_ok: "list_all service_ok (found_services pr root)"
proof -
  let ?ss = "sort_key ds_Dir (sort_key ds_Name (scanNodeServices pr root @ scanGoServices pr root @ scanPythonServices pr root))"
  have "service_ok s" if "s \<in> set ?ss" for s
    using that node_service_ok scanGoServices_ok python_service_ok by (auto simp: scanNodeServices_def scanPythonServices_def)
  then show ?thesis
    by (auto simp: found_services_def withUniqueServiceNames_def list_all_iff service_ok_def dest!: set_zip_leftD)
qed

subsection \<open>Names that are unique stay\<close>

lemma alnum_no_space:
  assumes "s \<noteq> []" and "is_alnum (hd s)" and "is_alnum (List.last s)"
  shows "TrimSpace s = s"
proof (rule TrimSpace_id)
  have runes: "list_all (\<lambda>p. p \<noteq> [] \<and> \<not> is_alnum (hd p) \<and> \<not> is_alnum (List.last p)) space_runes" by code_simp
  show "\<not> starts_with_space s"
  proof
    assume "starts_with_space s"
    then obtain p r where "p \<in> set space_runes" "s = p @ r" by (auto simp: starts_with_space_def HasPrefix_iff)
    with runes assms(2) show False by (auto simp: list_all_iff)
  qed
  show "\<not> ends_with_space s"
  proof
    assume "ends_with_space s"
    then obtain p r where "p \<in> set space_runes" "s = r @ p"
      by (auto simp: ends_with_space_def HasSuffix_def HasPrefix_iff) (metis rev_append rev_rev_ident)
    with runes assms(3) show False by (auto simp: list_all_iff)
  qed
qed

lemma sanitize_fixed: "safeProcessNameRe n \<Longrightarrow> sanitizeProcessName n = n"
  using alnum_no_space [of n] sanitize_id [of n] by (auto simp: safeProcessNameRe_def name_matches_def)

lemma unique_names_kept:
  "distinct (map ds_Name ss) \<Longrightarrow> list_all (\<lambda>s. safeProcessNameRe (ds_Name s) \<and> uses used (ds_Name s) = 0) ss \<Longrightarrow>
     unique_names used ss = map ds_Name ss"
proof (induction ss arbitrary: used)
  case (Cons s ss)
  have u: "unique_name s used = (ds_Name s, gput (ds_Name s) 1 used)"
    using Cons.prems by (simp add: unique_name_def sanitize_fixed Let_def)
  have "list_all (\<lambda>x. safeProcessNameRe (ds_Name x) \<and> uses (gput (ds_Name s) 1 used) (ds_Name x) = 0) ss"
    using Cons.prems by (auto simp: list_all_iff simp del: set_map) (metis image_eqI list.set_map)
  with Cons.IH Cons.prems u show ?case by simp
qed simp

lemma withUnique_names: "map ds_Name (withUniqueServiceNames ss) = uniqueProcessNames ss"
  using uniqueProcessNames_ok(3) [of ss]
  by (simp add: withUniqueServiceNames_def case_prod_unfold comp_def)

lemma found_names:
  "uniqueProcessNames (found_services pr root) = map ds_Name (found_services pr root)"
  unfolding uniqueProcessNames_def
proof (rule unique_names_kept)
  let ?ss = "sort_key ds_Dir (sort_key ds_Name (scanNodeServices pr root @ scanGoServices pr root @ scanPythonServices pr root))"
  have m: "map ds_Name (found_services pr root) = uniqueProcessNames ?ss" by (simp add: found_services_def withUnique_names)
  then show "distinct (map ds_Name (found_services pr root))" using uniqueProcessNames_ok(1) by simp
  have "list_all safeProcessNameRe (map ds_Name (found_services pr root))" using m uniqueProcessNames_ok(2) by simp
  then show "list_all (\<lambda>s. safeProcessNameRe (ds_Name s) \<and> uses [] (ds_Name s) = 0) (found_services pr root)"
    by (simp add: list_all_iff)
qed

subsection \<open>Validation\<close>

lemma fold_gput_zip:
  "distinct names \<Longrightarrow> length names = length ss \<Longrightarrow> set names \<inter> set (gokeys m) = {} \<Longrightarrow>
     fold (\<lambda>(name, s). gput name (f s)) (zip names ss) m = m @ zip names (map f ss)"
proof (induction names ss arbitrary: m rule: list_induct2')
  case (4 n names s ss)
  have "gput n (f s) m = m @ [(n, f s)]"
    using 4(4) by (induction m) auto
  moreover have "fold (\<lambda>(name, s). gput name (f s)) (zip names ss) (m @ [(n, f s)]) = (m @ [(n, f s)]) @ zip names (map f ss)"
    by (rule 4(1)) (use 4(2-4) in auto)
  ultimately show ?case by simp
qed auto

lemma validateProcess_plain:
  "p_EnvFile p = [] \<Longrightarrow> processErrors rok name (defaultRestart p) = None \<Longrightarrow> validateProcess rok envs name p = Inr (defaultRestart p)"
  by (simp add: validateProcess_def defaultRestart_def)

definition plain_process :: "Process \<Rightarrow> bool" where
  "plain_process p = (p_EnvFile p = [] \<and> p_Ports p = [] \<and> p_DependsOn p = [])"

definition plain_procs :: "(string \<Rightarrow> bool) \<Rightarrow> Process gomap \<Rightarrow> bool" where
  "plain_procs rok procs =
     (gomap_ok procs \<and> list_all (\<lambda>(name, p). plain_process p \<and> processErrors rok name (defaultRestart p) = None) procs)"

lemma plain_at: "plain_procs rok procs \<Longrightarrow> gget procs n = Some p \<Longrightarrow> plain_process p \<and> processErrors rok n (defaultRestart p) = None"
  by (auto simp: plain_procs_def list_all_iff dest!: map_of_SomeD)

lemma defaultRestart_idem [simp]: "defaultRestart (defaultRestart p) = defaultRestart p"
  by (simp add: defaultRestart_def)

lemma plain_procsI:
  "gomap_ok procs \<Longrightarrow> (\<And>n p. gget procs n = Some p \<Longrightarrow> plain_process p \<and> processErrors rok n (defaultRestart p) = None) \<Longrightarrow> plain_procs rok procs"
  unfolding plain_procs_def list_all_iff gomap_ok_def by fastforce

lemma plain_defaultRestart: "plain_process (defaultRestart p) = plain_process p"
  by (simp add: plain_process_def defaultRestart_def)

lemma plain_put:
  assumes "plain_procs rok procs" and "gget procs n = Some p"
  shows "plain_procs rok (gput n (defaultRestart p) procs)"
proof (rule plain_procsI)
  show "gomap_ok (gput n (defaultRestart p) procs)" using assms(1) by (simp add: plain_procs_def)
  show "plain_process q \<and> processErrors rok m (defaultRestart q) = None" if "gget (gput n (defaultRestart p) procs) m = Some q" for m q
    using that plain_at [OF assms(1)] assms(2) by (auto simp: plain_defaultRestart split: if_splits)
qed

lemma validate_loop_plain:
  "plain_procs rok procs \<Longrightarrow> set names \<subseteq> set (gokeys procs) \<Longrightarrow>
     \<exists>out. validate_loop rok envs names procs = Inr out \<and> plain_procs rok out \<and> set (gokeys out) = set (gokeys procs)"
proof (induction names arbitrary: procs)
  case (Cons n names)
  obtain p where p: "gget procs n = Some p" using Cons.prems(2) by (auto simp: map_of_eq_None_iff dest: weak_map_of_SomeI)
  have v: "validateProcess rok envs n (proc_at procs n) = Inr (defaultRestart p)"
    using plain_at [OF Cons.prems(1) p] p by (simp add: proc_at_def plain_process_def validateProcess_plain)
  have keys: "set (gokeys (gput n (defaultRestart p) procs)) = set (gokeys procs)"
    using gget_in_keys [OF p] gokeys_gput [of n "defaultRestart p" procs] by auto
  from Cons.IH [OF plain_put [OF Cons.prems(1) p]] Cons.prems(2) show ?case by (simp add: v keys del: set_map)
qed auto

lemma no_dependencies:
  assumes "plain_procs rok procs"
  shows "deps_of procs n = []" and "p_Ports (proc_at procs n) = []"
  using plain_at [OF assms, of n] by (auto simp: deps_of_def proc_at_def zero_Process_def plain_process_def split: option.splits)

lemma plain_checks:
  assumes "plain_procs rok procs"
  shows "first_some [checkReferenceCollisions procs, checkDependencies procs, detectCycles procs] = None"
proof -
  have "endpoints procs = []" by (simp add: endpoints_def no_dependencies [OF assms] SortedProcessNames_def)
  then have "checkReferenceCollisions procs = None" by (simp add: checkReferenceCollisions_def)
  moreover have "checkDependencies procs = None"
    by (simp add: checkDependencies_def no_dependencies [OF assms] enumerate_eq_zip first_some_None)
  moreover have "depends procs = {}" by (simp add: depends_def no_dependencies [OF assms])
  then have "detectCycles procs = None" using detectCycles_None_acyclic [of procs] by (simp add: acyclic_def)
  ultimately show ?thesis by simp
qed

lemma normalizeDir_restart: "\<exists>dir. defaultRestart (normalizeDir d p) = (defaultRestart p)\<lparr>p_Dir := dir\<rparr>"
proof -
  have "defaultRestart (p\<lparr>p_Dir := e\<rparr>) = (defaultRestart p)\<lparr>p_Dir := e\<rparr>" for e by (simp add: defaultRestart_def)
  moreover have "normalizeDir d p = p\<lparr>p_Dir := p_Dir (normalizeDir d p)\<rparr>" by (simp add: normalizeDir_def)
  ultimately show ?thesis by metis
qed

lemma process_ok_Dir: "process_ok rok n (p\<lparr>p_Dir := dir\<rparr>) = process_ok rok n p"
  by (cases "p_HealthWhen p") (simp_all add: process_ok_def runs_once_def run_once_ok_def health_ok_def foreign_ok_def EffectiveMode_def)

lemma plain_normalize:
  assumes "plain_procs rok procs"
  shows "plain_procs rok (normalizeProcessDirs procs d)"
proof (rule plain_procsI)
  show "gomap_ok (normalizeProcessDirs procs d)" using assms by (simp add: plain_procs_def)
next
  fix n q
  assume "gget (normalizeProcessDirs procs d) n = Some q"
  then obtain p where p: "gget procs n = Some p" and q: "q = normalizeDir d p" by (auto simp: gget_normalizeProcessDirs)
  have "process_ok rok n (defaultRestart p)" and plain: "plain_process p"
    using plain_at [OF assms p] by (simp_all add: processErrors_None)
  moreover have "\<exists>dir. defaultRestart q = (defaultRestart p)\<lparr>p_Dir := dir\<rparr>"
    using normalizeDir_restart [of d p] by (simp add: q)
  ultimately have "process_ok rok n (defaultRestart q)"
    using process_ok_Dir by metis
  then show "plain_process q \<and> processErrors rok n (defaultRestart q) = None"
    using plain unfolding q by (simp add: processErrors_None plain_process_def)
qed

lemma plain_loads:
  assumes "plain_procs (h_regexp_ok h) (c_Processes cfg)" and "c_Processes cfg \<noteq> []" and "c_Merge cfg = None" and "c_Resources cfg = []"
  shows "\<exists>out. loadDecoded h path cfg = Inr out \<and> set (gokeys (c_Processes out)) = set (gokeys (c_Processes cfg)) \<and>
    (\<forall>n p. gget (c_Processes cfg) n = Some p \<longrightarrow>
       (\<exists>q env. gget (c_Processes out) n = Some q \<and> q = (defaultRestart (normalizeDir (absDir h (filepath_Dir path)) p))\<lparr>p_Env := env\<rparr>))"
proof -
  let ?d = "absDir h (filepath_Dir path)"
  let ?p0 = "normalizeProcessDirs (c_Processes cfg) ?d"
  note p0 = plain_normalize [OF assms(1), of ?d]
  obtain out where v: "validate_loop (h_regexp_ok h) (readEnvFiles h ?p0 ?d) (SortedProcessNames ?p0) ?p0 = Inr out"
    and out: "plain_procs (h_regexp_ok h) out" and keys: "set (gokeys out) = set (gokeys ?p0)"
    using validate_loop_plain [OF p0, of "SortedProcessNames ?p0" "readEnvFiles h ?p0 ?d", unfolded SortedProcessNames_set, OF order_refl]
    by blast
  have "loadDecoded h path cfg = Inr \<lparr>c_Merge = None, c_Processes = out, c_Resources = []\<rparr>"
    using assms(2-4) by (simp add: loadDecoded_def v plain_checks [OF out])
  moreover have "\<exists>q env. gget out n = Some q \<and> q = (defaultRestart (normalizeDir ?d p))\<lparr>p_Env := env\<rparr>"
    if "gget (c_Processes cfg) n = Some p" for n p
  proof -
    have "gget ?p0 n = Some (normalizeDir ?d p)" "gomap_ok ?p0" using that p0 by (simp_all add: gget_normalizeProcessDirs plain_procs_def)
    from validate_all_get(2) [OF v this(2,1)] validateProcess_shape show ?thesis by blast
  qed
  ultimately show ?thesis using keys by simp
qed

lemma suggested_ok:
  assumes "ds_Command s \<noteq> []" and "safeProcessNameRe name"
  shows "plain_process (suggested_process s) \<and> processErrors rok name (defaultRestart (suggested_process s)) = None"
proof -
  have "process_ok rok name (defaultRestart (suggested_process s))"
    using assms by (simp add: process_ok_def suggested_process_def defaultRestart_def zero_Process_def runs_once_def ports_ok_def
        EffectiveMode_def tcp_probe_def one_kind_def health_ok_def foreign_ok_def processNameRe_def safeProcessNameRe_def)
  then show ?thesis by (simp add: processErrors_None plain_process_def suggested_process_def zero_Process_def)
qed

lemma suggested_processes:
  assumes "list_all service_ok ss" and "suggested_config lower ss = Some cfg"
  shows "c_Processes cfg = zip (uniqueProcessNames ss) (map suggested_process ss) \<and> c_Resources cfg = [] \<and> ss \<noteq> [] \<and>
    c_Merge cfg = suggested_merge lower ss"
proof -
  have f: "filter (\<lambda>s. ds_Confidence s \<noteq> ConfidenceLow) ss = ss"
    using assms(1) by (simp add: filter_id_conv list_all_iff service_ok_def)
  show ?thesis
    using assms(2) fold_gput_zip [of "uniqueProcessNames ss" ss "[]" suggested_process] uniqueProcessNames_ok [of ss]
    by (auto simp: suggested_config_def f Let_def split: if_splits)
qed

lemma suggested_plain:
  assumes "list_all service_ok ss"
  shows "plain_procs rok (zip (uniqueProcessNames ss) (map suggested_process ss))"
  unfolding plain_procs_def list_all_iff gomap_ok_def
proof (intro conjI ballI)
  show "distinct (gokeys (zip (uniqueProcessNames ss) (map suggested_process ss)))"
    using uniqueProcessNames_ok(1,3) [of ss] by simp
next
  fix x
  assume "x \<in> set (zip (uniqueProcessNames ss) (map suggested_process ss))"
  then obtain n s where x: "x = (n, suggested_process s)" and "n \<in> set (uniqueProcessNames ss)" "s \<in> set ss"
    by (auto simp: zip_map2 dest: set_zip_leftD set_zip_rightD)
  then have "safeProcessNameRe n" "ds_Command s \<noteq> []"
    using uniqueProcessNames_ok(2) [of ss] assms by (auto simp: list_all_iff service_ok_def)
  with suggested_ok x show "case x of (name, p) \<Rightarrow> plain_process p \<and> processErrors rok name (defaultRestart p) = None" by simp
qed

lemma diagnose_services: "rp_Services (diagnose_project dk root cf) = found_services (dr_project dk) root"
  by (cases "config_path dk root cf") (simp add: diagnose_project_def Let_def)

lemma write_services: "write_suggestion dk rp = (rp', err) \<Longrightarrow> rp_Services rp' = rp_Services rp"
  by (auto simp: write_suggestion_def split: if_splits option.splits)

lemma Run_services:
  assumes "doctor_Run dk opts = (Some rp, err)"
  shows "\<exists>root. rp_Services rp = found_services (dr_project dk) root"
proof -
  obtain root cf where "rp = diagnose_project dk root cf \<or> (\<exists>e. write_suggestion dk (diagnose_project dk root cf) = (rp, e))"
    using assms unfolding doctor_Run_def Let_def by (auto simp del: split_paired_All split: if_splits prod.splits)
  then show ?thesis using write_services diagnose_services by metis
qed

text \<open>What the process of a service is: its command and directory, and when it has a port, that port in its environment and its probe.\<close>

definition runs_service :: "Service \<Rightarrow> Process \<Rightarrow> bool" where
  "runs_service s p =
     (p_Cmd p = ds_Command s \<and> p_Dir p = (if ds_Dir s = ''.'' then [] else ds_Dir s) \<and> p_DependsOn p = [] \<and>
      (if ds_Port s > 0
       then p_Env p = [(''PORT'', Itoa (ds_Port s))] \<and> (\<exists>rw. p_ReadyWhen p = Some rw \<and> rw_TCP rw = ''localhost:'' @ Itoa (ds_Port s))
       else p_Env p = [] \<and> p_ReadyWhen p = None))"

lemma suggested_process_runs: "runs_service s (suggested_process s)"
  by (simp add: runs_service_def suggested_process_def zero_Process_def tcp_probe_def)

definition joins :: "(string \<Rightarrow> string) \<Rightarrow> Service list \<Rightarrow> Merge \<Rightarrow> bool" where
  "joins lower ss m =
     (\<exists>front \<in> set ss. \<exists>back \<in> set ss. isFrontend lower front \<and> isBackend lower back \<and> m_Client m = ds_Port front \<and>
        m_Server m = ds_Port back \<and> ds_Port front \<noteq> ds_Port back \<and> ds_Port front > 0 \<and> ds_Port back > 0)"

lemma filter_single: "filter P xs = [x] \<Longrightarrow> x \<in> set xs \<and> P x"
  by (metis filter_eq_Cons_iff in_set_conv_decomp)

lemma suggested_merge_joins: "suggested_merge lower ss = Some m \<Longrightarrow> joins lower ss m"
  unfolding suggested_merge_def joins_def
  by (auto split: list.splits if_splits dest!: filter_single) metis

text \<open>
  C32. What the doctor suggests runs what it reports: whatever the project holds, the processes of the suggested
  configuration are the reported services, in order, each under the name the report shows and no two under one name,
  with the command, the directory, the port and the probe of its own service. A merge section joins a frontend and a
  backend among them that listen on different ports; and without one Load accepts the configuration, with all of its processes and commands.
\<close>

theorem suggested_config_loads:
  assumes "doctor_Run dk opts = (Some rp, err)" and "suggested_config (pr_lower (dr_project dk)) (rp_Services rp) = Some cfg"
  shows "list_all2 (\<lambda>s (name, p). name = ds_Name s \<and> runs_service s p) (rp_Services rp) (c_Processes cfg) \<and>
    distinct (map ds_Name (rp_Services rp)) \<and>
    (case c_Merge cfg of
       Some m \<Rightarrow> joins (pr_lower (dr_project dk)) (rp_Services rp) m
     | None \<Rightarrow> \<exists>out. loadDecoded h path cfg = Inr out \<and> set (gokeys (c_Processes out)) = set (map ds_Name (rp_Services rp)) \<and>
         (\<forall>s \<in> set (rp_Services rp). \<exists>q. gget (c_Processes out) (ds_Name s) = Some q \<and> p_Cmd q = ds_Command s))"
proof -
  let ?ss = "rp_Services rp"
  obtain root where ss: "?ss = found_services (dr_project dk) root" using Run_services [OF assms(1)] by blast
  then have ok: "list_all service_ok ?ss" and names: "uniqueProcessNames ?ss = map ds_Name ?ss"
    using found_services_ok found_names by simp_all
  have c: "c_Processes cfg = zip (map ds_Name ?ss) (map suggested_process ?ss)" "c_Resources cfg = []" "?ss \<noteq> []"
      "c_Merge cfg = suggested_merge (pr_lower (dr_project dk)) ?ss"
    using suggested_processes [OF ok assms(2)] unfolding names by blast+
  have keys: "gokeys (c_Processes cfg) = map ds_Name ?ss" unfolding c(1) by simp
  have d: "distinct (map ds_Name ?ss)" using uniqueProcessNames_ok(1) [of ?ss] unfolding names .
  have at: "gget (c_Processes cfg) (ds_Name s) = Some (suggested_process s)" if "s \<in> set ?ss" for s
    using that d unfolding c(1) zip_map_map zip_same_conv_map
    by (intro map_of_is_SomeI) (auto simp: comp_def)
  have plain: "plain_procs (h_regexp_ok h) (c_Processes cfg)" using suggested_plain [OF ok] unfolding names c(1) .
  have "list_all2 (\<lambda>s (name, p). name = ds_Name s \<and> runs_service s p) ?ss (c_Processes cfg)"
    unfolding c(1) by (simp add: list_all2_conv_all_nth suggested_process_runs)
  moreover have "\<exists>out. loadDecoded h path cfg = Inr out \<and> set (gokeys (c_Processes out)) = set (map ds_Name ?ss) \<and>
      (\<forall>s \<in> set ?ss. \<exists>q. gget (c_Processes out) (ds_Name s) = Some q \<and> p_Cmd q = ds_Command s)" if "c_Merge cfg = None"
  proof -
    have "c_Processes cfg \<noteq> []" using c(1,3) by simp
    from plain_loads [OF plain this that c(2), of path] obtain out where
      o: "loadDecoded h path cfg = Inr out" "set (gokeys (c_Processes out)) = set (gokeys (c_Processes cfg))"
      and p: "\<And>n p. gget (c_Processes cfg) n = Some p \<Longrightarrow> \<exists>q env. gget (c_Processes out) n = Some q \<and>
          q = (defaultRestart (normalizeDir (absDir h (filepath_Dir path)) p))\<lparr>p_Env := env\<rparr>" by blast
    have "\<exists>q. gget (c_Processes out) (ds_Name s) = Some q \<and> p_Cmd q = ds_Command s" if "s \<in> set ?ss" for s
      using p [OF at [OF that]] by (auto simp: defaultRestart_def normalizeDir_def suggested_process_def)
    then show ?thesis using o unfolding keys by blast
  qed
  moreover have "joins (pr_lower (dr_project dk)) ?ss m" if "c_Merge cfg = Some m" for m
    using suggested_merge_joins that c(4) by metis
  ultimately show ?thesis using d by (cases "c_Merge cfg") simp_all
qed

text \<open>A project with a Node package at its root.\<close>

definition example_package :: packageJSON where
  "example_package = \<lparr>pk_Scripts = [(''dev'', ''vite'')], pk_Dependencies = [], pk_DevDeps = [], pk_PackageManager = [], pk_Workspaces = []\<rparr>"

definition example_host :: "string \<Rightarrow> string \<Rightarrow> host" where
  "example_host name env = \<lparr>h_read = (\<lambda>p. if p = ''/w/'' @ name @ ''/package.json'' then Some ''{}''
       else if p = ''/w/'' @ name @ ''/.env'' then Some env else None),
     h_stat = (\<lambda>p. p = ''/w/'' @ name @ ''/package.json''), h_cwd = Some ''/w'', h_PORT = [], h_yaml = (\<lambda>_. Inl []),
     h_tree = (\<lambda>_. FDir name []), h_submatch = (\<lambda>_ _. None), h_url = (\<lambda>_. None), h_regexp_ok = (\<lambda>_. True)\<rparr>"

definition example_doctor :: "string \<Rightarrow> string \<Rightarrow> doctor" where
  "example_doctor name env = \<lparr>dr_project = \<lparr>pr_host = example_host name env, pr_entries = (\<lambda>_. []), pr_package = (\<lambda>_. Some example_package),
       pr_lower = map lower_char\<rparr>, dr_encode = (\<lambda>_. Some ''processes:''), dr_envFiles = (\<lambda>_. None), dr_mergePort = False,
     dr_tunnel = False, dr_write = None\<rparr>"

definition example_report :: "string \<Rightarrow> string \<Rightarrow> Report option" where
  "example_report name env = fst (doctor_Run (example_doctor name env) \<lparr>do_Root = ''/w/'' @ name, do_ConfigFile = [], do_Write = False\<rparr>)"

lemma example_services:
  "map_option rp_Services (example_report ''shop'' ''PORT=3000'') =
     Some [\<lparr>ds_Name = ''shop'', ds_Command = ''npm run dev'', ds_Dir = ''.'', ds_Port = 3000, ds_Kind = ''node'', ds_Confidence = ConfidenceHigh,
             ds_Manifest = ''package.json''\<rparr>]"
  by code_simp

lemma example_suggestion:
  "map_option c_Merge (Option.bind (map_option rp_Services (example_report ''shop'' ''PORT=3000'')) (suggested_config (map lower_char))) = Some None"
  by code_simp

lemma suggested_config_loads_witness:
  "\<exists>cfg. suggested_config (map lower_char) (rp_Services (the (example_report ''shop'' ''PORT=3000''))) = Some cfg \<and>
     (\<exists>p. c_Processes cfg = [(''shop'', p)] \<and> p_Cmd p = ''npm run dev'' \<and> p_Env p = [(''PORT'', ''3000'')]) \<and>
     (\<exists>out. loadDecoded (example_host ''shop'' []) ''/w/shop/proc-compose.yml'' cfg = Inr out)"
proof -
  let ?rp = "the (example_report ''shop'' ''PORT=3000'')"
  obtain rp where r: "example_report ''shop'' ''PORT=3000'' = Some rp" using example_services by (cases "example_report ''shop'' ''PORT=3000''") auto
  obtain cfg where c: "suggested_config (map lower_char) (rp_Services rp) = Some cfg" and m: "c_Merge cfg = None"
    using example_suggestion r by (auto simp del: map_option_eq_Some simp: map_option_case bind_eq_Some_conv split: option.splits)
  obtain err where run: "doctor_Run (example_doctor ''shop'' ''PORT=3000'') \<lparr>do_Root = ''/w/'' @ ''shop'', do_ConfigFile = [], do_Write = False\<rparr> = (Some rp, err)"
    using r unfolding example_report_def by (metis prod.collapse)
  have l: "pr_lower (dr_project (example_doctor ''shop'' ''PORT=3000'')) = map lower_char" by (simp add: example_doctor_def)
  have port: "Itoa 3000 = ''3000''" by code_simp
  have ss: "rp_Services rp = [\<lparr>ds_Name = ''shop'', ds_Command = ''npm run dev'', ds_Dir = ''.'', ds_Port = 3000, ds_Kind = ''node'',
      ds_Confidence = ConfidenceHigh, ds_Manifest = ''package.json''\<rparr>]" using example_services r by simp
  note found = suggested_config_loads [OF run, unfolded l, OF c, of "example_host ''shop'' []" "''/w/shop/proc-compose.yml''"]
  have "\<exists>p. c_Processes cfg = [(''shop'', p)] \<and> p_Cmd p = ''npm run dev'' \<and> p_Env p = [(''PORT'', ''3000'')]"
    using conjunct1 [OF found] unfolding ss
    by (cases "c_Processes cfg") (auto simp: runs_service_def port)
  moreover have "\<exists>out. loadDecoded (example_host ''shop'' []) ''/w/shop/proc-compose.yml'' cfg = Inr out" using found m by auto
  ultimately show ?thesis using c r by auto
qed

subsection \<open>Suggestions that do not load\<close>

text \<open>A port of a script or a \<^verbatim>\<open>.env\<close> file is taken whatever its size, and a directory may be called as the proxy is.\<close>

definition a_service :: "string \<Rightarrow> int \<Rightarrow> Service" where
  "a_service name port = \<lparr>ds_Name = name, ds_Command = ''npm run dev'', ds_Dir = ''./'' @ name, ds_Port = port, ds_Kind = ''node'',
     ds_Confidence = ConfidenceHigh, ds_Manifest = ''package.json''\<rparr>"

definition load_suggestion :: "Service list \<Rightarrow> diag_code option" where
  "load_suggestion ss = (case suggested_config (map lower_char) ss of
     None \<Rightarrow> None
   | Some cfg \<Rightarrow> (case loadDecoded (example_host ''shop'' []) ''/w/shop/proc-compose.yml'' cfg of Inl e \<Rightarrow> Some (Code e) | Inr _ \<Rightarrow> None))"

lemma big_port_is_found: "detectPortArg ''vite --port 70000'' = 70000"
  by code_simp

lemma big_port_is_refused: "load_suggestion [a_service ''api'' 8080, a_service ''web'' 70000] = Some CodeInvalidMerge"
  by code_simp

lemma reserved_name_is_refused:
  "load_suggestion [a_service ''api'' 8080, a_service ''merge-port'' 0, a_service ''web'' 3000] = Some CodeReservedProcessName"
  by code_simp

lemma small_ports_load: "load_suggestion [a_service ''api'' 8080, a_service ''web'' 3000] = None"
  by code_simp

text \<open>A root named like a build directory is scanned for Node services and not for Python ones.\<close>

lemma python_root_skipped:
  "walk_dirs shouldSkipProjectDir ''/w/build'' (FDir ''build'' []) = []"
  "walk_dirs (\<lambda>path name. path \<noteq> ''/w/build'' \<and> shouldSkipProjectDir path name) ''/w/build'' (FDir ''build'' []) = [''/w/build'']"
  by code_simp+

section \<open>A configuration without errors\<close>

definition no_errors :: "Finding list \<Rightarrow> bool" where
  "no_errors fs = list_all (\<lambda>f. fd_Severity f \<noteq> SeverityError) fs"

lemma no_errors_simps [simp]:
  "no_errors []" "no_errors (f # fs) = (fd_Severity f \<noteq> SeverityError \<and> no_errors fs)"
  "no_errors (xs @ ys) = (no_errors xs \<and> no_errors ys)"
  by (simp_all add: no_errors_def)

lemma no_errors_concat: "no_errors (concat (map f xs)) = list_all (\<lambda>x. no_errors (f x)) xs"
  by (induction xs) simp_all

text \<open>What a process needs to be there: its directory, and its env file.\<close>

definition files_exist :: "doctor \<Rightarrow> string \<Rightarrow> Process \<Rightarrow> bool" where
  "files_exist dk configDir p =
     (let exists = (\<lambda>f. h_stat (dr_host dk) (resolveConfigPath configDir f))
      in (p_Dir p = [] \<or> HasRuntimeTemplate (p_Dir p) \<or> exists (p_Dir p)) \<and> (p_EnvFile p = [] \<or> exists (p_EnvFile p)))"

definition env_errors_ok :: "Finding list \<Rightarrow> bool" where
  "env_errors_ok fs = list_all (\<lambda>f. fd_Code f = CodeMissingEnvFile \<longrightarrow> fd_Severity f = SeverityError) fs"

lemma env_errors_concat: "env_errors_ok (concat (map f xs)) = list_all (\<lambda>x. env_errors_ok (f x)) xs"
  by (induction xs) (simp_all add: env_errors_ok_def)

lemma check_files_errors:
  assumes "env_errors_ok fs"
  shows "no_errors (check_files dk d procs name fs) \<longleftrightarrow> no_errors fs \<and> files_exist dk d (proc_at procs name)"
    and "env_errors_ok (check_files dk d procs name fs)"
proof -
  let ?p = "proc_at procs name"
  let ?fs1 = "if p_Dir ?p \<noteq> [] \<and> \<not> HasRuntimeTemplate (p_Dir ?p) \<and> \<not> h_stat (dr_host dk) (resolveConfigPath d (p_Dir ?p))
     then fs @ [finding SeverityError CodeMissingDir (''process '' @ Quote name @ '' dir does not exist'') (p_Dir ?p)] else fs"
  have e: "env_errors_ok ?fs1" using assms by (simp add: env_errors_ok_def finding_def)
  have reported: "\<not> no_errors ?fs1" if "hasFindingWithDetail ?fs1 CodeMissingEnvFile (p_EnvFile ?p)"
    using that e unfolding hasFindingWithDetail_def env_errors_ok_def no_errors_def list_ex_iff list_all_iff by blast
  have c: "check_files dk d procs name fs =
      (if p_EnvFile ?p \<noteq> [] \<and> \<not> h_stat (dr_host dk) (resolveConfigPath d (p_EnvFile ?p)) \<and>
          \<not> hasFindingWithDetail ?fs1 CodeMissingEnvFile (p_EnvFile ?p)
       then ?fs1 @ [missing_env_file name (p_EnvFile ?p)] else ?fs1)"
    by (simp add: check_files_def Let_def)
  have n: "no_errors ?fs1 \<longleftrightarrow> no_errors fs \<and>
      (p_Dir ?p = [] \<or> HasRuntimeTemplate (p_Dir ?p) \<or> h_stat (dr_host dk) (resolveConfigPath d (p_Dir ?p)))"
    by (simp add: finding_def)
  have m: "fd_Severity (missing_env_file name (p_EnvFile ?p)) = SeverityError" by (simp add: missing_env_file_def finding_def)
  show "no_errors (check_files dk d procs name fs) \<longleftrightarrow> no_errors fs \<and> files_exist dk d ?p"
    using reported unfolding c files_exist_def Let_def by (cases "hasFindingWithDetail ?fs1 CodeMissingEnvFile (p_EnvFile ?p)") (use n m in auto)
  show "env_errors_ok (check_files dk d procs name fs)" using e m unfolding c env_errors_ok_def by simp
qed

lemma fold_check_files:
  "env_errors_ok fs \<Longrightarrow>
     (no_errors (fold (check_files dk d procs) names fs) \<longleftrightarrow> no_errors fs \<and> list_all (\<lambda>n. files_exist dk d (proc_at procs n)) names)"
proof (induction names arbitrary: fs)
  case (Cons n names)
  show ?case using Cons.IH [OF check_files_errors(2) [OF Cons.prems]] check_files_errors(1) [OF Cons.prems] by simp
qed simp

lemma check_port_errors: "no_errors (snd (check_port served procs name s)) = no_errors (snd s)"
  by (cases s) (simp add: check_port_def Let_def finding_def split: prod.splits option.splits)

lemma fold_check_port_errors: "no_errors (snd (fold (check_port served procs) names s)) = no_errors (snd s)"
  by (induction names arbitrary: s) (simp_all add: check_port_errors)

lemma other_findings_warn:
  "no_errors (concat (map (\<lambda>name. restart_findings name (p name) @ dependency_findings procs name (p name)) names))" "no_errors (tool_findings dk cfg)"
proof -
  show "no_errors (concat (map (\<lambda>name. restart_findings name (p name) @ dependency_findings procs name (p name)) names))"
    by (auto simp: no_errors_concat restart_findings_def dependency_findings_def finding_def list_all_iff split: option.splits)
  show "no_errors (tool_findings dk cfg)" by (simp add: tool_findings_def finding_def)
qed

lemma config_findings_errors:
  assumes "env_errors_ok fs"
  shows "no_errors (config_findings dk d cfg fs) \<longleftrightarrow>
    no_errors fs \<and> list_all (\<lambda>(name, p). files_exist dk d (proc_at (c_Processes cfg) name)) (c_Processes cfg)"
proof -
  have "list_all (\<lambda>n. P n) (SortedProcessNames (c_Processes cfg)) = list_all (\<lambda>(n, p). P n) (c_Processes cfg)" for P
    by (auto simp: list_all_iff)
  then show ?thesis
    by (simp add: config_findings_def Let_def fold_check_port_errors other_findings_warn fold_check_files [OF assms])
qed

definition env_files_exist :: "doctor \<Rightarrow> string \<Rightarrow> bool" where
  "env_files_exist dk path =
     (case Option.bind (h_read (dr_host dk) path) (dr_envFiles dk) of
        None \<Rightarrow> True
      | Some files_of \<Rightarrow> list_all (\<lambda>name. let f = the_default [] (gget files_of name)
          in f = [] \<or> h_stat (dr_host dk) (resolveConfigPath (filepath_Dir path) f)) (gokeys files_of))"

lemma precheck_errors:
  "no_errors (precheckEnvFiles dk path) = env_files_exist dk path" "env_errors_ok (precheckEnvFiles dk path)"
proof -
  show "no_errors (precheckEnvFiles dk path) = env_files_exist dk path"
    by (auto simp: precheckEnvFiles_def env_files_exist_def Let_def no_errors_concat list_all_iff missing_env_file_def finding_def
        simp del: set_map split: option.splits if_splits)
  show "env_errors_ok (precheckEnvFiles dk path)"
    by (auto simp: precheckEnvFiles_def Let_def env_errors_concat list_all_iff missing_env_file_def finding_def split: option.splits)
      (auto simp: env_errors_ok_def)
qed

text \<open>
  C33. The doctor reports no error exactly when nothing is wrong: Load accepts the configuration, and every directory and
  env file that it names exists.
\<close>

theorem clean_bill_exact:
  "list_all (\<lambda>f. fd_Severity f \<noteq> SeverityError) (checkExistingConfig dk path []) \<longleftrightarrow>
     env_files_exist dk path \<and> (\<exists>cfg. Load (dr_host dk) path = Inr cfg \<and>
       list_all (\<lambda>(name, p). files_exist dk (filepath_Dir path) (proc_at (c_Processes cfg) name)) (c_Processes cfg))"
proof (cases "Load (dr_host dk) path")
  case (Inl e)
  let ?fs = "precheckEnvFiles dk path @ [\<lparr>fd_Severity = SeverityError, fd_Code = CodeInvalidConfig,
     fd_Message = ''config does not parse cleanly'', fd_Detail = DetailLoad e\<rparr>]"
  have "env_errors_ok ?fs" using precheck_errors(2) [of dk path] by (simp add: env_errors_ok_def)
  then have "\<not> no_errors (checkExistingConfig dk path [])"
    by (simp add: checkExistingConfig_def Let_def Inl config_findings_errors split: option.splits)
  then show ?thesis by (simp add: Inl no_errors_def)
next
  case (Inr cfg)
  obtain shape where "loadConfigShape dk path = Some shape"
    using Inr by (auto simp: Load_def loadConfigShape_def parseConfigShape_def split: option.splits sum.splits)
  then have "no_errors (checkExistingConfig dk path []) \<longleftrightarrow> env_files_exist dk path \<and>
      list_all (\<lambda>(name, p). files_exist dk (filepath_Dir path) (proc_at (c_Processes cfg) name)) (c_Processes cfg)"
    by (simp add: checkExistingConfig_def Let_def Inr config_findings_errors [OF precheck_errors(2)] precheck_errors(1))
  then show ?thesis by (simp add: Inr no_errors_def)
qed

end
