(* ===== verification/Spec2Isabelle.thy ===== *)
theory Spec2Isabelle
  imports Config_Correct Session_Correct Log_Ring Lifecycle_Correct Runner_Correct Runner_Reload Runner_Teardown Crash_Correct
    Log_Query Verify_Record Verify_Compare Verify_Diagnose Probe_Run Event_Emit Doctor_Check
begin

text \<open>
  A verification library of proc-compose, a supervisor that starts the processes of a YAML file in
  dependency order, watches and restarts them, and proves at shutdown that it left nothing running.

  \<^bold>\<open>The program and its model.\<close> \<^verbatim>\<open>internal/config\<close> turns a file into a validated configuration,
  \<^verbatim>\<open>internal/session\<close> reserves its ports and resources, and \<^verbatim>\<open>internal/runner\<close> runs it: one goroutine per
  process waits for its dependencies, executes the command in a process group of its own, and restarts
  it; a shutdown closes admission, seals every group and reports what it could not verify. Each Go
  function is one HOL function of the same name, cut only where it gives up a lock.

  \<^item> \<open>Go_Prelude\<close>: Go maps as association lists with distinct keys (the locale \<open>keyed_store\<close>), errors as
    options and sums, and the locale \<open>transition_invariant\<close> for step relations. \<open>Go_Strings\<close>: the parts of
    \<^verbatim>\<open>strings\<close>, \<^verbatim>\<open>strconv\<close> and \<^verbatim>\<open>path/filepath\<close> the program uses.
  \<^item> \<open>Config_Types\<close>, \<open>Config_Deps\<close>, \<open>Config_Refs\<close>, \<open>Config_Plan\<close>, \<open>Config_Merge\<close>, \<open>Config_Load\<close>:
    \<^verbatim>\<open>config.go\<close> and the planning half of \<^verbatim>\<open>explain.go\<close>. Records for \<^verbatim>\<open>Process\<close>, \<^verbatim>\<open>Merge\<close> and \<^verbatim>\<open>Config\<close>, every
    validation rule with its diagnostic code and path, the three-colour cycle search, \<^verbatim>\<open>${ports.*}\<close>
    references, selection and startup levels, the merge section, env files, and \<^verbatim>\<open>Load\<close> composed of them.
    \<open>Config_Wiring\<close> and \<open>Config_Correct\<close> prove what a loaded configuration satisfies.
  \<^item> \<open>Session_Lease\<close>, \<open>Session_Plan\<close>, \<open>Session_Correct\<close>: \<^verbatim>\<open>session.go\<close> over an explicit state of the operating
    system (lock files, listening ports): \<^verbatim>\<open>Acquire\<close>, \<^verbatim>\<open>Resolve\<close>, \<^verbatim>\<open>ReleasePorts\<close>, \<^verbatim>\<open>Close\<close>. The locales
    \<open>plan_invariant\<close> and \<open>framed_invariant\<close> carry an invariant through every acquisition step.
  \<^item> \<open>Log_Ring\<close>: the bounded log history of \<^verbatim>\<open>ipc/ringbuf.go\<close>, refining the list of newest entries that fit
    (locale \<open>bounded_history\<close>).
  \<^item> \<open>Proc_State\<close>, \<open>Lifecycle\<close>, \<open>Lifecycle_Correct\<close>: \<^verbatim>\<open>state.go\<close> and the first half of \<^verbatim>\<open>lifecycle.go\<close>. Every
    critical section on a \<^verbatim>\<open>procState\<close> is a case of the step relation \<open>proc_op\<close>; \<^verbatim>\<open>waitForDependency\<close> is a
    step relation of its own, and the restart loop of \<^verbatim>\<open>runProcess\<close> runs over the list of what its
    incarnations met.
  \<^item> \<open>Process_Group\<close>, \<open>Runner_Groups\<close>, \<open>Runner_Exec\<close>: the Unix process group with its signalling authority
    (\<^verbatim>\<open>processgroup*.go\<close>, \<^verbatim>\<open>exitwatch*.go\<close>) and the second half of \<^verbatim>\<open>lifecycle.go\<close>: the registry of groups,
    the crash record in the PID file, the shutdown verdict, and \<^verbatim>\<open>exec\<close>. \<open>Runner_Safety\<close> and \<open>Runner_Correct\<close>
    prove their invariants over \<open>runner_op\<close>, one critical section of any goroutine per step.
  \<^item> \<open>Process_Table\<close>, \<open>Crash_Recovery\<close>, \<open>Crash_Correct\<close>: \<^verbatim>\<open>recover_unix.go\<close>, what the next start does with the
    record of a supervisor that crashed. The process table is explicit: numbers are reused, a process is told
    from its successor by its start time, and a held pidfd keeps naming the process it was opened on. The
    table may change before every observation, within the laws \<open>table_ok\<close>; the locale \<open>recovery_pass\<close> carries
    that only what was recorded is signalled through every signalling strategy.
  \<^item> \<open>Runner_Reload\<close>: \<^verbatim>\<open>reload.go\<close> with the command loop that serialises it and the barrier that waits for its
    acknowledgements. \<open>Runner_Teardown\<close>: the checks and teardown commands the runner owns (\<^verbatim>\<open>check.go\<close>,
    \<^verbatim>\<open>teardown.go\<close>), and the verdict a run publishes.
  \<^item> \<open>Log_Rotate\<close>, \<open>Log_Query\<close>: the journal. \<^verbatim>\<open>logrotate.go\<close> over a disk of named files on which every operation may
    fail, and \<^verbatim>\<open>logs/query.go\<close>, which pins the files of a journal that may rotate under it, scans them from a
    cursor and shortens events to a byte budget.
  \<^item> \<open>Verify_Result\<close>, \<open>Verify_Receipt\<close>, \<open>Verify_Operation\<close>: the \<^verbatim>\<open>verify\<close> command (\<^verbatim>\<open>internal/verify\<close>). The result and
    its compact form; receipts with their identifiers, listing, pruning and classification, and the report of a
    check on its environment; \<open>Run_attempt\<close>, which composes \<open>Load\<close>, \<open>Acquire\<close>, \<open>ResolveCrashedRun\<close>, the wait for
    readiness, the check, the verdict of the runner, \<open>Query\<close>, the receipts and \<open>Close\<close>. \<open>Verify_Correct\<close> and
    \<open>Verify_Record\<close> prove what an attempt establishes, with one example attempt for the witnesses.
    \<open>Verify_Compare\<close> is \<^verbatim>\<open>compare.go\<close>, which repeats an attempt on two sides and judges whether they differ;
    \<open>Verify_Diagnose\<close> is \<^verbatim>\<open>diagnose.go\<close>, which scans the journal of an attempt with \<open>Query\<close> and condenses it per process.
  \<^item> \<open>Endpoint_Owner\<close>, \<open>Session_Registry\<close>, \<open>Probe_Run\<close>: who answers a probe. \<^verbatim>\<open>attest*.go\<close> on Linux from the text of
    \<^verbatim>\<open>/proc/net/tcp\<close> to the process that holds the socket; \<^verbatim>\<open>registry.go\<close> and the liveness checks of \<^verbatim>\<open>internal/daemon\<close>
    over the process table of \<open>Process_Table\<close>, which place a foreign answer in another session; \<^verbatim>\<open>probe.go\<close>, the polls
    of a readiness probe, the verdict they give an incarnation, and the health monitor over the state of \<open>Proc_State\<close>.
  \<^item> \<open>Ipc_Frames\<close>, \<open>Ipc_Server\<close>, \<open>Event_Emit\<close>: what a run shows. \<^verbatim>\<open>ipc/server.go\<close> reads commands frame by frame and answers
    each, and fans the events out to its monitors, as the step relation \<open>server_op\<close> with one critical section or one send
    per step; \<^verbatim>\<open>broadcast.go\<close> cuts the output of commands into lines and numbers every event of the run.
  \<^item> \<open>Doctor_Scan\<close>, \<open>Doctor_Check\<close>: the \<^verbatim>\<open>doctor\<close> command (\<^verbatim>\<open>internal/doctor\<close>), which finds the services of a project,
    suggests a configuration for them, and checks the one that exists with \<open>Load\<close>.

  \<^bold>\<open>What the theorems show.\<close> A loaded configuration is well formed and its plan starts dependencies
  first; cycle detection, selection and field validation are exact; a failed \<^verbatim>\<open>Acquire\<close> leaks nothing and
  \<^verbatim>\<open>Close\<close> undoes a successful one; a readiness verdict once published never changes, a wait concludes what
  was published and always ends, and a process runs only behind its dependencies; the restart limit and
  the backoff are exact; no signal follows a reap, the crash record covers every launch that may run, and
  a clean shutdown verdict means every registered group was seen empty. Crash recovery signals only
  processes the record names, and reports a group gone, or a session free to take over, only on evidence; a
  reload never changes the dependency graph under the running processes; teardown commands run only after a
  verified cleanup, and their captured output is a prefix of what they wrote. The journal loses nothing but whole
  files at its old end, and a reader between two writes finds all of it; a page of it keeps its limits. A passed
  attempt has all its evidence, every attempt ends in a consistent verdict, gives its leases back unless the
  runner may still signal, and leaves a receipt that reads back; pruning removes exactly the old receipts. A
  comparison calls two sides different only on outputs that prove it, and equal only when all of them agree; a
  diagnosis shows the newest part of each history. An endpoint is attributed to a process, and an answer to another
  session, only on evidence; a refused answer never makes a process ready, and the health monitor restarts it exactly
  after three recorded failures. A monitor that is served gets its snapshot, or none when
  no byte of it could be written, and misses no event after it; a frame of the command stream
  never affects another, no line of output is lost, and the events of a run are numbered in the order they are written.
  A configuration the doctor suggests runs the services it reports, each under its own name and with its own command,
  and loads when it has no merge section; and the doctor reports no error exactly when
  nothing is wrong.

  \<^bold>\<open>Parameters.\<close> Code outside the repository is an argument: the decoded YAML document, the file system,
  the regular expressions of routes and log probes, the answers of the kernel (the live members of a group
  as a function of time), and which select a goroutine takes. No theorem assumes a particular one.

  \<^bold>\<open>Bounds and fuel.\<close> \<open>visit\<close> and \<open>depth\<close> take as fuel one more than the number of processes, and it is proved
  that they do not run out. A loop with a deadline polls \<open>polls budget\<close> times, the number of sleeps of one
  interval that reach the deadline; the polls of recovery are the arguments \<open>grace\<close> and \<open>settle\<close>. Durations and Go \<^verbatim>\<open>int\<close> products that may overflow are reduced to 64
  bits; other Go \<^verbatim>\<open>int\<close> values are unbounded integers.

  \<^bold>\<open>Not modelled.\<close> YAML decoding, the JSON schema and line numbers of diagnostics (third-party nodes and
  reflection); session metadata files, the IPC client, terminal output, metrics, the bytes of HTTP and TCP traffic (input
  and output only); Windows job objects and socket tables. The goroutines of a run and the concurrency of an attempt
  with its stack are not: each function gets what it observes of the others as an argument. The monitor, the updater and
  the command line present what these parts compute and are left out.
\<close>

end
